(* ===== verification/Evl_Prelude.thy ===== *)
theory Evl_Prelude
  imports Main "HOL-Library.Word" "HOL-Library.Monad_Syntax"
begin

text \<open>
  Shared vocabulary of the development: the machine types of the C code, the error
  numbers it returns, and the fact collections and generic lemmas the components share.

  \<^item> \<open>u32\<close>, \<open>s32\<close>, \<open>u64\<close> are the fixed-width integers of the C code; arithmetic on them
    wraps, \<open>unat\<close> reads them as unsigned and \<open>sint\<close> as two's complement values.
  \<^item> \<open>addr\<close> is a 64-bit pointer value; 0 is the null pointer.
  \<^item> Error codes are the constants of \<^verbatim>\<open>errno.h\<close> with their Linux values; a C function that
    returns a negated error code returns the same integer in the model.
\<close>

unbundle bit_operations_syntax

type_synonym u16 = "16 word"
type_synonym u32 = "32 word"
type_synonym s32 = "32 word"
type_synonym u64 = "64 word"
type_synonym addr = "64 word"

abbreviation NULL :: addr where "NULL \<equiv> 0"

named_theorems avl_frame \<open>what an AVL helper leaves unchanged\<close>
named_theorems evl_defs \<open>definitions unfolded by the component proofs\<close>

subsection \<open>Error codes\<close>

definition EPERM :: int where "EPERM = 1"
definition ENOENT :: int where "ENOENT = 2"
definition EINTR :: int where "EINTR = 4"
definition ENXIO :: int where "ENXIO = 6"
definition EBADF :: int where "EBADF = 9"
definition EAGAIN :: int where "EAGAIN = 11"
definition ENOMEM :: int where "ENOMEM = 12"
definition EBUSY :: int where "EBUSY = 16"
definition EEXIST :: int where "EEXIST = 17"
definition EINVAL :: int where "EINVAL = 22"
definition ENOTTY :: int where "ENOTTY = 25"
definition EDEADLK :: int where "EDEADLK = 35"
definition ENOSYS :: int where "ENOSYS = 38"
definition EIDRM :: int where "EIDRM = 43"
definition ENAMETOOLONG :: int where "ENAMETOOLONG = 36"
definition ENOTSUP :: int where "ENOTSUP = 95"
definition ENOBUFS :: int where "ENOBUFS = 105"
definition ETIMEDOUT :: int where "ETIMEDOUT = 110"
definition ENOEXEC :: int where "ENOEXEC = 8"
definition ENODATA :: int where "ENODATA = 61"
definition EBADFD :: int where "EBADFD = 77"

lemmas errno_defs = EPERM_def ENOENT_def EINTR_def ENXIO_def EBADF_def EAGAIN_def ENOMEM_def
  EBUSY_def EEXIST_def EINVAL_def ENOTTY_def EDEADLK_def ENOSYS_def EIDRM_def ENAMETOOLONG_def
  ENOTSUP_def ENOBUFS_def ETIMEDOUT_def ENOEXEC_def ENODATA_def EBADFD_def

subsection \<open>Machine words\<close>

lemma unat64_less: "unat (x :: u64) < 2 ^ 64"
  by (rule order.strict_trans2[OF unsigned_less]) simp

lemma unat_and_not_mask: "unat (x AND NOT (mask k) :: u64) = unat x div 2 ^ k * 2 ^ k"
proof -
  have "x AND NOT (mask k) = push_bit k (drop_bit k x)"
    by (rule bit_word_eqI) (auto simp: bit_simps dest: bit_imp_le_length)
  then have "unat (x AND NOT (mask k)) = take_bit 64 (push_bit k (drop_bit k (unat x)))"
    using unat64_less[of x] by (simp add: unsigned_push_bit_eq unsigned_drop_bit_eq take_bit_nat_eq_self)
  also have "push_bit k (drop_bit k (unat x)) = unat x div 2 ^ k * 2 ^ k"
    by (simp add: push_bit_eq_mult drop_bit_eq_div)
  also have "take_bit 64 (unat x div 2 ^ k * 2 ^ k) = unat x div 2 ^ k * 2 ^ k"
    using unat64_less[of x] by (simp add: take_bit_nat_eq_self order.strict_trans1[OF div_times_less_eq_dividend])
  finally show ?thesis .
qed

subsection \<open>Generic list facts\<close>

lemma sorted_wrt_insert_mid:
  assumes "sorted_wrt P (xs @ ys)" and "\<forall>x\<in>set xs. P x a" and "\<forall>y\<in>set ys. P a y"
  shows "sorted_wrt P (xs @ a # ys)"
  using assms by (auto simp: sorted_wrt_append)

lemma sorted_wrt_delete_mid:
  "sorted_wrt P (xs @ a # ys) \<Longrightarrow> sorted_wrt P (xs @ ys)"
  by (auto simp: sorted_wrt_append)

lemma distinct_append_mid:
  "distinct (xs @ a # ys) \<longleftrightarrow> distinct (xs @ ys) \<and> a \<notin> set (xs @ ys)"
  by auto

lemma split_unique:
  assumes "distinct (xs @ a # ys)" and "xs @ a # ys = us @ a # vs"
  shows "xs = us \<and> ys = vs"
proof -
  have "distinct (us @ a # vs)" using assms by simp
  then have "a \<notin> set us" "a \<notin> set vs" "a \<notin> set xs" "a \<notin> set ys" using assms(1) by auto
  then show ?thesis using assms(2) by (metis append_Cons_eq_iff)
qed

end
