(* ===== verification/Avl.thy ===== *)
theory Avl
  imports Evl_Prelude
begin

text \<open>
  The AVL trees of \<^verbatim>\<open>lib/heap.c\<close>, translated at the level of the links. A node is a
  \<^verbatim>\<open>struct avlh\<close>: a side (\<open>ntype\<close>), a balance and three links indexed by
  \<open>avl_type2index\<close>. Nodes live in a memory \<open>avlmem\<close> from addresses to nodes, so that the
  updates through shared pointers are the ones of the code; the anchor embedded in
  \<^verbatim>\<open>struct avl\<close> is the node at address \<open>anchor\<close>. Loops over links are
  \<^theory_text>\<open>partial_function (option)\<close>: \<open>None\<close> is a loop that does not end, which the theories
  \<open>Avl_Insert\<close>, \<open>Avl_Delete\<close> and \<open>Avl_Search\<close> exclude for well-formed trees.
\<close>

section \<open>Nodes, links and the tree descriptor\<close>

record avlh =
  ntype :: int
  balance :: int
  link :: "int \<Rightarrow> addr"

type_synonym avlmem = "addr \<Rightarrow> avlh"

record avl =
  anchor :: addr
  end_of :: "int \<Rightarrow> addr"
  count :: u32
  height_of :: u32

type_synonym avl_st = "avlmem \<times> avl"

definition AVL_LEFT :: int where "AVL_LEFT = -1"
definition AVL_UP :: int where "AVL_UP = 0"
definition AVL_RIGHT :: int where "AVL_RIGHT = 1"

definition avl_opposite :: "int \<Rightarrow> int" where "avl_opposite t = - t"
definition avl_type2index :: "int \<Rightarrow> int" where "avl_type2index t = t + 1"

text \<open>\<^verbatim>\<open>type\<close> and \<^verbatim>\<open>balance\<close> are signed two-bit fields: a store keeps the value modulo 4.\<close>

definition bits2 :: "int \<Rightarrow> int" where
  "bits2 v = (v + 2) mod 4 - 2"

definition set_type :: "avlmem \<Rightarrow> addr \<Rightarrow> int \<Rightarrow> avlmem" where
  "set_type m h t = m(h := (m h)\<lparr>ntype := bits2 t\<rparr>)"

definition set_balance :: "avlmem \<Rightarrow> addr \<Rightarrow> int \<Rightarrow> avlmem" where
  "set_balance m h b = m(h := (m h)\<lparr>balance := bits2 b\<rparr>)"

definition avlh_link :: "avlmem \<Rightarrow> addr \<Rightarrow> int \<Rightarrow> addr" where
  "avlh_link m h dir = link (m h) (avl_type2index dir)"

definition avl_end :: "avl \<Rightarrow> int \<Rightarrow> addr" where
  "avl_end a dir = end_of a (avl_type2index dir)"

definition avlh_up :: "avlmem \<Rightarrow> addr \<Rightarrow> addr" where
  "avlh_up m h = avlh_link m h AVL_UP"

definition avl_top :: "avlmem \<Rightarrow> avl \<Rightarrow> addr" where
  "avl_top m a = avlh_link m (anchor a) AVL_RIGHT"

definition avl_head :: "avl \<Rightarrow> addr" where "avl_head a = avl_end a AVL_LEFT"
definition avl_tail :: "avl \<Rightarrow> addr" where "avl_tail a = avl_end a AVL_RIGHT"

definition avlh_has_child :: "avlmem \<Rightarrow> addr \<Rightarrow> int \<Rightarrow> bool" where
  "avlh_has_child m h side \<longleftrightarrow> avlh_link m h side \<noteq> NULL"

definition AVL_THR_LEFT :: nat where "AVL_THR_LEFT = 1"
definition AVL_THR_RIGHT :: nat where "AVL_THR_RIGHT = 4"

definition avlh_thr :: "avlmem \<Rightarrow> addr \<Rightarrow> nat" where
  "avlh_thr m h =
     (let result = 0;
          result = (if avlh_link m h AVL_LEFT = NULL then result OR AVL_THR_LEFT else result)
      in if avlh_link m h AVL_RIGHT = NULL then result OR AVL_THR_RIGHT else result)"

definition avlh_set_link :: "avlmem \<Rightarrow> addr \<Rightarrow> int \<Rightarrow> addr \<Rightarrow> avlmem" where
  "avlh_set_link m lhs dir rhs =
     m(lhs := (m lhs)\<lparr>link := (link (m lhs))(avl_type2index dir := rhs)\<rparr>)"

definition avlh_set_parent_link :: "avlmem \<Rightarrow> addr \<Rightarrow> addr \<Rightarrow> avlmem" where
  "avlh_set_parent_link m lhs rhs = avlh_set_link m (avlh_up m lhs) (ntype (m lhs)) rhs"

definition avlh_set_left :: "avlmem \<Rightarrow> addr \<Rightarrow> addr \<Rightarrow> avlmem" where
  "avlh_set_left m lhs rhs = avlh_set_link m lhs AVL_LEFT rhs"

definition avlh_set_up :: "avlmem \<Rightarrow> addr \<Rightarrow> addr \<Rightarrow> avlmem" where
  "avlh_set_up m lhs rhs = avlh_set_link m lhs AVL_UP rhs"

definition avlh_set_right :: "avlmem \<Rightarrow> addr \<Rightarrow> addr \<Rightarrow> avlmem" where
  "avlh_set_right m lhs rhs = avlh_set_link m lhs AVL_RIGHT rhs"

definition avl_set_end :: "avl \<Rightarrow> int \<Rightarrow> addr \<Rightarrow> avl" where
  "avl_set_end a dir h = a\<lparr>end_of := (end_of a)(avl_type2index dir := h)\<rparr>"

definition avl_set_top :: "avlmem \<Rightarrow> avl \<Rightarrow> addr \<Rightarrow> avlmem" where
  "avl_set_top m a h = avlh_set_link m (anchor a) AVL_RIGHT h"

definition avl_set_head :: "avl \<Rightarrow> addr \<Rightarrow> avl" where
  "avl_set_head a h = avl_set_end a AVL_LEFT h"

definition avl_set_tail :: "avl \<Rightarrow> addr \<Rightarrow> avl" where
  "avl_set_tail a h = avl_set_end a AVL_RIGHT h"

definition avlh_link_child :: "avlmem \<Rightarrow> addr \<Rightarrow> addr \<Rightarrow> int \<Rightarrow> avlmem" where
  "avlh_link_child m oldh newh side =
     (let child = avlh_link m oldh side;
          m = avlh_set_link m newh side child
      in if avlh_has_child m oldh side then avlh_set_up m child newh else m)"

definition avlh_replace :: "avlmem \<Rightarrow> addr \<Rightarrow> addr \<Rightarrow> avlmem" where
  "avlh_replace m oldh newh =
     (let m = set_type m newh (ntype (m oldh));
          m = avlh_set_up m newh (avlh_up m oldh);
          m = avlh_set_parent_link m oldh newh;
          m = avlh_link_child m oldh newh AVL_LEFT
      in avlh_link_child m oldh newh AVL_RIGHT)"

section \<open>In-order traversal and search\<close>

partial_function (option) avl_descend :: "avlmem \<Rightarrow> addr \<Rightarrow> int \<Rightarrow> addr option" where
  "avl_descend m holder dir =
     (if avlh_link m holder dir = NULL then Some holder
      else avl_descend m (avlh_link m holder dir) dir)"

partial_function (option) avl_ascend :: "avlmem \<Rightarrow> avl \<Rightarrow> addr \<Rightarrow> int \<Rightarrow> addr option" where
  "avl_ascend m a holder dir =
     (if avlh_up m holder = anchor a then Some NULL
      else if ntype (m holder) \<noteq> dir then Some (avlh_up m holder)
      else avl_ascend m a (avlh_up m holder) dir)"

definition avl_inorder :: "avlmem \<Rightarrow> avl \<Rightarrow> addr \<Rightarrow> int \<Rightarrow> addr option" where
  "avl_inorder m a holder dir =
     (if avlh_has_child m holder dir
      then avl_descend m (avlh_link m holder dir) (avl_opposite dir)
      else avl_ascend m a holder dir)"

definition avl_prev :: "avlmem \<Rightarrow> avl \<Rightarrow> addr \<Rightarrow> addr option" where
  "avl_prev m a holder = avl_inorder m a holder AVL_LEFT"

definition avl_next :: "avlmem \<Rightarrow> avl \<Rightarrow> addr \<Rightarrow> addr option" where
  "avl_next m a holder = avl_inorder m a holder AVL_RIGHT"

text \<open>
  \<^verbatim>\<open>DECLARE_AVL_SEARCH\<close>: the comparison is a parameter, as in the macro. The result is the
  last node visited and the last comparison.
\<close>

definition elvis :: "int \<Rightarrow> int \<Rightarrow> int" where
  "elvis delta dir = (if delta \<noteq> 0 then delta else dir)"

partial_function (option) avl_search_loop ::
  "avlmem \<Rightarrow> (addr \<Rightarrow> addr \<Rightarrow> int) \<Rightarrow> addr \<Rightarrow> int \<Rightarrow> addr \<Rightarrow> (addr \<times> int) option" where
  "avl_search_loop m cmp node dir holder =
     (let delta = cmp node holder in
      if elvis delta dir = 0 then Some (holder, delta)
      else if avlh_link m holder (elvis delta dir) = NULL then Some (holder, delta)
      else avl_search_loop m cmp node dir (avlh_link m holder (elvis delta dir)))"

definition avl_search ::
  "avlmem \<Rightarrow> avl \<Rightarrow> (addr \<Rightarrow> addr \<Rightarrow> int) \<Rightarrow> addr \<Rightarrow> int \<Rightarrow> (addr \<times> int) option" where
  "avl_search m a cmp node dir =
     (if avl_top m a = NULL then Some (NULL, AVL_RIGHT)
      else avl_search_loop m cmp node dir (avl_top m a))"

definition avl_search_nearest ::
  "avlmem \<Rightarrow> avl \<Rightarrow> (addr \<Rightarrow> addr \<Rightarrow> int) \<Rightarrow> addr \<Rightarrow> int \<Rightarrow> addr option" where
  "avl_search_nearest m a cmp node dir =
     (case avl_search m a cmp node 0 of
        None \<Rightarrow> None
      | Some (holder, delta) \<Rightarrow>
          if holder = NULL \<or> delta \<noteq> dir then Some holder else avl_inorder m a holder dir)"

definition avl_search_le ::
  "avlmem \<Rightarrow> avl \<Rightarrow> (addr \<Rightarrow> addr \<Rightarrow> int) \<Rightarrow> addr \<Rightarrow> addr option" where
  "avl_search_le m a cmp node = avl_search_nearest m a cmp node AVL_LEFT"

definition avl_search_ge ::
  "avlmem \<Rightarrow> avl \<Rightarrow> (addr \<Rightarrow> addr \<Rightarrow> int) \<Rightarrow> addr \<Rightarrow> addr option" where
  "avl_search_ge m a cmp node = avl_search_nearest m a cmp node AVL_RIGHT"

section \<open>Rotations and rebalancing\<close>

definition avlh_rotate :: "avlmem \<Rightarrow> addr \<Rightarrow> int \<Rightarrow> avlmem \<times> addr" where
  "avlh_rotate m holder dir =
     (let opp_dir = avl_opposite dir;
          nexttop = avlh_link m holder opp_dir;
          subtree = avlh_link m nexttop dir;
          m = (if subtree \<noteq> NULL then
                 let m = avlh_set_link m holder opp_dir subtree;
                     m = avlh_set_up m subtree holder
                 in set_type m subtree opp_dir
               else avlh_set_link m holder opp_dir NULL);
          m = avlh_set_link m nexttop dir holder;
          m = avlh_set_up m nexttop (avlh_up m holder);
          m = set_type m nexttop (ntype (m holder));
          m = avlh_set_up m holder nexttop;
          m = set_type m holder dir;
          m = avlh_set_parent_link m nexttop nexttop
      in (m, nexttop))"

definition avlh_dbl_rotate :: "avlmem \<Rightarrow> addr \<Rightarrow> int \<Rightarrow> avlmem \<times> addr" where
  "avlh_dbl_rotate m holder dir =
     (let opp = avl_opposite dir;
          m = fst (avlh_rotate m (avlh_link m holder opp) opp)
      in avlh_rotate m holder dir)"

definition avlh_rebalance :: "avlmem \<Rightarrow> addr \<Rightarrow> int \<Rightarrow> avlmem \<times> addr" where
  "avlh_rebalance m holder delta =
     (let dir = delta;
          heavy_side = avlh_link m holder dir
      in if balance (m heavy_side) = - delta then
           let (m, holder) = avlh_dbl_rotate m holder (avl_opposite dir);
               dir = elvis (balance (m holder)) AVL_RIGHT;
               m = set_balance m (avlh_link m holder dir) 0;
               m = set_balance m (avlh_link m holder (avl_opposite dir)) (- balance (m holder));
               m = set_balance m holder 0
           in (m, holder)
         else
           let m = fst (avlh_rotate m holder (avl_opposite dir));
               m = set_balance m holder (balance (m holder) - balance (m heavy_side));
               m = set_balance m heavy_side (balance (m heavy_side) - delta)
           in (m, heavy_side))"

definition avlh_balance_add :: "avlmem \<Rightarrow> addr \<Rightarrow> int \<Rightarrow> avlmem \<times> addr" where
  "avlh_balance_add m holder delta =
     (if balance (m holder) = delta then avlh_rebalance m holder delta
      else (set_balance m holder (balance (m holder) + delta), holder))"

section \<open>Deletion\<close>

definition avl_delete_leaf :: "avl_st \<Rightarrow> addr \<Rightarrow> avl_st" where
  "avl_delete_leaf st node =
     (let (m, a) = st;
          new_node = avlh_up m node;
          dir = ntype (m node);
          m = avlh_set_link m new_node dir (avlh_link m node dir)
      in (m, if node = avl_end a dir then avl_set_end a dir new_node else a))"

definition avl_delete_1child :: "avl_st \<Rightarrow> addr \<Rightarrow> int \<Rightarrow> avl_st \<times> addr" where
  "avl_delete_1child st node dir =
     (let (m, a) = st;
          new_node = avlh_link m node dir;
          m = avlh_set_link m node dir (avlh_link m new_node dir);
          m = avlh_replace m node new_node;
          a = (if node = avl_end a (avl_opposite dir)
               then avl_set_end a (avl_opposite dir) new_node else a)
      in ((m, a), new_node))"

text \<open>
  The rebalancing loop at the end of \<^verbatim>\<open>avl_delete\<close>: \<open>True\<close> in the result is the exit through
  \<^verbatim>\<open>dec_height_and_ret\<close>.
\<close>

partial_function (option) avl_delete_fixup ::
  "avlmem \<Rightarrow> addr \<Rightarrow> addr \<Rightarrow> (avlmem \<times> bool) option" where
  "avl_delete_fixup m anch node =
     (if balance (m node) \<noteq> 0 then Some (m, False)
      else if avlh_up m node = anch then Some (m, True)
      else (case avlh_balance_add m (avlh_up m node) (- ntype (m node)) of
              (m', node') \<Rightarrow> avl_delete_fixup m' anch node'))"

definition avl_delete_tail :: "avl_st \<Rightarrow> addr \<Rightarrow> avl_st option" where
  "avl_delete_tail st node =
     (case avl_delete_fixup (fst st) (anchor (snd st)) node of
        None \<Rightarrow> None
      | Some (m, dec) \<Rightarrow>
          Some (m, if dec then (snd st)\<lparr>height_of := height_of (snd st) - 1\<rparr> else snd st))"

definition avl_delete_2children_dir :: "avlmem \<Rightarrow> addr \<Rightarrow> int" where
  "avl_delete_2children_dir m node = (if balance (m node) \<noteq> 0 then balance (m node) else 1)"

text \<open>The part of \<^verbatim>\<open>avl_delete_2children\<close> that follows the recursive \<^verbatim>\<open>avl_delete\<close>.\<close>

definition avl_delete_2children_finish :: "avl_st \<Rightarrow> addr \<Rightarrow> addr \<Rightarrow> int \<Rightarrow> avl_st" where
  "avl_delete_2children_finish st node new_node dir =
     (let (m, a) = st;
          a = a\<lparr>count := count a + 1\<rparr>;
          m = avlh_replace m node new_node;
          m = set_balance m new_node (balance (m node))
      in (m, if avl_end a dir = node then avl_set_end a dir new_node else a))"

partial_function (option) avl_delete :: "avl_st \<Rightarrow> addr \<Rightarrow> avl_st option" where
  "avl_delete st node =
     (let m = fst st; a = (snd st)\<lparr>count := count (snd st) - 1\<rparr> in
      if count a = 0 then
        Some (avl_set_top m a NULL,
              (avl_set_tail (avl_set_head a NULL) NULL)\<lparr>height_of := height_of a - 1\<rparr>)
      else if avlh_thr m node = AVL_THR_LEFT OR AVL_THR_RIGHT then
        avl_delete_tail (avl_delete_leaf (m, a) node) node
      else if avlh_thr m node = AVL_THR_LEFT then
        (case avl_delete_1child (m, a) node AVL_RIGHT of (st', node') \<Rightarrow> avl_delete_tail st' node')
      else if avlh_thr m node = AVL_THR_RIGHT then
        (case avl_delete_1child (m, a) node AVL_LEFT of (st', node') \<Rightarrow> avl_delete_tail st' node')
      else
        Option.bind (avl_inorder m a node (avl_delete_2children_dir m node)) (\<lambda>new_node.
        Option.bind (avl_delete (m, a) new_node) (\<lambda>st'.
        Some (avl_delete_2children_finish st' node new_node (avl_delete_2children_dir m node)))))"

section \<open>Insertion\<close>

definition avlh_attach :: "avlmem \<Rightarrow> addr \<Rightarrow> addr \<Rightarrow> int \<Rightarrow> avlmem" where
  "avlh_attach m parent child side =
     (let m = avlh_set_left m child NULL;
          m = avlh_set_right m child NULL;
          m = avlh_set_up m child parent;
          m = avlh_set_link m parent side child
      in set_type m child side)"

text \<open>
  The loop of \<^verbatim>\<open>avl_insert_inner\<close>: \<open>True\<close> in the result is the exit through
  \<^verbatim>\<open>inc_height_and_ret\<close>.
\<close>

partial_function (option) avl_insert_fixup ::
  "avlmem \<Rightarrow> addr \<Rightarrow> addr \<Rightarrow> (avlmem \<times> bool) option" where
  "avl_insert_fixup m anch parent =
     (if balance (m parent) = 0 then Some (m, False)
      else if avlh_up m parent = anch then Some (m, True)
      else (case avlh_balance_add m (avlh_up m parent) (ntype (m parent)) of
              (m', parent') \<Rightarrow> avl_insert_fixup m' anch parent'))"

definition avl_insert_inner :: "avl_st \<Rightarrow> addr \<Rightarrow> addr \<Rightarrow> int \<Rightarrow> avl_st option" where
  "avl_insert_inner st parent node side =
     (let (m, a) = st;
          m = avlh_attach m (if parent \<noteq> NULL then parent else anchor a) node side;
          a = a\<lparr>count := count a + 1\<rparr>
      in if parent = NULL then
           let a = avl_set_tail (avl_set_head a node) node
           in Some (m, a\<lparr>height_of := height_of a + 1\<rparr>)
         else
           let a = (if parent = avl_end a side then avl_set_end a side node else a);
               m = set_balance m parent (balance (m parent) + side)
           in case avl_insert_fixup m (anchor a) parent of
                None \<Rightarrow> None
              | Some (m, inc) \<Rightarrow>
                  Some (m, if inc then a\<lparr>height_of := height_of a + 1\<rparr> else a))"

text \<open>
  \<^verbatim>\<open>avl_insert\<close> and \<^verbatim>\<open>avl_prepend\<close> carry assertions. The heap is compiled with \<^verbatim>\<open>NDEBUG\<close> when
  optimised; a failed assertion of the other builds is the result \<open>None\<close>.
\<close>

definition avl_insert :: "avl_st \<Rightarrow> (addr \<Rightarrow> addr \<Rightarrow> int) \<Rightarrow> addr \<Rightarrow> avl_st option" where
  "avl_insert st cmp holder =
     (case avl_search (fst st) (snd st) cmp holder 0 of
        None \<Rightarrow> None
      | Some (parent, delta) \<Rightarrow>
          if delta = 0 then None else avl_insert_inner st parent holder delta)"

definition avl_insert_back :: "avl_st \<Rightarrow> (addr \<Rightarrow> addr \<Rightarrow> int) \<Rightarrow> addr \<Rightarrow> avl_st option" where
  "avl_insert_back st cmp holder =
     (case avl_search (fst st) (snd st) cmp holder AVL_RIGHT of
        None \<Rightarrow> None
      | Some (parent, delta) \<Rightarrow> avl_insert_inner st parent holder (elvis delta AVL_RIGHT))"

definition avl_prepend :: "avl_st \<Rightarrow> (addr \<Rightarrow> addr \<Rightarrow> int) \<Rightarrow> addr \<Rightarrow> avl_st option" where
  "avl_prepend st cmp holder =
     (let parent = avl_head (snd st);
          side = (if parent = NULL then AVL_RIGHT else AVL_LEFT)
      in if parent = NULL \<or> cmp holder parent < 0
         then avl_insert_inner st parent holder side else None)"

definition avl_replace ::
  "avl_st \<Rightarrow> (addr \<Rightarrow> addr \<Rightarrow> int) \<Rightarrow> addr \<Rightarrow> addr \<Rightarrow> avl_st option" where
  "avl_replace st cmp oldh newh =
     (let (m, a) = st in
      Option.bind (avl_prev m a oldh) (\<lambda>prev.
      Option.bind (avl_next m a oldh) (\<lambda>next.
      if (prev \<noteq> NULL \<and> cmp newh prev < 0) \<or> (next \<noteq> NULL \<and> cmp newh next > 0) then None
      else
        let m = avlh_replace m oldh newh;
            a = (if oldh = avl_head a then avl_set_head a newh else a);
            a = (if oldh = avl_tail a then avl_set_tail a newh else a)
        in Some (set_balance m newh (balance (m oldh)), a))))"

definition avlh_init :: "avlmem \<Rightarrow> addr \<Rightarrow> avlmem" where
  "avlh_init m h = set_type (set_balance m h 0) h 0"

definition avl_init :: "avl_st \<Rightarrow> avl_st" where
  "avl_init st =
     (let (m, a) = st;
          m = avlh_init m (anchor a);
          a = a\<lparr>height_of := 0\<rparr>;
          a = a\<lparr>count := 0\<rparr>;
          m = avl_set_top m a NULL
      in (m, avl_set_tail (avl_set_head a NULL) NULL))"

lemmas [code] = avl_descend.simps avl_ascend.simps avl_search_loop.simps
  avl_delete_fixup.simps avl_delete.simps avl_insert_fixup.simps

end
