(* ===== verification/Avl_Shape.thy ===== *)
theory Avl_Shape
  imports "HOL-Library.Tree" Avl
begin

text \<open>
  What an AVL tree in memory represents. \<open>links\<close> relates the links, parents and sides of a
  subtree to a functional tree of node addresses, \<open>bals\<close> its balance fields to the heights,
  \<open>avlt\<close> is the AVL condition. A path from a subtree up to the anchor is a list of frames
  (\<open>links_ctx\<close>, \<open>bals_ctx\<close>), so that the loops of the code that walk up the parents become
  inductions over that list. \<open>avl_rep\<close> is the invariant of a whole \<^verbatim>\<open>struct avl\<close>.
\<close>

lemmas avl_consts = AVL_LEFT_def AVL_RIGHT_def AVL_UP_def avl_opposite_def

section \<open>Reading a memory after an update\<close>

lemma avlh_link_set_link [simp]:
  "avlh_link (avlh_set_link m x d v) y d' = (if x = y \<and> d = d' then v else avlh_link m y d')"
  by (auto simp: avlh_link_def avlh_set_link_def avl_type2index_def)

lemma ntype_set_link [simp]: "ntype (avlh_set_link m x d v y) = ntype (m y)"
  by (auto simp: avlh_set_link_def)

lemma balance_set_link [simp]: "balance (avlh_set_link m x d v y) = balance (m y)"
  by (auto simp: avlh_set_link_def)

lemma avlh_link_set_type [simp]: "avlh_link (set_type m x t) y d = avlh_link m y d"
  by (auto simp: avlh_link_def set_type_def)

lemma ntype_set_type [simp]:
  "ntype (set_type m x t y) = (if x = y then bits2 t else ntype (m y))"
  by (auto simp: set_type_def)

lemma balance_set_type [simp]: "balance (set_type m x t y) = balance (m y)"
  by (auto simp: set_type_def)

lemma avlh_link_set_balance [simp]: "avlh_link (set_balance m x t) y d = avlh_link m y d"
  by (auto simp: avlh_link_def set_balance_def)

lemma ntype_set_balance [simp]: "ntype (set_balance m x t y) = ntype (m y)"
  by (auto simp: set_balance_def)

lemma balance_set_balance [simp]:
  "balance (set_balance m x b y) = (if x = y then bits2 b else balance (m y))"
  by (auto simp: set_balance_def)

lemma upd_other [simp]:
  "x \<noteq> y \<Longrightarrow> avlh_set_link m x d v y = m y"
  "x \<noteq> y \<Longrightarrow> set_type m x t y = m y"
  "x \<noteq> y \<Longrightarrow> set_balance m x b y = m y"
  by (auto simp: avlh_set_link_def set_type_def set_balance_def)

lemma bits2_small: "-2 \<le> v \<Longrightarrow> v \<le> 1 \<Longrightarrow> bits2 v = v"
  by (simp add: bits2_def)

lemma bits2_unit [simp]: "bits2 0 = 0" "bits2 1 = 1" "bits2 (-1) = -1"
  by (simp_all add: bits2_def)

lemmas avl_setters = avlh_set_up_def avlh_set_left_def avlh_set_right_def
  avlh_set_parent_link_def avl_set_top_def

section \<open>Trees of node addresses\<close>

definition side :: "int \<Rightarrow> bool" where
  "side d \<longleftrightarrow> d = 1 \<or> d = -1"

lemma side_simps [simp]: "side 1" "side (-1)" "side (- d) = side d"
  by (auto simp: side_def)

lemma sideD:
  "side d \<Longrightarrow> d \<noteq> 0" "side d \<Longrightarrow> - d \<noteq> d" "side d \<Longrightarrow> d \<noteq> - d" "side d \<Longrightarrow> 0 \<noteq> d"
  "side d \<Longrightarrow> bits2 d = d" "side d \<Longrightarrow> bits2 (- d) = - d"
  by (auto simp: side_def)

fun rootp :: "addr tree \<Rightarrow> addr" where
  "rootp Leaf = NULL"
| "rootp (Node l a r) = a"

fun links :: "avlmem \<Rightarrow> addr \<Rightarrow> int \<Rightarrow> addr tree \<Rightarrow> bool" where
  "links m p s Leaf \<longleftrightarrow> True"
| "links m p s (Node l a r) \<longleftrightarrow>
     a \<noteq> NULL \<and> avlh_link m a 0 = p \<and> ntype (m a) = s \<and>
     avlh_link m a (-1) = rootp l \<and> avlh_link m a 1 = rootp r \<and>
     links m a (-1) l \<and> links m a 1 r"

fun bals :: "avlmem \<Rightarrow> addr tree \<Rightarrow> bool" where
  "bals m Leaf \<longleftrightarrow> True"
| "bals m (Node l a r) \<longleftrightarrow>
     balance (m a) = int (height r) - int (height l) \<and> bals m l \<and> bals m r"

fun avlt :: "addr tree \<Rightarrow> bool" where
  "avlt Leaf \<longleftrightarrow> True"
| "avlt (Node l a r) \<longleftrightarrow> \<bar>int (height r) - int (height l)\<bar> \<le> 1 \<and> avlt l \<and> avlt r"

text \<open>A node seen from one of its sides: \<open>y\<close> is the subtree on side \<open>d\<close>, \<open>x\<close> the other one.\<close>

definition nd :: "int \<Rightarrow> addr tree \<Rightarrow> addr \<Rightarrow> addr tree \<Rightarrow> addr tree" where
  "nd d x a y = (if d = 1 then Node x a y else Node y a x)"

lemma links_nd:
  "side d \<Longrightarrow> links m p s (nd d x a y) \<longleftrightarrow>
     a \<noteq> NULL \<and> avlh_link m a 0 = p \<and> ntype (m a) = s \<and>
     avlh_link m a (- d) = rootp x \<and> avlh_link m a d = rootp y \<and>
     links m a (- d) x \<and> links m a d y"
  by (auto simp: nd_def side_def)

lemma bals_nd:
  "side d \<Longrightarrow> bals m (nd d x a y) \<longleftrightarrow>
     balance (m a) = d * (int (height y) - int (height x)) \<and> bals m x \<and> bals m y"
  by (auto simp: nd_def side_def)

lemma avlt_nd:
  "avlt (nd d x a y) \<longleftrightarrow> \<bar>int (height y) - int (height x)\<bar> \<le> 1 \<and> avlt x \<and> avlt y"
  by (auto simp: nd_def)

lemma rootp_nd [simp]: "rootp (nd d x a y) = a"
  by (simp add: nd_def)

lemma nd_not_Leaf [simp]: "nd d x a y \<noteq> Leaf"
  by (simp add: nd_def)

lemma set_nd [simp]: "set_tree (nd d x a y) = insert a (set_tree x \<union> set_tree y)"
  by (auto simp: nd_def)

lemma size_nd [simp]: "size (nd d x a y) = size x + size y + 1"
  by (auto simp: nd_def)

lemma height_nd: "height (nd d x a y) = 1 + max (height x) (height y)"
  by (auto simp: nd_def)

lemma inorder_nd:
  "inorder (nd d x a y) = (if d = 1 then inorder x @ a # inorder y else inorder y @ a # inorder x)"
  by (simp add: nd_def)

lemma nd_cases: "side d \<Longrightarrow> t \<noteq> Leaf \<Longrightarrow> (\<And>x a y. t = nd d x a y \<Longrightarrow> P) \<Longrightarrow> P"
  by (cases t) (auto simp: nd_def side_def)

lemma distinct_inorder_nd:
  "distinct (inorder (nd d x a y)) \<longleftrightarrow>
     distinct (inorder x) \<and> distinct (inorder y) \<and> a \<notin> set_tree x \<and> a \<notin> set_tree y \<and>
     set_tree x \<inter> set_tree y = {}"
  by (auto simp: nd_def set_inorder[symmetric] simp del: set_inorder)

lemma links_NULL: "links m p s t \<Longrightarrow> NULL \<notin> set_tree t"
  by (induction t arbitrary: p s) auto

lemma rootp_in [simp]: "t \<noteq> Leaf \<Longrightarrow> rootp t \<in> set_tree t"
  by (cases t) auto

lemma rootp_NULL: "links m p s t \<Longrightarrow> rootp t = NULL \<longleftrightarrow> t = Leaf"
  by (cases t) auto

section \<open>Frame rules\<close>

lemma links_cong:
  assumes "\<And>x. x \<in> set_tree t \<Longrightarrow> ntype (m' x) = ntype (m x) \<and> (\<forall>d. avlh_link m' x d = avlh_link m x d)"
  shows "links m' p s t = links m p s t"
  using assms by (induction t arbitrary: p s) auto

lemma bals_cong:
  assumes "\<And>x. x \<in> set_tree t \<Longrightarrow> balance (m' x) = balance (m x)"
  shows "bals m' t = bals m t"
  using assms by (induction t) auto

lemma links_set_link [simp]:
  "x \<notin> set_tree t \<Longrightarrow> links (avlh_set_link m x d v) p s t = links m p s t"
  by (rule links_cong) auto

lemma links_set_type [simp]:
  "x \<notin> set_tree t \<Longrightarrow> links (set_type m x ty) p s t = links m p s t"
  by (rule links_cong) auto

lemma links_set_balance [simp]: "links (set_balance m x b) p s t = links m p s t"
  by (rule links_cong) auto

lemma bals_set_link [simp]: "bals (avlh_set_link m x d v) t = bals m t"
  by (rule bals_cong) auto

lemma bals_set_type [simp]: "bals (set_type m x ty) t = bals m t"
  by (rule bals_cong) auto

lemma bals_set_balance [simp]: "x \<notin> set_tree t \<Longrightarrow> bals (set_balance m x b) t = bals m t"
  by (rule bals_cong) auto

section \<open>Rotation\<close>

text \<open>
  What a step changes: nothing outside the nodes \<open>S\<close>, except the link from \<open>p\<close> on side \<open>s\<close>.
\<close>

definition only_changes :: "avlmem \<Rightarrow> avlmem \<Rightarrow> addr set \<Rightarrow> addr \<Rightarrow> int \<Rightarrow> bool" where
  "only_changes m m' S p s \<longleftrightarrow>
     (\<forall>q. q \<notin> S \<longrightarrow> q \<noteq> p \<longrightarrow> m' q = m q) \<and>
     (p \<notin> S \<longrightarrow> ntype (m' p) = ntype (m p) \<and> balance (m' p) = balance (m p) \<and>
        (\<forall>e. e \<noteq> s \<longrightarrow> avlh_link m' p e = avlh_link m p e))"

lemma only_changes_trans:
  "only_changes m m' S p s \<Longrightarrow> only_changes m' m'' S p s \<Longrightarrow> only_changes m m'' S p s"
  by (auto simp: only_changes_def)

lemma only_changes_mono:
  "only_changes m m' S p s \<Longrightarrow> S \<subseteq> S' \<Longrightarrow> only_changes m m' S' p s"
  unfolding only_changes_def by blast

lemma only_changes_refl [simp]: "only_changes m m S p s"
  by (simp add: only_changes_def)

lemma only_changes_setters:
  "only_changes m m' S p s \<Longrightarrow> x \<in> S \<or> x = p \<and> d = s \<Longrightarrow> only_changes m (avlh_set_link m' x d v) S p s"
  "only_changes m m' S p s \<Longrightarrow> x \<in> S \<Longrightarrow> only_changes m (set_type m' x t) S p s"
  "only_changes m m' S p s \<Longrightarrow> x \<in> S \<Longrightarrow> only_changes m (set_balance m' x b) S p s"
  unfolding only_changes_def by (auto, (metis upd_other)+)

text \<open>The memory after a rotation, with every value read from the memory before it.\<close>

definition rotated :: "avlmem \<Rightarrow> int \<Rightarrow> addr \<Rightarrow> addr \<Rightarrow> addr \<Rightarrow> addr \<Rightarrow> int \<Rightarrow> avlmem" where
  "rotated m d h n b p s =
     (let m = avlh_set_link m h d b;
          m = (if b = NULL then m else set_type (avlh_set_link m b 0 h) b d);
          m = avlh_set_link (set_type (avlh_set_link (avlh_set_link m n (- d) h) n 0 p) n s) p s n
      in set_type (avlh_set_link m h 0 n) h (- d))"

lemma swap_setters:
  "x \<noteq> y \<Longrightarrow> avlh_set_link (set_type m x t) y e v = set_type (avlh_set_link m y e v) x t"
  "x \<noteq> y \<Longrightarrow> avlh_set_link (avlh_set_link m x e' v') y e v = avlh_set_link (avlh_set_link m y e v) x e' v'"
  by (auto simp: set_type_def avlh_set_link_def fun_upd_twist)

lemma avlh_rotate_eq:
  assumes "side d" "side s" "avlh_link m h d = n" "avlh_link m n (- d) = b" "avlh_link m h 0 = p"
    "ntype (m h) = s" "h \<noteq> n" "p \<noteq> h" "p \<noteq> n" "b \<noteq> NULL \<longrightarrow> b \<noteq> h \<and> b \<noteq> n \<and> b \<noteq> p"
  shows "avlh_rotate m h (- d) = (rotated m d h n b p s, n)"
  using assms sideD[OF assms(1)] sideD[OF assms(2)]
  by (cases "b = NULL")
    (simp_all add: avlh_rotate_def rotated_def Let_def avl_consts avl_setters avlh_up_def swap_setters)

lemma avlh_rotate_links:
  assumes d: "side d" "side s"
    and l: "links m p s (nd d x h (nd d y n z))"
    and dist: "distinct (inorder (nd d x h (nd d y n z)))"
    and p: "p \<notin> set_tree (nd d x h (nd d y n z))" "avlh_link m p s = h"
  shows "\<exists>m'. avlh_rotate m h (- d) = (m', n) \<and> links m' p s (nd d (nd d x h y) n z) \<and>
    avlh_link m' p s = n \<and> (\<forall>q. balance (m' q) = balance (m q)) \<and>
    only_changes m m' (set_tree (nd d x h (nd d y n z))) p s"
proof -
  note facts = l[unfolded links_nd[OF d(1)]] dist[unfolded distinct_inorder_nd] p
  have ne: "h \<noteq> n" "p \<noteq> h" "p \<noteq> n" "n \<noteq> NULL" "h \<noteq> NULL" using facts by auto
  have b: "rootp y \<noteq> NULL \<longrightarrow> rootp y \<noteq> h \<and> rootp y \<noteq> n \<and> rootp y \<noteq> p" "rootp y = NULL \<longleftrightarrow> y = Leaf"
    using facts by (cases y; auto)+
  let ?m = "rotated m d h n (rootp y) p s"
  have eq: "avlh_rotate m h (- d) = (?m, n)"
    by (rule avlh_rotate_eq) (use facts d ne b sideD[OF d(1)] in auto)
  have bal: "balance (?m q) = balance (m q)" for q by (simp add: rotated_def Let_def)
  have oc: "only_changes m ?m (set_tree (nd d x h (nd d y n z))) p s"
    using b by (cases "y = Leaf") (simp_all add: rotated_def Let_def only_changes_setters)
  have "links ?m p s (nd d (nd d x h y) n z) \<and> avlh_link ?m p s = n"
  proof (cases y)
    case Leaf
    then show ?thesis
      using facts d sideD[OF d(1)] sideD[OF d(2)] ne ne[symmetric] by (simp add: rotated_def Let_def links_nd[OF d(1)])
  next
    case (Node yl c yr)
    have "c \<noteq> h" "c \<noteq> n" "c \<noteq> p" using Node b facts by auto
    then show ?thesis
      using facts d sideD[OF d(1)] sideD[OF d(2)] ne ne[symmetric] Node by (simp add: rotated_def Let_def links_nd[OF d(1)])
  qed
  with eq bal oc show ?thesis by blast
qed
lemma nd_flip: "side d \<Longrightarrow> nd (- d) x a y = nd d y a x"
  by (auto simp: nd_def side_def)

lemma only_changes_other:
  "only_changes m m' S p s \<Longrightarrow> q \<notin> S \<Longrightarrow> q \<noteq> p \<Longrightarrow> m' q = m q"
  by (simp add: only_changes_def)

lemma only_changes_parent:
  "only_changes m m' S p s \<Longrightarrow> p \<notin> S \<Longrightarrow> e \<noteq> s \<Longrightarrow> avlh_link m' p e = avlh_link m p e"
  "only_changes m m' S p s \<Longrightarrow> p \<notin> S \<Longrightarrow> ntype (m' p) = ntype (m p)"
  "only_changes m m' S p s \<Longrightarrow> p \<notin> S \<Longrightarrow> balance (m' p) = balance (m p)"
  by (simp_all add: only_changes_def)

lemma links_only_changes:
  "only_changes m m' S p s \<Longrightarrow> S \<inter> set_tree t = {} \<Longrightarrow> p \<notin> set_tree t \<Longrightarrow>
     links m' q e t = links m q e t"
  by (rule links_cong) (metis avlh_link_def disjoint_iff only_changes_other)

lemma bals_only_changes:
  "only_changes m m' S p s \<Longrightarrow> S \<inter> set_tree t = {} \<Longrightarrow> p \<notin> set_tree t \<Longrightarrow> bals m' t = bals m t"
  by (rule bals_cong) (metis disjoint_iff only_changes_other)

lemma only_changes_up:
  assumes "only_changes m m' S a g" "insert a S \<subseteq> S'"
  shows "only_changes m m' S' p s"
proof -
  have "m' q = m q" if "q \<notin> S'" for q using assms that by (auto simp: only_changes_def)
  then show ?thesis by (simp add: only_changes_def avlh_link_def)
qed

lemma avlh_dbl_rotate_links:
  fixes x u v z :: "addr tree"
  defines "T \<equiv> \<lambda>g a n q. nd g x a (nd g (nd g u q v) n z)"
  assumes g: "side g" "side s"
    and l: "links m p s (T g a n q)" and dist: "distinct (inorder (T g a n q))"
    and p: "p \<notin> set_tree (T g a n q)" "avlh_link m p s = a"
  shows "\<exists>m'. avlh_dbl_rotate m a (- g) = (m', q) \<and>
    links m' p s (nd g (nd g x a u) q (nd g v n z)) \<and> avlh_link m' p s = q \<and>
    (\<forall>r. balance (m' r) = balance (m r)) \<and> only_changes m m' (set_tree (T g a n q)) p s"
proof -
  have mg: "side (- g)" using g by simp
  have y: "nd g (nd g u q v) n z = nd (- g) z n (nd (- g) v q u)"
    using g by (simp add: nd_flip)
  note l' = l[unfolded T_def links_nd[OF g(1)]] and d' = dist[unfolded T_def distinct_inorder_nd]
  have ly: "links m a g (nd (- g) z n (nd (- g) v q u))"
    using l unfolding T_def links_nd[OF g(1), of m p s] y by blast
  have dy: "distinct (inorder (nd (- g) z n (nd (- g) v q u)))"
    using dist unfolding T_def distinct_inorder_nd[of g x] y by blast
  have a: "a \<notin> set_tree (nd (- g) z n (nd (- g) v q u))" "avlh_link m a g = n"
    using l' d' by auto
  obtain m1 where m1: "avlh_rotate m n g = (m1, q)"
    "links m1 a g (nd g u q (nd g v n z))" "avlh_link m1 a g = q"
    "\<forall>r. balance (m1 r) = balance (m r)"
    "only_changes m m1 (set_tree (nd (- g) z n (nd (- g) v q u))) a g"
    using avlh_rotate_links[OF mg g(1) ly dy a] g by (auto simp: nd_flip)
  have pn: "p \<notin> set_tree (nd (- g) z n (nd (- g) v q u))" "p \<noteq> a" using p by (auto simp: T_def)
  have x: "links m1 a (- g) x"
    using links_only_changes[OF m1(5), of x a "- g"] l' d' by auto
  have l1: "links m1 p s (nd g x a (nd g u q (nd g v n z)))"
    unfolding links_nd[OF g(1), of m1 p s]
    using m1 x l' only_changes_parent[OF m1(5) a(1)] sideD(2)[OF g(1)] sideD(1)[OF g(1)] by auto
  have d1: "distinct (inorder (nd g x a (nd g u q (nd g v n z))))"
    using d' unfolding distinct_inorder_nd by auto
  have p1: "p \<notin> set_tree (nd g x a (nd g u q (nd g v n z)))" "avlh_link m1 p s = a"
    using p only_changes_other[OF m1(5) pn] by (auto simp: T_def avlh_link_def)
  obtain m2 where m2: "avlh_rotate m1 a (- g) = (m2, q)"
    "links m2 p s (nd g (nd g x a u) q (nd g v n z))" "avlh_link m2 p s = q"
    "\<forall>r. balance (m2 r) = balance (m1 r)"
    "only_changes m1 m2 (set_tree (nd g x a (nd g u q (nd g v n z)))) p s"
    using avlh_rotate_links[OF g l1 d1 p1] by blast
  have oc: "only_changes m m2 (set_tree (T g a n q)) p s"
    by (rule only_changes_trans[OF only_changes_up[OF m1(5)] only_changes_mono[OF m2(5)]])
      (auto simp: T_def)
  have "avlh_dbl_rotate m a (- g) = (m2, q)"
    using m1(1) m2(1) a(2) by (simp add: avlh_dbl_rotate_def Let_def avl_opposite_def)
  with m1 m2 oc show ?thesis by auto
qed

end
