(* ===== verification/Avl_Balance.thy ===== *)
theory Avl_Balance
  imports Avl_Shape
begin

text \<open>
  \<^verbatim>\<open>avlh_rebalance\<close> and \<^verbatim>\<open>avlh_balance_add\<close> on represented trees: the subtree keeps its in-order
  list, becomes an AVL tree again with exact balance fields, and its new height shows in the
  balance of its root.
\<close>

lemma bits2_side [simp]: "side g \<Longrightarrow> bits2 g = g" "side g \<Longrightarrow> bits2 (- g) = - g"
  by (auto simp: side_def)

lemma set_balance_swap:
  "x \<noteq> y \<Longrightarrow> set_balance (set_balance m x b) y c = set_balance (set_balance m y c) x b"
  by (simp add: set_balance_def fun_upd_twist)

text \<open>
  Rebalancing the node \<open>a\<close> whose subtree on side \<open>g\<close> is two levels higher than the other
  one, while its balance field still says one: a single rotation when the heavy child does not
  lean to the inside, a double one when it does.
\<close>

lemma avlh_rebalance_single:
  assumes g: "side g" "side s"
    and l: "links m p s (nd g x a (nd g w n z))"
    and dist: "distinct (inorder (nd g x a (nd g w n z)))"
    and p: "p \<notin> set_tree (nd g x a (nd g w n z))" "avlh_link m p s = a"
    and b: "bals m x" "bals m (nd g w n z)" "avlt x" "avlt (nd g w n z)" "balance (m a) = g"
    and h: "height (nd g w n z) = height x + 2" "height w \<le> height z"
  shows "\<exists>m' T. avlh_rebalance m a g = (m', rootp T) \<and> T \<noteq> Leaf \<and> links m' p s T \<and>
    avlh_link m' p s = rootp T \<and> bals m' T \<and> avlt T \<and>
    inorder T = inorder (nd g x a (nd g w n z)) \<and>
    height T = height x + 2 + (if balance (m' (rootp T)) = 0 then 0 else 1) \<and>
    only_changes m m' (set_tree (nd g x a (nd g w n z))) p s"
proof -
  obtain m1 where m1: "avlh_rotate m a (- g) = (m1, n)" "links m1 p s (nd g (nd g x a w) n z)"
    "avlh_link m1 p s = n" "\<forall>q. balance (m1 q) = balance (m q)"
    "only_changes m m1 (set_tree (nd g x a (nd g w n z))) p s"
    using avlh_rotate_links[OF g l dist p] by blast
  note bb = b[unfolded bals_nd[OF g(1)] avlt_nd]
  have ds: "a \<noteq> n" "a \<notin> set_tree x" "a \<notin> set_tree w" "a \<notin> set_tree z" "n \<notin> set_tree x"
    "n \<notin> set_tree w" "n \<notin> set_tree z" "p \<noteq> a" "p \<noteq> n"
    using dist p unfolding distinct_inorder_nd by auto
  have bx: "bals m1 x" "bals m1 w" "bals m1 z"
    using bb m1(4) bals_cong[of x m1 m] bals_cong[of w m1 m] bals_cong[of z m1 m] by auto
  have hn: "avlh_link m a g = n" using l unfolding links_nd[OF g(1)] by simp
  have bn: "balance (m n) = g * (int (height z) - int (height w))" using bb by simp
  have hz: "int (height z) = int (height x) + 1" "int (height w) = int (height x) \<or> int (height w) = int (height x) + 1"
    using h bb by (auto simp: height_nd)
  have not: "balance (m n) \<noteq> - g" using bn hz g by (auto simp: side_def)
  let ?m = "set_balance (set_balance m1 a (g - balance (m n))) n (balance (m n) - g)"
  let ?T = "nd g (nd g x a w) n z"
  have eq: "avlh_rebalance m a g = (?m, n)"
    using not hn m1 b ds by (simp add: avlh_rebalance_def Let_def avl_opposite_def)
  have bits: "bits2 (g - balance (m n)) = g - balance (m n)" "bits2 (balance (m n) - g) = balance (m n) - g"
    using bn hz g by (auto simp: side_def)
  have "bals ?m ?T" unfolding bals_nd[OF g(1)]
    using bx ds bits hz bn g by (auto simp: height_nd side_def)
  moreover have "avlt ?T" using bb hz by (auto simp: avlt_nd height_nd)
  moreover have "height ?T = height x + 2 + (if balance (?m n) = 0 then 0 else 1)"
    using hz bn bits g by (auto simp: height_nd side_def)
  moreover have "inorder ?T = inorder (nd g x a (nd g w n z))" by (auto simp: inorder_nd)
  moreover have "only_changes m ?m (set_tree (nd g x a (nd g w n z))) p s"
    by (intro only_changes_setters m1(5)) auto
  ultimately show ?thesis using eq m1 by (intro exI[of _ ?m] exI[of _ ?T]) simp
qed

lemma avlh_rebalance_double:
  fixes x u v z :: "addr tree"
  defines "T \<equiv> \<lambda>g a n q. nd g x a (nd g (nd g u q v) n z)"
  assumes g: "side g" "side s"
    and l: "links m p s (T g a n q)" and dist: "distinct (inorder (T g a n q))"
    and p: "p \<notin> set_tree (T g a n q)" "avlh_link m p s = a"
    and b: "bals m x" "bals m (nd g (nd g u q v) n z)" "avlt x" "avlt (nd g (nd g u q v) n z)"
    and h: "height (nd g (nd g u q v) n z) = height x + 2" "height (nd g u q v) > height z"
  shows "\<exists>m' T'. avlh_rebalance m a g = (m', rootp T') \<and> T' \<noteq> Leaf \<and> links m' p s T' \<and>
    avlh_link m' p s = rootp T' \<and> bals m' T' \<and> avlt T' \<and> inorder T' = inorder (T g a n q) \<and>
    height T' = height x + 2 + (if balance (m' (rootp T')) = 0 then 0 else 1) \<and>
    only_changes m m' (set_tree (T g a n q)) p s"
proof -
  obtain m1 where m1: "avlh_dbl_rotate m a (- g) = (m1, q)"
    "links m1 p s (nd g (nd g x a u) q (nd g v n z))" "avlh_link m1 p s = q"
    "\<forall>r. balance (m1 r) = balance (m r)" "only_changes m m1 (set_tree (T g a n q)) p s"
    using avlh_dbl_rotate_links[OF g l[unfolded T_def] dist[unfolded T_def] p[unfolded T_def]]
    unfolding T_def by blast
  note bb = b[unfolded bals_nd[OF g(1)] avlt_nd]
  have ds: "a \<noteq> n" "a \<noteq> q" "n \<noteq> q" "a \<notin> set_tree x" "a \<notin> set_tree u" "a \<notin> set_tree v" "a \<notin> set_tree z"
    "n \<notin> set_tree x" "n \<notin> set_tree u" "n \<notin> set_tree v" "n \<notin> set_tree z"
    "q \<notin> set_tree x" "q \<notin> set_tree u" "q \<notin> set_tree v" "q \<notin> set_tree z"
    using dist unfolding T_def distinct_inorder_nd by auto
  have bx: "bals m1 x" "bals m1 u" "bals m1 v" "bals m1 z"
    using bb m1(4) bals_cong[of x m1 m] bals_cong[of u m1 m] bals_cong[of v m1 m] bals_cong[of z m1 m]
    by auto
  have hn: "avlh_link m a g = n" using l unfolding T_def links_nd[OF g(1)] by simp
  have lq: "avlh_link m1 q g = n" "avlh_link m1 q (- g) = a"
    using m1(2) unfolding links_nd[OF g(1), of m1 p s] by auto
  have bn: "balance (m n) = - g" using bb h g by (auto simp: height_nd side_def)
  define e where "e = int (height v) - int (height u)"
  have bq: "balance (m1 q) = g * e" using bb m1(4) by (simp add: e_def)
  have hs: "int (height z) = int (height x)" "max (int (height u)) (int (height v)) = int (height x)"
    "\<bar>e\<bar> \<le> 1"
    using h bb by (auto simp: height_nd e_def)
  let ?d = "elvis (g * e) 1"
  let ?m = "set_balance (set_balance (set_balance m1 (avlh_link m1 q ?d) 0)
      (avlh_link m1 q (- ?d)) (- (g * e))) q 0"
  let ?T = "nd g (nd g x a u) q (nd g v n z)"
  have e3: "e = 0 \<or> e = 1 \<or> e = -1" using hs by auto
  have nq: "avlh_link m1 q ?d \<noteq> q" "avlh_link m1 q (- ?d) \<noteq> q"
    using lq g e3 ds by (auto simp: elvis_def side_def)
  have eq: "avlh_rebalance m a g = (?m, q)"
    using bn hn m1(1) bq nq by (simp add: avlh_rebalance_def Let_def avl_opposite_def avl_consts)
  have mm: "?m = set_balance (set_balance (set_balance m1 n (if e = 1 then 0 else if e = -1 then g else 0))
      a (if e = 1 then - g else 0)) q 0"
    using e3 g(1) lq ds set_balance_swap[of a n m1 0 0] set_balance_swap[of a n m1 0 g] by (auto simp: elvis_def side_def)
  obtain m2 where m2: "?m = m2" "balance (m2 n) = (if e = -1 then g else 0)"
    "balance (m2 a) = (if e = 1 then - g else 0)" "balance (m2 q) = 0"
    "\<And>t. a \<notin> set_tree t \<Longrightarrow> n \<notin> set_tree t \<Longrightarrow> q \<notin> set_tree t \<Longrightarrow> bals m2 t = bals m1 t"
    "links m2 p s ?T" "avlh_link m2 p s = q"
    unfolding mm using ds g m1 bals_set_balance by (auto split: if_splits)
  have hu: "int (height u) = int (height x) - (if e = 1 then 1 else 0)"
    "int (height v) = int (height x) - (if e = -1 then 1 else 0)"
    using hs(2) e3 by (auto simp: e_def)
  have hn: "int (height (nd g x a u)) = int (height x) + 1" "int (height (nd g v n z)) = int (height x) + 1"
    using hu hs(1) by (auto simp: height_nd split: if_splits)
  have "bals m2 (nd g x a u)" "bals m2 (nd g v n z)"
    using bx ds m2(2,3,5) hu hs(1) e3 unfolding bals_nd[OF g(1)] by auto
  then have "bals m2 ?T"
    unfolding bals_nd[OF g(1), of m2 "nd g x a u"] using m2(4) hn by simp
  moreover have "avlt ?T" using bb hs e3 by (auto simp: avlt_nd height_nd e_def)
  moreover have "height ?T = height x + 2 + (if balance (m2 q) = 0 then 0 else 1)"
    using hs m2 by (auto simp: height_nd)
  moreover have "inorder ?T = inorder (T g a n q)" by (auto simp: inorder_nd T_def)
  moreover have "only_changes m ?m (set_tree (T g a n q)) p s"
    unfolding mm by (intro only_changes_setters m1(5)) (auto simp: T_def)
  ultimately show ?thesis using eq m2 by (intro exI[of _ m2] exI[of _ ?T]) simp
qed

lemma avlh_rebalance_rep:
  assumes g: "side g" "side s"
    and l: "links m p s (nd g x a y)" and dist: "distinct (inorder (nd g x a y))"
    and p: "p \<notin> set_tree (nd g x a y)" "avlh_link m p s = a"
    and b: "bals m x" "bals m y" "avlt x" "avlt y" "balance (m a) = g"
    and h: "height y = height x + 2"
  shows "\<exists>m' T. avlh_rebalance m a g = (m', rootp T) \<and> T \<noteq> Leaf \<and> links m' p s T \<and>
    avlh_link m' p s = rootp T \<and> bals m' T \<and> avlt T \<and> inorder T = inorder (nd g x a y) \<and>
    height T = height x + 2 + (if balance (m' (rootp T)) = 0 then 0 else 1) \<and>
    only_changes m m' (set_tree (nd g x a y)) p s"
proof -
  have "y \<noteq> Leaf" using h by auto
  then obtain w n z where y: "y = nd g w n z" using nd_cases[OF g(1)] by blast
  show ?thesis
  proof (cases "height w \<le> height z")
    case True
    then show ?thesis using avlh_rebalance_single[OF g] l dist p b h unfolding y by blast
  next
    case False
    then have "w \<noteq> Leaf" by auto
    then obtain u q v where w: "w = nd g u q v" using nd_cases[OF g(1)] by blast
    show ?thesis using avlh_rebalance_double[OF g] l dist p b h False unfolding y w by force
  qed
qed

text \<open>
  \<open>avlh_balance_add\<close> at a node whose subtree on side \<open>g\<close> has become one level higher relative to
  the other one.
\<close>

lemma avlh_balance_add_rep:
  assumes g: "side g" "side s"
    and l: "links m p s (nd g x a y)" and dist: "distinct (inorder (nd g x a y))"
    and p: "p \<notin> set_tree (nd g x a y)" "avlh_link m p s = a"
    and b: "bals m x" "bals m y" "avlt x" "avlt y"
    and k: "balance (m a) = g * (int (height y) - int (height x) - 1)"
      "\<bar>int (height y) - int (height x) - 1\<bar> \<le> 1"
  shows "\<exists>m' T. avlh_balance_add m a g = (m', rootp T) \<and> T \<noteq> Leaf \<and> links m' p s T \<and>
    avlh_link m' p s = rootp T \<and> bals m' T \<and> avlt T \<and> inorder T = inorder (nd g x a y) \<and>
    (height y = height x + 2 \<longrightarrow>
       height T = height x + 2 + (if balance (m' (rootp T)) = 0 then 0 else 1)) \<and>
    (height y \<noteq> height x + 2 \<longrightarrow> T = nd g x a y) \<and>
    only_changes m m' (set_tree (nd g x a y)) p s"
proof (cases "height y = height x + 2")
  case True
  then have "balance (m a) = g" using k by simp
  then show ?thesis
    using avlh_rebalance_rep[OF g l dist p b] True by (simp add: avlh_balance_add_def)
next
  case False
  let ?m = "set_balance m a (balance (m a) + g)"
  have nr: "balance (m a) \<noteq> g" using False k g by (auto simp: side_def)
  have v: "bits2 (balance (m a) + g) = g * (int (height y) - int (height x))"
    using False k g by (auto simp: side_def bits2_small)
  have "a \<notin> set_tree x" "a \<notin> set_tree y" using dist unfolding distinct_inorder_nd by auto
  then have "bals ?m (nd g x a y)" unfolding bals_nd[OF g(1)] using b v by simp
  moreover have "avlt (nd g x a y)" using b k False by (auto simp: avlt_nd)
  moreover have "only_changes m ?m (set_tree (nd g x a y)) p s" by (intro only_changes_setters) auto
  ultimately show ?thesis
    using nr False l p by (intro exI[of _ ?m] exI[of _ "nd g x a y"])
      (simp add: avlh_balance_add_def height_nd)
qed

end
