(* ===== verification/Avl_Path.thy ===== *)
theory Avl_Path
  imports Avl_Balance
begin

text \<open>
  Paths from a subtree up to the anchor, the frame rules of a step below a path, and the
  invariant \<open>avl_rep\<close> of a \<^verbatim>\<open>struct avl\<close>.
\<close>

section \<open>Paths to the anchor\<close>

type_synonym frame = "int \<times> addr \<times> addr tree"

text \<open>
  A path lists the frames from a subtree up to the anchor: the side on which the subtree hangs,
  its parent, and the sibling subtree.
\<close>

fun ctx_parent :: "addr \<Rightarrow> frame list \<Rightarrow> addr" where
  "ctx_parent anch [] = anch"
| "ctx_parent anch ((d, a, s) # c) = a"

fun ctx_side :: "frame list \<Rightarrow> int" where
  "ctx_side [] = 1"
| "ctx_side ((d, a, s) # c) = d"

fun plug :: "frame list \<Rightarrow> addr tree \<Rightarrow> addr tree" where
  "plug [] t = t"
| "plug ((d, a, s) # c) t = plug c (nd d s a t)"

fun ctx_set :: "frame list \<Rightarrow> addr set" where
  "ctx_set [] = {}"
| "ctx_set ((d, a, s) # c) = insert a (set_tree s \<union> ctx_set c)"

fun ctx_pre :: "frame list \<Rightarrow> addr list" where
  "ctx_pre [] = []"
| "ctx_pre ((d, a, s) # c) = ctx_pre c @ (if d = 1 then inorder s @ [a] else [])"

fun ctx_post :: "frame list \<Rightarrow> addr list" where
  "ctx_post [] = []"
| "ctx_post ((d, a, s) # c) = (if d = 1 then [] else a # inorder s) @ ctx_post c"

fun links_ctx :: "avlmem \<Rightarrow> addr \<Rightarrow> addr \<Rightarrow> frame list \<Rightarrow> bool" where
  "links_ctx m anch r [] \<longleftrightarrow> avlh_link m anch 1 = r"
| "links_ctx m anch r ((d, a, s) # c) \<longleftrightarrow>
     side d \<and> a \<noteq> NULL \<and> avlh_link m a d = r \<and> avlh_link m a (- d) = rootp s \<and>
     links m a (- d) s \<and> avlh_link m a 0 = ctx_parent anch c \<and> ntype (m a) = ctx_side c \<and>
     links_ctx m anch a c"

fun bals_ctx :: "avlmem \<Rightarrow> nat \<Rightarrow> frame list \<Rightarrow> bool" where
  "bals_ctx m h [] \<longleftrightarrow> True"
| "bals_ctx m h ((d, a, s) # c) \<longleftrightarrow>
     balance (m a) = d * (int h - int (height s)) \<and> \<bar>int h - int (height s)\<bar> \<le> 1 \<and>
     bals m s \<and> avlt s \<and> bals_ctx m (1 + max h (height s)) c"

fun ctx_height :: "nat \<Rightarrow> frame list \<Rightarrow> nat" where
  "ctx_height h [] = h"
| "ctx_height h ((d, a, s) # c) = ctx_height (1 + max h (height s)) c"

lemma set_plug [simp]: "set_tree (plug c t) = ctx_set c \<union> set_tree t"
  by (induction c t rule: plug.induct) auto

lemma inorder_plug [simp]: "inorder (plug c t) = ctx_pre c @ inorder t @ ctx_post c"
  by (induction c t rule: plug.induct) (auto simp: inorder_nd)

lemma height_plug: "height (plug c t) = ctx_height (height t) c"
  by (induction c t rule: plug.induct) (auto simp: height_nd max.commute)

lemma set_ctx_pre_post: "set (ctx_pre c) \<union> set (ctx_post c) = ctx_set c"
  by (induction c rule: ctx_set.induct) auto

lemma ctx_sideD: "links_ctx m anch r c \<Longrightarrow> side (ctx_side c)"
  by (cases c rule: ctx_side.cases) auto

lemma links_ctx_root: "links_ctx m anch r c \<Longrightarrow> avlh_link m (ctx_parent anch c) (ctx_side c) = r"
  by (cases c rule: ctx_side.cases) auto

lemma ctx_parent_in: "ctx_parent anch c \<in> insert anch (ctx_set c)"
  by (cases c rule: ctx_side.cases) auto

lemma links_plug:
  assumes "\<forall>f\<in>set c. side (fst f)"
  shows "links m anch 1 (plug c t) \<and> avlh_link m anch 1 = rootp (plug c t) \<longleftrightarrow>
     links_ctx m anch (rootp t) c \<and> links m (ctx_parent anch c) (ctx_side c) t"
  using assms by (induction c t rule: plug.induct) (auto simp: links_nd)

lemma bals_plug:
  assumes "\<forall>f\<in>set c. side (fst f)"
  shows "bals m (plug c t) \<and> avlt (plug c t) \<longleftrightarrow> bals_ctx m (height t) c \<and> bals m t \<and> avlt t"
  using assms by (induction c t rule: plug.induct) (auto simp: bals_nd avlt_nd height_nd max.commute)

lemma links_ctx_sides: "links_ctx m anch r c \<Longrightarrow> \<forall>f\<in>set c. side (fst f)"
  by (induction m anch r c rule: links_ctx.induct) fastforce+

lemma plug_append: "plug (c1 @ c2) t = plug c2 (plug c1 t)"
  by (induction c1 t rule: plug.induct) auto

text \<open>Every node of a tree is at the end of a path.\<close>

lemma plug_exists:
  assumes "x \<in> set_tree t"
  shows "\<exists>c l r. t = plug c (Node l x r) \<and> (\<forall>f\<in>set c. side (fst f))"
  using assms
proof (induction t)
  case Leaf
  then show ?case by simp
next
  case (Node l a r)
  then consider "x = a" | "x \<in> set_tree l" | "x \<in> set_tree r" by auto
  then show ?case
  proof cases
    case 1
    then show ?thesis by (intro exI[of _ "[]"]) auto
  next
    case 2
    then obtain c l' r' where "l = plug c (Node l' x r')" "\<forall>f\<in>set c. side (fst f)"
      using Node.IH(1) by blast
    then show ?thesis
      by (intro exI[of _ "c @ [(-1, a, r)]"] exI[of _ l'] exI[of _ r'])
        (auto simp: plug_append nd_def)
  next
    case 3
    then obtain c l' r' where "r = plug c (Node l' x r')" "\<forall>f\<in>set c. side (fst f)"
      using Node.IH(2) by blast
    then show ?thesis
      by (intro exI[of _ "c @ [(1, a, l)]"] exI[of _ l'] exI[of _ r'])
        (auto simp: plug_append nd_def)
  qed
qed

lemma links_ctx_cong:
  assumes "\<And>x. x \<in> insert anch (ctx_set c) \<Longrightarrow> m' x = m x"
  shows "links_ctx m' anch r c = links_ctx m anch r c"
  using assms
proof (induction c arbitrary: r)
  case Nil
  then show ?case by (simp add: avlh_link_def)
next
  case (Cons f c)
  obtain d a s where f: "f = (d, a, s)" by (cases f)
  have "links m' a (- d) s = links m a (- d) s"
    using Cons.prems by (intro links_cong) (auto simp: f avlh_link_def)
  moreover have "m' a = m a" using Cons.prems by (simp add: f)
  moreover have "links_ctx m' anch a c = links_ctx m anch a c"
    using Cons.prems by (intro Cons.IH) (auto simp: f)
  ultimately show ?case by (simp add: f avlh_link_def)
qed

lemma bals_ctx_cong:
  assumes "\<And>x. x \<in> ctx_set c \<Longrightarrow> balance (m' x) = balance (m x)"
  shows "bals_ctx m' h c = bals_ctx m h c"
  using assms
proof (induction c arbitrary: h)
  case Nil
  then show ?case by simp
next
  case (Cons f c)
  obtain d a s where f: "f = (d, a, s)" by (cases f)
  have "bals m' s = bals m s" using Cons.prems by (intro bals_cong) (auto simp: f)
  then show ?case using Cons by (simp add: f)
qed

text \<open>A step below a path rewrites one link of the path, and nothing else of it.\<close>

lemma ctx_update:
  assumes l: "links_ctx m anch r c" and oc: "only_changes m m' S (ctx_parent anch c) (ctx_side c)"
    and S: "S \<inter> ctx_set c = {}" "anch \<notin> S" "anch \<notin> ctx_set c"
    and dist: "distinct (ctx_pre c @ ctx_post c)"
    and r: "avlh_link m' (ctx_parent anch c) (ctx_side c) = r'"
  shows "links_ctx m' anch r' c" and "bals_ctx m' h c = bals_ctx m h c"
proof -
  show "bals_ctx m' h c = bals_ctx m h c"
  proof (rule bals_ctx_cong)
    fix x assume "x \<in> ctx_set c"
    then show "balance (m' x) = balance (m x)"
      using oc S by (cases "x = ctx_parent anch c") (auto simp: only_changes_def)
  qed
  show "links_ctx m' anch r' c"
  proof (cases c)
    case Nil
    then show ?thesis using r by simp
  next
    case (Cons f c0)
    obtain d a s where f: "f = (d, a, s)" by (cases f)
    have oc': "only_changes m m' S a d" and S': "a \<notin> S" "S \<inter> set_tree s = {}" "anch \<noteq> a"
      using oc S by (auto simp: Cons f)
    have nd: "a \<notin> set_tree s" "a \<notin> ctx_set c0"
      using dist set_ctx_pre_post[of c0] by (auto simp: Cons f split: if_splits)
    have "links m' a (- d) s = links m a (- d) s"
      using links_only_changes[OF oc' S'(2) nd(1)] .
    moreover have "links_ctx m' anch a c0 = links_ctx m anch a c0"
      using oc' S S' nd by (intro links_ctx_cong) (auto simp: Cons f only_changes_def)
    ultimately show ?thesis
      using l r only_changes_parent[OF oc' S'(1)] sideD by (auto simp: Cons f)
  qed
qed

section \<open>The invariant of a tree\<close>

definition avl_rep :: "avlmem \<Rightarrow> avl \<Rightarrow> addr tree \<Rightarrow> bool" where
  "avl_rep m a t \<longleftrightarrow>
     links m (anchor a) 1 t \<and> avlh_link m (anchor a) 1 = rootp t \<and> bals m t \<and> avlt t \<and>
     distinct (inorder t) \<and> anchor a \<notin> set_tree t \<and>
     avl_head a = (if t = Leaf then NULL else hd (inorder t)) \<and>
     avl_tail a = (if t = Leaf then NULL else last (inorder t)) \<and>
     count a = of_nat (size t) \<and> size t < 2 ^ 32 \<and> height_of a = of_nat (height t)"

lemma avl_end_simps [simp]:
  "avl_end (avl_set_end a d h) d' = (if d = d' then h else avl_end a d')"
  "anchor (avl_set_end a d h) = anchor a"
  "count (avl_set_end a d h) = count a"
  "height_of (avl_set_end a d h) = height_of a"
  "avl_end (a\<lparr>count := n\<rparr>) d = avl_end a d"
  "avl_end (a\<lparr>height_of := k\<rparr>) d = avl_end a d"
  by (auto simp: avl_end_def avl_set_end_def avl_type2index_def)

lemmas avl_ends = avl_head_def avl_tail_def avl_set_head_def avl_set_tail_def avl_consts

end
