(* ===== verification/Avl_Insert.thy ===== *)
theory Avl_Insert
  imports Avl_Path
begin

text \<open>
  Insertion: the walk up the parents in \<^verbatim>\<open>avl_insert_inner\<close> ends, and gives back an AVL tree whose
  in-order list has the new node next to the parent it was attached to.
\<close>

section \<open>The loop of avl_insert_inner\<close>

text \<open>
  Before each turn the subtree \<open>t\<close> under the path is an AVL tree, and it has grown by one level
  over the height \<open>h\<close> the path still assumes exactly when the balance of its root is not 0.
\<close>

lemma avl_insert_fixup_rep:
  assumes "links_ctx m anch (rootp t) c" and "links m (ctx_parent anch c) (ctx_side c) t"
    and "t \<noteq> Leaf" and "bals m t" and "avlt t" and "bals_ctx m h c"
    and "height t = h + (if balance (m (rootp t)) = 0 then 0 else 1)"
    and "distinct (inorder (plug c t))" and "anch \<notin> set_tree (plug c t)"
  shows "\<exists>m' inc T. avl_insert_fixup m anch (rootp t) = Some (m', inc) \<and> links m' anch 1 T \<and>
    avlh_link m' anch 1 = rootp T \<and> bals m' T \<and> avlt T \<and> inorder T = inorder (plug c t) \<and>
    height T = ctx_height h c + (if inc then 1 else 0) \<and>
    only_changes m m' (set_tree (plug c t)) anch 1"
  using assms
proof (induction c arbitrary: m t h)
  case Nil
  have up: "avlh_up m (rootp t) = anch"
    using Nil.prems by (cases t) (auto simp: avlh_up_def avl_consts)
  show ?case
    using Nil.prems up
    by (intro exI[of _ m] exI[of _ "balance (m (rootp t)) \<noteq> 0"] exI[of _ t])
      (auto simp: avl_insert_fixup.simps)
next
  case (Cons f c)
  obtain d a s where f: "f = (d, a, s)" by (cases f)
  note pr = Cons.prems[unfolded f]
  have g: "side d" "side (ctx_side c)" using pr(1) ctx_sideD by auto
  have up: "avlh_up m (rootp t) = a" "ntype (m (rootp t)) = d"
    using pr(2,3) by (cases t; auto simp: avlh_up_def avl_consts)+
  have na: "a \<noteq> anch" "anch \<notin> set_tree (nd d s a t)" using pr(9) by auto
  show ?case
  proof (cases "balance (m (rootp t)) = 0")
    case True
    have "links m anch 1 (plug (f # c) t) \<and> avlh_link m anch 1 = rootp (plug (f # c) t)"
      using links_plug[OF links_ctx_sides[OF pr(1)]] pr(1,2) by (simp add: f)
    moreover have "bals m (plug (f # c) t) \<and> avlt (plug (f # c) t)"
      using bals_plug[OF links_ctx_sides[OF pr(1)]] pr True by (simp add: f)
    moreover have "height (plug (f # c) t) = ctx_height h (f # c)"
      using pr(7) True by (simp only: height_plug) simp
    ultimately show ?thesis
      using True by (intro exI[of _ m] exI[of _ False] exI[of _ "plug (f # c) t"])
        (simp add: avl_insert_fixup.simps)
  next
    case False
    have ht: "height t = h + 1" using pr(7) False by simp
    have l: "links m (ctx_parent anch c) (ctx_side c) (nd d s a t)"
      using pr(1,2) g by (simp add: links_nd)
    have dist: "distinct (inorder (nd d s a t))" "distinct (ctx_pre c @ ctx_post c)"
      "set_tree (nd d s a t) \<inter> ctx_set c = {}"
      using pr(8) set_ctx_pre_post[of c] by (auto simp: set_inorder[symmetric] simp del: set_inorder)
    have p: "ctx_parent anch c \<notin> set_tree (nd d s a t)"
      "avlh_link m (ctx_parent anch c) (ctx_side c) = a"
      using ctx_parent_in[of anch c] na dist(3) pr(1) links_ctx_root[of m anch a c] by auto
    have k: "balance (m a) = d * (int (height t) - int (height s) - 1)"
      "\<bar>int (height t) - int (height s) - 1\<bar> \<le> 1" using pr(6) ht by auto
    have b: "bals m s" "avlt s" using pr(6) by auto
    obtain m1 T where T: "avlh_balance_add m a d = (m1, rootp T)" "T \<noteq> Leaf"
      "links m1 (ctx_parent anch c) (ctx_side c) T"
      "avlh_link m1 (ctx_parent anch c) (ctx_side c) = rootp T" "bals m1 T" "avlt T"
      "inorder T = inorder (nd d s a t)"
      "height t = height s + 2 \<Longrightarrow>
         height T = height s + 2 + (if balance (m1 (rootp T)) = 0 then 0 else 1)"
      "height t \<noteq> height s + 2 \<Longrightarrow> T = nd d s a t"
      "only_changes m m1 (set_tree (nd d s a t)) (ctx_parent anch c) (ctx_side c)"
      using avlh_balance_add_rep[OF g l dist(1) p b(1) pr(4) b(2) pr(5) k] by metis
    have setT: "set_tree T = set_tree (nd d s a t)" using T(7) by (metis set_inorder)
    have lc: "links_ctx m1 anch (rootp T) c" "bals_ctx m1 (1 + max h (height s)) c"
      using ctx_update[OF _ T(10) dist(3) na(2) _ dist(2) T(4)] pr by auto
    have hT: "height T = 1 + max h (height s) + (if balance (m1 (rootp T)) = 0 then 0 else 1)"
    proof (cases "height t = height s + 2")
      case True
      then show ?thesis using T(8) ht by simp
    next
      case False
      then have "balance (m1 (rootp T)) = d * (int (height t) - int (height s))"
        using T(5,9) bals_nd[OF g(1)] by simp
      then show ?thesis using T(9)[OF False] ht k g(1) False by (auto simp: height_nd side_def)
    qed
    have "distinct (inorder (plug c T))" "anch \<notin> set_tree (plug c T)"
      using pr(8,9) T(7) setT by auto
    from Cons.IH[OF lc(1) T(3) T(2) T(5) T(6) lc(2) hT this]
    obtain m' inc T' where IH: "avl_insert_fixup m1 anch (rootp T) = Some (m', inc)"
      "links m' anch 1 T'" "avlh_link m' anch 1 = rootp T'" "bals m' T'" "avlt T'"
      "inorder T' = inorder (plug c T)"
      "height T' = ctx_height (1 + max h (height s)) c + (if inc then 1 else 0)"
      "only_changes m1 m' (set_tree (plug c T)) anch 1" by blast
    have "avl_insert_fixup m anch (rootp t) = Some (m', inc)"
      using False up na T(1) IH(1) by (subst avl_insert_fixup.simps) simp
    moreover have "inorder T' = inorder (plug (f # c) t)" using IH(6) T(7) by (simp add: f)
    moreover have "only_changes m m' (set_tree (plug (f # c) t)) anch 1"
    proof -
      have "only_changes m m1 (set_tree (plug (f # c) t)) anch 1"
      proof (cases "c = []")
        case True
        then show ?thesis using only_changes_mono[OF T(10), of "set_tree (plug (f # c) t)"] by (simp add: f)
      next
        case False
        then have "ctx_parent anch c \<in> ctx_set c" by (cases c rule: ctx_side.cases) auto
        then show ?thesis by (intro only_changes_up[OF T(10)]) (auto simp: f)
      qed
      moreover have "set_tree (plug c T) = set_tree (plug (f # c) t)" using setT by (simp add: f)
      ultimately show ?thesis using IH(8) only_changes_trans by metis
    qed
    ultimately show ?thesis using IH by (intro exI[of _ m'] exI[of _ inc] exI[of _ T']) (simp add: f)
  qed
qed

section \<open>avl_insert_inner\<close>

lemma hd_last_append_simps:
  "xs \<noteq> [] \<Longrightarrow> hd (xs @ ys) = hd xs" "ys \<noteq> [] \<Longrightarrow> last (xs @ ys) = last ys"
  by auto

lemma size_plug: "size (plug c t) = length (ctx_pre c) + size t + length (ctx_post c)"
  unfolding length_inorder[symmetric] inorder_plug by simp

lemma plug_not_Leaf [simp]: "t \<noteq> Leaf \<Longrightarrow> plug c t \<noteq> Leaf"
  by (induction c t rule: plug.induct) auto

lemma inorder_eqD:
  assumes "inorder T = inorder t"
  shows "set_tree T = set_tree t" "size T = size t" "T = Leaf \<longleftrightarrow> t = Leaf"
  using arg_cong[OF assms, of set] arg_cong[OF assms, of length] by auto

lemma ends_insert_mid:
  assumes "distinct (us @ p # vs)"
  shows "hd (us @ p # n # vs) = hd (us @ p # vs)"
    and "last (us @ n # p # vs) = last (us @ p # vs)"
    and "last (us @ p # n # vs) = (if p = last (us @ p # vs) then n else last (us @ p # vs))"
    and "hd (us @ n # p # vs) = (if p = hd (us @ p # vs) then n else hd (us @ p # vs))"
proof -
  show "hd (us @ p # n # vs) = hd (us @ p # vs)" by (cases us) auto
  show "last (us @ n # p # vs) = last (us @ p # vs)" by simp
  show "last (us @ p # n # vs) = (if p = last (us @ p # vs) then n else last (us @ p # vs))"
    using assms by (cases vs rule: rev_cases) auto
  show "hd (us @ n # p # vs) = (if p = hd (us @ p # vs) then n else hd (us @ p # vs))"
    using assms by (cases us) auto
qed

lemma avl_insert_inner_empty:
  assumes "avl_rep m a Leaf" "node \<noteq> NULL" "node \<noteq> anchor a" "balance (m node) = 0"
  shows "\<exists>m' a' T. avl_insert_inner (m, a) NULL node AVL_RIGHT = Some (m', a') \<and> avl_rep m' a' T \<and>
    inorder T = [node] \<and> anchor a' = anchor a \<and> only_changes m m' {node} (anchor a) 1"
proof -
  let ?m = "avlh_attach m (anchor a) node 1"
  have oc: "only_changes m ?m {node} (anchor a) 1"
    unfolding avlh_attach_def Let_def avl_setters by (intro only_changes_setters) auto
  let ?a = "(avl_set_end (avl_set_end (a\<lparr>count := count a + 1\<rparr>) (-1) node) 1 node)\<lparr>height_of := height_of a + 1\<rparr>"
  have eq: "avl_insert_inner (m, a) NULL node AVL_RIGHT = Some (?m, ?a)"
    by (simp add: avl_insert_inner_def Let_def avl_ends)
  have "links ?m (anchor a) 1 (Node Leaf node Leaf)" "avlh_link ?m (anchor a) 1 = node"
    "balance (?m node) = 0"
    using assms by (auto simp: avlh_attach_def Let_def avl_setters avl_consts)
  then have "avl_rep ?m ?a (Node Leaf node Leaf)"
    using assms by (simp add: avl_rep_def avl_ends)
  with eq oc show ?thesis by (intro exI[of _ ?m] exI[of _ ?a] exI[of _ "Node Leaf node Leaf"]) simp
qed

lemma avl_insert_inner_rep:
  assumes rep: "avl_rep m a (plug c (nd sd x par Leaf))" and c: "\<forall>f\<in>set c. side (fst f)"
    and sd: "side sd"
    and node: "node \<noteq> NULL" "node \<noteq> anchor a" "node \<notin> set_tree (plug c (nd sd x par Leaf))"
      "balance (m node) = 0"
    and sz: "size (plug c (nd sd x par Leaf)) + 1 < 2 ^ 32"
  shows "\<exists>m' a' T. avl_insert_inner (m, a) par node sd = Some (m', a') \<and> avl_rep m' a' T \<and>
    inorder T = ctx_pre c @ inorder (nd sd x par (Node Leaf node Leaf)) @ ctx_post c \<and>
    anchor a' = anchor a \<and>
    only_changes m m' (insert node (set_tree (plug c (nd sd x par Leaf)))) (anchor a) 1"
proof -
  let ?old = "plug c (nd sd x par Leaf)" and ?S = "insert node (set_tree (plug c (nd sd x par Leaf)))"
  let ?t = "nd sd x par (Node Leaf node Leaf)" and ?h = "height (nd sd x par Leaf)"
  note r = rep[unfolded avl_rep_def]
  have lc: "links_ctx m (anchor a) par c" "links m (ctx_parent (anchor a) c) (ctx_side c) (nd sd x par Leaf)"
    using links_plug[OF c, of m "anchor a" "nd sd x par Leaf"] r by auto
  have bc: "bals_ctx m ?h c" "bals m (nd sd x par Leaf)" "avlt (nd sd x par Leaf)"
    using bals_plug[OF c, of m "nd sd x par Leaf"] r by auto
  have dist: "distinct (inorder (nd sd x par Leaf))" "distinct (ctx_pre c @ ctx_post c)"
    "set_tree (nd sd x par Leaf) \<inter> ctx_set c = {}"
    using r set_ctx_pre_post[of c] by (auto simp: set_inorder[symmetric] simp del: set_inorder)
  have ne: "par \<noteq> NULL" "node \<noteq> par" "node \<notin> set_tree x" "par \<notin> set_tree x" "par \<notin> ctx_set c"
    using lc(2) node dist by (auto simp: links_nd[OF sd] distinct_inorder_nd)
  define m1 where "m1 = avlh_attach m par node sd"
  define m2 where "m2 = set_balance m1 par (balance (m1 par) + sd)"
  have oc: "only_changes m m2 {node, par} (ctx_parent (anchor a) c) (ctx_side c)"
    unfolding m2_def m1_def avlh_attach_def Let_def avl_setters
    by (intro only_changes_setters) auto
  have hx: "height x \<le> 1" using bc(3) by (simp add: avlt_nd)
  have bpar: "balance (m par) = - (sd * int (height x))" using bc(2) by (simp add: bals_nd[OF sd])
  have b2: "bits2 (balance (m par) + sd) = sd * (1 - int (height x))"
    using bpar hx sd by (cases "height x") (auto simp: side_def bits2_small)
  have lt: "links m2 (ctx_parent (anchor a) c) (ctx_side c) ?t"
    using lc(2) ne node sd unfolding links_nd[OF sd] m2_def m1_def
    by (auto simp: avlh_attach_def Let_def avl_setters avl_consts side_def)
  have bt: "bals m2 ?t" "balance (m2 par) = sd * (1 - int (height x))"
    using bc(2) b2 ne node sd unfolding bals_nd[OF sd] m2_def m1_def
    by (auto simp: avlh_attach_def Let_def avl_setters)
  have cu: "links_ctx m2 (anchor a) (rootp ?t) c" "bals_ctx m2 ?h c"
  proof -
    have l: "avlh_link m2 (ctx_parent (anchor a) c) (ctx_side c) = rootp ?t"
      using links_ctx_root[OF lc(1)] ctx_parent_in[of "anchor a" c] ne node r
      by (auto simp: m2_def m1_def avlh_attach_def Let_def avl_setters)
    have "{node, par} \<inter> ctx_set c = {}" "anchor a \<notin> {node, par}" "anchor a \<notin> ctx_set c"
      using ne node r by auto
    from ctx_update[OF lc(1) oc this dist(2) l] bc(1)
    show "links_ctx m2 (anchor a) (rootp ?t) c" "bals_ctx m2 ?h c" by auto
  qed
  have h: "height ?t = ?h + (if balance (m2 (rootp ?t)) = 0 then 0 else 1)"
    using bt(2) hx sd by (cases "height x") (auto simp: height_nd side_def)
  have av: "avlt ?t" using bc(3) hx by (auto simp: avlt_nd)
  have dt: "distinct (inorder (plug c ?t))" "anchor a \<notin> set_tree (plug c ?t)"
    using r node set_ctx_pre_post[of c] by (auto simp: inorder_nd)
  obtain m' inc T where T: "avl_insert_fixup m2 (anchor a) par = Some (m', inc)"
    "links m' (anchor a) 1 T" "avlh_link m' (anchor a) 1 = rootp T" "bals m' T" "avlt T"
    "inorder T = inorder (plug c ?t)" "height T = ctx_height ?h c + (if inc then 1 else 0)"
    "only_changes m2 m' (set_tree (plug c ?t)) (anchor a) 1"
    using avl_insert_fixup_rep[OF cu(1) lt nd_not_Leaf bt(1) av cu(2) h dt] by auto
  have setT: "set_tree T = ?S" and TL: "T \<noteq> Leaf"
    using inorder_eqD[OF T(6)] size_plug[of c ?t] by auto
  have sizeT: "size T = size ?old + 1"
    using inorder_eqD(2)[OF T(6)] unfolding size_plug by simp
  let ?a = "(if par = avl_end a sd then avl_set_end a sd node else a)\<lparr>count := count a + 1\<rparr>"
  let ?a' = "if inc then ?a\<lparr>height_of := height_of ?a + 1\<rparr> else ?a"
  have eq: "avl_insert_inner (m, a) par node sd = Some (m', ?a')"
    using ne T(1) by (auto simp: avl_insert_inner_def Let_def m1_def[symmetric] m2_def[symmetric]
        avl_set_end_def avl_end_def)
  have ends: "avl_end ?a' (-1) = hd (inorder T)" "avl_end ?a' 1 = last (inorder T)"
  proof -
    have t0: "avl_end a (-1) = hd (inorder ?old)" "avl_end a 1 = last (inorder ?old)" "distinct (inorder ?old)"
      using r by (simp_all add: avl_ends)
    have e: "avl_end ?a' e = (if e = sd \<and> par = avl_end a sd then node else avl_end a e)" for e
      by simp
    show "avl_end ?a' (-1) = hd (inorder T)" "avl_end ?a' 1 = last (inorder T)"
      using sd t0 ends_insert_mid[of "ctx_pre c @ inorder x" par "ctx_post c" node]
        ends_insert_mid[of "ctx_pre c" par "inorder x @ ctx_post c" node]
      unfolding e T(6) inorder_plug side_def by (elim disjE; simp add: inorder_nd)+
  qed
  have a': "anchor ?a' = anchor a" "count ?a' = count a + 1"
    "height_of ?a' = height_of a + (if inc then 1 else 0)"
    by simp_all
  have "avl_rep m' ?a' T"
  proof -
    have "height ?old = ctx_height ?h c" by (rule height_plug)
    then have "height_of ?a' = of_nat (height T)"
      unfolding a' T(7) using r by (simp split: if_splits)
    moreover have "count ?a' = of_nat (size T)" unfolding a' sizeT using r by simp
    ultimately show ?thesis
      unfolding avl_rep_def a'(1) using T ends setT sizeT TL r dt sz node
      unfolding avl_ends by (simp only: T(6) simp_thms if_False) auto
  qed
  moreover have "only_changes m m' ?S (anchor a) 1"
  proof -
    have "only_changes m m2 ?S (anchor a) 1"
      unfolding m2_def m1_def avlh_attach_def Let_def avl_setters by (intro only_changes_setters) auto
    moreover have "only_changes m2 m' ?S (anchor a) 1" by (rule only_changes_mono[OF T(8)]) auto
    ultimately show ?thesis by (rule only_changes_trans)
  qed
  ultimately show ?thesis using eq T(6) by (intro exI[of _ m'] exI[of _ ?a'] exI[of _ T]) simp
qed

end
