(* ===== verification/Avl_Search.thy ===== *)
theory Avl_Search
  imports Avl_Path
begin

text \<open>
  In-order neighbours and searches. On a well-formed tree both loops of \<^verbatim>\<open>avl_inorder\<close> and the
  descent of \<^verbatim>\<open>avl_search\<close> end; their results are described on the in-order list.
\<close>

section \<open>Neighbours\<close>

text \<open>The neighbour of a node whose in-order list is \<open>xs @ x # ys\<close>, on side \<open>d\<close>.\<close>

definition nbr :: "int \<Rightarrow> addr list \<Rightarrow> addr list \<Rightarrow> addr" where
  "nbr d xs ys = (if d = 1 then (if ys = [] then NULL else hd ys)
                  else (if xs = [] then NULL else last xs))"

lemma avl_descend_rep:
  assumes "links m p s t" "t \<noteq> Leaf" "side d"
  shows "avl_descend m (rootp t) d = Some (if d = 1 then last (inorder t) else hd (inorder t))"
  using assms
proof (induction t arbitrary: p s)
  case (Node l a r)
  let ?y = "if d = 1 then r else l"
  have lk: "avlh_link m a d = rootp ?y" "links m a d ?y" "rootp ?y = NULL \<longleftrightarrow> ?y = Leaf"
    using Node.prems rootp_NULL by (auto simp: side_def)
  show ?case
  proof (cases "?y = Leaf")
    case True
    then show ?thesis using lk Node.prems(3) by (subst avl_descend.simps) (auto simp: side_def split: if_splits)
  next
    case False
    then have "avl_descend m (rootp ?y) d =
       Some (if d = 1 then last (inorder ?y) else hd (inorder ?y))"
      using Node.IH lk Node.prems(3) by (auto split: if_splits)
    then show ?thesis using False lk
      by (subst avl_descend.simps) (auto split: if_splits)
  qed
qed simp

lemma avl_ascend_rep:
  assumes "links_ctx m (anchor a) (rootp t) c" "links m (ctx_parent (anchor a) c) (ctx_side c) t"
    "t \<noteq> Leaf" "anchor a \<notin> ctx_set c" "side d"
  shows "avl_ascend m a (rootp t) d = Some (nbr d (ctx_pre c) (ctx_post c))"
  using assms
proof (induction c arbitrary: t)
  case Nil
  then show ?case by (cases t; subst avl_ascend.simps) (simp_all add: avlh_up_def avl_consts nbr_def)
next
  case (Cons f c)
  obtain e p s where f: "f = (e, p, s)" by (cases f)
  have up: "avlh_up m (rootp t) = p" "ntype (m (rootp t)) = e" "p \<noteq> anchor a"
    using Cons.prems by (cases t; auto simp: f avlh_up_def avl_consts)+
  have e: "side e" "links_ctx m (anchor a) p c" "links m (ctx_parent (anchor a) c) (ctx_side c) (nd e s p t)"
    using Cons.prems by (auto simp: f links_nd)
  show ?case
  proof (cases "e = d")
    case True
    have "avl_ascend m a (rootp (nd e s p t)) d = Some (nbr d (ctx_pre c) (ctx_post c))"
      using Cons.prems e by (intro Cons.IH) (auto simp: f)
    then show ?thesis using up True Cons.prems(5)
      by (subst avl_ascend.simps) (auto simp: f nbr_def side_def)
  next
    case False
    then show ?thesis using up Cons.prems(5) e(1)
      by (subst avl_ascend.simps) (auto simp: f nbr_def side_def)
  qed
qed

lemma avl_inorder_rep:
  assumes rep: "avl_rep m a t" and b: "anchor b = anchor a" and io: "inorder t = xs @ x # ys" and d: "side d"
  shows "avl_inorder m b x d = Some (nbr d xs ys)"
proof -
  have "x \<in> set_tree t" using io by (simp flip: set_inorder)
  then obtain c l r where t: "t = plug c (Node l x r)" and c: "\<forall>f\<in>set c. side (fst f)"
    using plug_exists by blast
  note r = rep[unfolded avl_rep_def t]
  have lc: "links_ctx m (anchor a) x c" "links m (ctx_parent (anchor a) c) (ctx_side c) (Node l x r)"
    using links_plug[OF c, of m "anchor a" "Node l x r"] r by auto
  have dist: "distinct (xs @ x # ys)" using rep by (simp only: avl_rep_def io)
  have eq: "xs @ x # ys = (ctx_pre c @ inorder l) @ x # (inorder r @ ctx_post c)"
    using io by (simp add: t)
  have xy: "xs = ctx_pre c @ inorder l" "ys = inorder r @ ctx_post c"
    using split_unique[OF dist eq] by simp_all
  let ?y = "if d = 1 then r else l"
  have lk: "avlh_link m x d = rootp ?y" "links m x d ?y" "rootp ?y = NULL \<longleftrightarrow> ?y = Leaf"
    using lc(2) d rootp_NULL by (auto simp: side_def)
  show ?thesis
  proof (cases "?y = Leaf")
    case True
    then have "avl_inorder m b x d = avl_ascend m b (rootp (Node l x r)) d"
      using lk by (simp add: avl_inorder_def avlh_has_child_def)
    also have "\<dots> = Some (nbr d (ctx_pre c) (ctx_post c))"
      using avl_ascend_rep[of m b "Node l x r" c d] lc d r by (simp add: b)
    finally show ?thesis using True d by (auto simp: xy nbr_def side_def split: if_splits)
  next
    case False
    then have "avl_inorder m b x d = avl_descend m (rootp ?y) (- d)"
      using lk by (auto simp: avl_inorder_def avlh_has_child_def avl_opposite_def)
    also have "\<dots> = Some (if - d = 1 then last (inorder ?y) else hd (inorder ?y))"
      using avl_descend_rep[OF lk(2) False] d by simp
    finally show ?thesis using False d by (auto simp: xy nbr_def side_def split: if_splits)
  qed
qed

section \<open>Search\<close>

lemma ctx_append [simp]:
  "ctx_pre (c1 @ c2) = ctx_pre c2 @ ctx_pre c1" "ctx_post (c1 @ c2) = ctx_post c1 @ ctx_post c2"
  by (induction c1 rule: ctx_pre.induct) auto

text \<open>
  The search goes down by the sign \<open>e\<close> of the comparison (made -1 or 1 by \<open>dir\<close> when keys are
  equal). On a tree whose nodes are ordered by \<open>e\<close> it stops at a node that compares equal, or at
  the node beside the empty slot that separates the two signs.
\<close>

definition slot :: "(addr \<Rightarrow> int) \<Rightarrow> addr tree \<Rightarrow> addr \<Rightarrow> bool" where
  "slot e t h \<longleftrightarrow> side (e h) \<and> (\<exists>c x. t = plug c (nd (e h) x h Leaf) \<and> (\<forall>f\<in>set c. side (fst f)) \<and>
      (set (ctx_pre ((e h, h, x) # c)) \<subseteq> {y. e y = 1}) \<and>
      (set (ctx_post ((e h, h, x) # c)) \<subseteq> {y. e y = -1}))"

lemma slot_here:
  "e a = 1 \<Longrightarrow> set_tree l \<subseteq> {y. e y = 1} \<Longrightarrow> slot e (Node l a Leaf) a"
  "e a = -1 \<Longrightarrow> set_tree r \<subseteq> {y. e y = -1} \<Longrightarrow> slot e (Node Leaf a r) a"
  unfolding slot_def
   apply (intro conjI exI[of _ "[]"] exI[of _ l]; simp add: nd_def)
  apply (intro conjI exI[of _ "[]"] exI[of _ r]; simp add: nd_def)
  done

lemma slot_right:
  assumes "slot e r h" "insert a (set_tree l) \<subseteq> {y. e y = 1}"
  shows "slot e (Node l a r) h"
proof -
  obtain c x where "side (e h)" "r = plug c (nd (e h) x h Leaf)" "\<forall>f\<in>set c. side (fst f)"
    "set (ctx_pre ((e h, h, x) # c)) \<subseteq> {y. e y = 1}" "set (ctx_post ((e h, h, x) # c)) \<subseteq> {y. e y = -1}"
    using assms(1) unfolding slot_def by blast
  then have "Node l a r = plug (c @ [(1, a, l)]) (nd (e h) x h Leaf)"
    "\<forall>f\<in>set (c @ [(1, a, l)]). side (fst f)"
    "set (ctx_pre ((e h, h, x) # c @ [(1, a, l)])) \<subseteq> {y. e y = 1}"
    "set (ctx_post ((e h, h, x) # c @ [(1, a, l)])) \<subseteq> {y. e y = -1}"
    using assms(2) by (simp_all add: plug_append nd_def[of 1])
  note new = this
  show ?thesis unfolding slot_def
    apply (rule conjI, rule \<open>side (e h)\<close>)
    apply (rule exI[of _ "c @ [(1, a, l)]"])
    apply (rule exI[of _ x])
    apply (rule conjI, rule new(1), rule conjI, rule new(2), rule conjI, rule new(3), rule new(4))
    done
qed

lemma slot_left:
  assumes "slot e l h" "insert a (set_tree r) \<subseteq> {y. e y = -1}"
  shows "slot e (Node l a r) h"
proof -
  obtain c x where "side (e h)" "l = plug c (nd (e h) x h Leaf)" "\<forall>f\<in>set c. side (fst f)"
    "set (ctx_pre ((e h, h, x) # c)) \<subseteq> {y. e y = 1}" "set (ctx_post ((e h, h, x) # c)) \<subseteq> {y. e y = -1}"
    using assms(1) unfolding slot_def by blast
  then have "Node l a r = plug (c @ [(-1, a, r)]) (nd (e h) x h Leaf)"
    "\<forall>f\<in>set (c @ [(-1, a, r)]). side (fst f)"
    "set (ctx_pre ((e h, h, x) # c @ [(-1, a, r)])) \<subseteq> {y. e y = 1}"
    "set (ctx_post ((e h, h, x) # c @ [(-1, a, r)])) \<subseteq> {y. e y = -1}"
    using assms(2) by (simp_all add: plug_append nd_def[of "-1"])
  note new = this
  show ?thesis unfolding slot_def
    apply (rule conjI, rule \<open>side (e h)\<close>)
    apply (rule exI[of _ "c @ [(-1, a, r)]"])
    apply (rule exI[of _ x])
    apply (rule conjI, rule new(1), rule conjI, rule new(2), rule conjI, rule new(3), rule new(4))
    done
qed

lemma avl_search_loop_rep:
  assumes "links m p s t" "t \<noteq> Leaf"
    and "\<And>y. e y = elvis (cmp node y) dir"
    and "\<And>y. y \<in> set_tree t \<Longrightarrow> e y = -1 \<or> e y = 0 \<or> e y = 1"
    and "sorted_wrt (\<lambda>x y. e y \<le> e x) (inorder t)"
  shows "\<exists>h. avl_search_loop m cmp node dir (rootp t) = Some (h, cmp node h) \<and> h \<in> set_tree t \<and>
    (e h = 0 \<or> slot e t h)"
  using assms(1,2,4,5)
proof (induction t arbitrary: p s)
  case (Node l a r)
  have ea: "elvis (cmp node a) dir = e a" by (simp add: assms(3))
  have lk: "avlh_link m a (-1) = rootp l" "avlh_link m a 1 = rootp r" "links m a (-1) l" "links m a 1 r"
    "rootp l = NULL \<longleftrightarrow> l = Leaf" "rootp r = NULL \<longleftrightarrow> r = Leaf"
    using Node.prems rootp_NULL by auto
  have ord: "\<forall>y\<in>set_tree l. e a \<le> e y" "\<forall>y\<in>set_tree r. e y \<le> e a"
    "sorted_wrt (\<lambda>x y. e y \<le> e x) (inorder l)" "sorted_wrt (\<lambda>x y. e y \<le> e x) (inorder r)"
    using Node.prems(4) by (auto simp: sorted_wrt_append)
  have sgl: "insert a (set_tree l) \<subseteq> {y. e y = 1}" if "e a = 1"
    using ord(1) Node.prems(3) that by fastforce
  have sgr: "insert a (set_tree r) \<subseteq> {y. e y = -1}" if "e a = -1"
    using ord(2) Node.prems(3) that by fastforce
  have vals: "\<And>y. y \<in> set_tree l \<Longrightarrow> e y = -1 \<or> e y = 0 \<or> e y = 1"
    "\<And>y. y \<in> set_tree r \<Longrightarrow> e y = -1 \<or> e y = 0 \<or> e y = 1"
    using Node.prems(3) by auto
  note unf = avl_search_loop.simps[of m cmp node dir a]
  consider "e a = 0" | "e a = 1" "r = Leaf" | "e a = -1" "l = Leaf" | "e a = 1" "r \<noteq> Leaf"
    | "e a = -1" "l \<noteq> Leaf"
    using Node.prems(3)[of a] by auto
  then show ?case
  proof cases
    case 1
    then have "avl_search_loop m cmp node dir a = Some (a, cmp node a)" by (simp add: unf ea)
    then show ?thesis using 1 by simp
  next
    case 2
    then have "avl_search_loop m cmp node dir a = Some (a, cmp node a)"
      using lk by (simp add: unf ea Let_def)
    then show ?thesis using slot_here(1)[of e a l] sgl 2 by simp
  next
    case 3
    then have "avl_search_loop m cmp node dir a = Some (a, cmp node a)"
      using lk by (simp add: unf ea Let_def)
    then show ?thesis using slot_here(2)[of e a r] sgr 3 by simp
  next
    case 4
    then have eq: "avl_search_loop m cmp node dir (rootp (Node l a r)) = avl_search_loop m cmp node dir (rootp r)"
      using lk by (simp add: unf ea Let_def)
    obtain h where "avl_search_loop m cmp node dir (rootp r) = Some (h, cmp node h)"
      "h \<in> set_tree r" "e h = 0 \<or> slot e r h"
      using Node.IH(2)[OF lk(4) 4(2) vals(2) ord(4)] by blast
    then show ?thesis unfolding eq using slot_right[OF _ sgl[OF 4(1)]] by auto
  next
    case 5
    then have eq: "avl_search_loop m cmp node dir (rootp (Node l a r)) = avl_search_loop m cmp node dir (rootp l)"
      using lk by (simp add: unf ea Let_def)
    obtain h where "avl_search_loop m cmp node dir (rootp l) = Some (h, cmp node h)"
      "h \<in> set_tree l" "e h = 0 \<or> slot e l h"
      using Node.IH(1)[OF lk(3) 5(2) vals(1) ord(3)] by blast
    then show ?thesis unfolding eq using slot_left[OF _ sgr[OF 5(1)]] by auto
  qed
qed simp

end
