(* ===== verification/Avl_Delete.thy ===== *)
theory Avl_Delete
  imports Avl_Insert Avl_Search
begin

text \<open>
  Deletion: \<^verbatim>\<open>avl_delete\<close> ends on every well-formed tree and removes exactly the given node from
  the in-order list. A leaf and a node with one child are unlinked and the loop at the end walks up
  the parents; a node with two children is replaced by its in-order neighbour, which is deleted
  first.
\<close>

section \<open>The loop of avl_delete\<close>

lemma avl_delete_fixup_rep:
  assumes "links_ctx m anch (rootp t) c" and "links m (ctx_parent anch c) (ctx_side c) t"
    and "bals m t" and "avlt t" and "bals_ctx m h c"
    and "h = height t + (if balance (m n) = 0 then 1 else 0)"
    and "balance (m n) = 0 \<Longrightarrow> avlh_up m n = ctx_parent anch c \<and> ntype (m n) = ctx_side c"
    and "distinct (inorder (plug c t))" and "anch \<notin> set_tree (plug c t)"
  shows "\<exists>m' dec T. avl_delete_fixup m anch n = Some (m', dec) \<and> links m' anch 1 T \<and>
    avlh_link m' anch 1 = rootp T \<and> bals m' T \<and> avlt T \<and> inorder T = inorder (plug c t) \<and>
    height T + (if dec then 1 else 0) = ctx_height h c \<and>
    only_changes m m' (set_tree (plug c t)) anch 1"
  using assms
proof (induction c arbitrary: m t h n)
  case Nil
  then show ?case
    by (intro exI[of _ m] exI[of _ "balance (m n) = 0"] exI[of _ t])
      (auto simp: avl_delete_fixup.simps)
next
  case (Cons f c)
  obtain d a s where f: "f = (d, a, s)" by (cases f)
  note pr = Cons.prems[unfolded f]
  have g: "side d" "side (- d)" "side (ctx_side c)" using pr(1) ctx_sideD by auto
  have na: "a \<noteq> anch" "anch \<notin> set_tree (nd d s a t)" using pr(9) by auto
  show ?case
  proof (cases "balance (m n) = 0")
    case False
    have "links m anch 1 (plug (f # c) t) \<and> avlh_link m anch 1 = rootp (plug (f # c) t)"
      using links_plug[OF links_ctx_sides[OF pr(1)]] pr(1,2) by (simp add: f)
    moreover have "bals m (plug (f # c) t) \<and> avlt (plug (f # c) t)"
      using bals_plug[OF links_ctx_sides[OF pr(1)]] pr False by (simp add: f)
    moreover have "height (plug (f # c) t) = ctx_height h (f # c)"
      using pr(6) False by (simp only: height_plug) simp
    ultimately show ?thesis
      using False by (intro exI[of _ m] exI[of _ False] exI[of _ "plug (f # c) t"])
        (simp add: avl_delete_fixup.simps)
  next
    case True
    have ht: "h = height t + 1" and up: "avlh_up m n = a" "ntype (m n) = d"
      using pr(6,7) True by auto
    have fl: "nd (- d) t a s = nd d s a t" using g by (simp add: nd_flip)
    have l: "links m (ctx_parent anch c) (ctx_side c) (nd (- d) t a s)"
      using pr(1,2) g by (simp add: links_nd)
    have dist: "distinct (inorder (nd (- d) t a s))" "distinct (ctx_pre c @ ctx_post c)"
      "set_tree (nd (- d) t a s) \<inter> ctx_set c = {}"
      using pr(8) set_ctx_pre_post[of c] unfolding fl
      by (auto simp: set_inorder[symmetric] simp del: set_inorder)
    have p: "ctx_parent anch c \<notin> set_tree (nd (- d) t a s)"
      "avlh_link m (ctx_parent anch c) (ctx_side c) = a"
      using ctx_parent_in[of anch c] na dist(3) pr(1) links_ctx_root[of m anch a c] by auto
    have k: "balance (m a) = - d * (int (height s) - int (height t) - 1)"
      "\<bar>int (height s) - int (height t) - 1\<bar> \<le> 1" using pr(5) ht by (auto simp: algebra_simps)
    have b: "bals m s" "avlt s" using pr(5) by auto
    obtain m1 T where T: "avlh_balance_add m a (- d) = (m1, rootp T)" "T \<noteq> Leaf"
      "links m1 (ctx_parent anch c) (ctx_side c) T"
      "avlh_link m1 (ctx_parent anch c) (ctx_side c) = rootp T" "bals m1 T" "avlt T"
      "inorder T = inorder (nd (- d) t a s)"
      "height s = height t + 2 \<Longrightarrow>
         height T = height t + 2 + (if balance (m1 (rootp T)) = 0 then 0 else 1)"
      "height s \<noteq> height t + 2 \<Longrightarrow> T = nd (- d) t a s"
      "only_changes m m1 (set_tree (nd (- d) t a s)) (ctx_parent anch c) (ctx_side c)"
      using avlh_balance_add_rep[OF g(2,3) l dist(1) p pr(3) b(1) pr(4) b(2) k] by metis
    have setT: "set_tree T = set_tree (nd (- d) t a s)" using T(7) by (metis set_inorder)
    have lc: "links_ctx m1 anch (rootp T) c" "bals_ctx m1 (1 + max h (height s)) c"
      using ctx_update[OF _ T(10) dist(3) na(2)[folded fl] _ dist(2) T(4)] pr by auto
    have hT: "1 + max h (height s) = height T + (if balance (m1 (rootp T)) = 0 then 1 else 0)"
    proof (cases "height s = height t + 2")
      case True
      then show ?thesis using T(8) ht by simp
    next
      case False
      then have "balance (m1 (rootp T)) = - d * (int (height s) - int (height t))"
        using T(5,9) bals_nd[OF g(2)] by simp
      then show ?thesis using T(9)[OF False] ht k g(1) False by (auto simp: height_nd side_def)
    qed
    have r: "avlh_up m1 (rootp T) = ctx_parent anch c \<and> ntype (m1 (rootp T)) = ctx_side c"
      using T(2,3) by (cases T) (auto simp: avlh_up_def avl_consts)
    have "distinct (inorder (plug c T))" "anch \<notin> set_tree (plug c T)"
      using pr(8,9) T(7) setT by (auto simp: fl)
    from Cons.IH[OF lc(1) T(3) T(5) T(6) lc(2) hT r this]
    obtain m' dec T' where IH: "avl_delete_fixup m1 anch (rootp T) = Some (m', dec)"
      "links m' anch 1 T'" "avlh_link m' anch 1 = rootp T'" "bals m' T'" "avlt T'"
      "inorder T' = inorder (plug c T)"
      "height T' + (if dec then 1 else 0) = ctx_height (1 + max h (height s)) c"
      "only_changes m1 m' (set_tree (plug c T)) anch 1" by blast
    have "avl_delete_fixup m anch n = Some (m', dec)"
      using True up na T(1) IH(1) by (subst avl_delete_fixup.simps) simp
    moreover have "inorder T' = inorder (plug (f # c) t)" using IH(6) T(7) by (simp add: f fl)
    moreover have "only_changes m m' (set_tree (plug (f # c) t)) anch 1"
    proof -
      have "only_changes m m1 (set_tree (plug (f # c) t)) anch 1"
      proof (cases "c = []")
        case True
        then show ?thesis
          using only_changes_mono[OF T(10), of "set_tree (plug (f # c) t)"] by (simp add: f fl)
      next
        case False
        then have "ctx_parent anch c \<in> ctx_set c" by (cases c rule: ctx_side.cases) auto
        then show ?thesis by (intro only_changes_up[OF T(10)]) (auto simp: f)
      qed
      moreover have "set_tree (plug c T) = set_tree (plug (f # c) t)" using setT by (simp add: f fl)
      ultimately show ?thesis using IH(8) only_changes_trans by metis
    qed
    ultimately show ?thesis using IH by (intro exI[of _ m'] exI[of _ dec] exI[of _ T']) (simp add: f)
  qed
qed

lemma avl_delete_tail_rep:
  assumes fx: "links_ctx m (anchor a) (rootp t) c" "links m (ctx_parent (anchor a) c) (ctx_side c) t"
    "bals m t" "avlt t" "bals_ctx m h c" "h = height t + (if balance (m n) = 0 then 1 else 0)"
    "balance (m n) = 0 \<Longrightarrow> avlh_up m n = ctx_parent (anchor a) c \<and> ntype (m n) = ctx_side c"
    "distinct (inorder (plug c t))" "anchor a \<notin> set_tree (plug c t)"
    and ends: "plug c t \<noteq> Leaf" "avl_end a (-1) = hd (inorder (plug c t))"
      "avl_end a 1 = last (inorder (plug c t))"
    and cnt: "count a = of_nat (size (plug c t))" "size (plug c t) < 2 ^ 32"
      "height_of a = of_nat (ctx_height h c)"
  shows "\<exists>m' a' T. avl_delete_tail (m, a) n = Some (m', a') \<and> avl_rep m' a' T \<and>
    inorder T = inorder (plug c t) \<and> anchor a' = anchor a \<and>
    only_changes m m' (set_tree (plug c t)) (anchor a) 1"
proof -
  obtain m' dec T where T: "avl_delete_fixup m (anchor a) n = Some (m', dec)"
    "links m' (anchor a) 1 T" "avlh_link m' (anchor a) 1 = rootp T" "bals m' T" "avlt T"
    "inorder T = inorder (plug c t)" "height T + (if dec then 1 else 0) = ctx_height h c"
    "only_changes m m' (set_tree (plug c t)) (anchor a) 1"
    using avl_delete_fixup_rep[OF fx] by blast
  note eq = inorder_eqD[OF T(6)]
  let ?a = "if dec then a\<lparr>height_of := height_of a - 1\<rparr> else a"
  have "anchor ?a = anchor a" "count ?a = count a" "avl_end ?a d = avl_end a d"
    "height_of ?a = of_nat (height T)" for d
    using cnt(3)[folded T(7)] by (cases dec; simp)+
  then have "avl_rep m' ?a T"
    unfolding avl_rep_def avl_ends using T fx(8,9) ends cnt eq by simp
  moreover have "avl_delete_tail (m, a) n = Some (m', ?a)"
    using T(1) by (simp add: avl_delete_tail_def)
  ultimately show ?thesis using T(6,8) by (intro exI[of _ m'] exI[of _ ?a] exI[of _ T]) simp
qed

text \<open>\<^verbatim>\<open>avlh_replace\<close> puts a node in the place of another one.\<close>

lemma avlh_replace_links:
  assumes l: "links m p s (Node l x r)" "avlh_link m p s = x"
    and new: "new \<noteq> NULL" "new \<noteq> x" "new \<noteq> p" "new \<notin> set_tree l" "new \<notin> set_tree r"
    and p: "p \<noteq> x" "p \<notin> set_tree l" "p \<notin> set_tree r"
    and dist: "distinct (inorder (Node l x r))" and s: "side s"
  shows "links (avlh_replace m x new) p s (Node l new r)"
    and "avlh_link (avlh_replace m x new) p s = new"
    and "balance (avlh_replace m x new q) = balance (m q)"
    and "only_changes m (avlh_replace m x new) (insert new (set_tree l \<union> set_tree r)) p s"
proof -
  have k: "avlh_link m x 0 = p" "ntype (m x) = s" "avlh_link m x (-1) = rootp l"
    "avlh_link m x 1 = rootp r" "links m x (-1) l" "links m x 1 r" "x \<noteq> NULL"
    using l by auto
  let ?m = "avlh_set_link (avlh_set_link (set_type m new s) new 0 p) p s new"
  let ?u = "\<lambda>t m. if rootp t = NULL then m else avlh_set_link m (rootp t) 0 new"
  have nl: "rootp l = NULL \<longleftrightarrow> l = Leaf" "rootp r = NULL \<longleftrightarrow> r = Leaf" using k rootp_NULL by blast+
  have ne: "rootp l \<noteq> x \<and> rootp l \<noteq> new \<and> rootp l \<noteq> p \<or> l = Leaf"
    "rootp r \<noteq> x \<and> rootp r \<noteq> new \<and> rootp r \<noteq> p \<or> r = Leaf"
    using dist new p rootp_in by (metis (no_types, lifting) UnCI distinct_inorder_nd nd_def)+
  have eq: "avlh_replace m x new =
     ?u r (avlh_set_link (?u l (avlh_set_link ?m new (-1) (rootp l))) new 1 (rootp r))"
    using k s new p ne nl sideD[OF s]
    by (simp add: avlh_replace_def avlh_link_child_def Let_def avl_consts avl_setters avlh_up_def
        avlh_has_child_def)
  show "balance (avlh_replace m x new q) = balance (m q)" unfolding eq by simp
  show "only_changes m (avlh_replace m x new) (insert new (set_tree l \<union> set_tree r)) p s"
    unfolding eq using nl by (auto intro!: only_changes_setters)
  show "avlh_link (avlh_replace m x new) p s = new"
    unfolding eq using new p ne nl s sideD[OF s] by auto
  have dj: "set_tree l \<inter> set_tree r = {}" using dist by auto
  have L: "links (avlh_replace m x new) new (-1) l"
  proof (cases l)
    case (Node l1 b l2)
    then show ?thesis unfolding eq using k new p ne nl dist dj
      by (cases r) auto
  qed simp
  have R: "links (avlh_replace m x new) new 1 r"
  proof (cases r)
    case (Node r1 b r2)
    then show ?thesis unfolding eq using k new p ne nl dist dj
      by (cases l) auto
  qed simp
  have "avlh_link (avlh_replace m x new) new (-1) = rootp l"
    "avlh_link (avlh_replace m x new) new 1 = rootp r"
    "avlh_link (avlh_replace m x new) new 0 = p" "ntype (avlh_replace m x new new) = s"
    unfolding eq using new p ne nl s sideD[OF s] by auto
  then show "links (avlh_replace m x new) p s (Node l new r)" using L R new by simp
qed

section \<open>avl_delete\<close>

lemma ends_delete_mid:
  "distinct (us @ p # n # vs) \<Longrightarrow> hd (us @ p # vs) = hd (us @ p # n # vs)"
  "distinct (us @ p # n # vs) \<Longrightarrow>
     last (us @ p # vs) = (if n = last (us @ p # n # vs) then p else last (us @ p # n # vs))"
  "distinct (us @ n # p # vs) \<Longrightarrow>
     hd (us @ p # vs) = (if n = hd (us @ n # p # vs) then p else hd (us @ n # p # vs))"
  "distinct (us @ n # p # vs) \<Longrightarrow> last (us @ p # vs) = last (us @ n # p # vs)"
     apply (cases us; simp)
    apply (cases vs rule: rev_cases; auto)
   apply (cases us; auto)
  apply simp
  done

lemma avl_repD:
  assumes "avl_rep m a (plug c t)" "\<forall>f\<in>set c. side (fst f)"
  shows "links_ctx m (anchor a) (rootp t) c" "links m (ctx_parent (anchor a) c) (ctx_side c) t"
    "bals_ctx m (height t) c" "bals m t" "avlt t"
    "distinct (ctx_pre c @ ctx_post c)" "distinct (inorder t)" "set_tree t \<inter> ctx_set c = {}"
    "anchor a \<notin> set_tree t" "anchor a \<notin> ctx_set c" "ctx_parent (anchor a) c \<notin> set_tree t"
    "height_of a = of_nat (ctx_height (height t) c)" "count a = of_nat (size (plug c t))"
    "size (plug c t) < 2 ^ 32"
    "avl_head a = (if plug c t = Leaf then NULL else hd (ctx_pre c @ inorder t @ ctx_post c))"
    "avl_tail a = (if plug c t = Leaf then NULL else last (ctx_pre c @ inorder t @ ctx_post c))"
proof -
  note r = assms(1)[unfolded avl_rep_def]
  show "links_ctx m (anchor a) (rootp t) c" "links m (ctx_parent (anchor a) c) (ctx_side c) t"
    using links_plug[OF assms(2), of m "anchor a" t] r by auto
  show "bals_ctx m (height t) c" "bals m t" "avlt t"
    using bals_plug[OF assms(2), of m t] r by auto
  show "distinct (ctx_pre c @ ctx_post c)" "distinct (inorder t)" "set_tree t \<inter> ctx_set c = {}"
    using r set_ctx_pre_post[of c] by (auto simp: set_inorder[symmetric] simp del: set_inorder)
  show "anchor a \<notin> set_tree t" "anchor a \<notin> ctx_set c" using r by auto
  then show "ctx_parent (anchor a) c \<notin> set_tree t"
    using ctx_parent_in[of "anchor a" c] \<open>set_tree t \<inter> ctx_set c = {}\<close> by auto
  show "height_of a = of_nat (ctx_height (height t) c)" using r by (simp add: height_plug)
  show "count a = of_nat (size (plug c t))" "size (plug c t) < 2 ^ 32"
    "avl_head a = (if plug c t = Leaf then NULL else hd (ctx_pre c @ inorder t @ ctx_post c))"
    "avl_tail a = (if plug c t = Leaf then NULL else last (ctx_pre c @ inorder t @ ctx_post c))"
    using r by auto
qed

text \<open>
  The state in which the removal steps run: the count is already decremented, the rest is the
  invariant for the tree that still has the node.
\<close>

lemma avl_delete_leaf_rep:
  assumes rep: "avl_rep m a (plug c (Node Leaf x Leaf))" and c: "\<forall>f\<in>set c. side (fst f)" "c \<noteq> []"
    and b: "b = a\<lparr>count := count a - 1\<rparr>"
  shows "\<exists>m' a' T. avl_delete_tail (avl_delete_leaf (m, b) x) x = Some (m', a') \<and>
    avl_rep m' a' T \<and> inorder T = ctx_pre c @ ctx_post c \<and> anchor a' = anchor a \<and>
    only_changes m m' (ctx_set c) (anchor a) 1"
proof -
  note r = avl_repD[OF rep c(1)]
  obtain d p s c' where f: "c = (d, p, s) # c'" using c(2) by (cases c) auto
  let ?m = "avlh_set_link m p d NULL"
  have d: "side d" and x: "avlh_link m x 0 = p" "ntype (m x) = d" "avlh_link m x (-1) = NULL"
    "avlh_link m x 1 = NULL" "balance (m x) = 0" "x \<noteq> p" "x \<notin> ctx_set c"
    using r by (auto simp: f)
  have xd: "avlh_link m x d = NULL" using x d by (auto simp: side_def)
  let ?a = "if x = avl_end b d then avl_set_end b d p else b"
  have eq: "avl_delete_leaf (m, b) x = (?m, ?a)"
    using x xd by (auto simp: avl_delete_leaf_def Let_def avlh_up_def avl_consts)
  have oc: "only_changes m ?m {} (ctx_parent (anchor a) c) (ctx_side c)"
    unfolding f by (intro only_changes_setters) auto
  have lk: "avlh_link ?m (ctx_parent (anchor a) c) (ctx_side c) = rootp Leaf" by (simp add: f)
  have cu: "links_ctx ?m (anchor a) (rootp Leaf) c" "bals_ctx ?m 1 c"
    using ctx_update[OF r(1) oc _ _ r(10) r(6) lk] r(3) by auto
  have tl: "links ?m (ctx_parent (anchor a) c) (ctx_side c) Leaf" "bals ?m Leaf" "avlt Leaf"
    "1 = height (Leaf :: addr tree) + (if balance (?m x) = 0 then 1 else 0)"
    "avlh_up ?m x = ctx_parent (anchor a) c \<and> ntype (?m x) = ctx_side c"
    using x by (auto simp: avlh_up_def avl_consts f)
  have dist: "distinct (inorder (plug c Leaf))" "anchor a \<notin> set_tree (plug c Leaf)"
    using r by auto
  have sz: "size (plug c (Node Leaf x Leaf)) = size (plug c Leaf) + 1" by (simp add: size_plug)
  have ne: "plug c Leaf \<noteq> Leaf" "plug c (Node Leaf x Leaf) \<noteq> Leaf"
    using set_plug[of c Leaf] by (auto simp: f)
  have ends: "avl_end ?a (-1) = hd (inorder (plug c Leaf))" "avl_end ?a 1 = last (inorder (plug c Leaf))"
  proof -
    have t0: "avl_end a (-1) = hd (ctx_pre c @ x # ctx_post c)"
      "avl_end a 1 = last (ctx_pre c @ x # ctx_post c)" using r(15,16) ne by (simp_all add: avl_ends)
    have e: "avl_end ?a e = (if e = d \<and> x = avl_end a d then p else avl_end a e)" for e
      by (simp add: b)
    have D: "distinct (ctx_pre c @ x # ctx_post c)" using x(7) r(6) set_ctx_pre_post[of c] by auto
    consider "d = 1" | "d = -1" using d by (auto simp: side_def)
    then have "avl_end ?a (-1) = hd (inorder (plug c Leaf)) \<and> avl_end ?a 1 = last (inorder (plug c Leaf))"
    proof cases
      case 1
      have q: "ctx_pre c @ ctx_post c = (ctx_pre c' @ inorder s) @ p # ctx_post c'"
        "ctx_pre c @ x # ctx_post c = (ctx_pre c' @ inorder s) @ p # x # ctx_post c'"
        using 1 by (simp_all add: f)
      show ?thesis
        using ends_delete_mid(1,2)[OF D[unfolded q(2)]] t0 1 unfolding e q inorder_plug inorder.simps append.simps by simp_all
    next
      case 2
      have q: "ctx_pre c @ ctx_post c = ctx_pre c' @ p # inorder s @ ctx_post c'"
        "ctx_pre c @ x # ctx_post c = ctx_pre c' @ x # p # inorder s @ ctx_post c'"
        using 2 by (simp_all add: f)
      show ?thesis
        using ends_delete_mid(3,4)[OF D[unfolded q(2)]] t0 2 unfolding e q inorder_plug inorder.simps append.simps by simp_all
    qed
    then show "avl_end ?a (-1) = hd (inorder (plug c Leaf))" "avl_end ?a 1 = last (inorder (plug c Leaf))"
      by blast+
  qed
  have cn: "anchor ?a = anchor a" "count ?a = of_nat (size (plug c Leaf))"
    "size (plug c Leaf) < 2 ^ 32" "height_of ?a = of_nat (ctx_height 1 c)"
    using r(12-14) by (simp_all add: b sz)
  obtain m' a' T where "avl_delete_tail (?m, ?a) x = Some (m', a')" "avl_rep m' a' T"
     "inorder T = inorder (plug c Leaf)" "anchor a' = anchor a"
     "only_changes ?m m' (set_tree (plug c Leaf)) (anchor a) 1"
    using avl_delete_tail_rep[of ?m ?a Leaf c 1 x] cu tl dist ne(1) ends cn by auto
  moreover have "only_changes m ?m (ctx_set c) (anchor a) 1"
    by (intro only_changes_setters) (auto simp: f)
  ultimately show ?thesis using eq only_changes_trans
    by (intro exI[of _ m'] exI[of _ a'] exI[of _ T]) auto
qed

lemma avl_delete_1child_rep:
  assumes rep: "avl_rep m a (plug c (nd d Leaf x (Node Leaf y Leaf)))"
    and c: "\<forall>f\<in>set c. side (fst f)" "side d" and b: "b = a\<lparr>count := count a - 1\<rparr>"
  shows "\<exists>m' a' T. avl_delete_tail (fst (avl_delete_1child (m, b) x d)) (snd (avl_delete_1child (m, b) x d))
      = Some (m', a') \<and>
    avl_rep m' a' T \<and> inorder T = ctx_pre c @ y # ctx_post c \<and> anchor a' = anchor a \<and>
    only_changes m m' (insert x (insert y (ctx_set c))) (anchor a) 1"
proof -
  note r = avl_repD[OF rep c(1)]
  let ?p = "ctx_parent (anchor a) c" and ?s = "ctx_side c" and ?y = "Node Leaf y Leaf"
  have s: "side ?s" by (rule ctx_sideD[OF r(1)])
  let ?mz = "avlh_set_link m x d NULL"
  let ?m = "avlh_replace ?mz x y"
  let ?a = "if x = avl_end b (- d) then avl_set_end b (- d) y else b"
  have k: "avlh_link m x d = y" "avlh_link m x (- d) = NULL" "avlh_link m y d = NULL"
    "balance (m y) = 0" "x \<noteq> y" "x \<noteq> ?p" "y \<noteq> ?p" "y \<noteq> NULL" "x \<notin> ctx_set c" "y \<notin> ctx_set c"
    "avlh_link m ?p ?s = x"
    using r(2,4,7,8,11) c(2) links_ctx_root[OF r(1)]
    by (auto simp: links_nd[OF c(2)] bals_nd[OF c(2)] distinct_inorder_nd side_def)
  have eq: "avl_delete_1child (m, b) x d = ((?m, ?a), y)"
    using k by (auto simp: avl_delete_1child_def Let_def avl_opposite_def)
  have l0: "links ?mz ?p ?s (Node Leaf x Leaf)" "avlh_link ?mz ?p ?s = x"
    using k(2,6,11) c(2) r(2)[unfolded links_nd[OF c(2)]] by (auto simp: side_def)
  have rp: "links ?m ?p ?s ?y" "avlh_link ?m ?p ?s = y" "\<And>q. balance (?m q) = balance (m q)"
    "only_changes ?mz ?m {y} ?p ?s"
    using avlh_replace_links[OF l0 k(8) k(5)[symmetric] k(7) _ _ k(6)[symmetric] _ _ _ s] by simp_all
  have oc: "only_changes m ?m {x, y} ?p ?s"
    by (rule only_changes_trans[OF _ only_changes_mono[OF rp(4)]])
      (auto intro: only_changes_setters)
  have dj: "{x, y} \<inter> ctx_set c = {}" "anchor a \<notin> {x, y}" using k r(9) by auto
  have cu: "links_ctx ?m (anchor a) (rootp ?y) c" "bals_ctx ?m 2 c"
    using ctx_update[OF r(1) oc dj r(10) r(6), of y] rp(2) r(3) by (auto simp: height_nd numeral_2_eq_2)
  have tl: "links ?m ?p ?s ?y" "bals ?m ?y" "avlt ?y" "balance (?m y) = 0"
    "avlh_up ?m y = ?p \<and> ntype (?m y) = ?s"
    using rp k by (auto simp: avlh_up_def avl_consts)
  have dist: "distinct (inorder (plug c ?y))" "anchor a \<notin> set_tree (plug c ?y)"
    using r(6,9,10) k set_ctx_pre_post[of c] by auto
  have D: "distinct (inorder (plug c (nd d Leaf x ?y)))" using rep by (simp add: avl_rep_def)
  have ends: "avl_end ?a (-1) = hd (inorder (plug c ?y))" "avl_end ?a 1 = last (inorder (plug c ?y))"
  proof -
    have t0: "avl_end a (-1) = hd (inorder (plug c (nd d Leaf x ?y)))"
      "avl_end a 1 = last (inorder (plug c (nd d Leaf x ?y)))" using r(15,16) by (simp_all add: avl_ends)
    have e: "avl_end ?a e = (if e = - d \<and> x = avl_end a (- d) then y else avl_end a e)" for e
      by (simp add: b)
    consider "d = 1" | "d = -1" using c(2) by (auto simp: side_def)
    then have "avl_end ?a (-1) = hd (inorder (plug c ?y)) \<and> avl_end ?a 1 = last (inorder (plug c ?y))"
    proof cases
      case 1
      have q: "inorder (plug c ?y) = ctx_pre c @ y # ctx_post c"
        "inorder (plug c (nd d Leaf x ?y)) = ctx_pre c @ x # y # ctx_post c"
        using 1 by (simp_all add: inorder_nd)
      show ?thesis
        using ends_delete_mid(3,4)[OF D[unfolded q(2)]] t0 1 unfolding e q by simp_all
    next
      case 2
      have q: "inorder (plug c ?y) = ctx_pre c @ y # ctx_post c"
        "inorder (plug c (nd d Leaf x ?y)) = ctx_pre c @ y # x # ctx_post c"
        using 2 by (simp_all add: inorder_nd)
      show ?thesis
        using ends_delete_mid(1,2)[OF D[unfolded q(2)]] t0 2 unfolding e q by simp_all
    qed
    then show "avl_end ?a (-1) = hd (inorder (plug c ?y))" "avl_end ?a 1 = last (inorder (plug c ?y))"
      by blast+
  qed
  have cn: "anchor ?a = anchor a" "count ?a = of_nat (size (plug c ?y))"
    "size (plug c ?y) < 2 ^ 32" "height_of ?a = of_nat (ctx_height 2 c)"
    using r(12-14) by (simp_all add: b size_plug height_nd numeral_2_eq_2)
  obtain m' a' T where "avl_delete_tail (?m, ?a) y = Some (m', a')" "avl_rep m' a' T"
     "inorder T = inorder (plug c ?y)" "anchor a' = anchor a"
     "only_changes ?m m' (set_tree (plug c ?y)) (anchor a) 1"
    using avl_delete_tail_rep[of ?m ?a ?y c 2 y, unfolded cn(1), OF cu(1) tl(1-3) cu(2) _ tl(5) dist _ ends cn(2-4)]
      tl(4) by (auto simp: numeral_2_eq_2)
  moreover have "only_changes m ?m (insert x (insert y (ctx_set c))) (anchor a) 1"
  proof (cases "c = []")
    case True
    then show ?thesis using only_changes_mono[OF oc, of "insert x (insert y (ctx_set c))"] by simp
  next
    case False
    then have "?p \<in> ctx_set c" by (cases c rule: ctx_side.cases) auto
    then show ?thesis by (intro only_changes_up[OF oc]) auto
  qed
  moreover have "only_changes ?m m' (insert x (insert y (ctx_set c))) (anchor a) 1"
    by (rule only_changes_mono[OF calculation(5)]) auto
  ultimately show ?thesis using eq only_changes_trans
    by (intro exI[of _ m'] exI[of _ a'] exI[of _ T]) auto
qed

lemma avlh_thr_eq: "avlh_thr m h =
   (if avlh_link m h (-1) = NULL then if avlh_link m h 1 = NULL then 5 else 1
    else if avlh_link m h 1 = NULL then 4 else 0)"
  by (simp add: avlh_thr_def Let_def avl_consts AVL_THR_LEFT_def AVL_THR_RIGHT_def)

lemma avl_delete_few_children:
  assumes rep: "avl_rep m a (plug c (Node l x r))" and c: "\<forall>f\<in>set c. side (fst f)"
    and lr: "l = Leaf \<or> r = Leaf"
  shows "\<exists>m' a' T. avl_delete (m, a) x = Some (m', a') \<and> avl_rep m' a' T \<and>
    inorder T = ctx_pre c @ inorder l @ inorder r @ ctx_post c \<and> anchor a' = anchor a \<and>
    only_changes m m' (set_tree (plug c (Node l x r))) (anchor a) 1"
proof -
  note R = avl_repD[OF rep c]
  let ?t = "plug c (Node l x r)" and ?b = "a\<lparr>count := count a - 1\<rparr>"
  have nl: "rootp l = NULL \<longleftrightarrow> l = Leaf" "rootp r = NULL \<longleftrightarrow> r = Leaf"
    using R(2) rootp_NULL by auto
  have thr: "avlh_thr m x = (if l = Leaf then if r = Leaf then 5 else 1 else 4)"
    using R(2) lr by (auto simp: avlh_thr_eq nl)
  have thr5: "AVL_THR_LEFT OR AVL_THR_RIGHT = 5" by (simp add: AVL_THR_LEFT_def AVL_THR_RIGHT_def)
  have bc: "count ?b = of_nat (size ?t - 1)" using R(13) by (simp add: size_plug)
  show ?thesis
  proof (cases "size ?t = 1")
    case True
    then have e: "ctx_pre c = []" "ctx_post c = []" "l = Leaf" "r = Leaf" by (auto simp: size_plug)
    have "c = []" using e(1,2) set_ctx_pre_post[of c] by (cases c rule: ctx_set.cases) auto
    with e have t: "height ?t = 1" "?t = Node Leaf x Leaf" by simp_all
    let ?m = "avlh_set_link m (anchor a) 1 NULL"
    let ?a = "(avl_set_end (avl_set_end ?b (-1) NULL) 1 NULL)\<lparr>height_of := height_of a - 1\<rparr>"
    have "avl_delete (m, a) x = Some (?m, ?a)"
      using bc True by (subst avl_delete.simps) (simp add: Let_def avl_ends avl_setters)
    moreover have "avl_rep ?m ?a Leaf"
      using rep t bc True unfolding avl_rep_def avl_ends by simp
    moreover have "only_changes m ?m (set_tree ?t) (anchor a) 1" by (intro only_changes_setters) auto
    ultimately show ?thesis using e
      by (intro exI[of _ ?m] exI[of _ ?a] exI[of _ Leaf]) simp
  next
    case False
    have "unat (of_nat (size ?t - 1) :: u32) = size ?t - 1"
      using R(14) by (simp add: unat_of_nat take_bit_nat_eq_self)
    moreover have "size ?t \<noteq> 0" by (simp add: size_plug)
    ultimately have nz: "count ?b \<noteq> 0" using False bc by (metis Suc_pred' neq0_conv One_nat_def unat_0)
    consider "l = Leaf" "r = Leaf" | "l = Leaf" "r \<noteq> Leaf" | "l \<noteq> Leaf" "r = Leaf" using lr by blast
    then show ?thesis
    proof cases
      case 1
      have "c \<noteq> []" using False 1 by auto
      moreover have "avl_delete (m, a) x = avl_delete_tail (avl_delete_leaf (m, ?b) x) x"
        using nz thr 1 by (subst avl_delete.simps) (simp add: Let_def thr5)
      moreover obtain m' a' T where "avl_delete_tail (avl_delete_leaf (m, ?b) x) x = Some (m', a')"
        "avl_rep m' a' T" "inorder T = ctx_pre c @ ctx_post c" "anchor a' = anchor a"
        "only_changes m m' (ctx_set c) (anchor a) 1"
        using avl_delete_leaf_rep[OF rep[unfolded 1] c \<open>c \<noteq> []\<close> refl] by blast
      moreover have "only_changes m m' (set_tree ?t) (anchor a) 1"
        by (rule only_changes_mono[OF calculation(7)]) auto
      ultimately show ?thesis using 1 by auto
    next
      case 2
      then obtain y where y: "r = Node Leaf y Leaf"
        using R(5) by (cases r) auto
      then have n: "Node l x r = nd 1 Leaf x (Node Leaf y Leaf)" by (simp add: nd_def 2)
      have "avl_delete (m, a) x = avl_delete_tail (fst (avl_delete_1child (m, ?b) x 1))
         (snd (avl_delete_1child (m, ?b) x 1))"
        using nz thr 2 by (subst avl_delete.simps) (simp add: Let_def thr5 avl_consts AVL_THR_LEFT_def AVL_THR_RIGHT_def split_beta)
      then show ?thesis
        using avl_delete_1child_rep[OF rep[unfolded n] c _ refl] by (auto simp: y 2 insert_commute[of x])
    next
      case 3
      then obtain y where y: "l = Node Leaf y Leaf"
        using R(5) by (cases l) auto
      then have n: "Node l x r = nd (-1) Leaf x (Node Leaf y Leaf)" by (simp add: nd_def 3)
      have "avl_delete (m, a) x = avl_delete_tail (fst (avl_delete_1child (m, ?b) x (-1)))
         (snd (avl_delete_1child (m, ?b) x (-1)))"
        using nz thr 3 by (subst avl_delete.simps)
          (simp add: Let_def thr5 avl_consts AVL_THR_LEFT_def AVL_THR_RIGHT_def split_beta)
      then show ?thesis
        using avl_delete_1child_rep[OF rep[unfolded n] c _ refl] by (auto simp: y 3 insert_commute[of x])
    qed
  qed
qed

text \<open>Replacing a node of a represented tree keeps its shape, its balances and its height.\<close>

lemma balance_avlh_replace [simp]: "balance (avlh_replace m x y q) = balance (m q)"
proof -
  have "balance (avlh_link_child m x y s q) = balance (m q)" for m s
    by (simp add: avlh_link_child_def avlh_set_up_def Let_def)
  then show ?thesis by (simp add: avlh_replace_def avl_setters Let_def)
qed

lemma avl_replace_rep:
  assumes rep: "avl_rep m a t" and io: "inorder t = xs @ x # ys"
    and y: "y \<noteq> NULL" "y \<notin> set_tree t" "y \<noteq> anchor a"
    and m': "m' = set_balance (avlh_replace m x y) y (balance (m x))"
    and a': "a' = (let a1 = (if x = avl_end a (-1) then avl_set_end a (-1) y else a) in
      if x = avl_end a 1 then avl_set_end a1 1 y else a1)"
  shows "\<exists>T. avl_rep m' a' T \<and> inorder T = xs @ y # ys \<and> height T = height t \<and>
    only_changes m m' (insert y (set_tree t)) (anchor a) 1"
proof -
  have "x \<in> set_tree t" using io by (simp flip: set_inorder)
  then obtain c l r where t: "t = plug c (Node l x r)" and c: "\<forall>f\<in>set c. side (fst f)"
    using plug_exists by blast
  note R = avl_repD[OF rep[unfolded t] c]
  let ?p = "ctx_parent (anchor a) c" and ?s = "ctx_side c" and ?m = "avlh_replace m x y"
  have dist: "distinct (xs @ x # ys)" using rep by (simp only: avl_rep_def io)
  have eq: "xs @ x # ys = (ctx_pre c @ inorder l) @ x # (inorder r @ ctx_post c)"
    using io by (simp add: t)
  have xy: "xs = ctx_pre c @ inorder l" "ys = inorder r @ ctx_post c"
    using split_unique[OF dist eq] by simp_all
  have k: "avlh_link m ?p ?s = x" "?p \<noteq> x" "?p \<notin> set_tree l" "?p \<notin> set_tree r" "y \<noteq> ?p" "y \<noteq> x"
    "y \<notin> set_tree l" "y \<notin> set_tree r" "y \<notin> ctx_set c" "x \<notin> set_tree l" "x \<notin> set_tree r"
    using links_ctx_root[OF R(1)] R(7,8,11) y ctx_parent_in[of "anchor a" c] by (auto simp: t)
  have rp: "links ?m ?p ?s (Node l y r)" "avlh_link ?m ?p ?s = y" "\<And>q. balance (?m q) = balance (m q)"
    "only_changes m ?m (insert y (set_tree l \<union> set_tree r)) ?p ?s"
    using avlh_replace_links[OF R(2) k(1) y(1) k(6,5,7,8,2-4) R(7) ctx_sideD[OF R(1)]]
    by (metis k(5))+
  have oc: "only_changes m m' (insert y (set_tree l \<union> set_tree r)) ?p ?s"
    unfolding m' by (intro only_changes_setters(3) rp(4)) simp
  have lt: "links m' ?p ?s (Node l y r)" "avlh_link m' ?p ?s = y"
    using rp unfolding m' by (simp_all only: links_set_balance avlh_link_set_balance)
  have bl: "bals m l" "bals m r" "balance (m x) = int (height r) - int (height l)"
    "\<bar>int (height r) - int (height l)\<bar> \<le> 1" "avlt l" "avlt r"
    using R(4,5) by auto
  have "bits2 (balance (m x)) = balance (m x)" using bl by (intro bits2_small) auto
  then have bt: "bals m' (Node l y r)"
    using bl k bals_cong[of l ?m m] bals_cong[of r ?m m] rp(3) by (simp add: m')
  have dj: "insert y (set_tree l \<union> set_tree r) \<inter> ctx_set c = {}"
    "anchor a \<notin> insert y (set_tree l \<union> set_tree r)" using k R(8,9) y by auto
  have cu: "links_ctx m' (anchor a) (rootp (Node l y r)) c" "bals_ctx m' (height (Node l y r)) c"
    using ctx_update[OF R(1) oc dj R(10) R(6), of y] lt(2) R(3) by auto
  let ?T = "plug c (Node l y r)"
  have lT: "links m' (anchor a) 1 ?T" "avlh_link m' (anchor a) 1 = rootp ?T"
    using links_plug[OF c, of m' "anchor a" "Node l y r"] cu(1) lt(1) by auto
  have bT: "bals m' ?T" "avlt ?T"
    using bals_plug[OF c, of m' "Node l y r"] cu(2) bt bl by auto
  have hT: "height ?T = height t" "size ?T = size t" by (simp_all add: t height_plug size_plug)
  have ioT: "inorder ?T = xs @ y # ys" by (simp add: xy)
  have dT: "distinct (inorder ?T)" "anchor a \<notin> set_tree ?T"
  proof -
    have st: "set_tree t = set (xs @ x # ys)" "set_tree ?T = set (xs @ y # ys)"
      using io ioT by (metis set_inorder)+
    show "distinct (inorder ?T)" unfolding ioT using dist y st by auto
    show "anchor a \<notin> set_tree ?T" using rep y(3) unfolding avl_rep_def st by auto
  qed
  have ends: "avl_end a' (-1) = hd (xs @ y # ys)" "avl_end a' 1 = last (xs @ y # ys)"
  proof -
    have e: "avl_end a' (-1) = (if x = avl_end a (-1) then y else avl_end a (-1))"
      "avl_end a' 1 = (if x = avl_end a 1 then y else avl_end a 1)"
      by (simp_all add: a' Let_def)
    have t0: "avl_end a (-1) = hd (xs @ x # ys)" "avl_end a 1 = last (xs @ x # ys)"
      using rep unfolding avl_rep_def avl_ends io by (simp_all add: t)
    show "avl_end a' (-1) = hd (xs @ y # ys)" unfolding e t0 using dist by (cases xs) auto
    show "avl_end a' 1 = last (xs @ y # ys)" unfolding e t0 using dist
      by (cases ys rule: rev_cases) auto
  qed
  have "anchor a' = anchor a" "count a' = count a" "height_of a' = height_of a"
    by (simp_all add: a' Let_def)
  then have "avl_rep m' a' ?T"
    using lT bT dT ends[folded ioT] rep unfolding avl_rep_def avl_ends
    by (simp add: hT del: inorder_plug)
  moreover have "only_changes m m' (insert y (set_tree t)) (anchor a) 1"
  proof (cases "c = []")
    case True
    then show ?thesis using only_changes_mono[OF oc, of "insert y (set_tree t)"] by (auto simp: t)
  next
    case False
    then have "?p \<in> ctx_set c" by (cases c rule: ctx_side.cases) auto
    then show ?thesis by (intro only_changes_up[OF oc]) (auto simp: t)
  qed
  ultimately show ?thesis using ioT hT by blast
qed

text \<open>
  \<^verbatim>\<open>avl_delete_2children\<close> calls \<^verbatim>\<open>avl_delete\<close> with the count already decremented, and adds one
  back: up to the count, the inner call is a deletion of its own.
\<close>

lemma set_end_count: "avl_set_end (a\<lparr>count := n\<rparr>) d h = (avl_set_end a d h)\<lparr>count := n\<rparr>"
  by (simp add: avl_set_end_def)

lemma delete_leaf_count:
  "avl_delete_leaf (m, a\<lparr>count := n\<rparr>) x =
     (fst (avl_delete_leaf (m, a) x), (snd (avl_delete_leaf (m, a) x))\<lparr>count := n\<rparr>)"
  by (simp add: avl_delete_leaf_def Let_def set_end_count)

lemma delete_1child_count:
  "avl_delete_1child (m, a\<lparr>count := n\<rparr>) x d =
     ((fst (fst (avl_delete_1child (m, a) x d)), (snd (fst (avl_delete_1child (m, a) x d)))\<lparr>count := n\<rparr>),
      snd (avl_delete_1child (m, a) x d))"
  by (simp add: avl_delete_1child_def Let_def set_end_count)

lemma delete_tail_count:
  "avl_delete_tail (m, a\<lparr>count := n\<rparr>) x =
     map_option (\<lambda>s. (fst s, (snd s)\<lparr>count := n\<rparr>)) (avl_delete_tail (m, a) x)"
  by (auto simp: avl_delete_tail_def split: option.splits)

lemma delete_tail_count': "avl_delete_tail (m, a) x = Some (m', a') \<Longrightarrow> count a' = count a"
  by (auto simp: avl_delete_tail_def split: option.splits if_splits)

lemma delete_st_count [simp]:
  "count (snd (avl_delete_leaf (m, a) x)) = count a"
  "count (snd (fst (avl_delete_1child (m, a) x d))) = count a"
  by (simp_all add: avl_delete_leaf_def avl_delete_1child_def Let_def)

lemma avl_delete_count:
  assumes "avlh_thr m x \<noteq> 0" "count a \<noteq> 1" "n \<noteq> 1"
  shows "avl_delete (m, a\<lparr>count := n\<rparr>) x =
     map_option (\<lambda>s. (fst s, (snd s)\<lparr>count := n - 1\<rparr>)) (avl_delete (m, a) x)"
proof -
  have thr: "avlh_thr m x = 5 \<or> avlh_thr m x = 1 \<or> avlh_thr m x = 4"
    using assms(1) by (auto simp: avlh_thr_eq split: if_splits)
  have n: "n - 1 \<noteq> 0" "count a - 1 \<noteq> 0" using assms by simp_all
  note u = avl_delete.simps[of "(m, a)"] avl_delete.simps[of "(m, a\<lparr>count := n\<rparr>)"]
  have c: "a\<lparr>count := k\<rparr> = (a\<lparr>count := count a - 1\<rparr>)\<lparr>count := k\<rparr>" for k by simp
  show ?thesis
    unfolding u using thr n assms(2,3)
    by (elim disjE; simp add: Let_def AVL_THR_LEFT_def AVL_THR_RIGHT_def delete_leaf_count
      delete_1child_count delete_tail_count option.map_comp split_beta comp_def)
qed


lemma unat_small: "k < 2 ^ 32 \<Longrightarrow> unat (of_nat k :: u32) = k"
  by (simp add: unat_of_nat take_bit_nat_eq_self)

text \<open>The extreme node of a subtree on side \<open>e\<close> has no child on that side.\<close>

lemma extreme_node:
  assumes "t \<noteq> Leaf" "side e"
  obtains c z y where "t = plug c (nd e z y Leaf)" "\<forall>f\<in>set c. side (fst f)"
    "(if e = 1 then ctx_post c else ctx_pre c) = []"
proof -
  have "\<exists>c z y. t = plug c (nd e z y Leaf) \<and> (\<forall>f\<in>set c. side (fst f)) \<and>
    (if e = 1 then ctx_post c else ctx_pre c) = []"
    using assms(1)
  proof (induction t)
    case (Node l a r)
    obtain x s where n: "Node l a r = nd e x a s" and s: "s = (if e = 1 then r else l)"
      using assms(2) by (auto simp: nd_def side_def)
    show ?case
    proof (cases "s = Leaf")
      case True
      then show ?thesis using n by (intro exI[of _ "[]"] exI[of _ x] exI[of _ a]) simp
    next
      case False
      then obtain c z y where "s = plug c (nd e z y Leaf)" "\<forall>f\<in>set c. side (fst f)"
        "(if e = 1 then ctx_post c else ctx_pre c) = []"
        using Node.IH s by (cases "e = 1") auto
      then show ?thesis using n assms(2)
        by (intro exI[of _ "c @ [(e, a, x)]"] exI[of _ z] exI[of _ y]) (auto simp: plug_append side_def)
    qed
  qed simp
  then show thesis using that by blast
qed

lemma avl_delete_rep:
  assumes rep: "avl_rep m a t" and io: "inorder t = xs @ x # ys"
  shows "\<exists>m' a' T. avl_delete (m, a) x = Some (m', a') \<and> avl_rep m' a' T \<and> inorder T = xs @ ys \<and>
    anchor a' = anchor a \<and> only_changes m m' (set_tree t) (anchor a) 1"
proof -
  have "x \<in> set_tree t" using io by (simp flip: set_inorder)
  then obtain c l r where t: "t = plug c (Node l x r)" and c: "\<forall>f\<in>set c. side (fst f)"
    using plug_exists by blast
  note R = avl_repD[OF rep[unfolded t] c]
  have dist: "distinct (xs @ x # ys)" using rep by (simp only: avl_rep_def io)
  have eq: "xs @ x # ys = (ctx_pre c @ inorder l) @ x # (inorder r @ ctx_post c)"
    using io by (simp add: t)
  have xy: "xs = ctx_pre c @ inorder l" "ys = inorder r @ ctx_post c"
    using split_unique[OF dist eq] by simp_all
  show ?thesis
  proof (cases "l = Leaf \<or> r = Leaf")
    case True
    show ?thesis using avl_delete_few_children[OF rep[unfolded t] c True] unfolding xy t by simp
  next
    case False
    let ?d = "avl_delete_2children_dir m x"
    have d: "side ?d" using R(4,5) by (auto simp: avl_delete_2children_dir_def side_def)
    define s where "s = (if ?d = 1 then r else l)"
    define u where "u = (if ?d = 1 then l else r)"
    have n: "Node l x r = nd ?d u x s" "s \<noteq> Leaf" "u \<noteq> Leaf"
      using False d by (auto simp: nd_def side_def s_def u_def)
    obtain c' z y where s: "s = plug c' (nd (- ?d) z y Leaf)" "\<forall>f\<in>set c'. side (fst f)"
      "(if - ?d = 1 then ctx_post c' else ctx_pre c') = []"
      using extreme_node[OF n(2), of "- ?d"] d by auto
    let ?c = "c' @ (?d, x, u) # c"
    have t2: "t = plug ?c (nd (- ?d) z y Leaf)" by (simp add: t n s plug_append)
    have c2: "\<forall>f\<in>set ?c. side (fst f)" using c s d by auto
    have y: "nbr ?d xs ys = y"
    proof -
      have "inorder s = (if ?d = 1 then y # inorder z @ ctx_post c' else ctx_pre c' @ inorder z @ [y])"
        using s(3) d by (auto simp: s(1) inorder_nd side_def)
      then show ?thesis using d by (auto simp: xy nbr_def s_def side_def split: if_splits)
    qed
    obtain l2 r2 where n2: "nd (- ?d) z y Leaf = Node l2 y r2" "l2 = Leaf \<or> r2 = Leaf"
      "inorder l2 @ inorder r2 = inorder z"
      by (cases "- ?d = 1") (auto simp: nd_def)
    obtain m1 a1 T1 where D: "avl_delete (m, a) y = Some (m1, a1)" "avl_rep m1 a1 T1"
      "inorder T1 = ctx_pre ?c @ inorder z @ ctx_post ?c" "anchor a1 = anchor a"
      "only_changes m m1 (set_tree t) (anchor a) 1"
      using avl_delete_few_children[OF rep[unfolded t2 n2(1)] c2 n2(2)] n2(3)
      unfolding t2[unfolded n2(1), symmetric] by auto
    obtain xs1 ys1 where io1: "inorder T1 = xs1 @ x # ys1" "xs1 @ y # ys1 = xs @ ys"
      "(if ?d = 1 then xs1 else ys1) \<noteq> []"
    proof (cases "?d = 1")
      case True
      then have "inorder u \<noteq> []" "s = r" "u = l" using n(3) inorder_eqD(3)[of u Leaf] by (auto simp: s_def u_def)
      then show thesis using True s(3)
        by (intro that[of xs "inorder z @ ctx_post c' @ ctx_post c"]) (auto simp: D(3) xy s(1) inorder_nd)
    next
      case False
      then have "inorder u \<noteq> []" "s = l" "u = r" "?d = -1" using n(3) d inorder_eqD(3)[of u Leaf]
        by (auto simp: s_def u_def side_def)
      then show thesis using s(3)
        by (intro that[of "ctx_pre c @ ctx_pre c' @ inorder z" ys]) (auto simp: D(3) xy s(1) inorder_nd)
    qed
    have sz: "size t \<ge> 3" using False by (cases l; cases r) (auto simp: t size_plug)
    have cnt: "count a = of_nat (size t)" "size t < 2 ^ 32" using rep by (auto simp: avl_rep_def)
    then have uc: "unat (count a) = size t" using unat_small by simp
    then have c0: "count a \<noteq> 0" "count a \<noteq> 1" "count a \<noteq> 2" using sz by auto
    have szT: "size T1 + 1 = size t"
      using arg_cong[OF io1(1), of length] arg_cong[OF io1(2), of length] arg_cong[OF io, of length] by simp
    have ca1: "count a1 = count a - 1"
      using D(2) cnt(1) unfolding avl_rep_def by (simp flip: szT)
    have nc: "rootp l \<noteq> NULL" "rootp r \<noteq> NULL" using False R(2) rootp_NULL by auto
    have thr: "avlh_thr m x = 0" using R(2) nc by (simp add: avlh_thr_eq)
    have thy: "avlh_thr m y \<noteq> 0"
      using avl_repD(2)[OF rep[unfolded t2 n2(1)] c2] n2(2) by (auto simp: avlh_thr_eq)
    let ?b = "a\<lparr>count := count a - 1\<rparr>"
    have Db: "avl_delete (m, ?b) y = Some (m1, a1\<lparr>count := count a - 1 - 1\<rparr>)"
      using avl_delete_count[OF thy, of a "count a - 1"] c0 D(1) by simp
    have yb: "avl_inorder m ?b x ?d = Some y" using avl_inorder_rep[OF rep _ io d, of ?b] y by simp
    let ?m = "set_balance (avlh_replace m1 x y) y (balance (m1 x))"
    let ?a = "if avl_end a1 ?d = x then avl_set_end a1 ?d y else a1"
    have "avl_delete (m, a) x = Some (avl_delete_2children_finish (m1, a1\<lparr>count := count a - 1 - 1\<rparr>) x y ?d)"
      using c0 thr yb Db by (subst avl_delete.simps) (simp add: Let_def AVL_THR_LEFT_def AVL_THR_RIGHT_def)
    also have "\<dots> = Some (?m, ?a)"
      using ca1 by (simp add: avl_delete_2children_finish_def Let_def set_end_count)
    finally have eqD: "avl_delete (m, a) x = Some (?m, ?a)" .
    have dist1: "distinct (xs1 @ x # ys1)" "y \<notin> set_tree T1"
    proof -
      show "distinct (xs1 @ x # ys1)" using D(2) by (simp only: avl_rep_def io1)
      have "y \<in> set_tree s" by (simp add: s(1))
      then have "y \<in> set (xs @ ys)" by (auto simp: xy s_def split: if_splits)
      then have "x \<noteq> y" using dist by auto
      moreover have "distinct (xs1 @ y # ys1)" unfolding io1(2) using dist by simp
      ultimately show "y \<notin> set_tree T1" by (simp add: io1(1) flip: set_inorder)
    qed
    have "T1 \<noteq> Leaf" using io1(1) by auto
    then have ends: "avl_end a1 (-1) = hd (xs1 @ x # ys1)" "avl_end a1 1 = last (xs1 @ x # ys1)"
      using D(2) unfolding avl_rep_def avl_ends io1(1) by simp_all
    have xe: "x \<noteq> avl_end a1 (- ?d)"
    proof (cases "?d = 1")
      case True
      then have "hd (xs1 @ x # ys1) \<in> set xs1" using io1(3) by simp
      then show ?thesis using True ends dist1(1) by auto
    next
      case False
      then have "last (xs1 @ x # ys1) \<in> set ys1" "?d = -1" using io1(3) d by (simp_all add: side_def)
      then show ?thesis using ends dist1(1) by auto
    qed
    then have a': "?a = (let b = (if x = avl_end a1 (-1) then avl_set_end a1 (-1) y else a1) in
      if x = avl_end a1 1 then avl_set_end b 1 y else b)"
      using d by (auto simp: Let_def side_def)
    have "y \<in> set_tree t" by (simp add: t2)
    moreover have "NULL \<notin> set_tree t" "anchor a \<notin> set_tree t"
      using rep links_NULL unfolding avl_rep_def by blast+
    ultimately have y1: "y \<noteq> NULL" "y \<noteq> anchor a1" using D(4) by metis+
    obtain T where "avl_rep ?m ?a T" "inorder T = xs1 @ y # ys1"
      "only_changes m1 ?m (insert y (set_tree T1)) (anchor a1) 1"
      using avl_replace_rep[OF D(2) io1(1) y1(1) dist1(2) y1(2) refl a'] by blast
    moreover have "insert y (set_tree T1) \<subseteq> set_tree t"
    proof -
      have "set_tree T1 = insert x (set xs1 \<union> set ys1)" "set_tree t = insert x (set (xs @ ys))"
        by (simp_all add: io1(1) io flip: set_inorder)
      moreover have "insert y (set xs1 \<union> set ys1) = set (xs @ ys)" unfolding io1(2)[symmetric] by simp
      ultimately show ?thesis by auto
    qed
    ultimately have "avl_rep ?m ?a T" "inorder T = xs @ ys" "only_changes m ?m (set_tree t) (anchor a) 1"
      using only_changes_trans[OF D(5)] only_changes_mono io1(2) D(4) by metis+
    moreover have "anchor ?a = anchor a" using D(4) by simp
    ultimately show ?thesis using eqD by blast
  qed
qed

end
