(* ===== verification/Avl_Spec.thy ===== *)
theory Avl_Spec
  imports Avl_Delete
begin

text \<open>
  The contract of the AVL trees for their clients. \<open>avl_probe\<close> is what a search asks of its
  comparison function, \<open>avl_searchops\<close> what the operations of \<^verbatim>\<open>struct avl_searchops\<close> ask; under
  these laws insertion puts a node in order, searches find the nearest key, and deletion and
  replacement change one element of the in-order list.
\<close>

section \<open>Comparison functions\<close>

definition avl_cmp_sign :: "'k::linorder \<Rightarrow> 'k \<Rightarrow> int" where
  "avl_cmp_sign l r = (if r < l then 1 else 0) - (if l < r then 1 else 0)"

lemma avl_cmp_sign_simps [simp]:
  "avl_cmp_sign l r = 0 \<longleftrightarrow> l = r" "avl_cmp_sign l r = 1 \<longleftrightarrow> r < l" "avl_cmp_sign l r = -1 \<longleftrightarrow> l < r"
  "avl_cmp_sign l r < 0 \<longleftrightarrow> l < r" "0 < avl_cmp_sign l r \<longleftrightarrow> r < l"
  by (auto simp: avl_cmp_sign_def)

lemma avl_cmp_sign_cases: "avl_cmp_sign l r = -1 \<or> avl_cmp_sign l r = 0 \<or> avl_cmp_sign l r = 1"
  by (auto simp: avl_cmp_sign_def)

text \<open>The keys of a tree are sorted along its in-order list, and in the range \<open>K\<close> the comparison handles.\<close>

definition avl_ordered :: "(addr \<Rightarrow> 'k::linorder) \<Rightarrow> 'k set \<Rightarrow> addr tree \<Rightarrow> bool" where
  "avl_ordered key K t \<longleftrightarrow> sorted (map key (inorder t)) \<and> key ` set_tree t \<subseteq> K"

text \<open>
  What a search function needs of the comparison it is given: it compares a key of the probe with
  the key of the visited node. The keys of the tree are sorted along its in-order list.
\<close>

locale avl_probe =
  fixes cmp :: "addr \<Rightarrow> addr \<Rightarrow> int" and pkey :: "addr \<Rightarrow> 'k::linorder" and key :: "addr \<Rightarrow> 'k"
    and K :: "'k set"
  assumes cmp_key: "pkey p \<in> K \<Longrightarrow> key y \<in> K \<Longrightarrow> cmp p y = avl_cmp_sign (pkey p) (key y)"
begin

lemma cmp_in: "avl_ordered key K t \<Longrightarrow> pkey p \<in> K \<Longrightarrow> y \<in> set_tree t \<Longrightarrow> cmp p y = avl_cmp_sign (pkey p) (key y)"
  by (auto simp: avl_ordered_def intro!: cmp_key)

lemma search_cases:
  assumes rep: "avl_rep m a t" and so: "avl_ordered key K t" and pk: "pkey p \<in> K" and t: "t \<noteq> Leaf"
    and d: "dir = 0 \<or> dir = 1"
  shows "\<exists>h. avl_search m a cmp p dir = Some (h, cmp p h) \<and> h \<in> set_tree t \<and>
    (elvis (cmp p h) dir = 0 \<or> slot (\<lambda>y. elvis (cmp p y) dir) t h)"
proof -
  have r: "links m (anchor a) 1 t" "avlh_link m (anchor a) 1 = rootp t"
    using rep by (simp_all add: avl_rep_def)
  then have "avl_top m a \<noteq> NULL" using t rootp_NULL[OF r(1)] by (simp add: avl_top_def avl_consts)
  then have eq: "avl_search m a cmp p dir = avl_search_loop m cmp p dir (rootp t)"
    using r(2) by (simp add: avl_search_def avl_top_def avl_consts)
  show ?thesis unfolding eq
  proof (rule avl_search_loop_rep[OF r(1) t])
    show "elvis (cmp p y) dir = -1 \<or> elvis (cmp p y) dir = 0 \<or> elvis (cmp p y) dir = 1"
      if "y \<in> set_tree t" for y
      using d avl_cmp_sign_cases[of "pkey p" "key y"] by (auto simp: elvis_def cmp_in[OF so pk that])
    have "sorted_wrt (\<lambda>x y. key x \<le> key y) (inorder t)"
      using so by (simp add: avl_ordered_def sorted_wrt_map)
    then show "sorted_wrt (\<lambda>x y. elvis (cmp p y) dir \<le> elvis (cmp p x) dir) (inorder t)"
      by (rule sorted_wrt_mono_rel[rotated])
        (use d in \<open>auto simp: elvis_def cmp_in[OF so pk] avl_cmp_sign_def\<close>)
  qed simp
qed

text \<open>The slot next to the last visited node splits the in-order list at the key of the probe.\<close>

lemma slot_split:
  assumes "slot e t h"
  obtains c x xs ys where "t = plug c (nd (e h) x h Leaf)" "\<forall>f\<in>set c. side (fst f)" "side (e h)"
    "inorder t = xs @ ys" "\<forall>x\<in>set xs. e x = 1" "\<forall>y\<in>set ys. e y = -1"
    "\<And>node. ctx_pre c @ inorder (nd (e h) x h (Node Leaf node Leaf)) @ ctx_post c = xs @ node # ys"
    "h = (if e h = 1 then last xs else hd ys)" "(if e h = 1 then xs else ys) \<noteq> []"
proof -
  obtain c x where c: "side (e h)" "t = plug c (nd (e h) x h Leaf)" "\<forall>f\<in>set c. side (fst f)"
    "set (ctx_pre ((e h, h, x) # c)) \<subseteq> {y. e y = 1}"
    "set (ctx_post ((e h, h, x) # c)) \<subseteq> {y. e y = -1}"
    using assms unfolding slot_def by blast
  let ?xs = "ctx_pre ((e h, h, x) # c)" and ?ys = "ctx_post ((e h, h, x) # c)"
  have sg: "\<forall>x\<in>set ?xs. e x = 1" "\<forall>y\<in>set ?ys. e y = -1" using c(4,5) by blast+
  have io: "inorder t = ?xs @ ?ys"
    using c(1) unfolding c(2) inorder_plug by (auto simp: inorder_nd side_def)
  have ins: "ctx_pre c @ inorder (nd (e h) x h (Node Leaf node Leaf)) @ ctx_post c = ?xs @ node # ?ys" for node
    using c(1) by (auto simp: inorder_nd side_def)
  have lst: "h = (if e h = 1 then last ?xs else hd ?ys)" "(if e h = 1 then ?xs else ?ys) \<noteq> []" by simp_all
  show thesis by (rule that[OF c(2,3,1) io sg ins lst])
qed

lemma nearest_cases:
  assumes rep: "avl_rep m a t" and so: "avl_ordered key K t" and pk: "pkey p \<in> K" and d: "side dir" and t: "t \<noteq> Leaf"
  shows "(\<exists>h. avl_search_nearest m a cmp p dir = Some h \<and> h \<in> set_tree t \<and> key h = pkey p) \<or>
    (\<exists>xs ys. inorder t = xs @ ys \<and> (\<forall>x\<in>set xs. key x < pkey p) \<and> (\<forall>y\<in>set ys. pkey p < key y) \<and>
       avl_search_nearest m a cmp p dir = Some (nbr dir xs ys))"
proof -
  have e0: "elvis (cmp p y) 0 = cmp p y" for y by (simp add: elvis_def)
  obtain h where s: "avl_search m a cmp p 0 = Some (h, cmp p h)" "h \<in> set_tree t"
    and h: "cmp p h = 0 \<or> slot (cmp p) t h"
    using search_cases[OF rep so pk t, of 0] by (auto simp: e0)
  have hn: "h \<noteq> NULL" using rep links_NULL s(2) by (metis avl_rep_def)
  note eq = avl_search_nearest_def[of m a cmp p dir, unfolded s(1), simplified]
  show ?thesis
  proof (cases "cmp p h = 0")
    case True
    then show ?thesis using s(2) d hn by (auto simp: eq cmp_in[OF so pk] side_def)
  next
    case False
    then have "slot (cmp p) t h" using h by simp
    then obtain xs ys where xs: "inorder t = xs @ ys" "\<forall>x\<in>set xs. cmp p x = 1" "\<forall>y\<in>set ys. cmp p y = -1"
      and e: "side (cmp p h)" "h = (if cmp p h = 1 then last xs else hd ys)"
        "(if cmp p h = 1 then xs else ys) \<noteq> []"
      by (rule slot_split) blast
    have "avl_search_nearest m a cmp p dir = Some (nbr dir xs ys)"
    proof (cases "cmp p h = dir")
      case False
      then show ?thesis using e d hn by (auto simp: eq nbr_def side_def split: if_splits)
    next
      case True
      then have s1: "avl_search_nearest m a cmp p dir = avl_inorder m a h dir" using hn by (simp add: eq)
      show ?thesis
      proof (cases "dir = 1")
        case 1: True
        then have "inorder t = butlast xs @ h # ys"
          using e True xs(1) by (simp add: append_butlast_last_id[symmetric] del: append_butlast_last_id)
        from avl_inorder_rep[OF rep refl this d] show ?thesis using 1 s1 by (simp add: nbr_def)
      next
        case 2: False
        then have "inorder t = xs @ h # tl ys" using e True xs(1) by (cases ys) auto
        from avl_inorder_rep[OF rep refl this d] show ?thesis using 2 s1 by (simp add: nbr_def)
      qed
    qed
    moreover have "set_tree t = set xs \<union> set ys" using xs(1) by (metis set_append set_inorder)
    then have "\<forall>x\<in>set xs. key x < pkey p" "\<forall>y\<in>set ys. pkey p < key y"
      using xs(2,3) cmp_in[OF so pk] by auto
    ultimately show ?thesis using xs(1) by blast
  qed
qed

lemma search_ge:
  assumes rep: "avl_rep m a t" and so: "avl_ordered key K t" and pk: "pkey p \<in> K"
  shows "\<exists>h. avl_search_ge m a cmp p = Some h \<and>
    (if h = NULL then \<forall>x\<in>set_tree t. key x < pkey p
     else h \<in> set_tree t \<and> pkey p \<le> key h \<and> (\<forall>x\<in>set_tree t. pkey p \<le> key x \<longrightarrow> key h \<le> key x))"
proof (cases "t = Leaf")
  case True
  then show ?thesis using rep
    by (simp add: avl_search_ge_def avl_search_nearest_def avl_search_def avl_top_def avl_rep_def avl_consts)
next
  case False
  have n: "NULL \<notin> set_tree t" using rep links_NULL by (metis avl_rep_def)
  from nearest_cases[OF rep so pk side_simps(1) False] show ?thesis
  proof (elim disjE exE conjE)
    fix h assume "avl_search_nearest m a cmp p 1 = Some h" "h \<in> set_tree t" "key h = pkey p"
    then show ?thesis using n by (auto simp: avl_search_ge_def avl_consts)
  next
    fix xs ys assume a: "inorder t = xs @ ys" "\<forall>x\<in>set xs. key x < pkey p" "\<forall>y\<in>set ys. pkey p < key y"
      "avl_search_nearest m a cmp p 1 = Some (nbr 1 xs ys)"
    have st: "set_tree t = set xs \<union> set ys" using a(1) by (metis set_append set_inorder)
    show ?thesis
    proof (cases ys)
      case Nil
      then show ?thesis using a st by (simp add: avl_search_ge_def avl_consts nbr_def)
    next
      case (Cons y zs)
      then have "\<forall>x\<in>set ys. key y \<le> key x" using so a(1) by (auto simp: avl_ordered_def sorted_append)
      moreover have "y \<noteq> NULL" using n st Cons by auto
      ultimately show ?thesis using a st Cons
        by (auto simp: avl_search_ge_def avl_consts nbr_def not_less[symmetric])
    qed
  qed
qed

lemma search_le:
  assumes rep: "avl_rep m a t" and so: "avl_ordered key K t" and pk: "pkey p \<in> K"
  shows "\<exists>h. avl_search_le m a cmp p = Some h \<and>
    (if h = NULL then \<forall>x\<in>set_tree t. pkey p < key x
     else h \<in> set_tree t \<and> key h \<le> pkey p \<and> (\<forall>x\<in>set_tree t. key x \<le> pkey p \<longrightarrow> key x \<le> key h))"
proof (cases "t = Leaf")
  case True
  then show ?thesis using rep
    by (simp add: avl_search_le_def avl_search_nearest_def avl_search_def avl_top_def avl_rep_def avl_consts)
next
  case False
  have n: "NULL \<notin> set_tree t" using rep links_NULL by (metis avl_rep_def)
  from nearest_cases[OF rep so pk side_simps(2) False] show ?thesis
  proof (elim disjE exE conjE)
    fix h assume "avl_search_nearest m a cmp p (-1) = Some h" "h \<in> set_tree t" "key h = pkey p"
    then show ?thesis using n by (auto simp: avl_search_le_def avl_consts)
  next
    fix xs ys assume a: "inorder t = xs @ ys" "\<forall>x\<in>set xs. key x < pkey p" "\<forall>y\<in>set ys. pkey p < key y"
      "avl_search_nearest m a cmp p (-1) = Some (nbr (-1) xs ys)"
    have st: "set_tree t = set xs \<union> set ys" using a(1) by (metis set_append set_inorder)
    show ?thesis
    proof (cases xs rule: rev_cases)
      case Nil
      then show ?thesis using a st by (simp add: avl_search_le_def avl_consts nbr_def)
    next
      case (snoc zs y)
      then have "\<forall>x\<in>set xs. key x \<le> key y" using so a(1) by (auto simp: avl_ordered_def sorted_append)
      moreover have "y \<noteq> NULL" using n st snoc by auto
      ultimately show ?thesis using a st snoc
        by (auto simp: avl_search_le_def avl_consts nbr_def not_less[symmetric])
    qed
  qed
qed

end

text \<open>
  The operations that change a tree take \<^verbatim>\<open>struct avl_searchops\<close>: the comparison is between two
  nodes of the tree.
\<close>

definition avl_fresh :: "avlmem \<Rightarrow> avl \<Rightarrow> addr tree \<Rightarrow> addr \<Rightarrow> bool" where
  "avl_fresh m a t node \<longleftrightarrow> node \<noteq> NULL \<and> node \<noteq> anchor a \<and> node \<notin> set_tree t \<and> balance (m node) = 0"

definition avl_step :: "avl_st option \<Rightarrow> avlmem \<Rightarrow> avl \<Rightarrow> addr set \<Rightarrow> addr list \<Rightarrow> bool" where
  "avl_step r m a S xs \<longleftrightarrow>
     (\<exists>m' a' T. r = Some (m', a') \<and> avl_rep m' a' T \<and> inorder T = xs \<and> anchor a' = anchor a \<and>
        only_changes m m' S (anchor a) 1)"

locale avl_searchops = avl_probe cmp key key K
  for cmp :: "addr \<Rightarrow> addr \<Rightarrow> int" and key :: "addr \<Rightarrow> 'k::linorder" and K :: "'k set"
begin

lemma insert_at_slot:
  assumes rep: "avl_rep m a t" and sl: "slot e t h" and fr: "avl_fresh m a t node"
    and sz: "size t + 1 < 2 ^ 32"
  shows "\<exists>xs ys. inorder t = xs @ ys \<and> (\<forall>x\<in>set xs. e x = 1) \<and> (\<forall>y\<in>set ys. e y = -1) \<and>
    avl_step (avl_insert_inner (m, a) h node (e h)) m a (insert node (set_tree t)) (xs @ node # ys)"
proof -
  obtain c x xs ys where c: "t = plug c (nd (e h) x h Leaf)" "\<forall>f\<in>set c. side (fst f)" "side (e h)"
    and xs: "inorder t = xs @ ys" "\<forall>x\<in>set xs. e x = 1" "\<forall>y\<in>set ys. e y = -1"
    and ins: "\<And>node. ctx_pre c @ inorder (nd (e h) x h (Node Leaf node Leaf)) @ ctx_post c = xs @ node # ys"
    by (rule slot_split[OF sl]) blast
  have "avl_step (avl_insert_inner (m, a) h node (e h)) m a (insert node (set_tree t)) (xs @ node # ys)"
    using avl_insert_inner_rep[OF rep[unfolded c(1)] c(2,3), of node] fr sz
    unfolding avl_step_def avl_fresh_def ins c(1)[symmetric] by blast
  with xs show ?thesis by blast
qed

lemma insert_first:
  assumes "avl_rep m a Leaf" "avl_fresh m a Leaf node"
  shows "avl_step (avl_insert_inner (m, a) NULL node 1) m a {node} [node]"
  using avl_insert_inner_empty[of m a node] assms
  by (auto simp: avl_step_def avl_fresh_def avl_consts)

lemma search_empty:
  "avl_rep m a Leaf \<Longrightarrow> avl_search m a cmp p dir = Some (NULL, 1)"
  by (simp add: avl_search_def avl_top_def avl_rep_def avl_consts)

lemma insert_back:
  assumes rep: "avl_rep m a t" and so: "avl_ordered key K t" and pk: "key node \<in> K" and fr: "avl_fresh m a t node"
    and sz: "size t + 1 < 2 ^ 32"
  shows "\<exists>xs ys. inorder t = xs @ ys \<and> (\<forall>x\<in>set xs. key x \<le> key node) \<and> (\<forall>y\<in>set ys. key node < key y) \<and>
    avl_step (avl_insert_back (m, a) cmp node) m a (insert node (set_tree t)) (xs @ node # ys)"
proof (cases "t = Leaf")
  case True
  then show ?thesis using insert_first[of m a node] rep fr
    by (simp add: avl_insert_back_def search_empty elvis_def)
next
  case False
  let ?e = "\<lambda>y. elvis (cmp node y) 1"
  obtain h where h: "avl_search m a cmp node 1 = Some (h, cmp node h)" "?e h = 0 \<or> slot ?e t h"
    using search_cases[OF rep so pk False, of 1] by auto
  have "?e h \<noteq> 0" by (simp add: elvis_def)
  then have "slot ?e t h" using h(2) by simp
  from insert_at_slot[OF rep this fr sz] obtain xs ys where xs: "inorder t = xs @ ys"
    "\<forall>x\<in>set xs. ?e x = 1" "\<forall>y\<in>set ys. ?e y = -1"
    "avl_step (avl_insert_inner (m, a) h node (?e h)) m a (insert node (set_tree t)) (xs @ node # ys)"
    by blast
  have st: "set_tree t = set xs \<union> set ys" using xs(1) by (metis set_append set_inorder)
  have "key y \<le> key node" if "?e y = 1" "y \<in> set_tree t" for y
    using that by (auto simp: elvis_def cmp_in[OF so pk] split: if_splits)
  moreover have "key node < key y" if "?e y = -1" "y \<in> set_tree t" for y
    using that by (auto simp: elvis_def cmp_in[OF so pk] split: if_splits)
  moreover have "avl_insert_back (m, a) cmp node = avl_insert_inner (m, a) h node (?e h)"
    using h(1) by (simp add: avl_insert_back_def avl_consts)
  ultimately show ?thesis using xs by (intro exI[of _ xs] exI[of _ ys]) (auto simp: st)
qed

lemma insert:
  assumes rep: "avl_rep m a t" and so: "avl_ordered key K t" and pk: "key node \<in> K" and fr: "avl_fresh m a t node"
    and sz: "size t + 1 < 2 ^ 32" and new: "key node \<notin> key ` set_tree t"
  shows "\<exists>xs ys. inorder t = xs @ ys \<and> (\<forall>x\<in>set xs. key x < key node) \<and> (\<forall>y\<in>set ys. key node < key y) \<and>
    avl_step (avl_insert (m, a) cmp node) m a (insert node (set_tree t)) (xs @ node # ys)"
proof (cases "t = Leaf")
  case True
  then show ?thesis using insert_first[of m a node] rep fr
    by (simp add: avl_insert_def search_empty)
next
  case False
  have e0: "elvis (cmp node y) 0 = cmp node y" for y by (simp add: elvis_def)
  obtain h where h: "avl_search m a cmp node 0 = Some (h, cmp node h)" "h \<in> set_tree t"
    "cmp node h = 0 \<or> slot (cmp node) t h"
    using search_cases[OF rep so pk False, of 0] by (auto simp: e0)
  have ne: "cmp node h \<noteq> 0" using new h(2) by (auto simp: cmp_in[OF so pk])
  then have "slot (cmp node) t h" using h(3) by simp
  from insert_at_slot[OF rep this fr sz] obtain xs ys where xs: "inorder t = xs @ ys"
    "\<forall>x\<in>set xs. cmp node x = 1" "\<forall>y\<in>set ys. cmp node y = -1"
    "avl_step (avl_insert_inner (m, a) h node (cmp node h)) m a (insert node (set_tree t)) (xs @ node # ys)"
    by blast
  moreover have "avl_insert (m, a) cmp node = avl_insert_inner (m, a) h node (cmp node h)"
    using h(1) ne by (simp add: avl_insert_def)
  moreover have "set_tree t = set xs \<union> set ys" using xs(1) by (metis set_append set_inorder)
  ultimately show ?thesis by (intro exI[of _ xs] exI[of _ ys]) (auto simp: cmp_in[OF so pk])
qed

lemma insert_duplicate:
  assumes rep: "avl_rep m a t" and so: "avl_ordered key K t" and pk: "key node \<in> K" and dup: "key node \<in> key ` set_tree t"
  shows "avl_insert (m, a) cmp node = None"
proof -
  have ne: "t \<noteq> Leaf" using dup by auto
  have e0: "elvis (cmp node y) 0 = cmp node y" for y by (simp add: elvis_def)
  obtain h where h: "avl_search m a cmp node 0 = Some (h, cmp node h)" "h \<in> set_tree t"
    "cmp node h = 0 \<or> slot (cmp node) t h"
    using search_cases[OF rep so pk ne, of 0] by (auto simp: e0)
  have "\<not> slot (cmp node) t h"
  proof
    assume "slot (cmp node) t h"
    then obtain xs ys where "inorder t = xs @ ys" "\<forall>x\<in>set xs. cmp node x = 1" "\<forall>y\<in>set ys. cmp node y = -1"
      by (rule slot_split) blast
    moreover have "set_tree t = set xs \<union> set ys" using calculation(1) by (metis set_append set_inorder)
    ultimately show False using dup cmp_in[OF so pk] by fastforce
  qed
  then show ?thesis using h by (simp add: avl_insert_def)
qed

lemma prepend:
  assumes rep: "avl_rep m a t" and fr: "avl_fresh m a t node" and sz: "size t + 1 < 2 ^ 32"
    and so: "avl_ordered key K t" and pk: "key node \<in> K"
    and lt: "t = Leaf \<or> key node < key (hd (inorder t))"
  shows "avl_step (avl_prepend (m, a) cmp node) m a (insert node (set_tree t)) (node # inorder t)"
proof (cases "t = Leaf")
  case True
  then show ?thesis using insert_first[of m a node] rep fr
    by (simp add: avl_prepend_def avl_rep_def Let_def avl_consts)
next
  case False
  obtain c z y where c: "t = plug c (nd (-1) z y Leaf)" "\<forall>f\<in>set c. side (fst f)" "ctx_pre c = []"
    using extreme_node[OF False, of "-1"] by auto
  have hd: "avl_head a = y" "y = hd (inorder t)" using rep False c(3) unfolding avl_rep_def
    by (simp_all add: c(1) inorder_nd)
  have "y \<noteq> NULL" using rep links_NULL c(1) unfolding avl_rep_def by fastforce
  moreover have ly: "key node < key y" using lt False hd(2) by simp
  moreover have cy: "cmp node y = avl_cmp_sign (key node) (key y)"
    by (rule cmp_in[OF so pk]) (simp add: c(1))
  ultimately have eq: "avl_prepend (m, a) cmp node = avl_insert_inner (m, a) y node (-1)"
    using ly cy hd(1) by (simp add: avl_prepend_def Let_def avl_consts)
  show ?thesis unfolding eq avl_step_def
    using avl_insert_inner_rep[OF rep[unfolded c(1)] c(2), of node] fr sz c(3)
    unfolding avl_fresh_def c(1)[symmetric] by (auto simp: inorder_nd c(1))
qed

end

section \<open>Operations that do not search\<close>

lemma avl_init_rep: "avl_rep (fst (avl_init (m, a))) (snd (avl_init (m, a))) Leaf"
  by (simp add: avl_init_def Let_def avl_rep_def avl_ends avl_setters)

lemma anchor_avl_init [simp]: "anchor (snd (avl_init (m, a))) = anchor a"
  by (simp add: avl_init_def Let_def avl_ends)

lemma avl_init_frame: "x \<noteq> anchor a \<Longrightarrow> fst (avl_init (m, a)) x = m x"
  by (simp add: avl_init_def Let_def avl_setters avlh_init_def)

lemma avl_delete_step:
  "avl_rep m a t \<Longrightarrow> inorder t = xs @ x # ys \<Longrightarrow>
     avl_step (avl_delete (m, a) x) m a (set_tree t) (xs @ ys)"
  using avl_delete_rep[of m a t xs x ys] unfolding avl_step_def by blast

lemma avl_replace_step:
  assumes rep: "avl_rep m a t" and io: "inorder t = xs @ x # ys"
    and fr: "y \<noteq> NULL" "y \<notin> set_tree t" "y \<noteq> anchor a"
    and prev: "xs = [] \<or> 0 \<le> cmp y (last xs)" and "next": "ys = [] \<or> cmp y (hd ys) \<le> 0"
  shows "avl_step (avl_replace (m, a) cmp x y) m a (insert y (set_tree t)) (xs @ y # ys)"
proof -
  let ?a = "let b = (if x = avl_end a (-1) then avl_set_end a (-1) y else a) in
      if x = avl_end a 1 then avl_set_end b 1 y else b"
  let ?m = "set_balance (avlh_replace m x y) y (balance (m x))"
  have nb: "avl_prev m a x = Some (nbr (-1) xs ys)" "avl_next m a x = Some (nbr 1 xs ys)"
    using avl_inorder_rep[OF rep refl io] by (simp_all add: avl_prev_def avl_next_def avl_consts)
  have "avl_replace (m, a) cmp x y = Some (?m, ?a)"
    using prev "next" by (auto simp: avl_replace_def nb nbr_def Let_def avl_ends)
  then show ?thesis
    using avl_replace_rep[OF rep io fr refl refl] unfolding avl_step_def by (auto simp: Let_def)
qed

end
