(* ===== verification/Heap.thy ===== *)
theory Heap
  imports Avl_Spec
begin

text \<open>
  The memory allocator of \<^verbatim>\<open>lib/heap.c\<close> and \<^verbatim>\<open>include/evl/heap.h\<close>: extents of 512-byte pages, a page
  map per extent, free page ranges indexed by address and by size in two AVL trees, and per-size
  bucket lists of pages cut into blocks of 16 to 256 bytes.

  \<^item> The range descriptors live in the free pages. Their AVL nodes are in the memory \<open>nodes\<close>, at the
    offsets of \<^verbatim>\<open>struct evl_mem_range\<close>; their sizes are in \<open>range_size\<close>, by range address.
  \<^item> A page map entry keeps the widths of its bit fields; the union of \<^verbatim>\<open>map\<close> and \<^verbatim>\<open>bsize\<close> is the one
    word \<open>pg_map\<close>.
  \<^item> \<open>opt\<close> says whether the file is compiled with \<^verbatim>\<open>__OPTIMIZE__\<close>: then assertions are off and the
    page map is not maintained for multi-page blocks.
  \<^item> A result \<open>None\<close> is a loop that does not end or a failed assertion.
\<close>

section \<open>Data\<close>

definition EVL_HEAP_PAGE_SHIFT :: nat where "EVL_HEAP_PAGE_SHIFT = 9"
definition EVL_HEAP_PAGE_SIZE :: u64 where "EVL_HEAP_PAGE_SIZE = push_bit EVL_HEAP_PAGE_SHIFT 1"
definition EVL_HEAP_PAGE_MASK :: u64 where "EVL_HEAP_PAGE_MASK = NOT (EVL_HEAP_PAGE_SIZE - 1)"
definition EVL_HEAP_MIN_LOG2 :: nat where "EVL_HEAP_MIN_LOG2 = 4"
definition EVL_HEAP_MAX_BUCKETS :: nat where
  "EVL_HEAP_MAX_BUCKETS = EVL_HEAP_PAGE_SHIFT - EVL_HEAP_MIN_LOG2"
definition EVL_HEAP_MIN_ALIGN :: u32 where "EVL_HEAP_MIN_ALIGN = push_bit EVL_HEAP_MIN_LOG2 1"
definition EVL_HEAP_MAX_EXTSZ :: u64 where "EVL_HEAP_MAX_EXTSZ = 4294967295 - EVL_HEAP_PAGE_SIZE + 1"

record pgentry =
  pg_prev :: "23 word"
  pg_next :: "23 word"
  pg_type :: "6 word"
  pg_map :: u32

definition EVL_HEAP_PGMAP_BYTES :: u64 where "EVL_HEAP_PGMAP_BYTES = 12"

definition page_free :: "6 word" where "page_free = 0"
definition page_cont :: "6 word" where "page_cont = 1"
definition page_list :: "6 word" where "page_list = 2"

type_synonym pagemap = "nat \<Rightarrow> pgentry"

text \<open>Offsets in \<^verbatim>\<open>struct evl_mem_range\<close> and in \<^verbatim>\<open>struct evl_heap_extent\<close>, for 64-bit pointers.\<close>

definition OFF_addr_node :: addr where "OFF_addr_node = 0"
definition OFF_size_node :: addr where "OFF_size_node = 32"
definition OFF_addr_tree :: addr where "OFF_addr_tree = 32"
definition OFF_size_tree :: addr where "OFF_size_tree = 96"
definition sizeof_extent :: u64 where "sizeof_extent = 160"

record heap_mem =
  nodes :: avlmem
  range_size :: "addr \<Rightarrow> u64"

record evl_heap_extent =
  membase :: addr
  memlim :: addr
  addr_tree :: avl
  size_tree :: avl
  ext_map :: pagemap

record evl_heap =
  extents :: "evl_heap_extent list"
  raw_size :: u64
  usable_size :: u64
  used_size :: u64
  buckets :: "nat \<Rightarrow> u32"

text \<open>\<^verbatim>\<open>__align_to\<close>; with a 32-bit alignment the mask is only 32 bits wide.\<close>

definition align_to :: "u64 \<Rightarrow> u64 \<Rightarrow> u64" where
  "align_to sz al = (sz + al - 1) AND NOT (al - 1)"

definition align_to_u32 :: "u64 \<Rightarrow> u32 \<Rightarrow> u64" where
  "align_to_u32 sz al = (sz + ucast al - 1) AND ucast (NOT (al - 1))"

definition EVL_HEAP_MAP_SIZE :: "u64 \<Rightarrow> u64" where
  "EVL_HEAP_MAP_SIZE nrpages = nrpages * EVL_HEAP_PGMAP_BYTES"

definition EVL_HEAP_RAW_SIZE :: "u64 \<Rightarrow> u64" where
  "EVL_HEAP_RAW_SIZE user_size =
     (let sz = align_to user_size EVL_HEAP_PAGE_SIZE in
      sz + align_to_u32 (sizeof_extent + EVL_HEAP_MAP_SIZE (drop_bit EVL_HEAP_PAGE_SHIFT sz))
               EVL_HEAP_MIN_ALIGN)"

fun bitlen :: "nat \<Rightarrow> nat" where
  "bitlen n = (if n = 0 then 0 else Suc (bitlen (n div 2)))"

declare bitlen.simps [simp del]

definition lzcount :: "u64 \<Rightarrow> nat" where
  "lzcount x = (if x = 0 then 64 else 64 - bitlen (unat x))"

function tzfrom :: "nat \<Rightarrow> u32 \<Rightarrow> nat" where
  "tzfrom i x = (if 32 \<le> i \<or> bit x i then i else tzfrom (Suc i) x)"
  by auto
termination by (relation "measure (\<lambda>(i, x). 32 - i)") auto

declare tzfrom.simps [simp del]

definition tzcount :: "u32 \<Rightarrow> nat" where
  "tzcount x = (if x = 0 then 32 else tzfrom 0 x)"

definition gen_block_mask :: "nat \<Rightarrow> u32" where
  "gen_block_mask log2size = drop_bit (32 - unat (drop_bit log2size EVL_HEAP_PAGE_SIZE)) (- 1)"

definition addr_to_pagenr :: "evl_heap_extent \<Rightarrow> addr \<Rightarrow> s32" where
  "addr_to_pagenr ext p = ucast (drop_bit EVL_HEAP_PAGE_SHIFT (p - membase ext))"

text \<open>The page number is an \<^verbatim>\<open>int\<close>, and so is the shifted offset.\<close>

definition pagenr_to_addr :: "evl_heap_extent \<Rightarrow> s32 \<Rightarrow> addr" where
  "pagenr_to_addr ext pg = membase ext + scast (push_bit EVL_HEAP_PAGE_SHIFT pg)"

section \<open>Page map\<close>

definition page_is_valid :: "bool \<Rightarrow> pagemap \<Rightarrow> nat \<Rightarrow> bool" where
  "page_is_valid opt pm pg \<longleftrightarrow> opt \<or> (pg_type (pm pg) \<noteq> page_free \<and> pg_type (pm pg) \<noteq> page_cont)"

fun mark_pages_loop :: "pagemap \<Rightarrow> nat \<Rightarrow> nat \<Rightarrow> 6 word \<Rightarrow> pagemap" where
  "mark_pages_loop pm pg 0 ty = pm"
| "mark_pages_loop pm pg (Suc nrpages) ty =
     mark_pages_loop (pm(pg := (pm pg)\<lparr>pg_type := ty\<rparr>)) (Suc pg) nrpages ty"

definition mark_pages :: "bool \<Rightarrow> pagemap \<Rightarrow> nat \<Rightarrow> s32 \<Rightarrow> 6 word \<Rightarrow> pagemap" where
  "mark_pages opt pm pg nrpages ty =
     (if opt then pm else mark_pages_loop pm pg (nat (sint nrpages)) ty)"

text \<open>The circular lists of the buckets: a bucket holds the page number of its head, or -1.\<close>

type_synonym bucket_st = "(nat \<Rightarrow> u32) \<times> pagemap"

definition add_page_front :: "bucket_st \<Rightarrow> u32 \<Rightarrow> nat \<Rightarrow> bucket_st" where
  "add_page_front st pg log2size =
     (let (bk, pm) = st;
          ilog = log2size - EVL_HEAP_MIN_LOG2;
          new = unat pg
      in if bk ilog = - 1 then
           (bk(ilog := pg), pm(new := (pm new)\<lparr>pg_prev := ucast pg, pg_next := ucast pg\<rparr>))
         else
           let head = unat (bk ilog);
               pm = pm(new := (pm new)\<lparr>pg_prev := ucast (bk ilog)\<rparr>);
               pm = pm(new := (pm new)\<lparr>pg_next := pg_next (pm head)\<rparr>);
               next = unat (pg_next (pm new));
               pm = pm(next := (pm next)\<lparr>pg_prev := ucast pg\<rparr>);
               pm = pm(head := (pm head)\<lparr>pg_next := ucast pg\<rparr>)
           in (bk(ilog := pg), pm))"

definition remove_page :: "bucket_st \<Rightarrow> u32 \<Rightarrow> nat \<Rightarrow> bucket_st" where
  "remove_page st pg log2size =
     (let (bk, pm) = st;
          ilog = log2size - EVL_HEAP_MIN_LOG2;
          old = unat pg
      in if pg = ucast (pg_next (pm old)) then (bk(ilog := - 1), pm)
         else
           let bk = (if pg = bk ilog then bk(ilog := ucast (pg_next (pm old))) else bk);
               prev = unat (pg_prev (pm old));
               pm = pm(prev := (pm prev)\<lparr>pg_next := pg_next (pm old)\<rparr>);
               next = unat (pg_next (pm old));
               pm = pm(next := (pm next)\<lparr>pg_prev := pg_prev (pm old)\<rparr>)
           in (bk, pm))"

definition move_page_front :: "bucket_st \<Rightarrow> u32 \<Rightarrow> nat \<Rightarrow> bucket_st" where
  "move_page_front st pg log2size =
     (if fst st (log2size - EVL_HEAP_MIN_LOG2) = pg then st
      else add_page_front (remove_page st pg log2size) pg log2size)"

definition move_page_back :: "bucket_st \<Rightarrow> u32 \<Rightarrow> nat \<Rightarrow> bucket_st" where
  "move_page_back st pg log2size =
     (let old = unat pg in
      if pg = ucast (pg_next (snd st old)) then st
      else
        let (bk, pm) = remove_page st pg log2size;
            ilog = log2size - EVL_HEAP_MIN_LOG2;
            head = unat (bk ilog);
            last = unat (pg_prev (pm head));
            pm = pm(old := (pm old)\<lparr>pg_prev := pg_prev (pm head)\<rparr>);
            pm = pm(old := (pm old)\<lparr>pg_next := pg_next (pm last)\<rparr>);
            next = unat (pg_next (pm old));
            pm = pm(next := (pm next)\<lparr>pg_prev := ucast pg\<rparr>);
            pm = pm(last := (pm last)\<lparr>pg_next := ucast pg\<rparr>)
        in (bk, pm))"

section \<open>Free page ranges\<close>

definition avl_sign :: "64 word \<Rightarrow> int" where
  "avl_sign v = (if 0 < sint v then 1 else 0) - (if sint v < 0 then 1 else 0)"

definition compare_range_by_size :: "heap_mem \<Rightarrow> addr \<Rightarrow> addr \<Rightarrow> int" where
  "compare_range_by_size hm l r =
     avl_sign (range_size hm (l - OFF_size_node) - range_size hm (r - OFF_size_node))"

definition compare_range_by_addr :: "addr \<Rightarrow> addr \<Rightarrow> int" where
  "compare_range_by_addr l r = avl_cmp_sign l r"

text \<open>
  The lookup key of \<^verbatim>\<open>find_suitable_range\<close> is a range descriptor on the stack, of which only the
  sz is set: its comparisons read that sz.
\<close>

definition find_suitable_range :: "heap_mem \<Rightarrow> evl_heap_extent \<Rightarrow> u64 \<Rightarrow> addr option" where
  "find_suitable_range hm ext sz =
     map_option (\<lambda>node. if node = NULL then NULL else node - OFF_size_node)
       (avl_search_ge (nodes hm) (size_tree ext)
          (\<lambda>l r. avl_sign (sz - range_size hm (r - OFF_size_node))) NULL)"

definition size_delete :: "heap_mem \<times> evl_heap_extent \<Rightarrow> addr \<Rightarrow> (heap_mem \<times> evl_heap_extent) option" where
  "size_delete st r = (case avl_delete (nodes (fst st), size_tree (snd st)) (r + OFF_size_node) of
     None \<Rightarrow> None
   | Some (m, t) \<Rightarrow> Some ((fst st)\<lparr>nodes := m\<rparr>, (snd st)\<lparr>size_tree := t\<rparr>))"

definition addr_delete :: "heap_mem \<times> evl_heap_extent \<Rightarrow> addr \<Rightarrow> (heap_mem \<times> evl_heap_extent) option" where
  "addr_delete st r = (case avl_delete (nodes (fst st), addr_tree (snd st)) (r + OFF_addr_node) of
     None \<Rightarrow> None
   | Some (m, t) \<Rightarrow> Some ((fst st)\<lparr>nodes := m\<rparr>, (snd st)\<lparr>addr_tree := t\<rparr>))"

text \<open>\<^verbatim>\<open>avlh_init\<close> of the sz node, then \<^verbatim>\<open>avl_insert_back\<close> into the sz tree.\<close>

definition size_insert :: "heap_mem \<times> evl_heap_extent \<Rightarrow> addr \<Rightarrow> (heap_mem \<times> evl_heap_extent) option" where
  "size_insert st r =
     (case avl_insert_back (avlh_init (nodes (fst st)) (r + OFF_size_node), size_tree (snd st))
             (compare_range_by_size (fst st)) (r + OFF_size_node) of
        None \<Rightarrow> None
      | Some (m, t) \<Rightarrow> Some ((fst st)\<lparr>nodes := m\<rparr>, (snd st)\<lparr>size_tree := t\<rparr>))"

definition reserve_page_range ::
  "heap_mem \<times> evl_heap_extent \<Rightarrow> u64 \<Rightarrow> ((heap_mem \<times> evl_heap_extent) \<times> s32) option" where
  "reserve_page_range st sz =
     Option.bind (find_suitable_range (fst st) (snd st) sz) (\<lambda>new.
     if new = NULL then Some (st, - 1)
     else
       Option.bind (size_delete st new) (\<lambda>st.
       if range_size (fst st) new = sz then
         Option.bind (addr_delete st new) (\<lambda>st. Some (st, addr_to_pagenr (snd st) new))
       else
         let splitr = new;
             hm = (fst st)\<lparr>range_size := (range_size (fst st))(splitr := range_size (fst st) splitr - sz)\<rparr>;
             new = new + range_size hm splitr
         in Option.bind (size_insert (hm, snd st) splitr) (\<lambda>st.
            Some (st, addr_to_pagenr (snd st) new))))"

definition find_left_neighbour :: "heap_mem \<Rightarrow> evl_heap_extent \<Rightarrow> addr \<Rightarrow> addr option" where
  "find_left_neighbour hm ext r =
     map_option (\<lambda>node. if node = NULL then NULL else node - OFF_addr_node)
       (avl_search_le (nodes hm) (addr_tree ext) compare_range_by_addr (r + OFF_addr_node))"

definition find_right_neighbour :: "heap_mem \<Rightarrow> evl_heap_extent \<Rightarrow> addr \<Rightarrow> addr option" where
  "find_right_neighbour hm ext r =
     map_option (\<lambda>node. if node = NULL then NULL else node - OFF_addr_node)
       (avl_search_ge (nodes hm) (addr_tree ext) compare_range_by_addr (r + OFF_addr_node))"

definition find_next_neighbour :: "heap_mem \<Rightarrow> evl_heap_extent \<Rightarrow> addr \<Rightarrow> addr option" where
  "find_next_neighbour hm ext r =
     map_option (\<lambda>node. if node = NULL then NULL else node - OFF_addr_node)
       (avl_next (nodes hm) (addr_tree ext) (r + OFF_addr_node))"

definition ranges_mergeable :: "heap_mem \<Rightarrow> addr \<Rightarrow> addr \<Rightarrow> bool" where
  "ranges_mergeable hm lft rgt \<longleftrightarrow> lft + range_size hm lft = rgt"

definition set_range_size :: "heap_mem \<Rightarrow> addr \<Rightarrow> u64 \<Rightarrow> heap_mem" where
  "set_range_size hm r sz = hm\<lparr>range_size := (range_size hm)(r := sz)\<rparr>"

definition release_merge_left ::
  "heap_mem \<times> evl_heap_extent \<Rightarrow> addr \<Rightarrow> addr \<Rightarrow>
     ((heap_mem \<times> evl_heap_extent) \<times> addr \<times> bool \<times> addr) option" where
  "release_merge_left st freed lft =
     (if lft \<noteq> NULL \<and> ranges_mergeable (fst st) lft freed then
        Option.bind (size_delete st lft) (\<lambda>st.
        let hm = set_range_size (fst st) lft (range_size (fst st) lft + range_size (fst st) freed)
        in Option.bind (find_next_neighbour hm (snd st) lft) (\<lambda>rgt.
           Some ((hm, snd st), lft, True, rgt)))
      else
        Option.bind (find_right_neighbour (fst st) (snd st) freed) (\<lambda>rgt.
        Some (st, freed, False, rgt)))"

definition release_merge_right ::
  "heap_mem \<times> evl_heap_extent \<Rightarrow> addr \<Rightarrow> addr \<Rightarrow> bool \<Rightarrow> addr \<Rightarrow>
     (heap_mem \<times> evl_heap_extent) option" where
  "release_merge_right st freed lft addr_linked rgt =
     (if rgt \<noteq> NULL \<and> ranges_mergeable (fst st) freed rgt then
        Option.bind (size_delete st rgt) (\<lambda>st.
        let hm = set_range_size (fst st) freed (range_size (fst st) freed + range_size (fst st) rgt)
        in if addr_linked then addr_delete (hm, snd st) rgt
           else (case avl_replace (nodes hm, addr_tree (snd st)) compare_range_by_addr
                        (rgt + OFF_addr_node) (freed + OFF_addr_node) of
                   None \<Rightarrow> None
                 | Some (m, t) \<Rightarrow> Some (hm\<lparr>nodes := m\<rparr>, (snd st)\<lparr>addr_tree := t\<rparr>)))
      else if \<not> addr_linked then
        let m = avlh_init (nodes (fst st)) (freed + OFF_addr_node)
        in (case (if lft \<noteq> NULL
                  then avl_insert (m, addr_tree (snd st)) compare_range_by_addr (freed + OFF_addr_node)
                  else avl_prepend (m, addr_tree (snd st)) compare_range_by_addr (freed + OFF_addr_node)) of
              None \<Rightarrow> None
            | Some (m, t) \<Rightarrow> Some ((fst st)\<lparr>nodes := m\<rparr>, (snd st)\<lparr>addr_tree := t\<rparr>))
      else Some st)"

definition release_page_range ::
  "bool \<Rightarrow> heap_mem \<times> evl_heap_extent \<Rightarrow> addr \<Rightarrow> u64 \<Rightarrow> (heap_mem \<times> evl_heap_extent) option" where
  "release_page_range opt st page sz =
     (let st = (set_range_size (fst st) page sz, snd st) in
      Option.bind (find_left_neighbour (fst st) (snd st) page) (\<lambda>lft.
      Option.bind (release_merge_left st page lft) (\<lambda>(st, freed, addr_linked, rgt).
      Option.bind (release_merge_right st freed lft addr_linked rgt) (\<lambda>st.
      Option.bind (size_insert st freed) (\<lambda>st.
      let ext = snd st
      in Some (fst st, ext\<lparr>ext_map := mark_pages opt (ext_map ext) (unat (addr_to_pagenr ext page))
                 (ucast (drop_bit EVL_HEAP_PAGE_SHIFT sz)) page_free\<rparr>))))))"

end
