(* ===== verification/Heap_Alloc.thy ===== *)
theory Heap_Alloc
  imports Heap
begin

text \<open>
  The operations of the heap API, unlocked: set-up and extension of a heap, allocation, release and
  checking of a block. Integers returned by the C functions are \<open>int\<close>, an error is a negated code.
\<close>

section \<open>Set-up\<close>

definition pgentry_zero :: pgentry where
  "pgentry_zero = \<lparr>pg_prev = 0, pg_next = 0, pg_type = 0, pg_map = 0\<rparr>"

definition avl_raw :: "addr \<Rightarrow> avl" where
  "avl_raw a = \<lparr>anchor = a, end_of = (\<lambda>_. NULL), count = 0, height_of = 0\<rparr>"

definition extent_overhead :: "u64 \<Rightarrow> u64" where
  "extent_overhead sz =
     align_to_u32 ((sz * EVL_HEAP_PGMAP_BYTES + sizeof_extent * EVL_HEAP_PAGE_SIZE) div
                   (EVL_HEAP_PAGE_SIZE + EVL_HEAP_PGMAP_BYTES)) EVL_HEAP_MIN_ALIGN"

text \<open>
  \<^verbatim>\<open>add_extent\<close> builds the descriptor at the start of the memory it is given; the result of a
  failure is the error code alone. The entries of the page map past the last page are not part of
  the extent.
\<close>

definition add_extent ::
  "bool \<Rightarrow> heap_mem \<Rightarrow> addr \<Rightarrow> u64 \<Rightarrow> (int + (heap_mem \<times> evl_heap_extent) \<times> int) option" where
  "add_extent opt hm mem sz =
     (let overhead = extent_overhead sz;
          user_size = sz - overhead
      in if user_size AND NOT EVL_HEAP_PAGE_MASK \<noteq> 0 then Some (Inl (- EINVAL))
         else if user_size < EVL_HEAP_PAGE_SIZE \<or> EVL_HEAP_MAX_EXTSZ < user_size
         then Some (Inl (- EINVAL))
         else
           let (m, st) = avl_init (nodes hm, avl_raw (mem + OFF_size_tree));
               (m, at) = avl_init (m, avl_raw (mem + OFF_addr_tree));
               ext = \<lparr>membase = mem + overhead, memlim = mem + sz, addr_tree = at, size_tree = st,
                      ext_map = (\<lambda>_. pgentry_zero)\<rparr>
           in map_option (\<lambda>st. Inr (st, uint user_size))
                (release_page_range opt (hm\<lparr>nodes := m\<rparr>, ext) (membase ext) user_size))"

definition reset_buckets :: "nat \<Rightarrow> u32" where
  "reset_buckets = (\<lambda>n. if n < EVL_HEAP_MAX_BUCKETS then - 1 else 0)"

definition evl_init_heap_unlocked ::
  "bool \<Rightarrow> heap_mem \<Rightarrow> evl_heap \<Rightarrow> addr \<Rightarrow> u64 \<Rightarrow> ((heap_mem \<times> evl_heap) \<times> int) option" where
  "evl_init_heap_unlocked opt hm hp mem sz =
     (let hp = hp\<lparr>extents := [], buckets := reset_buckets\<rparr> in
      map_option
        (\<lambda>r. case r of
           Inl ret \<Rightarrow> ((hm, hp), ret)
         | Inr ((hm, ext), ret) \<Rightarrow>
             ((hm, hp\<lparr>extents := extents hp @ [ext], raw_size := sz,
                        usable_size := word_of_int ret, used_size := 0\<rparr>), 0))
        (add_extent opt hm mem sz))"

definition evl_extend_heap_unlocked ::
  "bool \<Rightarrow> heap_mem \<Rightarrow> evl_heap \<Rightarrow> addr \<Rightarrow> u64 \<Rightarrow> ((heap_mem \<times> evl_heap) \<times> int) option" where
  "evl_extend_heap_unlocked opt hm hp mem sz =
     map_option
       (\<lambda>r. case r of
          Inl ret \<Rightarrow> ((hm, hp), ret)
        | Inr ((hm, ext), ret) \<Rightarrow>
            ((hm, hp\<lparr>extents := extents hp @ [ext], raw_size := raw_size hp + sz,
                       usable_size := usable_size hp + word_of_int ret\<rparr>), 0))
       (add_extent opt hm mem sz)"

definition evl_heap_raw_size :: "evl_heap \<Rightarrow> u64" where "evl_heap_raw_size hp = raw_size hp"
definition evl_heap_size :: "evl_heap \<Rightarrow> u64" where "evl_heap_size hp = usable_size hp"
definition evl_heap_used :: "evl_heap \<Rightarrow> u64" where "evl_heap_used hp = used_size hp"

section \<open>Allocation\<close>

fun find_extent :: "evl_heap_extent list \<Rightarrow> addr \<Rightarrow> nat option" where
  "find_extent [] block = None"
| "find_extent (ext # exts) block =
     (if membase ext \<le> block \<and> block < memlim ext then Some 0
      else map_option Suc (find_extent exts block))"

definition evl_check_block_unlocked :: "bool \<Rightarrow> evl_heap \<Rightarrow> addr \<Rightarrow> int" where
  "evl_check_block_unlocked opt hp block =
     (case find_extent (extents hp) block of
        None \<Rightarrow> - EINVAL
      | Some i \<Rightarrow>
          let ext = extents hp ! i;
              pgoff = block - membase ext;
              pg = unat (drop_bit EVL_HEAP_PAGE_SHIFT pgoff)
          in if page_is_valid opt (ext_map ext) pg then
               if pg_type (ext_map ext pg) = page_list then uint (pg_map (ext_map ext pg))
               else
                 let bsize = scast (push_bit (unat (pg_type (ext_map ext pg))) 1 :: s32) :: u64;
                     boff = pgoff AND NOT EVL_HEAP_PAGE_MASK
                 in if boff AND (bsize - 1) \<noteq> 0 then - EINVAL else sint bsize
             else - EINVAL)"

fun reserve_scan ::
  "heap_mem \<Rightarrow> evl_heap_extent list \<Rightarrow> u64 \<Rightarrow> (heap_mem \<times> evl_heap_extent list \<times> nat \<times> s32) option" where
  "reserve_scan hm [] rsize = Some (hm, [], 0, - 1)"
| "reserve_scan hm (ext # exts) rsize =
     Option.bind (reserve_page_range (hm, ext) rsize) (\<lambda>((hm, ext), pg).
     if 0 \<le> sint pg then Some (hm, ext # exts, 0, pg)
     else Option.bind (reserve_scan hm exts rsize) (\<lambda>(hm, exts, i, pg).
          Some (hm, ext # exts, Suc i, pg)))"

definition set_ext :: "evl_heap \<Rightarrow> nat \<Rightarrow> evl_heap_extent \<Rightarrow> evl_heap" where
  "set_ext hp i ext = hp\<lparr>extents := (extents hp)[i := ext]\<rparr>"

text \<open>A page list operation on the buckets of the heap and the page map of one extent.\<close>

definition on_buckets :: "(bucket_st \<Rightarrow> bucket_st) \<Rightarrow> evl_heap \<Rightarrow> nat \<Rightarrow> evl_heap" where
  "on_buckets f hp i =
     (case f (buckets hp, ext_map (extents hp ! i)) of
        (bk, pm) \<Rightarrow> (set_ext hp i ((extents hp ! i)\<lparr>ext_map := pm\<rparr>))\<lparr>buckets := bk\<rparr>)"

definition upd_entry :: "evl_heap \<Rightarrow> nat \<Rightarrow> nat \<Rightarrow> (pgentry \<Rightarrow> pgentry) \<Rightarrow> evl_heap" where
  "upd_entry hp i pg f =
     (let ext = extents hp ! i in
      set_ext hp i (ext\<lparr>ext_map := (ext_map ext)(pg := f (ext_map ext pg))\<rparr>))"

definition add_free_range ::
  "bool \<Rightarrow> heap_mem \<times> evl_heap \<Rightarrow> u64 \<Rightarrow> nat \<Rightarrow> ((heap_mem \<times> evl_heap) \<times> addr) option" where
  "add_free_range opt st bsize log2size =
     (let rsize = align_to bsize EVL_HEAP_PAGE_SIZE in
      Option.bind (reserve_scan (fst st) (extents (snd st)) rsize) (\<lambda>(hm, exts, i, pg).
      let hp = (snd st)\<lparr>extents := exts\<rparr> in
      if sint pg < 0 then Some ((hm, hp), NULL)
      else
        let hp =
          (if log2size \<noteq> 0 then
             let hp = upd_entry hp i (unat pg) (\<lambda>e. e\<lparr>pg_type := of_nat log2size,
                          pg_map := NOT (gen_block_mask log2size) OR 1\<rparr>)
             in on_buckets (\<lambda>b. add_page_front b pg log2size) hp i
           else
             let hp = upd_entry hp i (unat pg) (\<lambda>e. e\<lparr>pg_type := page_list, pg_map := ucast bsize\<rparr>);
                 ext = extents hp ! i
             in set_ext hp i (ext\<lparr>ext_map :=
                  mark_pages opt (ext_map ext) (unat (pg + 1))
                    (ucast (drop_bit EVL_HEAP_PAGE_SHIFT bsize - 1)) page_cont\<rparr>));
            hp = hp\<lparr>used_size := used_size hp + bsize\<rparr>
        in Some ((hm, hp), pagenr_to_addr (extents hp ! i) pg)))"

fun bucket_scan :: "evl_heap_extent list \<Rightarrow> u32 \<Rightarrow> nat option" where
  "bucket_scan [] pg = None"
| "bucket_scan (ext # exts) pg =
     (if sint pg < 0 then map_option Suc (bucket_scan exts pg)
      else if pg_map (ext_map ext (unat pg)) = - 1 then None
      else Some 0)"

text \<open>The block size and its log2, from the requested size: 0 stands for \<^verbatim>\<open>log2size\<close> left unused.\<close>

definition block_size :: "u64 \<Rightarrow> u64 \<times> nat" where
  "block_size sz =
     (if sz < ucast EVL_HEAP_MIN_ALIGN then (ucast EVL_HEAP_MIN_ALIGN, EVL_HEAP_MIN_LOG2)
      else
        let log2size = 64 - 1 - lzcount sz in
        if log2size < EVL_HEAP_PAGE_SHIFT then
          let log2size = (if sz AND (sz - 1) \<noteq> 0 then log2size + 1 else log2size)
          in (push_bit log2size 1, log2size)
        else (align_to sz EVL_HEAP_PAGE_SIZE, log2size))"

definition alloc_bucketed ::
  "bool \<Rightarrow> heap_mem \<times> evl_heap \<Rightarrow> u64 \<Rightarrow> nat \<Rightarrow> ((heap_mem \<times> evl_heap) \<times> addr) option" where
  "alloc_bucketed opt st bsize log2size =
     (let hp = snd st;
          ilog = log2size - EVL_HEAP_MIN_LOG2;
          pg = buckets hp ilog
      in if \<not> opt \<and> \<not> (EVL_HEAP_MIN_LOG2 \<le> log2size \<and> ilog < EVL_HEAP_MAX_BUCKETS) then None
         else (case bucket_scan (extents hp) pg of
           None \<Rightarrow> add_free_range opt st bsize log2size
         | Some i \<Rightarrow>
             let ext = extents hp ! i;
                 bmask = pg_map (ext_map ext (unat pg));
                 b = tzcount (NOT bmask);
                 hp = upd_entry hp i (unat pg) (\<lambda>e. e\<lparr>pg_map := pg_map e OR push_bit b 1\<rparr>);
                 hp = hp\<lparr>used_size := used_size hp + bsize\<rparr>;
                 block = membase ext + scast (push_bit EVL_HEAP_PAGE_SHIFT pg) + push_bit log2size (of_nat b);
                 hp = (if pg_map (ext_map (extents hp ! i) (unat pg)) = - 1
                         then on_buckets (\<lambda>bs. move_page_back bs pg log2size) hp i else hp)
             in Some ((fst st, hp), block)))"

definition evl_alloc_block_unlocked ::
  "bool \<Rightarrow> heap_mem \<times> evl_heap \<Rightarrow> u64 \<Rightarrow> ((heap_mem \<times> evl_heap) \<times> addr) option" where
  "evl_alloc_block_unlocked opt st sz =
     (if sz = 0 then Some (st, NULL)
      else
        let (bsize, log2size) = block_size sz in
        if bsize < EVL_HEAP_PAGE_SIZE then alloc_bucketed opt st bsize log2size
        else add_free_range opt st bsize 0)"

section \<open>Release\<close>

definition release_range ::
  "bool \<Rightarrow> heap_mem \<times> evl_heap \<Rightarrow> nat \<Rightarrow> nat \<Rightarrow> u64 \<Rightarrow> (heap_mem \<times> evl_heap) option" where
  "release_range opt st i pg sz =
     (let ext = extents (snd st) ! i in
      map_option (\<lambda>(hm, ext). (hm, set_ext (snd st) i ext))
        (release_page_range opt (fst st, ext) (pagenr_to_addr ext (of_nat pg)) sz))"

definition evl_free_block_unlocked ::
  "bool \<Rightarrow> heap_mem \<times> evl_heap \<Rightarrow> addr \<Rightarrow> ((heap_mem \<times> evl_heap) \<times> int) option" where
  "evl_free_block_unlocked opt st block =
     (let hp = snd st in
      case find_extent (extents hp) block of
        None \<Rightarrow> Some (st, - EINVAL)
      | Some i \<Rightarrow>
          let ext = extents hp ! i;
              pgoff = block - membase ext;
              pg = unat (drop_bit EVL_HEAP_PAGE_SHIFT pgoff);
              e = ext_map ext pg;
              finish = (\<lambda>bsize (hm, hp).
                ((hm, hp\<lparr>used_size := used_size hp - bsize\<rparr>), 0))
          in if \<not> page_is_valid opt (ext_map ext) pg then Some (st, - EINVAL)
             else if pg_type e = page_list then
               let bsize = ucast (pg_map e) in
               if \<not> opt \<and> bsize AND (EVL_HEAP_PAGE_SIZE - 1) \<noteq> 0 then None
               else map_option (finish bsize) (release_range opt st i pg bsize)
             else
               let log2size = unat (pg_type e);
                   bsize = scast (push_bit log2size 1 :: s32);
                   boff = pgoff AND NOT EVL_HEAP_PAGE_MASK
               in if \<not> opt \<and> \<not> bsize < EVL_HEAP_PAGE_SIZE then None
                  else if boff AND (bsize - 1) \<noteq> 0 then Some (st, - EINVAL)
                  else
                    let n = unat (drop_bit log2size boff);
                        oldmap = pg_map e;
                        hp = upd_entry hp i pg (\<lambda>e. e\<lparr>pg_map := pg_map e AND NOT (push_bit n 1)\<rparr>)
                    in if pg_map (ext_map (extents hp ! i) pg) = NOT (gen_block_mask log2size) then
                         let hp = on_buckets (\<lambda>bs. remove_page bs (of_nat pg) log2size) hp i
                         in map_option (finish bsize)
                              (release_range opt (fst st, hp) i pg EVL_HEAP_PAGE_SIZE)
                       else
                         let hp = (if oldmap = - 1
                           then on_buckets (\<lambda>bs. move_page_front bs (of_nat pg) log2size) hp i
                           else hp)
                         in Some (finish bsize (fst st, hp)))"

end
