(* ===== verification/Heap_Trees.thy ===== *)
theory Heap_Trees
  imports Heap_Alloc
begin

text \<open>
  The two indexes of an extent: the comparison functions of the heap satisfy the laws of the AVL
  operations, and every step on the address tree or on the size tree keeps the other one.
\<close>

section \<open>The comparisons of the two indexes\<close>

lemma avl_sign_diff:
  assumes "unat (a :: 64 word) < 2 ^ 63" "unat b < 2 ^ 63"
  shows "avl_sign (a - b) = avl_cmp_sign a b"
proof -
  have "sint (a - b) = uint a - uint b"
  proof -
    have i: "int n < 2 ^ 63" if "n < 2 ^ 63" for n :: nat using that by simp
    have ab: "uint a < 2 ^ 63" "uint b < 2 ^ 63" "0 \<le> uint a" "0 \<le> uint b"
      using i[OF assms(1)] i[OF assms(2)] by (simp_all only: uint_nat of_nat_0_le_iff)
    have "sint (a - b) = signed_take_bit 63 (uint (a - b))" by (simp add: sint_uint)
    also have "\<dots> = signed_take_bit 63 (uint a - uint b)"
      by (simp add: uint_word_ariths signed_take_bit_eq_iff_take_bit_eq take_bit_eq_mod)
    also have "\<dots> = uint a - uint b"
      using ab by (intro signed_take_bit_int_eq_self; linarith)
    finally show ?thesis .
  qed
  then show ?thesis by (auto simp: avl_sign_def avl_cmp_sign_def word_less_def)
qed

definition size_keys :: "u64 set" where "size_keys = {k. unat k < 2 ^ 63}"

interpretation by_size: avl_searchops "compare_range_by_size hm" "\<lambda>n. range_size hm (n - OFF_size_node)" size_keys
  for hm
  by unfold_locales (simp add: compare_range_by_size_def size_keys_def avl_sign_diff)

interpretation suitable: avl_probe "\<lambda>l r. avl_sign (sz - range_size hm (r - OFF_size_node))" "\<lambda>_. sz"
  "\<lambda>n. range_size hm (n - OFF_size_node)" size_keys
  for hm sz
  by unfold_locales (simp add: size_keys_def avl_sign_diff)

interpretation by_addr: avl_searchops compare_range_by_addr "\<lambda>n. n" UNIV
  by unfold_locales (simp add: compare_range_by_addr_def)

section \<open>The two trees of an extent\<close>

definition trees_ok :: "heap_mem \<Rightarrow> evl_heap_extent \<Rightarrow> addr list \<Rightarrow> addr list \<Rightarrow> bool" where
  "trees_ok hm ext as ss \<longleftrightarrow>
     (\<exists>ta. avl_rep (nodes hm) (addr_tree ext) ta \<and> inorder ta = as) \<and>
     (\<exists>ts. avl_rep (nodes hm) (size_tree ext) ts \<and> inorder ts = ss) \<and>
     set as \<inter> set ss = {} \<and> anchor (addr_tree ext) \<notin> set ss \<and> anchor (size_tree ext) \<notin> set as \<and>
     anchor (addr_tree ext) \<noteq> anchor (size_tree ext)"

definition anchors :: "evl_heap_extent \<Rightarrow> addr set" where
  "anchors ext = {anchor (addr_tree ext), anchor (size_tree ext)}"

lemma avl_rep_frame:
  assumes "avl_rep m a t" "only_changes m m' S p 1" "S \<inter> set_tree t = {}" "p \<notin> set_tree t"
    "anchor a \<notin> S" "anchor a \<noteq> p"
  shows "avl_rep m' a t"
proof -
  have "m' (anchor a) = m (anchor a)" using assms(2,5,6) by (simp add: only_changes_def)
  then have "avlh_link m' (anchor a) 1 = avlh_link m (anchor a) 1" by (simp add: avlh_link_def)
  with assms(1) show ?thesis
    unfolding avl_rep_def
    using links_only_changes[OF assms(2-4)] bals_only_changes[OF assms(2-4)] by simp
qed

text \<open>A change of one tree keeps the other one.\<close>

lemma size_step:
  assumes ok: "trees_ok hm ext as ss"
    and st: "avl_step r m (size_tree ext) S ss'" and m: "only_changes (nodes hm) m S (anchor (size_tree ext)) 1"
    and S: "S \<inter> set as = {}" "anchor (addr_tree ext) \<notin> S" "set ss' \<subseteq> S"
  shows "\<exists>m' t. r = Some (m', t) \<and> trees_ok (hm\<lparr>nodes := m'\<rparr>) (ext\<lparr>size_tree := t\<rparr>) as ss' \<and>
    anchor t = anchor (size_tree ext) \<and> (\<forall>q. q \<notin> S \<union> anchors ext \<longrightarrow> m' q = nodes hm q)"
proof -
  obtain m' t T where r: "r = Some (m', t)" "avl_rep m' t T" "inorder T = ss'"
    "anchor t = anchor (size_tree ext)" "only_changes m m' S (anchor (size_tree ext)) 1"
    using st unfolding avl_step_def by blast
  obtain ta where ta: "avl_rep (nodes hm) (addr_tree ext) ta" "inorder ta = as"
    using ok unfolding trees_ok_def by blast
  have oc: "only_changes (nodes hm) m' S (anchor (size_tree ext)) 1"
    using only_changes_trans[OF m r(5)] .
  have sa: "set_tree ta = set as" using ta(2) by (metis set_inorder)
  have "avl_rep m' (addr_tree ext) ta"
    using avl_rep_frame[OF ta(1) oc] S ok unfolding sa trees_ok_def by blast
  moreover have "m' q = nodes hm q" if "q \<notin> S \<union> anchors ext" for q
    using oc that by (auto simp: only_changes_def anchors_def)
  ultimately show ?thesis using ok r ta S unfolding trees_ok_def
    by (intro exI[of _ m'] exI[of _ t]) auto
qed

lemma addr_step:
  assumes ok: "trees_ok hm ext as ss"
    and st: "avl_step r m (addr_tree ext) S as'" and m: "only_changes (nodes hm) m S (anchor (addr_tree ext)) 1"
    and S: "S \<inter> set ss = {}" "anchor (size_tree ext) \<notin> S" "set as' \<subseteq> S"
  shows "\<exists>m' t. r = Some (m', t) \<and> trees_ok (hm\<lparr>nodes := m'\<rparr>) (ext\<lparr>addr_tree := t\<rparr>) as' ss \<and>
    anchor t = anchor (addr_tree ext) \<and> (\<forall>q. q \<notin> S \<union> anchors ext \<longrightarrow> m' q = nodes hm q)"
proof -
  obtain m' t T where r: "r = Some (m', t)" "avl_rep m' t T" "inorder T = as'"
    "anchor t = anchor (addr_tree ext)" "only_changes m m' S (anchor (addr_tree ext)) 1"
    using st unfolding avl_step_def by blast
  obtain ts where ts: "avl_rep (nodes hm) (size_tree ext) ts" "inorder ts = ss"
    using ok unfolding trees_ok_def by blast
  have oc: "only_changes (nodes hm) m' S (anchor (addr_tree ext)) 1"
    using only_changes_trans[OF m r(5)] .
  have sa: "set_tree ts = set ss" using ts(2) by (metis set_inorder)
  have "avl_rep m' (size_tree ext) ts"
    using avl_rep_frame[OF ts(1) oc] S ok unfolding sa trees_ok_def by metis
  moreover have "m' q = nodes hm q" if "q \<notin> S \<union> anchors ext" for q
    using oc that by (auto simp: only_changes_def anchors_def)
  ultimately show ?thesis using ok r ts S unfolding trees_ok_def
    by (intro exI[of _ m'] exI[of _ t]) auto
qed

definition changes_only :: "heap_mem \<Rightarrow> heap_mem \<Rightarrow> addr set \<Rightarrow> bool" where
  "changes_only hm hm' S \<longleftrightarrow> (\<forall>q. q \<notin> S \<longrightarrow> nodes hm' q = nodes hm q)"

lemma changes_only_trans:
  "changes_only hm hm' S \<Longrightarrow> changes_only hm' hm'' S' \<Longrightarrow> S \<subseteq> U \<Longrightarrow> S' \<subseteq> U \<Longrightarrow> changes_only hm hm'' U"
  unfolding changes_only_def by (metis in_mono)

lemma changes_only_simps [simp]:
  "changes_only hm hm S" "changes_only hm (set_range_size hm r sz) S"
  "changes_only (set_range_size hm r sz) hm' S = changes_only hm hm' S"
  "changes_only hm (hm'\<lparr>range_size := f\<rparr>) S = changes_only hm hm' S"
  by (simp_all add: changes_only_def set_range_size_def)

lemma trees_ok_size [simp]:
  "trees_ok (set_range_size hm r sz) ext as ss = trees_ok hm ext as ss"
  "trees_ok (hm\<lparr>range_size := f\<rparr>) ext as ss = trees_ok hm ext as ss"
  by (simp_all add: trees_ok_def set_range_size_def)

lemma trees_okD:
  assumes "trees_ok hm ext as ss"
  shows "distinct as" "distinct ss" "NULL \<notin> set as" "NULL \<notin> set ss" "set as \<inter> anchors ext = {}"
    "set ss \<inter> anchors ext = {}" "set as \<inter> set ss = {}"
proof -
  obtain ta ts where a: "avl_rep (nodes hm) (addr_tree ext) ta" "inorder ta = as"
    and s: "avl_rep (nodes hm) (size_tree ext) ts" "inorder ts = ss"
    using assms unfolding trees_ok_def by blast
  have st: "set_tree ta = set as" "set_tree ts = set ss" using a(2) s(2) by (metis set_inorder)+
  show "distinct as" "distinct ss" using a s unfolding avl_rep_def by simp_all
  show "NULL \<notin> set as" "NULL \<notin> set ss"
    using a(1) s(1) links_NULL unfolding avl_rep_def st[symmetric] by blast+
  show "set as \<inter> anchors ext = {}" "set ss \<inter> anchors ext = {}" "set as \<inter> set ss = {}"
    using assms a(1) s(1) unfolding avl_rep_def st trees_ok_def anchors_def by auto
qed

lemma size_delete_ok:
  assumes ok: "trees_ok hm ext as (xs @ (r + OFF_size_node) # ys)"
  shows "\<exists>m' t. size_delete (hm, ext) r = Some (hm\<lparr>nodes := m'\<rparr>, ext\<lparr>size_tree := t\<rparr>) \<and>
    trees_ok (hm\<lparr>nodes := m'\<rparr>) (ext\<lparr>size_tree := t\<rparr>) as (xs @ ys) \<and> anchor t = anchor (size_tree ext) \<and>
    changes_only hm (hm\<lparr>nodes := m'\<rparr>) (set (xs @ (r + OFF_size_node) # ys) \<union> anchors ext)"
proof -
  obtain ts where ts: "avl_rep (nodes hm) (size_tree ext) ts" "inorder ts = xs @ (r + OFF_size_node) # ys"
    using ok unfolding trees_ok_def by blast
  have st: "set_tree ts = set (xs @ (r + OFF_size_node) # ys)" using ts(2) by (metis set_inorder)
  have c: "set_tree ts \<inter> set as = {}" "anchor (addr_tree ext) \<notin> set_tree ts" "set (xs @ ys) \<subseteq> set_tree ts"
    using ok unfolding st trees_ok_def by auto
  obtain m' t where "avl_delete (nodes hm, size_tree ext) (r + OFF_size_node) = Some (m', t)"
    "trees_ok (hm\<lparr>nodes := m'\<rparr>) (ext\<lparr>size_tree := t\<rparr>) as (xs @ ys)" "anchor t = anchor (size_tree ext)"
    "\<forall>q. q \<notin> set_tree ts \<union> anchors ext \<longrightarrow> m' q = nodes hm q"
    using size_step[OF ok avl_delete_step[OF ts] only_changes_refl c] by blast
  then show ?thesis unfolding st
    by (intro exI[of _ m'] exI[of _ t]) (simp add: size_delete_def changes_only_def)
qed

lemma addr_delete_ok:
  assumes ok: "trees_ok hm ext (xs @ r # ys) ss"
  shows "\<exists>m' t. addr_delete (hm, ext) r = Some (hm\<lparr>nodes := m'\<rparr>, ext\<lparr>addr_tree := t\<rparr>) \<and>
    trees_ok (hm\<lparr>nodes := m'\<rparr>) (ext\<lparr>addr_tree := t\<rparr>) (xs @ ys) ss \<and> anchor t = anchor (addr_tree ext) \<and>
    changes_only hm (hm\<lparr>nodes := m'\<rparr>) (set (xs @ r # ys) \<union> anchors ext)"
proof -
  obtain ta where ta: "avl_rep (nodes hm) (addr_tree ext) ta" "inorder ta = xs @ r # ys"
    using ok unfolding trees_ok_def by blast
  have st: "set_tree ta = set (xs @ r # ys)" using ta(2) by (metis set_inorder)
  have c: "set_tree ta \<inter> set ss = {}" "anchor (size_tree ext) \<notin> set_tree ta" "set (xs @ ys) \<subseteq> set_tree ta"
    using ok unfolding st trees_ok_def by auto
  obtain m' t where "avl_delete (nodes hm, addr_tree ext) r = Some (m', t)"
    "trees_ok (hm\<lparr>nodes := m'\<rparr>) (ext\<lparr>addr_tree := t\<rparr>) (xs @ ys) ss" "anchor t = anchor (addr_tree ext)"
    "\<forall>q. q \<notin> set_tree ta \<union> anchors ext \<longrightarrow> m' q = nodes hm q"
    using addr_step[OF ok avl_delete_step[OF ta] only_changes_refl c] by blast
  then show ?thesis unfolding st
    by (intro exI[of _ m'] exI[of _ t]) (simp add: addr_delete_def changes_only_def OFF_addr_node_def)
qed

lemma avlh_init_eq: "avlh_init m h = m(h := (m h)\<lparr>balance := 0, ntype := 0\<rparr>)"
  by (simp add: avlh_init_def set_type_def set_balance_def)

text \<open>A node outside a tree may change; the operations initialise a node before they insert it.\<close>

lemma avl_rep_init: "avl_rep m a t \<Longrightarrow> n \<notin> set_tree t \<Longrightarrow> n \<noteq> anchor a \<Longrightarrow> avl_rep (avlh_init m n) a t"
  by (rule avl_rep_frame[where S = "{n}" and p = n]) (auto simp: avlh_init_eq only_changes_def)

lemma only_changes_init: "n \<in> S \<Longrightarrow> only_changes m (avlh_init m n) S p s"
  by (auto simp: avlh_init_eq only_changes_def avlh_link_def)

lemma balance_init [simp]: "balance (avlh_init m n n) = 0"
  by (simp add: avlh_init_eq)

definition sizes_ok :: "heap_mem \<Rightarrow> addr list \<Rightarrow> bool" where
  "sizes_ok hm ss \<longleftrightarrow> sorted (map (\<lambda>n. range_size hm (n - OFF_size_node)) ss) \<and>
     (\<forall>n\<in>set ss. unat (range_size hm (n - OFF_size_node)) < 2 ^ 63)"

lemma size_insert_ok:
  assumes ok: "trees_ok hm ext as ss" and sz: "sizes_ok hm ss" "unat (range_size hm r) < 2 ^ 63"
    and n: "r + OFF_size_node \<noteq> NULL" "r + OFF_size_node \<notin> set as \<union> set ss \<union> anchors ext"
    and len: "length ss + 1 < 2 ^ 32"
  shows "\<exists>m' t xs ys. size_insert (hm, ext) r = Some (hm\<lparr>nodes := m'\<rparr>, ext\<lparr>size_tree := t\<rparr>) \<and>
    ss = xs @ ys \<and> sizes_ok hm (xs @ (r + OFF_size_node) # ys) \<and>
    trees_ok (hm\<lparr>nodes := m'\<rparr>) (ext\<lparr>size_tree := t\<rparr>) as (xs @ (r + OFF_size_node) # ys) \<and>
    anchor t = anchor (size_tree ext) \<and>
    changes_only hm (hm\<lparr>nodes := m'\<rparr>) (set (xs @ (r + OFF_size_node) # ys) \<union> anchors ext)"
proof -
  let ?n = "r + OFF_size_node" and ?key = "\<lambda>n. range_size hm (n - OFF_size_node)"
  obtain ts where ts: "avl_rep (nodes hm) (size_tree ext) ts" "inorder ts = ss"
    using ok unfolding trees_ok_def by blast
  have st: "set_tree ts = set ss" "size ts = length ss" using ts(2) by (metis set_inorder, metis length_inorder)
  have rep: "avl_rep (avlh_init (nodes hm) ?n) (size_tree ext) ts"
    using avl_rep_init[OF ts(1)] n(2) unfolding st anchors_def by auto
  have fr: "avl_fresh (avlh_init (nodes hm) ?n) (size_tree ext) ts ?n"
    using n unfolding avl_fresh_def st anchors_def by auto
  have ord: "avl_ordered ?key size_keys ts"
    using sz(1) ts(2) st unfolding avl_ordered_def sizes_ok_def size_keys_def by auto
  have k: "?key ?n \<in> size_keys" using sz(2) by (simp add: size_keys_def)
  obtain xs ys where xs: "ss = xs @ ys" "\<forall>x\<in>set xs. ?key x \<le> ?key ?n" "\<forall>y\<in>set ys. ?key ?n < ?key y"
    "avl_step (avl_insert_back (avlh_init (nodes hm) ?n, size_tree ext) (compare_range_by_size hm) ?n)
       (avlh_init (nodes hm) ?n) (size_tree ext) (insert ?n (set_tree ts)) (xs @ ?n # ys)"
    using by_size.insert_back[OF rep ord k fr] len unfolding ts(2) st(2) by blast
  have so: "sizes_ok hm (xs @ ?n # ys)"
    using sz xs(1-3) by (auto simp: sizes_ok_def sorted_append less_imp_le)
  have c: "insert ?n (set_tree ts) \<inter> set as = {}" "anchor (addr_tree ext) \<notin> insert ?n (set_tree ts)"
    "set (xs @ ?n # ys) \<subseteq> insert ?n (set_tree ts)"
    using ok n xs(1) unfolding st trees_ok_def anchors_def by auto
  obtain m' t where "avl_insert_back (avlh_init (nodes hm) ?n, size_tree ext) (compare_range_by_size hm) ?n
      = Some (m', t)"
    "trees_ok (hm\<lparr>nodes := m'\<rparr>) (ext\<lparr>size_tree := t\<rparr>) as (xs @ ?n # ys)" "anchor t = anchor (size_tree ext)"
    "\<forall>q. q \<notin> insert ?n (set_tree ts) \<union> anchors ext \<longrightarrow> m' q = nodes hm q"
    using size_step[OF ok xs(4) only_changes_init[OF insertI1] c] by blast
  moreover have "insert ?n (set_tree ts) = set (xs @ ?n # ys)" using xs(1) st by auto
  ultimately show ?thesis using xs(1) so
    by (intro exI[of _ m'] exI[of _ t] exI[of _ xs] exI[of _ ys]) (simp add: size_insert_def changes_only_def)
qed

section \<open>Changes of the address tree\<close>

lemma OFF_addr [simp]: "r + OFF_addr_node = r" "r - OFF_addr_node = r"
  by (simp_all add: OFF_addr_node_def)

lemma addr_ordered: "sorted as \<Longrightarrow> inorder ta = as \<Longrightarrow> avl_ordered (\<lambda>n. n) UNIV ta"
  by (simp add: avl_ordered_def)

lemma addr_link_ok:
  assumes ok: "trees_ok hm ext as ss" and so: "sorted as" and lft: "lft = NULL \<longleftrightarrow> as = [] \<or> r < hd as"
    and n: "r \<noteq> NULL" "r \<notin> set as \<union> set ss \<union> anchors ext" and len: "length as + 1 < 2 ^ 32"
  shows "\<exists>m' t xs ys. (let m = avlh_init (nodes hm) (r + OFF_addr_node) in
      if lft \<noteq> NULL then avl_insert (m, addr_tree ext) compare_range_by_addr (r + OFF_addr_node)
      else avl_prepend (m, addr_tree ext) compare_range_by_addr (r + OFF_addr_node)) = Some (m', t) \<and>
    as = xs @ ys \<and> sorted (xs @ r # ys) \<and>
    trees_ok (hm\<lparr>nodes := m'\<rparr>) (ext\<lparr>addr_tree := t\<rparr>) (xs @ r # ys) ss \<and> anchor t = anchor (addr_tree ext) \<and>
    changes_only hm (hm\<lparr>nodes := m'\<rparr>) (set (xs @ r # ys) \<union> anchors ext)"
proof -
  obtain ta where ta: "avl_rep (nodes hm) (addr_tree ext) ta" "inorder ta = as"
    using ok unfolding trees_ok_def by blast
  have st: "set_tree ta = set as" "size ta = length as" using ta(2) by (metis set_inorder, metis length_inorder)
  let ?m = "avlh_init (nodes hm) r"
  have rep: "avl_rep ?m (addr_tree ext) ta"
    using avl_rep_init[OF ta(1)] n(2) unfolding st anchors_def by auto
  have fr: "avl_fresh ?m (addr_tree ext) ta r"
    using n unfolding avl_fresh_def st anchors_def by auto
  have lf: "ta = Leaf \<longleftrightarrow> as = []" using ta(2) by auto
  obtain xs ys where xs: "as = xs @ ys" "sorted (xs @ r # ys)" and step: "avl_step
      (if lft \<noteq> NULL then avl_insert (?m, addr_tree ext) compare_range_by_addr r
       else avl_prepend (?m, addr_tree ext) compare_range_by_addr r)
      ?m (addr_tree ext) (insert r (set_tree ta)) (xs @ r # ys)"
  proof (cases "lft = NULL")
    case True
    have "sorted (r # as)" using so lft True by (cases as) auto
    then show thesis
      using by_addr.prepend[OF rep fr _ addr_ordered[OF so ta(2)] UNIV_I] True lft len
      by (intro that[of "[]" as]) (auto simp: st ta(2) lf)
  next
    case False
    have new: "r \<notin> (\<lambda>n. n) ` set_tree ta" using n(2) st by auto
    obtain xs ys where "as = xs @ ys" "\<forall>x\<in>set xs. x < r" "\<forall>y\<in>set ys. r < y"
      "avl_step (avl_insert (?m, addr_tree ext) compare_range_by_addr r) ?m (addr_tree ext)
         (insert r (set_tree ta)) (xs @ r # ys)"
      using by_addr.insert[OF rep addr_ordered[OF so ta(2)] UNIV_I fr _ new] len unfolding ta(2) st(2) by blast
    then show thesis using False so by (intro that[of xs ys]) (auto simp: sorted_append less_imp_le)
  qed
  have c: "insert r (set_tree ta) \<inter> set ss = {}" "anchor (size_tree ext) \<notin> insert r (set_tree ta)"
    "set (xs @ r # ys) \<subseteq> insert r (set_tree ta)"
    using ok n xs(1) unfolding st trees_ok_def anchors_def by auto
  obtain m' t where "(if lft \<noteq> NULL then avl_insert (?m, addr_tree ext) compare_range_by_addr r
       else avl_prepend (?m, addr_tree ext) compare_range_by_addr r) = Some (m', t)"
    "trees_ok (hm\<lparr>nodes := m'\<rparr>) (ext\<lparr>addr_tree := t\<rparr>) (xs @ r # ys) ss" "anchor t = anchor (addr_tree ext)"
    "\<forall>q. q \<notin> insert r (set_tree ta) \<union> anchors ext \<longrightarrow> m' q = nodes hm q"
    using addr_step[OF ok step only_changes_init[OF insertI1] c] by blast
  moreover have "insert r (set_tree ta) = set (xs @ r # ys)" using xs(1) st by auto
  ultimately show ?thesis using xs
    apply (rule_tac x = m' in exI, rule_tac x = t in exI, rule_tac x = xs in exI, rule_tac x = ys in exI)
    apply (simp add: changes_only_def Let_def split: if_splits)
    done
qed

lemma addr_replace_ok:
  assumes ok: "trees_ok hm ext (xs @ x # ys) ss"
    and so: "\<forall>z\<in>set xs. z < r" "\<forall>z\<in>set ys. r < z"
    and n: "r \<noteq> NULL" "r \<notin> set (xs @ x # ys) \<union> set ss \<union> anchors ext"
  shows "\<exists>m' t. avl_replace (nodes hm, addr_tree ext) compare_range_by_addr (x + OFF_addr_node)
      (r + OFF_addr_node) = Some (m', t) \<and>
    trees_ok (hm\<lparr>nodes := m'\<rparr>) (ext\<lparr>addr_tree := t\<rparr>) (xs @ r # ys) ss \<and> anchor t = anchor (addr_tree ext) \<and>
    changes_only hm (hm\<lparr>nodes := m'\<rparr>) (set (xs @ x # r # ys) \<union> anchors ext)"
proof -
  obtain ta where ta: "avl_rep (nodes hm) (addr_tree ext) ta" "inorder ta = xs @ x # ys"
    using ok unfolding trees_ok_def by blast
  have st: "set_tree ta = set (xs @ x # ys)" using ta(2) by (metis set_inorder)
  have p: "xs = [] \<or> 0 \<le> compare_range_by_addr r (last xs)" "ys = [] \<or> compare_range_by_addr r (hd ys) \<le> 0"
    using so last_in_set[of xs] hd_in_set[of ys]
    by (auto simp: compare_range_by_addr_def avl_cmp_sign_def dest: less_asym)
  have r: "r \<notin> set_tree ta" "r \<noteq> anchor (addr_tree ext)" using n unfolding st anchors_def by auto
  have c: "insert r (set_tree ta) \<inter> set ss = {}" "anchor (size_tree ext) \<notin> insert r (set_tree ta)"
    "set (xs @ r # ys) \<subseteq> insert r (set_tree ta)"
    using ok n unfolding st trees_ok_def anchors_def by auto
  obtain m' t where "avl_replace (nodes hm, addr_tree ext) compare_range_by_addr x r = Some (m', t)"
    "trees_ok (hm\<lparr>nodes := m'\<rparr>) (ext\<lparr>addr_tree := t\<rparr>) (xs @ r # ys) ss" "anchor t = anchor (addr_tree ext)"
    "\<forall>q. q \<notin> insert r (set_tree ta) \<union> anchors ext \<longrightarrow> m' q = nodes hm q"
    using addr_step[OF ok avl_replace_step[where cmp = compare_range_by_addr, OF ta n(1) r p] only_changes_refl c] by blast
  moreover have "insert r (set_tree ta) = set (xs @ x # r # ys)" using st by auto
  ultimately show ?thesis
    by (intro exI[of _ m'] exI[of _ t]) (simp add: changes_only_def)
qed

end
