(* ===== verification/Heap_Pool.thy ===== *)
theory Heap_Pool
  imports Heap_Trees
begin

text \<open>
  The page pool of an extent. \<open>pool_ok\<close> is its invariant: sorted free ranges of whole pages, never
  adjacent, indexed by both trees. \<^verbatim>\<open>reserve_page_range\<close> takes pages out of the pool, and
  \<^verbatim>\<open>release_page_range\<close> puts them back and merges the neighbours; both keep the invariant and
  change the set of free bytes by exactly the pages concerned.
\<close>

section \<open>Free ranges\<close>

definition range_end :: "heap_mem \<Rightarrow> addr \<Rightarrow> nat" where
  "range_end hm r = unat r + unat (range_size hm r)"

definition range_span :: "heap_mem \<Rightarrow> addr \<Rightarrow> nat set" where
  "range_span hm r = {unat r..<range_end hm r}"

text \<open>The bytes of the free ranges.\<close>

definition pool_free :: "heap_mem \<Rightarrow> addr list \<Rightarrow> nat set" where
  "pool_free hm rs = (\<Union>r\<in>set rs. range_span hm r)"

text \<open>A range of whole pages between two addresses.\<close>

definition pages_in :: "nat \<Rightarrow> nat \<Rightarrow> nat \<Rightarrow> nat \<Rightarrow> bool" where
  "pages_in b l p n \<longleftrightarrow> b \<le> p \<and> 512 dvd (p - b) \<and> 512 dvd n \<and> 0 < n \<and> p + n \<le> l"

definition extent_ok :: "evl_heap_extent \<Rightarrow> bool" where
  "extent_ok ext \<longleftrightarrow> 0 < unat (membase ext) \<and> unat (membase ext) \<le> unat (memlim ext) \<and>
     unat (memlim ext) - unat (membase ext) < 2 ^ 32 \<and> 512 dvd (unat (memlim ext) - unat (membase ext)) \<and>
     (\<forall>a\<in>anchors ext. \<not> (unat (membase ext) \<le> unat a \<and> unat a < unat (memlim ext)))"

definition in_extent :: "evl_heap_extent \<Rightarrow> nat \<Rightarrow> nat \<Rightarrow> bool" where
  "in_extent ext = pages_in (unat (membase ext)) (unat (memlim ext))"

text \<open>
  The invariant of the page pool of an extent: its free ranges are whole pages, in increasing order
  and never adjacent, and both trees index exactly these ranges.
\<close>

definition ranges_ok :: "heap_mem \<Rightarrow> evl_heap_extent \<Rightarrow> addr list \<Rightarrow> bool" where
  "ranges_ok hm ext rs \<longleftrightarrow> (\<forall>r\<in>set rs. in_extent ext (unat r) (unat (range_size hm r))) \<and>
     sorted_wrt (\<lambda>r s. range_end hm r < unat s) rs"

definition pool_ok :: "heap_mem \<Rightarrow> evl_heap_extent \<Rightarrow> addr list \<Rightarrow> bool" where
  "pool_ok hm ext rs \<longleftrightarrow> extent_ok ext \<and> ranges_ok hm ext rs \<and>
     (\<exists>ss. trees_ok hm ext rs ss \<and> sizes_ok hm ss \<and> set ss = (\<lambda>r. r + OFF_size_node) ` set rs)"

lemma length_ranges_gen:
  assumes "\<forall>r\<in>set rs. b \<le> unat r \<and> range_end hm r \<le> l \<and> 512 \<le> unat (range_size hm r)"
    and "sorted_wrt (\<lambda>r s. range_end hm r < unat s) rs"
  shows "512 * length rs \<le> l - b"
  using assms
proof (induction rs arbitrary: b)
  case (Cons r rs)
  have "512 * length rs \<le> l - range_end hm r"
    using Cons.prems by (intro Cons.IH) (auto simp: less_imp_le)
  then show ?case using Cons.prems(1) by (auto simp: range_end_def)
qed simp

lemma length_ranges:
  assumes "extent_ok ext" "ranges_ok hm ext rs"
  shows "length rs + 1 < 2 ^ 32"
proof -
  have "512 * length rs \<le> unat (memlim ext) - unat (membase ext)"
  proof (rule length_ranges_gen)
    show "\<forall>r\<in>set rs. unat (membase ext) \<le> unat r \<and> range_end hm r \<le> unat (memlim ext) \<and>
      512 \<le> unat (range_size hm r)"
      using assms(2) by (auto simp: ranges_ok_def in_extent_def pages_in_def range_end_def dvd_imp_le)
    show "sorted_wrt (\<lambda>r s. range_end hm r < unat s) rs" using assms(2) by (simp add: ranges_ok_def)
  qed
  moreover have "unat (memlim ext) - unat (membase ext) < 2 ^ 32"
    using assms(1) by (simp add: extent_ok_def)
  ultimately show ?thesis by simp
qed

lemma unat_plus_small: "unat (a :: addr) + n < 2 ^ 64 \<Longrightarrow> unat (a + of_nat n) = unat a + n"
  by (simp add: unat_word_ariths unat_of_nat take_bit_nat_eq_self)

text \<open>Addresses of range descriptors do not meet those of size nodes or of the anchors.\<close>

lemma in_extentD:
  assumes "extent_ok ext" "in_extent ext (unat r) n"
  shows "r \<noteq> NULL" "r + OFF_size_node \<noteq> NULL" "r \<notin> anchors ext" "r + OFF_size_node \<notin> anchors ext"
    "unat (r + OFF_size_node) = unat r + 32" "unat (membase ext) \<le> unat r" "unat r + n \<le> unat (memlim ext)"
    "512 \<le> n" "unat r < unat (memlim ext)" "unat r + n < 2 ^ 64"
proof -
  note e = assms[unfolded extent_ok_def in_extent_def pages_in_def]
  show n: "unat (membase ext) \<le> unat r" "unat r + n \<le> unat (memlim ext)" "512 \<le> n"
    using e by (auto intro: dvd_imp_le)
  have l: "unat (memlim ext) < 2 ^ 64" using unsigned_less[of "memlim ext"] by simp
  show s: "unat r + n < 2 ^ 64" "unat r < unat (memlim ext)" using n l by linarith+
  show o: "unat (r + OFF_size_node) = unat r + 32"
    using unat_plus_small[of r 32] n s by (simp add: OFF_size_node_def)
  show "r \<noteq> NULL" "r + OFF_size_node \<noteq> NULL" using e o n by (auto simp: unat_eq_0[symmetric])
  show "r \<notin> anchors ext" using e n s by force
  have "unat (membase ext) \<le> unat (r + OFF_size_node)" "unat (r + OFF_size_node) < unat (memlim ext)"
    using o n by linarith+
  then show "r + OFF_size_node \<notin> anchors ext" using e by blast
qed

lemma size_node_not_addr:
  assumes "extent_ok ext" "in_extent ext (unat r) n" "in_extent ext (unat s) k"
  shows "r + OFF_size_node \<noteq> s"
proof
  assume "r + OFF_size_node = s"
  then have "unat s = unat r + 32" using in_extentD(5)[OF assms(1,2)] by metis
  moreover obtain k j where "unat r - unat (membase ext) = 512 * k" "unat s - unat (membase ext) = 512 * j"
    and "unat (membase ext) \<le> unat r"
    using assms(2,3) by (auto simp: in_extent_def pages_in_def elim!: dvdE)
  ultimately have "512 * j = 512 * k + 32" by linarith
  then have "(512 * j) mod 512 = (512 * k + 32) mod 512" by (rule arg_cong)
  then show False by simp
qed

lemma ranges_okD:
  assumes "ranges_ok hm ext rs" "r \<in> set rs"
  shows "in_extent ext (unat r) (unat (range_size hm r))" "range_end hm r \<le> unat (memlim ext)"
    "512 \<le> unat (range_size hm r)"
  using assms by (auto simp: ranges_ok_def in_extent_def pages_in_def range_end_def dvd_imp_le)

lemma span_disjoint:
  assumes "sorted_wrt (\<lambda>r s. range_end hm r < unat s) rs" "r \<in> set rs" "s \<in> set rs" "r \<noteq> s"
  shows "range_span hm r \<inter> range_span hm s = {}"
  using assms by (induction rs) (auto simp: range_span_def)

text \<open>\<^verbatim>\<open>find_suitable_range\<close> is a best fit: the smallest range that is large enough.\<close>

lemma find_suitable_ok:
  assumes ok: "pool_ok hm ext rs" and sz: "unat sz < 2 ^ 63"
  shows "\<exists>r. find_suitable_range hm ext sz = Some r \<and>
    (if r = NULL then \<forall>x\<in>set rs. range_size hm x < sz
     else r \<in> set rs \<and> sz \<le> range_size hm r \<and>
       (\<forall>x\<in>set rs. sz \<le> range_size hm x \<longrightarrow> range_size hm r \<le> range_size hm x))"
proof -
  obtain ss where e: "extent_ok ext" and rg: "ranges_ok hm ext rs" and ss: "trees_ok hm ext rs ss"
    "sizes_ok hm ss" "set ss = (\<lambda>r. r + OFF_size_node) ` set rs"
    using ok unfolding pool_ok_def by blast
  obtain ts where ts: "avl_rep (nodes hm) (size_tree ext) ts" "inorder ts = ss"
    using ss(1) unfolding trees_ok_def by blast
  have st: "set_tree ts = (\<lambda>r. r + OFF_size_node) ` set rs" using ts(2) ss(3) by (metis set_inorder)
  have ord: "avl_ordered (\<lambda>n. range_size hm (n - OFF_size_node)) size_keys ts"
    using ss(2,3) ts(2) st unfolding avl_ordered_def sizes_ok_def size_keys_def by auto
  have "sz \<in> size_keys" using sz by (simp add: size_keys_def)
  from suitable.search_ge[OF ts(1) ord this]
  obtain h where h: "avl_search_ge (nodes hm) (size_tree ext)
      (\<lambda>l r. avl_sign (sz - range_size hm (r - OFF_size_node))) NULL = Some h"
    "if h = NULL then \<forall>x\<in>set_tree ts. range_size hm (x - OFF_size_node) < sz
     else h \<in> set_tree ts \<and> sz \<le> range_size hm (h - OFF_size_node) \<and>
       (\<forall>x\<in>set_tree ts. sz \<le> range_size hm (x - OFF_size_node) \<longrightarrow>
          range_size hm (h - OFF_size_node) \<le> range_size hm (x - OFF_size_node))"
    by blast
  show ?thesis
  proof (cases "h = NULL")
    case True
    then show ?thesis using h by (simp add: find_suitable_range_def st)
  next
    case False
    then obtain r where r: "h = r + OFF_size_node" "r \<in> set rs" using h(2) st by auto
    then have "r \<noteq> NULL" using in_extentD(1)[OF e ranges_okD(1)[OF rg]] by blast
    then show ?thesis using h r False by (intro exI[of _ r]) (auto simp: find_suitable_range_def st)
  qed
qed

lemma pagenr:
  assumes "extent_ok ext" "unat (membase ext) \<le> unat p" "unat p < unat (memlim ext)"
  shows "unat (addr_to_pagenr ext p) = (unat p - unat (membase ext)) div 512"
    and "0 \<le> sint (addr_to_pagenr ext p)" and "addr_to_pagenr ext p \<noteq> - 1"
proof -
  let ?o = "unat p - unat (membase ext)"
  have o: "?o < 2 ^ 32" using assms unfolding extent_ok_def by linarith
  have "unat (p - membase ext) = ?o" using assms(2) by (simp add: unat_sub word_le_nat_alt)
  then have d: "unat (drop_bit 9 (p - membase ext)) = ?o div 512"
    by (simp add: drop_bit_eq_div unat_div)
  have s: "?o div 512 < 2 ^ 31" using o by (simp add: less_mult_imp_div_less)
  then have u: "unat (addr_to_pagenr ext p) = ?o div 512"
    unfolding addr_to_pagenr_def EVL_HEAP_PAGE_SHIFT_def
    by (simp add: unsigned_ucast_eq d take_bit_nat_eq_self)
  then show "unat (addr_to_pagenr ext p) = ?o div 512" .
  have "sint (addr_to_pagenr ext p) = int (?o div 512)"
    using s by (simp add: sint_uint uint_nat u signed_take_bit_int_eq_self)
  then show p: "0 \<le> sint (addr_to_pagenr ext p)" by simp
  show "addr_to_pagenr ext p \<noteq> - 1" using p by auto
qed

section \<open>Reservation\<close>

lemma extent_ok_upd [simp]:
  "anchor t = anchor (size_tree ext) \<Longrightarrow> extent_ok (ext\<lparr>size_tree := t\<rparr>) = extent_ok ext"
  "anchor t = anchor (addr_tree ext) \<Longrightarrow> extent_ok (ext\<lparr>addr_tree := t\<rparr>) = extent_ok ext"
  "extent_ok (ext\<lparr>ext_map := f\<rparr>) = extent_ok ext"
  "in_extent (ext\<lparr>size_tree := t\<rparr>) = in_extent ext" "in_extent (ext\<lparr>addr_tree := t\<rparr>) = in_extent ext"
  "in_extent (ext\<lparr>ext_map := f\<rparr>) = in_extent ext"
  "anchor t = anchor (size_tree ext) \<Longrightarrow> anchors (ext\<lparr>size_tree := t\<rparr>) = anchors ext"
  "anchor t = anchor (addr_tree ext) \<Longrightarrow> anchors (ext\<lparr>addr_tree := t\<rparr>) = anchors ext"
  "anchors (ext\<lparr>ext_map := f\<rparr>) = anchors ext"
  by (simp_all add: extent_ok_def anchors_def in_extent_def)

lemma ranges_ok_upd [simp]:
  "ranges_ok (hm\<lparr>nodes := m\<rparr>) ext rs = ranges_ok hm ext rs"
  "ranges_ok hm (ext\<lparr>size_tree := t\<rparr>) rs = ranges_ok hm ext rs"
  "ranges_ok hm (ext\<lparr>addr_tree := t\<rparr>) rs = ranges_ok hm ext rs"
  "ranges_ok hm (ext\<lparr>ext_map := f\<rparr>) rs = ranges_ok hm ext rs"
  by (simp_all add: ranges_ok_def range_end_def)

lemma pool_upd [simp]:
  "sizes_ok (hm\<lparr>nodes := m\<rparr>) ss = sizes_ok hm ss"
  "pool_free (hm\<lparr>nodes := m\<rparr>) rs = pool_free hm rs"
  "trees_ok hm (ext\<lparr>ext_map := f\<rparr>) as ss = trees_ok hm ext as ss"
  "pool_ok hm (ext\<lparr>ext_map := f\<rparr>) rs = pool_ok hm ext rs"
  "addr_to_pagenr (ext\<lparr>size_tree := t\<rparr>) p = addr_to_pagenr ext p"
  "addr_to_pagenr (ext\<lparr>addr_tree := t'\<rparr>) p = addr_to_pagenr ext p"
  by (simp_all add: sizes_ok_def pool_free_def range_span_def range_end_def trees_ok_def addr_to_pagenr_def
      pool_ok_def)

lemma sizes_ok_delete: "sizes_ok hm (xs @ n # ys) \<Longrightarrow> sizes_ok hm (xs @ ys)"
  by (auto simp: sizes_ok_def sorted_append)

lemma sizes_ok_cong:
  "(\<And>n. n \<in> set ss \<Longrightarrow> range_size hm' (n - OFF_size_node) = range_size hm (n - OFF_size_node)) \<Longrightarrow>
     sizes_ok hm' ss = sizes_ok hm ss"
  by (simp add: sizes_ok_def cong: map_cong)

text \<open>
  What a step on the pool leaves alone: the bounds of the extent, its page map and anchors, and
  every node outside the extent.
\<close>

definition pool_frame :: "heap_mem \<times> evl_heap_extent \<Rightarrow> heap_mem \<times> evl_heap_extent \<Rightarrow> bool" where
  "pool_frame st st' \<longleftrightarrow>
     membase (snd st') = membase (snd st) \<and> memlim (snd st') = memlim (snd st) \<and>
     anchors (snd st') = anchors (snd st) \<and>
     (\<forall>q. q \<notin> anchors (snd st) \<and> \<not> (membase (snd st) \<le> q \<and> q < memlim (snd st)) \<longrightarrow>
        nodes (fst st') q = nodes (fst st) q \<and> range_size (fst st') q = range_size (fst st) q)"

lemma reserve_exact:
  assumes ok: "pool_ok hm ext rs" and r: "r \<in> set rs"
  shows "\<exists>hm' ext' rs'. Option.bind (size_delete (hm, ext) r) (\<lambda>st.
      Option.bind (addr_delete st r) (\<lambda>st. Some (st, addr_to_pagenr (snd st) r))) =
        Some ((hm', ext'), addr_to_pagenr ext r) \<and>
    pool_ok hm' ext' rs' \<and> pool_free hm' rs' = pool_free hm rs - range_span hm r \<and>
    pool_frame (hm, ext) (hm', ext') \<and> ext_map ext' = ext_map ext"
proof -
  obtain ss where e: "extent_ok ext" and rg: "ranges_ok hm ext rs" and ss: "trees_ok hm ext rs ss"
    "sizes_ok hm ss" "set ss = (\<lambda>r. r + OFF_size_node) ` set rs"
    using ok unfolding pool_ok_def by blast
  obtain xs ys where ns: "ss = xs @ (r + OFF_size_node) # ys"
    using r ss(3) by (metis image_eqI in_set_conv_decomp)
  obtain us vs where nr: "rs = us @ r # vs" using r by (metis in_set_conv_decomp)
  obtain m1 t1 where d1: "size_delete (hm, ext) r = Some (hm\<lparr>nodes := m1\<rparr>, ext\<lparr>size_tree := t1\<rparr>)"
    "trees_ok (hm\<lparr>nodes := m1\<rparr>) (ext\<lparr>size_tree := t1\<rparr>) rs (xs @ ys)" "anchor t1 = anchor (size_tree ext)"
    "changes_only hm (hm\<lparr>nodes := m1\<rparr>) (set ss \<union> anchors ext)"
    using size_delete_ok[OF ss(1)[unfolded ns]] unfolding ns by blast
  obtain m2 t2 where d2: "addr_delete (hm\<lparr>nodes := m1\<rparr>, ext\<lparr>size_tree := t1\<rparr>) r =
      Some (hm\<lparr>nodes := m2\<rparr>, ext\<lparr>size_tree := t1, addr_tree := t2\<rparr>)"
    "trees_ok (hm\<lparr>nodes := m2\<rparr>) (ext\<lparr>size_tree := t1, addr_tree := t2\<rparr>) (us @ vs) (xs @ ys)"
    "anchor t2 = anchor (addr_tree ext)"
    "changes_only (hm\<lparr>nodes := m1\<rparr>) (hm\<lparr>nodes := m2\<rparr>) (set rs \<union> anchors ext)"
    using addr_delete_ok[OF d1(2)[unfolded nr]] d1(3) unfolding nr by (auto simp: changes_only_def)
  let ?hm = "hm\<lparr>nodes := m2\<rparr>" and ?ext = "ext\<lparr>size_tree := t1, addr_tree := t2\<rparr>"
  have dr: "distinct rs" "distinct ss" using trees_okD[OF ss(1)] by auto
  have "set (xs @ ys) = set ss - {r + OFF_size_node}" using dr(2) by (auto simp: ns)
  also have "\<dots> = (\<lambda>r. r + OFF_size_node) ` set (us @ vs)"
    unfolding ss(3) using dr(1) by (auto simp: nr)
  finally have sx: "set (xs @ ys) = (\<lambda>r. r + OFF_size_node) ` set (us @ vs)" .
  have rg': "ranges_ok hm ext (us @ vs)"
    using rg by (auto simp: ranges_ok_def nr sorted_wrt_append)
  have "pool_ok ?hm ?ext (us @ vs)"
    unfolding pool_ok_def using e rg' d1(3) d2 sizes_ok_delete[OF ss(2)[unfolded ns]] sx by auto
  moreover have "pool_free ?hm (us @ vs) = pool_free hm rs - range_span hm r"
  proof -
    have "range_span hm s \<inter> range_span hm r = {}" if "s \<in> set (us @ vs)" for s
      using span_disjoint[of hm rs s r] rg that dr(1) by (auto simp: ranges_ok_def nr)
    then show ?thesis by (fastforce simp: pool_free_def nr range_span_def range_end_def)
  qed
  moreover have "pool_frame (hm, ext) (?hm, ?ext)"
  proof -
    have ins: "unat (membase ext) \<le> unat q \<and> unat q < unat (memlim ext)" if "q \<in> set rs \<union> set ss" for q
      using that in_extentD(5-9)[OF e ranges_okD(1)[OF rg]] unfolding ss(3) by fastforce
    have "nodes ?hm q = nodes hm q" if "q \<notin> set rs \<union> set ss \<union> anchors ext" for q
      using d1(4) d2(4) that by (simp add: changes_only_def)
    then show ?thesis using ins d1(3) d2(3)
      unfolding pool_frame_def word_le_nat_alt word_less_nat_alt by auto
  qed
  ultimately show ?thesis using d1(1) d2(1)
    by (intro exI[of _ ?hm] exI[of _ ?ext] exI[of _ "us @ vs"]) simp
qed

lemma unat_diff_small: "(b :: addr) \<le> a \<Longrightarrow> unat (a - b) = unat a - unat b"
  by (simp add: unat_sub word_le_nat_alt)

lemma pool_free_mem: "r \<in> set rs \<Longrightarrow> range_span hm r \<subseteq> pool_free hm rs"
  by (auto simp: pool_free_def)

lemma trees_ok_size_nodes [simp]:
  "trees_ok (hm\<lparr>range_size := f, nodes := m\<rparr>) ext as ss = trees_ok (hm\<lparr>nodes := m\<rparr>) ext as ss"
  by (simp add: trees_ok_def)

lemma pages_in_split:
  assumes "pages_in b l p n" "512 dvd k" "0 < k" "k < n"
  shows "pages_in b l p (n - k) \<and> pages_in b l (p + (n - k)) k"
proof -
  have "p + (n - k) - b = (p - b) + (n - k)" using assms by (simp add: pages_in_def)
  moreover have nk: "512 dvd n - k" using assms by (simp add: pages_in_def dvd_diff_nat)
  ultimately have d: "512 dvd p + (n - k) - b" using assms(1) by (simp only: pages_in_def dvd_add)
  note p = assms(1)[unfolded pages_in_def]
  show ?thesis unfolding pages_in_def using p d nk assms(2-4) by (intro conjI; (elim conjE)?; (assumption | linarith))
qed

lemma reserve_split:
  assumes ok: "pool_ok hm ext rs" and r: "r \<in> set rs" and sz: "sz < range_size hm r" "512 dvd unat sz" "0 < unat sz"
  defines "left' \<equiv> range_size hm r - sz"
  shows "\<exists>hm' ext' rs'. Option.bind (size_delete (hm, ext) r) (\<lambda>st.
      let hm = (fst st)\<lparr>range_size := (range_size (fst st))(r := range_size (fst st) r - sz)\<rparr>
      in Option.bind (size_insert (hm, snd st) r) (\<lambda>st.
         Some (st, addr_to_pagenr (snd st) (r + range_size hm r)))) =
        Some ((hm', ext'), addr_to_pagenr ext (r + left')) \<and>
    pool_ok hm' ext' rs' \<and>
    pool_free hm' rs' = pool_free hm rs - {unat (r + left')..<unat (r + left') + unat sz} \<and>
    {unat (r + left')..<unat (r + left') + unat sz} \<subseteq> range_span hm r \<and>
    in_extent ext (unat (r + left')) (unat sz) \<and>
    pool_frame (hm, ext) (hm', ext') \<and> ext_map ext' = ext_map ext"
proof -
  obtain ss where e: "extent_ok ext" and rg: "ranges_ok hm ext rs" and ss: "trees_ok hm ext rs ss"
    "sizes_ok hm ss" "set ss = (\<lambda>r. r + OFF_size_node) ` set rs"
    using ok unfolding pool_ok_def by blast
  let ?n = "r + OFF_size_node"
  note re = ranges_okD[OF rg r]
  note ie = in_extentD[OF e re(1)]
  have l': "unat left' = unat (range_size hm r) - unat sz" "unat sz < unat (range_size hm r)"
    using sz(1) unfolding left'_def by (auto simp: unat_diff_small less_imp_le word_less_nat_alt[symmetric])
  have "unat r + unat left' < 2 ^ 64" using ie(10) l' by linarith
  from unat_plus_small[OF this] have rl: "unat (r + left') = unat r + unat left'" by simp
  have r2: "in_extent ext (unat r) (unat left')" "in_extent ext (unat (r + left')) (unat sz)"
    using pages_in_split[OF re(1)[unfolded in_extent_def] sz(2,3) l'(2)] unfolding in_extent_def rl l'(1) by auto
  obtain xs ys where ns: "ss = xs @ ?n # ys"
    using r ss(3) by (metis image_eqI in_set_conv_decomp)
  obtain m1 t1 where d1: "size_delete (hm, ext) r = Some (hm\<lparr>nodes := m1\<rparr>, ext\<lparr>size_tree := t1\<rparr>)"
    "trees_ok (hm\<lparr>nodes := m1\<rparr>) (ext\<lparr>size_tree := t1\<rparr>) rs (xs @ ys)" "anchor t1 = anchor (size_tree ext)"
    "changes_only hm (hm\<lparr>nodes := m1\<rparr>) (set ss \<union> anchors ext)"
    using size_delete_ok[OF ss(1)[unfolded ns]] unfolding ns by blast
  let ?hm1 = "hm\<lparr>range_size := (range_size hm)(r := left'), nodes := m1\<rparr>" and ?ext1 = "ext\<lparr>size_tree := t1\<rparr>"
  have dr: "distinct rs" "distinct ss" "set rs \<inter> set ss = {}" using trees_okD[OF ss(1)] by auto
  have other: "n - OFF_size_node \<noteq> r" if "n \<in> set (xs @ ys)" for n
    using that dr(2) by (auto simp: ns)
  have so: "sizes_ok ?hm1 (xs @ ys)"
    using sizes_ok_delete[OF ss(2)[unfolded ns]] sizes_ok_cong[of "xs @ ys" ?hm1 hm] other by auto
  have len: "length (xs @ ys) + 1 < 2 ^ 32"
  proof -
    have "length ss = card (set ss)" using dr(2) by (simp add: distinct_card)
    also have "\<dots> \<le> length rs" unfolding ss(3) by (metis card_image_le card_length finite_set le_trans)
    finally have "length (xs @ ys) + 1 \<le> length rs" by (simp add: ns)
    then show ?thesis using length_ranges[OF e rg] by simp
  qed
  have n: "?n \<notin> set rs \<union> set (xs @ ys) \<union> anchors ?ext1"
    using dr ie(4) d1(3) by (auto simp: ns)
  have lt: "unat (range_size ?hm1 r) < 2 ^ 63"
  proof -
    have "unat (range_size hm r) \<le> unat (memlim ext) - unat (membase ext)" using ie(6,7) by linarith
    moreover have "unat (memlim ext) - unat (membase ext) < 2 ^ 32" using e by (simp add: extent_ok_def)
    ultimately show ?thesis using l' by simp
  qed
  have t1: "trees_ok ?hm1 ?ext1 rs (xs @ ys)" using d1(2) by simp
  obtain m2 t2 us vs where d2: "size_insert (?hm1, ?ext1) r = Some (?hm1\<lparr>nodes := m2\<rparr>, ?ext1\<lparr>size_tree := t2\<rparr>)"
    "xs @ ys = us @ vs" "sizes_ok ?hm1 (us @ ?n # vs)"
    "trees_ok (?hm1\<lparr>nodes := m2\<rparr>) (?ext1\<lparr>size_tree := t2\<rparr>) rs (us @ ?n # vs)" "anchor t2 = anchor t1"
    "changes_only ?hm1 (?hm1\<lparr>nodes := m2\<rparr>) (set (us @ ?n # vs) \<union> anchors ?ext1)"
    using size_insert_ok[OF t1 so lt ie(2) n len] by auto
  let ?hm = "?hm1\<lparr>nodes := m2\<rparr>" and ?ext = "?ext1\<lparr>size_tree := t2\<rparr>"
  have sx: "set (us @ ?n # vs) = (\<lambda>r. r + OFF_size_node) ` set rs"
  proof -
    have "set (us @ vs) = set (xs @ ys)" by (simp only: d2(2))
    then show ?thesis unfolding ss(3)[symmetric] ns by auto
  qed
  have ends: "range_end ?hm s = (if s = r then unat r + unat left' else range_end hm s)" for s
    by (simp add: range_end_def)
  have rg': "ranges_ok ?hm1 ext rs"
  proof -
    have "sorted_wrt (\<lambda>a b. range_end ?hm1 a < unat b) rs"
    proof (rule sorted_wrt_mono_rel)
      show "sorted_wrt (\<lambda>r s. range_end hm r < unat s) rs" using rg by (simp add: ranges_ok_def)
    qed (use l' in \<open>auto simp: range_end_def split: if_splits\<close>)
    then show ?thesis using rg r2(1) by (auto simp: ranges_ok_def)
  qed
  have p: "pool_ok ?hm ?ext rs"
    unfolding pool_ok_def using e rg' d1(3) d2(3-5) sx by auto
  have spans: "range_span ?hm s = (if s = r then {unat r..<unat r + unat left'} else range_span hm s)" for s
    by (simp add: range_span_def range_end_def)
  have cut: "{unat (r + left')..<unat (r + left') + unat sz} = range_span hm r - {unat r..<unat r + unat left'}"
    unfolding rl range_span_def range_end_def using l' by auto
  have f: "pool_free ?hm rs = pool_free hm rs - {unat (r + left')..<unat (r + left') + unat sz}"
  proof -
    have "range_span hm s \<inter> range_span hm r = {}" if "s \<in> set rs" "s \<noteq> r" for s
      using span_disjoint[of hm rs s r] rg that r by (auto simp: ranges_ok_def)
    moreover have "{unat r..<unat r + unat left'} \<subseteq> range_span hm r"
      using l' by (auto simp: range_span_def range_end_def)
    ultimately show ?thesis using r unfolding pool_free_def spans cut
      by (auto split: if_splits)
  qed
  have fr: "pool_frame (hm, ext) (?hm, ?ext)"
  proof -
    have ins: "unat (membase ext) \<le> unat q \<and> unat q < unat (memlim ext)" if "q \<in> set rs \<union> set ss" for q
      using that in_extentD(5-9)[OF e ranges_okD(1)[OF rg]] unfolding ss(3) by fastforce
    have "nodes ?hm q = nodes hm q" if "q \<notin> set rs \<union> set ss \<union> anchors ext" for q
      using d1(3,4) d2(6)[unfolded sx[folded ss(3)]] that by (simp add: changes_only_def)
    then show ?thesis using ins d1(3) d2(5) r
      unfolding pool_frame_def word_le_nat_alt word_less_nat_alt by auto
  qed
  have eq: "Option.bind (size_delete (hm, ext) r) (\<lambda>st.
      let hm = (fst st)\<lparr>range_size := (range_size (fst st))(r := range_size (fst st) r - sz)\<rparr>
      in Option.bind (size_insert (hm, snd st) r) (\<lambda>st.
         Some (st, addr_to_pagenr (snd st) (r + range_size hm r)))) =
      Some ((?hm, ?ext), addr_to_pagenr ext (r + left'))"
  proof -
    have com: "hm\<lparr>nodes := m, range_size := f\<rparr> = hm\<lparr>range_size := f, nodes := m\<rparr>" for m f by simp
    show ?thesis using d1(1) d2(1) by (simp add: Let_def left'_def com)
  qed
  have cs: "{unat (r + left')..<unat (r + left') + unat sz} \<subseteq> range_span hm r" unfolding cut by blast
  show ?thesis using eq p f cs r2(2) fr by (intro exI[of _ ?hm] exI[of _ ?ext] exI[of _ rs]) simp
qed

definition taken :: "evl_heap_extent \<Rightarrow> s32 \<Rightarrow> u64 \<Rightarrow> nat set" where
  "taken ext pg sz = {unat (membase ext) + 512 * unat pg..<unat (membase ext) + 512 * unat pg + unat sz}"

lemma taken_eq:
  assumes "extent_ok ext" "in_extent ext (unat p) (unat sz)"
  shows "taken ext (addr_to_pagenr ext p) sz = {unat p..<unat p + unat sz}"
    "0 \<le> sint (addr_to_pagenr ext p)" "addr_to_pagenr ext p \<noteq> - 1"
proof -
  note i = in_extentD[OF assms]
  note pg = pagenr[OF assms(1) i(6,9)]
  have "512 dvd unat p - unat (membase ext)" using assms(2) by (simp add: in_extent_def pages_in_def)
  then have "unat (membase ext) + 512 * unat (addr_to_pagenr ext p) = unat p"
    using i(6) unfolding pg(1) by simp
  then show "taken ext (addr_to_pagenr ext p) sz = {unat p..<unat p + unat sz}" by (simp add: taken_def)
  show "0 \<le> sint (addr_to_pagenr ext p)" "addr_to_pagenr ext p \<noteq> - 1" using pg by auto
qed

lemma reserve_page_range_ok:
  assumes ok: "pool_ok hm ext rs" and sz: "512 dvd unat sz" "0 < unat sz" "unat sz < 2 ^ 63"
  shows "\<exists>hm' ext' pg rs'. reserve_page_range (hm, ext) sz = Some ((hm', ext'), pg) \<and>
    pool_ok hm' ext' rs' \<and> pool_frame (hm, ext) (hm', ext') \<and> ext_map ext' = ext_map ext \<and>
    (if pg = - 1 then hm' = hm \<and> ext' = ext \<and> rs' = rs \<and> (\<forall>r\<in>set rs. range_size hm r < sz)
     else 0 \<le> sint pg \<and> taken ext pg sz \<subseteq> pool_free hm rs \<and>
       in_extent ext (unat (membase ext) + 512 * unat pg) (unat sz) \<and>
       pool_free hm' rs' = pool_free hm rs - taken ext pg sz)"
proof -
  obtain r where r: "find_suitable_range hm ext sz = Some r"
    "if r = NULL then \<forall>x\<in>set rs. range_size hm x < sz else r \<in> set rs \<and> sz \<le> range_size hm r"
    using find_suitable_ok[OF ok sz(3)] by (metis (no_types, lifting))
  have e: "extent_ok ext" and rg: "ranges_ok hm ext rs" using ok by (auto simp: pool_ok_def)
  show ?thesis
  proof (cases "r = NULL")
    case True
    then have "reserve_page_range (hm, ext) sz = Some ((hm, ext), - 1)"
      using r(1) by (simp add: reserve_page_range_def)
    then show ?thesis using ok r(2) True
      by (intro exI[of _ hm] exI[of _ ext] exI[of _ "- 1"] exI[of _ rs]) (simp add: pool_frame_def)
  next
    case False
    then have rs: "r \<in> set rs" "sz \<le> range_size hm r" using r(2) by auto
    note re = ranges_okD(1)[OF rg rs(1)]
    show ?thesis
    proof (cases "range_size hm r = sz")
      case True
      note tk = taken_eq[OF e re[unfolded True]]
      have sp: "range_span hm r = taken ext (addr_to_pagenr ext r) sz"
        using True unfolding tk(1) by (simp add: range_span_def range_end_def)
      have un: "reserve_page_range (hm, ext) sz = Option.bind (size_delete (hm, ext) r) (\<lambda>st.
        Option.bind (addr_delete st r) (\<lambda>st. Some (st, addr_to_pagenr (snd st) r)))"
      proof -
        have "range_size (fst st) r = sz" if "size_delete (hm, ext) r = Some st" for st
          using that True by (auto simp: size_delete_def split: option.splits)
        then show ?thesis using r(1) False
          by (cases "size_delete (hm, ext) r") (simp_all add: reserve_page_range_def)
      qed
      have ie: "in_extent ext (unat (membase ext) + 512 * unat (addr_to_pagenr ext r)) (unat sz)"
        using re True pagenr(1)[OF e in_extentD(6,9)[OF e re]] in_extentD(6)[OF e re]
        by (auto simp: in_extent_def pages_in_def)
      obtain hm' ext' rs' where x: "reserve_page_range (hm, ext) sz = Some ((hm', ext'), addr_to_pagenr ext r)"
        "pool_ok hm' ext' rs'" "pool_free hm' rs' = pool_free hm rs - range_span hm r"
        "pool_frame (hm, ext) (hm', ext')" "ext_map ext' = ext_map ext"
        using reserve_exact[OF ok rs(1)] unfolding un by blast
      then show ?thesis using tk(2,3) pool_free_mem[OF rs(1), of hm] ie unfolding sp
        by (intro exI[of _ hm'] exI[of _ ext'] exI[of _ "addr_to_pagenr ext r"] exI[of _ rs']) simp
    next
      case neq: False
      then have lt: "sz < range_size hm r" using rs(2) by simp
      let ?p = "r + (range_size hm r - sz)"
      have un: "reserve_page_range (hm, ext) sz = Option.bind (size_delete (hm, ext) r) (\<lambda>st.
        let hm = (fst st)\<lparr>range_size := (range_size (fst st))(r := range_size (fst st) r - sz)\<rparr>
        in Option.bind (size_insert (hm, snd st) r) (\<lambda>st.
         Some (st, addr_to_pagenr (snd st) (r + range_size hm r))))"
      proof -
        have "range_size (fst st) r \<noteq> sz" if "size_delete (hm, ext) r = Some st" for st
          using that neq by (auto simp: size_delete_def split: option.splits)
        then show ?thesis using r(1) False
          by (cases "size_delete (hm, ext) r") (simp_all add: reserve_page_range_def Let_def)
      qed
      obtain hm' ext' rs' where x: "reserve_page_range (hm, ext) sz = Some ((hm', ext'), addr_to_pagenr ext ?p)"
        "pool_ok hm' ext' rs'" "pool_free hm' rs' = pool_free hm rs - {unat ?p..<unat ?p + unat sz}"
        "{unat ?p..<unat ?p + unat sz} \<subseteq> range_span hm r" and ip: "in_extent ext (unat ?p) (unat sz)"
        and y: "pool_frame (hm, ext) (hm', ext')" "ext_map ext' = ext_map ext"
        using reserve_split[OF ok rs(1) lt sz(1,2)] unfolding un by blast
      note tk = taken_eq[OF e ip]
      have ie: "in_extent ext (unat (membase ext) + 512 * unat (addr_to_pagenr ext ?p)) (unat sz)"
        using ip pagenr(1)[OF e in_extentD(6,9)[OF e ip]] in_extentD(6)[OF e ip]
        by (auto simp: in_extent_def pages_in_def)
      show ?thesis using x y tk(2,3) pool_free_mem[OF rs(1), of hm] ie unfolding tk(1)[symmetric]
        by (intro exI[of _ hm'] exI[of _ ext'] exI[of _ "addr_to_pagenr ext ?p"] exI[of _ rs']) auto
    qed
  qed
qed

end
