(* ===== verification/Heap_Release.thy ===== *)
theory Heap_Release
  imports Heap_Pool
begin

text \<open>
  Release of a page range: \<^verbatim>\<open>release_page_range\<close> merges the range with its free neighbours on both
  sides, in the four combinations the code has, and keeps the invariant of the page pool.
\<close>

section \<open>Steps of a release\<close>

text \<open>
  During a release the two trees do not index the same ranges. \<open>mid_ok\<close> is what holds between the
  steps, and \<open>mid_step\<close> what every step keeps.
\<close>

definition inside :: "evl_heap_extent \<Rightarrow> addr \<Rightarrow> bool" where
  "inside ext q \<longleftrightarrow> membase ext \<le> q \<and> q < memlim ext"

definition mid_ok :: "heap_mem \<Rightarrow> evl_heap_extent \<Rightarrow> addr list \<Rightarrow> addr list \<Rightarrow> bool" where
  "mid_ok hm ext rs ss \<longleftrightarrow> extent_ok ext \<and> trees_ok hm ext rs ss \<and> sizes_ok hm ss \<and>
     (\<forall>r\<in>set rs. inside ext r) \<and> (\<forall>n\<in>set ss. inside ext n)"

definition mid_step :: "heap_mem \<times> evl_heap_extent \<Rightarrow> heap_mem \<times> evl_heap_extent \<Rightarrow> bool" where
  "mid_step st st' \<longleftrightarrow> range_size (fst st') = range_size (fst st) \<and> ext_map (snd st') = ext_map (snd st) \<and>
     pool_frame st st'"

lemma inside_iff: "inside ext q \<longleftrightarrow> unat (membase ext) \<le> unat q \<and> unat q < unat (memlim ext)"
  by (simp add: inside_def word_le_nat_alt word_less_nat_alt)

lemma pool_frame_trans: "pool_frame a b \<Longrightarrow> pool_frame b c \<Longrightarrow> pool_frame a c"
  by (simp add: pool_frame_def)

lemma pool_frame_refl [simp]: "pool_frame a a"
  by (simp add: pool_frame_def)

lemma pool_frame_set_size: "inside ext r \<Longrightarrow> pool_frame (hm, ext) (set_range_size hm r k, ext)"
  by (auto simp: pool_frame_def inside_def set_range_size_def)

lemma set_range_size_simps [simp]:
  "nodes (set_range_size hm r k) = nodes hm"
  "range_size (set_range_size hm r k) = (range_size hm)(r := k)"
  by (simp_all add: set_range_size_def)

lemma in_extent_inside:
  assumes "extent_ok ext" "in_extent ext (unat r) n"
  shows "inside ext r" "inside ext (r + OFF_size_node)"
  using in_extentD[OF assms] by (auto simp: inside_iff)

lemma inside_upd [simp]:
  "inside (ext\<lparr>size_tree := t\<rparr>) = inside ext" "inside (ext\<lparr>addr_tree := t\<rparr>) = inside ext"
  by (auto simp: inside_def)

lemma nodes_step:
  assumes "changes_only hm (hm\<lparr>nodes := m\<rparr>) (S \<union> anchors ext)" "\<And>q. q \<in> S \<Longrightarrow> inside ext q"
    and "anchors ext' = anchors ext" "membase ext' = membase ext" "memlim ext' = memlim ext"
    "ext_map ext' = ext_map ext"
  shows "mid_step (hm, ext) (hm\<lparr>nodes := m\<rparr>, ext')"
  using assms by (auto simp: mid_step_def pool_frame_def changes_only_def inside_def)

lemma mid_size_delete:
  assumes ok: "mid_ok hm ext rs ss" and r: "r + OFF_size_node \<in> set ss"
  shows "\<exists>hm' ext' ss'. size_delete (hm, ext) r = Some (hm', ext') \<and> mid_ok hm' ext' rs ss' \<and>
    set ss' = set ss - {r + OFF_size_node} \<and> mid_step (hm, ext) (hm', ext')"
proof -
  note o = ok[unfolded mid_ok_def]
  obtain xs ys where ns: "ss = xs @ (r + OFF_size_node) # ys" using r by (meson in_set_conv_decomp)
  have t: "trees_ok hm ext rs (xs @ (r + OFF_size_node) # ys)" using o ns by simp
  obtain m t where d: "size_delete (hm, ext) r = Some (hm\<lparr>nodes := m\<rparr>, ext\<lparr>size_tree := t\<rparr>)"
    "trees_ok (hm\<lparr>nodes := m\<rparr>) (ext\<lparr>size_tree := t\<rparr>) rs (xs @ ys)" "anchor t = anchor (size_tree ext)"
    "changes_only hm (hm\<lparr>nodes := m\<rparr>) (set ss \<union> anchors ext)"
    using size_delete_ok[OF t] unfolding ns by blast
  have "mid_ok (hm\<lparr>nodes := m\<rparr>) (ext\<lparr>size_tree := t\<rparr>) rs (xs @ ys)"
    using o d(2,3) sizes_ok_delete[of hm xs _ ys] by (auto simp: mid_ok_def ns)
  moreover have "set (xs @ ys) = set ss - {r + OFF_size_node}" using trees_okD(2)[OF t] by (auto simp: ns)
  moreover have "mid_step (hm, ext) (hm\<lparr>nodes := m\<rparr>, ext\<lparr>size_tree := t\<rparr>)"
    by (rule nodes_step[OF d(4)]) (use o d(3) in auto)
  ultimately show ?thesis using d(1) by blast
qed

lemma mid_addr_delete:
  assumes ok: "mid_ok hm ext (xs @ r # ys) ss"
  shows "\<exists>hm' ext'. addr_delete (hm, ext) r = Some (hm', ext') \<and> mid_ok hm' ext' (xs @ ys) ss \<and>
    mid_step (hm, ext) (hm', ext')"
proof -
  note o = ok[unfolded mid_ok_def]
  obtain m t where d: "addr_delete (hm, ext) r = Some (hm\<lparr>nodes := m\<rparr>, ext\<lparr>addr_tree := t\<rparr>)"
    "trees_ok (hm\<lparr>nodes := m\<rparr>) (ext\<lparr>addr_tree := t\<rparr>) (xs @ ys) ss" "anchor t = anchor (addr_tree ext)"
    "changes_only hm (hm\<lparr>nodes := m\<rparr>) (set (xs @ r # ys) \<union> anchors ext)"
    using addr_delete_ok o by blast
  have "mid_ok (hm\<lparr>nodes := m\<rparr>) (ext\<lparr>addr_tree := t\<rparr>) (xs @ ys) ss"
    using o d(2,3) by (auto simp: mid_ok_def)
  moreover have "mid_step (hm, ext) (hm\<lparr>nodes := m\<rparr>, ext\<lparr>addr_tree := t\<rparr>)"
    by (rule nodes_step[OF d(4)]) (use o d(3) in auto)
  ultimately show ?thesis using d(1) by blast
qed

lemma mid_addr_replace:
  assumes ok: "mid_ok hm ext (xs @ x # ys) ss"
    and so: "\<forall>z\<in>set xs. z < r" "\<forall>z\<in>set ys. r < z"
    and n: "r \<noteq> NULL" "r \<notin> set (xs @ x # ys) \<union> set ss \<union> anchors ext" "inside ext r"
  shows "\<exists>hm' ext'. (case avl_replace (nodes hm, addr_tree ext) compare_range_by_addr (x + OFF_addr_node)
         (r + OFF_addr_node) of None \<Rightarrow> None
       | Some (m, t) \<Rightarrow> Some (hm\<lparr>nodes := m\<rparr>, ext\<lparr>addr_tree := t\<rparr>)) = Some (hm', ext') \<and>
    mid_ok hm' ext' (xs @ r # ys) ss \<and> mid_step (hm, ext) (hm', ext')"
proof -
  note o = ok[unfolded mid_ok_def]
  obtain m t where d: "avl_replace (nodes hm, addr_tree ext) compare_range_by_addr (x + OFF_addr_node)
      (r + OFF_addr_node) = Some (m, t)"
    "trees_ok (hm\<lparr>nodes := m\<rparr>) (ext\<lparr>addr_tree := t\<rparr>) (xs @ r # ys) ss" "anchor t = anchor (addr_tree ext)"
    "changes_only hm (hm\<lparr>nodes := m\<rparr>) (set (xs @ x # r # ys) \<union> anchors ext)"
    using addr_replace_ok[OF _ so n(1,2)] o by blast
  have "mid_ok (hm\<lparr>nodes := m\<rparr>) (ext\<lparr>addr_tree := t\<rparr>) (xs @ r # ys) ss"
    using o d(2,3) n(3) by (auto simp: mid_ok_def)
  moreover have "mid_step (hm, ext) (hm\<lparr>nodes := m\<rparr>, ext\<lparr>addr_tree := t\<rparr>)"
    by (rule nodes_step[OF d(4)]) (use o d(3) n(3) in auto)
  ultimately show ?thesis using d(1) by auto
qed

lemma mid_addr_link:
  assumes ok: "mid_ok hm ext (xs @ ys) ss" and lft: "lft = NULL \<longleftrightarrow> xs = []"
    and so: "sorted (xs @ ys)" "\<forall>z\<in>set xs. z < r" "\<forall>z\<in>set ys. r < z"
    and n: "r \<noteq> NULL" "r \<notin> set (xs @ ys) \<union> set ss \<union> anchors ext" "inside ext r"
    and len: "length (xs @ ys) + 1 < 2 ^ 32"
  shows "\<exists>hm' ext'. (let m = avlh_init (nodes hm) (r + OFF_addr_node)
      in (case (if lft \<noteq> NULL
                then avl_insert (m, addr_tree ext) compare_range_by_addr (r + OFF_addr_node)
                else avl_prepend (m, addr_tree ext) compare_range_by_addr (r + OFF_addr_node)) of
            None \<Rightarrow> None
          | Some (m, t) \<Rightarrow> Some (hm\<lparr>nodes := m\<rparr>, ext\<lparr>addr_tree := t\<rparr>))) = Some (hm', ext') \<and>
    mid_ok hm' ext' (xs @ r # ys) ss \<and> mid_step (hm, ext) (hm', ext')"
proof -
  note o = ok[unfolded mid_ok_def]
  have l: "lft = NULL \<longleftrightarrow> xs @ ys = [] \<or> r < hd (xs @ ys)"
    using lft so(2,3) by (cases xs; cases ys) (auto dest: less_asym)
  obtain m t us vs where d: "(let m = avlh_init (nodes hm) (r + OFF_addr_node) in
      if lft \<noteq> NULL then avl_insert (m, addr_tree ext) compare_range_by_addr (r + OFF_addr_node)
      else avl_prepend (m, addr_tree ext) compare_range_by_addr (r + OFF_addr_node)) = Some (m, t)"
    "xs @ ys = us @ vs" "sorted (us @ r # vs)"
    "trees_ok (hm\<lparr>nodes := m\<rparr>) (ext\<lparr>addr_tree := t\<rparr>) (us @ r # vs) ss" "anchor t = anchor (addr_tree ext)"
    "changes_only hm (hm\<lparr>nodes := m\<rparr>) (set (us @ r # vs) \<union> anchors ext)"
    using addr_link_ok[OF _ so(1) l n(1,2) len] o by blast
  have eq: "us @ r # vs = xs @ r # ys"
  proof -
    obtain zs where "us = xs @ zs \<and> ys = zs @ vs \<or> xs = us @ zs \<and> vs = zs @ ys"
      using d(2)[unfolded append_eq_append_conv2] by blast
    then show ?thesis
    proof (elim disjE conjE)
      assume z: "us = xs @ zs" "ys = zs @ vs"
      then have "zs = []" using so(3) d(3) by (cases zs) (auto simp: sorted_append)
      then show ?thesis using z by simp
    next
      assume z: "xs = us @ zs" "vs = zs @ ys"
      then have "zs = []" using so(2) d(3) by (cases zs) (auto simp: sorted_append)
      then show ?thesis using z by simp
    qed
  qed
  have "mid_ok (hm\<lparr>nodes := m\<rparr>) (ext\<lparr>addr_tree := t\<rparr>) (xs @ r # ys) ss"
    using o d(4,5) n(3) unfolding eq by (auto simp: mid_ok_def)
  moreover have "mid_step (hm, ext) (hm\<lparr>nodes := m\<rparr>, ext\<lparr>addr_tree := t\<rparr>)"
    by (rule nodes_step[OF d(6)[unfolded eq]]) (use o d(5) n(3) in auto)
  ultimately show ?thesis using d(1) by (auto simp: Let_def)
qed

lemma mid_set_size:
  "mid_ok hm ext rs ss \<Longrightarrow> r + OFF_size_node \<notin> set ss \<Longrightarrow> mid_ok (set_range_size hm r k) ext rs ss"
  using sizes_ok_cong[of ss "set_range_size hm r k" hm] by (fastforce simp: mid_ok_def)

text \<open>The last step of a release indexes the merged range by its size.\<close>

lemma mid_close:
  assumes ok: "mid_ok hm ext rs ss" and rg: "ranges_ok hm ext rs" and r: "r \<in> set rs"
    and ss: "set ss = (\<lambda>r. r + OFF_size_node) ` (set rs - {r})"
  shows "\<exists>hm' ext'. size_insert (hm, ext) r = Some (hm', ext') \<and> pool_ok hm' ext' rs \<and>
    mid_step (hm, ext) (hm', ext')"
proof -
  note o = ok[unfolded mid_ok_def]
  have e: "extent_ok ext" and t: "trees_ok hm ext rs ss" using o by auto
  note ie = in_extentD[OF e ranges_okD(1)[OF rg r]]
  let ?n = "r + OFF_size_node"
  have "?n \<noteq> s" if "s \<in> set rs" for s
    using size_node_not_addr[OF e ranges_okD(1)[OF rg r] ranges_okD(1)[OF rg that]] .
  moreover have "?n \<notin> set ss" using ss by auto
  ultimately have n: "?n \<notin> set rs \<union> set ss \<union> anchors ext" using ie(4) by blast
  have len: "length ss + 1 < 2 ^ 32"
  proof -
    have "length ss = card (set ss)" using trees_okD(2)[OF t] by (simp add: distinct_card)
    also have "\<dots> \<le> card (set rs)" unfolding ss
      by (metis Diff_subset card_image_le card_mono finite_Diff finite_set le_trans)
    also have "\<dots> \<le> length rs" by (rule card_length)
    finally show ?thesis using length_ranges[OF e rg] by simp
  qed
  have lt: "unat (range_size hm r) < 2 ^ 63"
  proof -
    have "unat (range_size hm r) \<le> unat (memlim ext) - unat (membase ext)" using ie(6,7) by linarith
    moreover have "unat (memlim ext) - unat (membase ext) < 2 ^ 32" using e by (simp add: extent_ok_def)
    ultimately show ?thesis by simp
  qed
  obtain m t' us vs where d: "size_insert (hm, ext) r = Some (hm\<lparr>nodes := m\<rparr>, ext\<lparr>size_tree := t'\<rparr>)"
    "ss = us @ vs" "sizes_ok hm (us @ ?n # vs)"
    "trees_ok (hm\<lparr>nodes := m\<rparr>) (ext\<lparr>size_tree := t'\<rparr>) rs (us @ ?n # vs)" "anchor t' = anchor (size_tree ext)"
    "changes_only hm (hm\<lparr>nodes := m\<rparr>) (set (us @ ?n # vs) \<union> anchors ext)"
    using size_insert_ok[OF t _ lt ie(2) n len] o by blast
  have sx: "set (us @ ?n # vs) = (\<lambda>r. r + OFF_size_node) ` set rs"
  proof -
    have "set (us @ ?n # vs) = insert ?n (set ss)" by (simp add: d(2))
    also have "\<dots> = (\<lambda>r. r + OFF_size_node) ` set rs" unfolding ss using r by auto
    finally show ?thesis .
  qed
  have "pool_ok (hm\<lparr>nodes := m\<rparr>) (ext\<lparr>size_tree := t'\<rparr>) rs"
    unfolding pool_ok_def
    apply (intro conjI)
      apply (simp add: e d(5))
     apply (simp add: rg)
    apply (rule exI[of _ "us @ ?n # vs"])
    apply (simp only: d(4) sx pool_upd d(3) simp_thms)
    done
  moreover have "mid_step (hm, ext) (hm\<lparr>nodes := m\<rparr>, ext\<lparr>size_tree := t'\<rparr>)"
  proof (rule nodes_step[OF d(6)])
    fix q assume "q \<in> set (us @ ?n # vs)"
    then show "inside ext q" unfolding sx using in_extent_inside(2)[OF e ranges_okD(1)[OF rg]] by auto
  qed (use d(5) in auto)
  ultimately show ?thesis using d(1) by blast
qed

section \<open>Neighbours of a range\<close>

lemma find_left_ok:
  assumes ok: "trees_ok hm ext (xs @ ys) ss" and so: "sorted (xs @ ys)" "\<forall>z\<in>set xs. z < p" "\<forall>z\<in>set ys. p < z"
  shows "find_left_neighbour hm ext p = Some (if xs = [] then NULL else last xs)"
proof -
  obtain ta where ta: "avl_rep (nodes hm) (addr_tree ext) ta" "inorder ta = xs @ ys"
    using ok unfolding trees_ok_def by blast
  have st: "set_tree ta = set xs \<union> set ys" using ta(2) by (metis set_append set_inorder)
  obtain h where h: "avl_search_le (nodes hm) (addr_tree ext) compare_range_by_addr p = Some h"
    "if h = NULL then \<forall>x\<in>set_tree ta. p < x
     else h \<in> set_tree ta \<and> h \<le> p \<and> (\<forall>x\<in>set_tree ta. x \<le> p \<longrightarrow> x \<le> h)"
    using by_addr.search_le[OF ta(1) addr_ordered[OF so(1) ta(2)] UNIV_I, of p] by blast
  have n: "NULL \<notin> set xs" using trees_okD(3)[OF ok] by auto
  have "h = (if xs = [] then NULL else last xs)"
  proof (cases xs rule: rev_cases)
    case Nil
    then show ?thesis using h(2) so(3) st by (auto split: if_splits)
  next
    case (snoc zs z)
    have "h \<noteq> NULL" using h(2) so(2) st snoc by (auto dest: less_asym)
    then have m: "h \<in> set xs \<union> set ys" "h \<le> p" "\<forall>x\<in>set xs \<union> set ys. x \<le> p \<longrightarrow> x \<le> h" using h(2) st by auto
    then have "h \<in> set xs" using so(3) by auto
    then have "h \<le> z" using so(1) snoc by (auto simp: sorted_append)
    moreover have "z \<le> h" using m(3) so(2) snoc by (auto simp: less_imp_le)
    ultimately show ?thesis using snoc by simp
  qed
  then show ?thesis using h(1) by (simp add: find_left_neighbour_def)
qed

lemma find_right_ok:
  assumes ok: "trees_ok hm ext (xs @ ys) ss" and so: "sorted (xs @ ys)" "\<forall>z\<in>set xs. z < p" "\<forall>z\<in>set ys. p < z"
  shows "find_right_neighbour hm ext p = Some (if ys = [] then NULL else hd ys)"
proof -
  obtain ta where ta: "avl_rep (nodes hm) (addr_tree ext) ta" "inorder ta = xs @ ys"
    using ok unfolding trees_ok_def by blast
  have st: "set_tree ta = set xs \<union> set ys" using ta(2) by (metis set_append set_inorder)
  obtain h where h: "avl_search_ge (nodes hm) (addr_tree ext) compare_range_by_addr p = Some h"
    "if h = NULL then \<forall>x\<in>set_tree ta. x < p
     else h \<in> set_tree ta \<and> p \<le> h \<and> (\<forall>x\<in>set_tree ta. p \<le> x \<longrightarrow> h \<le> x)"
    using by_addr.search_ge[OF ta(1) addr_ordered[OF so(1) ta(2)] UNIV_I, of p] by blast
  have "h = (if ys = [] then NULL else hd ys)"
  proof (cases ys)
    case Nil
    then show ?thesis using h(2) so(2) st by (auto split: if_splits)
  next
    case (Cons z zs)
    have "h \<noteq> NULL" using h(2) so(3) st Cons by (auto dest: less_asym)
    then have m: "h \<in> set xs \<union> set ys" "p \<le> h" "\<forall>x\<in>set xs \<union> set ys. p \<le> x \<longrightarrow> h \<le> x" using h(2) st by auto
    then have "h \<in> set ys" using so(2) by auto
    then have "z \<le> h" using so(1) Cons by (auto simp: sorted_append)
    moreover have "h \<le> z" using m(3) so(3) Cons by (auto simp: less_imp_le)
    ultimately show ?thesis using Cons by simp
  qed
  then show ?thesis using h(1) by (simp add: find_right_neighbour_def)
qed

lemma find_next_ok:
  assumes ok: "trees_ok hm ext (xs @ x # ys) ss"
  shows "find_next_neighbour hm ext x = Some (if ys = [] then NULL else hd ys)"
proof -
  obtain ta where ta: "avl_rep (nodes hm) (addr_tree ext) ta" "inorder ta = xs @ x # ys"
    using ok unfolding trees_ok_def by blast
  show ?thesis using avl_inorder_rep[OF ta(1) refl ta(2), of 1]
    by (simp add: find_next_neighbour_def avl_next_def avl_consts nbr_def)
qed

section \<open>Merging\<close>

lemma in_range: "unat (l :: addr) < 2 ^ 64"
  using unsigned_less[of l] by simp

lemma mergeable_iff:
  assumes "range_end hm r \<le> unat (l :: addr)"
  shows "ranges_mergeable hm r q \<longleftrightarrow> range_end hm r = unat q"
proof -
  have "unat r + unat (range_size hm r) < 2 ^ 64"
    using assms in_range[of l] unfolding range_end_def by linarith
  from unat_plus_small[OF this] have "unat (r + range_size hm r) = range_end hm r" by (simp add: range_end_def)
  then show ?thesis unfolding ranges_mergeable_def by (metis unsigned_word_eqI)
qed

lemma pages_in_join:
  assumes "pages_in b l p n" "pages_in b l (p + n) k"
  shows "pages_in b l p (n + k)"
  using assms by (auto simp: pages_in_def)

text \<open>
  The state after the left merge: the range \<open>q\<close> of \<open>k\<close> bytes ends where the released pages end,
  \<open>us\<close> are the ranges before it, \<open>ys\<close> the ranges after it.
\<close>

definition merged_left ::
  "heap_mem \<Rightarrow> evl_heap_extent \<Rightarrow> addr \<Rightarrow> u64 \<Rightarrow> addr list \<Rightarrow> addr list \<Rightarrow>
     heap_mem \<Rightarrow> evl_heap_extent \<Rightarrow> addr \<Rightarrow> bool \<Rightarrow> addr list \<Rightarrow> bool" where
  "merged_left hm ext p sz xs ys hm' ext' q linked us \<longleftrightarrow>
     (if linked then xs = us @ [q] else q = p \<and> us = xs) \<and>
     (\<exists>ss. mid_ok hm' ext' (if linked then us @ q # ys else us @ ys) ss \<and>
        set ss = (\<lambda>r. r + OFF_size_node) ` (set us \<union> set ys)) \<and>
     range_end hm' q = unat p + unat sz \<and> in_extent ext (unat q) (unat (range_size hm' q)) \<and>
     (\<forall>r. r \<noteq> p \<longrightarrow> r \<noteq> q \<longrightarrow> range_size hm' r = range_size hm r) \<and>
     (\<forall>r\<in>set us. range_end hm r < unat q) \<and>
     {unat q..<unat p + unat sz} = {unat p..<unat p + unat sz} \<union> (if linked then range_span hm q else {}) \<and>
     pool_frame (hm, ext) (hm', ext') \<and> ext_map ext' = ext_map ext"

definition release_pre ::
  "heap_mem \<Rightarrow> evl_heap_extent \<Rightarrow> addr \<Rightarrow> u64 \<Rightarrow> addr list \<Rightarrow> addr list \<Rightarrow> bool" where
  "release_pre hm ext p sz xs ys \<longleftrightarrow> pool_ok hm ext (xs @ ys) \<and> in_extent ext (unat p) (unat sz) \<and>
     (\<forall>r\<in>set xs. range_end hm r \<le> unat p) \<and> (\<forall>r\<in>set ys. unat p + unat sz \<le> unat r)"

lemma release_preD:
  assumes "release_pre hm ext p sz xs ys"
  shows "extent_ok ext" "ranges_ok hm ext (xs @ ys)" "p \<notin> set (xs @ ys)" "sorted (xs @ ys)"
    "\<forall>z\<in>set xs. z < p" "\<forall>z\<in>set ys. p < z" "inside ext p"
    "\<exists>ss. mid_ok hm ext (xs @ ys) ss \<and> set ss = (\<lambda>r. r + OFF_size_node) ` set (xs @ ys)"
proof -
  note a = assms[unfolded release_pre_def]
  show e: "extent_ok ext" and rg: "ranges_ok hm ext (xs @ ys)" using a by (auto simp: pool_ok_def)
  have i: "in_extent ext (unat p) (unat sz)" using a by blast
  have lx: "unat r < unat p" if "r \<in> set xs" for r
  proof -
    have "512 \<le> unat (range_size hm r)" "range_end hm r \<le> unat p"
      using ranges_okD(3)[OF rg, of r] that a by auto
    then show ?thesis by (simp add: range_end_def)
  qed
  have ly: "unat p < unat r" if "r \<in> set ys" for r
    using in_extentD(8)[OF e i] that a by fastforce
  show "\<forall>z\<in>set xs. z < p" "\<forall>z\<in>set ys. p < z" using lx ly by (auto simp: word_less_nat_alt)
  show "p \<notin> set (xs @ ys)" using lx ly by auto
  have "sorted_wrt (\<lambda>r s. range_end hm r < unat s) (xs @ ys)" using rg by (simp add: ranges_ok_def)
  then show "sorted (xs @ ys)"
    by (rule sorted_wrt_mono_rel[rotated]) (auto simp: range_end_def word_le_nat_alt)
  show "inside ext p" by (rule in_extent_inside(1)[OF e i])
  obtain ss where "trees_ok hm ext (xs @ ys) ss" "sizes_ok hm ss"
    "set ss = (\<lambda>r. r + OFF_size_node) ` set (xs @ ys)" using a unfolding pool_ok_def by blast
  moreover have "\<forall>r\<in>set (xs @ ys). inside ext r \<and> inside ext (r + OFF_size_node)"
    using in_extent_inside[OF e ranges_okD(1)[OF rg]] by blast
  ultimately show "\<exists>ss. mid_ok hm ext (xs @ ys) ss \<and> set ss = (\<lambda>r. r + OFF_size_node) ` set (xs @ ys)"
    using e unfolding mid_ok_def by (intro exI[of _ ss]) auto
qed

lemma size_node_inj [simp]: "r + OFF_size_node = s + OFF_size_node \<longleftrightarrow> r = s"
  by simp

lemma merge_left_ok:
  assumes pre: "release_pre hm ext p sz xs ys"
  defines "hmp \<equiv> set_range_size hm p sz"
  shows "\<exists>left. find_left_neighbour hmp ext p = Some left \<and> (left = NULL \<longleftrightarrow> xs = []) \<and>
    (\<exists>hm' ext' q linked us. release_merge_left (hmp, ext) p left =
         Some ((hm', ext'), q, linked, if ys = [] then NULL else hd ys) \<and>
       merged_left hm ext p sz xs ys hm' ext' q linked us)"
proof -
  note d = release_preD[OF pre]
  note a = pre[unfolded release_pre_def]
  obtain ss where ss: "mid_ok hm ext (xs @ ys) ss" "set ss = (\<lambda>r. r + OFF_size_node) ` set (xs @ ys)"
    using d(8) by blast
  have ip: "in_extent ext (unat p) (unat sz)" using a by blast
  have pn: "p + OFF_size_node \<notin> set ss" using d(3) unfolding ss(2) by auto
  have mp: "mid_ok hmp ext (xs @ ys) ss" unfolding hmp_def by (rule mid_set_size[OF ss(1) pn])
  have tp: "trees_ok hmp ext (xs @ ys) ss" using mp by (simp add: mid_ok_def)
  have rs: "range_size hmp r = range_size hm r" if "r \<noteq> p" for r using that by (simp add: hmp_def)
  have re: "range_end hmp r = range_end hm r" if "r \<in> set (xs @ ys)" for r
  proof -
    have "r \<noteq> p" using that d(3) by auto
    then show ?thesis using rs by (simp add: range_end_def)
  qed
  have fp: "pool_frame (hm, ext) (hmp, ext)" unfolding hmp_def by (rule pool_frame_set_size[OF d(7)])
  have ep: "range_end hmp p = unat p + unat sz" by (simp add: range_end_def hmp_def)
  define lf where "lf = (if xs = [] then NULL else last xs)"
  have fl: "find_left_neighbour hmp ext p = Some lf"
    unfolding lf_def by (rule find_left_ok[OF tp d(4-6)])
  have nx: "NULL \<notin> set xs" using trees_okD(3)[OF tp] by auto
  show ?thesis
  proof (cases "xs \<noteq> [] \<and> range_end hm (last xs) = unat p")
    case False
    have "\<not> (lf \<noteq> NULL \<and> ranges_mergeable hmp lf p)"
    proof
      assume c: "lf \<noteq> NULL \<and> ranges_mergeable hmp lf p"
      then have x: "xs \<noteq> []" "last xs \<in> set (xs @ ys)" by (auto simp: lf_def split: if_splits)
      then have "range_end hmp (last xs) \<le> unat p" using a re by auto
      then show False using c x False re mergeable_iff[of hmp "last xs" p p] by (simp add: lf_def)
    qed
    then have "release_merge_left (hmp, ext) p lf = Some ((hmp, ext), p, False, if ys = [] then NULL else hd ys)"
      using find_right_ok[OF tp d(4-6)] unfolding release_merge_left_def by (simp only: fst_conv snd_conv if_False Option.bind.bind_lunit)
    moreover have "merged_left hm ext p sz xs ys hmp ext p False xs"
    proof -
      have "range_end hm r < unat p" if r: "r \<in> set xs" for r
      proof -
        have le: "range_end hm r \<le> unat p" using a r by blast
        have srt: "sorted_wrt (\<lambda>r s. range_end hm r < unat s) xs"
          using d(2) by (auto simp: ranges_ok_def sorted_wrt_append)
        show ?thesis
        proof (cases "r = last xs")
          case True
          then show ?thesis using False le r by (cases "xs = []") auto
        next
          case ne: False
          have "xs = butlast xs @ [last xs]" using r by (cases xs rule: rev_cases) auto
          then have "r \<in> set (butlast xs)" using r ne
            by (metis Un_iff empty_iff empty_set insert_iff list.simps(15) set_append)
          then have "range_end hm r < unat (last xs)"
            using srt \<open>xs = butlast xs @ [last xs]\<close> by (metis list.set_intros(1) sorted_wrt_append)
          moreover have "last xs < p" using d(5) r by (cases xs rule: rev_cases) auto
          ultimately show ?thesis by (simp add: word_less_nat_alt)
        qed
      qed
      then show ?thesis using mp ss(2) ep ip fp
        unfolding merged_left_def by (auto simp: hmp_def intro!: exI[of _ ss])
    qed
    moreover have "lf = NULL \<longleftrightarrow> xs = []" using nx by (cases xs rule: rev_cases) (auto simp: lf_def)
    ultimately show ?thesis using fl by blast
  next
    case True
    obtain us q where us: "xs = us @ [q]" using True by (cases xs rule: rev_cases) auto
    have q: "lf = q" "range_end hm q = unat p" "q \<noteq> p" "q \<noteq> NULL" "q \<in> set (xs @ ys)"
      using True us d(3) nx by (auto simp: lf_def)
    have mg: "ranges_mergeable hmp q p" using mergeable_iff[of hmp q p p] re[OF q(5)] q(2) by simp
    obtain h1 e1 ss1 where s1: "size_delete (hmp, ext) q = Some (h1, e1)" "mid_ok h1 e1 (xs @ ys) ss1"
      "set ss1 = set ss - {q + OFF_size_node}" "mid_step (hmp, ext) (h1, e1)"
      using mid_size_delete[OF mp, of q] q(5) unfolding ss(2) by blast
    note st = s1(4)[unfolded mid_step_def fst_conv snd_conv]
    let ?k = "range_size h1 q + range_size h1 p"
    let ?h = "set_range_size h1 q ?k"
    have k: "range_size h1 q = range_size hm q" "range_size h1 p = sz" using st q(3) by (simp_all add: hmp_def)
    have iq: "in_extent ext (unat q) (unat (range_size hm q))" using ranges_okD(1)[OF d(2) q(5)] .
    have jq: "in_extent ext (unat q) (unat (range_size hm q) + unat sz)"
      using pages_in_join[OF iq[unfolded in_extent_def]] ip q(2) by (simp add: in_extent_def range_end_def)
    have "unat (range_size hm q) + unat sz < 2 ^ 64" using in_extentD(10)[OF d(1) jq] by linarith
    from unat_plus_small[OF this] have uk: "unat ?k = unat (range_size hm q) + unat sz" unfolding k by simp
    have m2: "mid_ok ?h e1 (xs @ ys) ss1" by (rule mid_set_size[OF s1(2)]) (simp add: s1(3))
    have t2: "trees_ok ?h e1 (us @ q # ys) ss1" using m2 by (simp add: mid_ok_def us)
    have "release_merge_left (hmp, ext) p lf = Some ((?h, e1), q, True, if ys = [] then NULL else hd ys)"
      using s1(1) mg q(1,4) find_next_ok[OF t2] by (simp add: release_merge_left_def Let_def)
    moreover have "merged_left hm ext p sz xs ys ?h e1 q True us"
    proof -
      have "set ss1 = (\<lambda>r. r + OFF_size_node) ` (set us \<union> set ys)"
      proof -
        have "distinct (xs @ ys)" by (rule trees_okD(1)[OF tp])
        then show ?thesis unfolding s1(3) ss(2) by (auto simp: us)
      qed
      moreover have "range_end ?h q = unat p + unat sz"
        using uk q(2) by (simp add: range_end_def)
      moreover have "\<forall>r\<in>set us. range_end hm r < unat q"
        using d(2) by (auto simp: ranges_ok_def sorted_wrt_append us)
      moreover have "{unat q..<unat p + unat sz} = {unat p..<unat p + unat sz} \<union> range_span hm q"
        using q(2) by (auto simp: range_span_def range_end_def)
      moreover have "pool_frame (hm, ext) (?h, e1)"
      proof -
        have iq1: "inside e1 q" using s1(2) q(5) by (simp add: mid_ok_def)
        have "pool_frame (hmp, ext) (h1, e1)" using st by blast
        from pool_frame_trans[OF fp pool_frame_trans[OF this pool_frame_set_size[OF iq1, of h1 ?k]]]
        show ?thesis .
      qed
      ultimately show ?thesis using m2 us jq uk st
        unfolding merged_left_def by (auto simp: hmp_def intro!: exI[of _ ss1])
    qed
    moreover have "lf = NULL \<longleftrightarrow> xs = []" using q(1,4) us by simp
    ultimately show ?thesis using fl by blast
  qed
qed

lemma frame_in_extent:
  "pool_frame (hm, ext) (hm', ext') \<Longrightarrow> in_extent ext' = in_extent ext"
  by (simp add: pool_frame_def in_extent_def)

lemma release_finish:
  assumes mid: "mid_ok h e (us @ q # vs) ss" "set ss = (\<lambda>r. r + OFF_size_node) ` (set us \<union> set vs)"
    and iq: "in_extent e (unat q) (unat (range_size h q))"
    and same: "\<And>r. r \<in> set us \<union> set vs \<Longrightarrow> range_size h r = range_size hm r"
    and us: "\<forall>r\<in>set us. range_end hm r < unat q" and vs: "\<forall>s\<in>set vs. range_end h q < unat s"
    and rg: "ranges_ok hm e (us @ vs)"
  shows "\<exists>hm' ext'. size_insert (h, e) q = Some (hm', ext') \<and> pool_ok hm' ext' (us @ q # vs) \<and>
    pool_free hm' (us @ q # vs) = pool_free hm (us @ vs) \<union> {unat q..<range_end h q} \<and>
    mid_step (h, e) (hm', ext')"
proof -
  have re: "range_end h r = range_end hm r" if "r \<in> set us \<union> set vs" for r
    using same[OF that] by (simp add: range_end_def)
  have uv: "sorted_wrt (\<lambda>r s. range_end hm r < unat s) us" "sorted_wrt (\<lambda>r s. range_end hm r < unat s) vs"
    "\<forall>r\<in>set us. \<forall>s\<in>set vs. range_end hm r < unat s"
    using rg by (auto simp: ranges_ok_def sorted_wrt_append)
  have uv': "sorted_wrt (\<lambda>r s. range_end h r < unat s) us" "sorted_wrt (\<lambda>r s. range_end h r < unat s) vs"
    using sorted_wrt_mono_rel[OF _ uv(1), of "\<lambda>r s. range_end h r < unat s"]
      sorted_wrt_mono_rel[OF _ uv(2), of "\<lambda>r s. range_end h r < unat s"] re by auto
  have inr: "in_extent e (unat r) (unat (range_size h r))" if "r \<in> set (us @ q # vs)" for r
    using iq same[of r] ranges_okD(1)[OF rg, of r] that by auto
  have rg': "ranges_ok h e (us @ q # vs)"
    unfolding ranges_ok_def using inr uv' us vs uv(3) re by (auto simp: sorted_wrt_append)
  have "set us \<union> set vs = set (us @ q # vs) - {q}"
    using trees_okD(1) mid(1) unfolding mid_ok_def by fastforce
  then obtain hm' ext' where c: "size_insert (h, e) q = Some (hm', ext')" "pool_ok hm' ext' (us @ q # vs)"
    "mid_step (h, e) (hm', ext')"
    using mid_close[OF mid(1) rg', of q] mid(2) by auto
  have hs: "range_size hm' = range_size h" using c(3) by (simp add: mid_step_def)
  have sp: "range_span hm' r = range_span hm r" if "r \<in> set us \<union> set vs" for r
    using same[OF that] by (simp add: range_span_def range_end_def hs)
  have "pool_free hm' (us @ q # vs) = pool_free hm (us @ vs) \<union> {unat q..<range_end h q}"
    using sp by (auto simp: pool_free_def range_span_def[of hm' q] range_end_def[of hm' q] hs range_end_def[of h q])
  with c show ?thesis by blast
qed

lemma merge_right_ok:
  assumes pre: "release_pre hm ext p sz xs ys" and ml: "merged_left hm ext p sz xs ys h e q linked us"
    and lft: "lft = NULL \<longleftrightarrow> xs = []"
  shows "\<exists>h' e' vs ss. release_merge_right (h, e) q lft linked (if ys = [] then NULL else hd ys) = Some (h', e') \<and>
    mid_ok h' e' (us @ q # vs) ss \<and> set ss = (\<lambda>r. r + OFF_size_node) ` (set us \<union> set vs) \<and>
    set vs \<subseteq> set ys \<and> sorted_wrt (\<lambda>r s. range_end hm r < unat s) vs \<and>
    in_extent e' (unat q) (unat (range_size h' q)) \<and>
    (\<forall>r\<in>set us \<union> set vs. range_size h' r = range_size hm r) \<and> (\<forall>s\<in>set vs. range_end h' q < unat s) \<and>
    {unat q..<range_end h' q} \<union> pool_free hm vs = {unat q..<unat p + unat sz} \<union> pool_free hm ys \<and>
    pool_frame (hm, ext) (h', e') \<and> ext_map e' = ext_map ext"
proof -
  note d = release_preD[OF pre]
  note a = pre[unfolded release_pre_def]
  note l = ml[unfolded merged_left_def]
  obtain ss where ss: "mid_ok h e (if linked then us @ q # ys else us @ ys) ss"
    "set ss = (\<lambda>r. r + OFF_size_node) ` (set us \<union> set ys)" using l by blast
  have xs: "if linked then xs = us @ [q] else q = p \<and> us = xs" using l by blast
  have eq: "range_end h q = unat p + unat sz" and iq: "in_extent ext (unat q) (unat (range_size h q))"
    and fr: "pool_frame (hm, ext) (h, e)" and mp: "ext_map e = ext_map ext"
    using l by blast+
  have ie: "in_extent e = in_extent ext" by (rule frame_in_extent[OF fr])
  have dxy: "distinct (xs @ ys)" using d(8) trees_okD(1) unfolding mid_ok_def by blast
  have usys: "set us \<subseteq> set xs" "p \<notin> set us \<union> set ys" "q \<notin> set us \<union> set ys"
    using xs d(3) dxy by (auto split: if_splits)
  have same: "range_size h r = range_size hm r" if "r \<in> set us \<union> set ys" for r
  proof -
    have "r \<noteq> p" "r \<noteq> q" using that usys by auto
    then show ?thesis using l by blast
  qed
  have sy: "sorted_wrt (\<lambda>r s. range_end hm r < unat s) ys"
    using d(2) by (simp add: ranges_ok_def sorted_wrt_append)
  have ee: "extent_ok e" using ss(1) by (simp add: mid_ok_def)
  have iy: "in_extent ext (unat r) (unat (range_size hm r))" if "r \<in> set ys" for r
    using ranges_okD(1)[OF d(2), of r] that by simp
  show ?thesis
  proof (cases "ys \<noteq> [] \<and> unat (hd ys) = unat p + unat sz")
    case True
    then obtain R vs where ys: "ys = R # vs" and R: "unat R = range_end h q" using eq by (cases ys) auto
    have Rn: "R \<noteq> NULL" "R \<noteq> q" "R \<noteq> p" using in_extentD(1)[OF d(1) iy] usys ys by auto
    have mg: "ranges_mergeable h q R" using mergeable_iff[of h q R R] R by simp
    obtain h1 e1 ss1 where s1: "size_delete (h, e) R = Some (h1, e1)"
      "mid_ok h1 e1 (if linked then us @ q # ys else us @ ys) ss1"
      "set ss1 = set ss - {R + OFF_size_node}" "mid_step (h, e) (h1, e1)"
      using mid_size_delete[OF ss(1), of R] unfolding ss(2) ys by auto
    note st1 = s1(4)[unfolded mid_step_def fst_conv snd_conv]
    have ie1: "in_extent e1 = in_extent ext" using frame_in_extent st1 ie by metis
    define k where "k = range_size h1 q + range_size h1 R"
    let ?h = "set_range_size h1 q k"
    have kk: "range_size h1 q = range_size h q" "range_size h1 R = range_size hm R"
      using st1 same[of R] ys by auto
    have jq: "in_extent ext (unat q) (unat (range_size h q) + unat (range_size hm R))"
      using pages_in_join[OF iq[unfolded in_extent_def]] iy[of R] R ys by (simp add: in_extent_def range_end_def)
    have "unat (range_size h q) + unat (range_size hm R) < 2 ^ 64" using in_extentD(10)[OF d(1) jq] by linarith
    from unat_plus_small[OF this] have uk: "unat k = unat (range_size h q) + unat (range_size hm R)"
      unfolding k_def kk by simp
    have sx: "set ss1 = (\<lambda>r. r + OFF_size_node) ` (set us \<union> set vs)"
      unfolding s1(3) ss(2) ys using dxy usys ys by auto
    have m2: "mid_ok ?h e1 (if linked then us @ q # ys else us @ ys) ss1"
      by (rule mid_set_size[OF s1(2)]) (use usys sx ys in auto)
    have i1: "inside e1 q" using in_extent_inside(1)[of e1 q] iq ie1 s1(2) by (simp add: mid_ok_def)
    have f2: "pool_frame (hm, ext) (?h, e1)"
      using pool_frame_trans[OF fr] st1 pool_frame_trans[OF _ pool_frame_set_size[OF i1, of h1 k]] by blast
    have "\<exists>h' e'. release_merge_right (h, e) q lft linked R = Some (h', e') \<and> mid_ok h' e' (us @ q # vs) ss1 \<and>
      mid_step (?h, e1) (h', e')"
    proof (cases linked)
      case True
      then have "mid_ok ?h e1 ((us @ [q]) @ R # vs) ss1" using m2 ys by simp
      from mid_addr_delete[OF this] show ?thesis
        using True s1(1) Rn mg by (simp add: release_merge_right_def Let_def k_def[symmetric])
    next
      case False
      then have q: "q = p" "us = xs" using xs by auto
      have "mid_ok ?h e1 (us @ R # vs) ss1" using m2 ys False by simp
      moreover have "\<forall>z\<in>set us. z < q" "\<forall>z\<in>set vs. q < z" using d(5,6) q ys by auto
      moreover have "q \<noteq> NULL" "q \<notin> anchors e1" using in_extentD(1,3)[of e1 q] iq ie1 s1(2) by (auto simp: mid_ok_def)
      moreover have "q \<notin> set ss1"
      proof
        assume "q \<in> set ss1"
        then obtain r where "q = r + OFF_size_node" "r \<in> set (xs @ ys)" using sx usys(1) ys by auto
        then show False using size_node_not_addr[OF d(1) ranges_okD(1)[OF d(2)], of r q] iq by metis
      qed
      moreover have "q \<notin> set (us @ R # vs)" using usys ys by auto
      ultimately obtain h' e' where "(case avl_replace (nodes ?h, addr_tree e1) compare_range_by_addr
          (R + OFF_addr_node) (q + OFF_addr_node) of None \<Rightarrow> None
         | Some (m, t) \<Rightarrow> Some (?h\<lparr>nodes := m\<rparr>, e1\<lparr>addr_tree := t\<rparr>)) = Some (h', e')"
         "mid_ok h' e' (us @ q # vs) ss1" "mid_step (?h, e1) (h', e')"
        using mid_addr_replace[of ?h e1 us R vs ss1 q] i1 by blast
      moreover have "release_merge_right (h, e) q lft linked R =
        (case avl_replace (nodes ?h, addr_tree e1) compare_range_by_addr
          (R + OFF_addr_node) (q + OFF_addr_node) of None \<Rightarrow> None
         | Some (m, t) \<Rightarrow> Some (?h\<lparr>nodes := m\<rparr>, e1\<lparr>addr_tree := t\<rparr>))"
        using False s1(1) Rn mg
        by (cases "avl_replace (nodes h1, addr_tree e1) compare_range_by_addr R q")
          (simp_all add: release_merge_right_def Let_def k_def[symmetric] split_beta)
      ultimately show ?thesis by metis
    qed
    then obtain h' e' where r: "release_merge_right (h, e) q lft linked R = Some (h', e')"
      "mid_ok h' e' (us @ q # vs) ss1" "mid_step (?h, e1) (h', e')" by blast
    note st2 = r(3)[unfolded mid_step_def fst_conv snd_conv]
    have hq: "range_size h' q = k" using st2 by simp
    have f3: "pool_frame (hm, ext) (h', e')" using pool_frame_trans[OF f2] st2 by blast
    have eqh: "range_end h' q = range_end hm R"
      unfolding range_end_def hq uk using R by (simp add: range_end_def)
    have "in_extent e' (unat q) (unat (range_size h' q))"
      unfolding frame_in_extent[OF f3] hq uk by (rule jq)
    moreover have "\<forall>r\<in>set us \<union> set vs. range_size h' r = range_size hm r"
      using st2 st1 same usys ys by auto
    moreover have "\<forall>s\<in>set vs. range_end h' q < unat s" using sy by (simp add: eqh ys)
    moreover have "{unat q..<range_end h' q} \<union> pool_free hm vs = {unat q..<unat p + unat sz} \<union> pool_free hm ys"
    proof -
      have "unat q \<le> unat R" "unat R \<le> range_end hm R" using R by (simp_all add: range_end_def)
      then have "{unat q..<range_end hm R} = {unat q..<unat R} \<union> range_span hm R" by (auto simp: range_span_def)
      then show ?thesis unfolding eqh eq[symmetric] R[symmetric] by (auto simp: pool_free_def ys)
    qed
    moreover have "ext_map e' = ext_map ext" using st1 st2 mp by simp
    moreover have "sorted_wrt (\<lambda>r s. range_end hm r < unat s) vs" "set vs \<subseteq> set ys" using sy ys by auto
    ultimately show ?thesis using r(1,2) sx f3 ys by (intro exI[of _ h'] exI[of _ e'] exI[of _ vs] exI[of _ ss1]) auto
  next
    case False
    define R where "R = (if ys = [] then NULL else hd ys)"
    have nm: "\<not> (R \<noteq> NULL \<and> ranges_mergeable h q R)"
    proof
      assume c: "R \<noteq> NULL \<and> ranges_mergeable h q R"
      then have y: "ys \<noteq> []" "R = hd ys" by (auto simp: R_def)
      then have "unat p + unat sz \<le> unat R" using a by auto
      then show False using c y False mergeable_iff[of h q R R] eq by simp
    qed
    have "\<exists>h' e'. release_merge_right (h, e) q lft linked R = Some (h', e') \<and> mid_ok h' e' (us @ q # ys) ss \<and>
      mid_step (h, e) (h', e')"
    proof (cases linked)
      case True
      then show ?thesis using nm ss(1) unfolding release_merge_right_def
        by (auto simp: mid_step_def simp del: not_not)
    next
      case nl: False
      then have q: "q = p" "us = xs" using xs by auto
      have m: "mid_ok h e (us @ ys) ss" using ss(1) nl by simp
      have n: "q \<noteq> NULL" "q \<notin> anchors e" "inside e q"
        using in_extentD(1,3)[of e q] in_extent_inside(1)[of e q] iq ie ee by auto
      have "q \<notin> set ss"
      proof
        assume "q \<in> set ss"
        then obtain r where "q = r + OFF_size_node" "r \<in> set (xs @ ys)" using ss(2) usys(1) by auto
        then show False using size_node_not_addr[OF d(1) ranges_okD(1)[OF d(2)], of r q] iq by metis
      qed
      then have n2: "q \<notin> set (us @ ys) \<union> set ss \<union> anchors e" using n usys by auto
      have len: "length (us @ ys) + 1 < 2 ^ 32" using length_ranges[OF d(1,2)] q by simp
      have "\<exists>h' e'. release_merge_right (h, e) q lft linked R = Some (h', e') \<and>
        mid_ok h' e' (us @ q # ys) ss \<and> mid_step (h, e) (h', e')"
        using mid_addr_link[OF m _ _ _ _ n(1) n2 n(3) len, of lft] lft d(4-6) nm nl q
        unfolding release_merge_right_def by (simp only: fst_conv snd_conv if_False if_True simp_thms)
      then show ?thesis .
    qed
    then obtain h' e' where r: "release_merge_right (h, e) q lft linked R = Some (h', e')"
      "mid_ok h' e' (us @ q # ys) ss" "mid_step (h, e) (h', e')" by blast
    note st2 = r(3)[unfolded mid_step_def fst_conv snd_conv]
    have f3: "pool_frame (hm, ext) (h', e')" using pool_frame_trans[OF fr] st2 by blast
    have eqh: "range_end h' q = unat p + unat sz" using st2 eq by (simp add: range_end_def)
    have "in_extent e' (unat q) (unat (range_size h' q))"
      unfolding frame_in_extent[OF f3] using st2 iq by simp
    moreover have "\<forall>r\<in>set us \<union> set ys. range_size h' r = range_size hm r" using st2 same by auto
    moreover have "\<forall>s\<in>set ys. range_end h' q < unat s"
    proof (cases ys)
      case (Cons y zs)
      have "unat p + unat sz < unat y" using a False Cons by auto
      moreover have "unat y < unat s" if "s \<in> set zs" for s
        using sy that Cons by (auto simp: range_end_def)
      ultimately show ?thesis unfolding eqh Cons by fastforce
    qed simp
    moreover have "{unat q..<range_end h' q} \<union> pool_free hm ys = {unat q..<unat p + unat sz} \<union> pool_free hm ys"
      unfolding eqh ..
    moreover have "ext_map e' = ext_map ext" using st2 mp by simp
    ultimately show ?thesis using r(1,2) ss(2) f3 sy unfolding R_def[symmetric]
      by (intro exI[of _ h'] exI[of _ e'] exI[of _ ys] exI[of _ ss]) blast
  qed
qed

section \<open>The release\<close>

lemma split_at:
  assumes ok: "pool_ok hm ext rs" and ip: "in_extent ext (unat p) (unat sz)"
    and dj: "{unat p..<unat p + unat sz} \<inter> pool_free hm rs = {}"
  obtains xs ys where "rs = xs @ ys" "release_pre hm ext p sz xs ys"
proof -
  let ?xs = "takeWhile (\<lambda>r. unat r < unat p) rs" and ?ys = "dropWhile (\<lambda>r. unat r < unat p) rs"
  have e: "extent_ok ext" and rg: "ranges_ok hm ext rs" using ok by (auto simp: pool_ok_def)
  have s0: "0 < unat sz" using in_extentD(8)[OF e ip] by simp
  have sp: "unat p \<notin> range_span hm r" "{unat p..<unat p + unat sz} \<inter> range_span hm r = {}" if "r \<in> set rs" for r
  proof -
    show d: "{unat p..<unat p + unat sz} \<inter> range_span hm r = {}" using dj that by (auto simp: pool_free_def)
    have "unat p \<in> {unat p..<unat p + unat sz}" using s0 by simp
    then show "unat p \<notin> range_span hm r" using d by blast
  qed
  have "range_end hm r \<le> unat p" if "r \<in> set ?xs" for r
    using sp(1)[of r] set_takeWhileD[OF that] by (auto simp: range_span_def)
  moreover have "unat p + unat sz \<le> unat r" if r: "r \<in> set ?ys" for r
  proof -
    have rr: "r \<in> set rs" by (rule set_dropWhileD[OF r])
    have "unat p \<le> unat r"
    proof (cases ?ys)
      case Nil
      show ?thesis using r unfolding Nil by simp
    next
      case (Cons z zs)
      have "\<not> unat z < unat p" using hd_dropWhile[of "\<lambda>r. unat r < unat p" rs] Cons by simp
      moreover have "unat z \<le> unat r"
      proof -
        have "sorted_wrt (\<lambda>r s. range_end hm r < unat s) (?xs @ ?ys)" using rg by (simp add: ranges_ok_def)
        then show ?thesis using r unfolding sorted_wrt_append Cons by (auto simp: range_end_def)
      qed
      ultimately show ?thesis by simp
    qed
    moreover have "unat r \<in> range_span hm r"
      using ranges_okD(3)[OF rg rr] by (simp add: range_span_def range_end_def)
    ultimately have "unat r \<notin> {unat p..<unat p + unat sz}" using sp(2)[OF rr] by blast
    then show ?thesis using \<open>unat p \<le> unat r\<close> by simp
  qed
  ultimately have "release_pre hm ext p sz ?xs ?ys"
    using ok ip unfolding release_pre_def takeWhile_dropWhile_id by blast
  then show thesis using that[of ?xs ?ys] by simp
qed

lemma pool_free_append: "pool_free hm (xs @ ys) = pool_free hm xs \<union> pool_free hm ys"
  by (auto simp: pool_free_def)

lemma release_page_range_ok:
  assumes ok: "pool_ok hm ext rs" and ip: "in_extent ext (unat p) (unat sz)"
    and dj: "{unat p..<unat p + unat sz} \<inter> pool_free hm rs = {}"
  shows "\<exists>hm' ext' rs'. release_page_range opt (hm, ext) p sz = Some (hm', ext') \<and> pool_ok hm' ext' rs' \<and>
    pool_free hm' rs' = pool_free hm rs \<union> {unat p..<unat p + unat sz} \<and>
    pool_frame (hm, ext) (hm', ext') \<and>
    ext_map ext' = mark_pages opt (ext_map ext) (unat (addr_to_pagenr ext p))
      (ucast (drop_bit EVL_HEAP_PAGE_SHIFT sz)) page_free"
proof -
  obtain xs ys where rs: "rs = xs @ ys" and pre: "release_pre hm ext p sz xs ys"
    by (rule split_at[OF ok ip dj])
  let ?hmp = "set_range_size hm p sz"
  obtain lft h e q linked us where l: "find_left_neighbour ?hmp ext p = Some lft" "lft = NULL \<longleftrightarrow> xs = []"
    "release_merge_left (?hmp, ext) p lft = Some ((h, e), q, linked, if ys = [] then NULL else hd ys)"
    "merged_left hm ext p sz xs ys h e q linked us"
    using merge_left_ok[OF pre] by blast
  note ml = l(4)[unfolded merged_left_def]
  obtain h1 e1 vs ss where r: "release_merge_right (h, e) q lft linked (if ys = [] then NULL else hd ys) = Some (h1, e1)"
    "mid_ok h1 e1 (us @ q # vs) ss" "set ss = (\<lambda>r. r + OFF_size_node) ` (set us \<union> set vs)"
    "set vs \<subseteq> set ys" "sorted_wrt (\<lambda>r s. range_end hm r < unat s) vs"
    "in_extent e1 (unat q) (unat (range_size h1 q))"
    "\<forall>r\<in>set us \<union> set vs. range_size h1 r = range_size hm r" "\<forall>s\<in>set vs. range_end h1 q < unat s"
    "{unat q..<range_end h1 q} \<union> pool_free hm vs = {unat q..<unat p + unat sz} \<union> pool_free hm ys"
    "pool_frame (hm, ext) (h1, e1)" "ext_map e1 = ext_map ext"
    using merge_right_ok[OF pre l(4,2)] by metis
  have xs: "if linked then xs = us @ [q] else q = p \<and> us = xs" using ml by blast
  have rg: "ranges_ok hm e1 (us @ vs)"
  proof -
    have "ranges_ok hm ext (xs @ ys)" using ok rs by (simp add: pool_ok_def)
    moreover have "set us \<subseteq> set xs" "sorted_wrt (\<lambda>r s. range_end hm r < unat s) us"
      using calculation xs by (auto simp: ranges_ok_def sorted_wrt_append split: if_splits)
    ultimately show ?thesis using r(4,5) unfolding ranges_ok_def frame_in_extent[OF r(10)]
      by (simp add: sorted_wrt_append) (blast dest: subsetD)
  qed
  have ul: "\<forall>r\<in>set us. range_end hm r < unat q" using ml by blast
  obtain hm' ext' where f: "size_insert (h1, e1) q = Some (hm', ext')" "pool_ok hm' ext' (us @ q # vs)"
    "pool_free hm' (us @ q # vs) = pool_free hm (us @ vs) \<union> {unat q..<range_end h1 q}"
    "mid_step (h1, e1) (hm', ext')"
    using release_finish[OF r(2,3,6) _ ul r(8) rg] r(7) by blast
  note st = f(4)[unfolded mid_step_def fst_conv snd_conv]
  have fr: "pool_frame (hm, ext) (hm', ext')" using pool_frame_trans[OF r(10)] st by blast
  have pn: "addr_to_pagenr ext' p = addr_to_pagenr ext p"
    using fr by (simp add: addr_to_pagenr_def pool_frame_def)
  let ?e = "ext'\<lparr>ext_map := mark_pages opt (ext_map ext') (unat (addr_to_pagenr ext' p))
      (ucast (drop_bit EVL_HEAP_PAGE_SHIFT sz)) page_free\<rparr>"
  have "release_page_range opt (hm, ext) p sz = Some (hm', ?e)"
    using l(1,3) r(1) f(1) by (simp add: release_page_range_def Let_def)
  moreover have "pool_free hm' (us @ q # vs) = pool_free hm rs \<union> {unat p..<unat p + unat sz}"
  proof -
    have "{unat q..<unat p + unat sz} = {unat p..<unat p + unat sz} \<union> (if linked then range_span hm q else {})"
      using ml by blast
    then have "pool_free hm us \<union> {unat q..<unat p + unat sz} = pool_free hm xs \<union> {unat p..<unat p + unat sz}"
      using xs by (auto simp: pool_free_def)
    then show ?thesis using f(3) r(9) unfolding rs pool_free_append by blast
  qed
  moreover have "pool_frame (hm, ext) (hm', ?e)" using fr by (simp add: pool_frame_def)
  moreover have "ext_map ?e = mark_pages opt (ext_map ext) (unat (addr_to_pagenr ext p))
      (ucast (drop_bit EVL_HEAP_PAGE_SHIFT sz)) page_free"
    using st r(11) pn by simp
  moreover have "pool_ok hm' ?e (us @ q # vs)" using f(2) by simp
  ultimately show ?thesis by blast
qed

end
