(* ===== verification/Heap_Extent.thy ===== *)
theory Heap_Extent
  imports Heap_Release
begin

text \<open>
  Set-up of an extent: the overhead that \<^verbatim>\<open>add_extent\<close> computes back from a raw size is the one
  \<^verbatim>\<open>EVL_HEAP_RAW_SIZE\<close> added, and a new extent is one free range over all its pages.
\<close>

section \<open>Sizes\<close>

lemma align_to_u32_eq:
  assumes "unat sz + 15 < 2 ^ 32"
  shows "unat (align_to_u32 sz EVL_HEAP_MIN_ALIGN) = (unat sz + 15) div 16 * 16"
proof -
  have m: "(ucast (NOT (EVL_HEAP_MIN_ALIGN - 1) :: u32) :: u64) = mask 32 AND NOT (mask 4)"
    by (simp add: EVL_HEAP_MIN_ALIGN_def EVL_HEAP_MIN_LOG2_def mask_eq_exp_minus_1)
  have a: "sz + ucast EVL_HEAP_MIN_ALIGN - 1 = sz + 15"
    by (simp add: EVL_HEAP_MIN_ALIGN_def EVL_HEAP_MIN_LOG2_def)
  have u: "unat (sz + 15) = unat sz + 15" using unat_plus_small[of sz 15] assms by simp
  have e: "(sz + 15) AND mask 32 = sz + 15"
    using assms u by (intro word_unat_eq_iff[THEN iffD2])
      (simp add: unsigned_take_bit_eq take_bit_nat_eq_self flip: take_bit_eq_mask)
  then have "align_to_u32 sz EVL_HEAP_MIN_ALIGN = (sz + 15) AND NOT (mask 4)"
    unfolding align_to_u32_def by (simp only: m a and.assoc[symmetric] e)
  then show ?thesis using unat_and_not_mask[of "sz + 15" 4] u by simp
qed

text \<open>
  The overhead computed back from the raw size is the one \<^verbatim>\<open>EVL_HEAP_RAW_SIZE\<close> added, for every page
  count of an extent.
\<close>

lemma overhead_eq:
  assumes "unat sz < 2 ^ 37"
  shows "unat (extent_overhead sz) = ((unat sz * 12 + 81920) div 524 + 15) div 16 * 16"
proof -
  have "unat (sz * EVL_HEAP_PGMAP_BYTES) = unat sz * 12"
    using assms by (simp add: EVL_HEAP_PGMAP_BYTES_def unat_word_ariths)
  moreover have c: "sizeof_extent * EVL_HEAP_PAGE_SIZE = 81920"
    "EVL_HEAP_PAGE_SIZE + EVL_HEAP_PGMAP_BYTES = 524"
    by (simp_all add: sizeof_extent_def EVL_HEAP_PAGE_SIZE_def EVL_HEAP_PAGE_SHIFT_def EVL_HEAP_PGMAP_BYTES_def)
  ultimately have "unat (sz * EVL_HEAP_PGMAP_BYTES + 81920) = unat sz * 12 + 81920"
    using unat_plus_small[of "sz * EVL_HEAP_PGMAP_BYTES" 81920] assms by simp
  then have d: "unat ((sz * EVL_HEAP_PGMAP_BYTES + 81920) div 524) = (unat sz * 12 + 81920) div 524"
    by (simp add: unat_div)
  have "(unat sz * 12 + 81920) div 524 + 15 < 2 ^ 32" using assms by (simp add: less_mult_imp_div_less)
  then show ?thesis unfolding extent_overhead_def c using align_to_u32_eq d by simp
qed

lemma raw_size_eq:
  assumes "unat n = 512 * k" "k \<le> 2 ^ 23"
  shows "unat (EVL_HEAP_RAW_SIZE n) = 512 * k + (160 + 12 * k + 15) div 16 * 16"
proof -
  have ps: "EVL_HEAP_PAGE_SIZE = 512" "EVL_HEAP_PAGE_SIZE - 1 = mask 9"
    by (simp_all add: EVL_HEAP_PAGE_SIZE_def EVL_HEAP_PAGE_SHIFT_def mask_eq_exp_minus_1)
  have n5: "n + EVL_HEAP_PAGE_SIZE - 1 = n + 511"
    by (simp add: EVL_HEAP_PAGE_SIZE_def EVL_HEAP_PAGE_SHIFT_def)
  have "unat (n + 511) = 512 * k + 511"
    using unat_plus_small[of n 511] assms by simp
  then have al: "unat (align_to n EVL_HEAP_PAGE_SIZE) = 512 * k"
    unfolding align_to_def ps(2) n5 using unat_and_not_mask[of "n + 511" 9] by simp
  have nn: "align_to n EVL_HEAP_PAGE_SIZE = n" using al assms(1) by (simp add: word_unat_eq_iff)
  have dk: "unat (drop_bit EVL_HEAP_PAGE_SHIFT n) = k"
    using assms(1) by (simp add: EVL_HEAP_PAGE_SHIFT_def drop_bit_eq_div unat_div)
  have "unat (drop_bit EVL_HEAP_PAGE_SHIFT n * 12) = 12 * k"
    using assms(2) by (simp add: unat_word_ariths dk)
  then have m: "unat (sizeof_extent + EVL_HEAP_MAP_SIZE (drop_bit EVL_HEAP_PAGE_SHIFT n)) = 160 + 12 * k"
    using unat_plus_small[of "drop_bit EVL_HEAP_PAGE_SHIFT n * 12" 160] assms(2)
    by (simp add: sizeof_extent_def EVL_HEAP_MAP_SIZE_def EVL_HEAP_PGMAP_BYTES_def add.commute)
  let ?a = "align_to_u32 (sizeof_extent + EVL_HEAP_MAP_SIZE (drop_bit EVL_HEAP_PAGE_SHIFT n)) EVL_HEAP_MIN_ALIGN"
  have a: "unat ?a = (160 + 12 * k + 15) div 16 * 16"
    using align_to_u32_eq[of "sizeof_extent + EVL_HEAP_MAP_SIZE (drop_bit EVL_HEAP_PAGE_SHIFT n)"] m assms(2) by simp
  have "unat n + unat ?a < 2 ^ 64"
    unfolding a assms(1) using assms(2) by (simp add: trans_le_add1)
  from unat_plus_small[OF this] have "unat (n + ?a) = unat n + unat ?a" by (simp only: of_nat_unat ucast_id)
  then show ?thesis unfolding EVL_HEAP_RAW_SIZE_def Let_def nn by (simp only: a assms(1))
qed

lemma round16: "(z :: nat) \<le> (z + 15) div 16 * 16 \<and> (z + 15) div 16 * 16 \<le> z + 15"
  by presburger

lemma raw_size_overhead:
  assumes "unat n = 512 * k" "k \<le> 2 ^ 23"
  shows "EVL_HEAP_RAW_SIZE n - extent_overhead (EVL_HEAP_RAW_SIZE n) = n"
proof -
  let ?a = "(160 + 12 * k + 15) div 16 * 16 :: nat"
  note r = raw_size_eq[OF assms]
  have a: "160 + 12 * k \<le> ?a" "?a \<le> 160 + 12 * k + 15" using round16[of "160 + 12 * k"] by auto
  have "unat (EVL_HEAP_RAW_SIZE n) < 2 ^ 37" using r a assms(2) by simp
  note o = overhead_eq[OF this, unfolded r]
  have "(512 * k + ?a) * 12 + 81920 = 524 * (160 + 12 * k) + 12 * (?a - (160 + 12 * k))"
    using a by simp
  moreover have "12 * (?a - (160 + 12 * k)) < 524" using a by simp
  ultimately have "((512 * k + ?a) * 12 + 81920) div 524 = 160 + 12 * k" by simp
  then have "unat (extent_overhead (EVL_HEAP_RAW_SIZE n)) = ?a" using o by simp
  then have "unat (EVL_HEAP_RAW_SIZE n - extent_overhead (EVL_HEAP_RAW_SIZE n)) = 512 * k"
    using r by (subst unat_diff_small) (simp_all add: word_le_nat_alt)
  then show ?thesis using assms(1) by (simp add: word_unat_eq_iff)
qed

section \<open>A new extent\<close>

lemma pool_ok_empty:
  assumes "extent_ok ext" "anchor (addr_tree ext) \<noteq> anchor (size_tree ext)"
    and "avl_rep (nodes hm) (addr_tree ext) Leaf" "avl_rep (nodes hm) (size_tree ext) Leaf"
  shows "pool_ok hm ext []"
  unfolding pool_ok_def
  using assms by (auto simp: ranges_ok_def trees_ok_def sizes_ok_def intro!: exI[of _ "[]"] exI[of _ Leaf])

lemma avl_rep_Leaf_cong: "m' (anchor a) = m (anchor a) \<Longrightarrow> avl_rep m a Leaf \<Longrightarrow> avl_rep m' a Leaf"
  by (simp add: avl_rep_def avlh_link_def)

definition extent_args_ok :: "addr \<Rightarrow> u64 \<Rightarrow> bool" where
  "extent_args_ok mem sz \<longleftrightarrow> 0 < unat mem \<and> unat mem + unat sz < 2 ^ 64 \<and> unat sz < 2 ^ 37 \<and>
     512 dvd unat (sz - extent_overhead sz) \<and> 512 \<le> unat (sz - extent_overhead sz) \<and>
     unat (sz - extent_overhead sz) \<le> unat EVL_HEAP_MAX_EXTSZ"

lemma page_mask_iff: "(w AND NOT EVL_HEAP_PAGE_MASK = 0) = (512 dvd unat w)"
proof -
  have "NOT EVL_HEAP_PAGE_MASK = mask 9"
    by (simp add: EVL_HEAP_PAGE_MASK_def EVL_HEAP_PAGE_SIZE_def EVL_HEAP_PAGE_SHIFT_def mask_eq_exp_minus_1)
  then have "w AND NOT EVL_HEAP_PAGE_MASK = take_bit 9 w" by (simp add: take_bit_eq_mask)
  moreover have "unat (take_bit 9 w) = unat w mod 512"
    by (simp only: unsigned_take_bit_eq take_bit_eq_mod[of 9 "unat w"]) simp
  ultimately show ?thesis by (metis mod_0_imp_dvd dvd_imp_mod_0 unat_eq_0 unat_0)
qed

lemma max_extsz: "unat EVL_HEAP_MAX_EXTSZ = 4294966784"
  by (simp add: EVL_HEAP_MAX_EXTSZ_def EVL_HEAP_PAGE_SIZE_def EVL_HEAP_PAGE_SHIFT_def)

lemma add_extent_ok:
  assumes args: "extent_args_ok mem sz"
  shows "\<exists>hm' ext' rs. add_extent opt hm mem sz =
      Some (Inr ((hm', ext'), uint (sz - extent_overhead sz))) \<and> pool_ok hm' ext' rs \<and>
    pool_free hm' rs = {unat (membase ext')..<unat (memlim ext')} \<and>
    membase ext' = mem + extent_overhead sz \<and> memlim ext' = mem + sz \<and>
    anchors ext' = {mem + OFF_addr_tree, mem + OFF_size_tree}"
proof -
  note a = args[unfolded extent_args_ok_def max_extsz]
  let ?o = "extent_overhead sz" and ?us = "sz - extent_overhead sz"
  have o: "unat ?o = ((unat sz * 12 + 81920) div 524 + 15) div 16 * 16" using overhead_eq a by blast
  have le: "?o \<le> sz"
  proof (rule ccontr)
    assume "\<not> ?o \<le> sz"
    then have l: "unat sz < unat ?o" by (simp add: word_le_nat_alt)
    then have "unat (?o - sz) = unat ?o - unat sz" by (intro unat_diff_small) (simp add: word_le_nat_alt)
    moreover have "unat ?o < 2 ^ 33" unfolding o using a by (simp add: less_mult_imp_div_less)
    ultimately have "unat (?o - sz) < 2 ^ 33" by linarith
    then have lt: "unat ?us + unat (?o - sz) < 2 ^ 64" using a by simp
    have z: "?us + (?o - sz) = 0" by simp
    have "unat ?us + unat (?o - sz) = 0"
      using unat_plus_small[OF lt] by (simp only: of_nat_unat ucast_id z unat_0)
    then show False using a by simp
  qed
  have us: "unat ?us = unat sz - unat ?o" "unat ?o \<le> unat sz"
    using le by (simp_all add: unat_diff_small word_le_nat_alt)
  have o160: "160 \<le> unat ?o"
  proof -
    have "81920 div 524 \<le> (unat sz * 12 + 81920) div 524" by (intro div_le_mono) simp
    then have "(81920 div 524 + 15) div 16 \<le> ((unat sz * 12 + 81920) div 524 + 15) div 16"
      by (intro div_le_mono) simp
    then show ?thesis unfolding o by simp
  qed
  have mo: "unat (mem + ?o) = unat mem + unat ?o" "unat (mem + sz) = unat mem + unat sz"
    using unat_plus_small[of mem "unat ?o"] unat_plus_small[of mem "unat sz"] a us(2) by simp_all
  have an: "unat (mem + OFF_addr_tree) = unat mem + 32" "unat (mem + OFF_size_tree) = unat mem + 96"
    using unat_plus_small[of mem 32] unat_plus_small[of mem 96] a us(2) o160
    by (simp_all add: OFF_addr_tree_def OFF_size_tree_def)
  obtain m1 t1 where i1: "avl_init (nodes hm, avl_raw (mem + OFF_size_tree)) = (m1, t1)" by force
  obtain m2 t2 where i2: "avl_init (m1, avl_raw (mem + OFF_addr_tree)) = (m2, t2)" by force
  have raw: "anchor (avl_raw x) = x" for x by (simp add: avl_raw_def)
  have an1: "anchor t1 = mem + OFF_size_tree" "anchor t2 = mem + OFF_addr_tree"
    using arg_cong[OF i1, of "\<lambda>s. anchor (snd s)"] arg_cong[OF i2, of "\<lambda>s. anchor (snd s)"]
    by (simp_all only: anchor_avl_init raw snd_conv)
  have ne: "mem + OFF_size_tree \<noteq> mem + OFF_addr_tree" by (simp add: OFF_addr_tree_def OFF_size_tree_def)
  have r2: "avl_rep m2 t2 Leaf" using avl_init_rep[of m1 "avl_raw (mem + OFF_addr_tree)"] i2 by simp
  have "m2 (mem + OFF_size_tree) = m1 (mem + OFF_size_tree)"
    using avl_init_frame[of "mem + OFF_size_tree" "avl_raw (mem + OFF_addr_tree)" m1] ne
    unfolding i2 raw by simp
  moreover have "avl_rep m1 t1 Leaf" using avl_init_rep[of "nodes hm" "avl_raw (mem + OFF_size_tree)"] i1 by simp
  ultimately have r1: "avl_rep m2 t1 Leaf" using avl_rep_Leaf_cong[of m2 t1 m1] an1(1) by simp
  let ?ext = "\<lparr>membase = mem + ?o, memlim = mem + sz, addr_tree = t2, size_tree = t1,
      ext_map = (\<lambda>_. pgentry_zero)\<rparr>"
  let ?hm = "hm\<lparr>nodes := m2\<rparr>"
  have ext: "extent_ok ?ext"
    using a us o160 unfolding extent_ok_def anchors_def by (simp add: mo an an1)
  have p0: "pool_ok ?hm ?ext []" by (rule pool_ok_empty) (use ext ne an1 r1 r2 in simp_all)
  have ip: "in_extent ?ext (unat (membase ?ext)) (unat ?us)"
    using a us by (auto simp: in_extent_def pages_in_def mo)
  obtain hm' ext' rs where r: "release_page_range opt (?hm, ?ext) (membase ?ext) ?us = Some (hm', ext')"
    "pool_ok hm' ext' rs" "pool_free hm' rs = {unat (membase ?ext)..<unat (membase ?ext) + unat ?us}"
    "pool_frame (?hm, ?ext) (hm', ext')"
    using release_page_range_ok[OF p0 ip, of opt] by (auto simp: pool_free_def)
  have ps: "EVL_HEAP_PAGE_SIZE \<le> ?us"
    using a by (simp add: word_le_nat_alt EVL_HEAP_PAGE_SIZE_def EVL_HEAP_PAGE_SHIFT_def)
  have mx: "?us \<le> EVL_HEAP_MAX_EXTSZ" using a max_extsz by (simp add: word_le_nat_alt)
  have "add_extent opt hm mem sz = Some (Inr ((hm', ext'), uint ?us))"
    using a r(1) i1 i2 ps mx page_mask_iff[of ?us]
    by (simp add: add_extent_def Let_def not_less)
  moreover have "unat (memlim ?ext) = unat (membase ?ext) + unat ?us" using us by (simp add: mo)
  ultimately show ?thesis using r(2-4) an1
    by (intro exI[of _ hm'] exI[of _ ext'] exI[of _ rs]) (auto simp: pool_frame_def anchors_def)
qed

end
