(* ===== verification/Heap_Correct.thy ===== *)
theory Heap_Correct
  imports Heap_Extent
begin

text \<open>
  Correctness of the memory allocator, each property with a witness on a small extent: 4352 bytes of
  raw memory at address 65536, that is eight pages of user memory.
\<close>

section \<open>A concrete extent\<close>

definition mem_zero :: heap_mem where
  "mem_zero = \<lparr>nodes = (\<lambda>_. \<lparr>ntype = 0, balance = 0, link = (\<lambda>_. NULL)\<rparr>), range_size = (\<lambda>_. 0)\<rparr>"

lemma args_ex: "extent_args_ok 65536 4352"
proof -
  have "extent_overhead 4352 = 256"
    by (simp add: extent_overhead_def align_to_u32_def EVL_HEAP_PGMAP_BYTES_def sizeof_extent_def
        EVL_HEAP_PAGE_SIZE_def EVL_HEAP_PAGE_SHIFT_def EVL_HEAP_MIN_ALIGN_def EVL_HEAP_MIN_LOG2_def)
  then show ?thesis
    by (simp add: extent_args_ok_def max_extsz)
qed

lemma extent_ex:
  obtains hm ext rs where "add_extent False mem_zero 65536 4352 = Some (Inr ((hm, ext), 4096))"
    "pool_ok hm ext rs" "pool_free hm rs = {65792..<69888}" "membase ext = 65792" "memlim ext = 69888"
proof -
  have o: "extent_overhead 4352 = 256"
    by (simp add: extent_overhead_def align_to_u32_def EVL_HEAP_PGMAP_BYTES_def sizeof_extent_def
        EVL_HEAP_PAGE_SIZE_def EVL_HEAP_PAGE_SHIFT_def EVL_HEAP_MIN_ALIGN_def EVL_HEAP_MIN_LOG2_def)
  show thesis using add_extent_ok[OF args_ex, of False mem_zero] that by (auto simp: o)
qed

text \<open>The same extent with every page in use.\<close>

lemma busy_extent_ex:
  obtains hm ext where "membase ext = 65792" "memlim ext = 69888" "pool_ok hm ext []"
proof -
  obtain m1 t1 where i1: "avl_init (nodes mem_zero, avl_raw 65632) = (m1, t1)" by force
  obtain m2 t2 where i2: "avl_init (m1, avl_raw 65568) = (m2, t2)" by force
  have raw: "anchor (avl_raw x) = x" for x by (simp add: avl_raw_def)
  have an: "anchor t1 = 65632" "anchor t2 = 65568"
    using arg_cong[OF i1, of "\<lambda>s. anchor (snd s)"] arg_cong[OF i2, of "\<lambda>s. anchor (snd s)"]
    by (simp_all only: anchor_avl_init raw snd_conv)
  have "m2 65632 = m1 65632" using avl_init_frame[of 65632 "avl_raw 65568" m1] unfolding i2 raw by simp
  moreover have "avl_rep m1 t1 Leaf" using avl_init_rep[of "nodes mem_zero" "avl_raw 65632"] i1 by simp
  ultimately have "avl_rep m2 t1 Leaf" using avl_rep_Leaf_cong[of m2 t1 m1] an(1) by simp
  moreover have "avl_rep m2 t2 Leaf" using avl_init_rep[of m1 "avl_raw 65568"] i2 by simp
  ultimately have "pool_ok (mem_zero\<lparr>nodes := m2\<rparr>) \<lparr>membase = 65792, memlim = 69888, addr_tree = t2,
      size_tree = t1, ext_map = (\<lambda>_. pgentry_zero)\<rparr> []"
    by (intro pool_ok_empty) (simp_all add: extent_ok_def anchors_def an)
  then show thesis by (rule that[rotated 2]) simp_all
qed

section \<open>The page pool\<close>

text \<open>
  C11. \<^verbatim>\<open>reserve_page_range\<close> ends on every well-formed pool. It returns -1 and changes nothing exactly
  when no free range is large enough; otherwise it returns the number of a page inside the extent,
  the bytes it hands out were free and are no longer free, no other byte changes its state, the
  invariant of the pool is kept and no node outside the extent is written.
\<close>

theorem reserve_page_range_correct:
  assumes "pool_ok hm ext rs" and "512 dvd unat sz" and "0 < unat sz" and "unat sz < 2 ^ 63"
  shows "\<exists>hm' ext' pg rs'. reserve_page_range (hm, ext) sz = Some ((hm', ext'), pg) \<and>
    pool_ok hm' ext' rs' \<and> pool_frame (hm, ext) (hm', ext') \<and> ext_map ext' = ext_map ext \<and>
    (if pg = - 1 then hm' = hm \<and> ext' = ext \<and> rs' = rs \<and> (\<forall>r\<in>set rs. range_size hm r < sz)
     else 0 \<le> sint pg \<and> taken ext pg sz \<subseteq> pool_free hm rs \<and>
       in_extent ext (unat (membase ext) + 512 * unat pg) (unat sz) \<and>
       pool_free hm' rs' = pool_free hm rs - taken ext pg sz)"
  using assms by (rule reserve_page_range_ok)

theorem reserve_page_range_correct_witness:
  "\<exists>hm ext hm' ext' pg. add_extent False mem_zero 65536 4352 = Some (Inr ((hm, ext), 4096)) \<and>
     reserve_page_range (hm, ext) 1024 = Some ((hm', ext'), pg)"
proof -
  obtain hm ext rs where e: "add_extent False mem_zero 65536 4352 = Some (Inr ((hm, ext), 4096))"
    "pool_ok hm ext rs" by (rule extent_ex)
  show ?thesis using e(1) reserve_page_range_correct[OF e(2), of 1024] by auto
qed

text \<open>
  C12. \<^verbatim>\<open>release_page_range\<close> of allocated whole pages ends, makes exactly these pages free again, and
  keeps the invariant of the pool: the freed range is merged with its free neighbours on both sides,
  so that no two free ranges are ever adjacent. With full checking it marks the pages free in the
  page map.
\<close>

theorem release_page_range_correct:
  assumes "pool_ok hm ext rs" and "in_extent ext (unat p) (unat sz)"
    and "{unat p..<unat p + unat sz} \<inter> pool_free hm rs = {}"
  shows "\<exists>hm' ext' rs'. release_page_range opt (hm, ext) p sz = Some (hm', ext') \<and> pool_ok hm' ext' rs' \<and>
    pool_free hm' rs' = pool_free hm rs \<union> {unat p..<unat p + unat sz} \<and>
    pool_frame (hm, ext) (hm', ext') \<and>
    ext_map ext' = mark_pages opt (ext_map ext) (unat (addr_to_pagenr ext p))
      (ucast (drop_bit EVL_HEAP_PAGE_SHIFT sz)) page_free"
  using assms by (rule release_page_range_ok)

theorem release_page_range_correct_witness:
  "\<exists>hm ext hm' ext' rs'. membase ext = 65792 \<and> memlim ext = 69888 \<and>
     release_page_range False (hm, ext) 65792 1024 = Some (hm', ext') \<and>
     pool_ok hm' ext' rs' \<and> pool_free hm' rs' = {65792..<66816}"
proof -
  obtain hm ext where e: "membase ext = 65792" "memlim ext = 69888" "pool_ok hm ext []" by (rule busy_extent_ex)
  have "in_extent ext (unat (65792 :: addr)) (unat (1024 :: u64))"
    by (simp add: in_extent_def pages_in_def e)
  then obtain hm' ext' rs' where "release_page_range False (hm, ext) 65792 1024 = Some (hm', ext')"
    "pool_ok hm' ext' rs'" "pool_free hm' rs' = {65792..<66816}"
    using release_page_range_correct[OF e(3), of 65792 1024 False] by (auto simp: pool_free_def)
  then show ?thesis using e(1,2) by blast
qed

text \<open>
  C22. \<^verbatim>\<open>add_extent\<close> on a raw area whose size leaves whole pages between one page and
  \<^verbatim>\<open>EVL_HEAP_MAX_EXTSZ\<close> after the overhead succeeds, returns the user size, and gives an extent that
  is well formed and entirely free, between the descriptor and the end of the area.
\<close>

theorem add_extent_correct:
  assumes "extent_args_ok mem sz"
  shows "\<exists>hm' ext' rs. add_extent opt hm mem sz =
      Some (Inr ((hm', ext'), uint (sz - extent_overhead sz))) \<and> pool_ok hm' ext' rs \<and>
    pool_free hm' rs = {unat (membase ext')..<unat (memlim ext')} \<and>
    membase ext' = mem + extent_overhead sz \<and> memlim ext' = mem + sz \<and>
    anchors ext' = {mem + OFF_addr_tree, mem + OFF_size_tree}"
  using assms by (rule add_extent_ok)

theorem add_extent_correct_witness:
  "\<exists>hm' ext' rs. add_extent True mem_zero 65536 4352 =
     Some (Inr ((hm', ext'), uint (4352 - extent_overhead 4352 :: u64))) \<and> pool_ok hm' ext' rs"
  using add_extent_correct[OF args_ex, of True mem_zero] by blast

text \<open>
  \<^verbatim>\<open>EVL_HEAP_RAW_SIZE\<close> and \<^verbatim>\<open>add_extent\<close> agree: a raw size computed for \<open>k\<close> pages of user memory
  gives back exactly these pages once \<^verbatim>\<open>add_extent\<close> has subtracted the overhead it computes from the
  raw size alone, for every \<open>k\<close> up to the 4 GiB limit of an extent.
\<close>

theorem raw_size_roundtrip:
  assumes "unat n = 512 * k" and "k \<le> 2 ^ 23"
  shows "EVL_HEAP_RAW_SIZE n - extent_overhead (EVL_HEAP_RAW_SIZE n) = n"
  using assms by (rule raw_size_overhead)

theorem raw_size_roundtrip_witness:
  "EVL_HEAP_RAW_SIZE 4096 - extent_overhead (EVL_HEAP_RAW_SIZE 4096) = 4096"
  by (rule raw_size_roundtrip[of 4096 8]) simp_all

text \<open>
  C23. \<^verbatim>\<open>find_suitable_range\<close> is a best fit: it finds a range exactly when one is large enough, and
  then a smallest one.
\<close>

theorem find_suitable_range_best_fit:
  assumes "pool_ok hm ext rs" and "unat sz < 2 ^ 63"
  shows "\<exists>r. find_suitable_range hm ext sz = Some r \<and>
    (if r = NULL then \<forall>x\<in>set rs. range_size hm x < sz
     else r \<in> set rs \<and> sz \<le> range_size hm r \<and>
       (\<forall>x\<in>set rs. sz \<le> range_size hm x \<longrightarrow> range_size hm r \<le> range_size hm x))"
  using assms by (rule find_suitable_ok)

theorem find_suitable_range_best_fit_witness:
  "\<exists>hm ext rs r. pool_ok hm ext rs \<and> pool_free hm rs = {65792..<69888} \<and>
     find_suitable_range hm ext 512 = Some r"
proof -
  obtain hm ext rs where e: "pool_ok hm ext rs" "pool_free hm rs = {65792..<69888}" by (rule extent_ex)
  show ?thesis using find_suitable_range_best_fit[OF e(1), of 512] e by auto
qed

section \<open>The AVL trees\<close>

text \<open>
  C24. \<^verbatim>\<open>avl_delete\<close> ends on every well-formed tree and removes exactly the given node: the result is a
  well-formed AVL tree with exact links, parents, balances, count, height and ends, its in-order list
  is the old one without the node, and no node outside the tree is written.
\<close>

theorem avl_delete_correct:
  assumes "avl_rep m a t" and "inorder t = xs @ x # ys"
  shows "\<exists>m' a' T. avl_delete (m, a) x = Some (m', a') \<and> avl_rep m' a' T \<and> inorder T = xs @ ys \<and>
    anchor a' = anchor a \<and> only_changes m m' (set_tree t) (anchor a) 1"
  using assms by (rule avl_delete_rep)

text \<open>A tree of three nodes at the addresses 16, 32 and 48, under an anchor at 8.\<close>

definition tree3_mem :: avlmem where
  "tree3_mem = (\<lambda>_. \<lparr>ntype = 0, balance = 0, link = (\<lambda>_. NULL)\<rparr>)
     (8 := \<lparr>ntype = 0, balance = 0, link = (\<lambda>_. NULL)(2 := 32)\<rparr>,
      32 := \<lparr>ntype = 1, balance = 0, link = (\<lambda>_. NULL)(0 := 16, 1 := 8, 2 := 48)\<rparr>,
      16 := \<lparr>ntype = -1, balance = 0, link = (\<lambda>_. NULL)(1 := 32)\<rparr>,
      48 := \<lparr>ntype = 1, balance = 0, link = (\<lambda>_. NULL)(1 := 32)\<rparr>)"

definition tree3 :: avl where
  "tree3 = \<lparr>anchor = 8, end_of = (\<lambda>_. NULL)(0 := 16, 2 := 48), count = 3, height_of = 2\<rparr>"

lemma tree3_rep: "avl_rep tree3_mem tree3 (Node (Node Leaf 16 Leaf) 32 (Node Leaf 48 Leaf))"
  by (simp add: avl_rep_def tree3_mem_def tree3_def avl_ends avlh_link_def avl_end_def avl_type2index_def)

theorem avl_delete_correct_witness:
  "\<exists>m' a' T. avl_delete (tree3_mem, tree3) 32 = Some (m', a') \<and> avl_rep m' a' T \<and> inorder T = [16, 48]"
  using avl_delete_correct[OF tree3_rep, of "[16]" 32 "[48]"] by auto

text \<open>
  \<^verbatim>\<open>avl_insert_back\<close> into the size tree of an extent ends and keeps the tree a well-formed AVL
  tree: the new node goes after every range of the same or a smaller size and before every larger
  one.
\<close>

theorem size_insert_back_correct:
  assumes "avl_rep m a t" and "avl_ordered (\<lambda>n. range_size hm (n - OFF_size_node)) size_keys t"
    and "range_size hm (node - OFF_size_node) \<in> size_keys" and "avl_fresh m a t node"
    and "size t + 1 < 2 ^ 32"
  shows "\<exists>xs ys. inorder t = xs @ ys \<and>
    (\<forall>x\<in>set xs. range_size hm (x - OFF_size_node) \<le> range_size hm (node - OFF_size_node)) \<and>
    (\<forall>y\<in>set ys. range_size hm (node - OFF_size_node) < range_size hm (y - OFF_size_node)) \<and>
    avl_step (avl_insert_back (m, a) (compare_range_by_size hm) node) m a
      (insert node (set_tree t)) (xs @ node # ys)"
  using assms by (rule by_size.insert_back)

theorem size_insert_back_correct_witness:
  "\<exists>xs ys. [16, 32, 48] = xs @ ys \<and>
     avl_step (avl_insert_back (tree3_mem, tree3) (compare_range_by_size mem_zero) 64) tree3_mem tree3
       {64, 16, 32, 48} (xs @ 64 # ys)"
proof -
  have o: "avl_ordered (\<lambda>n. range_size mem_zero (n - OFF_size_node)) size_keys
      (Node (Node Leaf 16 Leaf) 32 (Node Leaf 48 Leaf))"
    by (simp add: avl_ordered_def mem_zero_def size_keys_def)
  have k: "range_size mem_zero (64 - OFF_size_node) \<in> size_keys" by (simp add: mem_zero_def size_keys_def)
  have f: "avl_fresh tree3_mem tree3 (Node (Node Leaf 16 Leaf) 32 (Node Leaf 48 Leaf)) 64"
    by (simp add: avl_fresh_def tree3_def tree3_mem_def)
  have s: "insert 64 (set_tree (Node (Node Leaf 16 Leaf) (32 :: addr) (Node Leaf 48 Leaf))) = {64, 16, 32, 48}"
    by auto
  show ?thesis using size_insert_back_correct[OF tree3_rep o k f] unfolding s by auto
qed

end
