(* ===== verification/Heap_Sizes.thy ===== *)
theory Heap_Sizes
  imports Heap_Extent
begin

text \<open>
  The arithmetic of \<^verbatim>\<open>evl_alloc_block_unlocked\<close>: block sizes, bit searches in the allocation maps, page numbers and addresses.
\<close>

section \<open>Sizes and bits\<close>

lemma bitlen_bounds: "0 < n \<Longrightarrow> 0 < bitlen n \<and> 2 ^ (bitlen n - 1) \<le> n \<and> n < 2 ^ bitlen n"
proof (induction n rule: bitlen.induct)
  case (1 n)
  show ?case
  proof (cases "n div 2 = 0")
    case True
    with 1(2) have "n = 1" by linarith
    then show ?thesis by (simp add: bitlen.simps)
  next
    case False
    with 1 have "0 < bitlen (n div 2)" "2 ^ (bitlen (n div 2) - 1) \<le> n div 2" "n div 2 < 2 ^ bitlen (n div 2)" by auto
    moreover obtain k where "bitlen (n div 2) = Suc k" using calculation(1) by (cases "bitlen (n div 2)") auto
    moreover have "bitlen n = Suc (bitlen (n div 2))" using 1(2) by (simp add: bitlen.simps[of n])
    ultimately show ?thesis by auto
  qed
qed

lemma log_of_size:
  fixes sz :: u64
  assumes "0 < unat sz" and "unat sz < 2 ^ 63"
  defines "k \<equiv> 64 - 1 - lzcount sz"
  shows "2 ^ k \<le> unat sz" and "unat sz < 2 ^ Suc k"
proof -
  note b = bitlen_bounds[OF assms(1)]
  have "(2 :: nat) ^ (bitlen (unat sz) - 1) < 2 ^ 63" using b assms(2) le_less_trans by blast
  then have "bitlen (unat sz) - 1 < 63" by (rule power_less_imp_less_exp[rotated]) simp
  moreover have "lzcount sz = 64 - bitlen (unat sz)" using assms(1) by (auto simp: lzcount_def)
  ultimately have k: "k = bitlen (unat sz) - 1" using b unfolding k_def by linarith
  have s: "Suc k = bitlen (unat sz)" using b k by simp
  show "2 ^ k \<le> unat sz" using b unfolding k by blast
  show "unat sz < 2 ^ Suc k" using b unfolding s by blast
qed

lemma bit_top: "2 ^ k \<le> n \<Longrightarrow> n < 2 ^ Suc k \<Longrightarrow> bit (n :: nat) k"
proof -
  assume a: "2 ^ k \<le> n" "n < 2 ^ Suc k"
  then have "n div 2 ^ k = 1" by (intro div_nat_eqI) auto
  then show ?thesis by (simp add: bit_iff_odd)
qed

lemma unat_pow2: "k < 64 \<Longrightarrow> unat (push_bit k 1 :: u64) = 2 ^ k"
proof -
  assume "k < 64"
  then have "(2 :: nat) ^ k < 2 ^ 64" by (intro power_strict_increasing) simp_all
  then show ?thesis using \<open>k < 64\<close> unsigned_push_bit_eq[of k "1 :: u64", where ?'a = nat]
    by (simp add: take_bit_nat_eq_self)
qed

lemma pow2_test:
  fixes sz :: u64
  assumes "sz AND (sz - 1) = 0" and "2 ^ k \<le> unat sz" and "unat sz < 2 ^ Suc k"
  shows "unat sz = 2 ^ k"
proof (rule ccontr)
  assume ne: "unat sz \<noteq> 2 ^ k"
  have "0 < unat sz" using assms(2) by (metis le_zero_eq not_gr0 power_not_zero zero_neq_numeral)
  then have "unat (sz - 1) = unat sz - 1" by (simp add: unat_minus_one unat_gt_0)
  then have "bit (unat (sz - 1)) k" "bit (unat sz) k"
    using assms(2,3) ne by (auto intro!: bit_top)
  moreover have "k < 64"
  proof -
    have "(2 :: nat) ^ k < 2 ^ 64" by (rule le_less_trans[OF assms(2)]) (use unsigned_less[of sz] in simp)
    then show ?thesis by (rule power_less_imp_less_exp[rotated]) simp
  qed
  ultimately have "bit (sz AND (sz - 1)) k" by (simp add: bit_and_iff bit_unsigned_iff)
  then show False using assms(1) by simp
qed

lemma align_page:
  assumes "unat sz + 511 < 2 ^ 64"
  shows "unat (align_to sz EVL_HEAP_PAGE_SIZE) = (unat sz + 511) div 512 * 512"
proof -
  have p: "EVL_HEAP_PAGE_SIZE - 1 = mask 9" "sz + EVL_HEAP_PAGE_SIZE - 1 = sz + 511"
    by (simp_all add: EVL_HEAP_PAGE_SIZE_def EVL_HEAP_PAGE_SHIFT_def mask_eq_exp_minus_1)
  have "unat (sz + 511) = unat sz + 511" using unat_plus_small[of sz 511] assms by simp
  then show ?thesis unfolding align_to_def p using unat_and_not_mask[of "sz + 511" 9] by simp
qed

lemma size_lt_16: "sz < ucast EVL_HEAP_MIN_ALIGN \<longleftrightarrow> unat (sz :: u64) < 16"
  by (simp add: word_less_nat_alt EVL_HEAP_MIN_ALIGN_def EVL_HEAP_MIN_LOG2_def)

lemma block_size_ok:
  assumes "0 < unat sz" and "unat sz < 2 ^ 62" and "block_size sz = (bs, lg)"
  shows "unat sz \<le> unat bs \<and> unat bs < 2 ^ 63 \<and> (unat bs < 512 \<longrightarrow> 4 \<le> lg \<and> lg \<le> 8 \<and> unat bs = 2 ^ lg) \<and>
    (512 \<le> unat bs \<longrightarrow> unat bs = (unat sz + 511) div 512 * 512)"
proof (cases "unat sz < 16")
  case True
  then have "sz < ucast EVL_HEAP_MIN_ALIGN" by (simp only: size_lt_16)
  then have "block_size sz = (ucast EVL_HEAP_MIN_ALIGN, EVL_HEAP_MIN_LOG2)" by (simp only: block_size_def if_True)
  then have "unat bs = 16" "lg = 4" using assms(3) by (auto simp: EVL_HEAP_MIN_ALIGN_def EVL_HEAP_MIN_LOG2_def)
  then show ?thesis using True by simp
next
  case False
  define k where "k = 64 - 1 - lzcount sz"
  have e: "block_size sz = (if k < 9 then (push_bit (if sz AND (sz - 1) \<noteq> 0 then k + 1 else k) 1,
      if sz AND (sz - 1) \<noteq> 0 then k + 1 else k) else (align_to sz EVL_HEAP_PAGE_SIZE, k))"
    using False by (simp only: block_size_def size_lt_16 if_False EVL_HEAP_PAGE_SHIFT_def Let_def flip: k_def)
  have k: "2 ^ k \<le> unat sz" "unat sz < 2 ^ Suc k" using log_of_size[of sz] assms(1,2) unfolding k_def by simp_all
  show ?thesis
  proof (cases "k < 9")
    case True
    have "(2 :: nat) ^ 4 < 2 ^ Suc k" using False k(2) by simp
    then have k4: "4 \<le> k" using power_less_imp_less_exp[of "2 :: nat" 4 "Suc k"] by simp
    let ?l = "if sz AND (sz - 1) \<noteq> 0 then k + 1 else k"
    have bs: "bs = push_bit ?l 1" "lg = ?l" using assms(3) True e by auto
    have u: "unat bs = 2 ^ ?l" using True unfolding bs(1) by (intro unat_pow2) auto
    have l: "?l \<le> 9" using True by simp
    have "unat sz \<le> 2 ^ ?l" using k pow2_test[OF _ k] by (cases "sz AND (sz - 1) = 0") simp_all
    moreover have "(2 :: nat) ^ ?l \<le> 2 ^ 9" using l by (intro power_increasing) simp_all
    moreover have "?l \<le> 8" if "(2 :: nat) ^ ?l < 512"
      using that power_less_imp_less_exp[of "2 :: nat" ?l 9] by simp
    moreover have "unat bs = 512 \<longrightarrow> unat bs = (unat sz + 511) div 512 * 512"
      using \<open>unat sz \<le> 2 ^ ?l\<close> assms(1) unfolding u by (auto intro!: div_nat_eqI)
    ultimately show ?thesis using k4 unfolding u bs(2) by auto
  next
    case g: False
    have "(2 :: nat) ^ 9 \<le> 2 ^ k" using g by (intro power_increasing) simp_all
    then have "512 \<le> unat sz" using k(1) by simp
    moreover have "bs = align_to sz EVL_HEAP_PAGE_SIZE"
      using assms(3) g e by simp
    ultimately show ?thesis using align_page[of sz] assms(2) by auto
  qed
qed


text \<open>\<^verbatim>\<open>__tzcount\<close> finds the first bit that is set.\<close>

lemma tzfrom_first:
  assumes "i \<le> j" "j < 32" "bit x j"
  shows "i \<le> tzfrom i x \<and> tzfrom i x \<le> j \<and> bit x (tzfrom i x)"
  using assms
proof (induction i x rule: tzfrom.induct)
  case (1 i x)
  show ?case
  proof (cases "bit x i")
    case True
    with 1(2-4) show ?thesis by (simp add: tzfrom.simps[of i x])
  next
    case False
    then have "i \<noteq> j" using 1(4) by auto
    with 1 False have "Suc i \<le> tzfrom (Suc i) x \<and> tzfrom (Suc i) x \<le> j \<and> bit x (tzfrom (Suc i) x)" by auto
    moreover have "tzfrom i x = tzfrom (Suc i) x" using False 1(2,3) by (simp add: tzfrom.simps[of i x])
    ultimately show ?thesis by simp
  qed
qed

lemma first_clear:
  assumes "(m :: u32) \<noteq> - 1"
  shows "tzcount (NOT m) < 32" and "\<not> bit m (tzcount (NOT m))"
proof -
  have ne: "NOT m \<noteq> 0" using assms by (metis bit.double_compl bit.compl_zero)
  then obtain j where j: "bit (NOT m) j" by (metis bit_eq_iff bit_0_eq bot_apply bot_bool_def)
  then have "j < 32" by (simp add: bit_simps)
  with tzfrom_first[of 0 j "NOT m"] j ne
  show "tzcount (NOT m) < 32" "\<not> bit m (tzcount (NOT m))" by (auto simp: tzcount_def bit_simps)
qed

lemma bit_block_mask:
  assumes "4 \<le> t" "t \<le> 8"
  shows "bit (gen_block_mask t) n \<longleftrightarrow> n < 512 div 2 ^ t"
proof -
  have "t \<in> {4, 5, 6, 7, 8}" using assms by auto
  then have "unat (drop_bit t EVL_HEAP_PAGE_SIZE) = 512 div 2 ^ t" "(512 :: nat) div 2 ^ t \<le> 32"
    by (auto simp: EVL_HEAP_PAGE_SIZE_def EVL_HEAP_PAGE_SHIFT_def drop_bit_eq_div)
  then show ?thesis by (auto simp: gen_block_mask_def bit_simps)
qed


lemma sint_small: "unat (w :: 32 word) < 2 ^ 31 \<Longrightarrow> sint w = int (unat w)"
proof -
  assume a: "unat w < 2 ^ 31"
  have x: "uint w = int (unat w)" by (rule uint_nat)
  have "sint w = signed_take_bit 31 (int (unat w))" unfolding sint_uint x by simp
  also have "\<dots> = int (unat w)"
  proof (rule signed_take_bit_int_eq_self)
    show "- (2 ^ 31) \<le> int (unat w)" by (rule order_trans[of _ 0]) simp_all
    show "int (unat w) < 2 ^ 31" using a by (metis of_nat_less_iff of_nat_numeral of_nat_power)
  qed
  finally show ?thesis .
qed

lemma shift_page:
  fixes pg :: s32
  assumes "unat pg < 2 ^ 22"
  shows "(scast (push_bit 9 pg) :: u64) = of_nat (512 * unat pg)"
proof -
  have u: "unat (push_bit 9 pg) = 512 * unat pg"
  proof -
    have "unat (push_bit 9 pg) = take_bit 32 (push_bit 9 (unat pg))" by (simp add: unsigned_push_bit_eq)
    then show ?thesis using assms by (simp only: push_bit_eq_mult) (simp add: take_bit_nat_eq_self)
  qed
  have "sint (push_bit 9 pg) = int (512 * unat pg)" using sint_small[of "push_bit 9 pg"] assms unfolding u by simp
  then have "(scast (push_bit 9 pg) :: u64) = word_of_int (int (512 * unat pg))" by (simp only: scast_eq)
  then show ?thesis by (simp only: of_int_of_nat_eq)
qed

lemma pagenr_addr:
  assumes "unat pg < 2 ^ 22" and "unat (membase ext) + 512 * unat pg < 2 ^ 64"
  shows "unat (pagenr_to_addr ext pg) = unat (membase ext) + 512 * unat pg"
  using unat_plus_small[OF assms(2)] by (simp only: pagenr_to_addr_def EVL_HEAP_PAGE_SHIFT_def shift_page[OF assms(1)])

lemma mark_pages_loop_frame:
  "x \<notin> {pg..<pg + n} \<Longrightarrow> mark_pages_loop pm pg n ty x = pm x"
  by (induction pm pg n ty rule: mark_pages_loop.induct) auto

lemma mark_pages_frame:
  "x \<notin> {pg..<pg + nat (sint n)} \<Longrightarrow> mark_pages opt pm pg n ty x = pm x"
  by (simp add: mark_pages_def mark_pages_loop_frame)

end
