(* ===== verification/Heap_Buckets.thy ===== *)
theory Heap_Buckets
  imports Heap_Alloc
begin

text \<open>
  The page lists of the buckets (\<^verbatim>\<open>add_page_front\<close>, \<^verbatim>\<open>remove_page\<close>, \<^verbatim>\<open>move_page_front\<close> and \<^verbatim>\<open>move_page_back\<close> of
  \<^verbatim>\<open>lib/heap.c\<close>): rings of pages linked both ways by page numbers in the page map, and the list each one stands for.
\<close>

section \<open>Rings\<close>

text \<open>The successive pairs of a list, and those of a list closed to a ring.\<close>

fun edges :: "'a list \<Rightarrow> ('a \<times> 'a) set" where
  "edges (a # b # xs) = insert (a, b) (edges (b # xs))"
| "edges xs = {}"

definition ring :: "'a list \<Rightarrow> ('a \<times> 'a) set" where
  "ring ps = (case ps of [] \<Rightarrow> {} | p # qs \<Rightarrow> edges (p # qs @ [p]))"

lemma ring_Cons: "ring (p # qs) = edges (p # qs @ [p])"
  by (simp add: ring_def)

lemma ring_Nil [simp]: "ring [] = {}" by (simp add: ring_def)

lemma edges_append: "edges (xs @ a # ys) = edges (xs @ [a]) \<union> edges (a # ys)"
proof (induction xs)
  case (Cons x xs)
  then show ?case by (cases xs) auto
qed simp

lemma edges_mem: "(a, b) \<in> edges xs \<Longrightarrow> a \<in> set (butlast xs) \<and> b \<in> set (tl xs)"
  by (induction xs rule: edges.induct) auto

lemma ring_rotate: "ring (p # qs) = ring (qs @ [p])"
proof (cases qs)
  case (Cons q rs)
  have "ring (qs @ [p]) = edges (q # (rs @ [p]) @ [q])" by (simp only: Cons append_Cons ring_Cons)
  also have "\<dots> = edges (q # rs @ [p]) \<union> edges [p, q]"
    using edges_append[of "q # rs" p "[q]"] by simp
  finally show ?thesis by (auto simp: Cons ring_Cons)
qed simp

lemma ring_rotations: "ring (xs @ ys) = ring (ys @ xs)"
proof (induction xs arbitrary: ys)
  case (Cons x xs)
  have "ring ((x # xs) @ ys) = ring (xs @ ys @ [x])" using ring_rotate[of x "xs @ ys"] by simp
  then show ?case using Cons.IH[of "ys @ [x]"] by simp
qed simp

lemma ring_mem: "(a, b) \<in> ring ps \<Longrightarrow> a \<in> set ps \<and> b \<in> set ps"
  by (cases ps) (auto simp: ring_Cons dest!: edges_mem simp: butlast_append)

definition linked :: "(nat \<Rightarrow> nat) \<Rightarrow> (nat \<Rightarrow> nat) \<Rightarrow> nat list \<Rightarrow> bool" where
  "linked nx pv ps \<longleftrightarrow> (\<forall>(a, b)\<in>ring ps. nx a = b \<and> pv b = a)"

lemma linked_Nil [simp]: "linked nx pv []" by (simp add: linked_def)

lemma linked_rotate: "linked nx pv (xs @ ys) \<longleftrightarrow> linked nx pv (ys @ xs)"
  by (simp only: linked_def ring_rotations[of xs ys])

lemma linked_cong:
  assumes "\<forall>p\<in>set ps. nx' p = nx p \<and> pv' p = pv p"
  shows "linked nx' pv' ps \<longleftrightarrow> linked nx pv ps"
  using assms by (fastforce simp: linked_def dest: ring_mem)

lemma linked_Cons: "linked nx pv (p # qs) \<longleftrightarrow> (\<forall>(a, b)\<in>edges (p # qs @ [p]). nx a = b \<and> pv b = a)"
  by (simp add: linked_def ring_Cons)

lemma linked_single: "linked nx pv [p] \<longleftrightarrow> nx p = p \<and> pv p = p"
  by (simp add: linked_Cons)

text \<open>The next and the previous member of a ring.\<close>

lemma linked_next:
  assumes "linked nx pv (a # qs)"
  shows "nx a = hd (qs @ [a])" and "pv (hd (qs @ [a])) = a"
  using assms by (cases qs; simp add: linked_Cons)+

lemma linked_prev: "linked nx pv (q # qs) \<Longrightarrow> pv q = last (q # qs)"
  using linked_next(2)[of nx pv "last (q # qs)" "butlast (q # qs)"] linked_rotate[of nx pv "butlast (q # qs)" "[last (q # qs)]"]
  by (cases qs rule: rev_cases) auto

text \<open>Inserting after a member, and taking one out.\<close>

lemma linked_insert:
  assumes "linked nx pv (a # xs)" and "distinct (a # xs)" and "p \<notin> set (a # xs)"
  shows "linked (nx(p := nx a, a := p)) (pv(p := a, nx a := p)) (a # p # xs)"
proof (cases xs)
  case Nil
  with assms show ?thesis by (auto simp: linked_Cons)
next
  case (Cons y ys)
  have n: "nx a = y" using linked_next(1)[OF assms(1)] by (simp add: Cons)
  have e: "nx u = v \<and> pv v = u \<and> u \<in> set (y # ys) \<and> v \<in> set (ys @ [a])" if "(u, v) \<in> edges (y # ys @ [a])" for u v
    using that assms(1) edges_mem[OF that] by (auto simp: linked_Cons Cons butlast_append)
  have "edges (a # (p # xs) @ [a]) = {(a, p), (p, y)} \<union> edges (y # ys @ [a])" by (auto simp: Cons)
  moreover have "y \<noteq> a" "p \<noteq> a" "p \<noteq> y" "y \<notin> set ys" "a \<notin> set ys" "p \<notin> set ys" using assms(2,3) by (auto simp: Cons)
  ultimately show ?thesis unfolding linked_Cons n by (auto dest!: e)
qed

lemma linked_remove:
  assumes "linked nx pv (p # qs)" and "distinct (p # qs)" and "qs \<noteq> []"
  shows "linked (nx(pv p := nx p)) (pv(nx p := pv p)) qs"
proof -
  obtain n xs where q: "qs = n # xs" using assms(3) by (cases qs) auto
  obtain us l where l: "qs = us @ [l]" using assms(3) by (cases qs rule: rev_cases) auto
  have n: "nx p = n" using linked_next(1)[OF assms(1)] by (simp add: q)
  have p: "pv p = l" using linked_prev[OF assms(1)] by (simp add: l)
  have x: "edges (qs @ [v]) = edges qs \<union> {(l, v)}" for v
    using edges_append[of us l "[v]"] by (simp add: l)
  have r: "ring qs = edges qs \<union> {(l, n)}" using x[of n] by (simp add: ring_def q)
  have r0: "ring (p # qs) = {(p, n)} \<union> edges qs \<union> {(l, p)}" using x[of p] by (auto simp: ring_Cons q)
  have e: "u \<in> set us \<and> v \<in> set xs" if "(u, v) \<in> edges qs" for u v
    using edges_mem[OF that] by (metis butlast_snoc l list.sel(3) q)
  have "distinct qs" using assms(2) by simp
  then have d: "l \<notin> set us" "n \<notin> set xs" by (simp add: l) (metis \<open>distinct qs\<close> distinct.simps(2) q)
  show ?thesis using assms(1) d unfolding linked_def r r0 n p by (auto dest: e)
qed


section \<open>The page lists of the buckets\<close>

definition next_of :: "pagemap \<Rightarrow> nat \<Rightarrow> nat" where "next_of pm p = unat (pg_next (pm p))"
definition prev_of :: "pagemap \<Rightarrow> nat \<Rightarrow> nat" where "prev_of pm p = unat (pg_prev (pm p))"

text \<open>
  The list of the pages of a bucket: the bucket holds the number of the first page, or -1, and the pages are linked in a ring both ways.
\<close>

definition page_ring :: "pagemap \<Rightarrow> u32 \<Rightarrow> nat list \<Rightarrow> bool" where
  "page_ring pm first ps \<longleftrightarrow> distinct ps \<and> (\<forall>p\<in>set ps. p < 2 ^ 23) \<and>
     linked (next_of pm) (prev_of pm) ps \<and> first = (if ps = [] then - 1 else of_nat (hd ps))"

lemma page_ring_links:
  "next_of (pm(x := (pm x)\<lparr>pg_next := n\<rparr>)) = (next_of pm)(x := unat n)"
  "prev_of (pm(x := (pm x)\<lparr>pg_next := n\<rparr>)) = prev_of pm"
  "next_of (pm(x := (pm x)\<lparr>pg_prev := n\<rparr>)) = next_of pm"
  "prev_of (pm(x := (pm x)\<lparr>pg_prev := n\<rparr>)) = (prev_of pm)(x := unat n)"
  by (auto simp: next_of_def prev_of_def fun_eq_iff)

text \<open>The 23-bit links hold every page number of an extent.\<close>

lemma unat_of_page: "p < 2 ^ 23 \<Longrightarrow> unat (of_nat p :: u32) = p"
  by (simp add: unat_of_nat take_bit_nat_eq_self)

lemma unat_link: "unat (w :: u32) < 2 ^ 23 \<Longrightarrow> unat (ucast w :: 23 word) = unat w"
  by (simp add: unsigned_ucast_eq take_bit_nat_eq_self)

lemma unat_link_up: "unat (ucast (w :: 23 word) :: u32) = unat w"
proof -
  have "unat w < 2 ^ 23" using unsigned_less[of w] by simp
  then show ?thesis by (simp add: unsigned_ucast_eq take_bit_nat_eq_self)
qed

lemma of_page_inj: "p < 2 ^ 23 \<Longrightarrow> q < 2 ^ 23 \<Longrightarrow> (of_nat p :: u32) = of_nat q \<longleftrightarrow> p = q"
  by (metis unat_of_page)

lemma of_page_minus_1: "p < 2 ^ 23 \<Longrightarrow> (of_nat p :: u32) \<noteq> - 1"
proof
  assume "p < 2 ^ 23" "(of_nat p :: u32) = - 1"
  then have "p = unat (- 1 :: u32)" by (metis unat_of_page)
  with \<open>p < 2 ^ 23\<close> show False by (simp add: unsigned_minus_1_eq_mask mask_eq_exp_minus_1)
qed


text \<open>An operation on a list changes links only, of the pages of the list only.\<close>

definition links_only :: "nat set \<Rightarrow> pagemap \<Rightarrow> pagemap \<Rightarrow> bool" where
  "links_only A pm pm' \<longleftrightarrow> (\<forall>x. pg_type (pm' x) = pg_type (pm x) \<and> pg_map (pm' x) = pg_map (pm x)) \<and>
     (\<forall>x. x \<notin> A \<longrightarrow> pm' x = pm x)"

lemma links_only_trans:
  "links_only A pm pm' \<Longrightarrow> links_only B pm' pm'' \<Longrightarrow> A \<union> B \<subseteq> C \<Longrightarrow> links_only C pm pm''"
  unfolding links_only_def by (metis UnCI subsetD)

lemma links_only_upd:
  "x \<in> A \<Longrightarrow> links_only A pm (pm(x := (pm x)\<lparr>pg_next := n\<rparr>))"
  "x \<in> A \<Longrightarrow> links_only A pm (pm(x := (pm x)\<lparr>pg_prev := n\<rparr>))"
  by (auto simp: links_only_def)

lemma page_ring_links_only:
  assumes "links_only A pm pm'" and "set ps \<inter> A = {}"
  shows "page_ring pm' first ps = page_ring pm first ps"
proof -
  have "\<forall>p\<in>set ps. next_of pm' p = next_of pm p \<and> prev_of pm' p = prev_of pm p"
    using assms by (auto simp: links_only_def next_of_def prev_of_def)
  then have "linked (next_of pm') (prev_of pm') ps = linked (next_of pm) (prev_of pm) ps" by (rule linked_cong)
  then show ?thesis by (simp add: page_ring_def)
qed

text \<open>Linking a page in after a page of the list: the four assignments of the C functions.\<close>

definition link_after :: "pagemap \<Rightarrow> nat \<Rightarrow> u32 \<Rightarrow> pagemap" where
  "link_after pm a pg =
     (let p = unat pg;
          pm = pm(p := (pm p)\<lparr>pg_prev := ucast (of_nat a :: u32)\<rparr>);
          pm = pm(p := (pm p)\<lparr>pg_next := pg_next (pm a)\<rparr>);
          b = unat (pg_next (pm p));
          pm = pm(b := (pm b)\<lparr>pg_prev := ucast pg\<rparr>)
      in pm(a := (pm a)\<lparr>pg_next := ucast pg\<rparr>))"

lemma link_after_ring:
  assumes "linked (next_of pm) (prev_of pm) (a # xs)" and "distinct (a # xs)"
    and "\<forall>q\<in>set (p # a # xs). q < 2 ^ 23" and "p \<notin> set (a # xs)"
  shows "linked (next_of (link_after pm a (of_nat p))) (prev_of (link_after pm a (of_nat p))) (a # p # xs)"
    and "links_only (set (p # a # xs)) pm (link_after pm a (of_nat p))"
proof -
  have u: "unat (of_nat p :: u32) = p" "unat (ucast (of_nat p :: u32) :: 23 word) = p"
    "unat (ucast (of_nat a :: u32) :: 23 word) = a"
    using assms(3) by (simp_all add: unat_of_page unat_link)
  have ne: "a \<noteq> p" using assms(4) by auto
  have l: "next_of (link_after pm a (of_nat p)) = (next_of pm)(p := next_of pm a, a := p)"
    "prev_of (link_after pm a (of_nat p)) = (prev_of pm)(p := a, next_of pm a := p)"
    using ne by (auto simp: link_after_def Let_def u next_of_def prev_of_def fun_eq_iff)
  show "linked (next_of (link_after pm a (of_nat p))) (prev_of (link_after pm a (of_nat p))) (a # p # xs)"
    unfolding l by (rule linked_insert[OF assms(1,2,4)])
  have "next_of pm a \<in> set (a # xs)" using linked_next(1)[OF assms(1)] by (cases xs) auto
  then have n: "unat (pg_next (pm a)) \<in> set (p # a # xs)" by (simp add: next_of_def)
  show "links_only (set (p # a # xs)) pm (link_after pm a (of_nat p))"
    using ne n by (simp add: link_after_def Let_def u) (auto simp: links_only_def)
qed


text \<open>
  \<^verbatim>\<open>add_page_front\<close>: the new page becomes the first one, and the page that was first becomes the last one.
\<close>

fun front :: "nat \<Rightarrow> nat list \<Rightarrow> nat list" where
  "front p [] = [p]"
| "front p (h # t) = p # t @ [h]"

lemma set_front [simp]: "set (front p ps) = insert p (set ps)"
  by (cases ps) auto

lemma add_page_front_eq:
  "add_page_front (bk, pm) pg log2size =
     (let ilog = log2size - EVL_HEAP_MIN_LOG2; new = unat pg in
      (bk(ilog := pg),
       if bk ilog = - 1 then pm(new := (pm new)\<lparr>pg_prev := ucast pg, pg_next := ucast pg\<rparr>)
       else link_after pm (unat (bk ilog)) pg))"
  by (simp add: add_page_front_def link_after_def Let_def)

lemma add_page_front_ring:
  assumes "page_ring pm (bk ilog) ps" and "p < 2 ^ 23" and "p \<notin> set ps"
    and "ilog = log2size - EVL_HEAP_MIN_LOG2"
  obtains pm' where "add_page_front (bk, pm) (of_nat p) log2size = (bk(ilog := of_nat p), pm')"
    and "page_ring pm' (of_nat p) (front p ps)" and "links_only (insert p (set ps)) pm pm'"
proof (cases ps)
  case Nil
  let ?pm = "pm(p := (pm p)\<lparr>pg_prev := ucast (of_nat p :: u32), pg_next := ucast (of_nat p :: u32)\<rparr>)"
  have "add_page_front (bk, pm) (of_nat p) log2size = (bk(ilog := of_nat p), ?pm)"
    using assms by (simp add: add_page_front_eq Let_def page_ring_def Nil unat_of_page)
  moreover have "page_ring ?pm (of_nat p) (front p ps)"
    using assms(2) by (simp add: page_ring_def Nil linked_single next_of_def prev_of_def unat_link unat_of_page)
  ultimately show thesis by (rule that) (auto simp: links_only_def)
next
  case (Cons h t)
  note r = assms(1)[unfolded page_ring_def Cons]
  let ?pm = "link_after pm h (of_nat p)"
  have "add_page_front (bk, pm) (of_nat p) log2size = (bk(ilog := of_nat p), ?pm)"
    using r by (simp add: add_page_front_eq Let_def unat_of_page of_page_minus_1 flip: assms(4))
  moreover note l = link_after_ring[of pm h t p]
  have "page_ring ?pm (of_nat p) (front p ps)"
    using l(1) linked_rotate[of _ _ "[h]" "p # t"] r assms(2,3) by (simp add: page_ring_def Cons)
  ultimately show thesis using l(2) r assms(2,3) by (intro that) (simp_all add: Cons)
qed

lemma remove_page_ring:
  assumes "page_ring pm (bk ilog) ps" and "p \<in> set ps" and "ilog = log2size - EVL_HEAP_MIN_LOG2"
  obtains bk' pm' where "remove_page (bk, pm) (of_nat p) log2size = (bk', pm')"
    and "page_ring pm' (bk' ilog) (remove1 p ps)" and "links_only (set ps - {p}) pm pm'"
    and "\<forall>i. i \<noteq> ilog \<longrightarrow> bk' i = bk i"
proof -
  obtain xs ys where x: "ps = xs @ p # ys" using assms(2) by (meson split_list)
  note r = assms(1)[unfolded page_ring_def x]
  have rm: "remove1 p ps = xs @ ys" using r by (simp add: x remove1_append)
  have l: "linked (next_of pm) (prev_of pm) (p # ys @ xs)" using r linked_rotate[of _ _ xs "p # ys"] by simp
  have d: "distinct (p # ys @ xs)" using r by auto
  have p: "p < 2 ^ 23" "unat (of_nat p :: u32) = p" using r by (simp_all add: unat_of_page)
  have hd: "next_of pm p = hd (ys @ xs @ [p])" using linked_next(1)[OF l] by simp
  have u: "(of_nat p :: u32) = ucast (pg_next (pm p)) \<longleftrightarrow> next_of pm p = p"
    using p(2) by (auto simp: next_of_def word_unat_eq_iff[of "of_nat p"] unat_link_up)
  show thesis
  proof (cases "ys @ xs")
    case Nil
    then have "next_of pm p = p" using hd by simp
    then have "remove_page (bk, pm) (of_nat p) log2size = (bk(ilog := - 1), pm)"
      by (simp add: remove_page_def Let_def p(2) u flip: assms(3))
    then show thesis using Nil by (intro that[of "bk(ilog := - 1)" pm]) (simp_all add: rm page_ring_def links_only_def)
  next
    case (Cons n zs)
    define l where "l = prev_of pm p"
    have n: "next_of pm p = n" using hd Cons by (metis append.assoc append_Cons list.sel(1))
    have "l = last (p # ys @ xs)" using linked_prev[OF l] by (simp add: l_def)
    then have lp: "l \<in> set (ys @ xs)" "l \<noteq> p" using Cons d by (auto simp: last_append split: if_splits)
    have np: "n \<in> set (ys @ xs)" using Cons by simp
    then have np: "n \<noteq> p" "n \<in> set (ys @ xs)" using d by auto
    have nu: "ucast (pg_next (pm p)) = (of_nat n :: u32)"
      using n r np by (auto simp: next_of_def word_unat_eq_iff unat_of_page)
    let ?bk = "if of_nat p = bk ilog then bk(ilog := of_nat n) else bk"
    let ?pm = "let pm = pm(l := (pm l)\<lparr>pg_next := pg_next (pm p)\<rparr>) in pm(n := (pm n)\<lparr>pg_prev := pg_prev (pm p)\<rparr>)"
    have e: "remove_page (bk, pm) (of_nat p) log2size = (?bk, ?pm)"
      using np lp u n l_def
      by (simp add: remove_page_def Let_def p(2) nu flip: assms(3)) (simp add: next_of_def prev_of_def)
    have k: "next_of ?pm = (next_of pm)(prev_of pm p := next_of pm p)" "prev_of ?pm = (prev_of pm)(next_of pm p := prev_of pm p)"
      using lp(2) np(1) by (auto simp: Let_def fun_eq_iff n l_def[symmetric]) (auto simp: next_of_def prev_of_def l_def n[symmetric])
    have "linked (next_of ?pm) (prev_of ?pm) (ys @ xs)" unfolding k by (rule linked_remove[OF l d]) (simp add: Cons)
    then have "linked (next_of ?pm) (prev_of ?pm) (xs @ ys)" using linked_rotate by blast
    moreover have "?bk ilog = of_nat (hd (xs @ ys))"
      using r Cons p by (cases xs) (auto simp: of_page_inj)
    ultimately have "page_ring ?pm (?bk ilog) (xs @ ys)" using r Cons by (auto simp: page_ring_def)
    then have "page_ring ?pm (?bk ilog) (remove1 p ps)" unfolding rm .
    moreover have "links_only (set ps - {p}) pm ?pm" using lp np by (auto simp: x links_only_def Let_def)
    moreover have "\<forall>i. i \<noteq> ilog \<longrightarrow> ?bk i = bk i" by simp
    ultimately show thesis by (rule that[OF e])
  qed
qed


text \<open>\<^verbatim>\<open>move_page_front\<close> and \<^verbatim>\<open>move_page_back\<close>.\<close>

lemma move_page_front_ring:
  assumes "page_ring pm (bk ilog) ps" and "p \<in> set ps" and "ilog = log2size - EVL_HEAP_MIN_LOG2"
  obtains bk' pm' where "move_page_front (bk, pm) (of_nat p) log2size = (bk', pm')"
    and "page_ring pm' (bk' ilog) (if hd ps = p then ps else front p (remove1 p ps))"
    and "links_only (set ps) pm pm'" and "\<forall>i. i \<noteq> ilog \<longrightarrow> bk' i = bk i"
proof (cases "hd ps = p")
  case True
  with assms have "move_page_front (bk, pm) (of_nat p) log2size = (bk, pm)"
    by (auto simp: move_page_front_def page_ring_def)
  with assms True show thesis by (intro that) (auto simp: links_only_def)
next
  case False
  have "ps \<noteq> []" using assms(2) by auto
  then have r: "hd ps < 2 ^ 23" "p < 2 ^ 23" "distinct ps" "bk ilog = of_nat (hd ps)"
    using assms(1,2) by (simp_all add: page_ring_def)
  obtain bk1 pm1 where 1: "remove_page (bk, pm) (of_nat p) log2size = (bk1, pm1)"
    "page_ring pm1 (bk1 ilog) (remove1 p ps)" "links_only (set ps - {p}) pm pm1" "\<forall>i. i \<noteq> ilog \<longrightarrow> bk1 i = bk i"
    using remove_page_ring[of pm bk ilog ps p log2size, OF assms] by metis
  have "p \<notin> set (remove1 p ps)" using r(3) by simp
  from add_page_front_ring[of pm1 bk1 ilog "remove1 p ps" p log2size, OF 1(2) r(2) this assms(3)] obtain pm2 where
    2: "add_page_front (bk1, pm1) (of_nat p) log2size = (bk1(ilog := of_nat p), pm2)"
    "page_ring pm2 (of_nat p) (front p (remove1 p ps))" "links_only (insert p (set (remove1 p ps))) pm1 pm2" by metis
  have "bk ilog \<noteq> of_nat p" using r False by (simp add: of_page_inj)
  then have "move_page_front (bk, pm) (of_nat p) log2size = (bk1(ilog := of_nat p), pm2)"
    using 1(1) 2(1) assms(3) by (simp add: move_page_front_def)
  then show thesis using 2 1(4) links_only_trans[OF 1(3) 2(3), of "set ps"] assms(2) r(3) False
    by (intro that[of "bk1(ilog := of_nat p)" pm2]) auto
qed

lemma link_id: "ucast (ucast w :: u32) = (w :: 23 word)"
proof -
  have "unat (ucast w :: u32) < 2 ^ 23" using unsigned_less[of w] by (simp add: unat_link_up)
  then show ?thesis by (simp add: word_unat_eq_iff unat_link unat_link_up del: unsigned_ucast_eq)
qed

lemma move_page_back_eq:
  "move_page_back (bk, pm) pg log2size =
     (if pg = ucast (pg_next (pm (unat pg))) then (bk, pm)
      else let (bk, pm) = remove_page (bk, pm) pg log2size; head = unat (bk (log2size - EVL_HEAP_MIN_LOG2))
           in (bk, link_after pm (unat (pg_prev (pm head))) pg))"
  by (simp add: move_page_back_def link_after_def Let_def split_beta link_id)

lemma move_page_back_ring:
  assumes "page_ring pm (bk ilog) ps" and "p \<in> set ps" and "ilog = log2size - EVL_HEAP_MIN_LOG2"
  obtains bk' pm' where "move_page_back (bk, pm) (of_nat p) log2size = (bk', pm')"
    and "page_ring pm' (bk' ilog) (remove1 p ps @ [p])"
    and "links_only (set ps) pm pm'" and "\<forall>i. i \<noteq> ilog \<longrightarrow> bk' i = bk i"
proof -
  have r: "distinct ps" "p < 2 ^ 23" "linked (next_of pm) (prev_of pm) ps" using assms(1,2) by (simp_all add: page_ring_def)
  obtain xs ys where x: "ps = xs @ p # ys" using assms(2) by (meson split_list)
  have "linked (next_of pm) (prev_of pm) (p # ys @ xs)" using r(3) linked_rotate[of _ _ xs "p # ys"] x by simp
  from linked_next(1)[OF this] have "next_of pm p = hd ((ys @ xs) @ [p])" by simp
  moreover have "p \<notin> set (ys @ xs)" using r(1) x by auto
  ultimately have "next_of pm p = p \<longleftrightarrow> ys @ xs = []" by (cases "ys @ xs") (simp, auto)
  then have n: "next_of pm p = p \<longleftrightarrow> remove1 p ps = []" using r(1) by (auto simp: x remove1_append)
  have u: "of_nat p = (ucast (pg_next (pm p)) :: u32) \<longleftrightarrow> next_of pm p = p"
    using r(2) by (auto simp: next_of_def word_unat_eq_iff[of "of_nat p"] unat_link_up unat_of_page)
  note up = unat_of_page[OF r(2)]
  show thesis
  proof (cases "remove1 p ps")
    case Nil
    with r(1) assms(2) have "ps = [p]" by (auto simp: x remove1_append)
    have "move_page_back (bk, pm) (of_nat p) log2size = (bk, pm)"
      unfolding move_page_back_eq by (rule if_P) (use Nil n u in \<open>simp only: up\<close>)
    then show thesis using Nil assms(1) \<open>ps = [p]\<close> by (intro that[of bk pm]) (simp_all add: links_only_def)
  next
    case (Cons h t)
    obtain bk1 pm1 where 1: "remove_page (bk, pm) (of_nat p) log2size = (bk1, pm1)"
      "page_ring pm1 (bk1 ilog) (h # t)" "links_only (set ps - {p}) pm pm1" "\<forall>i. i \<noteq> ilog \<longrightarrow> bk1 i = bk i"
      using remove_page_ring[of pm bk ilog ps p log2size, OF assms] Cons by metis
    have st: "set (h # t) = set ps - {p}" "distinct (h # t)" using r(1) Cons by (metis set_remove1_eq, metis distinct_remove1)
    define l us where "l = last (h # t)" and "us = butlast (h # t)"
    have lu: "h # t = us @ [l]" unfolding l_def us_def by (metis append_butlast_last_id list.distinct(1))
    have r1: "linked (next_of pm1) (prev_of pm1) (h # t)" "h < 2 ^ 23" "bk1 ilog = of_nat h"
      "\<forall>q\<in>set (h # t). q < 2 ^ 23" using 1(2) by (simp_all add: page_ring_def)
    have "unat (pg_prev (pm1 h)) = l" using linked_prev[OF r1(1)] by (simp add: prev_of_def l_def)
    then have e: "move_page_back (bk, pm) (of_nat p) log2size = (bk1, link_after pm1 l (of_nat p))"
      using Cons n u 1(1) r1(2,3) by (simp add: move_page_back_eq up unat_of_page flip: assms(3))
    have "linked (next_of pm1) (prev_of pm1) (l # us)" using r1(1) linked_rotate[of _ _ us "[l]"] by (simp add: lu)
    moreover have "distinct (l # us)" "\<forall>q\<in>set (p # l # us). q < 2 ^ 23" "p \<notin> set (l # us)"
      using st r1(4) r(2) unfolding lu by auto
    ultimately have k: "linked (next_of (link_after pm1 l (of_nat p))) (prev_of (link_after pm1 l (of_nat p))) (l # p # us)"
      "links_only (set (p # l # us)) pm1 (link_after pm1 l (of_nat p))"
      by (rule link_after_ring)+
    have "(h # t) @ [p] = us @ [l, p]" by (simp add: lu)
    then have "linked (next_of (link_after pm1 l (of_nat p))) (prev_of (link_after pm1 l (of_nat p))) ((h # t) @ [p])"
      using k(1) linked_rotate[of _ _ "[l, p]" us] by simp
    then have "page_ring (link_after pm1 l (of_nat p)) (bk1 ilog) ((h # t) @ [p])"
      using st r1 r(2) by (auto simp: page_ring_def)
    moreover have "links_only (set ps) pm (link_after pm1 l (of_nat p))"
    proof (rule links_only_trans[OF 1(3) k(2)])
      have "set (l # us) = set ps - {p}" using st(1) unfolding lu by auto
      then show "set ps - {p} \<union> set (p # l # us) \<subseteq> set ps" using assms(2) by auto
    qed
    ultimately show thesis using e 1(4) Cons by (intro that) simp_all
  qed
qed


text \<open>
  C10. The page lists of the buckets are lists: each operation ends with the links of a well-formed list of the bucket and does not touch the
  links of other pages, nor the allocation maps.  \<^verbatim>\<open>add_page_front\<close> puts the new page first and the page that was first at the
  end; \<^verbatim>\<open>remove_page\<close> takes a page out wherever it is; \<^verbatim>\<open>move_page_front\<close> and
  \<^verbatim>\<open>move_page_back\<close> move a page to either end.
\<close>

theorem page_lists_correct:
  assumes "page_ring pm (bk ilog) ps" and "p < 2 ^ 23" and "ilog = log2size - EVL_HEAP_MIN_LOG2"
  defines "ok \<equiv> (\<lambda>f qs. case f (bk, pm) (of_nat p) log2size of (bk', pm') \<Rightarrow>
    page_ring pm' (bk' ilog) qs \<and> links_only (insert p (set ps)) pm pm' \<and> (\<forall>i. i \<noteq> ilog \<longrightarrow> bk' i = bk i))"
  shows "if p \<in> set ps
    then ok remove_page (remove1 p ps) \<and> ok move_page_back (remove1 p ps @ [p]) \<and>
      ok move_page_front (if hd ps = p then ps else front p (remove1 p ps))
    else ok add_page_front (front p ps)"
proof (cases "p \<in> set ps")
  case True
  obtain bk' pm' where "remove_page (bk, pm) (of_nat p) log2size = (bk', pm')" "page_ring pm' (bk' ilog) (remove1 p ps)"
    "links_only (set ps - {p}) pm pm'" "\<forall>i. i \<noteq> ilog \<longrightarrow> bk' i = bk i"
    by (rule remove_page_ring[of pm bk ilog ps p log2size, OF assms(1) True assms(3)])
  then have 1: "ok remove_page (remove1 p ps)" by (auto simp: ok_def links_only_def)
  obtain bk2 pm2 where "move_page_back (bk, pm) (of_nat p) log2size = (bk2, pm2)" "page_ring pm2 (bk2 ilog) (remove1 p ps @ [p])"
    "links_only (set ps) pm pm2" "\<forall>i. i \<noteq> ilog \<longrightarrow> bk2 i = bk i"
    by (rule move_page_back_ring[of pm bk ilog ps p log2size, OF assms(1) True assms(3)])
  then have 2: "ok move_page_back (remove1 p ps @ [p])" using True by (simp add: ok_def insert_absorb)
  obtain bk3 pm3 where "move_page_front (bk, pm) (of_nat p) log2size = (bk3, pm3)"
    "page_ring pm3 (bk3 ilog) (if hd ps = p then ps else front p (remove1 p ps))"
    "links_only (set ps) pm pm3" "\<forall>i. i \<noteq> ilog \<longrightarrow> bk3 i = bk i"
    by (rule move_page_front_ring[of pm bk ilog ps p log2size, OF assms(1) True assms(3)])
  then have 3: "ok move_page_front (if hd ps = p then ps else front p (remove1 p ps))"
    using True by (simp add: ok_def insert_absorb)
  from True 1 2 3 show ?thesis by simp
next
  case False
  obtain pm' where "add_page_front (bk, pm) (of_nat p) log2size = (bk(ilog := of_nat p), pm')"
    "page_ring pm' (of_nat p) (front p ps)" "links_only (insert p (set ps)) pm pm'"
    by (rule add_page_front_ring[of pm bk ilog ps p log2size, OF assms(1,2) False assms(3)])
  then have "ok add_page_front (front p ps)" by (simp add: ok_def)
  with False show ?thesis by simp
qed

text \<open>A bucket of the pages 5 and 3.\<close>

definition ring_map :: pagemap where
  "ring_map = (\<lambda>_. \<lparr>pg_prev = 0, pg_next = 0, pg_type = 0, pg_map = 0\<rparr>)
     (5 := \<lparr>pg_prev = 3, pg_next = 3, pg_type = 8, pg_map = - 1\<rparr>, 3 := \<lparr>pg_prev = 5, pg_next = 5, pg_type = 8, pg_map = - 2\<rparr>)"

theorem page_lists_correct_witness:
  "case remove_page ((\<lambda>_. - 1)(4 := 5), ring_map) (of_nat 5) 8 of (bk', pm') \<Rightarrow> page_ring pm' (bk' 4) [3] \<and> bk' 0 = - 1"
proof -
  have r: "page_ring ring_map (((\<lambda>_. - 1)(4 := 5)) 4) [5, 3]"
    by (simp add: page_ring_def linked_Cons next_of_def prev_of_def ring_map_def)
  show ?thesis using page_lists_correct[of ring_map "(\<lambda>_. - 1)(4 := 5)" 4 "[5, 3]" 5 8, OF r] 
    by (auto simp: EVL_HEAP_MIN_LOG2_def)
qed


text \<open>
  The allocator relies on the first page of a bucket having a free block when any page of the bucket has one.  The page that was first
  goes to the end when another one is put in front, though: with the full pages 0 and 1 in a bucket, a new page 2, the
  release of a block of page 0 and its allocation again leave page 1, full, in front of page 2, which has free blocks.
\<close>

theorem full_page_first:
  assumes "page_ring pm (bk 4) [0, 1]"
  shows "case move_page_back (move_page_front (add_page_front (bk, pm) 2 8) 0 8) 0 8 of (bk', pm') \<Rightarrow> page_ring pm' (bk' 4) [1, 2, 0]"
proof -
  have l: "4 = (8 :: nat) - EVL_HEAP_MIN_LOG2" by (simp add: EVL_HEAP_MIN_LOG2_def)
  obtain pm1 where 1: "add_page_front (bk, pm) 2 8 = (bk(4 := 2), pm1)" "page_ring pm1 2 [2, 1, 0]"
    by (rule add_page_front_ring[of pm bk 4 "[0, 1]" 2 8, OF assms _ _ l]) simp_all
  obtain bk2 pm2 where 2: "move_page_front (bk(4 := 2), pm1) 0 8 = (bk2, pm2)" "page_ring pm2 (bk2 4) [0, 1, 2]"
    by (rule move_page_front_ring[of pm1 "bk(4 := 2)" 4 "[2, 1, 0]" 0 8, OF _ _ l]) (use 1(2) in simp_all)
  obtain bk3 pm3 where 3: "move_page_back (bk2, pm2) 0 8 = (bk3, pm3)" "page_ring pm3 (bk3 4) [1, 2, 0]"
    by (rule move_page_back_ring[of pm2 bk2 4 "[0, 1, 2]" 0 8, OF 2(2) _ l]) simp_all
  show ?thesis by (simp add: 1(1) 2(1) 3 del: One_nat_def)
qed

end
