(* ===== verification/Heap_Blocks.thy ===== *)
theory Heap_Blocks
  imports Heap_Sizes Heap_Buckets
begin

text \<open>
  The blocks in use of a heap of one extent, read off the page map: the invariant of the heap, what its parts depend on, and new
  heading pages.
\<close>

section \<open>Blocks\<close>

definition page_addr :: "evl_heap_extent \<Rightarrow> nat \<Rightarrow> nat" where
  "page_addr ext pg = unat (membase ext) + 512 * pg"

text \<open>
  A heading page is the first page of a block of whole pages, or a page cut into blocks of one size.  The bytes that go with it, and the blocks
  in use there: address and size.
\<close>

definition page_bytes :: "pgentry \<Rightarrow> nat" where
  "page_bytes e = (if pg_type e = page_list then unat (pg_map e) else 512)"

definition page_span :: "evl_heap_extent \<Rightarrow> nat \<Rightarrow> nat set" where
  "page_span ext pg = {page_addr ext pg..<page_addr ext pg + page_bytes (ext_map ext pg)}"

definition page_blocks :: "evl_heap_extent \<Rightarrow> nat \<Rightarrow> (nat \<times> nat) set" where
  "page_blocks ext pg =
     (let e = ext_map ext pg; t = unat (pg_type e) in
      if pg_type e = page_list then {(page_addr ext pg, unat (pg_map e))}
      else (\<lambda>n. (page_addr ext pg + n * 2 ^ t, 2 ^ t)) ` {n. n < 512 div 2 ^ t \<and> bit (pg_map e) n})"

definition entry_ok :: "pgentry \<Rightarrow> bool" where
  "entry_ok e \<longleftrightarrow> pg_type e = page_list \<or>
     (let t = unat (pg_type e) in 4 \<le> t \<and> t \<le> 8 \<and> (\<forall>n<32. 512 div 2 ^ t \<le> n \<longrightarrow> bit (pg_map e) n) \<and>
        (\<exists>n<512 div 2 ^ t. bit (pg_map e) n))"

definition heads_ok :: "evl_heap_extent \<Rightarrow> nat set \<Rightarrow> bool" where
  "heads_ok ext H \<longleftrightarrow>
     (\<forall>p\<in>H. entry_ok (ext_map ext p) \<and> in_extent ext (page_addr ext p) (page_bytes (ext_map ext p))) \<and>
     (\<forall>p\<in>H. \<forall>q\<in>H. p \<noteq> q \<longrightarrow> page_span ext p \<inter> page_span ext q = {})"

text \<open>Every bucket lists the heading pages cut into blocks of its size.\<close>

definition buckets_ok :: "(nat \<Rightarrow> u32) \<Rightarrow> evl_heap_extent \<Rightarrow> nat set \<Rightarrow> bool" where
  "buckets_ok bk ext H \<longleftrightarrow> (\<forall>i<EVL_HEAP_MAX_BUCKETS. \<exists>ps. page_ring (ext_map ext) (bk i) ps \<and>
     set ps = {p\<in>H. unat (pg_type (ext_map ext p)) = i + EVL_HEAP_MIN_LOG2})"

definition heap_inv :: "heap_mem \<times> evl_heap \<Rightarrow> evl_heap_extent \<Rightarrow> nat set \<Rightarrow> addr list \<Rightarrow> bool" where
  "heap_inv st ext H rs \<longleftrightarrow> extents (snd st) = [ext] \<and> pool_ok (fst st) ext rs \<and>
     unat (memlim ext) - unat (membase ext) \<le> 2 ^ 31 \<and> heads_ok ext H \<and> buckets_ok (buckets (snd st)) ext H \<and>
     (\<forall>p\<in>H. page_span ext p \<inter> pool_free (fst st) rs = {})"

definition live :: "evl_heap_extent \<Rightarrow> nat set \<Rightarrow> (nat \<times> nat) set" where
  "live ext H = (\<Union>p\<in>H. page_blocks ext p)"

section \<open>What depends on what\<close>

text \<open>The blocks of a page depend on its type and its map alone.\<close>

definition same_use :: "pgentry \<Rightarrow> pgentry \<Rightarrow> bool" where
  "same_use e e' \<longleftrightarrow> pg_type e' = pg_type e \<and> pg_map e' = pg_map e"

lemma same_useD:
  assumes "same_use e e'"
  shows "pg_type e' = pg_type e" "pg_map e' = pg_map e" "page_bytes e' = page_bytes e" "entry_ok e' = entry_ok e"
  using assms by (auto simp: same_use_def page_bytes_def entry_ok_def)

text \<open>The heading pages keep their use, and the extent its bounds.\<close>

definition heads_kept :: "evl_heap_extent \<Rightarrow> evl_heap_extent \<Rightarrow> nat set \<Rightarrow> bool" where
  "heads_kept ext ext' H \<longleftrightarrow> membase ext' = membase ext \<and> memlim ext' = memlim ext \<and>
     (\<forall>p\<in>H. same_use (ext_map ext p) (ext_map ext' p))"

lemma page_addr_kept: "membase ext' = membase ext \<Longrightarrow> page_addr ext' p = page_addr ext p"
  by (simp add: page_addr_def)

lemma heads_kept_page:
  assumes "heads_kept ext ext' H" and "p \<in> H"
  shows "page_span ext' p = page_span ext p" and "page_blocks ext' p = page_blocks ext p"
  using assms by (auto simp: heads_kept_def page_span_def page_addr_def page_blocks_def Let_def same_useD)

lemma heads_kept_live: "heads_kept ext ext' H \<Longrightarrow> live ext' H = live ext H"
  unfolding live_def by (intro SUP_cong refl heads_kept_page)

lemma heads_kept_ok:
  assumes "heads_kept ext ext' H" and "heads_ok ext H"
  shows "heads_ok ext' H"
proof -
  have i: "in_extent ext' = in_extent ext" using assms(1) by (simp add: heads_kept_def in_extent_def)
  have "entry_ok (ext_map ext' p) = entry_ok (ext_map ext p)" "page_bytes (ext_map ext' p) = page_bytes (ext_map ext p)"
    "page_addr ext' p = page_addr ext p" if "p \<in> H" for p
    using assms(1) that by (auto simp: heads_kept_def page_addr_def same_useD)
  with assms(2) heads_kept_page(1)[OF assms(1)] show ?thesis unfolding heads_ok_def i by auto
qed

lemma page_ring_cong:
  assumes "\<forall>p\<in>set ps. pg_next (pm' p) = pg_next (pm p) \<and> pg_prev (pm' p) = pg_prev (pm p)"
  shows "page_ring pm' first ps = page_ring pm first ps"
proof -
  have "linked (next_of pm') (prev_of pm') ps = linked (next_of pm) (prev_of pm) ps"
    using assms by (intro linked_cong) (auto simp: next_of_def prev_of_def)
  then show ?thesis by (simp add: page_ring_def)
qed

section \<open>Blocks in use are disjoint\<close>

lemma page_blocks_span:
  assumes "entry_ok (ext_map ext p)" and "(a, n) \<in> page_blocks ext p"
  shows "{a..<a + n} \<subseteq> page_span ext p"
proof -
  let ?t = "unat (pg_type (ext_map ext p))"
  show "{a..<a + n} \<subseteq> page_span ext p"
  proof (cases "pg_type (ext_map ext p) = page_list")
    case True
    with assms(2) show ?thesis by (auto simp: page_blocks_def page_span_def page_bytes_def Let_def)
  next
    case False
    with assms obtain k where k: "k < 512 div 2 ^ ?t" "a = page_addr ext p + k * 2 ^ ?t" "n = 2 ^ ?t"
      by (auto simp: page_blocks_def Let_def)
    have "Suc k * 2 ^ ?t \<le> 512 div 2 ^ ?t * 2 ^ ?t" using k(1) by (intro mult_le_mono1) simp
    also have "\<dots> \<le> 512" by simp
    finally have "k * 2 ^ ?t + 2 ^ ?t \<le> 512" by simp
    then show ?thesis using False by (auto simp: page_span_def page_bytes_def k)
  qed
qed

lemma page_blocks_disjoint:
  assumes "(a, n) \<in> page_blocks ext p" and "(b, k) \<in> page_blocks ext p" and "(a, n) \<noteq> (b, k)"
  shows "{a..<a + n} \<inter> {b..<b + k} = {}"
proof -
  let ?t = "unat (pg_type (ext_map ext p))"
  have "pg_type (ext_map ext p) \<noteq> page_list" using assms by (auto simp: page_blocks_def Let_def)
  with assms obtain i j where a: "a = page_addr ext p + i * 2 ^ ?t" "n = 2 ^ ?t" and b: "b = page_addr ext p + j * 2 ^ ?t" "k = 2 ^ ?t"
    by (auto simp: page_blocks_def Let_def)
  with assms(3) have "i < j \<or> j < i" by auto
  moreover have m: "i * 2 ^ ?t + 2 ^ ?t \<le> j * 2 ^ ?t" if "i < j" for i j :: nat
    using mult_le_mono1[of "Suc i" j "2 ^ ?t"] that by simp
  ultimately show ?thesis unfolding a b
  proof (elim disjE)
    assume "i < j"
    from m[OF this] show "{page_addr ext p + i * 2 ^ ?t..<page_addr ext p + i * 2 ^ ?t + 2 ^ ?t} \<inter>
        {page_addr ext p + j * 2 ^ ?t..<page_addr ext p + j * 2 ^ ?t + 2 ^ ?t} = {}" by auto
  next
    assume "j < i"
    from m[OF this] show "{page_addr ext p + i * 2 ^ ?t..<page_addr ext p + i * 2 ^ ?t + 2 ^ ?t} \<inter>
        {page_addr ext p + j * 2 ^ ?t..<page_addr ext p + j * 2 ^ ?t + 2 ^ ?t} = {}" by auto
  qed
qed

lemma live_disjoint:
  assumes "heads_ok ext H" and "(a, n) \<in> live ext H" and "(b, k) \<in> live ext H" and "(a, n) \<noteq> (b, k)"
  shows "{a..<a + n} \<inter> {b..<b + k} = {}"
proof -
  from assms(2,3) obtain p q where p: "p \<in> H" "(a, n) \<in> page_blocks ext p" and q: "q \<in> H" "(b, k) \<in> page_blocks ext q"
    by (auto simp: live_def)
  show ?thesis
  proof (cases "p = q")
    case True
    with p q assms(4) show ?thesis by (intro page_blocks_disjoint) auto
  next
    case False
    with p(1) q(1) assms(1) have "page_span ext p \<inter> page_span ext q = {}" "entry_ok (ext_map ext p)" "entry_ok (ext_map ext q)"
      by (auto simp: heads_ok_def)
    with page_blocks_span[OF _ p(2)] page_blocks_span[OF _ q(2)] show ?thesis by blast
  qed
qed

lemma live_in_extent:
  assumes "heads_ok ext H" and "(a, n) \<in> live ext H"
  shows "unat (membase ext) \<le> a \<and> a + n \<le> unat (memlim ext) \<and> 0 < n"
proof -
  from assms(2) obtain p where p: "p \<in> H" "(a, n) \<in> page_blocks ext p" by (auto simp: live_def)
  from p(1) assms(1) have e: "entry_ok (ext_map ext p)" "in_extent ext (page_addr ext p) (page_bytes (ext_map ext p))"
    by (auto simp: heads_ok_def)
  have n: "0 < n" using p(2) e(2)
    by (auto simp: page_blocks_def Let_def in_extent_def pages_in_def page_bytes_def split: if_split_asm)
  have "{a..<a + n} \<subseteq> page_span ext p" by (rule page_blocks_span[OF e(1) p(2)])
  then have "a \<in> page_span ext p" "a + n - 1 \<in> page_span ext p" using n by auto
  then show ?thesis using n e(2) unfolding page_span_def in_extent_def pages_in_def by auto
qed

lemma finite_page_blocks: "finite (page_blocks ext p)"
proof -
  have "finite {n. n < 512 div 2 ^ unat (pg_type (ext_map ext p)) \<and> bit (pg_map (ext_map ext p)) n}"
    by (rule finite_subset[of _ "{..<512 div 2 ^ unat (pg_type (ext_map ext p))}"]) auto
  then show ?thesis by (simp add: page_blocks_def Let_def)
qed

lemma head_bound:
  assumes "heads_ok ext H" and "unat (memlim ext) - unat (membase ext) \<le> 2 ^ 31" and "p \<in> H"
  shows "p < 2 ^ 22"
proof -
  have "in_extent ext (page_addr ext p) (page_bytes (ext_map ext p))" using assms by (auto simp: heads_ok_def)
  then have "512 * p < 2 ^ 31" using assms(2) by (auto simp: in_extent_def pages_in_def page_addr_def)
  then show ?thesis by simp
qed

lemma finite_live:
  assumes "heads_ok ext H" and "unat (memlim ext) - unat (membase ext) \<le> 2 ^ 31"
  shows "finite H" and "finite (live ext H)"
proof -
  show "finite H" using head_bound[OF assms] by (intro finite_subset[of H "{..<2 ^ 22}"]) auto
  then show "finite (live ext H)" by (simp add: live_def finite_page_blocks)
qed


section \<open>A new heading page\<close>

lemma new_head:
  assumes inv: "heap_inv (hm, hp) ext H rs"
    and pool: "pool_ok hm' ext' rs'" "pool_free hm' rs' = pool_free hm rs - taken ext pg bs" "taken ext pg bs \<subseteq> pool_free hm rs"
      "in_extent ext (page_addr ext (unat pg)) (unat bs)"
    and kept: "heads_kept ext ext' H"
    and entry: "entry_ok (ext_map ext' (unat pg))" "page_bytes (ext_map ext' (unat pg)) = unat bs"
    and hp': "extents hp' = [ext']" "buckets_ok (buckets hp') ext' (insert (unat pg) H)"
  shows "heap_inv (hm', hp') ext' (insert (unat pg) H) rs'"
    and "live ext' (insert (unat pg) H) = page_blocks ext' (unat pg) \<union> live ext H"
proof -
  let ?p = "unat pg"
  have h: "heads_ok ext H" "\<forall>p\<in>H. page_span ext p \<inter> pool_free hm rs = {}" using inv by (simp_all add: heap_inv_def)
  have m: "membase ext' = membase ext" "memlim ext' = memlim ext" using kept by (simp_all add: heads_kept_def)
  have sp: "page_span ext' ?p = taken ext pg bs"
    by (simp add: page_span_def entry(2) taken_def page_addr_def m)
  have old: "page_span ext' p = page_span ext p" if "p \<in> H" for p by (rule heads_kept_page(1)[OF kept that])
  have dis: "page_span ext' ?p \<inter> page_span ext' p = {}" if "p \<in> H" for p
    using h(2) that pool(3) unfolding sp old[OF that] by auto
  have i: "in_extent ext' = in_extent ext" by (simp add: in_extent_def m)
  have "heads_ok ext' (insert ?p H)"
    using heads_kept_ok[OF kept h(1)] entry pool(4) dis
    by (auto simp: heads_ok_def i page_addr_kept[OF m(1)] Int_commute)
  moreover have "page_span ext' p \<inter> pool_free hm' rs' = {}" if "p \<in> insert ?p H" for p
    using that h(2) old sp unfolding pool(2) by auto
  ultimately show "heap_inv (hm', hp') ext' (insert ?p H) rs'"
    using inv pool(1) hp' m by (auto simp: heap_inv_def)
  show "live ext' (insert ?p H) = page_blocks ext' ?p \<union> live ext H"
    using heads_kept_live[OF kept] by (simp add: live_def)
qed

text \<open>The pages taken out of the pool are not heading pages.\<close>

lemma taken_not_head:
  assumes "heap_inv (hm, hp) ext H rs" and "taken ext pg bs \<subseteq> pool_free hm rs" and "q \<in> H"
  shows "q \<notin> {unat pg..<unat pg + unat bs div 512}"
proof
  assume q: "q \<in> {unat pg..<unat pg + unat bs div 512}"
  have "page_span ext q \<inter> pool_free hm rs = {}" "0 < page_bytes (ext_map ext q)"
    using assms(1,3) by (auto simp: heap_inv_def heads_ok_def in_extent_def pages_in_def)
  moreover from this have "page_addr ext q \<in> page_span ext q" by (simp add: page_span_def)
  moreover have "512 * q < 512 * unat pg + unat bs" using q by auto
  then have "page_addr ext q \<in> taken ext pg bs" using q by (simp add: taken_def page_addr_def)
  ultimately show False using assms(2) by blast
qed

text \<open>The page number and the address of the pages taken.\<close>

lemma taken_page:
  assumes "heap_inv (hm, hp) ext H rs" and "in_extent ext (unat (membase ext) + 512 * unat pg) (unat bs)"
    and "membase ext' = membase ext"
  shows "unat pg < 2 ^ 22" and "unat bs \<le> 2 ^ 31" and "unat (pagenr_to_addr ext' pg) = page_addr ext (unat pg)"
    and "pagenr_to_addr ext' pg \<noteq> NULL"
proof -
  have e: "extent_ok ext" "unat (memlim ext) - unat (membase ext) \<le> 2 ^ 31" using assms(1) by (auto simp: heap_inv_def pool_ok_def)
  have b: "unat (membase ext) + 512 * unat pg + unat bs \<le> unat (memlim ext)" "0 < unat bs" "0 < unat (membase ext)"
    using assms(2) e(1) by (auto simp: in_extent_def pages_in_def extent_ok_def)
  then have l: "512 * unat pg + unat bs \<le> 2 ^ 31" using e(2) by linarith
  with b(2) show p: "unat pg < 2 ^ 22" and "unat bs \<le> 2 ^ 31" by auto
  have "unat (membase ext') + 512 * unat pg < 2 ^ 64"
    using b unsigned_less[of "memlim ext", where ?'a = nat] by (simp add: assms(3))
  from pagenr_addr[OF p this] show a: "unat (pagenr_to_addr ext' pg) = page_addr ext (unat pg)"
    by (simp add: page_addr_def assms(3))
  have "unat (pagenr_to_addr ext' pg) \<noteq> 0" using b(3) unfolding a by (simp add: page_addr_def)
  then show "pagenr_to_addr ext' pg \<noteq> NULL" by auto
qed

text \<open>The new block is none of the old ones: these do not meet the free bytes.\<close>

lemma live_not_free:
  assumes "heap_inv (hm, hp) ext H rs" and "(a, n) \<in> live ext H"
  shows "{a..<a + n} \<inter> pool_free hm rs = {}"
proof -
  from assms(2) obtain p where p: "p \<in> H" "(a, n) \<in> page_blocks ext p" by (auto simp: live_def)
  then have "entry_ok (ext_map ext p)" "page_span ext p \<inter> pool_free hm rs = {}"
    using assms(1) by (auto simp: heap_inv_def heads_ok_def)
  with page_blocks_span[OF _ p(2)] show ?thesis by blast
qed

section \<open>Changes of one bucket\<close>

lemma log_consts: "EVL_HEAP_MIN_LOG2 = 4" "EVL_HEAP_MAX_BUCKETS = 5"
  by (simp_all add: EVL_HEAP_MIN_LOG2_def EVL_HEAP_MAX_BUCKETS_def EVL_HEAP_PAGE_SHIFT_def)

definition pages_of :: "evl_heap_extent \<Rightarrow> nat set \<Rightarrow> nat \<Rightarrow> nat set" where
  "pages_of ext H t = {p\<in>H. unat (pg_type (ext_map ext p)) = t}"

lemma buckets_okD:
  assumes "heap_inv (hm, hp) ext H rs" and "4 \<le> t" and "t \<le> 8"
  obtains ps where "page_ring (ext_map ext) (buckets hp (t - EVL_HEAP_MIN_LOG2)) ps" and "set ps = pages_of ext H t"
proof -
  have "t - 4 < 5" using assms(3) by simp
  with assms(1) obtain ps where "page_ring (ext_map ext) (buckets hp (t - 4)) ps" "set ps = pages_of ext H (t - 4 + 4)"
    by (auto simp: heap_inv_def buckets_ok_def log_consts pages_of_def)
  with assms(2) show thesis by (intro that) (simp_all add: log_consts)
qed

lemma buckets_ok_update:
  assumes "buckets_ok bk ext H" and "4 \<le> t"
    and "page_ring (ext_map ext') (bk' (t - EVL_HEAP_MIN_LOG2)) qs" and "set qs = pages_of ext' H' t"
    and "\<forall>i. i \<noteq> t - EVL_HEAP_MIN_LOG2 \<longrightarrow> bk' i = bk i"
    and "\<forall>u. u \<noteq> t \<longrightarrow> 4 \<le> u \<longrightarrow> pages_of ext' H' u = pages_of ext H u"
    and "\<forall>q\<in>H. unat (pg_type (ext_map ext q)) \<noteq> t \<longrightarrow> pg_next (ext_map ext' q) = pg_next (ext_map ext q) \<and>
      pg_prev (ext_map ext' q) = pg_prev (ext_map ext q)"
  shows "buckets_ok bk' ext' H'"
  unfolding buckets_ok_def
proof (intro allI impI)
  fix i assume i: "i < EVL_HEAP_MAX_BUCKETS"
  show "\<exists>ps. page_ring (ext_map ext') (bk' i) ps \<and> set ps = {p\<in>H'. unat (pg_type (ext_map ext' p)) = i + EVL_HEAP_MIN_LOG2}"
  proof (cases "i + 4 = t")
    case True
    then have "t - EVL_HEAP_MIN_LOG2 = i" by (simp add: log_consts)
    with assms(3,4) True show ?thesis by (auto simp: pages_of_def log_consts)
  next
    case False
    obtain ps where ps: "page_ring (ext_map ext) (bk i) ps" "set ps = pages_of ext H (i + 4)"
      using assms(1) i by (auto simp: buckets_ok_def pages_of_def log_consts)
    have "page_ring (ext_map ext') (bk i) ps = page_ring (ext_map ext) (bk i) ps"
      using assms(7) False ps(2) by (intro page_ring_cong) (auto simp: pages_of_def)
    moreover have "bk' i = bk i" using assms(2,5) False by (auto simp: log_consts)
    moreover have "set ps = pages_of ext' H' (i + 4)" using ps(2) assms(6) False by simp
    ultimately show ?thesis using ps(1) by (auto simp: pages_of_def log_consts)
  qed
qed

lemma buckets_ok_same:
  assumes "buckets_ok bk ext H" and "\<forall>t\<ge>4. pages_of ext' H' t = pages_of ext H t"
    and "\<forall>q\<in>H'. pg_next (ext_map ext' q) = pg_next (ext_map ext q) \<and> pg_prev (ext_map ext' q) = pg_prev (ext_map ext q)"
  shows "buckets_ok bk ext' H'"
  unfolding buckets_ok_def
proof (intro allI impI)
  fix i assume "i < EVL_HEAP_MAX_BUCKETS"
  then obtain ps where ps: "page_ring (ext_map ext) (bk i) ps" "set ps = pages_of ext H (i + 4)"
    using assms(1) by (auto simp: buckets_ok_def pages_of_def log_consts)
  have s: "set ps = pages_of ext' H' (i + 4)" using ps(2) assms(2) by simp
  then have "page_ring (ext_map ext') (bk i) ps = page_ring (ext_map ext) (bk i) ps"
    using assms(3) by (intro page_ring_cong) (auto simp: pages_of_def)
  with ps(1) s show "\<exists>ps. page_ring (ext_map ext') (bk i) ps \<and>
      set ps = {p\<in>H'. unat (pg_type (ext_map ext' p)) = i + EVL_HEAP_MIN_LOG2}"
    by (intro exI[of _ ps]) (simp add: pages_of_def log_consts)
qed

end
