(* ===== verification/Heap_Alloc_Ok.thy ===== *)
theory Heap_Alloc_Ok
  imports Heap_Blocks
begin

text \<open>
  Allocation from a heap of one extent: of whole pages, of the first block of a new page, of a free block of a page.  Each keeps the
  invariant of the heap and hands out bytes no block in use has.
\<close>

section \<open>Allocation of pages\<close>

text \<open>What an allocation of \<open>n\<close> bytes does: nothing, or a new block of this size, disjoint from the blocks in use.\<close>

definition allocates :: "heap_mem \<times> evl_heap \<Rightarrow> evl_heap_extent \<Rightarrow> nat set \<Rightarrow> addr list \<Rightarrow> nat \<Rightarrow> (heap_mem \<times> evl_heap) \<times> addr \<Rightarrow> bool" where
  "allocates st ext H rs n r \<longleftrightarrow>
     (if snd r = NULL then fst r = st
      else \<exists>ext' H' rs'. heap_inv (fst r) ext' H' rs' \<and> (unat (snd r), n) \<notin> live ext H \<and>
        live ext' H' = insert (unat (snd r), n) (live ext H) \<and> 0 < n \<and>
        used_size (snd (fst r)) = used_size (snd st) + of_nat n \<and> membase ext' = membase ext \<and> memlim ext' = memlim ext)"

lemma allocatesI:
  assumes "b \<noteq> NULL" "heap_inv st' ext' H' rs'" "(unat b, n) \<notin> live ext H" "live ext' H' = insert (unat b, n) (live ext H)"
    "0 < n" "used_size (snd st') = used_size (snd st) + of_nat n" "membase ext' = membase ext" "memlim ext' = memlim ext"
  shows "allocates st ext H rs n (st', b)"
  using assms by (auto simp: allocates_def)

text \<open>The outcome of a reservation in the terms of the heap.\<close>

lemma reserve_outcome:
  assumes inv: "heap_inv (hm, hp) ext H rs" and bs: "512 dvd unat bs" "0 < unat bs" "unat bs < 2 ^ 63"
  obtains (none) "reserve_page_range (hm, ext) bs = Some ((hm, ext), - 1)" "\<forall>r\<in>set rs. range_size hm r < bs"
  | (pages) hm' ext' pg rs' where "reserve_page_range (hm, ext) bs = Some ((hm', ext'), pg)" "pool_ok hm' ext' rs'"
    "membase ext' = membase ext" "memlim ext' = memlim ext" "ext_map ext' = ext_map ext" "0 \<le> sint pg"
    "taken ext pg bs \<subseteq> pool_free hm rs" "in_extent ext (page_addr ext (unat pg)) (unat bs)"
    "pool_free hm' rs' = pool_free hm rs - taken ext pg bs" "\<not> (\<forall>r\<in>set rs. range_size hm r < bs)"
proof -
  have pool: "pool_ok hm ext rs" using inv by (simp add: heap_inv_def)
  obtain hm' ext' pg rs' where r: "reserve_page_range (hm, ext) bs = Some ((hm', ext'), pg)" "pool_ok hm' ext' rs'"
    "pool_frame (hm, ext) (hm', ext')" "ext_map ext' = ext_map ext"
    and c: "if pg = - 1 then hm' = hm \<and> ext' = ext \<and> rs' = rs \<and> (\<forall>r\<in>set rs. range_size hm r < bs)
     else 0 \<le> sint pg \<and> taken ext pg bs \<subseteq> pool_free hm rs \<and>
       in_extent ext (unat (membase ext) + 512 * unat pg) (unat bs) \<and>
       pool_free hm' rs' = pool_free hm rs - taken ext pg bs"
    using reserve_page_range_ok[OF pool bs] by blast
  show thesis
  proof (cases "pg = - 1")
    case True
    with r(1) c show thesis by (intro none) simp_all
  next
    case False
    have "\<not> (\<forall>r\<in>set rs. range_size hm r < bs)"
    proof
      assume a: "\<forall>r\<in>set rs. range_size hm r < bs"
      obtain r' where r': "find_suitable_range hm ext bs = Some r'" "r' \<noteq> NULL \<longrightarrow> r' \<in> set rs \<and> bs \<le> range_size hm r'"
        using find_suitable_ok[OF pool bs(3)] by (auto split: if_splits)
      with a have "r' = NULL" by (metis not_less)
      with r'(1) r(1) False show False by (simp add: reserve_page_range_def)
    qed
    with r c False show thesis by (intro pages[of hm' ext' pg rs']) (simp_all add: pool_frame_def page_addr_def)
  qed
qed

text \<open>A block inside the bytes just taken is none of the blocks in use.\<close>

lemma taken_not_live:
  assumes "heap_inv (hm, hp) ext H rs" and "taken ext pg bs \<subseteq> pool_free hm rs" and "0 < unat bs" and "0 < n"
    and "a = page_addr ext (unat pg)"
  shows "(a, n) \<notin> live ext H"
proof
  assume "(a, n) \<in> live ext H"
  from live_not_free[OF assms(1) this] assms(4) have "a \<notin> pool_free hm rs" by (metis add_strict_left_mono add.right_neutral atLeastLessThan_iff disjoint_iff order_refl)
  moreover have "a \<in> taken ext pg bs" using assms(3,5) by (simp add: taken_def page_addr_def)
  ultimately show False using assms(2) by blast
qed

lemma alloc_pages:
  assumes inv: "heap_inv (hm, hp) ext H rs" and bs: "512 dvd unat bs" "0 < unat bs" "unat bs < 2 ^ 63"
  shows "\<exists>r. add_free_range opt (hm, hp) bs 0 = Some r \<and> allocates (hm, hp) ext H rs (unat bs) r \<and>
    (snd r = NULL \<longleftrightarrow> (\<forall>r\<in>set rs. range_size hm r < bs))"
proof -
  have ex: "extents hp = [ext]" and pool: "pool_ok hm ext rs" and h: "heads_ok ext H" using inv by (simp_all add: heap_inv_def)
  have al: "align_to bs EVL_HEAP_PAGE_SIZE = bs"
  proof -
    obtain k where k: "unat bs = 512 * k" using bs(1) by blast
    then have "unat (align_to bs EVL_HEAP_PAGE_SIZE) = unat bs" using align_page[of bs] bs(3) by simp
    then show ?thesis by (simp only: word_unat_eq_iff)
  qed
  from inv bs show ?thesis
  proof (cases rule: reserve_outcome)
    case none
    then have "add_free_range opt (hm, hp) bs 0 = Some ((hm, hp), NULL)" using ex by (simp add: add_free_range_def al)
    with none show ?thesis by (simp add: allocates_def)
  next
    case (pages hm' ext' pg rs')
    note r = pages(1,2) and m = pages(3,4) and r4 = pages(5) and c = pages(6-9)
    let ?p = "unat pg"
    define e where "e = (ext_map ext ?p)\<lparr>pg_type := page_list, pg_map := ucast bs\<rparr>"
    define pm where "pm = mark_pages opt ((ext_map ext)(?p := e)) (unat (pg + 1)) (ucast (drop_bit EVL_HEAP_PAGE_SHIFT bs - 1)) page_cont"
    define ext2 where "ext2 = ext'\<lparr>ext_map := pm\<rparr>"
    define hp2 where "hp2 = hp\<lparr>extents := [ext2], used_size := used_size hp + bs\<rparr>"
    note t = taken_page[OF inv c(3)[unfolded page_addr_def], of ext2]
    have m2: "membase ext2 = membase ext" "memlim ext2 = memlim ext" "ext_map ext2 = pm" by (simp_all add: ext2_def m)
    have p1: "unat (pg + 1) = ?p + 1" using t(1) m2 by (simp add: unat_word_ariths)
    have n: "nat (sint (ucast (drop_bit EVL_HEAP_PAGE_SHIFT bs - 1) :: s32)) = unat bs div 512 - 1"
    proof -
      have "unat (drop_bit 9 bs) = unat bs div 512" by (simp add: drop_bit_eq_div unat_div)
      moreover have "0 < unat bs div 512" using bs(1,2) by (auto simp: dvd_def)
      ultimately have "unat (drop_bit 9 bs - 1) = unat bs div 512 - 1"
        by (metis unat_gt_0 unat_minus_one)
      moreover have "unat bs div 512 - 1 < 2 ^ 31" using t(2) m2 by simp
      ultimately have "unat (ucast (drop_bit 9 bs - 1) :: s32) = unat bs div 512 - 1"
        by (simp add: unsigned_ucast_eq take_bit_nat_eq_self)
      with \<open>unat bs div 512 - 1 < 2 ^ 31\<close> show ?thesis
        using sint_small[of "ucast (drop_bit 9 bs - 1)"] by (simp add: EVL_HEAP_PAGE_SHIFT_def)
    qed
    have eq: "add_free_range opt (hm, hp) bs 0 = Some ((hm', hp2), pagenr_to_addr ext2 pg)"
      using r(1) r4 c(1) ex
      by (simp add: add_free_range_def al Let_def upd_entry_def set_ext_def hp2_def ext2_def pm_def e_def not_less)
    have same: "pm q = ext_map ext q" if "q \<in> H" for q
      using taken_not_head[OF inv c(2) that] bs(1,2) unfolding pm_def
      by (subst mark_pages_frame) (auto simp: p1 n dvd_def)
    have pmp: "pm ?p = e" unfolding pm_def by (subst mark_pages_frame) (auto simp: p1)
    have kept: "heads_kept ext ext2 H" using m2 same by (auto simp: heads_kept_def same_use_def)
    have u: "unat (ucast bs :: u32) = unat bs" using t(2) m2 by (simp add: unsigned_ucast_eq take_bit_nat_eq_self)
    have en: "entry_ok (ext_map ext2 ?p)" "page_bytes (ext_map ext2 ?p) = unat bs"
      by (simp_all add: m2 pmp e_def entry_ok_def page_bytes_def u)
    have "buckets_ok (buckets hp) ext2 (insert ?p H)"
    proof (rule buckets_ok_same)
      show "buckets_ok (buckets hp) ext H" using inv by (simp add: heap_inv_def)
      show "\<forall>t\<ge>4. pages_of ext2 (insert ?p H) t = pages_of ext H t"
        using same pmp by (auto simp: pages_of_def m2 e_def page_list_def)
      show "\<forall>q\<in>insert ?p H. pg_next (ext_map ext2 q) = pg_next (ext_map ext q) \<and> pg_prev (ext_map ext2 q) = pg_prev (ext_map ext q)"
        using same pmp by (simp add: m2 e_def)
    qed
    then have "buckets_ok (buckets hp2) ext2 (insert ?p H)" by (simp add: hp2_def)
    moreover have "pool_ok hm' ext2 rs'" using r(2) by (simp add: ext2_def)
    ultimately have "heap_inv (hm', hp2) ext2 (insert ?p H) rs'"
      and "live ext2 (insert ?p H) = page_blocks ext2 ?p \<union> live ext H"
      using new_head[OF inv _ c(4,2,3) kept en, of hp2] by (simp_all add: hp2_def)
    moreover have "page_blocks ext2 ?p = {(unat (pagenr_to_addr ext2 pg), unat bs)}"
      using t(3) m2 by (simp add: page_blocks_def Let_def m2 pmp e_def u page_addr_def)
    moreover have "(unat (pagenr_to_addr ext2 pg), unat bs) \<notin> live ext H"
      using taken_not_live[OF inv c(2) bs(2,2) t(3)] m2 by simp
    ultimately have "allocates (hm, hp) ext H rs (unat bs) ((hm', hp2), pagenr_to_addr ext2 pg)"
      using t(4) m2 bs(2) by (intro allocatesI[of _ _ ext2 "insert ?p H" rs']) (auto simp: hp2_def)
    then show ?thesis using eq t(4) m2 pages(10) by simp
  qed
qed

section \<open>A block of a new page\<close>

lemma log_cases: "4 \<le> t \<Longrightarrow> t \<le> 8 \<Longrightarrow> t \<in> {4, 5, 6, 7, 8 :: nat}"
  by auto

lemma bit_new_map:
  assumes "4 \<le> t" "t \<le> 8"
  shows "{n. n < 512 div 2 ^ t \<and> bit (NOT (gen_block_mask t) OR 1) n} = {0}"
    and "\<forall>n<32. 512 div 2 ^ t \<le> n \<longrightarrow> bit (NOT (gen_block_mask t) OR 1 :: u32) n"
proof -
  have "0 < (512 :: nat) div 2 ^ t" "(512 :: nat) div 2 ^ t \<le> 32" using log_cases[OF assms] by auto
  then show "{n. n < 512 div 2 ^ t \<and> bit (NOT (gen_block_mask t) OR 1) n} = {0}"
    "\<forall>n<32. 512 div 2 ^ t \<le> n \<longrightarrow> bit (NOT (gen_block_mask t) OR 1 :: u32) n"
    using bit_block_mask[OF assms] by (auto simp: bit_simps)
qed

lemma alloc_new_page:
  assumes inv: "heap_inv (hm, hp) ext H rs" and bs: "unat bs = 2 ^ t" "4 \<le> t" "t \<le> 8"
  shows "\<exists>r. add_free_range opt (hm, hp) bs t = Some r \<and> allocates (hm, hp) ext H rs (2 ^ t) r \<and>
    (snd r = NULL \<longleftrightarrow> (\<forall>r\<in>set rs. range_size hm r < 512))"
proof -
  have ex: "extents hp = [ext]" using inv by (simp add: heap_inv_def)
  have t: "t \<in> {4, 5, 6, 7, 8}" using bs by auto
  have al: "align_to bs EVL_HEAP_PAGE_SIZE = 512"
  proof -
    have "unat (align_to bs EVL_HEAP_PAGE_SIZE) = 512" using align_page[of bs] t by (auto simp: bs(1))
    then show ?thesis by (simp add: word_unat_eq_iff)
  qed
  have u512: "512 dvd unat (512 :: u64)" "0 < unat (512 :: u64)" "unat (512 :: u64) < 2 ^ 63" by simp_all
  from inv u512 show ?thesis
  proof (cases rule: reserve_outcome)
    case none
    then have "add_free_range opt (hm, hp) bs t = Some ((hm, hp), NULL)" using ex by (simp add: add_free_range_def al)
    with none show ?thesis by (simp add: allocates_def)
  next
    case (pages hm' ext' pg rs')
    let ?p = "unat pg"
    define map1 where "map1 = (ext_map ext)(?p := (ext_map ext ?p)\<lparr>pg_type := of_nat t, pg_map := NOT (gen_block_mask t) OR 1\<rparr>)"
    have ty: "unat (of_nat t :: 6 word) = t" using t by auto
    have pH: "?p \<notin> H" using taken_not_head[OF inv pages(7), of ?p] by (auto)
    obtain ps where ps: "page_ring (ext_map ext) (buckets hp (t - EVL_HEAP_MIN_LOG2)) ps" "set ps = pages_of ext H t"
      by (rule buckets_okD[OF inv bs(2,3)])
    have pps: "?p \<notin> set ps" using pH ps(2) by (auto simp: pages_of_def)
    have "page_ring map1 (buckets hp (t - EVL_HEAP_MIN_LOG2)) ps"
      using ps(1) pps by (subst page_ring_cong[of _ _ "ext_map ext"]) (auto simp: map1_def)
    moreover note tp = taken_page[OF inv pages(8)[unfolded page_addr_def]]
    have "?p < 2 ^ 23" using tp(1)[of ext] by simp
    ultimately obtain pm where pm: "add_page_front (buckets hp, map1) (of_nat ?p) t = ((buckets hp)(t - EVL_HEAP_MIN_LOG2 := of_nat ?p), pm)"
      "page_ring pm (of_nat ?p) (front ?p ps)" "links_only (insert ?p (set ps)) map1 pm"
      by (rule add_page_front_ring[OF _ _ pps refl])
    define ext2 where "ext2 = ext'\<lparr>ext_map := pm\<rparr>"
    define hp2 where "hp2 = hp\<lparr>extents := [ext2], buckets := (buckets hp)(t - EVL_HEAP_MIN_LOG2 := pg), used_size := used_size hp + bs\<rparr>"
    have m2: "membase ext2 = membase ext" "memlim ext2 = memlim ext" "ext_map ext2 = pm" by (simp_all add: ext2_def pages(3,4))
    have eq: "add_free_range opt (hm, hp) bs t = Some ((hm', hp2), pagenr_to_addr ext2 pg)"
      using pages(1,5,6) ex pm(1) bs(2)
      by (simp add: add_free_range_def al Let_def upd_entry_def on_buckets_def set_ext_def hp2_def ext2_def not_less flip: map1_def)
    have use: "pg_type (pm q) = pg_type (map1 q)" "pg_map (pm q) = pg_map (map1 q)" for q
      using pm(3) by (simp_all add: links_only_def)
    have kept: "heads_kept ext ext2 H" using m2 use pH by (auto simp: heads_kept_def same_use_def map1_def)
    have np: "pg_type (pm ?p) = of_nat t" "pg_map (pm ?p) = NOT (gen_block_mask t) OR 1" "(of_nat t :: 6 word) \<noteq> page_list"
      using ty t by (auto simp: use map1_def page_list_def)
    have en: "entry_ok (ext_map ext2 ?p)" "page_bytes (ext_map ext2 ?p) = unat (512 :: u64)"
      using bit_new_map[OF bs(2,3)] bs(2,3) by (auto simp: m2 np entry_ok_def page_bytes_def ty Let_def)
    have pb: "page_blocks ext2 ?p = {(page_addr ext ?p, 2 ^ t)}"
      using np(3) by (simp add: page_blocks_def Let_def m2 np ty bit_new_map[OF bs(2,3)] page_addr_kept[OF m2(1)])
    have po: "pages_of ext2 (insert ?p H) t = insert ?p (set ps)"
      using pH by (auto simp: pages_of_def m2 np ty ps(2) use map1_def)
    have pu: "pages_of ext2 (insert ?p H) u = pages_of ext H u" if "u \<noteq> t" for u
      using that pH by (auto simp: pages_of_def m2 ty use map1_def)
    have lk: "pm q = ext_map ext q" if "q \<in> H" "unat (pg_type (ext_map ext q)) \<noteq> t" for q
    proof -
      have "q \<notin> insert ?p (set ps)" "q \<noteq> ?p" using that pH by (auto simp: ps(2) pages_of_def)
      with pm(3) show ?thesis by (simp add: links_only_def map1_def)
    qed
    have "buckets_ok (buckets hp2) ext2 (insert ?p H)"
    proof (rule buckets_ok_update[OF _ bs(2), of "buckets hp" ext H _ _ "front ?p ps"])
      show "buckets_ok (buckets hp) ext H" using inv by (simp add: heap_inv_def)
      show "page_ring (ext_map ext2) (buckets hp2 (t - EVL_HEAP_MIN_LOG2)) (front ?p ps)" using pm(2) by (simp add: m2 hp2_def)
      show "set (front ?p ps) = pages_of ext2 (insert ?p H) t" by (simp add: po)
    qed (use pu lk in \<open>simp_all add: hp2_def m2\<close>)
    moreover have "pool_ok hm' ext2 rs'" using pages(2) by (simp add: ext2_def)
    ultimately have "heap_inv (hm', hp2) ext2 (insert ?p H) rs'"
      and "live ext2 (insert ?p H) = page_blocks ext2 ?p \<union> live ext H"
      using new_head[OF inv _ pages(9,7,8) kept en, of hp2] by (simp_all add: hp2_def)
    have bw: "(of_nat (2 ^ t) :: u64) = bs" unfolding bs(1)[symmetric] by simp
    have "allocates (hm, hp) ext H rs (2 ^ t) ((hm', hp2), pagenr_to_addr ext2 pg)"
    proof (rule allocatesI[of _ _ ext2 "insert ?p H" rs'])
      show "pagenr_to_addr ext2 pg \<noteq> NULL" by (rule tp(4)[OF m2(1)])
      show "heap_inv (hm', hp2) ext2 (insert ?p H) rs'" by fact
      show "(unat (pagenr_to_addr ext2 pg), 2 ^ t) \<notin> live ext H"
        unfolding tp(3)[OF m2(1)] by (rule taken_not_live[OF inv pages(7)]) simp_all
      show "live ext2 (insert ?p H) = insert (unat (pagenr_to_addr ext2 pg), 2 ^ t) (live ext H)"
        unfolding tp(3)[OF m2(1)] \<open>live ext2 _ = _\<close> pb by simp
      show "used_size (snd (hm', hp2)) = used_size (snd (hm, hp)) + of_nat (2 ^ t)" unfolding bw by (simp add: hp2_def)
    qed (simp_all add: m2)
    then show ?thesis using eq tp(4)[OF m2(1)] pages(10) by simp
  qed
qed


section \<open>A block of a page in use\<close>

text \<open>The blocks of one heading page and of the others.\<close>

lemma live_page:
  assumes "h \<in> H"
  shows "live ext H = page_blocks ext h \<union> live ext (H - {h})"
    and "heads_ok ext H \<Longrightarrow> (a, n) \<in> live ext (H - {h}) \<Longrightarrow> a \<notin> page_span ext h"
proof -
  show "live ext H = page_blocks ext h \<union> live ext (H - {h})" using assms by (auto simp: live_def)
  assume ok: "heads_ok ext H" and "(a, n) \<in> live ext (H - {h})"
  then obtain q where q: "q \<in> H" "q \<noteq> h" "(a, n) \<in> page_blocks ext q" by (auto simp: live_def)
  have "(a, n) \<in> live ext H" using q by (auto simp: live_def)
  then have "0 < n" using live_in_extent[OF ok] by blast
  moreover have "entry_ok (ext_map ext q)" "page_span ext q \<inter> page_span ext h = {}" using ok assms q by (auto simp: heads_ok_def)
  ultimately show "a \<notin> page_span ext h" using page_blocks_span[OF _ q(3)] by fastforce
qed

text \<open>A step that changes the map of one page cut into blocks, and the links of its bucket.\<close>

lemma change_page:
  assumes inv: "heap_inv (hm, hp) ext H rs" and h: "h \<in> H"
    and ext2: "ext2 = ext\<lparr>ext_map := pm\<rparr>" and same: "\<forall>q\<in>H - {h}. same_use (ext_map ext q) (pm q)"
    and ty: "pg_type (pm h) = pg_type (ext_map ext h)" "pg_type (pm h) \<noteq> page_list" and en: "entry_ok (pm h)"
    and hp2: "extents hp2 = [ext2]" "buckets_ok (buckets hp2) ext2 H"
  shows "heap_inv (hm, hp2) ext2 H rs" and "live ext2 H = page_blocks ext2 h \<union> live ext (H - {h})"
proof -
  have m: "membase ext2 = membase ext" "memlim ext2 = memlim ext" "ext_map ext2 = pm" by (simp_all add: ext2)
  have k: "heads_kept ext ext2 (H - {h})" using same by (simp add: heads_kept_def m)
  have ok: "heads_ok ext H" using inv by (simp add: heap_inv_def)
  have b: "page_bytes (ext_map ext2 q) = page_bytes (ext_map ext q)" "entry_ok (ext_map ext2 q)" if "q \<in> H" for q
  proof -
    have "page_bytes (pm q) = page_bytes (ext_map ext q) \<and> entry_ok (pm q)"
    proof (cases "q = h")
      case True
      with ty en show ?thesis by (simp add: page_bytes_def)
    next
      case False
      with that same have "same_use (ext_map ext q) (pm q)" by blast
      moreover have "entry_ok (ext_map ext q)" using ok that by (simp add: heads_ok_def)
      ultimately show ?thesis by (simp add: same_useD)
    qed
    then show "page_bytes (ext_map ext2 q) = page_bytes (ext_map ext q)" "entry_ok (ext_map ext2 q)" by (simp_all add: m)
  qed
  have i: "in_extent ext2 = in_extent ext" by (simp add: in_extent_def m)
  have sp: "page_span ext2 q = page_span ext q" if "q \<in> H" for q
    using b(1)[OF that] by (simp add: page_span_def page_addr_kept[OF m(1)])
  have "heads_ok ext2 H" using ok b sp by (simp add: heads_ok_def i page_addr_kept[OF m(1)])
  then show "heap_inv (hm, hp2) ext2 H rs" using inv hp2 sp by (simp add: heap_inv_def m) (simp add: ext2)
  show "live ext2 H = page_blocks ext2 h \<union> live ext (H - {h})"
    using live_page(1)[OF h, of ext2] heads_kept_live[OF k] by simp
qed

lemma page_blocks_slots:
  assumes "pg_type (ext_map ext p) \<noteq> page_list"
  shows "(a, n) \<in> page_blocks ext p \<longleftrightarrow> n = 2 ^ unat (pg_type (ext_map ext p)) \<and>
    (\<exists>k<512 div 2 ^ unat (pg_type (ext_map ext p)). bit (pg_map (ext_map ext p)) k \<and>
      a = page_addr ext p + k * 2 ^ unat (pg_type (ext_map ext p)))"
  using assms by (auto simp: page_blocks_def Let_def)

lemma slot_addr:
  assumes "4 \<le> t" "t \<le> 8" "k < 512 div 2 ^ t"
  shows "k < 32" and "k * 2 ^ t + 2 ^ t \<le> 512" and "(k * 2 ^ t :: nat) < 512"
proof -
  show "k < 32" using log_cases[OF assms(1,2)] assms(3) by auto
  have "Suc k * 2 ^ t \<le> 512 div 2 ^ t * 2 ^ t" using assms(3) by (intro mult_le_mono1) simp
  also have "\<dots> \<le> 512" by simp
  finally show "k * 2 ^ t + 2 ^ t \<le> 512" by simp
  moreover have "0 < (2 :: nat) ^ t" by simp
  ultimately show "k * 2 ^ t < 512" by linarith
qed


lemma change_bucket_page:
  assumes inv: "heap_inv (hm, hp) ext H rs" and h: "h \<in> H" and t: "4 \<le> t" "t \<le> 8" "unat (pg_type (ext_map ext h)) = t"
    and ps: "page_ring (ext_map ext) (buckets hp (t - EVL_HEAP_MIN_LOG2)) ps" "set ps = pages_of ext H t"
    and lk: "links_only (set ps) ((ext_map ext)(h := (ext_map ext h)\<lparr>pg_map := m\<rparr>)) pm"
      "page_ring pm (buckets hp2 (t - EVL_HEAP_MIN_LOG2)) qs" "set qs = set ps"
      "\<forall>i. i \<noteq> t - EVL_HEAP_MIN_LOG2 \<longrightarrow> buckets hp2 i = buckets hp i"
    and en: "entry_ok ((ext_map ext h)\<lparr>pg_map := m\<rparr>)"
    and ext2: "ext2 = ext\<lparr>ext_map := pm\<rparr>" "extents hp2 = [ext2]"
  shows "heap_inv (hm, hp2) ext2 H rs" and "live ext2 H = page_blocks ext2 h \<union> live ext (H - {h})"
    and "(a, n) \<in> page_blocks ext2 h \<longleftrightarrow> n = 2 ^ t \<and> (\<exists>k<512 div 2 ^ t. bit m k \<and> a = page_addr ext h + k * 2 ^ t)"
proof -
  have u: "pg_type (pm q) = pg_type (ext_map ext q)" "pg_map (pm q) = (if q = h then m else pg_map (ext_map ext q))" for q
    using lk(1) by (simp_all add: links_only_def)
  have nl: "pg_type (pm h) \<noteq> page_list" using t by (auto simp: u(1) page_list_def)
  have same: "\<forall>q\<in>H - {h}. same_use (ext_map ext q) (pm q)" using u by (simp add: same_use_def)
  have en2: "entry_ok (pm h)" using en u[of h] by (simp add: entry_ok_def)
  have po: "pages_of ext2 H v = pages_of ext H v" for v by (simp add: pages_of_def ext2(1) u)
  have "buckets_ok (buckets hp2) ext2 H"
  proof (rule buckets_ok_update[OF _ t(1), of "buckets hp" ext H _ _ qs])
    show "buckets_ok (buckets hp) ext H" using inv by (simp add: heap_inv_def)
    show "set qs = pages_of ext2 H t" using ps(2) lk(3) po by simp
    have "pm q = ext_map ext q" if "q \<in> H" "unat (pg_type (ext_map ext q)) \<noteq> t" for q
    proof -
      have "q \<notin> set ps" "q \<noteq> h" using that t(3) by (auto simp: ps(2) pages_of_def)
      with lk(1) show ?thesis by (simp add: links_only_def)
    qed
    then show "\<forall>q\<in>H. unat (pg_type (ext_map ext q)) \<noteq> t \<longrightarrow> pg_next (ext_map ext2 q) = pg_next (ext_map ext q) \<and>
      pg_prev (ext_map ext2 q) = pg_prev (ext_map ext q)" by (simp add: ext2(1))
  qed (use lk po in \<open>simp_all add: ext2(1)\<close>)
  note c = change_page[OF inv h ext2(1) same u(1) nl en2 ext2(2) this]
  show "heap_inv (hm, hp2) ext2 H rs" "live ext2 H = page_blocks ext2 h \<union> live ext (H - {h})" by (rule c(1), rule c(2))
  have "pg_type (ext_map ext2 h) \<noteq> page_list" "page_addr ext2 h = page_addr ext h" "pg_map (ext_map ext2 h) = m"
    "unat (pg_type (ext_map ext2 h)) = t"
    using nl u t(3) by (simp_all add: ext2(1) page_addr_def)
  with page_blocks_slots[of ext2 h] show "(a, n) \<in> page_blocks ext2 h \<longleftrightarrow>
      n = 2 ^ t \<and> (\<exists>k<512 div 2 ^ t. bit m k \<and> a = page_addr ext h + k * 2 ^ t)" by simp
qed

lemma bit_push: "bit (push_bit b 1 :: u32) k \<longleftrightarrow> k = b \<and> k < 32"
  by (auto simp: bit_simps)

lemma alloc_in_page:
  assumes inv: "heap_inv (hm, hp) ext H rs" and t: "4 \<le> t" "t \<le> 8" and bs: "unat bs = 2 ^ t"
    and ps: "page_ring (ext_map ext) (buckets hp (t - EVL_HEAP_MIN_LOG2)) (h # qs)" "set (h # qs) = pages_of ext H t"
    and free: "pg_map (ext_map ext h) \<noteq> - 1"
  shows "\<exists>r. alloc_bucketed opt (hm, hp) bs t = Some r \<and> allocates (hm, hp) ext H rs (2 ^ t) r \<and> snd r \<noteq> NULL"
proof -
  have h: "h \<in> H" "unat (pg_type (ext_map ext h)) = t" using ps(2) by (auto simp: pages_of_def)
  have ex: "extents hp = [ext]" using inv by (simp add: heap_inv_def)
  have bk: "buckets hp (t - EVL_HEAP_MIN_LOG2) = of_nat h" "h < 2 ^ 23" using ps(1) by (simp_all add: page_ring_def)
  have uh: "unat (of_nat h :: u32) = h" using bk(2) by (rule unat_of_page)
  have sg: "0 \<le> sint (of_nat h :: u32)" using bk(2) sint_small[of "of_nat h"] uh by simp
  define b where "b = tzcount (NOT (pg_map (ext_map ext h)))"
  have b: "b < 32" "\<not> bit (pg_map (ext_map ext h)) b" using first_clear[OF free] by (simp_all add: b_def)
  have eo: "entry_ok (ext_map ext h)" "pg_type (ext_map ext h) \<noteq> page_list"
    using inv h t by (auto simp: heap_inv_def heads_ok_def page_list_def)
  then have bl: "b < 512 div 2 ^ t" using b h(2) by (auto simp: entry_ok_def Let_def not_less)
  define m where "m = pg_map (ext_map ext h) OR push_bit b 1"
  have bm: "bit m k \<longleftrightarrow> bit (pg_map (ext_map ext h)) k \<or> k = b" for k
    using b(1) by (auto simp: m_def bit_or_iff bit_push simp del: push_bit_of_1)
  have en: "entry_ok ((ext_map ext h)\<lparr>pg_map := m\<rparr>)" using eo bl bm h(2) by (auto simp: entry_ok_def Let_def)
  define map1 where "map1 = (ext_map ext)(h := (ext_map ext h)\<lparr>pg_map := m\<rparr>)"
  have r1: "page_ring map1 (buckets hp (t - EVL_HEAP_MIN_LOG2)) (h # qs)"
    using ps(1) by (subst page_ring_cong[of _ _ "ext_map ext"]) (auto simp: map1_def)
  obtain bk2 pm rs2 where mv: "(if m = - 1 then move_page_back (buckets hp, map1) (of_nat h) t else (buckets hp, map1)) = (bk2, pm)"
    "page_ring pm (bk2 (t - EVL_HEAP_MIN_LOG2)) rs2" "set rs2 = set (h # qs)" "links_only (set (h # qs)) map1 pm"
    "\<forall>i. i \<noteq> t - EVL_HEAP_MIN_LOG2 \<longrightarrow> bk2 i = buckets hp i"
  proof (cases "m = - 1")
    case True
    obtain bk2 pm where "move_page_back (buckets hp, map1) (of_nat h) t = (bk2, pm)"
      "page_ring pm (bk2 (t - EVL_HEAP_MIN_LOG2)) (remove1 h (h # qs) @ [h])" "links_only (set (h # qs)) map1 pm"
      "\<forall>i. i \<noteq> t - EVL_HEAP_MIN_LOG2 \<longrightarrow> bk2 i = buckets hp i"
      using move_page_back_ring[of map1 "buckets hp" "t - EVL_HEAP_MIN_LOG2" "h # qs" h t] r1 by auto
    with True show thesis by (intro that[of bk2 pm "qs @ [h]"]) auto
  next
    case False
    with r1 show thesis by (intro that[of "buckets hp" map1 "h # qs"]) (auto simp: links_only_def)
  qed
  define ext2 where "ext2 = ext\<lparr>ext_map := pm\<rparr>"
  define hp2 where "hp2 = hp\<lparr>extents := [ext2], used_size := used_size hp + bs, buckets := bk2\<rparr>"
  define block where "block = membase ext + scast (push_bit EVL_HEAP_PAGE_SHIFT (of_nat h :: u32)) + push_bit t (of_nat b)"
  have eq: "alloc_bucketed opt (hm, hp) bs t = Some ((hm, hp2), block)"
  proof -
    have "bucket_scan (extents hp) (of_nat h) = Some 0" using sg free by (simp add: ex uh not_less)
    moreover have "t - EVL_HEAP_MIN_LOG2 < EVL_HEAP_MAX_BUCKETS" "EVL_HEAP_MIN_LOG2 \<le> t" using t by (simp_all add: log_consts)
    moreover have "pg_map (ext_map ext h) OR 2 ^ b = m" by (simp add: m_def)
    ultimately have "alloc_bucketed opt (hm, hp) bs t = Some ((hm,
        let hp' = hp\<lparr>extents := [ext\<lparr>ext_map := map1\<rparr>], used_size := used_size hp + bs\<rparr>
        in if m = - 1 then on_buckets (\<lambda>bs. move_page_back bs (of_nat h) t) hp' 0 else hp'), block)"
      by (simp add: alloc_bucketed_def Let_def bk(1) uh ex upd_entry_def set_ext_def block_def map1_def del: bucket_scan.simps flip: b_def)
    moreover have "(let hp' = hp\<lparr>extents := [ext\<lparr>ext_map := map1\<rparr>], used_size := used_size hp + bs\<rparr>
        in if m = - 1 then on_buckets (\<lambda>bs. move_page_back bs (of_nat h) t) hp' 0 else hp') = hp2"
      using mv(1) by (cases "m = - 1"; intro evl_heap.equality) (auto simp: on_buckets_def set_ext_def Let_def hp2_def ext2_def)
    ultimately show ?thesis by simp
  qed
  have sp: "page_addr ext h + b * 2 ^ t < unat (memlim ext)" "b * 2 ^ t < 512"
  proof -
    have "in_extent ext (page_addr ext h) 512" using inv h(1) eo(2) by (auto simp: heap_inv_def heads_ok_def page_bytes_def)
    then show "page_addr ext h + b * 2 ^ t < unat (memlim ext)" "b * 2 ^ t < 512"
      using slot_addr[OF t bl] by (auto simp: in_extent_def pages_in_def)
  qed
  have un: "unat block = page_addr ext h + b * 2 ^ t"
  proof -
    have "unat (of_nat h :: u32) < 2 ^ 22" using head_bound[of ext H h] inv h(1) uh by (simp add: heap_inv_def)
    from shift_page[OF this] have "block = membase ext + of_nat (512 * h + b * 2 ^ t)"
      by (simp add: block_def EVL_HEAP_PAGE_SHIFT_def uh push_bit_eq_mult)
    moreover have "unat (membase ext) + (512 * h + b * 2 ^ t) < 2 ^ 64"
      using sp(1) unsigned_less[of "memlim ext", where ?'a = nat] by (simp add: page_addr_def)
    ultimately show ?thesis using unat_plus_small[of "membase ext"] by (simp only: page_addr_def)
  qed
  note c = change_bucket_page[OF inv h(1) t h(2) ps mv(4)[unfolded map1_def], of hp2 rs2 ext2]
  have c: "heap_inv (hm, hp2) ext2 H rs" "live ext2 H = page_blocks ext2 h \<union> live ext (H - {h})"
    "\<And>a n. (a, n) \<in> page_blocks ext2 h \<longleftrightarrow> n = 2 ^ t \<and> (\<exists>k<512 div 2 ^ t. bit m k \<and> a = page_addr ext h + k * 2 ^ t)"
    using c mv(2,3,5) en by (simp_all add: hp2_def ext2_def)
  have ok: "heads_ok ext H" "0 < unat (membase ext)" using inv by (simp_all add: heap_inv_def pool_ok_def extent_ok_def)
  have "page_addr ext h + b * 2 ^ t \<in> page_span ext h" using sp(2) eo(2) by (simp add: page_span_def page_bytes_def)
  then have "(page_addr ext h + b * 2 ^ t, 2 ^ t) \<notin> live ext (H - {h})" using live_page(2)[OF h(1) ok(1)] by blast
  moreover have "(page_addr ext h + b * 2 ^ t, 2 ^ t) \<notin> page_blocks ext h" using b(2) by (auto simp: page_blocks_slots[OF eo(2)] h(2))
  ultimately have "(page_addr ext h + b * 2 ^ t, 2 ^ t) \<notin> live ext H" by (simp add: live_page(1)[OF h(1)])
  moreover have "live ext2 H = insert (page_addr ext h + b * 2 ^ t, 2 ^ t) (live ext H)"
  proof -
    have "page_blocks ext2 h = insert (page_addr ext h + b * 2 ^ t, 2 ^ t) (page_blocks ext h)"
      using bl bm by (auto simp: c(3) page_blocks_slots[OF eo(2)] h(2))
    then show ?thesis unfolding c(2) live_page(1)[OF h(1), of ext] by simp
  qed
  moreover have bw: "(of_nat (2 ^ t) :: u64) = bs" unfolding bs(1)[symmetric] by simp
  moreover have nn: "block \<noteq> NULL" using un ok(2) by (auto simp: page_addr_def)
  ultimately have "allocates (hm, hp) ext H rs (2 ^ t) ((hm, hp2), block)"
    unfolding un[symmetric] by (intro allocatesI[OF _ c(1)]) (simp_all add: hp2_def ext2_def)
  then show ?thesis using eq nn by simp
qed


section \<open>Allocation\<close>

lemma alloc_bucketed_ok:
  assumes inv: "heap_inv (hm, hp) ext H rs" and t: "4 \<le> t" "t \<le> 8" and bs: "unat bs = 2 ^ t"
  shows "\<exists>r. alloc_bucketed opt (hm, hp) bs t = Some r \<and> allocates (hm, hp) ext H rs (2 ^ t) r \<and>
    (snd r = NULL \<longrightarrow> (\<forall>r\<in>set rs. range_size hm r < 512))"
proof -
  obtain ps where ps: "page_ring (ext_map ext) (buckets hp (t - EVL_HEAP_MIN_LOG2)) ps" "set ps = pages_of ext H t"
    by (rule buckets_okD[OF inv t])
  have ex: "extents hp = [ext]" using inv by (simp add: heap_inv_def)
  have new: "alloc_bucketed opt (hm, hp) bs t = add_free_range opt (hm, hp) bs t"
    if "bucket_scan (extents hp) (buckets hp (t - EVL_HEAP_MIN_LOG2)) = None"
  proof -
    have "EVL_HEAP_MIN_LOG2 \<le> t" "t - EVL_HEAP_MIN_LOG2 < EVL_HEAP_MAX_BUCKETS" using t by (simp_all add: log_consts)
    with that show ?thesis by (simp add: alloc_bucketed_def Let_def)
  qed
  consider (in_page) h qs where "ps = h # qs" "pg_map (ext_map ext h) \<noteq> - 1"
    | (new_page) "bucket_scan (extents hp) (buckets hp (t - EVL_HEAP_MIN_LOG2)) = None"
  proof (cases ps)
    case Nil
    with ps(1) show thesis by (intro new_page) (simp add: page_ring_def ex)
  next
    case (Cons h qs)
    with ps(1) have "buckets hp (t - EVL_HEAP_MIN_LOG2) = of_nat h" "unat (of_nat h :: u32) = h"
      by (simp_all add: page_ring_def unat_of_page)
    then show thesis using Cons by (cases "pg_map (ext_map ext h) = - 1") (auto intro: in_page new_page simp: ex)
  qed
  then show ?thesis
  proof cases
    case in_page
    then show ?thesis using alloc_in_page[OF inv t bs, of h qs] ps by blast
  next
    case new_page
    then show ?thesis using alloc_new_page[OF inv bs t] new by metis
  qed
qed

lemma alloc_ok:
  assumes inv: "heap_inv (hm, hp) ext H rs" and sz: "0 < unat sz" "unat sz < 2 ^ 62"
  shows "\<exists>r. evl_alloc_block_unlocked opt (hm, hp) sz = Some r \<and> unat sz \<le> unat (fst (block_size sz)) \<and>
    allocates (hm, hp) ext H rs (unat (fst (block_size sz))) r \<and>
    (snd r = NULL \<longrightarrow> (\<forall>r\<in>set rs. unat (range_size hm r) < (unat sz + 511) div 512 * 512))"
proof -
  obtain bs lg where b: "block_size sz = (bs, lg)" by force
  note k = block_size_ok[OF sz b]
  have ne: "sz \<noteq> 0" using sz(1) by auto
  have p: "bs < EVL_HEAP_PAGE_SIZE \<longleftrightarrow> unat bs < 512"
    by (simp add: word_less_nat_alt EVL_HEAP_PAGE_SIZE_def EVL_HEAP_PAGE_SHIFT_def)
  show ?thesis
  proof (cases "unat bs < 512")
    case True
    with k have t: "4 \<le> lg" "lg \<le> 8" "unat bs = 2 ^ lg" "unat sz < 512" by auto
    then have "(unat sz + 511) div 512 * 512 = 512" using sz(1) by (auto intro!: div_nat_eqI)
    moreover have "evl_alloc_block_unlocked opt (hm, hp) sz = alloc_bucketed opt (hm, hp) bs lg"
      using ne True b by (simp add: evl_alloc_block_unlocked_def p)
    moreover obtain r where "alloc_bucketed opt (hm, hp) bs lg = Some r" "allocates (hm, hp) ext H rs (2 ^ lg) r"
      "snd r = NULL \<longrightarrow> (\<forall>r\<in>set rs. range_size hm r < 512)"
      using alloc_bucketed_ok[OF inv t(1-3), of opt] by blast
    ultimately show ?thesis using k t(3) b by (intro exI[of _ r]) (simp add: word_less_nat_alt)
  next
    case False
    then have f: "512 \<le> unat bs" by (rule leI)
    note k1 = k[THEN conjunct2, THEN conjunct1] k[THEN conjunct1]
    have e: "unat bs = (unat sz + 511) div 512 * 512" by (rule k[THEN conjunct2, THEN conjunct2, THEN conjunct2, THEN mp, OF f])
    have a: "evl_alloc_block_unlocked opt (hm, hp) sz = add_free_range opt (hm, hp) bs 0"
      using ne False b by (simp add: evl_alloc_block_unlocked_def p)
    have d: "512 dvd unat bs" unfolding e by (rule dvd_triv_right)
    have g: "0 < unat bs" using f by linarith
    obtain r where r: "add_free_range opt (hm, hp) bs 0 = Some r" "allocates (hm, hp) ext H rs (unat bs) r"
      "snd r = NULL \<longleftrightarrow> (\<forall>r\<in>set rs. range_size hm r < bs)"
      using alloc_pages[OF inv d g k1(1), of opt] by blast
    show ?thesis unfolding a b fst_conv e[symmetric] using r k1(2) by (intro exI[of _ r]) (simp add: word_less_nat_alt)
  qed
qed

end
