(* ===== verification/Heap_Free_Ok.thy ===== *)
theory Heap_Free_Ok
  imports Heap_Alloc_Ok
begin

text \<open>
  Release of a block of a heap of one extent: its pages go back to the pool, or its slot becomes free, and the page with it when it was
  the last one in use.
\<close>

section \<open>Release\<close>

lemma pages_count:
  assumes "unat (bs :: u64) \<le> 2 ^ 31"
  shows "nat (sint (ucast (drop_bit EVL_HEAP_PAGE_SHIFT bs) :: s32)) = unat bs div 512"
proof -
  have "unat (drop_bit 9 bs) = unat bs div 512" by (simp add: drop_bit_eq_div unat_div)
  moreover have "unat bs div 512 < 2 ^ 31" using assms by simp
  ultimately have "unat (ucast (drop_bit 9 bs) :: s32) = unat bs div 512" by (simp add: unsigned_ucast_eq take_bit_nat_eq_self)
  with \<open>unat bs div 512 < 2 ^ 31\<close> show ?thesis
    using sint_small[of "ucast (drop_bit 9 bs)"] by (simp add: EVL_HEAP_PAGE_SHIFT_def)
qed

text \<open>Giving the pages of a heading page back to the pool.\<close>

lemma drop_head:
  assumes inv: "heap_inv (hm, hp) ext H rs" and h: "h \<in> H" and bs: "unat bs = page_bytes (ext_map ext h)"
    and ext1: "ext1 = ext\<lparr>ext_map := pm1\<rparr>" "heads_kept ext ext1 (H - {h})" "buckets_ok bk1 ext1 (H - {h})"
  obtains hm' ext' rs' where "release_page_range opt (hm, ext1) (pagenr_to_addr ext1 (of_nat h)) bs = Some (hm', ext')"
    and "\<And>hp'. extents hp' = [ext'] \<Longrightarrow> buckets hp' = bk1 \<Longrightarrow> heap_inv (hm', hp') ext' (H - {h}) rs'"
    and "live ext' (H - {h}) = live ext (H - {h})" and "membase ext' = membase ext" and "memlim ext' = memlim ext"
proof -
  have ok: "heads_ok ext H" "pool_ok hm ext rs" "unat (memlim ext) - unat (membase ext) \<le> 2 ^ 31"
    "\<forall>p\<in>H. page_span ext p \<inter> pool_free hm rs = {}" "extents hp = [ext]"
    using inv by (simp_all add: heap_inv_def)
  have ie: "in_extent ext (page_addr ext h) (unat bs)" using ok(1) h bs by (simp add: heads_ok_def)
  have uh: "unat (of_nat h :: s32) = h" "h < 2 ^ 22" using head_bound[OF ok(1,3) h] by (simp_all add: unat_of_page)
  have m1: "membase ext1 = membase ext" "memlim ext1 = memlim ext" "ext_map ext1 = pm1" by (simp_all add: ext1(1))
  note tp = taken_page[OF inv, of "of_nat h" bs ext1, unfolded uh(1), OF ie[unfolded page_addr_def] m1(1)]
  have sp: "{page_addr ext h..<page_addr ext h + unat bs} = page_span ext h" by (simp add: page_span_def bs)
  have pool1: "pool_ok hm ext1 rs" "in_extent ext1 = in_extent ext" using ok(2) by (simp_all add: ext1(1))
  obtain hm' ext' rs' where r: "release_page_range opt (hm, ext1) (pagenr_to_addr ext1 (of_nat h)) bs = Some (hm', ext')"
    "pool_ok hm' ext' rs'" "pool_free hm' rs' = pool_free hm rs \<union> page_span ext h" "pool_frame (hm, ext1) (hm', ext')"
    "ext_map ext' = mark_pages opt pm1 (unat (addr_to_pagenr ext1 (pagenr_to_addr ext1 (of_nat h))))
      (ucast (drop_bit EVL_HEAP_PAGE_SHIFT bs)) page_free"
    using release_page_range_ok[OF pool1(1), of "pagenr_to_addr ext1 (of_nat h)" bs opt] ie h ok(4) pool1(2)
    unfolding tp(3) sp m1(3) by auto
  have m: "membase ext' = membase ext" "memlim ext' = memlim ext" using r(4) m1 by (simp_all add: pool_frame_def)
  have pn: "unat (addr_to_pagenr ext1 (pagenr_to_addr ext1 (of_nat h))) = h"
  proof -
    have "extent_ok ext1" using ok(2) by (simp add: pool_ok_def ext1(1))
    moreover have "unat (membase ext1) \<le> page_addr ext h" "page_addr ext h < unat (memlim ext1)"
      using ie by (auto simp: in_extent_def pages_in_def m1 page_addr_def)
    ultimately have "unat (addr_to_pagenr ext1 (pagenr_to_addr ext1 (of_nat h))) = (page_addr ext h - unat (membase ext1)) div 512"
      using pagenr(1)[of ext1 "pagenr_to_addr ext1 (of_nat h)"] tp(3) by simp
    then show ?thesis by (simp add: page_addr_def m1)
  qed
  have same: "ext_map ext' q = pm1 q" if q: "q \<in> H - {h}" for q
  proof -
    have "page_span ext h \<inter> page_span ext q = {}" "0 < page_bytes (ext_map ext q)"
      using ok(1) h q by (auto simp: heads_ok_def in_extent_def pages_in_def)
    moreover from this(2) have "page_addr ext q \<in> page_span ext q" by (simp add: page_span_def)
    ultimately have "page_addr ext q \<notin> page_span ext h" by blast
    moreover have "page_addr ext q \<in> page_span ext h" if "q \<in> {h..<h + unat bs div 512}"
    proof -
      have "512 * q < 512 * h + unat bs" using that by auto
      then show ?thesis using that by (simp add: page_span_def page_addr_def bs)
    qed
    ultimately have "q \<notin> {h..<h + unat bs div 512}" by blast
    then show ?thesis unfolding r(5) pn using pages_count[OF tp(2)] by (intro mark_pages_frame) simp
  qed
  have kept: "heads_kept ext ext' (H - {h})" using ext1(2) same m by (simp add: heads_kept_def m1)
  have "buckets_ok bk1 ext' (H - {h})"
    by (rule buckets_ok_same[OF ext1(3)]) (use same in \<open>auto simp: pages_of_def m1(3)\<close>)
  moreover have "heads_ok ext' (H - {h})" by (rule heads_kept_ok[OF kept]) (use ok(1) in \<open>simp add: heads_ok_def\<close>)
  moreover have "page_span ext' p \<inter> pool_free hm' rs' = {}" if "p \<in> H - {h}" for p
  proof -
    have "page_span ext p \<inter> page_span ext h = {}" "page_span ext p \<inter> pool_free hm rs = {}"
      using that ok(1,4) h by (simp_all add: heads_ok_def)
    then show ?thesis unfolding heads_kept_page(1)[OF kept that] r(3) by blast
  qed
  ultimately have "heap_inv (hm', hp') ext' (H - {h}) rs'" if "extents hp' = [ext']" "buckets hp' = bk1" for hp'
    using that r(2) ok(3) by (simp add: heap_inv_def m)
  then show thesis using that[OF r(1)] heads_kept_live[OF kept] m by blast
qed


text \<open>Where the functions find a block: extent, page number and offset in the page.\<close>

lemma locate:
  assumes ok: "heads_ok ext H" and h: "h \<in> H" "(unat block, n) \<in> page_blocks ext h"
  shows "find_extent [ext] block = Some 0" and "unat (drop_bit EVL_HEAP_PAGE_SHIFT (block - membase ext)) = h"
    and "unat ((block - membase ext) AND NOT EVL_HEAP_PAGE_MASK) = unat block - page_addr ext h"
    and "page_addr ext h \<le> unat block"
proof -
  have l: "(unat block, n) \<in> live ext H" using h by (auto simp: live_def)
  note e = live_in_extent[OF ok l]
  then show "find_extent [ext] block = Some 0" by (simp add: word_le_nat_alt word_less_nat_alt)
  have off: "page_addr ext h \<le> unat block \<and> unat block - page_addr ext h < 512"
  proof (cases "pg_type (ext_map ext h) = page_list")
    case True
    with h(2) show ?thesis by (simp add: page_blocks_def Let_def)
  next
    case False
    then obtain k where k: "k < 512 div 2 ^ unat (pg_type (ext_map ext h))"
      "unat block = page_addr ext h + k * 2 ^ unat (pg_type (ext_map ext h))" using h(2) by (auto simp: page_blocks_slots)
    have "entry_ok (ext_map ext h)" using ok h by (simp add: heads_ok_def)
    then have "4 \<le> unat (pg_type (ext_map ext h))" "unat (pg_type (ext_map ext h)) \<le> 8" using False by (simp_all add: entry_ok_def Let_def)
    from slot_addr(3)[OF this k(1)] k(2) show ?thesis by simp
  qed
  then show le: "page_addr ext h \<le> unat block" by simp
  obtain x where x: "unat block = page_addr ext h + x" "x < 512"
    using off that[of "unat block - page_addr ext h"] by simp
  have "unat (block - membase ext) = unat block - unat (membase ext)"
    using e by (intro unat_diff_small) (simp add: word_le_nat_alt)
  then have d: "unat (block - membase ext) = 512 * h + x" by (simp add: x page_addr_def)
  have "(512 * h + x) div 512 = h" "(512 * h + x) mod 512 = x" using x(2) by simp_all
  then show "unat (drop_bit EVL_HEAP_PAGE_SHIFT (block - membase ext)) = h"
    by (simp add: EVL_HEAP_PAGE_SHIFT_def drop_bit_eq_div unat_div d)
  have "NOT EVL_HEAP_PAGE_MASK = mask 9"
    by (simp add: EVL_HEAP_PAGE_MASK_def EVL_HEAP_PAGE_SIZE_def EVL_HEAP_PAGE_SHIFT_def mask_eq_exp_minus_1)
  then have "(block - membase ext) AND NOT EVL_HEAP_PAGE_MASK = take_bit 9 (block - membase ext)" by (simp add: take_bit_eq_mask)
  moreover have "unat (take_bit 9 (block - membase ext)) = unat (block - membase ext) mod 512"
    by (simp only: unsigned_take_bit_eq take_bit_eq_mod[of 9 "unat (block - membase ext)"]) simp
  ultimately show "unat ((block - membase ext) AND NOT EVL_HEAP_PAGE_MASK) = unat block - page_addr ext h"
    using \<open>(512 * h + x) mod 512 = x\<close> by (simp add: d x(1))
qed

lemma block_bytes:
  assumes "4 \<le> t" "t \<le> 8"
  shows "unat (scast (push_bit t 1 :: s32) :: u64) = 2 ^ t" and "(scast (push_bit t 1 :: s32) :: u64) - 1 = mask t"
    and "(scast (push_bit t 1 :: s32) :: u64) < EVL_HEAP_PAGE_SIZE" and "sint (scast (push_bit t 1 :: s32) :: u64) = 2 ^ t"
  using log_cases[OF assms]
  by (auto simp: mask_eq_exp_minus_1 word_less_nat_alt EVL_HEAP_PAGE_SIZE_def EVL_HEAP_PAGE_SHIFT_def)

lemma slot_index:
  fixes off :: u64
  assumes "4 \<le> t" "t \<le> 8" "unat off = k * 2 ^ t"
  shows "off AND mask t = 0" and "unat (drop_bit t off) = k"
proof -
  have "unat (off AND mask t) = unat off mod 2 ^ t"
    by (simp only: unsigned_take_bit_eq take_bit_eq_mod[of t "unat off"] flip: take_bit_eq_mask)
  then show "off AND mask t = 0" using assms(3) by (simp add: unat_eq_0)
  show "unat (drop_bit t off) = k" using log_cases[OF assms(1,2)] assms(3) by (auto simp: drop_bit_eq_div unat_div)
qed


text \<open>What a release does: the block is gone, the others stay.\<close>

definition frees :: "heap_mem \<times> evl_heap \<Rightarrow> evl_heap_extent \<Rightarrow> nat set \<Rightarrow> nat \<times> nat \<Rightarrow> (heap_mem \<times> evl_heap) \<times> int \<Rightarrow> bool" where
  "frees st ext H blk r \<longleftrightarrow> snd r = 0 \<and> (\<exists>ext' H' rs'. heap_inv (fst r) ext' H' rs' \<and> live ext' H' = live ext H - {blk} \<and>
     used_size (snd (fst r)) = used_size (snd st) - of_nat (snd blk) \<and> membase ext' = membase ext \<and> memlim ext' = memlim ext)"

lemma freesI:
  assumes "heap_inv st' ext' H' rs'" "live ext' H' = live ext H - {(a, n)}" "used_size (snd st') = used_size (snd st) - of_nat n"
    "membase ext' = membase ext" "memlim ext' = memlim ext"
  shows "frees st ext H (a, n) (st', 0)"
  using assms by (auto simp: frees_def)

lemma free_pages:
  assumes inv: "heap_inv (hm, hp) ext H rs" and h: "h \<in> H" "(unat block, n) \<in> page_blocks ext h"
    and ty: "pg_type (ext_map ext h) = page_list"
  shows "\<exists>r. evl_free_block_unlocked opt (hm, hp) block = Some r \<and> frees (hm, hp) ext H (unat block, n) r"
proof -
  have ok: "heads_ok ext H" "extents hp = [ext]" using inv by (simp_all add: heap_inv_def)
  note loc = locate[OF ok(1) h]
  have a: "unat block = page_addr ext h" "n = unat (pg_map (ext_map ext h))" using h(2) ty by (simp_all add: page_blocks_def Let_def)
  let ?bs = "ucast (pg_map (ext_map ext h)) :: u64"
  have "unat (pg_map (ext_map ext h)) < 2 ^ 64"
    using unsigned_less[of "pg_map (ext_map ext h)", where ?'a = nat] by (rule less_trans) simp
  then have bs: "unat ?bs = n" by (simp add: a(2) unsigned_ucast_eq take_bit_nat_eq_self)
  have pb: "page_bytes (ext_map ext h) = n" by (simp add: page_bytes_def ty a(2))
  have "512 dvd n" using ok(1) h(1) pb by (auto simp: heads_ok_def in_extent_def pages_in_def)
  then have al: "?bs AND (EVL_HEAP_PAGE_SIZE - 1) = 0"
    using page_mask_iff[of ?bs] bs by (simp add: EVL_HEAP_PAGE_MASK_def)
  have ext1: "ext = ext\<lparr>ext_map := ext_map ext\<rparr>" by simp
  have "buckets_ok (buckets hp) ext (H - {h})"
  proof (rule buckets_ok_same)
    show "buckets_ok (buckets hp) ext H" using inv by (simp add: heap_inv_def)
    show "\<forall>t\<ge>4. pages_of ext (H - {h}) t = pages_of ext H t" using ty by (auto simp: pages_of_def page_list_def)
  qed simp
  moreover have "heads_kept ext ext (H - {h})" by (simp add: heads_kept_def same_use_def)
  ultimately obtain hm' ext' rs' where r: "release_page_range opt (hm, ext) (pagenr_to_addr ext (of_nat h)) ?bs = Some (hm', ext')"
    "\<And>hp'. extents hp' = [ext'] \<Longrightarrow> buckets hp' = buckets hp \<Longrightarrow> heap_inv (hm', hp') ext' (H - {h}) rs'"
    "live ext' (H - {h}) = live ext (H - {h})" "membase ext' = membase ext" "memlim ext' = memlim ext"
    using drop_head[OF inv h(1) _ ext1, of ?bs "buckets hp" opt] bs pb by metis
  let ?hp = "hp\<lparr>extents := [ext'], used_size := used_size hp - ?bs\<rparr>"
  have "evl_free_block_unlocked opt (hm, hp) block = Some ((hm', ?hp), 0)"
    using loc(1,2) r(1) ty al
    by (simp add: evl_free_block_unlocked_def Let_def ok(2) page_is_valid_def page_list_def page_free_def page_cont_def
        release_range_def set_ext_def del: find_extent.simps)
  moreover have "page_addr ext h \<in> page_span ext h" using h live_in_extent[OF ok(1), of "unat block" n] pb a(1)
    by (auto simp: page_span_def live_def)
  then have "(unat block, n) \<notin> live ext (H - {h})" using live_page(2)[OF h(1) ok(1)] a(1) by metis
  then have "live ext (H - {h}) = live ext H - {(unat block, n)}"
    using live_page(1)[OF h(1), of ext] ty a by (simp add: page_blocks_def Let_def insert_absorb)
  moreover have "frees (hm, hp) ext H (unat block, n) ((hm', ?hp), 0)"
  proof (rule freesI[of _ ext' "H - {h}" rs'])
    show "heap_inv (hm', ?hp) ext' (H - {h}) rs'" by (rule r(2)) simp_all
    show "live ext' (H - {h}) = live ext H - {(unat block, n)}" unfolding r(3) by fact
    show "used_size (snd (hm', ?hp)) = used_size (snd (hm, hp)) - of_nat n" unfolding bs[symmetric] by simp
  qed (use r(4,5) in simp_all)
  ultimately show ?thesis by blast
qed


text \<open>The map of a page after a release, and when the page has become empty.\<close>

lemma clear_slot:
  assumes "entry_ok e" "unat (pg_type e) = t" "4 \<le> t" "t \<le> 8" "k < 512 div 2 ^ t"
  defines "m \<equiv> pg_map e AND NOT (push_bit k 1)"
  shows "bit m j \<longleftrightarrow> bit (pg_map e) j \<and> j \<noteq> k"
    and "m = NOT (gen_block_mask t) \<longleftrightarrow> (\<forall>j<512 div 2 ^ t. \<not> bit m j)"
    and "m \<noteq> NOT (gen_block_mask t) \<Longrightarrow> entry_ok (e\<lparr>pg_map := m\<rparr>)"
proof -
  have k: "k < 32" by (rule slot_addr(1)[OF assms(3-5)])
  have b: "bit m j \<longleftrightarrow> bit (pg_map e) j \<and> j \<noteq> k" for j
    using k by (auto simp: m_def bit_and_iff bit_not_iff bit_push simp del: push_bit_of_1 dest: bit_imp_le_length)
  then show "bit m j \<longleftrightarrow> bit (pg_map e) j \<and> j \<noteq> k" .
  have nl: "pg_type e \<noteq> page_list" using assms(2,3) by (auto simp: page_list_def)
  have hi: "bit m j" if "512 div 2 ^ t \<le> j" "j < 32" for j
    using that assms(1,2,5) nl b by (auto simp: entry_ok_def Let_def)
  show e: "m = NOT (gen_block_mask t) \<longleftrightarrow> (\<forall>j<512 div 2 ^ t. \<not> bit m j)"
  proof
    assume z: "\<forall>j<512 div 2 ^ t. \<not> bit m j"
    show "m = NOT (gen_block_mask t)"
    proof (rule bit_word_eqI)
      fix j assume "j < LENGTH(32)"
      then show "bit m j = bit (NOT (gen_block_mask t)) j"
        using z hi[of j] by (auto simp: bit_not_iff bit_block_mask[OF assms(3,4)] not_less)
    qed
  qed (auto simp: bit_not_iff bit_block_mask[OF assms(3,4)])
  assume "m \<noteq> NOT (gen_block_mask t)"
  with e hi show "entry_ok (e\<lparr>pg_map := m\<rparr>)" using assms(2-4) by (auto simp: entry_ok_def Let_def)
qed

lemma free_slot:
  assumes inv: "heap_inv (hm, hp) ext H rs" and h: "h \<in> H" "(unat block, n) \<in> page_blocks ext h"
    and ty: "pg_type (ext_map ext h) \<noteq> page_list"
  shows "\<exists>r. evl_free_block_unlocked opt (hm, hp) block = Some r \<and> frees (hm, hp) ext H (unat block, n) r"
proof -
  have ok: "heads_ok ext H" "extents hp = [ext]" using inv by (simp_all add: heap_inv_def)
  note loc = locate[OF ok(1) h]
  define t where "t = unat (pg_type (ext_map ext h))"
  have eo: "entry_ok (ext_map ext h)" using ok h by (simp add: heads_ok_def)
  with ty have t: "4 \<le> t" "t \<le> 8" by (simp_all add: entry_ok_def Let_def t_def)
  obtain k where k: "n = 2 ^ t" "k < 512 div 2 ^ t" "bit (pg_map (ext_map ext h)) k" "unat block = page_addr ext h + k * 2 ^ t"
    using h(2) by (auto simp: page_blocks_slots[OF ty] t_def)
  let ?off = "(block - membase ext) AND NOT EVL_HEAP_PAGE_MASK" and ?bs = "scast (push_bit t 1 :: s32) :: u64"
  have off: "unat ?off = k * 2 ^ t" using loc(3) k(4) by simp
  have ix: "?off AND (?bs - 1) = 0" "unat (drop_bit t ?off) = k"
    using slot_index[OF t off] by (simp_all only: block_bytes[OF t])
  define m where "m = pg_map (ext_map ext h) AND NOT (push_bit k 1)"
  define map1 where "map1 = (ext_map ext)(h := (ext_map ext h)\<lparr>pg_map := m\<rparr>)"
  note cs = clear_slot[OF eo t_def[symmetric] t k(2), folded m_def]
  obtain ps where ps: "page_ring (ext_map ext) (buckets hp (t - EVL_HEAP_MIN_LOG2)) ps" "set ps = pages_of ext H t"
    by (rule buckets_okD[OF inv t])
  have hps: "h \<in> set ps" using h(1) by (simp add: ps(2) pages_of_def t_def)
  have r1: "page_ring map1 (buckets hp (t - EVL_HEAP_MIN_LOG2)) ps"
    using ps(1) by (subst page_ring_cong[of _ _ "ext_map ext"]) (auto simp: map1_def)
  have addr: "(unat block, n) \<notin> live ext (H - {h})"
  proof -
    have "unat block \<in> page_span ext h" using k slot_addr(3)[OF t k(2)] ty by (simp add: page_span_def page_bytes_def)
    then show ?thesis using live_page(2)[OF h(1) ok(1)] by blast
  qed
  let ?hp = "hp\<lparr>extents := [ext\<lparr>ext_map := map1\<rparr>]\<rparr>"
  let ?fin = "\<lambda>(hm, hp). ((hm, hp\<lparr>used_size := used_size hp - ?bs\<rparr>), 0)"
  have eq: "evl_free_block_unlocked opt (hm, hp) block =
    (if m = NOT (gen_block_mask t)
     then map_option ?fin (release_range opt (hm, on_buckets (\<lambda>bs. remove_page bs (of_nat h) t) ?hp 0) 0 h EVL_HEAP_PAGE_SIZE)
     else Some (?fin (hm, if pg_map (ext_map ext h) = - 1 then on_buckets (\<lambda>bs. move_page_front bs (of_nat h) t) ?hp 0 else ?hp)))"
  proof -
    have "page_is_valid opt (ext_map ext) h" using t by (auto simp: page_is_valid_def page_free_def page_cont_def t_def)
    moreover have "upd_entry hp 0 h (\<lambda>e. e\<lparr>pg_map := pg_map e AND NOT (push_bit k 1)\<rparr>) = ?hp"
      by (simp add: upd_entry_def set_ext_def ok(2) Let_def map1_def m_def)
    moreover have "pg_map (map1 h) = m" by (simp add: map1_def)
    ultimately show ?thesis using loc(1,2) ix block_bytes(3)[OF t] ty
      by (simp add: evl_free_block_unlocked_def Let_def ok(2) del: find_extent.simps push_bit_of_1 flip: t_def)
  qed
  have bw: "?bs = of_nat n" unfolding k(1) using block_bytes(1)[OF t] by (metis of_nat_unat ucast_id)
  show ?thesis
  proof (cases "m = NOT (gen_block_mask t)")
    case True
    obtain bk2 pm where rm: "remove_page (buckets hp, map1) (of_nat h) t = (bk2, pm)"
      "page_ring pm (bk2 (t - EVL_HEAP_MIN_LOG2)) (remove1 h ps)" "links_only (set ps - {h}) map1 pm"
      "\<forall>i. i \<noteq> t - EVL_HEAP_MIN_LOG2 \<longrightarrow> bk2 i = buckets hp i"
      by (rule remove_page_ring[of map1 "buckets hp" "t - EVL_HEAP_MIN_LOG2" ps h t, OF r1 hps refl])
    define ext1 where "ext1 = ext\<lparr>ext_map := pm\<rparr>"
    have u: "pg_type (pm q) = pg_type (ext_map ext q)" "q \<noteq> h \<Longrightarrow> pg_map (pm q) = pg_map (ext_map ext q)" for q
      using rm(3) by (simp_all add: links_only_def map1_def)
    have kept: "heads_kept ext ext1 (H - {h})" using u by (auto simp: heads_kept_def same_use_def ext1_def)
    have d: "distinct ps" using ps(1) by (simp add: page_ring_def)
    have "buckets_ok bk2 ext1 (H - {h})"
    proof (rule buckets_ok_update[OF _ t(1), of "buckets hp" ext H _ _ "remove1 h ps"])
      show "buckets_ok (buckets hp) ext H" using inv by (simp add: heap_inv_def)
      show "page_ring (ext_map ext1) (bk2 (t - EVL_HEAP_MIN_LOG2)) (remove1 h ps)" using rm(2) by (simp add: ext1_def)
      show "set (remove1 h ps) = pages_of ext1 (H - {h}) t" using d by (auto simp: ps(2) pages_of_def ext1_def u(1))
      show "\<forall>v. v \<noteq> t \<longrightarrow> 4 \<le> v \<longrightarrow> pages_of ext1 (H - {h}) v = pages_of ext H v"
        using t_def by (auto simp: pages_of_def ext1_def u(1))
      have "pm q = ext_map ext q" if "q \<in> H" "unat (pg_type (ext_map ext q)) \<noteq> t" for q
      proof -
        have "q \<notin> set ps - {h}" "q \<noteq> h" using that t_def by (auto simp: ps(2) pages_of_def)
        with rm(3) show ?thesis by (simp add: links_only_def map1_def)
      qed
      then show "\<forall>q\<in>H. unat (pg_type (ext_map ext q)) \<noteq> t \<longrightarrow> pg_next (ext_map ext1 q) = pg_next (ext_map ext q) \<and>
        pg_prev (ext_map ext1 q) = pg_prev (ext_map ext q)" by (simp add: ext1_def)
    qed (use rm(4) in simp_all)
    moreover have "unat EVL_HEAP_PAGE_SIZE = page_bytes (ext_map ext h)"
      using ty by (simp add: page_bytes_def EVL_HEAP_PAGE_SIZE_def EVL_HEAP_PAGE_SHIFT_def)
    ultimately obtain hm' ext' rs' where
      r: "release_page_range opt (hm, ext1) (pagenr_to_addr ext1 (of_nat h)) EVL_HEAP_PAGE_SIZE = Some (hm', ext')"
      "\<And>hp'. extents hp' = [ext'] \<Longrightarrow> buckets hp' = bk2 \<Longrightarrow> heap_inv (hm', hp') ext' (H - {h}) rs'"
      "live ext' (H - {h}) = live ext (H - {h})" "membase ext' = membase ext" "memlim ext' = memlim ext"
      using drop_head[OF inv h(1) _ ext1_def kept, of EVL_HEAP_PAGE_SIZE bk2 opt] by metis
    define hp2 where "hp2 = hp\<lparr>extents := [ext'], buckets := bk2, used_size := used_size hp - ?bs\<rparr>"
    have "evl_free_block_unlocked opt (hm, hp) block = Some ((hm', hp2), 0)"
      unfolding eq using True rm(1) r(1)
      by (simp add: on_buckets_def set_ext_def release_range_def hp2_def flip: ext1_def)
    moreover have "frees (hm, hp) ext H (unat block, n) ((hm', hp2), 0)"
    proof (rule freesI[of _ ext' "H - {h}" rs'])
      show "heap_inv (hm', hp2) ext' (H - {h}) rs'" by (rule r(2)) (simp_all add: hp2_def)
      have "page_blocks ext h = {(unat block, n)}"
      proof -
        have "j = k" if "bit (pg_map (ext_map ext h)) j" "j < 512 div 2 ^ t" for j
          using cs(2)[THEN iffD1, OF True] that cs(1)[of j] by blast
        then have "(\<exists>j<512 div 2 ^ t. bit (pg_map (ext_map ext h)) j \<and> a = page_addr ext h + j * 2 ^ t) \<longleftrightarrow>
            a = page_addr ext h + k * 2 ^ t" for a using k(2,3) by blast
        then have "(a, b) \<in> page_blocks ext h \<longleftrightarrow> (a, b) = (unat block, n)" for a b
          unfolding page_blocks_slots[OF ty] t_def[symmetric] k(1,4) prod.inject by blast
        then show ?thesis by auto
      qed
      then show "live ext' (H - {h}) = live ext H - {(unat block, n)}"
        unfolding r(3) live_page(1)[OF h(1), of ext] using addr by blast
      show "used_size (snd (hm', hp2)) = used_size (snd (hm, hp)) - of_nat n" unfolding bw[symmetric] by (simp add: hp2_def)
    qed (use r(4,5) in simp_all)
    ultimately show ?thesis by blast
  next
    case False
    obtain bk2 pm rs2 where mv: "(if pg_map (ext_map ext h) = - 1 then move_page_front (buckets hp, map1) (of_nat h) t
        else (buckets hp, map1)) = (bk2, pm)"
      "page_ring pm (bk2 (t - EVL_HEAP_MIN_LOG2)) rs2" "set rs2 = set ps" "links_only (set ps) map1 pm"
      "\<forall>i. i \<noteq> t - EVL_HEAP_MIN_LOG2 \<longrightarrow> bk2 i = buckets hp i"
    proof (cases "pg_map (ext_map ext h) = - 1")
      case True
      obtain bk2 pm where "move_page_front (buckets hp, map1) (of_nat h) t = (bk2, pm)"
        "page_ring pm (bk2 (t - EVL_HEAP_MIN_LOG2)) (if hd ps = h then ps else front h (remove1 h ps))"
        "links_only (set ps) map1 pm" "\<forall>i. i \<noteq> t - EVL_HEAP_MIN_LOG2 \<longrightarrow> bk2 i = buckets hp i"
        by (rule move_page_front_ring[of map1 "buckets hp" "t - EVL_HEAP_MIN_LOG2" ps h t, OF r1 hps refl])
      moreover have "set (if hd ps = h then ps else front h (remove1 h ps)) = set ps"
        using ps(1) hps by (auto simp: page_ring_def)
      ultimately show thesis using True by (intro that[of bk2 pm "if hd ps = h then ps else front h (remove1 h ps)"]) simp_all
    next
      case False
      with r1 show thesis by (intro that[of "buckets hp" map1 ps]) (auto simp: links_only_def)
    qed
    define ext2 where "ext2 = ext\<lparr>ext_map := pm\<rparr>"
    define hp2 where "hp2 = hp\<lparr>extents := [ext2], buckets := bk2, used_size := used_size hp - ?bs\<rparr>"
    have "evl_free_block_unlocked opt (hm, hp) block = Some ((hm, hp2), 0)"
      unfolding eq using False mv(1)
      by (cases "pg_map (ext_map ext h) = - 1"; simp; intro evl_heap.equality)
        (auto simp: on_buckets_def set_ext_def hp2_def ext2_def)
    moreover have "frees (hm, hp) ext H (unat block, n) ((hm, hp2), 0)"
    proof (rule freesI[of _ ext2 H rs])
      note c = change_bucket_page[OF inv h(1) t t_def[symmetric] ps mv(4)[unfolded map1_def], of hp2 rs2 ext2]
      have c: "heap_inv (hm, hp2) ext2 H rs" "live ext2 H = page_blocks ext2 h \<union> live ext (H - {h})"
        "\<And>a n. (a, n) \<in> page_blocks ext2 h \<longleftrightarrow> n = 2 ^ t \<and> (\<exists>k<512 div 2 ^ t. bit m k \<and> a = page_addr ext h + k * 2 ^ t)"
        using c mv(2,3,5) cs(3)[OF False] by (simp_all add: hp2_def ext2_def)
      show "heap_inv (hm, hp2) ext2 H rs" by (rule c(1))
      have "page_blocks ext2 h = page_blocks ext h - {(unat block, n)}"
        by (auto simp: c(3) page_blocks_slots[OF ty] cs(1) k(1,4) simp flip: t_def)
      then show "live ext2 H = live ext H - {(unat block, n)}"
        unfolding c(2) live_page(1)[OF h(1), of ext] using addr by blast
      show "used_size (snd (hm, hp2)) = used_size (snd (hm, hp)) - of_nat n"
        unfolding bw[symmetric] by (simp add: hp2_def)
    qed (simp_all add: ext2_def)
    ultimately show ?thesis by blast
  qed
qed

end
