(* ===== verification/Block_Store.thy ===== *)
theory Block_Store
  imports Evl_Prelude
begin

text \<open>
  What a client of a block allocator relies on, as a locale, and what follows for every run of a client: the blocks it holds never overlap.
\<close>

section \<open>The contract of a block allocator\<close>

text \<open>
  A client keeps the blocks it was given, each with the size it asked for.  It asks for a block, or gives back the one at a position of its list.
\<close>

datatype 'x request = Get 'x | Put nat

fun client_run :: "('x \<Rightarrow> 's \<Rightarrow> ('s \<times> nat) option) \<Rightarrow> (nat \<Rightarrow> 's \<Rightarrow> ('s \<times> int) option) \<Rightarrow>
    'x request list \<Rightarrow> 's \<Rightarrow> (nat \<times> 'x) list \<Rightarrow> ('s \<times> (nat \<times> 'x) list) option" where
  "client_run alloc free [] s ps = Some (s, ps)"
| "client_run alloc free (Get x # rs) s ps =
     Option.bind (alloc x s) (\<lambda>(s, b). client_run alloc free rs s (if b = 0 then ps else ps @ [(b, x)]))"
| "client_run alloc free (Put i # rs) s ps =
     (if i < length ps
      then Option.bind (free (fst (ps ! i)) s) (\<lambda>(s, ret). if ret = 0 then client_run alloc free rs s (take i ps @ drop (Suc i) ps) else None)
      else client_run alloc free rs s ps)"

text \<open>The blocks of the client are those of the store, at distinct addresses.\<close>

definition owns_by :: "('s \<Rightarrow> (nat \<times> nat) set \<Rightarrow> bool) \<Rightarrow> ('x \<Rightarrow> nat) \<Rightarrow> (nat \<times> 'x) list \<Rightarrow> 's \<Rightarrow> bool" where
  "owns_by holds bytes ps s \<longleftrightarrow> distinct (map fst ps) \<and>
     (\<exists>size_of. holds s ((\<lambda>(b, x). (b, size_of b)) ` set ps) \<and> (\<forall>(b, x)\<in>set ps. bytes x \<le> size_of b))"

text \<open>
  What the client relies on: the store holds a set of blocks inside the bounds, no two of which overlap; an allocation keeps this set or adds a block of the size
  asked for at least, and releasing a block it holds succeeds and removes just this one.
\<close>

locale block_store =
  fixes holds :: "'s \<Rightarrow> (nat \<times> nat) set \<Rightarrow> bool" and alloc :: "'x \<Rightarrow> 's \<Rightarrow> ('s \<times> nat) option"
    and free :: "nat \<Rightarrow> 's \<Rightarrow> ('s \<times> int) option" and bytes :: "'x \<Rightarrow> nat" and fits :: "'x \<Rightarrow> bool"
    and lo :: nat and hi :: nat
  assumes disjoint: "holds s L \<Longrightarrow> (a, n) \<in> L \<Longrightarrow> (b, k) \<in> L \<Longrightarrow> (a, n) \<noteq> (b, k) \<Longrightarrow> {a..<a + n} \<inter> {b..<b + k} = {}"
    and bounds: "holds s L \<Longrightarrow> (a, n) \<in> L \<Longrightarrow> lo \<le> a \<and> a + n \<le> hi \<and> 0 < n"
    and alloc: "holds s L \<Longrightarrow> fits x \<Longrightarrow> \<exists>s' b. alloc x s = Some (s', b) \<and>
      (if b = 0 then holds s' L else \<exists>n\<ge>bytes x. (b, n) \<notin> L \<and> holds s' (insert (b, n) L))"
    and free: "holds s L \<Longrightarrow> (b, n) \<in> L \<Longrightarrow> \<exists>s'. free b s = Some (s', 0) \<and> holds s' (L - {(b, n)})"
begin

lemma owns_get:
  assumes "owns_by holds bytes ps s" and "fits x"
  obtains s' b where "alloc x s = Some (s', b)" and "owns_by holds bytes (if b = 0 then ps else ps @ [(b, x)]) s'"
proof -
  from assms(1) obtain f where f: "distinct (map fst ps)" "holds s ((\<lambda>(b, x). (b, f b)) ` set ps)" "\<forall>(b, x)\<in>set ps. bytes x \<le> f b"
    by (auto simp: owns_by_def)
  let ?L = "(\<lambda>(b, x). (b, f b)) ` set ps"
  from alloc[OF f(2) assms(2)] obtain s' b where a: "alloc x s = Some (s', b)"
    "if b = 0 then holds s' ?L else \<exists>n\<ge>bytes x. (b, n) \<notin> ?L \<and> holds s' (insert (b, n) ?L)" by blast
  show thesis
  proof (cases "b = 0")
    case True
    with a have "owns_by holds bytes ps s'" unfolding owns_by_def using f by (intro conjI exI[of _ f]) simp_all
    with True show thesis by (intro that[OF a(1)]) simp
  next
    case False
    with a obtain n where n: "bytes x \<le> n" "(b, n) \<notin> ?L" "holds s' (insert (b, n) ?L)" by auto
    have nb: "b \<notin> fst ` set ps"
    proof
      assume "b \<in> fst ` set ps"
      then have m: "(b, f b) \<in> ?L" by force
      then have ne: "(b, n) \<noteq> (b, f b)" using n(2) by metis
      have i: "(b, n) \<in> insert (b, n) ?L" "(b, f b) \<in> insert (b, n) ?L" using m by simp_all
      have "{b..<b + n} \<inter> {b..<b + f b} = {}" by (rule disjoint[OF n(3) i ne])
      moreover have "0 < n" "0 < f b" using bounds[OF n(3) i(1)] bounds[OF n(3) i(2)] by simp_all
      ultimately show False by simp
    qed
    have "insert (b, n) ?L = (\<lambda>(c, x). (c, (f(b := n)) c)) ` set (ps @ [(b, x)])" using nb by force
    with n(3) have "holds s' ((\<lambda>(c, x). (c, (f(b := n)) c)) ` set (ps @ [(b, x)]))" by simp
    moreover have "\<forall>(c, x)\<in>set (ps @ [(b, x)]). bytes x \<le> (f(b := n)) c"
    proof (clarify)
      fix c y assume "(c, y) \<in> set (ps @ [(b, x)])"
      then show "bytes y \<le> (f(b := n)) c" using f(3) n(1) nb by (cases "c = b") force+
    qed
    ultimately have "owns_by holds bytes (ps @ [(b, x)]) s'" unfolding owns_by_def using f(1) nb by (intro conjI exI[of _ "f(b := n)"]) simp_all
    with False show thesis by (intro that[OF a(1)]) simp
  qed
qed

lemma owns_put:
  assumes "owns_by holds bytes ps s" and "i < length ps"
  obtains s' where "free (fst (ps ! i)) s = Some (s', 0)" and "owns_by holds bytes (take i ps @ drop (Suc i) ps) s'"
proof -
  from assms(1) obtain f where f: "distinct (map fst ps)" "holds s ((\<lambda>(b, x). (b, f b)) ` set ps)" "\<forall>(b, x)\<in>set ps. bytes x \<le> f b"
    by (auto simp: owns_by_def)
  let ?b = "fst (ps ! i)" and ?qs = "take i ps @ drop (Suc i) ps"
  have ps: "ps = take i ps @ ps ! i # drop (Suc i) ps" by (rule id_take_nth_drop[OF assms(2)])
  have "(?b, f ?b) \<in> (\<lambda>(b, x). (b, f b)) ` set ps" using assms(2) by (force simp: case_prod_beta)
  from free[OF f(2) this] obtain s' where s': "free ?b s = Some (s', 0)"
    "holds s' ((\<lambda>(b, x). (b, f b)) ` set ps - {(?b, f ?b)})" by blast
  have d: "distinct (map fst ?qs)" "?b \<notin> fst ` set ?qs" using f(1) ps by (metis distinct_append_mid list.simps(9) map_append, metis distinct_append_mid list.simps(9) map_append set_map)
  have "(\<lambda>(b, x). (b, f b)) ` set ps = insert (?b, f ?b) ((\<lambda>(b, x). (b, f b)) ` set ?qs)"
    by (subst ps) (auto simp: case_prod_beta)
  moreover have "(?b, f ?b) \<notin> (\<lambda>(b, x). (b, f b)) ` set ?qs"
  proof
    assume "(?b, f ?b) \<in> (\<lambda>(b, x). (b, f b)) ` set ?qs"
    then obtain z where "z \<in> set ?qs" "?b = fst z" by (auto simp del: set_append)
    with d(2) show False by blast
  qed
  ultimately have "(\<lambda>(b, x). (b, f b)) ` set ps - {(?b, f ?b)} = (\<lambda>(b, x). (b, f b)) ` set ?qs" by (metis (no_types, lifting) Diff_insert_absorb)
  moreover have "\<forall>(b, x)\<in>set ?qs. bytes x \<le> f b" using f(3) by (auto dest: in_set_takeD in_set_dropD)
  ultimately have "owns_by holds bytes ?qs s'" unfolding owns_by_def using d(1) s'(2) by (intro conjI exI[of _ f]) simp_all
  with s'(1) show thesis by (rule that)
qed

text \<open>Every run of a client ends well, whatever it asks for: the blocks it holds never overlap and have the sizes asked for.\<close>

lemma owns_disjoint:
  assumes "owns_by holds bytes ps s" and "i < length ps" and "j < length ps" and "i \<noteq> j"
  shows "{fst (ps ! i)..<fst (ps ! i) + bytes (snd (ps ! i))} \<inter> {fst (ps ! j)..<fst (ps ! j) + bytes (snd (ps ! j))} = {}"
proof -
  from assms(1) obtain f where f: "distinct (map fst ps)" "holds s ((\<lambda>(b, x). (b, f b)) ` set ps)" "\<forall>(b, x)\<in>set ps. bytes x \<le> f b"
    by (auto simp: owns_by_def)
  have "fst (ps ! i) \<noteq> fst (ps ! j)" using f(1) assms(2-4) by (metis length_map nth_eq_iff_index_eq nth_map)
  moreover have "(fst (ps ! k), f (fst (ps ! k))) \<in> (\<lambda>(b, x). (b, f b)) ` set ps" "bytes (snd (ps ! k)) \<le> f (fst (ps ! k))" if "k < length ps" for k
    using that f(3) nth_mem[OF that] by (force simp: case_prod_beta)+
  ultimately show ?thesis
    using disjoint[OF f(2), of "fst (ps ! i)" "f (fst (ps ! i))" "fst (ps ! j)" "f (fst (ps ! j))"] assms(2,3) by fastforce
qed

lemma owns_bounds:
  assumes "owns_by holds bytes ps s" and "(b, x) \<in> set ps"
  shows "lo \<le> b \<and> b + bytes x \<le> hi"
proof -
  from assms(1) obtain f where f: "holds s ((\<lambda>(b, x). (b, f b)) ` set ps)" "\<forall>(b, x)\<in>set ps. bytes x \<le> f b" by (auto simp: owns_by_def)
  have "(b, f b) \<in> (\<lambda>(b, x). (b, f b)) ` set ps" "bytes x \<le> f b" using assms(2) f(2) by force+
  with bounds[OF f(1)] show ?thesis by fastforce
qed

lemma client_run_owns:
  assumes "owns_by holds bytes ps s" and "\<forall>r\<in>set rs. case r of Get x \<Rightarrow> fits x | Put i \<Rightarrow> True"
  shows "\<exists>s' qs. client_run alloc free rs s ps = Some (s', qs) \<and> owns_by holds bytes qs s'"
  using assms
proof (induction rs arbitrary: s ps)
  case (Cons r rs)
  show ?case
  proof (cases r)
    case (Get x)
    with Cons.prems obtain s' b where "alloc x s = Some (s', b)" "owns_by holds bytes (if b = 0 then ps else ps @ [(b, x)]) s'"
      using owns_get[OF Cons.prems(1), of x] by auto
    with Cons.IH[of "if b = 0 then ps else ps @ [(b, x)]" s'] Cons.prems(2) show ?thesis by (simp add: Get)
  next
    case (Put i)
    show ?thesis
    proof (cases "i < length ps")
      case True
      from owns_put[OF Cons.prems(1) this] obtain s' where "free (fst (ps ! i)) s = Some (s', 0)" "owns_by holds bytes (take i ps @ drop (Suc i) ps) s'" .
      with Cons.IH[of "take i ps @ drop (Suc i) ps" s'] Cons.prems(2) True show ?thesis by (simp add: Put)
    next
      case False
      with Cons show ?thesis by (simp add: Put)
    qed
  qed
qed simp

end

end
