(* ===== verification/Heap_Block_Correct.thy ===== *)
theory Heap_Block_Correct
  imports Heap_Correct Heap_Free_Ok Block_Store
begin

text \<open>
  Correctness of allocation and release on a heap of one extent, for every sequence of requests, and what goes wrong with two extents.
\<close>

section \<open>Allocation and release\<close>

text \<open>
  The heap holds exactly the given blocks, each with its address and size, between two bounds; its counter is the sum of their sizes.
\<close>

definition heap_holds :: "nat \<Rightarrow> nat \<Rightarrow> heap_mem \<times> evl_heap \<Rightarrow> (nat \<times> nat) set \<Rightarrow> bool" where
  "heap_holds lo hi st L \<longleftrightarrow> (\<exists>ext H rs. heap_inv st ext H rs \<and> L = live ext H \<and>
     unat (membase ext) = lo \<and> unat (memlim ext) = hi) \<and> used_size (snd st) = of_nat (\<Sum>(a, n)\<in>L. n)"

lemma heap_holdsE:
  assumes "heap_holds lo hi st L"
  obtains ext H rs where "heap_inv (fst st, snd st) ext H rs" and "L = live ext H" and "unat (membase ext) = lo" and "unat (memlim ext) = hi"
    and "heads_ok ext H" and "finite L"
proof -
  from assms obtain ext H rs where e: "heap_inv st ext H rs" "L = live ext H" "unat (membase ext) = lo" "unat (memlim ext) = hi"
    by (auto simp: heap_holds_def)
  moreover have "heads_ok ext H" "finite (live ext H)" using e(1) finite_live(2) by (auto simp: heap_inv_def)
  ultimately show thesis by (intro that[of ext H rs]) simp_all
qed

lemma heap_holds_disjoint:
  assumes "heap_holds lo hi st L" and "(a, n) \<in> L" and "(b, k) \<in> L" and "(a, n) \<noteq> (b, k)"
  shows "{a..<a + n} \<inter> {b..<b + k} = {}"
  using assms live_disjoint by (elim heap_holdsE) blast

lemma heap_holds_bounds:
  assumes "heap_holds lo hi st L" and "(a, n) \<in> L"
  shows "lo \<le> a \<and> a + n \<le> hi \<and> 0 < n"
  using assms live_in_extent by (elim heap_holdsE) blast

lemma heap_holds_alloc:
  assumes "heap_holds lo hi st L" and "unat sz < 2 ^ 62"
  shows "\<exists>st' b. evl_alloc_block_unlocked opt st sz = Some (st', b) \<and>
    (if b = NULL then st' = st
     else \<exists>n\<ge>unat sz. n = unat (fst (block_size sz)) \<and> (unat b, n) \<notin> L \<and> heap_holds lo hi st' (insert (unat b, n) L))"
proof (cases "sz = 0")
  case True
  then show ?thesis by (simp add: evl_alloc_block_unlocked_def)
next
  case False
  from assms(1) obtain ext H rs where e: "heap_inv (fst st, snd st) ext H rs" "L = live ext H" "unat (membase ext) = lo"
    "unat (memlim ext) = hi" "finite L" by (rule heap_holdsE)
  let ?n = "unat (fst (block_size sz))"
  obtain st' b where r: "evl_alloc_block_unlocked opt st sz = Some (st', b)" "unat sz \<le> ?n" "allocates st ext H rs ?n (st', b)"
    using alloc_ok[OF e(1) _ assms(2), of opt] False by (auto simp: unat_gt_0)
  show ?thesis
  proof (cases "b = NULL")
    case True
    with r show ?thesis by (auto simp: allocates_def)
  next
    case nn: False
    with r(3) obtain ext' H' rs' where a: "heap_inv st' ext' H' rs'" "(unat b, ?n) \<notin> L" "live ext' H' = insert (unat b, ?n) L"
      "used_size (snd st') = used_size (snd st) + of_nat ?n" "membase ext' = membase ext" "memlim ext' = memlim ext"
      by (auto simp: allocates_def e(2))
    have "used_size (snd st) = of_nat (\<Sum>(a, n)\<in>L. n)" using assms(1) by (simp add: heap_holds_def)
    then have "used_size (snd st') = of_nat (\<Sum>(a, n)\<in>insert (unat b, ?n) L. n)"
      using a(2,4) e(5) by (simp only: sum.insert[OF e(5) a(2)]) (simp add: add.commute)
    with a e have "heap_holds lo hi st' (insert (unat b, ?n) L)" unfolding heap_holds_def by metis
    with nn r a(2) show ?thesis by auto
  qed
qed

lemma heap_holds_free:
  assumes "heap_holds lo hi st L" and "(unat b, n) \<in> L"
  shows "\<exists>st'. evl_free_block_unlocked opt st b = Some (st', 0) \<and> heap_holds lo hi st' (L - {(unat b, n)})"
proof -
  from assms(1) obtain ext H rs where e: "heap_inv (fst st, snd st) ext H rs" "L = live ext H" "unat (membase ext) = lo"
    "unat (memlim ext) = hi" "finite L" by (rule heap_holdsE)
  from assms(2) obtain h where h: "h \<in> H" "(unat b, n) \<in> page_blocks ext h" by (auto simp: e(2) live_def)
  obtain r where "evl_free_block_unlocked opt st b = Some r" "frees st ext H (unat b, n) r"
    using free_pages[OF e(1) h, of opt] free_slot[OF e(1) h, of opt] by (cases "pg_type (ext_map ext h) = page_list") auto
  then obtain st' ext' H' rs' where r: "evl_free_block_unlocked opt st b = Some (st', 0)" "heap_inv st' ext' H' rs'"
    "live ext' H' = L - {(unat b, n)}" "used_size (snd st') = used_size (snd st) - of_nat n" "membase ext' = membase ext" "memlim ext' = memlim ext"
    by (cases r) (auto simp: frees_def e(2))
  have "used_size (snd st) = of_nat (\<Sum>(a, n)\<in>L. n)" using assms(1) by (simp add: heap_holds_def)
  moreover have "(\<Sum>(a, n)\<in>L. n) = n + (\<Sum>(a, n)\<in>L - {(unat b, n)}. n)" using sum.remove[OF e(5) assms(2), of "\<lambda>(a, n). n"] by simp
  ultimately have "used_size (snd st') = of_nat (\<Sum>(a, n)\<in>L - {(unat b, n)}. n)" using r(4) by simp
  with r e show ?thesis unfolding heap_holds_def by metis
qed

text \<open>\<^verbatim>\<open>evl_check_block\<close> tells the size of a block in use.\<close>

lemma heap_holds_check:
  assumes "heap_holds lo hi st L" and "(unat b, n) \<in> L"
  shows "evl_check_block_unlocked opt (snd st) b = int n"
proof -
  from assms(1) obtain ext H rs where e: "heap_inv (fst st, snd st) ext H rs" "L = live ext H" "heads_ok ext H" by (rule heap_holdsE)
  from assms(2) obtain h where h: "h \<in> H" "(unat b, n) \<in> page_blocks ext h" by (auto simp: e(2) live_def)
  have ex: "extents (snd st) = [ext]" using e(1) by (simp add: heap_inv_def)
  note loc = locate[OF e(3) h]
  have eo: "entry_ok (ext_map ext h)" using e(3) h by (simp add: heads_ok_def)
  have v: "page_is_valid opt (ext_map ext) h" using eo by (auto simp: page_is_valid_def entry_ok_def Let_def page_list_def page_free_def page_cont_def)
  show ?thesis
  proof (cases "pg_type (ext_map ext h) = page_list")
    case True
    with h(2) have "n = unat (pg_map (ext_map ext h))" by (simp add: page_blocks_def Let_def)
    with loc v True show ?thesis by (simp add: evl_check_block_unlocked_def ex Let_def del: find_extent.simps)
  next
    case False
    define t where "t = unat (pg_type (ext_map ext h))"
    have t: "4 \<le> t" "t \<le> 8" using eo False by (simp_all add: entry_ok_def Let_def t_def)
    obtain k where k: "n = 2 ^ t" "unat b = page_addr ext h + k * 2 ^ t"
      using h(2) by (auto simp: page_blocks_slots[OF False] t_def)
    have "unat ((b - membase ext) AND NOT EVL_HEAP_PAGE_MASK) = k * 2 ^ t" using loc(3) k(2) by simp
    from slot_index(1)[OF t this] loc(1,2) v False show ?thesis
      by (simp add: evl_check_block_unlocked_def ex Let_def block_bytes(2,4)[OF t] k(1) del: find_extent.simps push_bit_of_1 flip: t_def)
  qed
qed


text \<open>A heap that was just set up holds nothing.\<close>

lemma heap_holds_init:
  assumes "extent_args_ok mem sz" and "unat (sz - extent_overhead sz) \<le> 2 ^ 31"
  shows "\<exists>st. evl_init_heap_unlocked opt hm hp mem sz = Some (st, 0) \<and>
    heap_holds (unat (mem + extent_overhead sz)) (unat (mem + sz)) st {}"
proof -
  obtain hm' ext rs where e: "add_extent opt hm mem sz = Some (Inr ((hm', ext), uint (sz - extent_overhead sz)))"
    "pool_ok hm' ext rs" "membase ext = mem + extent_overhead sz" "memlim ext = mem + sz"
    using add_extent_ok[OF assms(1), of opt hm] by auto
  let ?hp = "hp\<lparr>extents := [ext], buckets := reset_buckets, raw_size := sz, usable_size := word_of_int (uint (sz - extent_overhead sz)), used_size := 0\<rparr>"
  have "evl_init_heap_unlocked opt hm hp mem sz = Some ((hm', ?hp), 0)"
    using e(1) by (simp add: evl_init_heap_unlocked_def Let_def)
  moreover have "unat (memlim ext) - unat (membase ext) \<le> 2 ^ 31"
  proof -
    have "unat (membase ext) \<le> unat (memlim ext)" using e(2) by (simp add: pool_ok_def extent_ok_def)
    then have "unat (memlim ext - membase ext) = unat (memlim ext) - unat (membase ext)"
      by (intro unat_diff_small) (simp add: word_le_nat_alt)
    moreover have "memlim ext - membase ext = sz - extent_overhead sz" by (simp add: e(3,4))
    ultimately show ?thesis using assms(2) by simp
  qed
  then have "heap_inv (hm', ?hp) ext {} rs"
    using e(2) by (auto simp: heap_inv_def heads_ok_def buckets_ok_def page_ring_def reset_buckets_def intro!: exI[of _ "[]"])
  then have "heap_holds (unat (mem + extent_overhead sz)) (unat (mem + sz)) (hm', ?hp) {}"
    unfolding heap_holds_def by (intro conjI exI[of _ ext] exI[of _ "{}"] exI[of _ rs]) (simp_all add: live_def e(3,4))
  ultimately show ?thesis by blast
qed

definition heap_alloc :: "bool \<Rightarrow> u64 \<Rightarrow> heap_mem \<times> evl_heap \<Rightarrow> ((heap_mem \<times> evl_heap) \<times> nat) option" where
  "heap_alloc opt sz st = map_option (\<lambda>(st, b). (st, unat b)) (evl_alloc_block_unlocked opt st sz)"

definition heap_free :: "bool \<Rightarrow> nat \<Rightarrow> heap_mem \<times> evl_heap \<Rightarrow> ((heap_mem \<times> evl_heap) \<times> int) option" where
  "heap_free opt b st = evl_free_block_unlocked opt st (of_nat b)"

interpretation heap_store: block_store "heap_holds lo hi" "heap_alloc opt" "heap_free opt" unat "\<lambda>sz. unat sz < 2 ^ 62" lo hi
  for lo hi opt
proof
  fix st L and x :: u64 assume "heap_holds lo hi st L" "unat x < 2 ^ 62"
  from heap_holds_alloc[OF this, of opt] obtain st' b where "evl_alloc_block_unlocked opt st x = Some (st', b)"
    "if b = NULL then st' = st
     else \<exists>n\<ge>unat x. n = unat (fst (block_size x)) \<and> (unat b, n) \<notin> L \<and> heap_holds lo hi st' (insert (unat b, n) L)" by blast
  then show "\<exists>st' b. heap_alloc opt x st = Some (st', b) \<and>
      (if b = 0 then heap_holds lo hi st' L else \<exists>n\<ge>unat x. (b, n) \<notin> L \<and> heap_holds lo hi st' (insert (b, n) L))"
    by (intro exI[of _ st'] exI[of _ "unat b"]) (use \<open>heap_holds lo hi st L\<close> in \<open>auto simp: heap_alloc_def unat_eq_0\<close>)
next
  fix st L b n assume h: "heap_holds lo hi st L" "(b, n) \<in> L"
  from h obtain ext H rs where "unat (memlim ext) = hi" "heads_ok ext H" by (elim heap_holdsE)
  then have "hi < 2 ^ 64" using unsigned_less[of "memlim ext", where ?'a = nat] by simp
  then have "b < 2 ^ 64" using heap_holds_bounds[OF h] by simp
  then have b: "unat (of_nat b :: addr) = b" by (simp add: unat_of_nat take_bit_nat_eq_self)
  from heap_holds_free[OF h(1), of "of_nat b" n opt] h(2)
  show "\<exists>st'. heap_free opt b st = Some (st', 0) \<and> heap_holds lo hi st' (L - {(b, n)})"
    by (simp add: heap_free_def b)
next
  fix st L a n b k assume "heap_holds lo hi st L" "(a, n) \<in> L" "(b, k) \<in> L" "(a, n) \<noteq> (b, k)"
  then show "{a..<a + n} \<inter> {b..<b + k} = {}" by (rule heap_holds_disjoint)
next
  fix st L a n assume "heap_holds lo hi st L" "(a, n) \<in> L"
  then show "lo \<le> a \<and> a + n \<le> hi \<and> 0 < n" by (rule heap_holds_bounds)
qed

text \<open>
  C2. Allocation on a heap of one extent.  It ends; a request of 0 bytes or one that cannot be met returns NULL and changes nothing; otherwise the heap
  holds one more block, of the rounded size, at the address returned, which no block in use and no free range shares a byte with.
\<close>

theorem alloc_block_correct:
  assumes "heap_holds lo hi st L" and "unat sz < 2 ^ 62"
  shows "\<exists>st' b n. evl_alloc_block_unlocked opt st sz = Some (st', b) \<and> n = unat (fst (block_size sz)) \<and>
    (if b = NULL then st' = st
     else unat sz \<le> n \<and> heap_holds lo hi st' (insert (unat b, n) L) \<and> lo \<le> unat b \<and> unat b + n \<le> hi \<and>
       evl_heap_used (snd st') = evl_heap_used (snd st) + of_nat n \<and>
       (\<forall>(a, k)\<in>L. {unat b..<unat b + n} \<inter> {a..<a + k} = {}))"
proof -
  from heap_holds_alloc[OF assms, of opt] obtain st' b where r: "evl_alloc_block_unlocked opt st sz = Some (st', b)"
    "if b = NULL then st' = st else \<exists>n\<ge>unat sz. n = unat (fst (block_size sz)) \<and> (unat b, n) \<notin> L \<and>
      heap_holds lo hi st' (insert (unat b, n) L)" by blast
  let ?n = "unat (fst (block_size sz))"
  show ?thesis
  proof (cases "b = NULL")
    case False
    with r(2) have h: "unat sz \<le> ?n" "(unat b, ?n) \<notin> L" "heap_holds lo hi st' (insert (unat b, ?n) L)" by auto
    have "{unat b..<unat b + ?n} \<inter> {a..<a + k} = {}" if "(a, k) \<in> L" for a k
      using heap_holds_disjoint[OF h(3), of "unat b" ?n a k] that h(2) by auto
    moreover have "evl_heap_used (snd st') = evl_heap_used (snd st) + of_nat ?n"
    proof -
      have "finite L" using assms(1) by (elim heap_holdsE)
      from sum.insert[OF this h(2), of "\<lambda>(a, n). n"] assms(1) h(3) show ?thesis
        by (simp add: heap_holds_def evl_heap_used_def add.commute)
    qed
    ultimately show ?thesis using False r(1) h heap_holds_bounds[OF h(3), of "unat b" ?n]
      by (intro exI[of _ st'] exI[of _ b] exI[of _ ?n]) auto
  qed (use r in auto)
qed

text \<open>
  C3. Releasing a block in use succeeds and removes this block from the heap and no other; before that, \<^verbatim>\<open>evl_check_block\<close> tells its size.
\<close>

theorem free_block_correct:
  assumes "heap_holds lo hi st L" and "(unat b, n) \<in> L"
  shows "evl_check_block_unlocked opt (snd st) b = int n \<and>
    (\<exists>st'. evl_free_block_unlocked opt st b = Some (st', 0) \<and> heap_holds lo hi st' (L - {(unat b, n)}) \<and>
       evl_heap_used (snd st') + of_nat n = evl_heap_used (snd st))"
proof -
  obtain st' where r: "evl_free_block_unlocked opt st b = Some (st', 0)" "heap_holds lo hi st' (L - {(unat b, n)})"
    using heap_holds_free[OF assms, of opt] by blast
  have "finite L" using assms(1) by (elim heap_holdsE)
  then have "(\<Sum>(a, n)\<in>L. n) = n + (\<Sum>(a, n)\<in>L - {(unat b, n)}. n)"
    using sum.remove[OF _ assms(2), of "\<lambda>(a, n). n"] by simp
  with assms(1) r(2) have "used_size (snd st') + of_nat n = used_size (snd st)" by (simp add: heap_holds_def)
  with r heap_holds_check[OF assms] show ?thesis by (auto simp: evl_heap_used_def)
qed

text \<open>
  C1. Whatever sequence of requests a client makes of a new heap of one extent, in any order, every request is served or refused, every release
  succeeds, and at the end the blocks the client holds lie in the user memory of the extent, have the sizes asked for, and never overlap.
\<close>

theorem heap_client_safe:
  assumes "extent_args_ok mem sz" and "unat (sz - extent_overhead sz) \<le> 2 ^ 31" and "\<forall>x. Get x \<in> set rs \<longrightarrow> unat x < 2 ^ 62"
  shows "\<exists>st st' ps. evl_init_heap_unlocked opt hm hp mem sz = Some (st, 0) \<and>
    client_run (heap_alloc opt) (heap_free opt) rs st [] = Some (st', ps) \<and>
    (\<forall>(b, x)\<in>set ps. unat (mem + extent_overhead sz) \<le> b \<and> b + unat x \<le> unat (mem + sz)) \<and>
    (\<forall>i<length ps. \<forall>j<length ps. i \<noteq> j \<longrightarrow>
       {fst (ps ! i)..<fst (ps ! i) + unat (snd (ps ! i))} \<inter> {fst (ps ! j)..<fst (ps ! j) + unat (snd (ps ! j))} = {})"
proof -
  let ?lo = "unat (mem + extent_overhead sz)" and ?hi = "unat (mem + sz)"
  obtain st where i: "evl_init_heap_unlocked opt hm hp mem sz = Some (st, 0)" "heap_holds ?lo ?hi st {}"
    using heap_holds_init[OF assms(1,2)] by blast
  then have o: "owns_by (heap_holds ?lo ?hi) unat [] st" by (simp add: owns_by_def)
  have "\<forall>r\<in>set rs. case r of Get x \<Rightarrow> unat x < 2 ^ 62 | Put i \<Rightarrow> True" using assms(3) by (auto split: request.split)
  from heap_store.client_run_owns[OF o this, of opt] obtain st' ps where
    r: "client_run (heap_alloc opt) (heap_free opt) rs st [] = Some (st', ps)" "owns_by (heap_holds ?lo ?hi) unat ps st'" by blast
  show ?thesis
    using i(1) r(1) heap_store.owns_bounds[OF r(2)] heap_store.owns_disjoint[OF r(2)]
    by (intro exI[of _ st] exI[of _ st'] exI[of _ ps]) auto
qed


section \<open>Witnesses\<close>

text \<open>The heap of eight pages at 65536, with one block of 112 bytes asked for.\<close>

lemma small_heap:
  "extent_args_ok 65536 4352" "unat (4352 - extent_overhead 4352 :: u64) \<le> 2 ^ 31"
  "unat (65536 + extent_overhead 4352 :: addr) = 65792" "unat (65536 + 4352 :: addr) = 69888"
proof -
  have o: "extent_overhead 4352 = 256"
    by (simp add: extent_overhead_def align_to_u32_def EVL_HEAP_PGMAP_BYTES_def sizeof_extent_def
        EVL_HEAP_PAGE_SIZE_def EVL_HEAP_PAGE_SHIFT_def EVL_HEAP_MIN_ALIGN_def EVL_HEAP_MIN_LOG2_def)
  show "extent_args_ok 65536 4352" by (rule args_ex)
  show "unat (4352 - extent_overhead 4352 :: u64) \<le> 2 ^ 31" "unat (65536 + extent_overhead 4352 :: addr) = 65792"
    "unat (65536 + 4352 :: addr) = 69888" by (simp_all add: o)
qed

definition no_heap :: evl_heap where
  "no_heap = \<lparr>extents = [], raw_size = 0, usable_size = 0, used_size = 0, buckets = (\<lambda>_. 0)\<rparr>"

lemma small_heap_holds:
  obtains st where "evl_init_heap_unlocked True mem_zero no_heap 65536 4352 = Some (st, 0)" and "heap_holds 65792 69888 st {}"
  using heap_holds_init[OF small_heap(1,2), of True mem_zero no_heap] by (auto simp: small_heap(3,4))

theorem alloc_block_correct_witness:
  "\<exists>st st' b. evl_init_heap_unlocked True mem_zero no_heap 65536 4352 = Some (st, 0) \<and>
     evl_alloc_block_unlocked True st 100 = Some (st', b)"
proof -
  obtain st where i: "evl_init_heap_unlocked True mem_zero no_heap 65536 4352 = Some (st, 0)" "heap_holds 65792 69888 st {}"
    by (rule small_heap_holds)
  have "unat (100 :: u64) < 2 ^ 62" by simp
  from i(1) alloc_block_correct[OF i(2) this, of True] show ?thesis by blast
qed

text \<open>A heap whose first page holds one block of 4096 bytes, and nothing else.\<close>

definition full_map :: pagemap where
  "full_map = (\<lambda>_. pgentry_zero)(0 := pgentry_zero\<lparr>pg_type := page_list, pg_map := 4096\<rparr>)"

lemma full_heap:
  obtains st where "heap_holds 65792 69888 st {(65792, 4096)}"
proof -
  obtain hm ext where e: "membase ext = 65792" "memlim ext = 69888" "pool_ok hm ext []" by (rule busy_extent_ex)
  let ?ext = "ext\<lparr>ext_map := full_map\<rparr>" and ?hp = "\<lparr>extents = [ext\<lparr>ext_map := full_map\<rparr>], raw_size = 4352, usable_size = 4096,
    used_size = 4096, buckets = reset_buckets\<rparr>"
  have ie: "in_extent ?ext 65792 4096" using e(1,2) by (simp add: in_extent_def pages_in_def)
  have "heads_ok ?ext {0}"
    using ie e(1) by (simp add: heads_ok_def entry_ok_def page_bytes_def full_map_def page_addr_def)
  moreover have "buckets_ok reset_buckets ?ext {0}"
    by (auto simp: buckets_ok_def page_ring_def reset_buckets_def full_map_def page_list_def log_consts intro!: exI[of _ "[]"])
  ultimately have "heap_inv (hm, ?hp) ?ext {0} []" using e by (simp add: heap_inv_def pool_free_def)
  moreover have "live ?ext {0} = {(65792, 4096)}" using e(1) by (simp add: live_def page_blocks_def full_map_def page_addr_def)
  ultimately have "heap_holds 65792 69888 (hm, ?hp) {(65792, 4096)}"
    unfolding heap_holds_def using e(1,2) by (intro conjI exI[of _ ?ext] exI[of _ "{0}"] exI[of _ "[]"]) simp_all
  then show thesis by (rule that)
qed

theorem free_block_correct_witness:
  "\<exists>st st'. heap_holds 65792 69888 st {(65792, 4096)} \<and> evl_check_block_unlocked True (snd st) 65792 = 4096 \<and>
     evl_free_block_unlocked True st 65792 = Some (st', 0) \<and> heap_holds 65792 69888 st' {}"
proof -
  obtain st where s: "heap_holds 65792 69888 st {(65792, 4096)}" by (rule full_heap)
  have "(unat (65792 :: addr), 4096) \<in> {(65792 :: nat, 4096 :: nat)}" by simp
  from free_block_correct[OF s this, of True] obtain st' where "evl_check_block_unlocked True (snd st) 65792 = 4096"
    "evl_free_block_unlocked True st 65792 = Some (st', 0)" "heap_holds 65792 69888 st' {}" by auto
  with s show ?thesis by blast
qed

theorem heap_client_safe_witness:
  "\<exists>st st' ps. evl_init_heap_unlocked True mem_zero no_heap 65536 4352 = Some (st, 0) \<and>
     client_run (heap_alloc True) (heap_free True) [Get 100, Get 600, Put 0, Get 16] st [] = Some (st', ps)"
proof -
  have "\<forall>x. Get x \<in> set [Get (100 :: u64), Get 600, Put 0, Get 16] \<longrightarrow> unat x < 2 ^ 62" by auto
  from heap_client_safe[OF small_heap(1,2) this, of True mem_zero no_heap] show ?thesis by blast
qed

section \<open>Two extents\<close>

text \<open>
  The buckets belong to the heap, and the page numbers they hold to one of its extents.  The scan for a free block looks the page up in the
  first extent, whichever the page is of: with a page of the second extent in the bucket, it hands out the bytes at the same page number of the
  first one, which may be in the middle of a block in use there.
\<close>

theorem alloc_wrong_extent:
  assumes "extents hp = [A, B]" and "buckets hp (t - EVL_HEAP_MIN_LOG2) = of_nat pg" and "pg < 2 ^ 22" and "4 \<le> t" and "t \<le> 8"
    and "pg_map (ext_map A pg) = 0"
  shows "\<exists>st'. alloc_bucketed opt (hm, hp) bs t = Some (st', membase A + of_nat (512 * pg))"
proof -
  have u: "unat (of_nat pg :: u32) = pg" by (rule unat_of_page) (use assms(3) in simp)
  then have s: "\<not> sint (of_nat pg :: u32) < 0" using sint_small[of "of_nat pg"] assms(3) by simp
  have "tzcount (- 1) = 0" by (simp add: tzcount_def tzfrom.simps)
  moreover have "scast (push_bit EVL_HEAP_PAGE_SHIFT (of_nat pg :: u32)) = (of_nat (512 * pg) :: u64)"
    using shift_page[of "of_nat pg"] assms(3) u by (simp add: EVL_HEAP_PAGE_SHIFT_def)
  moreover have "EVL_HEAP_MIN_LOG2 \<le> t" "t - EVL_HEAP_MIN_LOG2 < EVL_HEAP_MAX_BUCKETS" using assms(4,5) by (simp_all add: log_consts)
  ultimately show ?thesis
    using assms(1,2,6) u s by (simp add: alloc_bucketed_def Let_def)
qed

end
