(* ===== verification/Evl_Vdso.thy ===== *)
theory Evl_Vdso
  imports Evl_Prelude "HOL-Library.Char_ord"
begin

text \<open>
  \<^verbatim>\<open>lib/parse_vdso.c\<close>: the ELF image the kernel maps into the process is parsed once, and the
  symbols the library needs are looked up in it by name and version.

  The image is read through the parameter \<open>m\<close>, the bytes of the process memory, at the offsets
  the 64-bit ELF format gives to the fields of its structures, little-endian.  A loop over a
  table that the image may leave without an end is a partial function, \<open>None\<close> when it does not end.
\<close>

type_synonym bytes = "addr \<Rightarrow> 8 word"

definition rd8 :: "bytes \<Rightarrow> addr \<Rightarrow> 8 word" where "rd8 m a = m a"

definition rd16 :: "bytes \<Rightarrow> addr \<Rightarrow> 16 word" where
  "rd16 m a = ucast (m a) OR push_bit 8 (ucast (m (a + 1)))"

definition rd32 :: "bytes \<Rightarrow> addr \<Rightarrow> u32" where
  "rd32 m a = ucast (rd16 m a) OR push_bit 16 (ucast (rd16 m (a + 2)))"

definition rd64 :: "bytes \<Rightarrow> addr \<Rightarrow> u64" where
  "rd64 m a = ucast (rd32 m a) OR push_bit 32 (ucast (rd32 m (a + 4)))"

section \<open>The ELF structures\<close>

definition ELFCLASS64 :: "8 word" where "ELFCLASS64 = 2"
definition PT_LOAD :: u32 where "PT_LOAD = 1"
definition PT_DYNAMIC :: u32 where "PT_DYNAMIC = 2"
definition DT_NULL :: u64 where "DT_NULL = 0"
definition DT_HASH :: u64 where "DT_HASH = 4"
definition DT_STRTAB :: u64 where "DT_STRTAB = 5"
definition DT_SYMTAB :: u64 where "DT_SYMTAB = 6"
definition DT_GNU_HASH :: u64 where "DT_GNU_HASH = 0x6ffffef5"
definition DT_VERSYM :: u64 where "DT_VERSYM = 0x6ffffff0"
definition DT_VERDEF :: u64 where "DT_VERDEF = 0x6ffffffc"
definition VER_FLG_BASE :: u16 where "VER_FLG_BASE = 1"

definition e_ident_class :: "bytes \<Rightarrow> addr \<Rightarrow> 8 word" where "e_ident_class m hdr = rd8 m (hdr + 4)"
definition e_phoff :: "bytes \<Rightarrow> addr \<Rightarrow> u64" where "e_phoff m hdr = rd64 m (hdr + 32)"
definition e_phnum :: "bytes \<Rightarrow> addr \<Rightarrow> u16" where "e_phnum m hdr = rd16 m (hdr + 56)"

definition p_type :: "bytes \<Rightarrow> addr \<Rightarrow> u32" where "p_type m ph = rd32 m ph"
definition p_offset :: "bytes \<Rightarrow> addr \<Rightarrow> u64" where "p_offset m ph = rd64 m (ph + 8)"
definition p_vaddr :: "bytes \<Rightarrow> addr \<Rightarrow> u64" where "p_vaddr m ph = rd64 m (ph + 16)"

definition d_tag :: "bytes \<Rightarrow> addr \<Rightarrow> u64" where "d_tag m d = rd64 m d"
definition d_ptr :: "bytes \<Rightarrow> addr \<Rightarrow> u64" where "d_ptr m d = rd64 m (d + 8)"

definition st_name :: "bytes \<Rightarrow> addr \<Rightarrow> u32" where "st_name m sm = rd32 m sm"
definition st_info :: "bytes \<Rightarrow> addr \<Rightarrow> 8 word" where "st_info m sm = rd8 m (sm + 4)"
definition st_shndx :: "bytes \<Rightarrow> addr \<Rightarrow> u16" where "st_shndx m sm = rd16 m (sm + 6)"
definition st_value :: "bytes \<Rightarrow> addr \<Rightarrow> u64" where "st_value m sm = rd64 m (sm + 8)"

definition vd_flags :: "bytes \<Rightarrow> addr \<Rightarrow> u16" where "vd_flags m d = rd16 m (d + 2)"
definition vd_ndx :: "bytes \<Rightarrow> addr \<Rightarrow> u16" where "vd_ndx m d = rd16 m (d + 4)"
definition vd_hash :: "bytes \<Rightarrow> addr \<Rightarrow> u32" where "vd_hash m d = rd32 m (d + 8)"
definition vd_aux :: "bytes \<Rightarrow> addr \<Rightarrow> u32" where "vd_aux m d = rd32 m (d + 12)"
definition vd_next :: "bytes \<Rightarrow> addr \<Rightarrow> u32" where "vd_next m d = rd32 m (d + 16)"
definition vda_name :: "bytes \<Rightarrow> addr \<Rightarrow> u32" where "vda_name m a = rd32 m a"

text \<open>\<^verbatim>\<open>ELF64_ST_TYPE\<close> and \<^verbatim>\<open>ELF64_ST_BIND\<close>, and the values compared with.\<close>

definition ELF64_ST_TYPE :: "8 word \<Rightarrow> 8 word" where "ELF64_ST_TYPE i = i AND 0xf"
definition ELF64_ST_BIND :: "8 word \<Rightarrow> 8 word" where "ELF64_ST_BIND i = drop_bit 4 i"
definition STT_FUNC :: "8 word" where "STT_FUNC = 2"
definition STB_GLOBAL :: "8 word" where "STB_GLOBAL = 1"
definition STB_WEAK :: "8 word" where "STB_WEAK = 2"
definition SHN_UNDEF :: u16 where "SHN_UNDEF = 0"

text \<open>\<^verbatim>\<open>strcmp(name, p) == 0\<close>, the string at \<open>p\<close> ending with a null byte.\<close>

fun cstr_eq :: "bytes \<Rightarrow> string \<Rightarrow> addr \<Rightarrow> bool" where
  "cstr_eq m [] p \<longleftrightarrow> m p = 0"
| "cstr_eq m (c # cs) p \<longleftrightarrow> m p = of_char c \<and> cstr_eq m cs (p + 1)"

record vdso_info =
  valid :: bool
  load_addr :: addr
  load_offset :: addr
  symtab :: addr
  symstrings :: addr
  gnu_hash_tab :: addr
  gnu_bucket :: addr
  bucket :: addr
  chain :: addr
  nbucket :: u32
  nchain :: u32
  versym :: addr
  verdef :: addr

definition vdso_zero :: vdso_info where
  "vdso_zero = \<lparr>valid = False, load_addr = 0, load_offset = 0, symtab = 0, symstrings = 0,
     gnu_hash_tab = 0, gnu_bucket = 0, bucket = 0, chain = 0, nbucket = 0, nchain = 0,
     versym = 0, verdef = 0\<rparr>"

section \<open>Hashes\<close>

definition elf_hash_step :: "u64 \<Rightarrow> char \<Rightarrow> u64" where
  "elf_hash_step h c =
     (let h = push_bit 4 h + of_char c;
          g = h AND 0xf0000000;
          h = (if g \<noteq> 0 then h XOR drop_bit 24 g else h)
      in h AND NOT g)"

definition elf_hash :: "string \<Rightarrow> u64" where
  "elf_hash name = foldl elf_hash_step 0 name"

definition gnu_hash :: "string \<Rightarrow> u32" where
  "gnu_hash name = foldl (\<lambda>h c. h + (h * 32 + of_char c)) 5381 name"

section \<open>Parsing the image\<close>

text \<open>The loop over the segment table: whether a loadable segment was found, the load offset, and
  the dynamic table.\<close>

definition phdr_step :: "bytes \<Rightarrow> addr \<Rightarrow> addr \<Rightarrow> nat \<Rightarrow> bool \<times> addr \<times> addr \<Rightarrow> bool \<times> addr \<times> addr" where
  "phdr_step m base pt i = (\<lambda>(found_vaddr, offset, dyn).
     let ph = pt + of_nat (56 * i) in
     if p_type m ph = PT_LOAD \<and> \<not> found_vaddr then (True, base + p_offset m ph - p_vaddr m ph, dyn)
     else if p_type m ph = PT_DYNAMIC then (found_vaddr, offset, base + p_offset m ph)
     else (found_vaddr, offset, dyn))"

definition scan_phdrs :: "bytes \<Rightarrow> addr \<Rightarrow> addr \<Rightarrow> nat \<Rightarrow> addr \<Rightarrow> bool \<times> addr \<times> addr" where
  "scan_phdrs m base pt n offset = fold (phdr_step m base pt) [0..<n] (False, offset, 0)"

text \<open>The loop over the dynamic table; the first component is the local \<^verbatim>\<open>hash\<close>.\<close>

definition dyn_step :: "bytes \<Rightarrow> addr \<Rightarrow> addr \<times> vdso_info \<Rightarrow> addr \<times> vdso_info" where
  "dyn_step m d = (\<lambda>(hash, info).
     let p = d_ptr m d + load_offset info; tag = d_tag m d in
     if tag = DT_STRTAB then (hash, info\<lparr>symstrings := p\<rparr>)
     else if tag = DT_SYMTAB then (hash, info\<lparr>symtab := p\<rparr>)
     else if tag = DT_HASH then (p, info)
     else if tag = DT_GNU_HASH then (hash, info\<lparr>gnu_hash_tab := p\<rparr>)
     else if tag = DT_VERSYM then (hash, info\<lparr>versym := p\<rparr>)
     else if tag = DT_VERDEF then (hash, info\<lparr>verdef := p\<rparr>)
     else (hash, info))"

partial_function (option) scan_dyn :: "bytes \<Rightarrow> addr \<Rightarrow> addr \<times> vdso_info \<Rightarrow> (addr \<times> vdso_info) option" where
  "scan_dyn m d st = (if d_tag m d = DT_NULL then Some st else scan_dyn m (d + 16) (dyn_step m d st))"

text \<open>What follows the two loops: the checks, and the header of the hash table.\<close>

definition hash_header :: "bytes \<Rightarrow> addr \<Rightarrow> vdso_info \<Rightarrow> vdso_info" where
  "hash_header m hash info =
     (if symstrings info = 0 \<or> symtab info = 0 \<or> (hash = 0 \<and> gnu_hash_tab info = 0) then info
      else
        let info = (if verdef info = 0 then info\<lparr>versym := 0\<rparr> else info);
            info =
              (if gnu_hash_tab info \<noteq> 0 then
                 info\<lparr>nbucket := rd32 m (gnu_hash_tab info),
                   gnu_bucket := gnu_hash_tab info +
                     4 * (4 + 8 div 4 * ucast (rd32 m (gnu_hash_tab info + 8)))\<rparr>
               else
                 info\<lparr>nbucket := rd32 m hash, nchain := rd32 m (hash + 4), bucket := hash + 8,
                   chain := hash + 4 * ucast (rd32 m hash + 2)\<rparr>)
        in info\<lparr>valid := True\<rparr>)"

definition vdso_init_from_sysinfo_ehdr :: "bytes \<Rightarrow> vdso_info \<Rightarrow> addr \<Rightarrow> vdso_info option" where
  "vdso_init_from_sysinfo_ehdr m info base =
     (let info = info\<lparr>valid := False, load_addr := base\<rparr> in
      if e_ident_class m base \<noteq> ELFCLASS64 then Some info
      else
        let pt = load_addr info + e_phoff m base;
            (found_vaddr, offset, dyn) = scan_phdrs m base pt (unat (e_phnum m base)) (load_offset info);
            info = info\<lparr>load_offset := offset\<rparr>
        in if \<not> found_vaddr \<or> dyn = 0 then Some info
        else
          let info = info\<lparr>symstrings := 0, gnu_hash_tab := 0, symtab := 0, versym := 0, verdef := 0\<rparr>
          in map_option (\<lambda>(hash, info). hash_header m hash info) (scan_dyn m dyn (0, info)))"

section \<open>Lookup\<close>

partial_function (option) find_verdef :: "bytes \<Rightarrow> u16 \<Rightarrow> addr \<Rightarrow> addr option" where
  "find_verdef m ver def =
     (if vd_flags m def AND VER_FLG_BASE = 0 \<and> vd_ndx m def AND 0x7fff = ver then Some def
      else if vd_next m def = 0 then Some 0
      else find_verdef m ver (def + ucast (vd_next m def)))"

definition vdso_match_version :: "bytes \<Rightarrow> vdso_info \<Rightarrow> u16 \<Rightarrow> string \<Rightarrow> u32 \<Rightarrow> bool option" where
  "vdso_match_version m info ver name hash =
     (case find_verdef m (ver AND 0x7fff) (verdef info) of
        None \<Rightarrow> None
      | Some def \<Rightarrow>
          if def = 0 then Some False
          else let aux = def + ucast (vd_aux m def)
               in Some (vd_hash m def = hash \<and> cstr_eq m name (symstrings info + ucast (vda_name m aux))))"

definition check_sym :: "bytes \<Rightarrow> vdso_info \<Rightarrow> addr \<Rightarrow> u32 \<Rightarrow> string \<Rightarrow> string \<Rightarrow> u64 \<Rightarrow> bool option" where
  "check_sym m info sm i name version ver_hash =
     (if ELF64_ST_TYPE (st_info m sm) \<noteq> STT_FUNC then Some False
      else if ELF64_ST_BIND (st_info m sm) \<noteq> STB_GLOBAL \<and> ELF64_ST_BIND (st_info m sm) \<noteq> STB_WEAK
      then Some False
      else if \<not> cstr_eq m name (symstrings info + ucast (st_name m sm)) then Some False
      else if versym info \<noteq> 0 then
        vdso_match_version m info (rd16 m (versym info + 2 * ucast i)) version (ucast ver_hash)
      else Some True)"

definition sym_at :: "vdso_info \<Rightarrow> u32 \<Rightarrow> addr" where
  "sym_at info i = symtab info + 24 * ucast i"

partial_function (option) lookup_gnu :: "bytes \<Rightarrow> vdso_info \<Rightarrow> string \<Rightarrow> string \<Rightarrow> u64 \<Rightarrow> u32 \<Rightarrow> addr \<Rightarrow> u32 \<Rightarrow> addr option" where
  "lookup_gnu m info version name ver_hash h1 hashval i =
     (let sm = sym_at info i; h2 = rd32 m hashval in
      Option.bind (if h1 = h2 OR 1 then check_sym m info sm i name version ver_hash else Some False)
        (\<lambda>found.
          if found then Some (load_offset info + st_value m sm)
          else if h2 AND 1 \<noteq> 0 then Some 0
          else lookup_gnu m info version name ver_hash h1 (hashval + 4) (i + 1)))"

partial_function (option) lookup_chain :: "bytes \<Rightarrow> vdso_info \<Rightarrow> string \<Rightarrow> string \<Rightarrow> u64 \<Rightarrow> u32 \<Rightarrow> addr option" where
  "lookup_chain m info version name ver_hash i =
     (if i = 0 then Some 0
      else let sm = sym_at info i in
        Option.bind (if st_shndx m sm \<noteq> SHN_UNDEF then check_sym m info sm i name version ver_hash else Some False)
          (\<lambda>found.
            if found then Some (load_offset info + st_value m sm)
            else lookup_chain m info version name ver_hash (rd32 m (chain info + 4 * ucast i))))"

text \<open>
  The address of a symbol, 0 when it is not found.  The number of buckets of an image is positive:
  the C modulus by it has no value otherwise.
\<close>

definition evl_lookup_vdso :: "bytes \<Rightarrow> vdso_info \<Rightarrow> string \<Rightarrow> string \<Rightarrow> addr option" where
  "evl_lookup_vdso m info version name =
     (if \<not> valid info then Some 0
      else
        let ver_hash = elf_hash version in
        if gnu_hash_tab info \<noteq> 0 then
          let h1 = gnu_hash name;
              i = rd32 m (gnu_bucket info + 4 * ucast (h1 mod nbucket info))
          in if i = 0 then Some 0
          else
            let h1 = h1 OR 1;
                hashval = gnu_bucket info + 4 * ucast (nbucket info) + 4 * ucast (i - rd32 m (gnu_hash_tab info + 4))
            in lookup_gnu m info version name ver_hash h1 hashval i
        else
          let i = rd32 m (bucket info + 4 * (elf_hash name mod ucast (nbucket info)))
          in lookup_chain m info version name ver_hash i)"

text \<open>\<^verbatim>\<open>error(1, ...)\<close> ends the process: \<open>None\<close>.\<close>

definition evl_request_vdso :: "bytes \<Rightarrow> vdso_info \<Rightarrow> string \<Rightarrow> string \<Rightarrow> addr option" where
  "evl_request_vdso m info version name =
     Option.bind (evl_lookup_vdso m info version name) (\<lambda>sm. if sm = 0 then None else Some sm)"

definition parse_vdso :: "bytes \<Rightarrow> addr \<Rightarrow> vdso_info \<Rightarrow> vdso_info option" where
  "parse_vdso m vdso info = (if vdso = 0 then None else vdso_init_from_sysinfo_ehdr m info vdso)"

section \<open>The hash of the ELF specification\<close>

text \<open>The function of the specification, with 32-bit unsigned integers.\<close>

definition elf_hash32_step :: "u32 \<Rightarrow> char \<Rightarrow> u32" where
  "elf_hash32_step h c =
     (let h = push_bit 4 h + of_char c;
          g = h AND 0xf0000000;
          h = (if g \<noteq> 0 then h XOR drop_bit 24 g else h)
      in h AND NOT g)"

definition elf_hash32 :: "string \<Rightarrow> u32" where
  "elf_hash32 name = foldl elf_hash32_step 0 name"

lemma ucast_of_char: "ucast (of_char c :: u64) = (of_char c :: u32)"
  by (cases c) (simp add: of_char_def horner_sum_simps)

lemma xor_if: "(if g \<noteq> 0 then h XOR drop_bit k g else h) = h XOR drop_bit k (g :: 'a::len word)"
  by simp

lemma take_bit_add_wide:
  "take_bit 32 (take_bit 64 a + take_bit 64 b) = take_bit 32 (a + b)" for a b :: int
proof -
  have "take_bit 32 (take_bit 64 a + take_bit 64 b) =
    take_bit 32 (take_bit 32 (take_bit 64 a) + take_bit 32 (take_bit 64 b))"
    by (simp only: take_bit_add)
  also have "\<dots> = take_bit 32 (a + b)" by (simp add: take_bit_take_bit take_bit_add)
  finally show ?thesis .
qed

lemma ucast_add32: "(ucast (a + b :: 64 word) :: 32 word) = ucast a + ucast b"
  by transfer (simp add: take_bit_add_wide)

lemma ucast_push32: "(ucast (push_bit n a :: 64 word) :: 32 word) = push_bit n (ucast a)"
  by (rule bit_word_eqI) (auto simp: bit_simps)

text \<open>The mask of the top four of 32 bits.\<close>

lemma high_mask64: "(0xf0000000 :: u64) = push_bit 28 (mask 4)"
  and high_mask32: "(0xf0000000 :: u32) = push_bit 28 (mask 4)"
  by (simp_all add: mask_eq_exp_minus_1)

lemma ucast_elf_hash_step: "ucast (elf_hash_step h c) = elf_hash32_step (ucast h) c"
proof -
  define x where "x = push_bit 4 h + (of_char c :: u64)"
  have x: "(ucast x :: u32) = push_bit 4 (ucast h) + of_char c"
    unfolding x_def by (simp only: ucast_of_char ucast_add32 ucast_push32)
  have "(ucast ((x XOR drop_bit 24 (x AND 0xf0000000)) AND NOT (x AND 0xf0000000)) :: u32) =
    (ucast x XOR drop_bit 24 (ucast x AND 0xf0000000)) AND NOT (ucast x AND 0xf0000000)"
    unfolding high_mask64 high_mask32 by (rule bit_word_eqI) (auto simp: bit_simps)
  then show ?thesis
    unfolding elf_hash_step_def elf_hash32_step_def Let_def xor_if x_def[symmetric] x[symmetric] .
qed

lemma ucast_elf_hash_foldl: "ucast (foldl elf_hash_step h name) = foldl elf_hash32_step (ucast h) name"
  by (induction name arbitrary: h) (simp_all add: ucast_elf_hash_step)

text \<open>
  The version hash the lookup compares is truncated to 32 bits, and so is the hash of the ELF specification.
\<close>
lemma elf_hash_low: "ucast (elf_hash name) = elf_hash32 name"
  using ucast_elf_hash_foldl[of 0 name] by (simp add: elf_hash_def elf_hash32_def)

text \<open>
  The untruncated value, which selects the bucket, is not: it can need more than 32 bits.
\<close>
theorem elf_hash_exceeds:
  "elf_hash [CHR 0xff, CHR 0x0f, CHR 0x0f, CHR 0x0f, CHR 0x0f, CHR 0x0f, CHR 0x12] = 0x100000002"
  by (simp add: elf_hash_def elf_hash_step_def Let_def)

section \<open>Symbols the lookup returns\<close>

text \<open>
  A global or weak function of the given name and version, and one which is defined when the image has no GNU hash
  table: the branch for such a table does not look at the section of the symbol.
\<close>

definition sym_ok :: "bytes \<Rightarrow> vdso_info \<Rightarrow> string \<Rightarrow> string \<Rightarrow> u32 \<Rightarrow> bool" where
  "sym_ok m info version name i \<longleftrightarrow>
     (let sm = sym_at info i in
      ELF64_ST_TYPE (st_info m sm) = STT_FUNC \<and>
      ELF64_ST_BIND (st_info m sm) \<in> {STB_GLOBAL, STB_WEAK} \<and>
      cstr_eq m name (symstrings info + ucast (st_name m sm)) \<and>
      (gnu_hash_tab info = 0 \<longrightarrow> st_shndx m sm \<noteq> SHN_UNDEF) \<and>
      (versym info \<noteq> 0 \<longrightarrow>
        (\<exists>def. vd_ndx m def AND 0x7fff = rd16 m (versym info + 2 * ucast i) AND 0x7fff \<and>
           vd_flags m def AND VER_FLG_BASE = 0 \<and> vd_hash m def = elf_hash32 version \<and>
           cstr_eq m version (symstrings info + ucast (vda_name m (def + ucast (vd_aux m def)))))))"

lemma find_verdef_sound:
  assumes "find_verdef m ver d = Some r"
  shows "r = 0 \<or> vd_flags m r AND VER_FLG_BASE = 0 \<and> vd_ndx m r AND 0x7fff = ver"
  by (rule find_verdef.raw_induct[OF _ assms, where P = "\<lambda>m ver d r. r = 0 \<or>
    vd_flags m r AND VER_FLG_BASE = 0 \<and> vd_ndx m r AND 0x7fff = ver"])
   (auto split: if_split_asm)

lemma match_version_sound:
  assumes "vdso_match_version m info ver name hash = Some True"
  shows "\<exists>def. vd_ndx m def AND 0x7fff = ver AND 0x7fff \<and> vd_flags m def AND VER_FLG_BASE = 0 \<and>
    vd_hash m def = hash \<and> cstr_eq m name (symstrings info + ucast (vda_name m (def + ucast (vd_aux m def))))"
  using assms find_verdef_sound[of m "ver AND 0x7fff" "verdef info"]
  by (fastforce simp: vdso_match_version_def Let_def split: if_split_asm option.splits)

lemma check_sym_sound:
  assumes "check_sym m info (sym_at info i) i name version (elf_hash version) = Some True"
    and "gnu_hash_tab info \<noteq> 0 \<or> st_shndx m (sym_at info i) \<noteq> SHN_UNDEF"
  shows "sym_ok m info version name i"
proof -
  from assms(1) have "ELF64_ST_TYPE (st_info m (sym_at info i)) = STT_FUNC"
    and "ELF64_ST_BIND (st_info m (sym_at info i)) \<in> {STB_GLOBAL, STB_WEAK}"
    and "cstr_eq m name (symstrings info + ucast (st_name m (sym_at info i)))"
    and "versym info \<noteq> 0 \<Longrightarrow>
      vdso_match_version m info (rd16 m (versym info + 2 * ucast i)) version (elf_hash32 version) = Some True"
    by (auto simp: check_sym_def elf_hash_low split: if_split_asm)
  then show ?thesis
    unfolding sym_ok_def Let_def using match_version_sound[of m info _ version] assms(2) by blast
qed

lemma lookup_gnu_sound:
  assumes "lookup_gnu m info version name vh h1 hashval i = Some a"
  shows "vh = elf_hash version \<and> gnu_hash_tab info \<noteq> 0 \<longrightarrow> a = 0 \<or> (\<exists>j. sym_ok m info version name j \<and>
    a = load_offset info + st_value m (sym_at info j))"
  by (rule lookup_gnu.raw_induct[OF _ assms, where P = "\<lambda>m info version name vh h1 hashval i a.
    vh = elf_hash version \<and> gnu_hash_tab info \<noteq> 0 \<longrightarrow> a = 0 \<or> (\<exists>j. sym_ok m info version name j \<and>
      a = load_offset info + st_value m (sym_at info j))"])
    (auto simp: Let_def bind_eq_Some_conv dest: check_sym_sound split: if_split_asm, blast+)

lemma lookup_chain_sound:
  assumes "lookup_chain m info version name vh i = Some a"
  shows "vh = elf_hash version \<longrightarrow> a = 0 \<or> (\<exists>j. sym_ok m info version name j \<and>
    a = load_offset info + st_value m (sym_at info j))"
  by (rule lookup_chain.raw_induct[OF _ assms, where P = "\<lambda>m info version name vh i a.
    vh = elf_hash version \<longrightarrow> a = 0 \<or> (\<exists>j. sym_ok m info version name j \<and>
      a = load_offset info + st_value m (sym_at info j))"])
    (auto simp: Let_def bind_eq_Some_conv dest: check_sym_sound split: if_split_asm, blast+)

text \<open>
  C25. Every address evl_lookup_vdso returns is that of a global or weak function of the image with
  the name asked for and, when the image has versions, with a version definition of the version
  asked for. The function is a defined one when the image has a System V hash table only; with a GNU hash table the section of the symbol is not
  looked at.
\<close>
theorem lookup_vdso_sound:
  assumes "evl_lookup_vdso m info version name = Some a" and "a \<noteq> 0"
  shows "\<exists>i. sym_ok m info version name i \<and> a = load_offset info + st_value m (sym_at info i)"
  using assms lookup_gnu_sound lookup_chain_sound
  by (fastforce simp: evl_lookup_vdso_def Let_def split: if_split_asm)

text \<open>An image with one symbol \<open>f\<close>, in the only chain of a System V hash table.\<close>

definition tiny_image :: bytes where
  "tiny_image = (\<lambda>_. 0)(100 := 1, 200 := of_char (CHR ''f''), 328 := 0x12, 330 := 1, 332 := 0x50)"

definition tiny_info :: vdso_info where
  "tiny_info = vdso_zero\<lparr>valid := True, load_offset := 0x1000, symtab := 300, symstrings := 200,
     bucket := 100, chain := 104, nbucket := 1\<rparr>"

lemmas rd_defs = rd8_def rd16_def rd32_def rd64_def

theorem lookup_vdso_sound_witness:
  "evl_lookup_vdso tiny_image tiny_info ''V'' ''f'' = Some 0x1050 \<and>
   (\<exists>i. sym_ok tiny_image tiny_info ''V'' ''f'' i \<and>
     0x1050 = load_offset tiny_info + st_value tiny_image (sym_at tiny_info i))"
proof -
  have *: "evl_lookup_vdso tiny_image tiny_info ''V'' ''f'' = Some 0x1050"
    by (simp add: evl_lookup_vdso_def tiny_info_def vdso_zero_def tiny_image_def Let_def rd_defs
        lookup_chain.simps sym_at_def check_sym_def ELF64_ST_TYPE_def ELF64_ST_BIND_def STT_FUNC_def
        STB_GLOBAL_def STB_WEAK_def SHN_UNDEF_def st_info_def st_name_def st_shndx_def st_value_def)
  show ?thesis using lookup_vdso_sound[OF *] * by simp
qed

end
