(* ===== verification/Evl_World.thy ===== *)
theory Evl_World
  imports Evl_Prelude Evl_Vdso
begin

text \<open>
  The world the library runs in: the memory a thread shares with the EVL core and with the
  other threads, the thread-local and static variables of the library, and the calls it
  issues to the kernel and to the C library.

  The kernel is not part of the program.  It is the field \<open>kernel\<close> of the parameter \<open>S\<close> of every
  definition: a function from a call and the shared state to a reply and a new shared state,
  about which nothing is assumed here.  The field \<open>others\<close> is the interference of the other
  threads, which may act before any atomic access of the calling thread; its boolean says
  whether a weak compare-and-exchange fails spuriously.  The constants of the kernel headers
  (\<^verbatim>\<open>*-abi.h\<close>) are fields of \<open>S\<close> as well, under their C names.

  Every call is appended to \<open>log\<close> with its reply: an auxiliary variable with which the theorems
  speak of the calls a function issued, their order, their arguments and their results.
\<close>

unbundle bit_operations_syntax

type_synonym fundle = u32

section \<open>Data exchanged with the kernel\<close>

record timespec =
  tv_sec :: int
  tv_nsec :: int

abbreviation zerotime :: timespec where "zerotime \<equiv> \<lparr>tv_sec = 0, tv_nsec = 0\<rparr>"

record itimerspec =
  it_interval :: timespec
  it_value :: timespec

text \<open>The state of a monitor, shared with the kernel; the C union has the arms \<open>gate\<close> and \<open>event\<close>.\<close>

record gate_state =
  g_owner :: u32
  g_ceiling :: u32
  g_recursive :: bool
  g_nesting :: nat

record event_state =
  e_value :: s32
  e_pollrefs :: s32
  e_gate_offset :: u32

record evl_monitor_state =
  ms_flags :: u32
  gate :: gate_state
  event :: event_state

record evl_user_window =
  uw_state :: u32
  pp_pending :: fundle

record evl_element_ids =
  eid_fundle :: fundle
  eid_state_offset :: u32

record evl_monitor_attrs =
  ma_type :: int
  ma_protocol :: int
  ma_clockfd :: int
  ma_initval :: u32

record evl_monitor_waitreq =
  wr_timeout :: "timespec option"
  wr_gatefd :: int
  wr_value :: u32

record evl_sched_attrs =
  sched_policy :: int
  sched_priority :: int

record evl_poll_ctlreq =
  pc_action :: int
  pc_fd :: int
  pc_events :: u32
  pc_pollval :: u64

record user_oob_msghdr =
  um_iov :: addr
  um_iovlen :: u32
  um_ctl :: addr
  um_ctllen :: u32
  um_name :: addr
  um_namelen :: u32
  um_count :: u32
  um_flags :: int
  um_timeout :: timespec

datatype clone_attrs =
    NoAttrs
  | MonitorAttrs evl_monitor_attrs
  | ProxyAttrs int nat nat
  | XbufAttrs nat nat

text \<open>The requests of \<^verbatim>\<open>ioctl\<close> and \<^verbatim>\<open>oob_ioctl\<close>, with what the caller puts in their argument.\<close>

datatype (plugins only: code size) ioctl_req =
    EVL_IOC_CLONE "string option" clone_attrs u32
  | EVL_CTLIOC_GET_COREINFO
  | EVL_CTLIOC_SCHEDCTL int int addr addr
  | EVL_CTLIOC_GET_CPUSTATE int
  | EVL_THRIOC_SET_SCHEDPARAM evl_sched_attrs
  | EVL_THRIOC_GET_SCHEDPARAM
  | EVL_THRIOC_SET_MODE u32
  | EVL_THRIOC_CLEAR_MODE u32
  | EVL_THRIOC_DETACH_SELF
  | EVL_THRIOC_SWITCH_OOB
  | EVL_THRIOC_SWITCH_INBAND
  | EVL_THRIOC_GET_STATE
  | EVL_THRIOC_UNBLOCK
  | EVL_THRIOC_DEMOTE
  | EVL_THRIOC_YIELD
  | EVL_THRIOC_SIGNAL u32
  | EVL_OBSIOC_SUBSCRIBE u32 u32
  | EVL_OBSIOC_UNSUBSCRIBE
  | EVL_CLKIOC_GET_TIME
  | EVL_CLKIOC_SET_TIME "timespec option"
  | EVL_CLKIOC_GET_RES
  | EVL_CLKIOC_SLEEP "timespec option"
  | EVL_CLKIOC_NEW_TIMER
  | EVL_TFDIOC_SET "itimerspec option" addr
  | EVL_TFDIOC_GET
  | EVL_MONIOC_BIND
  | EVL_MONIOC_WAIT evl_monitor_waitreq
  | EVL_MONIOC_WAIT_EXACT evl_monitor_waitreq
  | EVL_MONIOC_TRYWAIT u32
  | EVL_MONIOC_TRYWAIT_EXACT u32
  | EVL_MONIOC_UNWAIT int
  | EVL_MONIOC_SIGNAL s32
  | EVL_MONIOC_BROADCAST s32
  | EVL_MONIOC_ENTER "timespec option"
  | EVL_MONIOC_TRYENTER
  | EVL_MONIOC_EXIT
  | EVL_POLIOC_CTL evl_poll_ctlreq
  | EVL_POLIOC_WAIT "timespec option" addr int
  | EVL_SOCKIOC_SENDMSG user_oob_msghdr
  | EVL_SOCKIOC_RECVMSG user_oob_msghdr
  | EVL_SOCKIOC_SETOPT int int addr addr
  | EVL_SOCKIOC_GETOPT int int addr addr
  | EVL_SOCKIOC_SOLICIT string u32
  | EVL_NET_OPENPORT addr nat nat
  | EVL_NET_GETDEVFD addr
  | EVL_NDEVIOC_SWITCHOFF
  | EVL_NDEVIOC_SETRXEBPF int
  | EVL_NDEVIOC_GETSTAT

datatype fcntl_cmd = F_GETFD | F_SETFD | F_GETFL | F_SETFL

datatype cancel_type = PTHREAD_CANCEL_DEFERRED | PTHREAD_CANCEL_ASYNCHRONOUS

text \<open>The names of the device classes and of the clock devices, strings of the kernel headers.\<close>

datatype dev_name =
    EVL_CONTROL_DEV | EVL_THREAD_DEV | EVL_MONITOR_DEV | EVL_CLOCK_DEV | EVL_CLOCK_MONOTONIC_DEV
  | EVL_CLOCK_REALTIME_DEV | EVL_PROXY_DEV | EVL_OBSERVABLE_DEV | EVL_POLL_DEV | EVL_XBUF_DEV | EVL_NET_DEV

datatype atfork_handler = Atfork_unmap_shmem | Atfork_clear_tls

datatype (plugins only: code size) kcall =
    Sys_open string
  | Sys_close int
  | Sys_fcntl int fcntl_cmd int
  | Sys_ioctl int ioctl_req
  | Sys_oob_ioctl int ioctl_req
  | Sys_read int nat
  | Sys_oob_read int nat
  | Sys_write int string int
  | Sys_oob_write int string int
  | Sys_mmap nat int
  | Sys_munmap addr nat
  | Sys_mlockall
  | Sys_clock_gettime int
  | Vdso_clock_gettime addr int
  | Sys_clock_settime int "timespec option"
  | Sys_clock_getres int
  | Sys_getpid
  | Lib_asprintf string
  | Lib_free string
  | Lib_getschedparam
  | Lib_get_priority_max
  | Lib_atfork atfork_handler
  | Lib_fileno nat
  | Lib_fprintf string
  | Lib_error string
  | Bpf_open string
  | Bpf_load addr
  | Bpf_next_program addr
  | Bpf_program_fd addr
  | Bpf_close addr

text \<open>What a call writes through the pointers it is given; a call fills in the fields it has.\<close>

record evl_core_info =
  abi_base :: u32
  abi_current :: u32
  fpu_features :: u32
  shm_size :: nat

record kout =
  o_int :: int
  o_u32 :: u32
  o_addr :: addr
  o_type :: int
  o_protocol :: int
  o_eids :: evl_element_ids
  o_ts :: timespec
  o_its :: itimerspec
  o_core :: evl_core_info
  o_data :: string
  o_attrs :: evl_sched_attrs
  o_msg :: user_oob_msghdr

record kreply =
  k_ret :: int
  k_errno :: int
  k_out :: kout

section \<open>State\<close>

text \<open>
  Memory shared with the kernel and the other threads: the monitor states and the user windows
  in the shared heap of the core, the words of the locks the library builds itself, by their
  addresses, and whatever state the kernel keeps.
\<close>

record 'k shared =
  mon :: "addr \<Rightarrow> evl_monitor_state"
  win :: "addr \<Rightarrow> evl_user_window"
  uword :: "addr \<Rightarrow> u32"
  kst :: 'k

record 'k world =
  shr :: "'k shared"
  errno :: int
  cancel :: cancel_type
  evl_current :: fundle
  evl_current_efd :: int
  evl_current_window :: addr
  shared_memory :: addr
  evl_ctlfd :: int
  evl_mono_clockfd :: int
  evl_real_clockfd :: int
  evl_clock_gettime_fn :: addr
  vdso :: vdso_info
  core_info :: evl_core_info
  init_once :: bool
  init_status :: int
  vdso_once :: bool
  atfork_once :: bool
  lart_done :: bool
  evl_outfd :: int
  evl_errfd :: int
  fmt_buf :: string
  log :: "(kcall \<times> kreply) list"

record 'k system =
  kernel :: "kcall \<Rightarrow> 'k shared \<Rightarrow> kreply \<times> 'k shared"
  others :: "'k shared \<Rightarrow> bool \<times> 'k shared"
  running_on_valgrind :: bool
  image :: bytes
  sysinfo_ehdr :: addr
  dev :: "dev_name \<Rightarrow> string"
  EVL_NO_HANDLE :: fundle
  evl_get_index :: "u32 \<Rightarrow> u32"
  EVL_T_INBAND :: u32
  EVL_T_WEAK :: u32
  EVL_T_WOLI :: u32
  EVL_T_WOSS :: u32
  EVL_CLONE_MASK :: u32
  EVL_CLONE_PUBLIC :: u32
  EVL_CLONE_PRIVATE :: u32
  EVL_CLONE_NONBLOCK :: u32
  EVL_MONITOR_GATE :: int
  EVL_MONITOR_EVENT :: int
  EVL_GATE_PI :: int
  EVL_GATE_PP :: int
  EVL_EVENT_GATED :: int
  EVL_EVENT_COUNT :: int
  EVL_EVENT_MASK :: int
  EVL_MONITOR_NOGATE :: u32
  EVL_MONITOR_SIGNALED :: u32
  EVL_MONITOR_BROADCAST :: u32
  NESTING_RANGE :: nat
  sizeof_notice :: int
  sizeof_notification :: int
  EVL_CLOCK_MONOTONIC :: int
  EVL_CLOCK_REALTIME :: int
  EVL_POLL_CTLADD :: int
  EVL_POLL_CTLDEL :: int
  EVL_POLL_CTLMOD :: int

text \<open>Open flags and descriptor flags of Linux.\<close>

definition O_CLOEXEC :: int where "O_CLOEXEC = 0x80000"
definition O_NONBLOCK :: int where "O_NONBLOCK = 0x800"
definition FD_CLOEXEC :: int where "FD_CLOEXEC = 1"

section \<open>Calls\<close>

text \<open>
  A call runs the kernel, is logged, and sets \<^verbatim>\<open>errno\<close> when it returns a negative value, as the C
  library does; a call that succeeds leaves \<^verbatim>\<open>errno\<close> as it was.
\<close>

definition sys :: "'k system \<Rightarrow> kcall \<Rightarrow> 'k world \<Rightarrow> kreply \<times> 'k world" where
  "sys S c w =
     (let (r, sh) = kernel S c (shr w) in
      (r, w\<lparr>shr := sh, errno := (if k_ret r < 0 then k_errno r else errno w), log := log w @ [(c, r)]\<rparr>))"

text \<open>\<^verbatim>\<open>pthread_setcanceltype\<close>, with the old type it stores through its second argument.\<close>

definition pthread_setcanceltype :: "cancel_type \<Rightarrow> 'k world \<Rightarrow> cancel_type \<times> 'k world" where
  "pthread_setcanceltype t w = (cancel w, w\<lparr>cancel := t\<rparr>)"

section \<open>Atomic accesses\<close>

datatype aloc = Owner addr | Value addr | Pollrefs addr | Uword addr

fun aget :: "aloc \<Rightarrow> 'k shared \<Rightarrow> u32" where
  "aget (Owner a) sh = g_owner (gate (mon sh a))"
| "aget (Value a) sh = e_value (event (mon sh a))"
| "aget (Pollrefs a) sh = e_pollrefs (event (mon sh a))"
| "aget (Uword a) sh = uword sh a"

fun aput :: "aloc \<Rightarrow> u32 \<Rightarrow> 'k shared \<Rightarrow> 'k shared" where
  "aput (Owner a) v sh = sh\<lparr>mon := (mon sh)(a := (mon sh a)\<lparr>gate := (gate (mon sh a))\<lparr>g_owner := v\<rparr>\<rparr>)\<rparr>"
| "aput (Value a) v sh = sh\<lparr>mon := (mon sh)(a := (mon sh a)\<lparr>event := (event (mon sh a))\<lparr>e_value := v\<rparr>\<rparr>)\<rparr>"
| "aput (Pollrefs a) v sh = sh\<lparr>mon := (mon sh)(a := (mon sh a)\<lparr>event := (event (mon sh a))\<lparr>e_pollrefs := v\<rparr>\<rparr>)\<rparr>"
| "aput (Uword a) v sh = sh\<lparr>uword := (uword sh)(a := v)\<rparr>"

text \<open>What the other threads do before the next atomic access of this one.\<close>

definition interfere :: "'k system \<Rightarrow> 'k world \<Rightarrow> bool \<times> 'k world" where
  "interfere S w = (let (spurious, sh) = others S (shr w) in (spurious, w\<lparr>shr := sh\<rparr>))"

definition atomic_load :: "'k system \<Rightarrow> aloc \<Rightarrow> 'k world \<Rightarrow> u32 \<times> 'k world" where
  "atomic_load S l w = (let (_, w) = interfere S w in (aget l (shr w), w))"

definition atomic_store :: "'k system \<Rightarrow> aloc \<Rightarrow> u32 \<Rightarrow> 'k world \<Rightarrow> 'k world" where
  "atomic_store S l v w = (let (_, w) = interfere S w in w\<lparr>shr := aput l v (shr w)\<rparr>)"

text \<open>
  The C11 compare-and-exchange operations: whether the exchange was done, and the value of the
  expected variable afterwards (the value found, when it was not).
\<close>

definition compare_exchange_strong :: "'k system \<Rightarrow> aloc \<Rightarrow> u32 \<Rightarrow> u32 \<Rightarrow> 'k world \<Rightarrow> (bool \<times> u32) \<times> 'k world" where
  "compare_exchange_strong S l expected desired w =
     (let (_, w) = interfere S w; v = aget l (shr w) in
      if v = expected then ((True, expected), w\<lparr>shr := aput l desired (shr w)\<rparr>) else ((False, v), w))"

definition compare_exchange_weak :: "'k system \<Rightarrow> aloc \<Rightarrow> u32 \<Rightarrow> u32 \<Rightarrow> 'k world \<Rightarrow> (bool \<times> u32) \<times> 'k world" where
  "compare_exchange_weak S l expected desired w =
     (let (spurious, w) = interfere S w; v = aget l (shr w) in
      if v = expected \<and> \<not> spurious then ((True, expected), w\<lparr>shr := aput l desired (shr w)\<rparr>)
      else ((False, v), w))"

text \<open>The macros of \<^verbatim>\<open>evl/atomic.h\<close>, which return the expected variable only.\<close>

definition atomic_cmpxchg :: "'k system \<Rightarrow> aloc \<Rightarrow> u32 \<Rightarrow> u32 \<Rightarrow> 'k world \<Rightarrow> u32 \<times> 'k world" where
  "atomic_cmpxchg S l oldval newval w =
     (let ((_, exp), w) = compare_exchange_strong S l oldval newval w in (exp, w))"

definition atomic_cmpxchg_weak :: "'k system \<Rightarrow> aloc \<Rightarrow> u32 \<Rightarrow> u32 \<Rightarrow> 'k world \<Rightarrow> u32 \<times> 'k world" where
  "atomic_cmpxchg_weak S l oldval newval w =
     (let ((_, exp), w) = compare_exchange_weak S l oldval newval w in (exp, w))"

definition atomic_read :: "'k system \<Rightarrow> aloc \<Rightarrow> 'k world \<Rightarrow> u32 \<times> 'k world" where
  "atomic_read S l w = atomic_load S l w"

end
