(* ===== verification/Evl_Sys.thy ===== *)
theory Evl_Sys
  imports Evl_World "HOL-Library.Multiset"
begin

text \<open>
  \<^verbatim>\<open>lib/syscall.c\<close>, the inline helpers of \<^verbatim>\<open>lib/internal.h\<close> and \<^verbatim>\<open>lib/sys.c\<close>: the out-of-band
  system calls, the choice between in-band and out-of-band calls, and the creation and opening
  of EVL elements through their device files, with the file descriptors these operations hold
  when they return.
\<close>

section \<open>Out-of-band system calls\<close>

definition oob_read :: "'k system \<Rightarrow> int \<Rightarrow> nat \<Rightarrow> 'k world \<Rightarrow> kreply \<times> 'k world" where
  "oob_read S efd cnt w =
     (let (old_type, w) = pthread_setcanceltype PTHREAD_CANCEL_ASYNCHRONOUS w;
          (ret, w) = sys S (Sys_oob_read efd cnt) w;
          (_, w) = pthread_setcanceltype old_type w
      in (ret, w))"

definition oob_write :: "'k system \<Rightarrow> int \<Rightarrow> string \<Rightarrow> int \<Rightarrow> 'k world \<Rightarrow> kreply \<times> 'k world" where
  "oob_write S efd buf cnt w =
     (let (old_type, w) = pthread_setcanceltype PTHREAD_CANCEL_ASYNCHRONOUS w;
          (ret, w) = sys S (Sys_oob_write efd buf cnt) w;
          (_, w) = pthread_setcanceltype old_type w
      in (ret, w))"

definition oob_ioctl :: "'k system \<Rightarrow> int \<Rightarrow> ioctl_req \<Rightarrow> 'k world \<Rightarrow> kreply \<times> 'k world" where
  "oob_ioctl S efd request w =
     (let (old_type, w) = pthread_setcanceltype PTHREAD_CANCEL_ASYNCHRONOUS w;
          (ret, w) = sys S (Sys_oob_ioctl efd request) w;
          (_, w) = pthread_setcanceltype old_type w
      in (ret, w))"

definition ioctl :: "'k system \<Rightarrow> int \<Rightarrow> ioctl_req \<Rightarrow> 'k world \<Rightarrow> kreply \<times> 'k world" where
  "ioctl S fd request w = sys S (Sys_ioctl fd request) w"

text \<open>\<^verbatim>\<open>ret ? -errno : 0\<close>, the way the library turns the result of a call into its own.\<close>

definition ret_errno :: "kreply \<times> 'k world \<Rightarrow> int \<times> 'k world" where
  "ret_errno rw = (if k_ret (fst rw) \<noteq> 0 then - errno (snd rw) else 0, snd rw)"

section \<open>The state of the current thread\<close>

definition evl_get_current_mode :: "'k system \<Rightarrow> 'k world \<Rightarrow> u32" where
  "evl_get_current_mode S w =
     (if evl_current_window w \<noteq> NULL then uw_state (win (shr w) (evl_current_window w))
      else EVL_T_INBAND S)"

definition evl_get_current :: "'k world \<Rightarrow> fundle" where
  "evl_get_current w = evl_current w"

definition evl_get_current_window :: "'k world \<Rightarrow> addr" where
  "evl_get_current_window w = (if evl_current w \<noteq> 0 then evl_current_window w else NULL)"

definition evl_is_inband :: "'k system \<Rightarrow> 'k world \<Rightarrow> bool" where
  "evl_is_inband S w \<longleftrightarrow> evl_get_current_mode S w AND EVL_T_INBAND S \<noteq> 0"

text \<open>
  The macro \<^verbatim>\<open>__evl_conforming_io\<close>: the in-band or the out-of-band variant of a call, by the
  current mode of the caller.  Its value is \<^verbatim>\<open>__ret ? -errno : 0\<close>.
\<close>

definition conforming_ioctl :: "'k system \<Rightarrow> int \<Rightarrow> ioctl_req \<Rightarrow> 'k world \<Rightarrow> (int \<times> kout) \<times> 'k world" where
  "conforming_ioctl S efd req w =
     (let (r, w) = (if evl_is_inband S w then ioctl S efd req w else oob_ioctl S efd req w)
      in ((if k_ret r \<noteq> 0 then - errno w else 0, k_out r), w))"

definition conforming_write :: "'k system \<Rightarrow> int \<Rightarrow> string \<Rightarrow> int \<Rightarrow> 'k world \<Rightarrow> int \<times> 'k world" where
  "conforming_write S efd buf cnt w =
     (let (r, w) = (if evl_is_inband S w then sys S (Sys_write efd buf cnt) w
                    else oob_write S efd buf cnt w)
      in (if k_ret r \<noteq> 0 then - errno w else 0, w))"

definition conforming_read :: "'k system \<Rightarrow> int \<Rightarrow> nat \<Rightarrow> 'k world \<Rightarrow> (int \<times> kout) \<times> 'k world" where
  "conforming_read S efd cnt w =
     (let (r, w) = (if evl_is_inband S w then sys S (Sys_read efd cnt) w
                    else oob_read S efd cnt w)
      in ((if k_ret r \<noteq> 0 then - errno w else 0, k_out r), w))"

section \<open>Elements\<close>

text \<open>The path of an element's device: \<^verbatim>\<open>"/dev/evl/%s/%s"\<close>, and of a class device: \<^verbatim>\<open>"/dev/evl/%s"\<close>.\<close>

definition dev_path :: "string \<Rightarrow> string \<Rightarrow> string" where
  "dev_path type name = ''/dev/evl/'' @ type @ ''/'' @ name"

definition raw_path :: "string \<Rightarrow> string" where
  "raw_path type = ''/dev/evl/'' @ type"

definition do_lart_once :: "'k system \<Rightarrow> 'k world \<Rightarrow> 'k world" where
  "do_lart_once S w = snd (sys S (Lib_fprintf ''evl: core present but stopped'') w)"

definition lart_once :: "'k system \<Rightarrow> 'k world \<Rightarrow> 'k world" where
  "lart_once S w = (if lart_done w then w else do_lart_once S (w\<lparr>lart_done := True\<rparr>))"

definition flip_fd_flags :: "'k system \<Rightarrow> int \<Rightarrow> fcntl_cmd \<Rightarrow> int \<Rightarrow> 'k world \<Rightarrow> int \<times> 'k world" where
  "flip_fd_flags S efd cmd flags w =
     (let (ret, w) = sys S (Sys_fcntl efd (if cmd = F_SETFD then F_GETFD else F_GETFL) 0) w in
      if k_ret ret < 0 then (- errno w, w)
      else let (ret, w) = sys S (Sys_fcntl efd cmd (k_ret ret OR flags)) w in
      if k_ret ret \<noteq> 0 then (- errno w, w)
      else (0, w))"

text \<open>
  Formatting into a fresh buffer, and its release; a negative result is an allocation failure.
  A function that takes a format and its arguments gets the formatted text here, \<open>None\<close> when the
  format is a null pointer.
\<close>

definition asprintf :: "'k system \<Rightarrow> string \<Rightarrow> 'k world \<Rightarrow> int \<times> 'k world" where
  "asprintf S txt w = (let (r, w) = sys S (Lib_asprintf txt) w in (k_ret r, w))"

definition free :: "'k system \<Rightarrow> string \<Rightarrow> 'k world \<Rightarrow> 'k world" where
  "free S txt w = snd (sys S (Lib_free txt) w)"

definition asprintf_opt :: "'k system \<Rightarrow> string option \<Rightarrow> 'k world \<Rightarrow> int \<times> 'k world" where
  "asprintf_opt S fmt w = (case fmt of None \<Rightarrow> (0, w) | Some txt \<Rightarrow> asprintf S txt w)"

definition free_opt :: "'k system \<Rightarrow> string option \<Rightarrow> 'k world \<Rightarrow> 'k world" where
  "free_opt S name w = (case name of None \<Rightarrow> w | Some txt \<Rightarrow> free S txt w)"

definition close_fd :: "'k system \<Rightarrow> int \<Rightarrow> 'k world \<Rightarrow> int \<times> 'k world" where
  "close_fd S fd w = (let (r, w) = sys S (Sys_close fd) w in (k_ret r, w))"

text \<open>
  The labels \<^verbatim>\<open>out_new\<close> and \<^verbatim>\<open>out_element\<close> of \<^verbatim>\<open>evl_create_element\<close>.
\<close>

definition create_out_new :: "'k system \<Rightarrow> string \<Rightarrow> int \<Rightarrow> int \<times> evl_element_ids option \<Rightarrow> 'k world \<Rightarrow>
    (int \<times> evl_element_ids option) \<times> 'k world" where
  "create_out_new S fdevname ffd ret w =
     (let (_, w) = close_fd S ffd w; w = free S fdevname w in (ret, w))"

definition create_out_element :: "'k system \<Rightarrow> string option \<Rightarrow> string \<Rightarrow> int \<Rightarrow>
    int \<times> evl_element_ids option \<Rightarrow> 'k world \<Rightarrow> (int \<times> evl_element_ids option) \<times> 'k world" where
  "create_out_element S edevname fdevname ffd ret w =
     create_out_new S fdevname ffd ret (case edevname of None \<Rightarrow> w | Some s \<Rightarrow> free S s w)"

text \<open>The new descriptor's flags, the element ids, and the labels that follow.\<close>

definition create_finish :: "'k system \<Rightarrow> bool \<Rightarrow> int \<Rightarrow> evl_element_ids \<Rightarrow> string option \<Rightarrow> string \<Rightarrow> int \<Rightarrow>
    'k world \<Rightarrow> (int \<times> evl_element_ids option) \<times> 'k world" where
  "create_finish S nonblock efd eids edevname fdevname ffd w =
     (let (ret, w) = flip_fd_flags S efd F_SETFD O_CLOEXEC w in
      if ret \<noteq> 0 then create_out_element S edevname fdevname ffd (ret, None) w
      else let (ret, w) = (if nonblock then flip_fd_flags S efd F_SETFL O_NONBLOCK w else (0, w)) in
      if ret \<noteq> 0 then create_out_element S edevname fdevname ffd (ret, None) w
      else create_out_element S edevname fdevname ffd (efd, Some eids) w)"

text \<open>A name with a leading slash turns on the public mode; the slash is skipped.\<close>

definition public_name :: "'k system \<Rightarrow> string option \<Rightarrow> u32 \<Rightarrow> string option \<times> u32" where
  "public_name S name clone_flags =
     (case name of
        Some (c # rest) \<Rightarrow> if c = CHR ''/'' then (Some rest, clone_flags OR EVL_CLONE_PUBLIC S)
                          else (name, clone_flags)
      | _ \<Rightarrow> (name, clone_flags))"

text \<open>The second part of \<^verbatim>\<open>evl_create_element\<close>: cloning, and opening the device of a public element.\<close>

definition create_cloned :: "'k system \<Rightarrow> string \<Rightarrow> string option \<Rightarrow> clone_attrs \<Rightarrow> u32 \<Rightarrow> bool \<Rightarrow> string \<Rightarrow>
    int \<Rightarrow> 'k world \<Rightarrow> (int \<times> evl_element_ids option) \<times> 'k world" where
  "create_cloned S type name attrs clone_flags nonblock fdevname ffd w =
     (let (name, clone_flags) = public_name S name clone_flags;
           (r, w) = ioctl S ffd (EVL_IOC_CLONE name attrs clone_flags) w
      in if k_ret r \<noteq> 0 then
           let ret = - errno w; w = (if ret = - ENXIO then lart_once S w else w)
           in create_out_new S fdevname ffd (ret, None) w
      else if clone_flags AND EVL_CLONE_PUBLIC S \<noteq> 0 then
           let edevname = dev_path type (case name of Some n \<Rightarrow> n | None \<Rightarrow> []);
               (ret, w) = asprintf S edevname w
           in if ret < 0 then create_out_new S fdevname ffd (- ENOMEM, None) w
           else let (efd, w) = sys S (Sys_open edevname) w
           in if k_ret efd < 0 then
                create_out_element S (Some edevname) fdevname ffd (- errno w, None) w
           else create_finish S nonblock (k_ret efd) (o_eids (k_out r)) (Some edevname) fdevname ffd w
      else create_finish S nonblock (o_int (k_out r)) (o_eids (k_out r)) None fdevname ffd w)"

definition evl_create_element :: "'k system \<Rightarrow> string \<Rightarrow> string option \<Rightarrow> clone_attrs \<Rightarrow> u32 \<Rightarrow> 'k world \<Rightarrow>
    (int \<times> evl_element_ids option) \<times> 'k world" where
  "evl_create_element S type name attrs clone_flags w =
     (let nonblock = clone_flags AND EVL_CLONE_NONBLOCK S \<noteq> 0;
          clone_flags = clone_flags AND EVL_CLONE_MASK S;
          clone_flags = clone_flags AND NOT (EVL_CLONE_NONBLOCK S);
          fdevname = dev_path type ''clone'';
          (ret, w) = asprintf S fdevname w
      in if ret < 0 then ((- ENOMEM, None), w)
      else let (ffd, w) = sys S (Sys_open fdevname) w
      in if k_ret ffd < 0 then ((- errno w, None), free S fdevname w)
      else if name = None \<and> clone_flags AND EVL_CLONE_PUBLIC S \<noteq> 0 then ((- EINVAL, None), w)
      else create_cloned S type name attrs clone_flags nonblock fdevname (k_ret ffd) w)"

definition evl_open_element_vargs :: "'k system \<Rightarrow> string \<Rightarrow> string \<Rightarrow> 'k world \<Rightarrow> int \<times> 'k world" where
  "evl_open_element_vargs S type name w =
     (let (ret, w) = asprintf S name w
      in if ret < 0 then (- ENOMEM, w)
      else let path = dev_path type name;
               (ret, w) = asprintf S path w;
               w = free S name w
      in if ret < 0 then (- ENOMEM, w)
      else let (efd, w) = sys S (Sys_open path) w
      in if k_ret efd < 0 then (- errno w, free S path w)
      else let (ret, w) = sys S (Sys_fcntl (k_ret efd) F_GETFD 0) w
      in if k_ret ret < 0 then
           let ret = - errno w; (_, w) = close_fd S (k_ret efd) w in (ret, free S path w)
      else let (ret, w) = sys S (Sys_fcntl (k_ret efd) F_SETFD (k_ret ret OR O_CLOEXEC)) w
      in if k_ret ret \<noteq> 0 then
           let ret = - errno w; (_, w) = close_fd S (k_ret efd) w in (ret, free S path w)
      else (k_ret efd, free S path w))"

definition evl_open_element :: "'k system \<Rightarrow> string \<Rightarrow> string \<Rightarrow> 'k world \<Rightarrow> int \<times> 'k world" where
  "evl_open_element S type name w = evl_open_element_vargs S type name w"

definition evl_open_raw :: "'k system \<Rightarrow> string \<Rightarrow> 'k world \<Rightarrow> int \<times> 'k world" where
  "evl_open_raw S type w =
     (let devname = raw_path type;
          (ret, w) = asprintf S devname w
      in if ret < 0 then (- ENOMEM, w)
      else let (efd, w) = sys S (Sys_open devname) w
      in if k_ret efd < 0 then
           let ret = - errno w in (ret, free S devname w)
      else let (ret, w) = flip_fd_flags S (k_ret efd) F_SETFD O_CLOEXEC w
      in if ret \<noteq> 0 then
           let (_, w) = close_fd S (k_ret efd) w in (ret, free S devname w)
      else (k_ret efd, free S devname w))"

section \<open>Facts about calls\<close>

lemma oob_ioctl_eq: "oob_ioctl S efd rq w = sys S (Sys_oob_ioctl efd rq) w"
  by (cases w) (simp add: oob_ioctl_def pthread_setcanceltype_def sys_def split_beta Let_def)

lemma oob_read_eq: "oob_read S efd cnt w = sys S (Sys_oob_read efd cnt) w"
  by (cases w) (simp add: oob_read_def pthread_setcanceltype_def sys_def split_beta Let_def)

lemma oob_write_eq: "oob_write S efd buf cnt w = sys S (Sys_oob_write efd buf cnt) w"
  by (cases w) (simp add: oob_write_def pthread_setcanceltype_def sys_def split_beta Let_def)

text \<open>A call changes the shared state, \<^verbatim>\<open>errno\<close> and the log only.\<close>

definition same_process :: "'k world \<Rightarrow> 'k world \<Rightarrow> bool" where
  "same_process w w' \<longleftrightarrow> w' = w\<lparr>shr := shr w', errno := errno w', log := log w'\<rparr>"

lemma same_process_refl [simp]: "same_process w w"
  by (simp add: same_process_def)

lemma same_process_trans [trans]: "same_process w w' \<Longrightarrow> same_process w' w'' \<Longrightarrow> same_process w w''"
  by (cases w; cases w'; cases w'') (simp add: same_process_def)

lemma sys_same_process: "same_process w (snd (sys S c w))"
  by (cases w) (simp add: sys_def same_process_def split_beta Let_def)

lemma interfere_same_process: "same_process w (snd (interfere S w))"
  by (cases w) (simp add: interfere_def same_process_def split_beta Let_def)

lemma same_process_fields:
  assumes "same_process w w'"
  shows "cancel w' = cancel w" "evl_current w' = evl_current w" "evl_current_efd w' = evl_current_efd w"
    "evl_current_window w' = evl_current_window w" "shared_memory w' = shared_memory w"
    "evl_ctlfd w' = evl_ctlfd w" "evl_mono_clockfd w' = evl_mono_clockfd w"
    "evl_real_clockfd w' = evl_real_clockfd w" "fmt_buf w' = fmt_buf w"
  using assms by (cases w; cases w'; simp add: same_process_def)+

lemma sys_frame [simp]:
  "cancel (snd (sys S c w)) = cancel w" "evl_current (snd (sys S c w)) = evl_current w"
  "evl_current_efd (snd (sys S c w)) = evl_current_efd w"
  "evl_current_window (snd (sys S c w)) = evl_current_window w"
  "shared_memory (snd (sys S c w)) = shared_memory w"
  "evl_ctlfd (snd (sys S c w)) = evl_ctlfd w" "evl_mono_clockfd (snd (sys S c w)) = evl_mono_clockfd w"
  "evl_real_clockfd (snd (sys S c w)) = evl_real_clockfd w" "fmt_buf (snd (sys S c w)) = fmt_buf w"
  by (simp_all add: same_process_fields[OF sys_same_process])

lemma sys_log: "log (snd (sys S c w)) = log w @ [(c, fst (sys S c w))]"
  by (simp add: sys_def split_beta Let_def)

lemma sys_errno: "errno (snd (sys S c w)) = (if k_ret (fst (sys S c w)) < 0 then k_errno (fst (sys S c w)) else errno w)"
  by (simp add: sys_def split_beta Let_def)

subsection \<open>What the theorems rely on of the kernel\<close>

text \<open>
  The documented convention of Linux system calls: -1 on failure, with a positive \<^verbatim>\<open>errno\<close>;
  the calls that only report a status return 0 on success.  Cloning a private element returns a
  descriptor on it.
\<close>

fun status_call :: "kcall \<Rightarrow> bool" where
  "status_call (Sys_close fd) = True"
| "status_call (Sys_fcntl fd cmd arg) = (cmd = F_SETFD \<or> cmd = F_SETFL)"
| "status_call (Sys_ioctl fd rq) = True"
| "status_call (Sys_oob_ioctl fd rq) = True"
| "status_call _ = False"

definition kernel_ok :: "'k system \<Rightarrow> bool" where
  "kernel_ok S \<longleftrightarrow> (\<forall>c sh. let r = fst (kernel S c sh) in
     - 1 \<le> k_ret r \<and> (k_ret r < 0 \<longrightarrow> 0 < k_errno r) \<and> (status_call c \<longrightarrow> k_ret r \<le> 0) \<and>
     (\<forall>fd name attrs flags. c = Sys_ioctl fd (EVL_IOC_CLONE name attrs flags) \<and> k_ret r = 0 \<and>
        flags AND EVL_CLONE_PUBLIC S = 0 \<longrightarrow> 0 \<le> o_int (k_out r)))"

lemma kernel_ok_sys:
  assumes "kernel_ok S"
  shows "- 1 \<le> k_ret (fst (sys S c w))"
    and "k_ret (fst (sys S c w)) < 0 \<Longrightarrow> 0 < k_errno (fst (sys S c w))"
    and "status_call c \<Longrightarrow> k_ret (fst (sys S c w)) \<le> 0"
  using assms by (simp_all add: kernel_ok_def sys_def Let_def split_beta)

lemma kernel_ok_clone:
  assumes "kernel_ok S" and "flags AND EVL_CLONE_PUBLIC S = 0"
    and "k_ret (fst (sys S (Sys_ioctl fd (EVL_IOC_CLONE name attrs flags)) w)) = 0"
  shows "0 \<le> o_int (k_out (fst (sys S (Sys_ioctl fd (EVL_IOC_CLONE name attrs flags)) w)))"
  using assms unfolding kernel_ok_def sys_def Let_def split_beta fst_conv by blast

lemma sys_errno_pos: "kernel_ok S \<Longrightarrow> k_ret (fst (sys S c w)) < 0 \<Longrightarrow> 0 < errno (snd (sys S c w))"
  by (simp add: sys_errno kernel_ok_sys)

lemma status_errno_pos:
  assumes "kernel_ok S" and "status_call c" and "k_ret (fst (sys S c w)) \<noteq> 0"
  shows "0 < errno (snd (sys S c w))"
  using sys_errno_pos[OF assms(1)] kernel_ok_sys(3)[OF assms(1,2)] assms(3)
  by (metis antisym_conv1)

section \<open>File descriptors held\<close>

text \<open>
  The descriptors a sequence of calls leaves open: the results of \<^verbatim>\<open>open\<close> and of the cloning of
  private elements, less the closed ones.
\<close>

definition fd_step :: "'k system \<Rightarrow> kcall \<times> kreply \<Rightarrow> int multiset \<Rightarrow> int multiset" where
  "fd_step S e M = (case fst e of
      Sys_open path \<Rightarrow> if 0 \<le> k_ret (snd e) then add_mset (k_ret (snd e)) M else M
    | Sys_close fd \<Rightarrow> M - {#fd#}
    | Sys_ioctl fd rq \<Rightarrow> (case rq of
          EVL_IOC_CLONE name attrs flags \<Rightarrow>
            if k_ret (snd e) = 0 \<and> flags AND EVL_CLONE_PUBLIC S = 0
            then add_mset (o_int (k_out (snd e))) M else M
        | _ \<Rightarrow> M)
    | _ \<Rightarrow> M)"

definition fds :: "'k system \<Rightarrow> 'k world \<Rightarrow> int multiset" where
  "fds S w = fold (fd_step S) (log w) {#}"

lemma fds_sys: "fds S (snd (sys S c w)) = fd_step S (c, fst (sys S c w)) (fds S w)"
  by (simp add: fds_def sys_log)

lemma fd_step_simps [simp]:
  "fd_step S (Sys_open p, r) M = (if 0 \<le> k_ret r then add_mset (k_ret r) M else M)"
  "fd_step S (Sys_close fd, r) M = M - {#fd#}"
  "fd_step S (Sys_fcntl fd cmd a, r) M = M"
  "fd_step S (Lib_asprintf s, r) M = M"
  "fd_step S (Lib_free s, r) M = M"
  "fd_step S (Lib_fprintf s, r) M = M"
  by (simp_all add: fd_step_def)

lemma sys_fdsD: "sys S c w = (r, w') \<Longrightarrow> fds S w' = fd_step S (c, r) (fds S w)"
  using fds_sys[of S c w] by simp

lemma sys_errnoD: "sys S c w = (r, w') \<Longrightarrow> kernel_ok S \<Longrightarrow> k_ret r < 0 \<Longrightarrow> 0 < errno w'"
  using sys_errno_pos[of S c w] by simp

lemma sys_statusD:
  "sys S c w = (r, w') \<Longrightarrow> kernel_ok S \<Longrightarrow> status_call c \<Longrightarrow> k_ret r \<noteq> 0 \<Longrightarrow> 0 < errno w'"
  using status_errno_pos[of S c w] by simp

lemma fds_asprintf: "asprintf S s w = (r, w') \<Longrightarrow> fds S w' = fds S w"
  and fds_free [simp]: "fds S (free S s w) = fds S w"
  and fds_close: "close_fd S fd w = (i, w') \<Longrightarrow> fds S w' = fds S w - {#fd#}"
  by (auto simp: asprintf_def free_def close_fd_def fds_sys split: prod.splits dest: sys_fdsD)

lemma fds_asprintf_opt: "asprintf_opt S fmt w = (i, w') \<Longrightarrow> fds S w' = fds S w"
  and fds_free_opt [simp]: "fds S (free_opt S fmt w) = fds S w"
  by (auto simp: asprintf_opt_def free_opt_def fds_asprintf split: option.splits)

lemma flip_fd_flags_fds: "flip_fd_flags S efd cmd fl w = (i, w') \<Longrightarrow> fds S w' = fds S w"
  by (auto simp: flip_fd_flags_def Let_def split: prod.splits if_splits dest!: sys_fdsD)

lemma flip_fd_flags_ret:
  assumes "flip_fd_flags S efd cmd fl w = (i, w')" "kernel_ok S" and "cmd = F_SETFD \<or> cmd = F_SETFL"
  shows "i \<le> 0"
  using assms
  by (auto simp: flip_fd_flags_def Let_def less_imp_le split: prod.splits if_splits
      dest: sys_errnoD sys_statusD)

lemma sys_spec:
  assumes "sys S c w = (r, w')" and "kernel_ok S"
  shows "fds S w' = fd_step S (c, r) (fds S w) \<and> (k_ret r < 0 \<longrightarrow> 0 < errno w') \<and>
    (status_call c \<longrightarrow> k_ret r \<noteq> 0 \<longrightarrow> 0 < errno w')"
  using sys_fdsD[OF assms(1)] sys_errnoD[OF assms] sys_statusD[OF assms] by simp

lemma flip_fd_flags_spec:
  assumes "flip_fd_flags S efd cmd fl w = (i, w')" and "kernel_ok S"
  shows "fds S w' = fds S w \<and> (cmd = F_SETFD \<or> cmd = F_SETFL \<longrightarrow> i \<le> 0)"
  using flip_fd_flags_fds[OF assms(1)] flip_fd_flags_ret[OF assms] by blast

lemmas fds_dests = sys_fdsD fds_asprintf fds_close flip_fd_flags_fds

lemma create_out_fds:
  assumes "create_out_element S edevname fdevname ffd ret w = (x, w')"
  shows "fds S w' = fds S w - {#ffd#} \<and> x = ret"
  using assms
  by (auto simp: create_out_new_def create_out_element_def Let_def split: prod.splits option.splits
      dest!: fds_dests)

lemma create_finish_fds:
  assumes "create_finish S nonblock efd eids edevname fdevname ffd w = ((ret, ids), w')"
    and "kernel_ok S"
  shows "fds S w' = fds S w - {#ffd#}"
    and "ret = efd \<and> ids = Some eids \<or> ret < 0 \<and> ids = None"
  using assms
  by (auto simp: create_finish_def Let_def split: prod.splits if_splits
      dest!: create_out_fds flip_fd_flags_spec[OF _ assms(2)])

lemma open_element_fds:
  assumes "kernel_ok S" and "evl_open_element_vargs S type name w = (ret, w')"
  shows "fds S w' = (if ret < 0 then fds S w else add_mset ret (fds S w))"
  using assms(2)
  by (simp add: evl_open_element_vargs_def Let_def ENOMEM_def split: prod.splits if_split_asm)
    (clarsimp dest!: sys_spec[OF _ assms(1)] fds_asprintf fds_close)+

lemma open_raw_fds:
  assumes "kernel_ok S" and "evl_open_raw S type w = (ret, w')"
  shows "fds S w' = (if ret < 0 then fds S w else add_mset ret (fds S w))"
  using assms(2)
  by (simp add: evl_open_raw_def Let_def ENOMEM_def split: prod.splits if_split_asm)
    (clarsimp dest!: sys_spec[OF _ assms(1)] fds_asprintf fds_close flip_fd_flags_spec[OF _ assms(1)])+

text \<open>Calls whose \<^verbatim>\<open>fcntl\<close> never fails.\<close>

definition fcntl_ok :: "'k system \<Rightarrow> bool" where
  "fcntl_ok S \<longleftrightarrow> (\<forall>fd cmd arg sh. 0 \<le> k_ret (fst (kernel S (Sys_fcntl fd cmd arg) sh)))"

lemma flip_fd_flags_ok:
  assumes "flip_fd_flags S efd cmd fl w = (i, w')" and "kernel_ok S" and "fcntl_ok S"
    and "cmd = F_SETFD \<or> cmd = F_SETFL"
  shows "i = 0"
proof -
  have "\<not> k_ret (fst (sys S (Sys_fcntl fd c a) x)) < 0" for fd c a x
    using assms(3) by (simp add: fcntl_ok_def sys_def Let_def split_beta not_less)
  moreover have "k_ret (fst (sys S (Sys_fcntl fd cmd a) x)) \<le> 0" for fd a x
    using assms(4) kernel_ok_sys(3)[OF assms(2), of "Sys_fcntl fd cmd a"] by simp
  ultimately show ?thesis using assms(1)
    by (simp add: flip_fd_flags_def Let_def split_beta order.antisym split: if_split_asm) (simp_all add: order.antisym not_less)
qed

lemma create_finish_ok:
  assumes "create_finish S nonblock efd eids edevname fdevname ffd w = ((ret, ids), w')"
    and "kernel_ok S" and "fcntl_ok S"
  shows "ret = efd"
  using assms(1)
  by (auto simp: create_finish_def Let_def split: prod.splits if_split_asm
      dest!: flip_fd_flags_ok[OF _ assms(2,3)] create_out_fds)

lemma lart_once_fds [simp]: "fds S (lart_once S w) = fds S w"
  by (simp add: lart_once_def do_lart_once_def fds_sys) (simp add: fds_def)

lemma create_out_new_fds:
  assumes "create_out_new S fdevname ffd ret w = (x, w')"
  shows "fds S w' = fds S w - {#ffd#} \<and> x = ret"
  using assms by (auto simp: create_out_new_def Let_def split: prod.splits dest!: fds_dests)

lemma create_finish_spec:
  assumes "create_finish S nonblock efd eids edevname fdevname ffd w = ((ret, ids), w')" and "kernel_ok S"
  shows "fds S w' = fds S w - {#ffd#} \<and> (ret = efd \<and> ids = Some eids \<or> ret < 0 \<and> ids = None) \<and>
    (fcntl_ok S \<longrightarrow> ret = efd)"
  using create_finish_fds[OF assms] create_finish_ok[OF assms] by blast

lemma fd_step_clone [simp]:
  "fd_step S (Sys_ioctl fd (EVL_IOC_CLONE name attrs flags), r) M =
    (if k_ret r = 0 \<and> flags AND EVL_CLONE_PUBLIC S = 0 then add_mset (o_int (k_out r)) M else M)"
  by (simp add: fd_step_def)

lemma clone_spec:
  assumes "sys S (Sys_ioctl fd (EVL_IOC_CLONE name attrs flags)) w = (r, w')" and "kernel_ok S"
  shows "fds S w' = (if k_ret r = 0 \<and> flags AND EVL_CLONE_PUBLIC S = 0
      then add_mset (o_int (k_out r)) (fds S w) else fds S w) \<and>
    (k_ret r \<noteq> 0 \<longrightarrow> 0 < errno w') \<and>
    (flags AND EVL_CLONE_PUBLIC S = 0 \<longrightarrow> k_ret r = 0 \<longrightarrow> 0 \<le> o_int (k_out r))"
  using kernel_ok_clone[OF assms(2), of flags fd name attrs w] sys_spec[OF assms] assms(1) by simp

lemma public_flag_masked:
  assumes "flags AND EVL_CLONE_PUBLIC S = 0"
  shows "((flags AND EVL_CLONE_MASK S) AND NOT (EVL_CLONE_NONBLOCK S)) AND EVL_CLONE_PUBLIC S = 0"
proof -
  have "((flags AND EVL_CLONE_MASK S) AND NOT (EVL_CLONE_NONBLOCK S)) AND EVL_CLONE_PUBLIC S =
    (flags AND EVL_CLONE_PUBLIC S) AND (EVL_CLONE_MASK S AND NOT (EVL_CLONE_NONBLOCK S))"
    by (simp only: ac_simps)
  then show ?thesis by (simp only: assms and_zero_eq zero_and_eq)
qed

lemma create_cloned_fds:
  assumes "kernel_ok S" and "create_cloned S type name attrs flags nonblock fdevname ffd w = ((ret, ids), w')"
    and "fds S w = add_mset ffd M"
  shows "(0 \<le> ret \<longrightarrow> ids \<noteq> None \<and> fds S w' = add_mset ret M) \<and>
    (ret < 0 \<longrightarrow> ids = None \<and> (fcntl_ok S \<longrightarrow> fds S w' = M))"
  using assms(2)
  apply (simp add: create_cloned_def ioctl_def Let_def ENOMEM_def ENXIO_def
      split: prod.splits if_split_asm)
  subgoal by (clarsimp simp: assms(3) dest!: create_out_new_fds clone_spec[OF _ assms(1)])
  subgoal by (clarsimp simp: assms(3) dest!: create_out_new_fds clone_spec[OF _ assms(1)])
  subgoal by (clarsimp simp: assms(3) dest!: create_out_new_fds fds_asprintf clone_spec[OF _ assms(1)])
  subgoal by (clarsimp simp: assms(3) dest!: create_out_fds fds_asprintf clone_spec[OF _ assms(1)]; clarsimp simp: assms(3) dest!: sys_spec[OF _ assms(1)])
  subgoal by (clarsimp simp: assms(3) dest!: create_finish_spec[OF _ assms(1)] fds_asprintf clone_spec[OF _ assms(1)]; clarsimp simp: assms(3) dest!: sys_spec[OF _ assms(1)]; auto)
  subgoal by (clarsimp simp: assms(3) dest!: create_finish_spec[OF _ assms(1)] fds_asprintf clone_spec[OF _ assms(1)]; auto)
  done

lemma create_element_fds:
  assumes "kernel_ok S" and "evl_create_element S type name attrs flags w = ((ret, ids), w')"
  shows "(0 \<le> ret \<longrightarrow> ids \<noteq> None \<and> fds S w' = add_mset ret (fds S w)) \<and>
    (ret < 0 \<longrightarrow> ids = None \<and>
      (fcntl_ok S \<and> \<not> (name = None \<and> flags AND EVL_CLONE_PUBLIC S \<noteq> 0) \<longrightarrow> fds S w' = fds S w))"
  using assms(2)
  apply (simp add: evl_create_element_def Let_def ENOMEM_def EINVAL_def split: prod.splits if_split_asm)
  subgoal by (clarsimp dest!: fds_asprintf)
  subgoal by (clarsimp dest!: fds_asprintf sys_spec[OF _ assms(1)])
  subgoal using public_flag_masked[of flags S] by auto
  subgoal by (clarsimp dest!: fds_asprintf sys_spec[OF _ assms(1)])
    (drule create_cloned_fds[OF assms(1), rotated], simp, blast)
  done

subsection \<open>Descriptors a failed creation leaves\<close>

text \<open>Between two worlds, calls were made; and one of them was a failing \<^verbatim>\<open>fcntl\<close> on the descriptor.\<close>

definition log_ext :: "'k world \<Rightarrow> 'k world \<Rightarrow> bool" where
  "log_ext w w' \<longleftrightarrow> (\<exists>l. log w' = log w @ l)"

definition fcntl_failed :: "int \<Rightarrow> 'k world \<Rightarrow> 'k world \<Rightarrow> bool" where
  "fcntl_failed fd w w' \<longleftrightarrow> (\<exists>a cmd arg r b. log w' = log w @ a @ (Sys_fcntl fd cmd arg, r) # b \<and> k_ret r < 0)"

lemma log_ext_refl [simp]: "log_ext w w"
  by (simp add: log_ext_def)

lemma log_ext_trans: "log_ext w w' \<Longrightarrow> log_ext w' w'' \<Longrightarrow> log_ext w w''"
  by (auto simp: log_ext_def)

lemma log_ext_fields [simp]: "log_ext (w\<lparr>lart_done := b\<rparr>) w' = log_ext w w'" "log_ext w (w'\<lparr>shr := s\<rparr>) = log_ext w w'"
  by (simp_all add: log_ext_def)

lemma fcntl_failed_later: "fcntl_failed fd w w' \<Longrightarrow> log_ext w' w'' \<Longrightarrow> fcntl_failed fd w w''"
  unfolding fcntl_failed_def log_ext_def by fastforce

lemma fcntl_failed_before:
  assumes "log_ext v w" and "fcntl_failed fd w w'"
  shows "fcntl_failed fd v w'"
proof -
  obtain l a cmd arg r b where "log w = log v @ l" "log w' = log w @ a @ (Sys_fcntl fd cmd arg, r) # b" "k_ret r < 0"
    using assms by (auto simp: log_ext_def fcntl_failed_def)
  then show ?thesis unfolding fcntl_failed_def by (intro exI[of _ "l @ a"]) auto
qed

lemma sys_ext: "sys S c w = (r, w') \<Longrightarrow> log_ext w w'"
  using sys_log[of S c w] by (auto simp: log_ext_def)

lemma asprintf_ext: "asprintf S s w = (r, w') \<Longrightarrow> log_ext w w'"
  and free_ext: "log_ext w (free S s w)"
  and close_ext: "close_fd S fd w = (i, w') \<Longrightarrow> log_ext w w'"
  and lart_ext: "log_ext w (lart_once S w)"
  by (auto simp: asprintf_def free_def close_fd_def lart_once_def do_lart_once_def sys_log log_ext_def split: prod.splits dest!: sys_ext)

lemma flip_fd_flags_failed:
  assumes "flip_fd_flags S efd cmd fl w = (i, w')" and "kernel_ok S" and "cmd = F_SETFD \<or> cmd = F_SETFL"
  shows "log_ext w w' \<and> (i \<noteq> 0 \<longrightarrow> fcntl_failed efd w w')"
proof -
  have call: "log_ext u u' \<and> (k_ret r < 0 \<longrightarrow> fcntl_failed efd u u')" if "sys S (Sys_fcntl efd c a) u = (r, u')" for c a u r u'
    using sys_log[of S "Sys_fcntl efd c a" u] that unfolding log_ext_def fcntl_failed_def by fastforce
  have status: "k_ret r \<noteq> 0 \<Longrightarrow> k_ret r < 0" if "sys S (Sys_fcntl efd cmd a) u = (r, u')" for a u r u'
    using kernel_ok_sys(3)[OF assms(2), of "Sys_fcntl efd cmd a" u] assms(3) that by simp
  obtain r1 w1 where 1: "sys S (Sys_fcntl efd (if cmd = F_SETFD then F_GETFD else F_GETFL) 0) w = (r1, w1)" by force
  obtain r2 w2 where 2: "sys S (Sys_fcntl efd cmd (k_ret r1 OR fl)) w1 = (r2, w2)" by force
  have e: "(i, w') = (if k_ret r1 < 0 then (- errno w1, w1) else if k_ret r2 \<noteq> 0 then (- errno w2, w2) else (0, w2))"
    using assms(1) 1 2 by (auto simp: flip_fd_flags_def Let_def split: if_split_asm)
  then show ?thesis
    using call[OF 1] call[OF 2] status[OF 2] log_ext_trans[of w w1 w2] fcntl_failed_before[of w w1 efd w2] by (auto split: if_split_asm)
qed

lemma create_out_ext:
  "create_out_new S fdevname ffd ret w = (x, w') \<Longrightarrow> log_ext w w'"
  "create_out_element S edevname fdevname ffd ret w = (x, w') \<Longrightarrow> log_ext w w'"
proof -
  show new: "log_ext w w'" if "create_out_new S fdevname ffd ret w = (x, w')" for w
    using that close_ext[of S ffd w] free_ext
    by (auto simp: create_out_new_def Let_def split: prod.splits dest: log_ext_trans)
  show "log_ext w w'" if "create_out_element S edevname fdevname ffd ret w = (x, w')" for w
    using that new free_ext[of w S] by (auto simp: create_out_element_def split: option.splits dest: log_ext_trans)
qed

lemma create_finish_failed:
  assumes "create_finish S nonblock efd eids edevname fdevname ffd w = ((ret, ids), w')" and "kernel_ok S"
  shows "ret = efd \<or> fcntl_failed efd w w'"
proof -
  obtain i w1 where 1: "flip_fd_flags S efd F_SETFD O_CLOEXEC w = (i, w1)" by force
  obtain j w2 where 2: "flip_fd_flags S efd F_SETFL O_NONBLOCK w1 = (j, w2)" by force
  note f1 = flip_fd_flags_failed[OF 1 assms(2)] and f2 = flip_fd_flags_failed[OF 2 assms(2)]
  have out: "log_ext u w'" "x = (ret, ids)" if "create_out_element S edevname fdevname ffd x u = ((ret, ids), w')" for x u
    using create_out_ext(2)[OF that] create_out_fds[OF that] by simp_all
  show ?thesis
  proof (cases "i = 0")
    case False
    with assms(1) 1 have "create_out_element S edevname fdevname ffd (i, None) w1 = ((ret, ids), w')" by (simp add: create_finish_def)
    with f1 False out(1) show ?thesis by (auto dest: fcntl_failed_later)
  next
    case True
    show ?thesis
    proof (cases "nonblock \<and> j \<noteq> 0")
      case True
      with assms(1) 1 2 \<open>i = 0\<close> have "create_out_element S edevname fdevname ffd (j, None) w2 = ((ret, ids), w')"
        by (simp add: create_finish_def)
      moreover have "fcntl_failed efd w w2" using f1 f2 True by (auto dest: fcntl_failed_before)
      ultimately show ?thesis using out(1) by (auto dest: fcntl_failed_later)
    next
      case False
      then obtain u where "create_out_element S edevname fdevname ffd (efd, Some eids) u = ((ret, ids), w')"
        using assms(1) 1 2 \<open>i = 0\<close> by (cases nonblock) (auto simp: create_finish_def)
      with out(2) show ?thesis by blast
    qed
  qed
qed

text \<open>A failed creation leaves nothing, or the descriptor of the new element when a \<^verbatim>\<open>fcntl\<close> on it failed.\<close>

definition leaves_element :: "'k system \<Rightarrow> 'k world \<Rightarrow> 'k world \<Rightarrow> bool" where
  "leaves_element S w w' \<longleftrightarrow> (\<exists>fd. fds S w' = add_mset fd (fds S w) \<and> fcntl_failed fd w w')"

lemma create_cloned_leaves:
  assumes "kernel_ok S" and "create_cloned S type name attrs flags nonblock fdevname ffd w = ((ret, ids), w')"
    and "fds S w = add_mset ffd M" and "ret < 0"
  shows "fds S w' = M \<or> (\<exists>fd. fds S w' = add_mset fd M \<and> fcntl_failed fd w w')"
proof -
  obtain name1 flags1 where n: "public_name S name flags = (name1, flags1)" by force
  obtain r w1 where r: "sys S (Sys_ioctl ffd (EVL_IOC_CLONE name1 attrs flags1)) w = (r, w1)" by force
  note c = clone_spec[OF r assms(1)] sys_ext[OF r]
  let ?edev = "dev_path type (case name1 of Some n \<Rightarrow> n | None \<Rightarrow> [])"
  obtain i w2 where a: "asprintf S ?edev w1 = (i, w2)" by force
  obtain efd w3 where o: "sys S (Sys_open ?edev) w2 = (efd, w3)" by force
  have fin: "fds S w' = M \<or> (\<exists>fd. fds S w' = add_mset fd M \<and> fcntl_failed fd w w')"
    if "create_finish S nonblock fd eids edevname fdevname ffd u = ((ret, ids), w')" and "log_ext w u"
      and "fds S u = add_mset fd (add_mset ffd M)" and "0 \<le> fd" for fd eids edevname u
    using create_finish_failed[OF that(1) assms(1)] create_finish_spec[OF that(1) assms(1)] that(2-4) assms(4)
    by (auto dest: fcntl_failed_before)
  consider (failed) "k_ret r \<noteq> 0" | (pub) "k_ret r = 0" "flags1 AND EVL_CLONE_PUBLIC S \<noteq> 0" | (priv) "k_ret r = 0" "flags1 AND EVL_CLONE_PUBLIC S = 0"
    by blast
  then show ?thesis
  proof cases
    case failed
    with assms(2) n r c(1) show ?thesis
      by (auto simp: create_cloned_def ioctl_def Let_def assms(3) split: if_split_asm dest!: create_out_new_fds)
  next
    case pub
    consider "i < 0" | "0 \<le> i" "k_ret efd < 0" | "0 \<le> i" "0 \<le> k_ret efd" by linarith
    then show ?thesis
    proof cases
      case 3
      have "create_finish S nonblock (k_ret efd) (o_eids (k_out r)) (Some ?edev) fdevname ffd w3 = ((ret, ids), w')"
        using assms(2) n r a o pub 3 by (simp add: create_cloned_def ioctl_def Let_def)
      moreover have "fds S w3 = add_mset (k_ret efd) (add_mset ffd M)"
        using sys_fdsD[OF o] fds_asprintf[OF a] c(1) pub 3 assms(3) by simp
      moreover have "log_ext w w3" using c(2) asprintf_ext[OF a] sys_ext[OF o] by (blast intro: log_ext_trans)
      ultimately show ?thesis using fin 3 by blast
    qed (use assms(2) n r a o c(1) pub sys_fdsD[OF o] fds_asprintf[OF a] in
        \<open>auto simp: create_cloned_def ioctl_def Let_def assms(3) dest!: create_out_new_fds create_out_fds\<close>)
  next
    case priv
    then have "create_finish S nonblock (o_int (k_out r)) (o_eids (k_out r)) None fdevname ffd w1 = ((ret, ids), w')"
      using assms(2) n r by (simp add: create_cloned_def ioctl_def)
    with fin c priv assms(3) show ?thesis by auto
  qed
qed

lemma create_element_leaves:
  assumes "kernel_ok S" and "evl_create_element S type name attrs flags w = ((ret, ids), w')" and "ret < 0"
  shows "fds S w' = fds S w \<or> leaves_element S w w' \<or>
    (name = None \<and> flags AND EVL_CLONE_PUBLIC S \<noteq> 0 \<and> ret = - EINVAL \<and>
      (\<exists>ffd. last (log w') = (Sys_open (dev_path type ''clone''), ffd) \<and> fds S w' = add_mset (k_ret ffd) (fds S w)))"
proof -
  obtain i w1 where a: "asprintf S (dev_path type ''clone'') w = (i, w1)" by force
  obtain ffd w2 where o: "sys S (Sys_open (dev_path type ''clone'')) w1 = (ffd, w2)" by force
  have f: "fds S w1 = fds S w" "fds S w2 = (if 0 \<le> k_ret ffd then add_mset (k_ret ffd) (fds S w) else fds S w)"
    using fds_asprintf[OF a] sys_fdsD[OF o] by simp_all
  have l: "last (log w2) = (Sys_open (dev_path type ''clone''), ffd)"
    using sys_log[of S "Sys_open (dev_path type ''clone'')" w1] o by simp
  have ext: "log_ext w w2" using asprintf_ext[OF a] sys_ext[OF o] by (rule log_ext_trans)
  let ?flags = "(flags AND EVL_CLONE_MASK S) AND NOT (EVL_CLONE_NONBLOCK S)"
  show ?thesis
  proof (cases "0 \<le> i \<and> 0 \<le> k_ret ffd")
    case False
    with assms(2) a o f show ?thesis by (auto simp: evl_create_element_def Let_def split: if_split_asm)
  next
    case opened: True
    show ?thesis
    proof (cases "name = None \<and> ?flags AND EVL_CLONE_PUBLIC S \<noteq> 0")
      case True
      with assms(2) a o f l opened public_flag_masked[of flags S] show ?thesis by (auto simp: evl_create_element_def Let_def)
    next
      case False
      with assms(2) a o opened have "create_cloned S type name attrs ?flags (flags AND EVL_CLONE_NONBLOCK S \<noteq> 0)
          (dev_path type ''clone'') (k_ret ffd) w2 = ((ret, ids), w')"
        by (auto simp: evl_create_element_def Let_def)
      from create_cloned_leaves[OF assms(1) this _ assms(3), of "fds S w"] f opened ext show ?thesis
        by (auto simp: leaves_element_def dest: fcntl_failed_before)
    qed
  qed
qed

text \<open>
  C26. The descriptors \<^verbatim>\<open>evl_create_element\<close> leaves: a success returns a descriptor that is the only one added to those
  the process holds.  A failure reports no element ids and adds no descriptor, but in two cases: when a \<^verbatim>\<open>fcntl\<close> on the descriptor of the
  new element failed, this descriptor stays open; and when an anonymous public element is refused with \<^verbatim>\<open>-EINVAL\<close>, that of the factory device
  just opened does.
\<close>
theorem create_element_descriptors:
  assumes "kernel_ok S" and "evl_create_element S type name attrs flags w = ((ret, ids), w')"
  shows "(0 \<le> ret \<longrightarrow> ids \<noteq> None \<and> fds S w' = add_mset ret (fds S w)) \<and>
    (ret < 0 \<longrightarrow> ids = None \<and>
      (fds S w' = fds S w \<or>
       (\<exists>fd. fds S w' = add_mset fd (fds S w) \<and> fcntl_failed fd w w') \<or>
       name = None \<and> flags AND EVL_CLONE_PUBLIC S \<noteq> 0 \<and> ret = - EINVAL \<and>
         (\<exists>ffd. last (log w') = (Sys_open (dev_path type ''clone''), ffd) \<and> fds S w' = add_mset (k_ret ffd) (fds S w))) \<and>
      (fcntl_ok S \<and> \<not> (name = None \<and> flags AND EVL_CLONE_PUBLIC S \<noteq> 0) \<longrightarrow> fds S w' = fds S w))"
  using create_element_fds[OF assms] create_element_leaves[OF assms] by (auto simp: leaves_element_def)

text \<open>
  evl_open_element: a success adds the returned descriptor to those the process holds, and
  every failure path leaves them as they were.
\<close>
theorem open_element_descriptors:
  assumes "kernel_ok S" and "evl_open_element_vargs S type name w = (ret, w')"
  shows "fds S w' = (if ret < 0 then fds S w else add_mset ret (fds S w))"
  by (rule open_element_fds[OF assms])

end
