(* ===== verification/Evl_Atomic.thy ===== *)
theory Evl_Atomic
  imports Evl_World
begin

text \<open>
  Assumptions on the interference of the other threads which the theorems on the atomic operations
  use, and the equations of these operations.
\<close>

text \<open>The other threads act once, before an atomic access.\<close>

definition others_step :: "'k system \<Rightarrow> 'k shared \<Rightarrow> 'k shared \<Rightarrow> bool" where
  "others_step S sh sh' \<longleftrightarrow> sh' = snd (others S sh)"

definition no_spurious :: "'k system \<Rightarrow> bool" where
  "no_spurious S \<longleftrightarrow> (\<forall>sh. \<not> fst (others S sh))"

definition alone :: "'k system \<Rightarrow> bool" where
  "alone S \<longleftrightarrow> (\<forall>sh. others S sh = (False, sh))"

lemmas atomic_defs = atomic_read_def atomic_load_def atomic_store_def atomic_cmpxchg_def atomic_cmpxchg_weak_def
  compare_exchange_strong_def compare_exchange_weak_def interfere_def

lemma aput_same [simp]: "aput (Uword a) (uword sh a) sh = sh"
  by simp

lemma aput_twice: "aput (Uword a) v (aput (Uword a) u sh) = aput (Uword a) v sh" and aget_aput: "aget (Uword a) (aput (Uword a) v sh) = v"
  by simp_all

lemma others_twice: "(others_step S)\<^sup>*\<^sup>* sh (snd (others S (snd (others S sh))))"
  by (rule rtranclp_trans[of _ _ "snd (others S sh)"]) (auto simp: others_step_def)

lemma others_once: "(others_step S)\<^sup>*\<^sup>* sh (snd (others S sh))"
  by (simp add: others_step_def r_into_rtranclp)

end
