(* ===== verification/Evl_Sample.thy ===== *)
theory Evl_Sample
  imports Evl_Sys Evl_Atomic
begin

text \<open>
  A small concrete kernel, with which the witnesses of the development run the code.  It hands
  out increasing descriptors, binds every descriptor to one monitor, and fails the calls the
  parameter \<open>fail\<close> gives an error number for.
\<close>

definition no_msg :: user_oob_msghdr where
  "no_msg = \<lparr>um_iov = 0, um_iovlen = 0, um_ctl = 0, um_ctllen = 0, um_name = 0, um_namelen = 0,
     um_count = 0, um_flags = 0, um_timeout = zerotime\<rparr>"

definition sample_core :: evl_core_info where
  "sample_core = \<lparr>abi_base = 43, abi_current = 44, fpu_features = 1, shm_size = 4096\<rparr>"

definition no_out :: kout where
  "no_out = \<lparr>o_int = 0, o_u32 = 0, o_addr = 0, o_type = 0, o_protocol = 0,
     o_eids = \<lparr>eid_fundle = 7, eid_state_offset = 64\<rparr>, o_ts = zerotime,
     o_its = \<lparr>it_interval = zerotime, it_value = zerotime\<rparr>, o_core = sample_core, o_data = [],
     o_attrs = \<lparr>sched_policy = 0, sched_priority = 0\<rparr>, o_msg = no_msg\<rparr>"

definition reply :: "int \<Rightarrow> kreply" where
  "reply n = \<lparr>k_ret = n, k_errno = 0, k_out = no_out\<rparr>"

definition failure :: "int \<Rightarrow> kreply" where
  "failure e = \<lparr>k_ret = - 1, k_errno = e, k_out = no_out\<rparr>"

definition sample_kernel :: "(kcall \<Rightarrow> int) \<Rightarrow> kcall \<Rightarrow> nat shared \<Rightarrow> kreply \<times> nat shared" where
  "sample_kernel fail c sh =
     (if 0 < fail c then (failure (fail c), sh)
      else case c of
        Sys_open path \<Rightarrow> (reply (int (kst sh)), sh\<lparr>kst := kst sh + 1\<rparr>)
      | Sys_ioctl fd rq \<Rightarrow> (case rq of
            EVL_IOC_CLONE name attrs flags \<Rightarrow>
              ((reply 0)\<lparr>k_out := no_out\<lparr>o_int := int (kst sh)\<rparr>\<rparr>, sh\<lparr>kst := kst sh + 1\<rparr>)
          | EVL_MONIOC_BIND \<Rightarrow> ((reply 0)\<lparr>k_out := no_out\<lparr>o_type := 0, o_protocol := 3\<rparr>\<rparr>, sh)
          | _ \<Rightarrow> (reply 0, sh))
      | Lib_get_priority_max \<Rightarrow> (reply 99, sh)
      | Sys_write fd buf cnt \<Rightarrow> (reply (max 0 cnt), sh)
      | Sys_oob_write fd buf cnt \<Rightarrow> (reply (max 0 cnt), sh)
      | _ \<Rightarrow> (reply 0, sh))"

definition sample_system :: "(kcall \<Rightarrow> int) \<Rightarrow> nat system" where
  "sample_system fail = \<lparr>
     kernel = sample_kernel fail, others = (\<lambda>sh. (False, sh)), running_on_valgrind = True,
     image = (\<lambda>_. 0), sysinfo_ehdr = 0, dev = (\<lambda>_. ''monitor''),
     EVL_NO_HANDLE = 0, evl_get_index = (\<lambda>h. h AND 0x3fffffff),
     EVL_T_INBAND = 0x100, EVL_T_WEAK = 0x200, EVL_T_WOLI = 0x400, EVL_T_WOSS = 0x800,
     EVL_CLONE_MASK = 0xffff0000, EVL_CLONE_PUBLIC = 0x10000, EVL_CLONE_PRIVATE = 0,
     EVL_CLONE_NONBLOCK = 0x40000,
     EVL_MONITOR_GATE = 1, EVL_MONITOR_EVENT = 0, EVL_GATE_PI = 0, EVL_GATE_PP = 1,
     EVL_EVENT_GATED = 2, EVL_EVENT_COUNT = 3, EVL_EVENT_MASK = 4,
     EVL_MONITOR_NOGATE = 0xffffffff, EVL_MONITOR_SIGNALED = 1, EVL_MONITOR_BROADCAST = 2,
     NESTING_RANGE = 2 ^ 31, sizeof_notice = 16, sizeof_notification = 40, EVL_CLOCK_MONOTONIC = - 1, EVL_CLOCK_REALTIME = 0,
     EVL_POLL_CTLADD = 0, EVL_POLL_CTLDEL = 1, EVL_POLL_CTLMOD = 2\<rparr>"

definition no_fail :: "kcall \<Rightarrow> int" where "no_fail c = 0"

definition idle_monitor :: evl_monitor_state where
  "idle_monitor = \<lparr>ms_flags = 0,
     gate = \<lparr>g_owner = 0, g_ceiling = 0, g_recursive = False, g_nesting = 0\<rparr>,
     event = \<lparr>e_value = 0, e_pollrefs = 0, e_gate_offset = 0xffffffff\<rparr>\<rparr>"

definition sample_shared :: "nat shared" where
  "sample_shared = \<lparr>mon = (\<lambda>_. idle_monitor), win = (\<lambda>_. \<lparr>uw_state = 0, pp_pending = 0\<rparr>),
     uword = (\<lambda>_. 0), kst = 3\<rparr>"

definition sample_world :: "nat world" where
  "sample_world = \<lparr>shr = sample_shared, errno = 0, cancel = PTHREAD_CANCEL_DEFERRED,
     evl_current = 5, evl_current_efd = 2, evl_current_window = 0x2000, shared_memory = 0x1000,
     evl_ctlfd = 1, evl_mono_clockfd = - 6, evl_real_clockfd = - 6, evl_clock_gettime_fn = 0, vdso = vdso_zero,
     core_info = sample_core, init_once = True, init_status = 0, vdso_once = True,
     atfork_once = True, lart_done = False, evl_outfd = - 9, evl_errfd = - 9, fmt_buf = [], log = []\<rparr>"

lemmas sample_defs = sample_system_def sample_kernel_def sample_world_def sample_shared_def
  idle_monitor_def no_fail_def reply_def failure_def no_out_def sample_core_def sys_def

lemma sample_kernel_ok: "kernel_ok (sample_system fail)"
  unfolding kernel_ok_def Let_def
  by (simp add: sample_system_def sample_kernel_def reply_def failure_def no_out_def le_max_iff_disj
      split: kcall.splits ioctl_req.splits)

lemma sample_fcntl_ok: "fcntl_ok (sample_system no_fail)"
  by (simp add: fcntl_ok_def sample_system_def sample_kernel_def no_fail_def reply_def)

lemmas create_defs = evl_create_element_def create_cloned_def create_finish_def flip_fd_flags_def
  asprintf_def public_name_def create_out_element_def create_out_new_def ioctl_def dev_path_def
  free_def close_fd_def Let_def

lemma sample_alone: "alone (sample_system f)"
  by (simp add: alone_def sample_system_def)

lemma sample_consts [simp]: "EVL_NO_HANDLE (sample_system f) = 0" "evl_get_index (sample_system f) h = h AND 0x3fffffff"
  "EVL_GATE_PP (sample_system f) = 1" "NESTING_RANGE (sample_system f) = 2 ^ 31"
  by (simp_all add: sample_system_def)

theorem create_element_descriptors_witness:
  "let (r, w) = evl_create_element (sample_system no_fail) ''monitor'' (Some ''x'') NoAttrs 0 sample_world
   in fst r = 4 \<and> fds (sample_system no_fail) w = {#4#}"
proof -
  let ?S = "sample_system no_fail"
  obtain ids w' where r: "evl_create_element ?S ''monitor'' (Some ''x'') NoAttrs 0 sample_world = ((4, ids), w')"
    by (simp add: sample_defs create_defs)
  have "fds ?S sample_world = {#}" by (simp add: fds_def sample_world_def)
  with create_element_descriptors[OF sample_kernel_ok r] show ?thesis by (simp add: r)
qed

theorem open_element_descriptors_witness:
  "let (r, w) = evl_open_element_vargs (sample_system no_fail) ''monitor'' ''x'' sample_world
   in r = 3 \<and> fds (sample_system no_fail) w = {#3#}"
proof -
  let ?S = "sample_system no_fail"
  obtain w' where r: "evl_open_element_vargs ?S ''monitor'' ''x'' sample_world = (3, w')"
    by (simp add: sample_defs create_defs evl_open_element_vargs_def)
  have "fds ?S sample_world = {#}" by (simp add: fds_def sample_world_def)
  with open_element_descriptors[OF sample_kernel_ok r] show ?thesis by (simp add: r)
qed

text \<open>
  When \<^verbatim>\<open>fcntl\<close> fails, the descriptor of the new private element is left open; and an anonymous
  public element is refused with the factory device left open.
\<close>

definition fail_fcntl :: "kcall \<Rightarrow> int" where
  "fail_fcntl c = (case c of Sys_fcntl fd cmd arg \<Rightarrow> EBADF | _ \<Rightarrow> 0)"

theorem create_element_leaks_element:
  "let (r, w) = evl_create_element (sample_system fail_fcntl) ''monitor'' (Some ''x'') NoAttrs 0 sample_world
   in fst r = - EBADF \<and> fds (sample_system fail_fcntl) w = {#4#}"
  by (simp add: sample_defs fail_fcntl_def EBADF_def create_defs fds_def)

theorem create_element_leaks_factory:
  "let (r, w) = evl_create_element (sample_system no_fail) ''monitor'' None NoAttrs 0x10000 sample_world
   in fst r = - EINVAL \<and> fds (sample_system no_fail) w = {#3#}"
  by (simp add: sample_defs EINVAL_def create_defs fds_def)

text \<open>
  The flag given to \<^verbatim>\<open>F_SETFD\<close> is \<^verbatim>\<open>O_CLOEXEC\<close>, an open flag, which does not contain the descriptor
  flag \<^verbatim>\<open>FD_CLOEXEC\<close>: the close-on-exec flag is requested only when it is set already.
\<close>

lemma cloexec_flag: "((n::int) OR O_CLOEXEC) AND FD_CLOEXEC = n AND FD_CLOEXEC"
  by (simp add: O_CLOEXEC_def FD_CLOEXEC_def and_one_eq mod2_eq_if even_or_iff)

theorem cloexec_not_requested:
  assumes "flip_fd_flags S efd F_SETFD O_CLOEXEC w = (ret, w')" and "fcntl_ok S"
  shows "\<exists>old arg status. log w' = log w @ [(Sys_fcntl efd F_GETFD 0, old), (Sys_fcntl efd F_SETFD arg, status)] \<and>
    arg AND FD_CLOEXEC = k_ret old AND FD_CLOEXEC"
proof -
  have "\<not> k_ret (fst (sys S (Sys_fcntl fd c a) x)) < 0" for fd c a x
    using assms(2) by (simp add: fcntl_ok_def sys_def Let_def split_beta not_less)
  with assms(1) have "w' = snd (sys S (Sys_fcntl efd F_SETFD (k_ret (fst (sys S (Sys_fcntl efd F_GETFD 0) w)) OR O_CLOEXEC))
      (snd (sys S (Sys_fcntl efd F_GETFD 0) w)))"
    by (simp add: flip_fd_flags_def Let_def split_beta split: if_split_asm)
  then show ?thesis by (simp add: sys_log cloexec_flag)
qed

end
