(* ===== verification/Evl_Clock.thy ===== *)
theory Evl_Clock
  imports Evl_Sample
begin

text \<open>
  \<^verbatim>\<open>lib/clock.c\<close> and \<^verbatim>\<open>lib/timer.c\<close>: reading, setting and sleeping on the EVL clocks, and timers.

  A pointer to a \<^verbatim>\<open>timespec\<close> the library only hands to the kernel is a \<open>timespec option\<close>, \<open>None\<close>
  for a null pointer; an output \<^verbatim>\<open>timespec\<close> is part of the result, and has a meaning only when
  the operation succeeds.
\<close>

definition CLOCK_REALTIME :: int where "CLOCK_REALTIME = 0"
definition CLOCK_MONOTONIC :: int where "CLOCK_MONOTONIC = 1"

definition gettime_fallback :: "'k system \<Rightarrow> int \<Rightarrow> 'k world \<Rightarrow> kreply \<times> 'k world" where
  "gettime_fallback S clk_id w = sys S (Sys_clock_gettime clk_id) w"

text \<open>The function pointer \<^verbatim>\<open>__evl_clock_gettime\<close>: 0 stands for its initial value \<^verbatim>\<open>gettime_fallback\<close>.\<close>

definition evl_clock_gettime :: "'k system \<Rightarrow> int \<Rightarrow> 'k world \<Rightarrow> kreply \<times> 'k world" where
  "evl_clock_gettime S clk_id w =
     (if evl_clock_gettime_fn w = 0 then gettime_fallback S clk_id w
      else sys S (Vdso_clock_gettime (evl_clock_gettime_fn w) clk_id) w)"

definition evl_read_clock :: "'k system \<Rightarrow> int \<Rightarrow> 'k world \<Rightarrow> (int \<times> timespec) \<times> 'k world" where
  "evl_read_clock S clockfd w =
     (let (r, w) = (if clockfd = - CLOCK_MONOTONIC \<or> clockfd = - CLOCK_REALTIME
                    then evl_clock_gettime S (- clockfd) w
                    else oob_ioctl S clockfd EVL_CLKIOC_GET_TIME w)
      in ((if k_ret r \<noteq> 0 then - errno w else 0, o_ts (k_out r)), w))"

definition evl_set_clock :: "'k system \<Rightarrow> int \<Rightarrow> timespec option \<Rightarrow> 'k world \<Rightarrow> int \<times> 'k world" where
  "evl_set_clock S clockfd tp w =
     (if clockfd = EVL_CLOCK_MONOTONIC S \<or> clockfd = EVL_CLOCK_REALTIME S
      then let (ret, w) = sys S (Sys_clock_settime (- clockfd) tp) w
           in if k_ret ret \<noteq> 0 then (- errno w, w) else (k_ret ret, w)
      else let ((ret, _), w) = conforming_ioctl S clockfd (EVL_CLKIOC_SET_TIME tp) w in (ret, w))"

definition evl_get_clock_resolution :: "'k system \<Rightarrow> int \<Rightarrow> 'k world \<Rightarrow> (int \<times> timespec) \<times> 'k world" where
  "evl_get_clock_resolution S clockfd w =
     (if clockfd = EVL_CLOCK_MONOTONIC S \<or> clockfd = EVL_CLOCK_REALTIME S
      then let (ret, w) = sys S (Sys_clock_getres (- clockfd)) w
           in ((if k_ret ret \<noteq> 0 then - errno w else k_ret ret, o_ts (k_out ret)), w)
      else let ((ret, out), w) = conforming_ioctl S clockfd EVL_CLKIOC_GET_RES w in ((ret, o_ts out), w))"

definition evl_sleep_until :: "'k system \<Rightarrow> int \<Rightarrow> timespec option \<Rightarrow> 'k world \<Rightarrow> int \<times> 'k world" where
  "evl_sleep_until S clockfd timeout w =
     (let clockfd = (if clockfd = EVL_CLOCK_MONOTONIC S then evl_mono_clockfd w
                     else if clockfd = EVL_CLOCK_REALTIME S then evl_real_clockfd w
                     else clockfd)
      in ret_errno (oob_ioctl S clockfd (EVL_CLKIOC_SLEEP timeout) w))"

text \<open>The duration is an unsigned int, in nanoseconds; \<^verbatim>\<open>s\<close> and \<^verbatim>\<open>rem\<close> are 64-bit longs.\<close>

definition timespec_add_ns :: "timespec \<Rightarrow> u32 \<Rightarrow> timespec" where
  "timespec_add_ns t usecs =
     (let s = int (unat (usecs div 1000000000));
          rem = int (unat usecs) - s * 1000000000;
          r = \<lparr>tv_sec = tv_sec t + s, tv_nsec = tv_nsec t + rem\<rparr>
      in if tv_nsec r \<ge> 1000000000
         then \<lparr>tv_sec = tv_sec r + 1, tv_nsec = tv_nsec r - 1000000000\<rparr>
         else r)"

definition evl_usleep :: "'k system \<Rightarrow> u32 \<Rightarrow> 'k world \<Rightarrow> int \<times> 'k world" where
  "evl_usleep S usecs w =
     (if usecs > 1000000 then (- EINVAL, w)
      else if usecs = 0 then (0, w)
      else
        let ((_, now), w) = evl_read_clock S (EVL_CLOCK_MONOTONIC S) w;
            nxt = timespec_add_ns now (usecs * 1000)
        in evl_sleep_until S (evl_mono_clockfd w) (Some nxt) w)"

definition evl_attach_clocks :: "'k system \<Rightarrow> 'k world \<Rightarrow> int \<times> 'k world" where
  "evl_attach_clocks S w =
     (let (fd, w) = evl_open_element S (dev S EVL_CLOCK_DEV) (dev S EVL_CLOCK_MONOTONIC_DEV) w;
          w = w\<lparr>evl_mono_clockfd := fd\<rparr>
      in if evl_mono_clockfd w < 0 then (evl_mono_clockfd w, w)
      else
        let (fd, w) = evl_open_element S (dev S EVL_CLOCK_DEV) (dev S EVL_CLOCK_REALTIME_DEV) w;
            w = w\<lparr>evl_real_clockfd := fd\<rparr>
        in if evl_real_clockfd w < 0 then
             let (_, w) = close_fd S (evl_mono_clockfd w) w in (evl_real_clockfd w, w)
        else let (_, w) = evl_read_clock S (EVL_CLOCK_MONOTONIC S) w in (0, w))"

section \<open>Timers\<close>

definition evl_new_timer :: "'k system \<Rightarrow> int \<Rightarrow> 'k world \<Rightarrow> int \<times> 'k world" where
  "evl_new_timer S clockfd w =
     (if evl_mono_clockfd w < 0 then (- ENXIO, w)
      else
        let clockfd = (if clockfd = EVL_CLOCK_MONOTONIC S then evl_mono_clockfd w
                       else if clockfd = EVL_CLOCK_REALTIME S then evl_real_clockfd w
                       else clockfd);
            (ret, w) = ioctl S clockfd EVL_CLKIOC_NEW_TIMER w
        in if k_ret ret \<noteq> 0 then (- errno w, w) else (o_int (k_out ret), w))"

definition evl_set_timer :: "'k system \<Rightarrow> int \<Rightarrow> itimerspec option \<Rightarrow> addr \<Rightarrow> 'k world \<Rightarrow> int \<times> 'k world" where
  "evl_set_timer S efd value ovalue w =
     (let ((ret, _), w) = conforming_ioctl S efd (EVL_TFDIOC_SET value ovalue) w in (ret, w))"

definition evl_get_timer :: "'k system \<Rightarrow> int \<Rightarrow> 'k world \<Rightarrow> (int \<times> itimerspec) \<times> 'k world" where
  "evl_get_timer S efd w =
     (let ((ret, out), w) = conforming_ioctl S efd EVL_TFDIOC_GET w in ((ret, o_its out), w))"

section \<open>Time arithmetic\<close>

definition ns :: "timespec \<Rightarrow> int" where
  "ns t = tv_sec t * 1000000000 + tv_nsec t"

definition normal :: "timespec \<Rightarrow> bool" where
  "normal t \<longleftrightarrow> 0 \<le> tv_nsec t \<and> tv_nsec t < 1000000000"

lemma timespec_add_ns_correct:
  assumes "normal t"
  shows "normal (timespec_add_ns t d)" and "ns (timespec_add_ns t d) = ns t + int (unat d)"
proof -
  have d: "uint (d div 1000000000) = uint d div 1000000000"
    by (simp add: uint_div)
  have m: "uint d - uint d div 1000000000 * 1000000000 = uint d mod 1000000000"
    by (simp add: minus_div_mult_eq_mod)
  obtain r where r: "uint d mod 1000000000 = r" "0 \<le> r" "r < 1000000000"
    using pos_mod_bound[of 1000000000 "uint d"] pos_mod_sign[of 1000000000 "uint d"] by simp
  then show "normal (timespec_add_ns t d)"
    using assms by (simp add: timespec_add_ns_def Let_def d m normal_def)
  have "uint d = uint d div 1000000000 * 1000000000 + uint d mod 1000000000" by simp
  then show "ns (timespec_add_ns t d) = ns t + int (unat d)"
    by (simp add: timespec_add_ns_def Let_def d m ns_def algebra_simps)
qed

text \<open>
  evl_usleep: a duration above one second is refused, a null one returns at once; otherwise
  the thread sleeps on the monotonic clock until a well-formed date exactly that many microseconds
  after the time read.
\<close>
theorem usleep_correct:
  assumes "evl_read_clock S (EVL_CLOCK_MONOTONIC S) w = ((0, now), w1)" and "normal now"
    and "EVL_CLOCK_MONOTONIC S \<noteq> evl_mono_clockfd w1" and "EVL_CLOCK_REALTIME S \<noteq> evl_mono_clockfd w1"
  shows "evl_usleep S usecs w =
    (if 1000000 < unat usecs then (- EINVAL, w) else if usecs = 0 then (0, w)
     else ret_errno (oob_ioctl S (evl_mono_clockfd w1)
       (EVL_CLKIOC_SLEEP (Some (timespec_add_ns now (usecs * 1000)))) w1)) \<and>
    (unat usecs \<le> 1000000 \<longrightarrow>
      normal (timespec_add_ns now (usecs * 1000)) \<and>
      ns (timespec_add_ns now (usecs * 1000)) = ns now + 1000 * int (unat usecs))"
proof -
  have c: "usecs > 1000000 \<longleftrightarrow> 1000000 < unat usecs"
    by (simp add: word_less_nat_alt)
  have "unat (usecs * 1000) = unat usecs * 1000" if "unat usecs \<le> 1000000"
    using that by (simp add: unat_word_ariths)
  then have "uint (usecs * 1000) = 1000 * uint usecs" if "unat usecs \<le> 1000000"
    using that by (metis mult.commute of_nat_mult of_nat_numeral uint_nat)
  then show ?thesis
    using assms timespec_add_ns_correct[OF assms(2), of "usecs * 1000"]
    by (auto simp: evl_usleep_def c evl_sleep_until_def Let_def)
qed

theorem usleep_correct_witness:
  "let S = sample_system no_fail in
   evl_usleep S 1500 (sample_world\<lparr>evl_mono_clockfd := 9\<rparr>) =
     ret_errno (oob_ioctl S 9 (EVL_CLKIOC_SLEEP (Some \<lparr>tv_sec = 0, tv_nsec = 1500000\<rparr>))
       (snd (evl_read_clock S (- 1) (sample_world\<lparr>evl_mono_clockfd := 9\<rparr>))))"
proof -
  let ?S = "sample_system no_fail" and ?w = "sample_world\<lparr>evl_mono_clockfd := 9\<rparr>"
  have e: "EVL_CLOCK_MONOTONIC ?S = - 1" "EVL_CLOCK_REALTIME ?S = 0" by (simp_all add: sample_system_def)
  obtain w1 where r: "evl_read_clock ?S (EVL_CLOCK_MONOTONIC ?S) ?w = ((0, zerotime), w1)"
    and fd: "evl_mono_clockfd w1 = 9"
    by (simp add: sample_defs evl_read_clock_def CLOCK_MONOTONIC_def evl_clock_gettime_def gettime_fallback_def)
  have "normal zerotime" by (simp add: normal_def)
  from usleep_correct[OF r this, of 1500] r show ?thesis
    by (simp add: e fd Let_def timespec_add_ns_def)
qed

end
