(* ===== verification/Evl_Proxy.thy ===== *)
theory Evl_Proxy
  imports Evl_Clock
begin

text \<open>
  \<^verbatim>\<open>lib/proxy.c\<close>, \<^verbatim>\<open>lib/xbuf.c\<close> and \<^verbatim>\<open>lib/observable.c\<close>: the elements with file semantics, which are
  written to and read from in-band or out-of-band by the mode of the caller.
\<close>

text \<open>The decimal text \<^verbatim>\<open>%d\<close> prints for a non-negative number.\<close>

fun decimal :: "nat \<Rightarrow> string" where
  "decimal n = (if n < 10 then [char_of (48 + n)] else decimal (n div 10) @ [char_of (48 + n mod 10)])"

declare decimal.simps [simp del]

section \<open>Proxies\<close>

definition STDSTREAM_BUFSZ :: nat where "STDSTREAM_BUFSZ = 16384"

definition evl_create_proxy :: "'k system \<Rightarrow> int \<Rightarrow> nat \<Rightarrow> nat \<Rightarrow> u32 \<Rightarrow> string option \<Rightarrow> 'k world \<Rightarrow> int \<times> 'k world" where
  "evl_create_proxy S targetfd bufsz granularity flags fmt w =
     (let (ret, w) = asprintf_opt S fmt w
      in if ret < 0 then (- ENOMEM, w)
      else let ((efd, _), w) = evl_create_element S (dev S EVL_PROXY_DEV) fmt
                                 (ProxyAttrs targetfd bufsz granularity) flags w
      in (efd, free_opt S fmt w))"

definition evl_new_proxy :: "'k system \<Rightarrow> int \<Rightarrow> nat \<Rightarrow> string option \<Rightarrow> 'k world \<Rightarrow> int \<times> 'k world" where
  "evl_new_proxy S targetfd bufsz fmt w =
     evl_create_proxy S targetfd bufsz 0 (EVL_CLONE_PRIVATE S) fmt w"

text \<open>\<^verbatim>\<open>fileno(stdout)\<close> and \<^verbatim>\<open>fileno(stderr)\<close> are asked from the C library, streams 1 and 2.\<close>

definition evl_setup_proxies :: "'k system \<Rightarrow> 'k world \<Rightarrow> 'k world" where
  "evl_setup_proxies S w =
     (let (out, w) = sys S (Lib_fileno 1) w;
          (pid, w) = sys S Sys_getpid w;
          (fd, w) = evl_new_proxy S (k_ret out) STDSTREAM_BUFSZ (Some (''stdout:'' @ decimal (nat (k_ret pid)))) w;
          w = w\<lparr>evl_outfd := fd\<rparr>;
          (err, w) = sys S (Lib_fileno 2) w;
          (pid, w) = sys S Sys_getpid w;
          (fd, w) = evl_new_proxy S (k_ret err) STDSTREAM_BUFSZ (Some (''stderr:'' @ decimal (nat (k_ret pid)))) w
      in w\<lparr>evl_errfd := fd\<rparr>)"

definition evl_write_proxy :: "'k system \<Rightarrow> int \<Rightarrow> string \<Rightarrow> int \<Rightarrow> 'k world \<Rightarrow> int \<times> 'k world" where
  "evl_write_proxy S proxyfd buf cnt w =
     (let (ret, w) = conforming_write S proxyfd buf cnt w
      in (if ret < 0 then - errno w else ret, w))"

definition evl_read_proxy :: "'k system \<Rightarrow> int \<Rightarrow> nat \<Rightarrow> 'k world \<Rightarrow> (int \<times> string) \<times> 'k world" where
  "evl_read_proxy S proxyfd cnt w =
     (let ((ret, out), w) = conforming_read S proxyfd cnt w
      in ((if ret < 0 then - errno w else ret, o_data out), w))"

text \<open>
  \<^verbatim>\<open>vsnprintf(fmt_buf, sizeof(fmt_buf), ...)\<close> stores at most 1023 characters of the text and a null
  one, and returns the length of the whole text; \<open>None\<close> is a formatting error.
\<close>

definition fmt_buf_size :: nat where "fmt_buf_size = 1024"

definition vsnprintf_buf :: "string \<Rightarrow> string \<Rightarrow> string" where
  "vsnprintf_buf txt old =
     (let n = min (length txt) (fmt_buf_size - 1) in take n txt @ [CHR 0x00] @ drop (n + 1) old)"

definition evl_vprint_proxy :: "'k system \<Rightarrow> int \<Rightarrow> string option \<Rightarrow> 'k world \<Rightarrow> int \<times> 'k world" where
  "evl_vprint_proxy S proxyfd fmt w =
     (case fmt of
        None \<Rightarrow> (- errno w, w)
      | Some txt \<Rightarrow>
          let cnt = int (length txt); w = w\<lparr>fmt_buf := vsnprintf_buf txt (fmt_buf w)\<rparr>
          in if proxyfd < 0 then
               if evl_is_inband S w then
                 let (ret, w) = sys S (Sys_write 2 (fmt_buf w) cnt) w
                 in (if k_ret ret < 0 then - errno w else k_ret ret, w)
               else (- EBADFD, w)
             else evl_write_proxy S proxyfd (fmt_buf w) cnt w)"

definition evl_print_proxy :: "'k system \<Rightarrow> int \<Rightarrow> string option \<Rightarrow> 'k world \<Rightarrow> int \<times> 'k world" where
  "evl_print_proxy S proxyfd fmt w = evl_vprint_proxy S proxyfd fmt w"

definition evl_printf :: "'k system \<Rightarrow> string option \<Rightarrow> 'k world \<Rightarrow> int \<times> 'k world" where
  "evl_printf S fmt w = evl_vprint_proxy S (evl_outfd w) fmt w"

definition evl_eprintf :: "'k system \<Rightarrow> string option \<Rightarrow> 'k world \<Rightarrow> int \<times> 'k world" where
  "evl_eprintf S fmt w = evl_vprint_proxy S (evl_errfd w) fmt w"

definition evl_stdout :: "'k world \<Rightarrow> int" where "evl_stdout w = evl_outfd w"
definition evl_stderr :: "'k world \<Rightarrow> int" where "evl_stderr w = evl_errfd w"

section \<open>Cross-buffers\<close>

definition evl_create_xbuf :: "'k system \<Rightarrow> nat \<Rightarrow> nat \<Rightarrow> u32 \<Rightarrow> string option \<Rightarrow> 'k world \<Rightarrow> int \<times> 'k world" where
  "evl_create_xbuf S i_bufsz o_bufsz flags fmt w =
     (let (ret, w) = asprintf_opt S fmt w
      in if ret < 0 then (- ENOMEM, w)
      else let ((efd, _), w) = evl_create_element S (dev S EVL_XBUF_DEV) fmt (XbufAttrs i_bufsz o_bufsz) flags w
      in (efd, free_opt S fmt w))"

section \<open>Observables\<close>

definition evl_create_observable :: "'k system \<Rightarrow> u32 \<Rightarrow> string option \<Rightarrow> 'k world \<Rightarrow> int \<times> 'k world" where
  "evl_create_observable S flags fmt w =
     (let (ret, w) = asprintf_opt S fmt w
      in if ret < 0 then (- ENOMEM, w)
      else let ((efd, _), w) = evl_create_element S (dev S EVL_OBSERVABLE_DEV) fmt NoAttrs flags w
      in (efd, free_opt S fmt w))"

definition wants_oob_io :: "'k system \<Rightarrow> 'k world \<Rightarrow> bool" where
  "wants_oob_io S w \<longleftrightarrow>
     \<not> (evl_current w = EVL_NO_HANDLE S) \<and> evl_get_current_mode S w AND EVL_T_WEAK S = 0"

text \<open>The notices are the bytes of the array; the byte counts are products of \<^verbatim>\<open>nr\<close> with the sizes.\<close>

definition evl_update_observable :: "'k system \<Rightarrow> int \<Rightarrow> string \<Rightarrow> int \<Rightarrow> 'k world \<Rightarrow> int \<times> 'k world" where
  "evl_update_observable S ofd ntc nr w =
     (let (ret, w) = (if \<not> wants_oob_io S w then sys S (Sys_write ofd ntc (nr * sizeof_notice S)) w
                      else oob_write S ofd ntc (nr * sizeof_notice S) w)
      in if k_ret ret < 0 then (if errno w = EAGAIN then 0 else - errno w, w)
      else (k_ret ret div sizeof_notice S, w))"

text \<open>\<^verbatim>\<open>do_read\<close> on a 64-bit machine, for the two read functions it is given.\<close>

definition do_read :: "'k system \<Rightarrow> bool \<Rightarrow> int \<Rightarrow> int \<Rightarrow> 'k world \<Rightarrow> kreply \<times> 'k world" where
  "do_read S oob ofd nr w =
     (if oob then oob_read S ofd (nat (nr * sizeof_notification S)) w
      else sys S (Sys_read ofd (nat (nr * sizeof_notification S))) w)"

definition evl_read_observable :: "'k system \<Rightarrow> int \<Rightarrow> int \<Rightarrow> 'k world \<Rightarrow> (int \<times> string) \<times> 'k world" where
  "evl_read_observable S ofd nr w =
     (let (ret, w) = (if \<not> wants_oob_io S w then do_read S False ofd nr w else do_read S True ofd nr w)
      in if k_ret ret < 0 then ((- errno w, o_data (k_out ret)), w)
      else ((k_ret ret div sizeof_notification S, o_data (k_out ret)), w))"

end
