(* ===== verification/Evl_Init.thy ===== *)
theory Evl_Init
  imports Evl_Proxy
begin

text \<open>
  \<^verbatim>\<open>lib/init.c\<close> and \<^verbatim>\<open>lib/thread.c\<close>: the initialisation of the process, done once, and the
  attachment of the current thread to the core.

  An operation that may initialise the process is an option: \<open>None\<close> when the process is ended by
  \<^verbatim>\<open>error(1, ...)\<close>, or when a table of the vDSO image has no end.
\<close>

section \<open>Process initialisation\<close>

definition EVL_ABI_PREREQ :: u32 where "EVL_ABI_PREREQ = 43"

definition EVL_API_VERSION :: int where "EVL_API_VERSION = 32"

text \<open>\<^verbatim>\<open>arch/x86/include/asm/evl/vdso.h\<close>\<close>

definition EVL_VDSO_KVERSION :: string where "EVL_VDSO_KVERSION = ''LINUX_2.6''"
definition EVL_VDSO_GETTIME :: string where "EVL_VDSO_GETTIME = ''__vdso_clock_gettime''"

definition atfork_unmap_shmem :: "'k system \<Rightarrow> 'k world \<Rightarrow> 'k world" where
  "atfork_unmap_shmem S w =
     (let w = (if shared_memory w \<noteq> NULL then
                 let (_, w) = sys S (Sys_munmap (shared_memory w) (shm_size (core_info w))) w
                 in w\<lparr>shared_memory := NULL\<rparr>
               else w);
          w = (if evl_ctlfd w \<ge> 0 then let (_, w) = close_fd S (evl_ctlfd w) w in w\<lparr>evl_ctlfd := - 1\<rparr> else w)
      in w\<lparr>init_once := False\<rparr>)"

text \<open>The label \<^verbatim>\<open>fail\<close>.\<close>

definition init_fail :: "'k system \<Rightarrow> int \<Rightarrow> int \<Rightarrow> 'k world \<Rightarrow> int \<times> 'k world" where
  "init_fail S ctlfd ret w = (let (_, w) = close_fd S ctlfd w in (ret, w))"

text \<open>The core information, its ABI range, the clocks and the shared memory.\<close>

definition init_attach :: "'k system \<Rightarrow> int \<Rightarrow> 'k world \<Rightarrow> int \<times> 'k world" where
  "init_attach S ctlfd w =
     (if EVL_ABI_PREREQ < abi_base (core_info w) \<or> EVL_ABI_PREREQ > abi_current (core_info w) then
        let (_, w) = sys S (Lib_fprintf ''evl: ABI mismatch'') w in init_fail S ctlfd (- ENOEXEC) w
      else let (ret, w) = evl_attach_clocks S w
      in if ret \<noteq> 0 then init_fail S ctlfd ret w
      else let (r, w) = sys S (Sys_mmap (shm_size (core_info w)) ctlfd) w
      in if k_ret r < 0 then init_fail S ctlfd (- errno w) w
      else let (_, w) = sys S (Lib_atfork Atfork_unmap_shmem) w
      in (0, w\<lparr>evl_ctlfd := ctlfd, shared_memory := o_addr (k_out r)\<rparr>))"

definition generic_init :: "'k system \<Rightarrow> 'k world \<Rightarrow> int \<times> 'k world" where
  "generic_init S w =
     (let (fd, w) = sys S (Sys_open (dev S EVL_CONTROL_DEV)) w; ctlfd = k_ret fd
      in if ctlfd < 0 then
           if errno w = ENOENT then let (_, w) = sys S (Lib_fprintf ''evl: core not enabled in kernel'') w
                                    in (- ENOSYS, w)
           else (- errno w, w)
      else let (ret, w) = sys S (Sys_fcntl ctlfd F_GETFD 0) w
      in if k_ret ret < 0 then init_fail S ctlfd (- errno w) w
      else let (ret, w) = sys S (Sys_fcntl ctlfd F_SETFD (k_ret ret OR O_CLOEXEC)) w
      in if k_ret ret < 0 then init_fail S ctlfd (- errno w) w
      else let (ret, w) = ioctl S ctlfd EVL_CTLIOC_GET_COREINFO w
      in if k_ret ret \<noteq> 0 then
           if errno w \<noteq> ENOTTY then init_fail S ctlfd (- errno w) w
           else init_attach S ctlfd (w\<lparr>core_info := (core_info w)\<lparr>abi_base := - 1\<rparr>\<rparr>)
      else init_attach S ctlfd (w\<lparr>core_info := o_core (k_out ret)\<rparr>))"

text \<open>The signal handler, given the cause of a marked signal; messages are written to \<^verbatim>\<open>stdout\<close>.\<close>

datatype hmdiag =
    EVL_HMDIAG_SIGDEMOTE | EVL_HMDIAG_SYSDEMOTE | EVL_HMDIAG_EXDEMOTE | EVL_HMDIAG_LKDEPEND
  | EVL_HMDIAG_WATCHDOG | EVL_HMDIAG_LKIMBALANCE | EVL_HMDIAG_LKSLEEP | EVL_HMDIAG_STAGEX
  | EVL_HMDIAG_OTHER int

fun sigdebug_msg :: "hmdiag \<Rightarrow> string" where
  "sigdebug_msg EVL_HMDIAG_SIGDEMOTE = ''switched inband (signal)'' @ [CHR 0x0a]"
| "sigdebug_msg EVL_HMDIAG_SYSDEMOTE = ''switched inband (syscall)'' @ [CHR 0x0a]"
| "sigdebug_msg EVL_HMDIAG_EXDEMOTE = ''switched inband (fault)'' @ [CHR 0x0a]"
| "sigdebug_msg EVL_HMDIAG_LKDEPEND = ''switched inband while holding mutex'' @ [CHR 0x0a]"
| "sigdebug_msg EVL_HMDIAG_WATCHDOG = ''watchdog triggered'' @ [CHR 0x0a]"
| "sigdebug_msg EVL_HMDIAG_LKIMBALANCE = ''mutex lock/unlock imbalance'' @ [CHR 0x0a]"
| "sigdebug_msg EVL_HMDIAG_LKSLEEP = ''attempt to sleep while holding a mutex'' @ [CHR 0x0a]"
| "sigdebug_msg EVL_HMDIAG_STAGEX = ''locked out from out-of-band stage (stax)'' @ [CHR 0x0a]"
| "sigdebug_msg (EVL_HMDIAG_OTHER n) = []"

definition raw_write_out :: "'k system \<Rightarrow> string \<Rightarrow> 'k world \<Rightarrow> 'k world" where
  "raw_write_out S msg w = snd (sys S (Sys_write 1 msg (int (length msg))) w)"

definition evl_sigdebug_handler :: "'k system \<Rightarrow> hmdiag option \<Rightarrow> 'k world \<Rightarrow> 'k world" where
  "evl_sigdebug_handler S si w =
     (case si of None \<Rightarrow> w
      | Some cause \<Rightarrow> (case cause of EVL_HMDIAG_OTHER n \<Rightarrow> w | _ \<Rightarrow> raw_write_out S (sigdebug_msg cause) w))"

definition evl_init_vdso :: "'k system \<Rightarrow> 'k world \<Rightarrow> 'k world option" where
  "evl_init_vdso S w =
     (if vdso_once w then Some w
      else map_option (\<lambda>info. w\<lparr>vdso := info, vdso_once := True\<rparr>)
             (parse_vdso (image S) (sysinfo_ehdr S) (vdso w)))"

definition resolve_vdso_calls :: "'k system \<Rightarrow> 'k world \<Rightarrow> 'k world option" where
  "resolve_vdso_calls S w =
     (if running_on_valgrind S then Some w
      else Option.bind (evl_init_vdso S w) (\<lambda>w.
        map_option (\<lambda>fn. w\<lparr>evl_clock_gettime_fn := fn\<rparr>)
          (evl_request_vdso (image S) (vdso w) EVL_VDSO_KVERSION EVL_VDSO_GETTIME)))"

definition do_init :: "'k system \<Rightarrow> 'k world \<Rightarrow> (int \<times> 'k world) option" where
  "do_init S w =
     Option.bind (resolve_vdso_calls S w) (\<lambda>w.
       let (ret, w) = sys S Sys_mlockall w
       in if k_ret ret \<noteq> 0 then Some (- errno w, w)
       else let (ret, w) = generic_init S w
       in if ret \<noteq> 0 then Some (ret, w)
       else Some (0, evl_setup_proxies S w))"

definition do_init_once :: "'k system \<Rightarrow> 'k world \<Rightarrow> 'k world option" where
  "do_init_once S w = map_option (\<lambda>(ret, w). w\<lparr>init_status := ret\<rparr>) (do_init S w)"

text \<open>\<^verbatim>\<open>pthread_once\<close> runs its function the first time only.\<close>

definition evl_init :: "'k system \<Rightarrow> 'k world \<Rightarrow> (int \<times> 'k world) option" where
  "evl_init S w =
     (if init_once w then Some (init_status w, w)
      else map_option (\<lambda>w. (init_status w, w\<lparr>init_once := True\<rparr>)) (do_init_once S w))"

definition evl_detect_fpu :: "'k system \<Rightarrow> 'k world \<Rightarrow> (u32 \<times> 'k world) option" where
  "evl_detect_fpu S w =
     map_option (\<lambda>(ret, w). (if ret \<noteq> 0 then 0 else fpu_features (core_info w), w)) (evl_init S w)"

record evl_version =
  api_level :: int
  abi_level :: u32
  version_string :: string

text \<open>The version string is that of the build, with the commit stamp if there is one.\<close>

definition evl_get_version :: "string \<Rightarrow> string option \<Rightarrow> evl_version" where
  "evl_get_version libversion git_stamp =
     \<lparr>api_level = EVL_API_VERSION, abi_level = EVL_ABI_PREREQ,
      version_string = ''evl.'' @ libversion @ (case git_stamp of None \<Rightarrow> [] | Some g \<Rightarrow> '' -- '' @ g)\<rparr>"

section \<open>Threads\<close>

definition SCHED_OTHER :: int where "SCHED_OTHER = 0"
definition SCHED_FIFO :: int where "SCHED_FIFO = 1"
definition SCHED_RR :: int where "SCHED_RR = 2"
definition SCHED_BATCH :: int where "SCHED_BATCH = 3"
definition SCHED_IDLE :: int where "SCHED_IDLE = 5"

definition clear_tls :: "'k system \<Rightarrow> 'k world \<Rightarrow> 'k world" where
  "clear_tls S w = w\<lparr>evl_current := EVL_NO_HANDLE S, evl_current_window := NULL, evl_current_efd := - 1\<rparr>"

definition atfork_clear_tls :: "'k system \<Rightarrow> 'k world \<Rightarrow> 'k world" where
  "atfork_clear_tls S w = (clear_tls S w)\<lparr>atfork_once := False\<rparr>"

definition do_atfork_once :: "'k system \<Rightarrow> 'k world \<Rightarrow> 'k world" where
  "do_atfork_once S w = snd (sys S (Lib_atfork Atfork_clear_tls) w)"

text \<open>The translation of in-band scheduling parameters.\<close>

definition attach_schedattrs :: "int \<Rightarrow> int \<Rightarrow> evl_sched_attrs" where
  "attach_schedattrs policy sched_prio =
     (if policy = SCHED_OTHER \<or> policy = SCHED_BATCH \<or> policy = SCHED_IDLE
      then \<lparr>sched_policy = policy, sched_priority = 0\<rparr>
      else if policy = SCHED_FIFO \<or> policy = SCHED_RR
      then \<lparr>sched_policy = policy, sched_priority = sched_prio\<rparr>
      else \<lparr>sched_policy = SCHED_FIFO, sched_priority = sched_prio\<rparr>)"

definition attach_fail :: "'k system \<Rightarrow> int \<Rightarrow> int \<Rightarrow> 'k world \<Rightarrow> int \<times> 'k world" where
  "attach_fail S efd ret w = (let (_, w) = close_fd S efd w in (ret, clear_tls S w))"

text \<open>What follows the creation of the thread element.\<close>

definition attach_element :: "'k system \<Rightarrow> int \<Rightarrow> evl_element_ids \<Rightarrow> 'k world \<Rightarrow> int \<times> 'k world" where
  "attach_element S efd eids w =
     (let w = w\<lparr>evl_current := eid_fundle eids,
                evl_current_window := shared_memory w + ucast (eid_state_offset eids),
                evl_current_efd := efd\<rparr>;
          (r, w) = sys S Lib_getschedparam w
      in if k_ret r \<noteq> 0 then attach_fail S efd (k_ret r) w
      else
        let attrs = attach_schedattrs (sched_policy (o_attrs (k_out r))) (sched_priority (o_attrs (k_out r)));
            w = (if atfork_once w then w else do_atfork_once S (w\<lparr>atfork_once := True\<rparr>));
            (r, w) = oob_ioctl S efd (EVL_THRIOC_SET_SCHEDPARAM attrs) w
        in if k_ret r \<noteq> 0 then attach_fail S efd (- errno w) w
        else (efd, w))"

definition evl_attach_thread :: "'k system \<Rightarrow> u32 \<Rightarrow> string option \<Rightarrow> 'k world \<Rightarrow> (int \<times> 'k world) option" where
  "evl_attach_thread S flags fmt w =
     Option.bind (evl_init S w) (\<lambda>(ret, w).
       if ret \<noteq> 0 then Some (ret, w)
       else if evl_current w \<noteq> EVL_NO_HANDLE S then Some (- EBUSY, w)
       else
         let (ret, w) = asprintf_opt S fmt w
         in if ret < 0 then Some (- ENOMEM, w)
         else
           let ((efd, eids), w) = evl_create_element S (dev S EVL_THREAD_DEV) fmt NoAttrs flags w;
               w = free_opt S fmt w
           in if efd < 0 then Some (efd, w)
           else Some (attach_element S efd (the eids) w))"

definition evl_detach_thread :: "'k system \<Rightarrow> int \<Rightarrow> 'k world \<Rightarrow> int \<times> 'k world" where
  "evl_detach_thread S flags w =
     (if flags \<noteq> 0 then (- EINVAL, w)
      else if evl_current w = EVL_NO_HANDLE S then (- EPERM, w)
      else
        let (_, w) = oob_ioctl S (evl_current_efd w) (EVL_THRIOC_CLEAR_MODE (EVL_T_WOSS S)) w;
            (ret, w) = ioctl S (evl_current_efd w) EVL_THRIOC_DETACH_SELF w
        in if k_ret ret \<noteq> 0 then (- errno w, w)
        else let (_, w) = close_fd S (evl_current_efd w) w in (0, clear_tls S w))"

definition evl_detach_self :: "'k system \<Rightarrow> 'k world \<Rightarrow> int \<times> 'k world" where
  "evl_detach_self S w = evl_detach_thread S 0 w"

definition evl_get_self :: "'k world \<Rightarrow> int" where
  "evl_get_self w = evl_current_efd w"

definition evl_switch_oob :: "'k system \<Rightarrow> 'k world \<Rightarrow> int \<times> 'k world" where
  "evl_switch_oob S w =
     (if evl_current w = EVL_NO_HANDLE S then (- EPERM, w)
      else if \<not> evl_is_inband S w then (0, w)
      else ret_errno (oob_ioctl S (evl_current_efd w) EVL_THRIOC_SWITCH_OOB w))"

definition evl_switch_inband :: "'k system \<Rightarrow> 'k world \<Rightarrow> int \<times> 'k world" where
  "evl_switch_inband S w =
     (if evl_is_inband S w then (0, w)
      else ret_errno (ioctl S (evl_current_efd w) EVL_THRIOC_SWITCH_INBAND w))"

definition evl_get_state :: "'k system \<Rightarrow> int \<Rightarrow> 'k world \<Rightarrow> int \<times> 'k world" where
  "evl_get_state S efd w =
     (let ((ret, _), w) = conforming_ioctl S efd EVL_THRIOC_GET_STATE w in (ret, w))"

definition evl_unblock_thread :: "'k system \<Rightarrow> int \<Rightarrow> 'k world \<Rightarrow> int \<times> 'k world" where
  "evl_unblock_thread S efd w =
     (let ((ret, _), w) = conforming_ioctl S efd EVL_THRIOC_UNBLOCK w in (ret, w))"

definition evl_demote_thread :: "'k system \<Rightarrow> int \<Rightarrow> 'k world \<Rightarrow> int \<times> 'k world" where
  "evl_demote_thread S efd w =
     (let ((ret, _), w) = conforming_ioctl S efd EVL_THRIOC_DEMOTE w in (ret, w))"

text \<open>The second result is what \<^verbatim>\<open>*oldmask\<close> is set to, when it is.\<close>

definition do_thread_mode :: "'k system \<Rightarrow> int \<Rightarrow> (u32 \<Rightarrow> ioctl_req) \<Rightarrow> u32 \<Rightarrow> 'k world \<Rightarrow> (int \<times> u32 option) \<times> 'k world" where
  "do_thread_mode S efd op mode_bits w =
     (let ((ret, out), w) = conforming_ioctl S efd (op mode_bits) w
      in if ret \<noteq> 0 then ((ret, None), w) else ((0, Some (o_u32 out)), w))"

definition evl_set_thread_mode :: "'k system \<Rightarrow> int \<Rightarrow> u32 \<Rightarrow> 'k world \<Rightarrow> (int \<times> u32 option) \<times> 'k world" where
  "evl_set_thread_mode S efd mode_bits w = do_thread_mode S efd EVL_THRIOC_SET_MODE mode_bits w"

definition evl_clear_thread_mode :: "'k system \<Rightarrow> int \<Rightarrow> u32 \<Rightarrow> 'k world \<Rightarrow> (int \<times> u32 option) \<times> 'k world" where
  "evl_clear_thread_mode S efd mode_bits w = do_thread_mode S efd EVL_THRIOC_CLEAR_MODE mode_bits w"

definition evl_subscribe :: "'k system \<Rightarrow> int \<Rightarrow> u32 \<Rightarrow> u32 \<Rightarrow> 'k world \<Rightarrow> int \<times> 'k world" where
  "evl_subscribe S efd backlog_count flags w =
     (let (ret, w) = ioctl S efd (EVL_OBSIOC_SUBSCRIBE backlog_count flags) w
      in if k_ret ret \<noteq> 0 \<and> errno w = ENOTTY then (- EPERM, w)
      else (if k_ret ret \<noteq> 0 then - errno w else 0, w))"

definition evl_unsubscribe :: "'k system \<Rightarrow> int \<Rightarrow> 'k world \<Rightarrow> int \<times> 'k world" where
  "evl_unsubscribe S efd w =
     (let (ret, w) = ioctl S efd EVL_OBSIOC_UNSUBSCRIBE w
      in if k_ret ret \<noteq> 0 \<and> errno w = ENOTTY then (- EPERM, w)
      else (if k_ret ret \<noteq> 0 then - errno w else 0, w))"

definition evl_get_current_mode_call :: "'k system \<Rightarrow> 'k world \<Rightarrow> u32" where
  "evl_get_current_mode_call S w = evl_get_current_mode S w"

end
