(* ===== verification/Evl_Monitor.thy ===== *)
theory Evl_Monitor
  imports Evl_Init
begin

text \<open>
  What the synchronisation services of the library share: the descriptors of the objects built
  on the monitors of the core, the creation and the binding of a monitor, and the requests which
  need not be issued out-of-band.

  The two arms of the union of an object descriptor are two fields of its record; the code reads
  the arm its magic number tells.
\<close>

record active_arm =
  a_fundle :: fundle
  a_state :: addr
  a_efd :: int

record uninit_arm =
  u_name :: string
  u_clockfd :: int
  u_initval :: u32
  u_flags :: u32

definition no_arm :: active_arm where
  "no_arm = \<lparr>a_fundle = 0, a_state = 0, a_efd = 0\<rparr>"

definition no_eids :: evl_element_ids where
  "no_eids = \<lparr>eid_fundle = 0, eid_state_offset = 0\<rparr>"

text \<open>
  The creation of a monitor with its optional name: the common part of the creation functions of
  the semaphores, flag groups, mutexes and events, from \<^verbatim>\<open>vasprintf\<close> to the test of \<^verbatim>\<open>efd\<close>.
\<close>

definition create_monitor :: "'k system \<Rightarrow> int \<Rightarrow> int \<Rightarrow> int \<Rightarrow> u32 \<Rightarrow> u32 \<Rightarrow> string option \<Rightarrow> 'k world \<Rightarrow>
    (int \<times> evl_element_ids) \<times> 'k world" where
  "create_monitor S type protocol clockfd initval flags fmt w =
     (let (ret, w) = asprintf_opt S fmt w
      in if ret < 0 then ((- ENOMEM, no_eids), w)
      else
        let attrs = MonitorAttrs \<lparr>ma_type = type, ma_protocol = protocol, ma_clockfd = clockfd, ma_initval = initval\<rparr>;
            ((efd, ids), w) = evl_create_element S (dev S EVL_MONITOR_DEV) fmt attrs flags w
        in ((efd, the ids), free_opt S fmt w))"

text \<open>The address of the state a monitor shares with the kernel.\<close>

definition monitor_state :: "'k world \<Rightarrow> evl_element_ids \<Rightarrow> addr" where
  "monitor_state w eids = shared_memory w + ucast (eid_state_offset eids)"

text \<open>Requests that need not be issued out-of-band.\<close>

definition event_ioctl :: "'k system \<Rightarrow> int \<Rightarrow> ioctl_req \<Rightarrow> 'k world \<Rightarrow> kreply \<times> 'k world" where
  "event_ioctl S efd req w =
     (if evl_get_current w \<noteq> 0 \<and> \<not> evl_is_inband S w then oob_ioctl S efd req w else ioctl S efd req w)"

end
