(* ===== verification/Evl_Mutex.thy ===== *)
theory Evl_Mutex
  imports Evl_Monitor
begin

text \<open>
  \<^verbatim>\<open>lib/mutex.c\<close>: mutexes.  A free mutex is taken, and a mutex nobody waits for is released, by a
  compare-and-exchange of the owner word it shares with the kernel; all other cases go through
  the kernel.  The nesting count and the flags of the monitor are accessed by the owner only.

  The calls that are issued again as long as they fail with \<^verbatim>\<open>EINTR\<close> are partial functions.
\<close>

record mutex_active =
  ma_fundle :: fundle
  ma_state :: addr
  ma_efd :: int
  ma_monitor :: int
  ma_proto :: int

record mutex_uninit =
  mu_name :: "string option"
  mu_clockfd :: int
  mu_ceiling :: u32
  mu_flags :: u32
  mu_monitor :: int

record evl_mutex =
  mutex_magic :: u32
  m_active :: mutex_active
  m_uninit :: mutex_uninit

definition MUTEX_UNINIT_MAGIC :: u32 where "MUTEX_UNINIT_MAGIC = 0xfe11fe11"
definition MUTEX_ACTIVE_MAGIC :: u32 where "MUTEX_ACTIVE_MAGIC = 0xab12ab12"
definition MUTEX_DEAD_MAGIC :: u32 where "MUTEX_DEAD_MAGIC = 0"

definition EVL_MUTEX_NORMAL :: u32 where "EVL_MUTEX_NORMAL = 0"
definition EVL_MUTEX_RECURSIVE :: u32 where "EVL_MUTEX_RECURSIVE = 1"

definition no_mutex_arm :: mutex_active where
  "no_mutex_arm = \<lparr>ma_fundle = 0, ma_state = 0, ma_efd = 0, ma_monitor = 0, ma_proto = 0\<rparr>"

definition EVL_MUTEX_INITIALIZER :: "'k system \<Rightarrow> string option \<Rightarrow> int \<Rightarrow> u32 \<Rightarrow> u32 \<Rightarrow> evl_mutex" where
  "EVL_MUTEX_INITIALIZER S name clockfd ceiling flags =
     \<lparr>mutex_magic = MUTEX_UNINIT_MAGIC, m_active = no_mutex_arm,
      m_uninit = \<lparr>mu_name = name, mu_clockfd = clockfd, mu_ceiling = ceiling, mu_flags = flags,
                  mu_monitor = EVL_MONITOR_GATE S\<rparr>\<rparr>"

text \<open>Plain accesses to a monitor and to the window of the current thread.\<close>

definition gate_of :: "'k world \<Rightarrow> addr \<Rightarrow> gate_state" where
  "gate_of w a = gate (mon (shr w) a)"

definition upd_mon :: "addr \<Rightarrow> (evl_monitor_state \<Rightarrow> evl_monitor_state) \<Rightarrow> 'k world \<Rightarrow> 'k world" where
  "upd_mon a f w = w\<lparr>shr := (shr w)\<lparr>mon := (mon (shr w))(a := f (mon (shr w) a))\<rparr>\<rparr>"

definition upd_gate :: "addr \<Rightarrow> (gate_state \<Rightarrow> gate_state) \<Rightarrow> 'k world \<Rightarrow> 'k world" where
  "upd_gate a f w = upd_mon a (\<lambda>m. m\<lparr>gate := f (gate m)\<rparr>) w"

definition set_pp_pending :: "addr \<Rightarrow> fundle \<Rightarrow> 'k world \<Rightarrow> 'k world" where
  "set_pp_pending a h w =
     w\<lparr>shr := (shr w)\<lparr>win := (win (shr w))(a := (win (shr w) a)\<lparr>pp_pending := h\<rparr>)\<rparr>\<rparr>"

section \<open>The owner word\<close>

definition init_fast_lock :: "'k system \<Rightarrow> addr \<Rightarrow> 'k world \<Rightarrow> 'k world" where
  "init_fast_lock S gst w = atomic_store S (Owner gst) (EVL_NO_HANDLE S) w"

definition is_mutex_owner :: "'k system \<Rightarrow> addr \<Rightarrow> fundle \<Rightarrow> 'k world \<Rightarrow> bool \<times> 'k world" where
  "is_mutex_owner S gst ownerh w =
     (let (h, w) = atomic_read S (Owner gst) w in (evl_get_index S h = ownerh, w))"

definition fast_lock_mutex :: "'k system \<Rightarrow> addr \<Rightarrow> fundle \<Rightarrow> 'k world \<Rightarrow> int \<times> 'k world" where
  "fast_lock_mutex S gst new_ownerh w =
     (let (h, w) = atomic_cmpxchg S (Owner gst) (EVL_NO_HANDLE S) new_ownerh w
      in if h \<noteq> EVL_NO_HANDLE S then
           if evl_get_index S h = new_ownerh then (- EBUSY, w) else (- EAGAIN, w)
         else (0, w))"

definition fast_unlock_mutex :: "'k system \<Rightarrow> addr \<Rightarrow> fundle \<Rightarrow> 'k world \<Rightarrow> bool \<times> 'k world" where
  "fast_unlock_mutex S gst cur_ownerh w =
     (let (h, w) = atomic_cmpxchg S (Owner gst) cur_ownerh (EVL_NO_HANDLE S) w in (h = cur_ownerh, w))"

section \<open>Creation\<close>

definition init_mutex_vargs :: "'k system \<Rightarrow> evl_mutex \<Rightarrow> int \<Rightarrow> int \<Rightarrow> u32 \<Rightarrow> u32 \<Rightarrow> string option \<Rightarrow> 'k world \<Rightarrow>
    (int \<times> evl_mutex) \<times> 'k world" where
  "init_mutex_vargs S mutex protocol clockfd ceiling flags fmt w =
     (if shared_memory w = NULL then ((- ENXIO, mutex), w)
      else
        let (ret, w) = (if protocol = EVL_GATE_PP S then
                          let (r, w) = sys S Lib_get_priority_max w in (k_ret r, w)
                        else (0, w))
        in if protocol = EVL_GATE_PP S \<and> (ret < 0 \<or> ceiling = 0 \<or> ceiling > word_of_int ret)
        then ((- EINVAL, mutex), w)
        else
          let ((efd, eids), w) = create_monitor S (EVL_MONITOR_GATE S) protocol clockfd ceiling flags fmt w
          in if efd < 0 then ((efd, mutex), w)
          else
            let gst = monitor_state w eids;
                w = upd_gate gst (\<lambda>g. g\<lparr>g_recursive := flags AND EVL_MUTEX_RECURSIVE \<noteq> 0\<rparr>) w;
                w = init_fast_lock S gst w
            in ((efd, mutex\<lparr>m_active := \<lparr>ma_fundle = eid_fundle eids, ma_state = gst, ma_efd = efd,
                              ma_monitor = EVL_MONITOR_GATE S, ma_proto = protocol\<rparr>,
                            mutex_magic := MUTEX_ACTIVE_MAGIC\<rparr>), w))"

definition init_mutex_static :: "'k system \<Rightarrow> evl_mutex \<Rightarrow> int \<Rightarrow> u32 \<Rightarrow> u32 \<Rightarrow> string option \<Rightarrow> 'k world \<Rightarrow>
    (int \<times> evl_mutex) \<times> 'k world" where
  "init_mutex_static S mutex clockfd ceiling flags fmt w =
     init_mutex_vargs S mutex (if ceiling \<noteq> 0 then EVL_GATE_PP S else EVL_GATE_PI S) clockfd ceiling flags fmt w"

definition evl_create_mutex :: "'k system \<Rightarrow> evl_mutex \<Rightarrow> int \<Rightarrow> u32 \<Rightarrow> u32 \<Rightarrow> string option \<Rightarrow> 'k world \<Rightarrow>
    (int \<times> evl_mutex) \<times> 'k world" where
  "evl_create_mutex S mutex clockfd ceiling flags fmt w =
     init_mutex_vargs S mutex (if ceiling \<noteq> 0 then EVL_GATE_PP S else EVL_GATE_PI S) clockfd ceiling flags fmt w"

definition evl_new_mutex :: "'k system \<Rightarrow> evl_mutex \<Rightarrow> string option \<Rightarrow> 'k world \<Rightarrow> (int \<times> evl_mutex) \<times> 'k world" where
  "evl_new_mutex S mutex fmt w =
     evl_create_mutex S mutex (EVL_CLOCK_MONOTONIC S) 0 (EVL_MUTEX_NORMAL OR EVL_CLONE_PRIVATE S) fmt w"

definition open_mutex_vargs :: "'k system \<Rightarrow> evl_mutex \<Rightarrow> string \<Rightarrow> 'k world \<Rightarrow> (int \<times> evl_mutex) \<times> 'k world" where
  "open_mutex_vargs S mutex fmt w =
     (let (efd, w) = evl_open_element_vargs S (dev S EVL_MONITOR_DEV) fmt w
      in if efd < 0 then ((efd, mutex), w)
      else let (r, w) = ioctl S efd EVL_MONIOC_BIND w; bind = k_out r
      in if k_ret r \<noteq> 0 then
           let ret = - errno w; (_, w) = close_fd S efd w in ((ret, mutex), w)
      else if o_type bind \<noteq> EVL_MONITOR_GATE S then
        let (_, w) = close_fd S efd w in ((- EINVAL, mutex), w)
      else
        let gst = monitor_state w (o_eids bind)
        in ((0, mutex\<lparr>m_active := \<lparr>ma_fundle = eid_fundle (o_eids bind), ma_state = gst, ma_efd = efd,
                        ma_monitor = o_type bind, ma_proto = o_protocol bind\<rparr>,
                      mutex_magic := MUTEX_ACTIVE_MAGIC\<rparr>), w))"

definition evl_open_mutex :: "'k system \<Rightarrow> evl_mutex \<Rightarrow> string \<Rightarrow> 'k world \<Rightarrow> (int \<times> evl_mutex) \<times> 'k world" where
  "evl_open_mutex S mutex fmt w = open_mutex_vargs S mutex fmt w"

definition evl_close_mutex :: "'k system \<Rightarrow> evl_mutex \<Rightarrow> 'k world \<Rightarrow> (int \<times> evl_mutex) \<times> 'k world" where
  "evl_close_mutex S mutex w =
     (if mutex_magic mutex = MUTEX_UNINIT_MAGIC then ((0, mutex), w)
      else if mutex_magic mutex \<noteq> MUTEX_ACTIVE_MAGIC then ((- EINVAL, mutex), w)
      else let (_, w) = close_fd S (ma_efd (m_active mutex)) w
      in ((0, mutex\<lparr>m_active := (m_active mutex)\<lparr>ma_efd := - 1, ma_fundle := EVL_NO_HANDLE S, ma_state := NULL\<rparr>,
                    mutex_magic := MUTEX_DEAD_MAGIC\<rparr>), w))"

section \<open>Locking\<close>

text \<open>One more than a nesting count, which wraps at the width of its bit field.\<close>

definition nesting_inc :: "'k system \<Rightarrow> nat \<Rightarrow> nat" where
  "nesting_inc S n = (n + 1) mod NESTING_RANGE S"

text \<open>What \<^verbatim>\<open>try_lock\<close> does when the current thread owns the mutex already.\<close>

definition relock :: "'k system \<Rightarrow> addr \<Rightarrow> 'k world \<Rightarrow> int \<times> 'k world" where
  "relock S gst w =
     (if g_recursive (gate_of w gst) then
        let w = upd_gate gst (\<lambda>g. g\<lparr>g_nesting := nesting_inc S (g_nesting g)\<rparr>) w
        in if g_nesting (gate_of w gst) = 0 then
             (- EAGAIN, upd_gate gst (\<lambda>g. g\<lparr>g_nesting := NESTING_RANGE S - 1\<rparr>) w)
           else (0, w)
      else (- EDEADLK, w))"

text \<open>The label \<^verbatim>\<open>slow_path\<close> of \<^verbatim>\<open>try_lock\<close>, and what follows.\<close>

definition try_lock_slow :: "'k system \<Rightarrow> addr \<Rightarrow> fundle \<Rightarrow> 'k world \<Rightarrow> int \<times> 'k world" where
  "try_lock_slow S gst current w =
     (let (owner, w) = is_mutex_owner S gst current w
      in if owner then relock S gst w else (- ENODATA, w))"

text \<open>The fast path; \<open>protect\<close> is the window holding a lazy ceiling request, if one was made.\<close>

definition try_lock_fast :: "'k system \<Rightarrow> addr \<Rightarrow> fundle \<Rightarrow> addr option \<Rightarrow> 'k world \<Rightarrow> int \<times> 'k world" where
  "try_lock_fast S gst current protect w =
     (let (ret, w) = fast_lock_mutex S gst current w
      in if ret = 0 then
           let w = upd_gate gst (\<lambda>g. g\<lparr>g_nesting := 1\<rparr>) w;
               w = upd_mon gst (\<lambda>m. m\<lparr>ms_flags := ms_flags m AND NOT (EVL_MONITOR_SIGNALED S)\<rparr>) w
           in (0, w)
      else if ret = - EBUSY then
        let w = (case protect of None \<Rightarrow> w | Some u_window \<Rightarrow> set_pp_pending u_window (EVL_NO_HANDLE S) w)
        in relock S gst w
      else (- ENODATA, w))"

text \<open>\<^verbatim>\<open>try_lock\<close> after the checks of the descriptor.\<close>

definition try_lock_active :: "'k system \<Rightarrow> evl_mutex \<Rightarrow> fundle \<Rightarrow> 'k world \<Rightarrow> int \<times> 'k world" where
  "try_lock_active S mutex current w =
     (let gst = ma_state (m_active mutex);
          mode = evl_get_current_mode S w
      in if mode AND (EVL_T_INBAND S OR EVL_T_WEAK S OR EVL_T_WOLI S) = 0 then
           if ma_proto (m_active mutex) = EVL_GATE_PP S then
             let u_window = evl_get_current_window w
             in if pp_pending (win (shr w) u_window) \<noteq> EVL_NO_HANDLE S then try_lock_slow S gst current w
                else try_lock_fast S gst current (Some u_window)
                       (set_pp_pending u_window (ma_fundle (m_active mutex)) w)
           else try_lock_fast S gst current None w
         else try_lock_slow S gst current w)"

definition try_lock :: "'k system \<Rightarrow> evl_mutex \<Rightarrow> 'k world \<Rightarrow> (int \<times> evl_mutex) \<times> 'k world" where
  "try_lock S mutex w =
     (let current = evl_get_current w
      in if current = EVL_NO_HANDLE S then ((- EPERM, mutex), w)
      else if mutex_magic mutex = MUTEX_UNINIT_MAGIC \<and> mu_monitor (m_uninit mutex) = EVL_MONITOR_GATE S then
        let u = m_uninit mutex;
            ((ret, mutex), w) = init_mutex_static S mutex (mu_clockfd u) (mu_ceiling u) (mu_flags u) (mu_name u) w
        in if ret < 0 then ((ret, mutex), w)
           else let (ret, w) = try_lock_active S mutex current w in ((ret, mutex), w)
      else if mutex_magic mutex \<noteq> MUTEX_ACTIVE_MAGIC then ((- EINVAL, mutex), w)
      else let (ret, w) = try_lock_active S mutex current w in ((ret, mutex), w))"

text \<open>\<^verbatim>\<open>do ... while (ret && errno == EINTR)\<close>\<close>

partial_function (option) retry_eintr :: "'k system \<Rightarrow> int \<Rightarrow> ioctl_req \<Rightarrow> 'k world \<Rightarrow> (kreply \<times> 'k world) option" where
  "retry_eintr S efd req w =
     (case oob_ioctl S efd req w of
        (ret, w) \<Rightarrow> if k_ret ret \<noteq> 0 \<and> errno w = EINTR then retry_eintr S efd req w else Some (ret, w))"

definition evl_timedlock_mutex :: "'k system \<Rightarrow> evl_mutex \<Rightarrow> timespec option \<Rightarrow> 'k world \<Rightarrow>
    ((int \<times> evl_mutex) \<times> 'k world) option" where
  "evl_timedlock_mutex S mutex timeout w =
     (let ((ret, mutex), w) = try_lock S mutex w
      in if ret \<noteq> - ENODATA then Some ((ret, mutex), w)
      else
        map_option (\<lambda>(ret, w).
            if k_ret ret = 0 then
              ((0, mutex), upd_gate (ma_state (m_active mutex)) (\<lambda>g. g\<lparr>g_nesting := 1\<rparr>) w)
            else ((- errno w, mutex), w))
          (retry_eintr S (ma_efd (m_active mutex)) (EVL_MONIOC_ENTER timeout) w))"

definition evl_lock_mutex :: "'k system \<Rightarrow> evl_mutex \<Rightarrow> 'k world \<Rightarrow> ((int \<times> evl_mutex) \<times> 'k world) option" where
  "evl_lock_mutex S mutex w = evl_timedlock_mutex S mutex (Some zerotime) w"

definition evl_trylock_mutex :: "'k system \<Rightarrow> evl_mutex \<Rightarrow> 'k world \<Rightarrow> ((int \<times> evl_mutex) \<times> 'k world) option" where
  "evl_trylock_mutex S mutex w =
     (let ((ret, mutex), w) = try_lock S mutex w
      in if ret \<noteq> - ENODATA then Some ((ret, mutex), w)
      else
        map_option (\<lambda>(ret, w). ((if k_ret ret \<noteq> 0 then - errno w else 0, mutex), w))
          (retry_eintr S (ma_efd (m_active mutex)) EVL_MONIOC_TRYENTER w))"

definition evl_unlock_mutex :: "'k system \<Rightarrow> evl_mutex \<Rightarrow> 'k world \<Rightarrow> int \<times> 'k world" where
  "evl_unlock_mutex S mutex w =
     (if mutex_magic mutex \<noteq> MUTEX_ACTIVE_MAGIC then (- EINVAL, w)
      else
        let gst = ma_state (m_active mutex);
            current = evl_get_current w;
            slow_path = (\<lambda>w. ret_errno (oob_ioctl S (ma_efd (m_active mutex)) EVL_MONIOC_EXIT w));
            (owner, w) = is_mutex_owner S gst current w
        in if \<not> owner then (- EPERM, w)
        else if g_nesting (gate_of w gst) > 1 then
          (0, upd_gate gst (\<lambda>g. g\<lparr>g_nesting := g_nesting g - 1\<rparr>) w)
        else if ms_flags (mon (shr w) gst) AND EVL_MONITOR_SIGNALED S \<noteq> 0 then slow_path w
        else if evl_get_current_mode S w AND (EVL_T_WEAK S OR EVL_T_WOLI S) \<noteq> 0 then slow_path w
        else
          let (released, w) = fast_unlock_mutex S gst current w
          in if released then
               (0, if ma_proto (m_active mutex) = EVL_GATE_PP S
                   then set_pp_pending (evl_get_current_window w) (EVL_NO_HANDLE S) w else w)
             else slow_path w)"

section \<open>Ceilings\<close>

definition evl_set_mutex_ceiling :: "'k system \<Rightarrow> evl_mutex \<Rightarrow> u32 \<Rightarrow> 'k world \<Rightarrow> (int \<times> evl_mutex) \<times> 'k world" where
  "evl_set_mutex_ceiling S mutex ceiling w =
     (if ceiling = 0 then ((- EINVAL, mutex), w)
      else let (r, w) = sys S Lib_get_priority_max w; ret = k_ret r
      in if ret < 0 \<or> ceiling > word_of_int ret then ((- EINVAL, mutex), w)
      else if mutex_magic mutex = MUTEX_UNINIT_MAGIC then
        if mu_monitor (m_uninit mutex) \<noteq> EVL_MONITOR_GATE S \<or> mu_ceiling (m_uninit mutex) = 0
        then ((- EINVAL, mutex), w)
        else ((0, mutex\<lparr>m_uninit := (m_uninit mutex)\<lparr>mu_ceiling := ceiling\<rparr>\<rparr>), w)
      else if mutex_magic mutex \<noteq> MUTEX_ACTIVE_MAGIC \<or> ma_monitor (m_active mutex) \<noteq> EVL_MONITOR_GATE S \<or>
              ma_proto (m_active mutex) \<noteq> EVL_GATE_PP S
      then ((- EINVAL, mutex), w)
      else ((0, mutex), upd_gate (ma_state (m_active mutex)) (\<lambda>g. g\<lparr>g_ceiling := ceiling\<rparr>) w))"

text \<open>An unsigned ceiling is returned as an int.\<close>

definition evl_get_mutex_ceiling :: "'k system \<Rightarrow> evl_mutex \<Rightarrow> 'k world \<Rightarrow> int" where
  "evl_get_mutex_ceiling S mutex w =
     (if mutex_magic mutex = MUTEX_UNINIT_MAGIC then
        if mu_monitor (m_uninit mutex) \<noteq> EVL_MONITOR_GATE S then - EINVAL
        else sint (mu_ceiling (m_uninit mutex))
      else if mutex_magic mutex \<noteq> MUTEX_ACTIVE_MAGIC \<or> ma_monitor (m_active mutex) \<noteq> EVL_MONITOR_GATE S
      then - EINVAL
      else if ma_proto (m_active mutex) \<noteq> EVL_GATE_PP S then 0
      else sint (g_ceiling (gate_of w (ma_state (m_active mutex)))))"

end
