(* ===== verification/Heap_Locked.thy ===== *)
theory Heap_Locked
  imports Heap_Alloc Evl_Mutex
begin

text \<open>
  The operations of \<^verbatim>\<open>lib/heap.c\<close> that serialise on the mutex of the heap.  The mutex of
  \<^verbatim>\<open>struct evl_heap\<close> is kept beside the fields the unlocked operations use; the static serial
  number of the heaps is an argument.
\<close>

type_synonym locked_heap = "evl_mutex \<times> heap_mem \<times> evl_heap"

text \<open>\<^verbatim>\<open>"heap:%.3d"\<close>\<close>

definition heap_name :: "nat \<Rightarrow> string" where
  "heap_name n = ''heap:'' @ replicate (3 - length (decimal n)) (CHR ''0'') @ decimal n"

definition heap_locked ::
  "'k system \<Rightarrow> evl_mutex \<Rightarrow> 'b \<Rightarrow> (int \<Rightarrow> 'a) \<Rightarrow> ('b \<Rightarrow> ('b \<times> 'a) option) \<Rightarrow> 'k world \<Rightarrow>
   ((evl_mutex \<times> 'b) \<times> 'a \<times> 'k world) option" where
  "heap_locked S lock st failed f w =
     Option.bind (evl_lock_mutex S lock w) (\<lambda>((ret, lock), w).
       if ret \<noteq> 0 then Some ((lock, st), failed ret, w)
       else Option.bind (f st) (\<lambda>(st, ret).
         let (_, w) = evl_unlock_mutex S lock w in Some ((lock, st), ret, w)))"

definition evl_check_block :: "'k system \<Rightarrow> bool \<Rightarrow> locked_heap \<Rightarrow> addr \<Rightarrow> 'k world \<Rightarrow>
    (locked_heap \<times> int \<times> 'k world) option" where
  "evl_check_block S opt lh block w =
     heap_locked S (fst lh) (snd lh) (\<lambda>ret. ret)
       (\<lambda>(hm, hp). Some ((hm, hp), evl_check_block_unlocked opt hp block)) w"

definition evl_alloc_block :: "'k system \<Rightarrow> bool \<Rightarrow> locked_heap \<Rightarrow> u64 \<Rightarrow> 'k world \<Rightarrow>
    (locked_heap \<times> addr \<times> 'k world) option" where
  "evl_alloc_block S opt lh sz w =
     heap_locked S (fst lh) (snd lh) (\<lambda>ret. NULL) (\<lambda>st. evl_alloc_block_unlocked opt st sz) w"

definition evl_free_block :: "'k system \<Rightarrow> bool \<Rightarrow> locked_heap \<Rightarrow> addr \<Rightarrow> 'k world \<Rightarrow>
    (locked_heap \<times> int \<times> 'k world) option" where
  "evl_free_block S opt lh block w =
     heap_locked S (fst lh) (snd lh) (\<lambda>ret. ret) (\<lambda>st. evl_free_block_unlocked opt st block) w"

definition evl_extend_heap :: "'k system \<Rightarrow> bool \<Rightarrow> locked_heap \<Rightarrow> addr \<Rightarrow> u64 \<Rightarrow> 'k world \<Rightarrow>
    (locked_heap \<times> int \<times> 'k world) option" where
  "evl_extend_heap S opt lh mem sz w =
     heap_locked S (fst lh) (snd lh) (\<lambda>ret. ret)
       (\<lambda>(hm, hp). evl_extend_heap_unlocked opt hm hp mem sz) w"

definition evl_init_heap :: "'k system \<Rightarrow> bool \<Rightarrow> locked_heap \<Rightarrow> addr \<Rightarrow> u64 \<Rightarrow> nat \<Rightarrow> 'k world \<Rightarrow>
    (locked_heap \<times> int \<times> nat \<times> 'k world) option" where
  "evl_init_heap S opt lh mem sz serial w =
     (case lh of (lock, hm, hp) \<Rightarrow>
        let ((ret, lock), w) = evl_new_mutex S lock (Some (heap_name serial)) w
        in if ret < 0 then Some ((lock, hm, hp), ret, serial + 1, w)
        else Option.bind (evl_init_heap_unlocked opt hm hp mem sz) (\<lambda>((hm, hp), ret).
          if ret < 0 then
            let ((_, lock), w) = evl_close_mutex S lock w in Some ((lock, hm, hp), ret, serial + 1, w)
          else Some ((lock, hm, hp), ret, serial + 1, w)))"

definition evl_destroy_heap_unlocked :: "evl_heap \<Rightarrow> evl_heap" where
  "evl_destroy_heap_unlocked hp = hp"

definition evl_destroy_heap :: "'k system \<Rightarrow> locked_heap \<Rightarrow> 'k world \<Rightarrow> locked_heap \<times> 'k world" where
  "evl_destroy_heap S lh w =
     (case lh of (lock, hm, hp) \<Rightarrow>
        let hp = evl_destroy_heap_unlocked hp;
            ((_, lock), w) = evl_close_mutex S lock w
        in ((lock, hm, hp), w))"

end
