(* ===== verification/Evl_Services.thy ===== *)
theory Evl_Services
  imports Evl_Init
begin

text \<open>
  \<^verbatim>\<open>lib/poll.c\<close>, \<^verbatim>\<open>lib/sched.c\<close>, \<^verbatim>\<open>lib/socket.c\<close> and \<^verbatim>\<open>lib/net.c\<close>: polling, scheduling control,
  out-of-band sockets and network ports.  Pointers the library only hands to the kernel are
  addresses; what the kernel writes through them is not the library's.
\<close>

section \<open>Polling\<close>

definition evl_new_poll :: "'k system \<Rightarrow> 'k world \<Rightarrow> int \<times> 'k world" where
  "evl_new_poll S w = evl_open_raw S (dev S EVL_POLL_DEV) w"

definition update_pollset :: "'k system \<Rightarrow> int \<Rightarrow> int \<Rightarrow> int \<Rightarrow> u32 \<Rightarrow> u64 \<Rightarrow> 'k world \<Rightarrow> int \<times> 'k world" where
  "update_pollset S efd action fd events pollval w =
     ret_errno (oob_ioctl S efd (EVL_POLIOC_CTL
       \<lparr>pc_action = action, pc_fd = fd, pc_events = events, pc_pollval = pollval\<rparr>) w)"

definition evl_add_pollfd :: "'k system \<Rightarrow> int \<Rightarrow> int \<Rightarrow> u32 \<Rightarrow> u64 \<Rightarrow> 'k world \<Rightarrow> int \<times> 'k world" where
  "evl_add_pollfd S efd fd events pollval w = update_pollset S efd (EVL_POLL_CTLADD S) fd events pollval w"

definition evl_del_pollfd :: "'k system \<Rightarrow> int \<Rightarrow> int \<Rightarrow> 'k world \<Rightarrow> int \<times> 'k world" where
  "evl_del_pollfd S efd fd w = update_pollset S efd (EVL_POLL_CTLDEL S) fd 0 0 w"

definition evl_mod_pollfd :: "'k system \<Rightarrow> int \<Rightarrow> int \<Rightarrow> u32 \<Rightarrow> u64 \<Rightarrow> 'k world \<Rightarrow> int \<times> 'k world" where
  "evl_mod_pollfd S efd fd events pollval w = update_pollset S efd (EVL_POLL_CTLMOD S) fd events pollval w"

text \<open>The number of events is read back from the request.\<close>

definition do_poll :: "'k system \<Rightarrow> int \<Rightarrow> addr \<Rightarrow> int \<Rightarrow> timespec option \<Rightarrow> 'k world \<Rightarrow> int \<times> 'k world" where
  "do_poll S efd pollset nrset timeout w =
     (let (ret, w) = oob_ioctl S efd (EVL_POLIOC_WAIT timeout pollset nrset) w
      in if k_ret ret \<noteq> 0 then (- errno w, w) else (o_int (k_out ret), w))"

definition evl_timedpoll :: "'k system \<Rightarrow> int \<Rightarrow> addr \<Rightarrow> int \<Rightarrow> timespec option \<Rightarrow> 'k world \<Rightarrow> int \<times> 'k world" where
  "evl_timedpoll S efd pollset nrset timeout w = do_poll S efd pollset nrset timeout w"

definition evl_poll :: "'k system \<Rightarrow> int \<Rightarrow> addr \<Rightarrow> int \<Rightarrow> 'k world \<Rightarrow> int \<times> 'k world" where
  "evl_poll S efd pollset nrset w = do_poll S efd pollset nrset (Some zerotime) w"

section \<open>Scheduling\<close>

definition evl_set_schedattr :: "'k system \<Rightarrow> int \<Rightarrow> evl_sched_attrs \<Rightarrow> 'k world \<Rightarrow> int \<times> 'k world" where
  "evl_set_schedattr S efd attrs w =
     (let ((ret, _), w) = conforming_ioctl S efd (EVL_THRIOC_SET_SCHEDPARAM attrs) w in (ret, w))"

definition evl_get_schedattr :: "'k system \<Rightarrow> int \<Rightarrow> 'k world \<Rightarrow> (int \<times> evl_sched_attrs) \<times> 'k world" where
  "evl_get_schedattr S efd w =
     (let ((ret, out), w) = conforming_ioctl S efd EVL_THRIOC_GET_SCHEDPARAM w in ((ret, o_attrs out), w))"

definition evl_control_sched :: "'k system \<Rightarrow> int \<Rightarrow> addr \<Rightarrow> addr \<Rightarrow> int \<Rightarrow> 'k world \<Rightarrow> int \<times> 'k world" where
  "evl_control_sched S policy param info cpu w =
     (if evl_ctlfd w < 0 then (- ENXIO, w)
      else let ((ret, _), w) = conforming_ioctl S (evl_ctlfd w) (EVL_CTLIOC_SCHEDCTL policy cpu param info) w
           in (ret, w))"

text \<open>The second result is what \<^verbatim>\<open>*state_r\<close> is set to, when it is.\<close>

definition evl_get_cpustate :: "'k system \<Rightarrow> int \<Rightarrow> 'k world \<Rightarrow> (int \<times> u32 option) \<times> 'k world" where
  "evl_get_cpustate S cpu w =
     (if evl_ctlfd w < 0 then ((- ENXIO, None), w)
      else let ((ret, out), w) = conforming_ioctl S (evl_ctlfd w) (EVL_CTLIOC_GET_CPUSTATE cpu) w
           in if ret \<noteq> 0 then ((ret, None), w) else ((0, Some (o_u32 out)), w))"

definition evl_yield :: "'k system \<Rightarrow> 'k world \<Rightarrow> int \<times> 'k world" where
  "evl_yield S w =
     (if evl_current w = EVL_NO_HANDLE S then (- EPERM, w)
      else ret_errno (oob_ioctl S (evl_current_efd w) EVL_THRIOC_YIELD w))"

section \<open>Sockets\<close>

record oob_msghdr =
  msg_name :: addr
  msg_namelen :: u32
  msg_iov :: addr
  msg_iovlen :: u64
  msg_control :: addr
  msg_controllen :: u64
  msg_flags :: int

definition user_msghdr :: "oob_msghdr \<Rightarrow> timespec option \<Rightarrow> int \<Rightarrow> user_oob_msghdr" where
  "user_msghdr msghdr timeout flags =
     \<lparr>um_iov = msg_iov msghdr, um_iovlen = ucast (msg_iovlen msghdr),
      um_ctl = msg_control msghdr, um_ctllen = ucast (msg_controllen msghdr),
      um_name = msg_name msghdr, um_namelen = msg_namelen msghdr,
      um_count = 0, um_flags = flags,
      um_timeout = (case timeout of Some t \<Rightarrow> t | None \<Rightarrow> zerotime)\<rparr>"

definition oob_recvmsg :: "'k system \<Rightarrow> int \<Rightarrow> oob_msghdr \<Rightarrow> timespec option \<Rightarrow> int \<Rightarrow> 'k world \<Rightarrow>
    (int \<times> oob_msghdr) \<times> 'k world" where
  "oob_recvmsg S sockfd msghdr timeout flags w =
     (let (ret, w) = oob_ioctl S sockfd (EVL_SOCKIOC_RECVMSG (user_msghdr msghdr timeout flags)) w;
          u_msghdr = o_msg (k_out ret)
      in if k_ret ret \<noteq> 0 then ((- 1, msghdr), w)
      else ((int (unat (um_count u_msghdr)),
             msghdr\<lparr>msg_namelen := um_namelen u_msghdr, msg_controllen := ucast (um_ctllen u_msghdr),
               msg_flags := um_flags u_msghdr\<rparr>), w))"

definition oob_sendmsg :: "'k system \<Rightarrow> int \<Rightarrow> oob_msghdr \<Rightarrow> timespec option \<Rightarrow> int \<Rightarrow> 'k world \<Rightarrow> int \<times> 'k world" where
  "oob_sendmsg S sockfd msghdr timeout flags w =
     (let (ret, w) = oob_ioctl S sockfd (EVL_SOCKIOC_SENDMSG (user_msghdr msghdr timeout flags)) w
      in if k_ret ret \<noteq> 0 then (- 1, w) else (int (unat (um_count (o_msg (k_out ret)))), w))"

text \<open>\<open>optlen\<close> is the address of the length.\<close>

definition oob_setsockopt :: "'k system \<Rightarrow> int \<Rightarrow> int \<Rightarrow> int \<Rightarrow> addr \<Rightarrow> addr \<Rightarrow> 'k world \<Rightarrow> int \<times> 'k world" where
  "oob_setsockopt S sockfd level optname optval optlen w =
     (let (ret, w) = oob_ioctl S sockfd (EVL_SOCKIOC_SETOPT level optname optval optlen) w in (k_ret ret, w))"

definition oob_getsockopt :: "'k system \<Rightarrow> int \<Rightarrow> int \<Rightarrow> int \<Rightarrow> addr \<Rightarrow> addr \<Rightarrow> 'k world \<Rightarrow> int \<times> 'k world" where
  "oob_getsockopt S sockfd level optname optval optlen w =
     (let (ret, w) = oob_ioctl S sockfd (EVL_SOCKIOC_GETOPT level optname optval optlen) w in (k_ret ret, w))"

section \<open>Network ports\<close>

definition evl_net_enable_port :: "'k system \<Rightarrow> addr \<Rightarrow> nat \<Rightarrow> nat \<Rightarrow> 'k world \<Rightarrow> int \<times> 'k world" where
  "evl_net_enable_port S ifname poolsz bufsz w =
     (let (netfd, w) = evl_open_raw S (dev S EVL_NET_DEV) w
      in if netfd < 0 then (if errno w = ENOENT then - ENOTSUP else - errno w, w)
      else
        let (r, w) = ioctl S netfd (EVL_NET_OPENPORT ifname poolsz bufsz) w;
            ret = (if k_ret r \<noteq> 0 then - errno w else 0);
            (_, w) = close_fd S netfd w
        in (if ret \<noteq> 0 then ret else o_int (k_out r), w))"

definition evl_net_disable_port :: "'k system \<Rightarrow> int \<Rightarrow> 'k world \<Rightarrow> int \<times> 'k world" where
  "evl_net_disable_port S devfd w =
     (let (r, w) = ioctl S devfd EVL_NDEVIOC_SWITCHOFF w
      in (if k_ret r \<noteq> 0 then (if errno w = ENOTTY then - EBADF else - errno w) else 0, w))"

text \<open>The error is read after the descriptor is closed.\<close>

definition evl_net_open_port :: "'k system \<Rightarrow> addr \<Rightarrow> 'k world \<Rightarrow> int \<times> 'k world" where
  "evl_net_open_port S ifname w =
     (let (fd, w) = evl_open_raw S (dev S EVL_NET_DEV) w
      in if fd < 0 then (if errno w = ENOENT then - ENOTSUP else - errno w, w)
      else
        let (r, w) = ioctl S fd (EVL_NET_GETDEVFD ifname) w;
            (_, w) = close_fd S fd w
        in if k_ret r < 0 then (- errno w, w) else (o_int (k_out r), w))"

definition ndev_error :: "int \<Rightarrow> int" where
  "ndev_error e = (if e = ENOTTY then - EBADF else - e)"

definition evl_net_set_filter :: "'k system \<Rightarrow> int \<Rightarrow> string option \<Rightarrow> 'k world \<Rightarrow> int \<times> 'k world" where
  "evl_net_set_filter S devfd modpath w =
     (case modpath of
        None \<Rightarrow>
          let (r, w) = ioctl S devfd (EVL_NDEVIOC_SETRXEBPF (- 1)) w
          in (if k_ret r \<noteq> 0 then ndev_error (errno w) else 0, w)
      | Some path \<Rightarrow>
          let (r, w) = sys S (Bpf_open path) w; obj = o_addr (k_out r)
          in if obj = NULL then (- errno w, w)
          else
            let (r, w) = sys S (Bpf_load obj) w; ret = k_ret r
            in if ret \<noteq> 0 then let (_, w) = sys S (Bpf_close obj) w in (ret, w)
            else
              let (r, w) = sys S (Bpf_next_program obj) w; prog = o_addr (k_out r);
                  (ret, w) =
                    (if prog \<noteq> NULL then
                       let (r, w) = sys S (Bpf_program_fd prog) w; progfd = k_ret r;
                           (r, w) = ioctl S devfd (EVL_NDEVIOC_SETRXEBPF progfd) w
                       in (if k_ret r \<noteq> 0 then ndev_error (errno w) else ret, w)
                     else (ret, w));
                  (_, w) = sys S (Bpf_close obj) w
              in (ret, w))"

text \<open>The socket address is copied as bytes.\<close>

definition evl_net_solicit :: "'k system \<Rightarrow> int \<Rightarrow> string \<Rightarrow> u32 \<Rightarrow> 'k world \<Rightarrow> int \<times> 'k world" where
  "evl_net_solicit S s peer flags w =
     (let (r, w) = ioctl S s (EVL_SOCKIOC_SOLICIT peer flags) w
      in (if k_ret r \<noteq> 0 then ndev_error (errno w) else 0, w))"

definition evl_net_query_port :: "'k system \<Rightarrow> int \<Rightarrow> 'k world \<Rightarrow> int \<times> 'k world" where
  "evl_net_query_port S devfd w =
     (let (r, w) = ioctl S devfd EVL_NDEVIOC_GETSTAT w
      in (if k_ret r \<noteq> 0 then ndev_error (errno w) else 0, w))"

end
