(* ===== verification/Evl_Event.thy ===== *)
theory Evl_Event
  imports Evl_Mutex
begin

text \<open>
  \<^verbatim>\<open>lib/event.c\<close>: condition variables.  An event names the mutex its waiters hold by the offset of
  that gate in the shared memory; signals are flags on both monitors, which the kernel acts on
  when the gate is left.  The cleanup handler that runs when the waiting thread is cancelled is
  not modelled.
\<close>

record event_uninit =
  eu_name :: "string option"
  eu_clockfd :: int
  eu_flags :: u32

record evl_event =
  evt_magic :: u32
  evt_active :: active_arm
  evt_uninit :: event_uninit

definition EVENT_UNINIT_MAGIC :: u32 where "EVENT_UNINIT_MAGIC = 0x01770177"
definition EVENT_ACTIVE_MAGIC :: u32 where "EVENT_ACTIVE_MAGIC = 0xef55ef55"
definition EVENT_DEAD_MAGIC :: u32 where "EVENT_DEAD_MAGIC = 0"

definition EVL_EVENT_INITIALIZER :: "string option \<Rightarrow> int \<Rightarrow> u32 \<Rightarrow> evl_event" where
  "EVL_EVENT_INITIALIZER name clockfd flags =
     \<lparr>evt_magic = EVENT_UNINIT_MAGIC, evt_active = no_arm,
      evt_uninit = \<lparr>eu_name = name, eu_clockfd = clockfd, eu_flags = flags\<rparr>\<rparr>"

definition init_event_vargs :: "'k system \<Rightarrow> evl_event \<Rightarrow> int \<Rightarrow> u32 \<Rightarrow> string option \<Rightarrow> 'k world \<Rightarrow>
    (int \<times> evl_event) \<times> 'k world" where
  "init_event_vargs S evt clockfd flags fmt w =
     (if shared_memory w = NULL then ((- ENXIO, evt), w)
      else
        let ((efd, eids), w) = create_monitor S (EVL_MONITOR_EVENT S) (EVL_EVENT_GATED S) clockfd 0 flags fmt w
        in if efd < 0 then ((efd, evt), w)
        else ((efd, evt\<lparr>evt_active := \<lparr>a_fundle = eid_fundle eids, a_state = monitor_state w eids, a_efd = efd\<rparr>,
                        evt_magic := EVENT_ACTIVE_MAGIC\<rparr>), w))"

definition init_event_static :: "'k system \<Rightarrow> evl_event \<Rightarrow> int \<Rightarrow> u32 \<Rightarrow> string option \<Rightarrow> 'k world \<Rightarrow>
    (int \<times> evl_event) \<times> 'k world" where
  "init_event_static S evt clockfd flags fmt w = init_event_vargs S evt clockfd flags fmt w"

definition evl_create_event :: "'k system \<Rightarrow> evl_event \<Rightarrow> int \<Rightarrow> u32 \<Rightarrow> string option \<Rightarrow> 'k world \<Rightarrow>
    (int \<times> evl_event) \<times> 'k world" where
  "evl_create_event S evt clockfd flags fmt w = init_event_vargs S evt clockfd flags fmt w"

definition open_event_vargs :: "'k system \<Rightarrow> evl_event \<Rightarrow> string \<Rightarrow> 'k world \<Rightarrow> (int \<times> evl_event) \<times> 'k world" where
  "open_event_vargs S evt fmt w =
     (let (efd, w) = evl_open_element_vargs S (dev S EVL_MONITOR_DEV) fmt w
      in if efd < 0 then ((efd, evt), w)
      else let (r, w) = ioctl S efd EVL_MONIOC_BIND w; bind = k_out r
      in if k_ret r \<noteq> 0 then
           let ret = - errno w; (_, w) = close_fd S efd w in ((ret, evt), w)
      else if o_type bind \<noteq> EVL_MONITOR_EVENT S \<or> o_protocol bind \<noteq> EVL_EVENT_GATED S then
        let (_, w) = close_fd S efd w in ((- EINVAL, evt), w)
      else
        ((0, evt\<lparr>evt_active := \<lparr>a_fundle = eid_fundle (o_eids bind), a_state = monitor_state w (o_eids bind),
                    a_efd = efd\<rparr>,
                 evt_magic := EVENT_ACTIVE_MAGIC\<rparr>), w))"

definition evl_open_event :: "'k system \<Rightarrow> evl_event \<Rightarrow> string \<Rightarrow> 'k world \<Rightarrow> (int \<times> evl_event) \<times> 'k world" where
  "evl_open_event S evt fmt w = open_event_vargs S evt fmt w"

definition evl_close_event :: "'k system \<Rightarrow> evl_event \<Rightarrow> 'k world \<Rightarrow> (int \<times> evl_event) \<times> 'k world" where
  "evl_close_event S evt w =
     (if evt_magic evt = EVENT_UNINIT_MAGIC then ((0, evt), w)
      else if evt_magic evt \<noteq> EVENT_ACTIVE_MAGIC then ((- EINVAL, evt), w)
      else let (_, w) = close_fd S (a_efd (evt_active evt)) w
      in ((0, evt\<lparr>evt_active := (evt_active evt)\<lparr>a_efd := - 1, a_fundle := EVL_NO_HANDLE S, a_state := NULL\<rparr>,
                  evt_magic := EVENT_DEAD_MAGIC\<rparr>), w))"

definition check_event_sanity :: "'k system \<Rightarrow> evl_event \<Rightarrow> 'k world \<Rightarrow> (int \<times> evl_event) \<times> 'k world" where
  "check_event_sanity S evt w =
     (if evt_magic evt = EVENT_UNINIT_MAGIC then
        let u = evt_uninit evt;
            ((efd, evt), w) = init_event_static S evt (eu_clockfd u) (eu_flags u) (eu_name u) w
        in ((if efd < 0 then efd else 0, evt), w)
      else ((if evt_magic evt \<noteq> EVENT_ACTIVE_MAGIC then - EINVAL else 0, evt), w))"

text \<open>The gate of the mutex the waiters hold, null when nobody waits.\<close>

definition get_lock_state :: "'k system \<Rightarrow> evl_event \<Rightarrow> 'k world \<Rightarrow> addr" where
  "get_lock_state S evt w =
     (let est = mon (shr w) (a_state (evt_active evt))
      in if e_gate_offset (event est) = EVL_MONITOR_NOGATE S then NULL
         else shared_memory w + ucast (e_gate_offset (event est)))"

definition unwait_event :: "'k system \<Rightarrow> int \<Rightarrow> int \<Rightarrow> 'k world \<Rightarrow> 'k world option" where
  "unwait_event S efd gatefd w = map_option snd (retry_eintr S efd (EVL_MONIOC_UNWAIT gatefd) w)"

definition evl_timedwait_event :: "'k system \<Rightarrow> evl_event \<Rightarrow> evl_mutex \<Rightarrow> timespec option \<Rightarrow> 'k world \<Rightarrow>
    ((int \<times> evl_event) \<times> 'k world) option" where
  "evl_timedwait_event S evt mutex timeout w =
     (if mutex_magic mutex \<noteq> MUTEX_ACTIVE_MAGIC then Some ((- EINVAL, evt), w)
      else let ((ret, evt), w) = check_event_sanity S evt w
      in if ret \<noteq> 0 then Some ((ret, evt), w)
      else
        let gatefd = ma_efd (m_active mutex);
            req = \<lparr>wr_timeout = timeout, wr_gatefd = gatefd, wr_value = 0\<rparr>;
            (r, w) = oob_ioctl S (a_efd (evt_active evt)) (EVL_MONIOC_WAIT req) w
        in if k_ret r = 0 then Some ((0, evt), w)
        else
          let ret = - errno w
          in Option.bind
               (if ret \<noteq> - EIDRM \<and> ret \<noteq> - EPERM then unwait_event S (a_efd (evt_active evt)) gatefd w
                else Some w)
               (\<lambda>w. Some ((if ret = - EINTR then 0 else ret, evt), w)))"

definition evl_wait_event :: "'k system \<Rightarrow> evl_event \<Rightarrow> evl_mutex \<Rightarrow> 'k world \<Rightarrow>
    ((int \<times> evl_event) \<times> 'k world) option" where
  "evl_wait_event S evt mutex w = evl_timedwait_event S evt mutex (Some zerotime) w"

definition set_mon_flags :: "addr \<Rightarrow> u32 \<Rightarrow> 'k world \<Rightarrow> 'k world" where
  "set_mon_flags a bits w = upd_mon a (\<lambda>m. m\<lparr>ms_flags := ms_flags m OR bits\<rparr>) w"

definition evl_signal_event :: "'k system \<Rightarrow> evl_event \<Rightarrow> 'k world \<Rightarrow> (int \<times> evl_event) \<times> 'k world" where
  "evl_signal_event S evt w =
     (let ((ret, evt), w) = check_event_sanity S evt w
      in if ret \<noteq> 0 then ((ret, evt), w)
      else
        let gst = get_lock_state S evt w
        in if gst \<noteq> NULL then
             let w = set_mon_flags gst (EVL_MONITOR_SIGNALED S) w;
                 w = set_mon_flags (a_state (evt_active evt)) (EVL_MONITOR_SIGNALED S) w
             in ((0, evt), w)
           else ((0, evt), w))"

definition evl_signal_thread :: "'k system \<Rightarrow> evl_event \<Rightarrow> int \<Rightarrow> 'k world \<Rightarrow> (int \<times> evl_event) \<times> 'k world" where
  "evl_signal_thread S evt thrfd w =
     (let ((ret, evt), w) = check_event_sanity S evt w
      in if ret \<noteq> 0 then ((ret, evt), w)
      else
        let gst = get_lock_state S evt w
        in if gst \<noteq> NULL then
             let w = set_mon_flags gst (EVL_MONITOR_SIGNALED S) w;
                 (ret, w) = ret_errno (oob_ioctl S thrfd (EVL_THRIOC_SIGNAL (word_of_int (a_efd (evt_active evt)))) w)
             in ((ret, evt), w)
           else ((0, evt), w))"

definition evl_broadcast_event :: "'k system \<Rightarrow> evl_event \<Rightarrow> 'k world \<Rightarrow> (int \<times> evl_event) \<times> 'k world" where
  "evl_broadcast_event S evt w =
     (let ((ret, evt), w) = check_event_sanity S evt w
      in if ret \<noteq> 0 then ((ret, evt), w)
      else
        let gst = get_lock_state S evt w
        in if gst \<noteq> NULL then
             let w = set_mon_flags gst (EVL_MONITOR_SIGNALED S) w;
                 w = set_mon_flags (a_state (evt_active evt)) (EVL_MONITOR_SIGNALED S OR EVL_MONITOR_BROADCAST S) w
             in ((0, evt), w)
           else ((0, evt), w))"

end
