(* ===== verification/Evl_Counter.thy ===== *)
theory Evl_Counter
  imports Evl_Prelude
begin

text \<open>
  The interface of a bounded counter: an operation adds one, another takes one or reports an error when
  there is none.  The runs of an implementation are those of the counter.  The units of a
  semaphore and the nesting of a recursive mutex are such counters.
\<close>

datatype counter_op = Put | Get

fun counter_run :: "int \<Rightarrow> nat \<Rightarrow> counter_op list \<Rightarrow> int list \<times> nat" where
  "counter_run err n [] = ([], n)"
| "counter_run err n (Put # ops) = (case counter_run err (n + 1) ops of (rs, m) \<Rightarrow> (0 # rs, m))"
| "counter_run err n (Get # ops) =
     (case counter_run err (n - 1) ops of (rs, m) \<Rightarrow> ((if 0 < n then 0 else err) # rs, m))"

fun run_ops :: "('s \<Rightarrow> (int \<times> 's) option) \<Rightarrow> ('s \<Rightarrow> (int \<times> 's) option) \<Rightarrow> counter_op list \<Rightarrow> 's \<Rightarrow> (int list \<times> 's) option" where
  "run_ops put get [] s = Some ([], s)"
| "run_ops put get (p # ops) s =
     Option.bind (case p of Put \<Rightarrow> put s | Get \<Rightarrow> get s) (\<lambda>(r, s).
       map_option (\<lambda>(rs, s). (r # rs, s)) (run_ops put get ops s))"

locale counter =
  fixes ok :: "'p \<Rightarrow> 's \<Rightarrow> bool" and val :: "'p \<Rightarrow> 's \<Rightarrow> nat" and limit :: "'p \<Rightarrow> nat" and err :: int
    and put :: "'p \<Rightarrow> 's \<Rightarrow> (int \<times> 's) option" and get :: "'p \<Rightarrow> 's \<Rightarrow> (int \<times> 's) option"
  assumes put: "ok p s \<Longrightarrow> val p s < limit p \<Longrightarrow> \<exists>t. put p s = Some (0, t) \<and> ok p t \<and> val p t = val p s + 1"
    and get: "ok p s \<Longrightarrow> \<exists>t. get p s = Some (if 0 < val p s then 0 else err, t) \<and> ok p t \<and> val p t = val p s - 1"
begin

lemma run_refines:
  assumes "ok p s" and "val p s + length ops \<le> limit p"
  shows "\<exists>t. run_ops (put p) (get p) ops s = Some (fst (counter_run err (val p s) ops), t) \<and> ok p t \<and>
    val p t = snd (counter_run err (val p s) ops)"
  using assms
proof (induction ops arbitrary: s)
  case Nil
  then show ?case by simp
next
  case (Cons x ops)
  show ?case
  proof (cases x)
    case Put
    with Cons.prems put[of p s] obtain t where t: "put p s = Some (0, t)" "ok p t" "val p t = val p s + 1" by auto
    with Cons.IH[of t] Cons.prems Put show ?thesis by (auto simp: split_beta)
  next
    case Get
    with Cons.prems get[of p s] obtain t where t: "get p s = Some (if 0 < val p s then 0 else err, t)" "ok p t" "val p t = val p s - 1" by auto
    with Cons.IH[of t] Cons.prems Get show ?thesis by (auto simp: split_beta)
  qed
qed

end

end
