(* ===== verification/Evl_Mutex_Correct.thy ===== *)
theory Evl_Mutex_Correct
  imports Evl_Event Evl_Atomic Evl_Sample Evl_Counter
begin

text \<open>
  Mutexes are correct: a recursive mutex counts, the slow path retries what is interrupted, and the operations that fail either
  are refused with nothing changed or have been answered so by the kernel.
\<close>

section \<open>Recursive mutexes as counters\<close>

definition mutex_mine :: "'k world \<Rightarrow> evl_mutex \<Rightarrow> bool" where
  "mutex_mine w m \<longleftrightarrow> g_owner (gate_of w (ma_state (m_active m))) = evl_current w"

text \<open>
  A recursive mutex, without a ceiling, which is free or held by the current thread; the thread runs
  out-of-band, without the modes that ask for the slow path.
\<close>

definition mutex_ok :: "'k system \<times> evl_mutex \<Rightarrow> 'k world \<Rightarrow> bool" where
  "mutex_ok p w \<longleftrightarrow> (case p of (S, m) \<Rightarrow>
     alone S \<and> mutex_magic m = MUTEX_ACTIVE_MAGIC \<and> evl_current w \<noteq> EVL_NO_HANDLE S \<and> 2 \<le> NESTING_RANGE S \<and>
     evl_get_index S (evl_current w) = evl_current w \<and> evl_get_index S (EVL_NO_HANDLE S) \<noteq> evl_current w \<and>
     evl_get_current_mode S w AND (EVL_T_INBAND S OR EVL_T_WEAK S OR EVL_T_WOLI S) = 0 \<and>
     ma_proto (m_active m) \<noteq> EVL_GATE_PP S \<and> g_recursive (gate_of w (ma_state (m_active m))) \<and>
     ms_flags (mon (shr w) (ma_state (m_active m))) AND EVL_MONITOR_SIGNALED S = 0 \<and>
     (if mutex_mine w m
      then 1 \<le> g_nesting (gate_of w (ma_state (m_active m))) \<and> g_nesting (gate_of w (ma_state (m_active m))) < NESTING_RANGE S
      else g_owner (gate_of w (ma_state (m_active m))) = EVL_NO_HANDLE S))"

definition mutex_val :: "'k system \<times> evl_mutex \<Rightarrow> 'k world \<Rightarrow> nat" where
  "mutex_val p w = (if mutex_mine w (snd p) then g_nesting (gate_of w (ma_state (m_active (snd p)))) else 0)"

definition mutex_lock :: "'k system \<times> evl_mutex \<Rightarrow> 'k world \<Rightarrow> (int \<times> 'k world) option" where
  "mutex_lock p w = map_option (\<lambda>((ret, _), w). (ret, w)) (evl_lock_mutex (fst p) (snd p) w)"

definition mutex_unlock :: "'k system \<times> evl_mutex \<Rightarrow> 'k world \<Rightarrow> (int \<times> 'k world) option" where
  "mutex_unlock p w = Some (evl_unlock_mutex (fst p) (snd p) w)"

lemma and_or_zero: "(a :: u32) AND (b OR c) = 0 \<longleftrightarrow> a AND b = 0 \<and> a AND c = 0"
  by (simp add: bit.conj_disj_distrib or_eq_0_iff)

lemma and_not_and [simp]: "((a :: u32) AND NOT b) AND b = 0"
  by (simp add: and.assoc)

lemma Suc_mod_below [simp]: "n < r - Suc 0 \<Longrightarrow> Suc n mod r = Suc n"
  by simp

lemmas mutex_defs = evl_lock_mutex_def evl_timedlock_mutex_def try_lock_def try_lock_active_def try_lock_fast_def
  fast_lock_mutex_def relock_def upd_gate_def upd_mon_def gate_of_def evl_get_current_def nesting_inc_def
  evl_unlock_mutex_def is_mutex_owner_def fast_unlock_mutex_def evl_get_current_mode_def

lemma mutex_lock_ok:
  assumes "mutex_ok (S, m) w" and "mutex_val (S, m) w < NESTING_RANGE S - 1"
  shows "\<exists>w'. mutex_lock (S, m) w = Some (0, w') \<and> mutex_ok (S, m) w' \<and> mutex_val (S, m) w' = mutex_val (S, m) w + 1 \<and>
    log w' = log w"
  using assms unfolding mutex_ok_def mutex_lock_def
  by (auto simp: mutex_val_def mutex_mine_def mutex_defs Let_def atomic_defs alone_def
      MUTEX_ACTIVE_MAGIC_def MUTEX_UNINIT_MAGIC_def EBUSY_def EAGAIN_def ENODATA_def dest!: dvd_imp_le)

lemma mutex_unlock_ok:
  assumes "mutex_ok (S, m) w"
  shows "\<exists>w'. mutex_unlock (S, m) w = Some (if 0 < mutex_val (S, m) w then 0 else - EPERM, w') \<and> mutex_ok (S, m) w' \<and>
    mutex_val (S, m) w' = mutex_val (S, m) w - 1 \<and> log w' = log w"
proof -
  from assms have m: "evl_get_current_mode S w AND (EVL_T_WEAK S OR EVL_T_WOLI S) = 0"
    by (simp add: mutex_ok_def and_or_zero)
  with assms show ?thesis unfolding mutex_ok_def mutex_unlock_def
    by (auto simp: mutex_val_def mutex_mine_def mutex_defs Let_def atomic_defs alone_def EPERM_def)
qed

interpretation mutex: counter "\<lambda>(p, l) w. mutex_ok p w \<and> log w = l" "\<lambda>(p, l). mutex_val p"
  "\<lambda>(p, l). NESTING_RANGE (fst p) - 1" "- EPERM" "\<lambda>(p, l). mutex_lock p" "\<lambda>(p, l). mutex_unlock p"
proof
  fix p :: "('k system \<times> evl_mutex) \<times> (kcall \<times> kreply) list" and w :: "'k world"
  obtain S m l where p: "p = ((S, m), l)" by (metis surj_pair)
  assume ok: "(case p of (p, l) \<Rightarrow> \<lambda>w. mutex_ok p w \<and> log w = l) w"
  show "\<exists>t. (case p of (p, l) \<Rightarrow> mutex_lock p) w = Some (0, t) \<and> (case p of (p, l) \<Rightarrow> \<lambda>w. mutex_ok p w \<and> log w = l) t \<and>
      (case p of (p, l) \<Rightarrow> mutex_val p) t = (case p of (p, l) \<Rightarrow> mutex_val p) w + 1"
    if "(case p of (p, l) \<Rightarrow> mutex_val p) w < (case p of (p, l) \<Rightarrow> NESTING_RANGE (fst p) - 1)"
    using ok that mutex_lock_ok[of S m w] by (auto simp: p)
  show "\<exists>t. (case p of (p, l) \<Rightarrow> mutex_unlock p) w = Some (if 0 < (case p of (p, l) \<Rightarrow> mutex_val p) w then 0 else - EPERM, t) \<and>
      (case p of (p, l) \<Rightarrow> \<lambda>w. mutex_ok p w \<and> log w = l) t \<and>
      (case p of (p, l) \<Rightarrow> mutex_val p) t = (case p of (p, l) \<Rightarrow> mutex_val p) w - 1"
    using ok mutex_unlock_ok[of S m w] by (auto simp: p)
qed

text \<open>
  C9. Recursive mutexes nest: any run of \<^verbatim>\<open>evl_lock_mutex\<close> and \<^verbatim>\<open>evl_unlock_mutex\<close> by a thread the others do
  not contend with counts the locks held, and frees the mutex with the last unlock; one more unlock is
  refused with \<^verbatim>\<open>-EPERM\<close>.  No call to the kernel is made, as long as the count fits its bit field.
\<close>

theorem mutex_refines_counter:
  assumes "mutex_ok (S, m) w" and "mutex_val (S, m) w + length ops \<le> NESTING_RANGE S - 1"
  shows "\<exists>w'. run_ops (mutex_lock (S, m)) (mutex_unlock (S, m)) ops w =
      Some (fst (counter_run (- EPERM) (mutex_val (S, m) w) ops), w') \<and>
    mutex_val (S, m) w' = snd (counter_run (- EPERM) (mutex_val (S, m) w) ops) \<and> log w' = log w \<and>
    (snd (counter_run (- EPERM) (mutex_val (S, m) w) ops) = 0 \<longrightarrow>
      g_owner (gate_of w' (ma_state (m_active m))) = EVL_NO_HANDLE S)"
proof -
  have free: "g_owner (gate_of u (ma_state (m_active m))) = EVL_NO_HANDLE S"
    if "mutex_ok (S, m) u" "mutex_val (S, m) u = 0" for u
    using that by (auto simp: mutex_ok_def mutex_val_def split: if_splits)
  from mutex.run_refines[of "((S, m), log w)" w ops] assms free show ?thesis by auto
qed

section \<open>Errors\<close>

lemma upd_gate_same: "f (gate_of w a) = gate_of w a \<Longrightarrow> upd_gate a f w = w"
  by (simp add: upd_gate_def upd_mon_def gate_of_def)

lemma upd_gate_twice: "upd_gate a f (upd_gate a g w) = upd_gate a (\<lambda>x. f (g x)) w"
  by (simp add: upd_gate_def upd_mon_def)

lemma gate_of_upd [simp]: "gate_of (upd_gate a f w) a = f (gate_of w a)"
  by (simp add: gate_of_def upd_gate_def upd_mon_def)

lemma relock_errors:
  "\<not> g_recursive (gate_of w a) \<Longrightarrow> relock S a w = (- EDEADLK, w)"
  "g_recursive (gate_of w a) \<Longrightarrow> g_nesting (gate_of w a) = NESTING_RANGE S - 1 \<Longrightarrow> 0 < NESTING_RANGE S \<Longrightarrow> relock S a w = (- EAGAIN, w)"
  by (simp_all add: relock_def Let_def nesting_inc_def upd_gate_twice upd_gate_same)

lemma try_lock_mine:
  assumes "alone S" and "mutex_magic m = MUTEX_ACTIVE_MAGIC" and "ma_proto (m_active m) \<noteq> EVL_GATE_PP S"
    and "evl_current w \<noteq> EVL_NO_HANDLE S" and "g_owner (gate_of w (ma_state (m_active m))) \<noteq> EVL_NO_HANDLE S"
    and "evl_get_index S (g_owner (gate_of w (ma_state (m_active m)))) = evl_current w"
  shows "try_lock S m w = (case relock S (ma_state (m_active m)) w of (r, w') \<Rightarrow> ((r, m), w'))"
  using assms
  by (simp add: try_lock_def try_lock_active_def try_lock_fast_def try_lock_slow_def fast_lock_mutex_def is_mutex_owner_def
      gate_of_def atomic_defs alone_def Let_def evl_get_current_def EBUSY_def split_beta MUTEX_ACTIVE_MAGIC_def MUTEX_UNINIT_MAGIC_def)

section \<open>The slow path\<close>

text \<open>
  A request that is issued again as long as it is interrupted: the log shows the interrupted attempts, and then
  the one that is not, whose outcome is the result.
\<close>

definition attempts :: "int \<Rightarrow> ioctl_req \<Rightarrow> 'k world \<Rightarrow> kreply \<times> 'k world \<Rightarrow> bool" where
  "attempts efd req w r \<longleftrightarrow> (\<exists>rs. log (snd r) = log w @ map (\<lambda>x. (Sys_oob_ioctl efd req, x)) (rs @ [fst r]) \<and>
     (\<forall>x \<in> set rs. k_ret x \<noteq> 0) \<and> \<not> (k_ret (fst r) \<noteq> 0 \<and> errno (snd r) = EINTR)) \<and> same_process w (snd r)"

lemma attempts_again:
  assumes "sys S (Sys_oob_ioctl efd req) w = (x, w1)" and "k_ret x \<noteq> 0" and "attempts efd req w1 r"
  shows "attempts efd req w r"
proof -
  have l: "log w1 = log w @ [(Sys_oob_ioctl efd req, x)]" and p: "same_process w w1"
    using sys_log[of S "Sys_oob_ioctl efd req" w] sys_same_process[of w S "Sys_oob_ioctl efd req"] assms(1) by auto
  from assms(3) obtain rs where "log (snd r) = log w1 @ map (\<lambda>x. (Sys_oob_ioctl efd req, x)) (rs @ [fst r])"
    "\<forall>x \<in> set rs. k_ret x \<noteq> 0" "\<not> (k_ret (fst r) \<noteq> 0 \<and> errno (snd r) = EINTR)" "same_process w1 (snd r)"
    by (auto simp: attempts_def)
  then show ?thesis using l p assms(2) same_process_trans[of w w1 "snd r"]
    by (auto simp: attempts_def intro!: exI[of _ "x # rs"])
qed

lemma retry_attempts:
  assumes "retry_eintr S efd req w = Some r"
  shows "attempts efd req w r"
proof (rule retry_eintr.raw_induct[OF _ assms, where P = "\<lambda>S efd req w r. attempts efd req w r"])
  fix retry_eintr S efd req and w :: "'b world" and r
  assume IH: "\<And>S efd req w r. retry_eintr S efd req w = Some r \<Longrightarrow> attempts efd req w r"
    and e: "(case oob_ioctl S efd req w of (ret, w) \<Rightarrow>
      if k_ret ret \<noteq> 0 \<and> errno w = EINTR then retry_eintr S efd req w else Some (ret, w)) = Some r"
  obtain x w1 where x: "sys S (Sys_oob_ioctl efd req) w = (x, w1)" by force
  show "attempts efd req w r"
  proof (cases "k_ret x \<noteq> 0 \<and> errno w1 = EINTR")
    case True
    with e x have "retry_eintr S efd req w1 = Some r" by (simp add: oob_ioctl_eq)
    from attempts_again[OF x _ IH[OF this]] True show ?thesis by blast
  next
    case False
    with e x have r: "r = (x, w1)" by (auto simp: oob_ioctl_eq)
    have "log w1 = log w @ [(Sys_oob_ioctl efd req, x)]" "same_process w w1"
      using sys_log[of S "Sys_oob_ioctl efd req" w] sys_same_process[of w S "Sys_oob_ioctl efd req"] x by auto
    with False show ?thesis by (auto simp: attempts_def r intro!: exI[of _ "[]"])
  qed
qed

text \<open>It ends as soon as one attempt is not interrupted.\<close>

fun attempt_world :: "'k system \<Rightarrow> int \<Rightarrow> ioctl_req \<Rightarrow> nat \<Rightarrow> 'k world \<Rightarrow> 'k world" where
  "attempt_world S efd req 0 w = w"
| "attempt_world S efd req (Suc n) w = attempt_world S efd req n (snd (sys S (Sys_oob_ioctl efd req) w))"

lemma retry_ends:
  assumes "let (r, w') = sys S (Sys_oob_ioctl efd req) (attempt_world S efd req n w) in \<not> (k_ret r \<noteq> 0 \<and> errno w' = EINTR)"
  shows "\<exists>r. retry_eintr S efd req w = Some r"
  using assms
proof (induction n arbitrary: w)
  case 0
  then show ?case by (subst retry_eintr.simps) (auto simp: oob_ioctl_eq split_beta)
next
  case (Suc n)
  obtain x w1 where x: "sys S (Sys_oob_ioctl efd req) w = (x, w1)" by force
  from Suc.prems x have "let (r, w') = sys S (Sys_oob_ioctl efd req) (attempt_world S efd req n w1) in \<not> (k_ret r \<noteq> 0 \<and> errno w' = EINTR)"
    by simp
  from Suc.IH[OF this] show ?case by (subst retry_eintr.simps) (auto simp: oob_ioctl_eq x)
qed

lemma try_lock_contended:
  assumes "alone S" and "mutex_magic m = MUTEX_ACTIVE_MAGIC" and "ma_proto (m_active m) \<noteq> EVL_GATE_PP S"
    and "evl_current w \<noteq> EVL_NO_HANDLE S" and "g_owner (gate_of w (ma_state (m_active m))) \<noteq> EVL_NO_HANDLE S"
    and "evl_get_index S (g_owner (gate_of w (ma_state (m_active m)))) \<noteq> evl_current w"
  shows "try_lock S m w = ((- ENODATA, m), w)"
  using assms
  by (simp add: try_lock_def try_lock_active_def try_lock_fast_def try_lock_slow_def fast_lock_mutex_def is_mutex_owner_def
      gate_of_def atomic_defs alone_def Let_def evl_get_current_def EBUSY_def EAGAIN_def MUTEX_ACTIVE_MAGIC_def MUTEX_UNINIT_MAGIC_def)

text \<open>
  C33. Locking a mutex another thread holds asks the kernel, again after each interruption: the result is the outcome of the first
  attempt that is not interrupted, never \<^verbatim>\<open>-EINTR\<close>, and a success sets the nesting count to one.  The
  call returns if some attempt is not interrupted.
\<close>

theorem lock_mutex_contended:
  assumes "alone S" and "mutex_magic m = MUTEX_ACTIVE_MAGIC" and "ma_proto (m_active m) \<noteq> EVL_GATE_PP S"
    and "evl_current w \<noteq> EVL_NO_HANDLE S" and "g_owner (gate_of w (ma_state (m_active m))) \<noteq> EVL_NO_HANDLE S"
    and "evl_get_index S (g_owner (gate_of w (ma_state (m_active m)))) \<noteq> evl_current w"
    and "let (r, w') = sys S (Sys_oob_ioctl (ma_efd (m_active m)) (EVL_MONIOC_ENTER timeout))
        (attempt_world S (ma_efd (m_active m)) (EVL_MONIOC_ENTER timeout) n w) in \<not> (k_ret r \<noteq> 0 \<and> errno w' = EINTR)"
  shows "\<exists>r w1 ret w'. evl_timedlock_mutex S m timeout w = Some ((ret, m), w') \<and>
    attempts (ma_efd (m_active m)) (EVL_MONIOC_ENTER timeout) w (r, w1) \<and> ret \<noteq> - EINTR \<and>
    (if k_ret r = 0 then ret = 0 \<and> w' = upd_gate (ma_state (m_active m)) (\<lambda>g. g\<lparr>g_nesting := 1\<rparr>) w1
     else ret = - errno w1 \<and> w' = w1)"
proof -
  obtain r w1 where r: "retry_eintr S (ma_efd (m_active m)) (EVL_MONIOC_ENTER timeout) w = Some (r, w1)"
    using retry_ends[OF assms(7)] by auto
  note a = retry_attempts[OF r]
  have "errno w1 \<noteq> EINTR" if "k_ret r \<noteq> 0" using a that by (auto simp: attempts_def)
  with r a show ?thesis
    by (auto simp: evl_timedlock_mutex_def try_lock_contended[OF assms(1-6)] EINTR_def)
qed

text \<open>
  \<^verbatim>\<open>evl_trylock_mutex\<close> does not set the nesting count when the kernel gives it the mutex.  A thread which takes a
  recursive mutex this way, the first time it is taken, and locks it once more, counts one: its first
  unlock releases the mutex while it still holds it once.
\<close>

theorem trylock_mutex_nesting:
  assumes "alone S" and "mutex_magic m = MUTEX_ACTIVE_MAGIC" and "ma_proto (m_active m) \<noteq> EVL_GATE_PP S"
    and "evl_current w \<noteq> EVL_NO_HANDLE S" and "evl_get_index S (EVL_NO_HANDLE S) \<noteq> evl_current w"
    and "evl_get_index S (evl_current w) = evl_current w"
    and "g_owner (gate_of w (ma_state (m_active m))) = EVL_NO_HANDLE S" and "g_recursive (gate_of w (ma_state (m_active m)))"
    and "g_nesting (gate_of w (ma_state (m_active m))) = 0" and "2 \<le> NESTING_RANGE S"
    and "evl_get_current_mode S w AND (EVL_T_INBAND S OR EVL_T_WEAK S OR EVL_T_WOLI S) \<noteq> 0"
    and "kernel S (Sys_oob_ioctl (ma_efd (m_active m)) EVL_MONIOC_TRYENTER) (shr w) =
      (ok, aput (Owner (ma_state (m_active m))) (evl_current w) (shr w))" and "k_ret ok = 0"
  shows "\<exists>w1 w2. evl_trylock_mutex S m w = Some ((0, m), w1) \<and> evl_lock_mutex S m w1 = Some ((0, m), w2) \<and>
    g_owner (gate_of w2 (ma_state (m_active m))) = evl_current w2 \<and> g_nesting (gate_of w2 (ma_state (m_active m))) = 1"
proof -
  let ?a = "ma_state (m_active m)"
  define w1 where "w1 = snd (sys S (Sys_oob_ioctl (ma_efd (m_active m)) EVL_MONIOC_TRYENTER) w)"
  have s: "sys S (Sys_oob_ioctl (ma_efd (m_active m)) EVL_MONIOC_TRYENTER) w = (ok, w1)"
    using assms(12,13) by (simp add: w1_def sys_def)
  have "try_lock S m w = ((- ENODATA, m), w)" using assms
    by (simp add: try_lock_def try_lock_active_def try_lock_slow_def is_mutex_owner_def
        gate_of_def atomic_defs alone_def Let_def evl_get_current_def MUTEX_ACTIVE_MAGIC_def MUTEX_UNINIT_MAGIC_def)
  then have 1: "evl_trylock_mutex S m w = Some ((0, m), w1)"
    using s assms(13) by (simp add: evl_trylock_mutex_def retry_eintr.simps oob_ioctl_eq)
  have g: "gate_of w1 ?a = (gate_of w ?a)\<lparr>g_owner := evl_current w\<rparr>" and c: "evl_current w1 = evl_current w"
    using assms(12,13) by (simp_all add: w1_def sys_def gate_of_def)
  have "try_lock S m w1 = (case relock S ?a w1 of (r, w') \<Rightarrow> ((r, m), w'))"
    using assms g c by (intro try_lock_mine) simp_all
  also have "relock S ?a w1 = (0, upd_gate ?a (\<lambda>g. g\<lparr>g_nesting := 1\<rparr>) w1)"
    using assms(8-10) g by (simp add: relock_def Let_def nesting_inc_def) (simp add: upd_gate_def upd_mon_def gate_of_def)
  finally have 2: "evl_lock_mutex S m w1 = Some ((0, m), upd_gate ?a (\<lambda>g. g\<lparr>g_nesting := 1\<rparr>) w1)"
    by (simp add: evl_lock_mutex_def evl_timedlock_mutex_def ENODATA_def)
  from 1 2 g c show ?thesis by (auto simp: upd_gate_def upd_mon_def gate_of_def)
qed

section \<open>What can fail\<close>

lemma set_pp_back:
  assumes "pp_pending (win (shr w) u) = h"
  shows "set_pp_pending u h (set_pp_pending u f w) = w"
proof -
  have "(win (shr w) u)\<lparr>pp_pending := h\<rparr> = win (shr w) u" using assms by auto
  then show ?thesis by (simp add: set_pp_pending_def)
qed

lemma gate_of_pp [simp]: "gate_of (set_pp_pending u f w) a = gate_of w a"
  by (simp add: gate_of_def set_pp_pending_def)

text \<open>A request made of the kernel after a lazy ceiling was set, seen from the world before.\<close>

lemma attempts_pp:
  assumes "attempts efd req (set_pp_pending u f w) r"
  shows "attempts efd req w r"
proof -
  have l: "log (set_pp_pending u f w) = log w" by (simp add: set_pp_pending_def)
  have "same_process w (set_pp_pending u f w)" by (simp add: same_process_def set_pp_pending_def)
  from same_process_trans[OF this] assms show ?thesis unfolding attempts_def l by blast
qed

text \<open>
  A request the library refuses by itself, with the error: the thread is not attached, the mutex is not an active one, its owner
  locks it again while it is not recursive, or counts already as many locks as the count can hold.
\<close>

definition lock_refusal :: "'k system \<Rightarrow> evl_mutex \<Rightarrow> 'k world \<Rightarrow> int option" where
  "lock_refusal S m w =
     (let g = gate_of w (ma_state (m_active m)) in
      if evl_current w = EVL_NO_HANDLE S then Some (- EPERM)
      else if mutex_magic m \<noteq> MUTEX_ACTIVE_MAGIC then Some (- EINVAL)
      else if evl_get_index S (g_owner g) \<noteq> evl_current w then None
      else if \<not> g_recursive g then Some (- EDEADLK)
      else if g_nesting g = NESTING_RANGE S - 1 then Some (- EAGAIN)
      else None)"

text \<open>What \<^verbatim>\<open>try_lock\<close> leads to, when nobody interferes.\<close>

lemma relock_cases:
  assumes "g_nesting (gate_of w a) < NESTING_RANGE S"
  shows "relock S a w = (if \<not> g_recursive (gate_of w a) then (- EDEADLK, w)
    else if g_nesting (gate_of w a) = NESTING_RANGE S - 1 then (- EAGAIN, w)
    else (0, upd_gate a (\<lambda>g. g\<lparr>g_nesting := nesting_inc S (g_nesting g)\<rparr>) w))"
proof -
  have "nesting_inc S (g_nesting (gate_of w a)) \<noteq> 0" if "g_nesting (gate_of w a) \<noteq> NESTING_RANGE S - 1"
    using assms that by (simp add: nesting_inc_def)
  then show ?thesis
    using assms relock_errors[of w a S] by (auto simp: relock_def Let_def)
qed

lemma try_lock_cases:
  assumes "alone S" and "evl_get_index S (EVL_NO_HANDLE S) = EVL_NO_HANDLE S" and "mutex_magic m \<noteq> MUTEX_UNINIT_MAGIC"
    and "g_nesting (gate_of w (ma_state (m_active m))) < NESTING_RANGE S" and "try_lock S m w = ((ret, m'), w')"
  shows "m' = m \<and> (case lock_refusal S m w of Some e \<Rightarrow> ret = e \<and> w' = w
    | None \<Rightarrow> ret = 0 \<or> ret = - ENODATA \<and> (w' = w \<or> (\<exists>u f. w' = set_pp_pending u f w)))"
proof (cases "evl_current w = EVL_NO_HANDLE S \<or> mutex_magic m \<noteq> MUTEX_ACTIVE_MAGIC")
  case True
  then show ?thesis using assms(3,5)
    by (auto simp: try_lock_def lock_refusal_def evl_get_current_def Let_def split: if_splits)
next
  case False
  define a where "a = ma_state (m_active m)"
  define owner where "owner = g_owner (gate_of w a)"
  let ?r = "case lock_refusal S m w of Some e \<Rightarrow> ret = e \<and> w' = w
    | None \<Rightarrow> ret = 0 \<or> ret = - ENODATA \<and> (w' = w \<or> (\<exists>u f. w' = set_pp_pending u f w))"
  have act: "try_lock_active S m (evl_current w) w = (ret, w')" "m' = m"
    using False assms(3,5) by (auto simp: try_lock_def evl_get_current_def Let_def split: prod.splits if_splits)
  have refusal: "lock_refusal S m w = (if evl_get_index S owner \<noteq> evl_current w then None
      else if \<not> g_recursive (gate_of w a) then Some (- EDEADLK)
      else if g_nesting (gate_of w a) = NESTING_RANGE S - 1 then Some (- EAGAIN) else None)"
    using False by (simp add: lock_refusal_def a_def owner_def Let_def)
  note relock = relock_cases[of w a S, OF assms(4)[folded a_def]]
  have cas: "fast_lock_mutex S a (evl_current w) v =
      (if owner = EVL_NO_HANDLE S then (0, v\<lparr>shr := aput (Owner a) (evl_current w) (shr v)\<rparr>)
       else (if evl_get_index S owner = evl_current w then - EBUSY else - EAGAIN, v))" if "gate_of v a = gate_of w a" for v
    using assms(1) that by (simp add: fast_lock_mutex_def atomic_defs alone_def Let_def owner_def gate_of_def split_beta)
  have slow: ?r if "try_lock_slow S a (evl_current w) w = (ret, w')"
    using that assms(1) relock refusal
    by (auto simp: try_lock_slow_def is_mutex_owner_def atomic_defs alone_def Let_def owner_def gate_of_def split: if_splits)
  have fast: ?r if "try_lock_fast S a (evl_current w) p v = (ret, w')" and "gate_of v a = gate_of w a"
      and "v = w \<or> (\<exists>u f. v = set_pp_pending u f w)"
      and "(case p of None \<Rightarrow> v | Some u \<Rightarrow> set_pp_pending u (EVL_NO_HANDLE S) v) = w" for p v
  proof (cases "owner = EVL_NO_HANDLE S")
    case True
    then have "evl_get_index S owner \<noteq> evl_current w" using False assms(2) by auto
    with True that(1) cas[OF that(2)] refusal show ?thesis by (auto simp: try_lock_fast_def Let_def)
  next
    case taken: False
    show ?thesis
    proof (cases "evl_get_index S owner = evl_current w")
      case True
      with taken that(1,4) cas[OF that(2)] have "relock S a w = (ret, w')"
        by (simp add: try_lock_fast_def Let_def EBUSY_def)
      with relock refusal True show ?thesis by (auto split: if_splits)
    next
      case False
      with taken that(1,3) cas[OF that(2)] refusal show ?thesis
        by (auto simp: try_lock_fast_def Let_def EBUSY_def EAGAIN_def)
    qed
  qed
  have ?r
  proof (cases "evl_get_current_mode S w AND (EVL_T_INBAND S OR EVL_T_WEAK S OR EVL_T_WOLI S) = 0")
    case True
    show ?thesis
    proof (cases "ma_proto (m_active m) = EVL_GATE_PP S")
      case pp: True
      let ?u = "evl_get_current_window w"
      show ?thesis
      proof (cases "pp_pending (win (shr w) ?u) = EVL_NO_HANDLE S")
        case idle: True
        have "try_lock_fast S a (evl_current w) (Some ?u) (set_pp_pending ?u (ma_fundle (m_active m)) w) = (ret, w')"
          using act(1) True pp idle by (simp add: try_lock_active_def a_def Let_def)
        then show ?thesis by (rule fast) (auto simp: set_pp_back[OF idle])
      next
        case False
        with act(1) True pp show ?thesis by (intro slow) (simp add: try_lock_active_def a_def Let_def)
      qed
    next
      case False
      with act(1) True have "try_lock_fast S a (evl_current w) None w = (ret, w')" by (simp add: try_lock_active_def a_def Let_def)
      then show ?thesis by (rule fast) simp_all
    qed
  next
    case False
    with act(1) show ?thesis by (intro slow) (auto simp: try_lock_active_def a_def Let_def)
  qed
  with act(2) show ?thesis by simp
qed

text \<open>A request to the kernel that failed in the end, after any number of interruptions.\<close>

definition kernel_failed :: "int \<Rightarrow> ioctl_req \<Rightarrow> 'k world \<Rightarrow> int \<Rightarrow> 'k world \<Rightarrow> bool" where
  "kernel_failed efd req w ret w' \<longleftrightarrow> (\<exists>r. attempts efd req w (r, w') \<and> k_ret r \<noteq> 0 \<and> ret = - errno w')"

lemma retry_failed:
  assumes "retry_eintr S efd req v = Some (r, w')" and "v = w \<or> (\<exists>u f. v = set_pp_pending u f w)" and "k_ret r \<noteq> 0"
  shows "kernel_failed efd req w (- errno w') w'"
  using retry_attempts[OF assms(1)] assms(2,3) attempts_pp unfolding kernel_failed_def by blast

lemma unlock_failed:
  assumes "alone S" and "mutex_magic m = MUTEX_ACTIVE_MAGIC" and "evl_unlock_mutex S m w = (ret, w')" and "ret \<noteq> 0"
    and "evl_get_index S (g_owner (gate_of w (ma_state (m_active m)))) = evl_current w"
  shows "\<exists>r. sys S (Sys_oob_ioctl (ma_efd (m_active m)) EVL_MONIOC_EXIT) w = (r, w') \<and> k_ret r \<noteq> 0 \<and> ret = - errno w'"
proof -
  have "(ret, w') = ret_errno (sys S (Sys_oob_ioctl (ma_efd (m_active m)) EVL_MONIOC_EXIT) w)"
    using assms
    by (auto simp: evl_unlock_mutex_def is_mutex_owner_def fast_unlock_mutex_def atomic_defs alone_def Let_def gate_of_def
        evl_get_current_def oob_ioctl_eq split: if_splits)
  with assms(4) show ?thesis
    by (cases "sys S (Sys_oob_ioctl (ma_efd (m_active m)) EVL_MONIOC_EXIT) w") (auto simp: ret_errno_def split: if_splits)
qed

text \<open>
  C32. How the operations fail on a mutex which was initialised, of any protocol, while no other thread interferes. A lock, timed or tried, is refused exactly
  when the thread is not attached (\<^verbatim>\<open>-EPERM\<close>), the mutex is not active (\<^verbatim>\<open>-EINVAL\<close>), or its owner locks it again and it is
  not recursive (\<^verbatim>\<open>-EDEADLK\<close>) or its count is at its limit (\<^verbatim>\<open>-EAGAIN\<close>); then nothing changes. An unlock is refused when the mutex is not active
  or the thread does not own it (\<^verbatim>\<open>-EPERM\<close>), and nothing changes either. Every other error is the answer of the kernel to a request that was made.
\<close>

theorem mutex_errors:
  assumes "alone S" and "evl_get_index S (EVL_NO_HANDLE S) = EVL_NO_HANDLE S" and "mutex_magic m \<noteq> MUTEX_UNINIT_MAGIC"
    and "g_nesting (gate_of w (ma_state (m_active m))) < NESTING_RANGE S"
  shows "(case lock_refusal S m w of
      Some e \<Rightarrow> evl_timedlock_mutex S m timeout w = Some ((e, m), w) \<and> evl_trylock_mutex S m w = Some ((e, m), w)
    | None \<Rightarrow>
        (\<forall>ret m' w'. evl_timedlock_mutex S m timeout w = Some ((ret, m'), w') \<and> ret \<noteq> 0 \<longrightarrow>
           m' = m \<and> kernel_failed (ma_efd (m_active m)) (EVL_MONIOC_ENTER timeout) w ret w') \<and>
        (\<forall>ret m' w'. evl_trylock_mutex S m w = Some ((ret, m'), w') \<and> ret \<noteq> 0 \<longrightarrow>
           m' = m \<and> kernel_failed (ma_efd (m_active m)) EVL_MONIOC_TRYENTER w ret w')) \<and>
    (if mutex_magic m \<noteq> MUTEX_ACTIVE_MAGIC then evl_unlock_mutex S m w = (- EINVAL, w)
     else if evl_get_index S (g_owner (gate_of w (ma_state (m_active m)))) \<noteq> evl_current w then evl_unlock_mutex S m w = (- EPERM, w)
     else \<forall>ret w'. evl_unlock_mutex S m w = (ret, w') \<and> ret \<noteq> 0 \<longrightarrow>
       (\<exists>r. sys S (Sys_oob_ioctl (ma_efd (m_active m)) EVL_MONIOC_EXIT) w = (r, w') \<and> k_ret r \<noteq> 0 \<and> ret = - errno w'))"
proof (rule conjI)
  obtain ret m1 w1 where t: "try_lock S m w = ((ret, m1), w1)" by (metis surj_pair)
  note c = try_lock_cases[OF assms t]
  have e: "e \<noteq> - ENODATA" if "lock_refusal S m w = Some e" for e
    using that by (auto simp: lock_refusal_def Let_def EPERM_def EINVAL_def EDEADLK_def EAGAIN_def ENODATA_def split: if_splits)
  show "case lock_refusal S m w of
      Some e \<Rightarrow> evl_timedlock_mutex S m timeout w = Some ((e, m), w) \<and> evl_trylock_mutex S m w = Some ((e, m), w)
    | None \<Rightarrow>
        (\<forall>ret m' w'. evl_timedlock_mutex S m timeout w = Some ((ret, m'), w') \<and> ret \<noteq> 0 \<longrightarrow>
           m' = m \<and> kernel_failed (ma_efd (m_active m)) (EVL_MONIOC_ENTER timeout) w ret w') \<and>
        (\<forall>ret m' w'. evl_trylock_mutex S m w = Some ((ret, m'), w') \<and> ret \<noteq> 0 \<longrightarrow>
           m' = m \<and> kernel_failed (ma_efd (m_active m)) EVL_MONIOC_TRYENTER w ret w')"
  proof (cases "lock_refusal S m w")
    case (Some e)
    with c e t show ?thesis by (simp add: evl_timedlock_mutex_def evl_trylock_mutex_def)
  next
    case None
    with c t show ?thesis
      by (auto simp: evl_timedlock_mutex_def evl_trylock_mutex_def ENODATA_def split: if_splits intro!: retry_failed)
  qed
  show "if mutex_magic m \<noteq> MUTEX_ACTIVE_MAGIC then evl_unlock_mutex S m w = (- EINVAL, w)
     else if evl_get_index S (g_owner (gate_of w (ma_state (m_active m)))) \<noteq> evl_current w then evl_unlock_mutex S m w = (- EPERM, w)
     else \<forall>ret w'. evl_unlock_mutex S m w = (ret, w') \<and> ret \<noteq> 0 \<longrightarrow>
       (\<exists>r. sys S (Sys_oob_ioctl (ma_efd (m_active m)) EVL_MONIOC_EXIT) w = (r, w') \<and> k_ret r \<noteq> 0 \<and> ret = - errno w')"
    using unlock_failed[OF assms(1)] assms(1)
    by (auto simp: evl_unlock_mutex_def is_mutex_owner_def atomic_defs alone_def Let_def evl_get_current_def gate_of_def)
qed

section \<open>Witnesses\<close>

definition sample_mutex :: evl_mutex where
  "sample_mutex = (EVL_MUTEX_INITIALIZER (sample_system no_fail) None 0 0 0)\<lparr>mutex_magic := MUTEX_ACTIVE_MAGIC,
     m_active := \<lparr>ma_fundle = 7, ma_state = 0x1040, ma_efd = 4, ma_monitor = 1, ma_proto = 0\<rparr>\<rparr>"

definition mutex_world :: "u32 \<Rightarrow> nat world" where
  "mutex_world h = upd_gate 0x1040 (\<lambda>g. g\<lparr>g_recursive := True, g_owner := h\<rparr>) sample_world"

lemma sample_mutex_simps [simp]: "mutex_magic sample_mutex = MUTEX_ACTIVE_MAGIC" "ma_state (m_active sample_mutex) = 0x1040"
  "ma_proto (m_active sample_mutex) = 0" "ma_efd (m_active sample_mutex) = 4"
  by (simp_all add: sample_mutex_def EVL_MUTEX_INITIALIZER_def)

lemma mutex_world_simps [simp]: "gate_of (mutex_world h) 0x1040 = \<lparr>g_owner = h, g_ceiling = 0, g_recursive = True, g_nesting = 0\<rparr>"
  "evl_current (mutex_world h) = 5" "log (mutex_world h) = []" "errno (mutex_world h) = 0"
  by (simp_all add: mutex_world_def) (simp_all add: upd_gate_def upd_mon_def gate_of_def sample_world_def sample_shared_def idle_monitor_def)

lemma mutex_world_ok: "mutex_ok (sample_system no_fail, sample_mutex) (mutex_world 0)"
  by (simp add: mutex_ok_def sample_alone mutex_mine_def evl_get_current_mode_def)
    (simp add: mutex_world_def upd_gate_def upd_mon_def sample_world_def sample_shared_def sample_system_def idle_monitor_def)

theorem mutex_refines_counter_witness:
  "\<exists>w'. run_ops (mutex_lock (sample_system no_fail, sample_mutex)) (mutex_unlock (sample_system no_fail, sample_mutex))
      [Put, Put, Get, Get, Get] (mutex_world 0) = Some ([0, 0, 0, 0, - EPERM], w') \<and>
    g_owner (gate_of w' 0x1040) = 0"
proof -
  have "mutex_val (sample_system no_fail, sample_mutex) (mutex_world 0) = 0"
    by (simp add: mutex_val_def mutex_mine_def)
  with mutex_refines_counter[OF mutex_world_ok, of "[Put, Put, Get, Get, Get]"] show ?thesis
    by (auto simp del: run_ops.simps)
qed

theorem mutex_errors_witness:
  "evl_unlock_mutex (sample_system no_fail) sample_mutex (mutex_world 9) = (- EPERM, mutex_world 9)"
proof -
  have "mutex_magic sample_mutex \<noteq> MUTEX_UNINIT_MAGIC" by (simp add: MUTEX_ACTIVE_MAGIC_def MUTEX_UNINIT_MAGIC_def)
  from mutex_errors[OF sample_alone _ this, of no_fail "mutex_world 9"] show ?thesis by simp
qed

theorem lock_mutex_contended_witness:
  "\<exists>ret w'. evl_timedlock_mutex (sample_system no_fail) sample_mutex None (mutex_world 9) = Some ((ret, sample_mutex), w') \<and>
    ret \<noteq> - EINTR"
proof -
  let ?S = "sample_system no_fail"
  have "k_ret (fst (sys ?S (Sys_oob_ioctl 4 (EVL_MONIOC_ENTER None)) w)) = 0" for w
    by (simp add: sys_def sample_system_def sample_kernel_def no_fail_def reply_def)
  then show ?thesis
    using lock_mutex_contended[OF sample_alone, of sample_mutex no_fail "mutex_world 9" None 0] by (auto simp: split_beta)
qed

end
