(* ===== verification/Evl_Sem.thy ===== *)
theory Evl_Sem
  imports Evl_Monitor
begin

text \<open>
  \<^verbatim>\<open>lib/sem.c\<close>: semaphores.  The count is a word shared with the kernel; the fast paths change it
  with atomic operations, between which the other threads may act, and the slow paths go through
  the kernel.  A loop of compare-and-exchange is a partial function, \<open>None\<close> when interference makes
  it retry for ever.
\<close>

record evl_sem =
  sem_magic :: u32
  sem_active :: active_arm
  sem_uninit :: uninit_arm

definition SEM_UNINIT_MAGIC :: u32 where "SEM_UNINIT_MAGIC = 0xed15ed15"
definition SEM_ACTIVE_MAGIC :: u32 where "SEM_ACTIVE_MAGIC = 0xcb13cb13"
definition SEM_DEAD_MAGIC :: u32 where "SEM_DEAD_MAGIC = 0"

definition EVL_SEM_INITIALIZER :: "string \<Rightarrow> int \<Rightarrow> u32 \<Rightarrow> u32 \<Rightarrow> evl_sem" where
  "EVL_SEM_INITIALIZER name clockfd initval flags =
     \<lparr>sem_magic = SEM_UNINIT_MAGIC, sem_active = no_arm,
      sem_uninit = \<lparr>u_name = name, u_clockfd = clockfd, u_initval = initval, u_flags = flags\<rparr>\<rparr>"

definition evl_create_sem :: "'k system \<Rightarrow> evl_sem \<Rightarrow> int \<Rightarrow> u32 \<Rightarrow> u32 \<Rightarrow> string option \<Rightarrow> 'k world \<Rightarrow>
    (int \<times> evl_sem) \<times> 'k world" where
  "evl_create_sem S sem clockfd initval flags fmt w =
     (if shared_memory w = NULL then ((- ENXIO, sem), w)
      else
        let ((efd, eids), w) =
              create_monitor S (EVL_MONITOR_EVENT S) (EVL_EVENT_COUNT S) clockfd initval flags fmt w
        in if efd < 0 then ((efd, sem), w)
        else
          let state = monitor_state w eids;
              w = atomic_store S (Value state) initval w
          in ((efd, sem\<lparr>sem_active := \<lparr>a_fundle = eid_fundle eids, a_state = state, a_efd = efd\<rparr>,
                        sem_magic := SEM_ACTIVE_MAGIC\<rparr>), w))"

definition evl_open_sem :: "'k system \<Rightarrow> evl_sem \<Rightarrow> string \<Rightarrow> 'k world \<Rightarrow> (int \<times> evl_sem) \<times> 'k world" where
  "evl_open_sem S sem fmt w =
     (if shared_memory w = NULL then ((- ENXIO, sem), w)
      else let (efd, w) = evl_open_element_vargs S (dev S EVL_MONITOR_DEV) fmt w
      in if efd < 0 then ((efd, sem), w)
      else let (r, w) = ioctl S efd EVL_MONIOC_BIND w; bind = k_out r
      in if k_ret r \<noteq> 0 then
           let ret = - errno w; (_, w) = close_fd S efd w in ((ret, sem), w)
      else if o_type bind \<noteq> EVL_MONITOR_EVENT S \<or> o_protocol bind \<noteq> EVL_EVENT_COUNT S then
        let (_, w) = close_fd S efd w in ((- EINVAL, sem), w)
      else
        let state = monitor_state w (o_eids bind)
        in ((efd, sem\<lparr>sem_active := \<lparr>a_fundle = eid_fundle (o_eids bind), a_state = state, a_efd = efd\<rparr>,
                      sem_magic := SEM_ACTIVE_MAGIC\<rparr>), w))"

definition evl_close_sem :: "'k system \<Rightarrow> evl_sem \<Rightarrow> 'k world \<Rightarrow> (int \<times> evl_sem) \<times> 'k world" where
  "evl_close_sem S sem w =
     (if sem_magic sem = SEM_UNINIT_MAGIC then ((0, sem), w)
      else if sem_magic sem \<noteq> SEM_ACTIVE_MAGIC then ((- EINVAL, sem), w)
      else let (ret, w) = close_fd S (a_efd (sem_active sem)) w
      in if ret \<noteq> 0 then ((- errno w, sem), w)
      else ((0, sem\<lparr>sem_active := (sem_active sem)\<lparr>a_fundle := EVL_NO_HANDLE S, a_state := NULL\<rparr>,
                    sem_magic := SEM_DEAD_MAGIC\<rparr>), w))"

definition sem_check_sanity :: "'k system \<Rightarrow> evl_sem \<Rightarrow> 'k world \<Rightarrow> (int \<times> evl_sem) \<times> 'k world" where
  "sem_check_sanity S sem w =
     (if sem_magic sem = SEM_UNINIT_MAGIC then
        let ((efd, sem), w) = evl_create_sem S sem (u_clockfd (sem_uninit sem)) (u_initval (sem_uninit sem))
                                (u_flags (sem_uninit sem)) (Some (u_name (sem_uninit sem))) w
        in ((if efd < 0 then efd else 0, sem), w)
      else ((if sem_magic sem \<noteq> SEM_ACTIVE_MAGIC then - EINVAL else 0, sem), w))"

partial_function (option) try_get_loop :: "'k system \<Rightarrow> addr \<Rightarrow> s32 \<Rightarrow> 'k world \<Rightarrow> (int \<times> 'k world) option" where
  "try_get_loop S state val w =
     (if sint val \<le> 0 then Some (- EAGAIN, w)
      else case compare_exchange_weak S (Value state) val (val - 1) w of
        ((done, val), w) \<Rightarrow> if done then Some (0, w) else try_get_loop S state val w)"

definition try_get :: "'k system \<Rightarrow> addr \<Rightarrow> 'k world \<Rightarrow> (int \<times> 'k world) option" where
  "try_get S state w = (let (val, w) = atomic_load S (Value state) w in try_get_loop S state val w)"

definition evl_timedget_sem :: "'k system \<Rightarrow> evl_sem \<Rightarrow> timespec option \<Rightarrow> 'k world \<Rightarrow>
    ((int \<times> evl_sem) \<times> 'k world) option" where
  "evl_timedget_sem S sem timeout w =
     (if evl_get_current w = EVL_NO_HANDLE S then Some ((- EPERM, sem), w)
      else let ((ret, sem), w) = sem_check_sanity S sem w
      in if ret \<noteq> 0 then Some ((ret, sem), w)
      else
        let mode = evl_get_current_mode S w;
            slow = (\<lambda>w. let req = \<lparr>wr_timeout = timeout, wr_gatefd = - 1, wr_value = 0\<rparr>;
                           (ret, w) = ret_errno (oob_ioctl S (a_efd (sem_active sem)) (EVL_MONIOC_WAIT req) w)
                       in ((ret, sem), w))
        in if mode AND EVL_T_INBAND S = 0 \<or> mode AND EVL_T_WEAK S \<noteq> 0 then
             Option.bind (try_get S (a_state (sem_active sem)) w) (\<lambda>(ret, w).
               if ret \<noteq> - EAGAIN then Some ((ret, sem), w) else Some (slow w))
           else Some (slow w))"

definition evl_get_sem :: "'k system \<Rightarrow> evl_sem \<Rightarrow> 'k world \<Rightarrow> ((int \<times> evl_sem) \<times> 'k world) option" where
  "evl_get_sem S sem w = evl_timedget_sem S sem (Some zerotime) w"

definition evl_tryget_sem :: "'k system \<Rightarrow> evl_sem \<Rightarrow> 'k world \<Rightarrow> ((int \<times> evl_sem) \<times> 'k world) option" where
  "evl_tryget_sem S sem w =
     (let ((ret, sem), w) = sem_check_sanity S sem w
      in if ret \<noteq> 0 then Some ((ret, sem), w)
      else map_option (\<lambda>(ret, w). ((ret, sem), w)) (try_get S (a_state (sem_active sem)) w))"

definition is_polled :: "'k system \<Rightarrow> addr \<Rightarrow> 'k world \<Rightarrow> bool \<times> 'k world" where
  "is_polled S state w = (let (v, w) = atomic_load S (Pollrefs state) w in (v \<noteq> 0, w))"

text \<open>The label \<^verbatim>\<open>slow_path\<close>.\<close>

definition put_slow_path :: "'k system \<Rightarrow> int \<Rightarrow> s32 \<Rightarrow> 'k world \<Rightarrow> int \<times> 'k world" where
  "put_slow_path S efd sigval w = ret_errno (event_ioctl S efd (EVL_MONIOC_SIGNAL sigval) w)"

text \<open>The loop of \<^verbatim>\<open>evl_put_sem\<close>: whether it ends by adding one, or with a negative count.\<close>

partial_function (option) put_loop :: "'k system \<Rightarrow> addr \<Rightarrow> s32 \<Rightarrow> 'k world \<Rightarrow> (bool \<times> 'k world) option" where
  "put_loop S state val w =
     (case compare_exchange_weak S (Value state) val (val + 1) w of
        ((done, val), w) \<Rightarrow>
          if done then Some (True, w)
          else if sint val < 0 then Some (False, w)
          else put_loop S state val w)"

definition evl_put_sem :: "'k system \<Rightarrow> evl_sem \<Rightarrow> 'k world \<Rightarrow> ((int \<times> evl_sem) \<times> 'k world) option" where
  "evl_put_sem S sem w =
     (let ((ret, sem), w) = sem_check_sanity S sem w
      in if ret \<noteq> 0 then Some ((ret, sem), w)
      else
        let state = a_state (sem_active sem);
            slow = (\<lambda>sigval w. let (ret, w) = put_slow_path S (a_efd (sem_active sem)) sigval w in ((ret, sem), w));
            (val, w) = atomic_load S (Value state) w;
            (polled, w) = (if sint val < 0 then (True, w) else is_polled S state w)
        in if sint val < 0 \<or> polled then Some (slow 1 w)
        else
          Option.bind (put_loop S state val w) (\<lambda>(added, w).
            if \<not> added then Some (slow 1 w)
            else
              let (polled, w) = is_polled S state w
              in if polled then Some (slow 0 w) else Some ((0, sem), w)))"

definition evl_flush_sem :: "'k system \<Rightarrow> evl_sem \<Rightarrow> 'k world \<Rightarrow> (int \<times> evl_sem) \<times> 'k world" where
  "evl_flush_sem S sem w =
     (let ((ret, sem), w) = sem_check_sanity S sem w
      in if ret \<noteq> 0 then ((ret, sem), w)
      else let (ret, w) = ret_errno (event_ioctl S (a_efd (sem_active sem)) (EVL_MONIOC_BROADCAST 1) w)
      in ((ret, sem), w))"

text \<open>The second result is what \<^verbatim>\<open>*r_val\<close> is set to, when it is.\<close>

definition evl_peek_sem :: "'k system \<Rightarrow> evl_sem \<Rightarrow> 'k world \<Rightarrow> (int \<times> s32 option) \<times> 'k world" where
  "evl_peek_sem S sem w =
     (if sem_magic sem \<noteq> SEM_ACTIVE_MAGIC then ((- EINVAL, None), w)
      else let (v, w) = atomic_load S (Value (a_state (sem_active sem))) w in ((0, Some v), w))"

end
