(* ===== verification/Evl_Sem_Correct.thy ===== *)
theory Evl_Sem_Correct
  imports Evl_Sem Evl_Atomic Evl_Sample Evl_Counter
begin

text \<open>
  Semaphores are correct: getting a unit without waiting is atomic under any interference of the other
  threads, a semaphore is a counter, and the paths of a get with a timeout.
\<close>

section \<open>Getting without waiting\<close>

lemma sem_sane: "sem_magic sem = SEM_ACTIVE_MAGIC \<Longrightarrow> sem_check_sanity S sem w = ((0, sem), w)"
  by (simp add: sem_check_sanity_def SEM_ACTIVE_MAGIC_def SEM_UNINIT_MAGIC_def)

text \<open>
  What an attempt to get a unit does: it finds a positive count and takes one from it, at one
  point of time, or it finds none.  All the rest is done by the other threads.
\<close>

definition got :: "'k system \<Rightarrow> addr \<Rightarrow> 'k world \<Rightarrow> int \<times> 'k world \<Rightarrow> bool" where
  "got S a w r \<longleftrightarrow> (\<exists>sh. (others_step S)\<^sup>*\<^sup>* (shr w) sh \<and>
     (fst r = 0 \<and> 0 < sint (aget (Value a) sh) \<and> snd r = w\<lparr>shr := aput (Value a) (aget (Value a) sh - 1) sh\<rparr> \<or>
      fst r = - EAGAIN \<and> sint (aget (Value a) sh) \<le> 0 \<and> snd r = w\<lparr>shr := sh\<rparr>))"

lemma got_later:
  assumes "got S a (w\<lparr>shr := sh\<rparr>) r" and "(others_step S)\<^sup>*\<^sup>* (shr w) sh"
  shows "got S a w r"
  using assms unfolding got_def by (auto intro: rtranclp_trans)

lemma try_get_loop_got:
  assumes "try_get_loop S a val w = Some r"
  shows "val = aget (Value a) (shr w) \<longrightarrow> got S a w r"
proof (rule try_get_loop.raw_induct[OF _ assms, where P = "\<lambda>S a val w r. val = aget (Value a) (shr w) \<longrightarrow> got S a w r"], intro impI)
  fix try_get_loop S a val and w :: "'b world" and r
  assume IH: "\<And>S a val w r. try_get_loop S a val w = Some r \<Longrightarrow> val = aget (Value a) (shr w) \<longrightarrow> got S a w r"
    and val: "val = aget (Value a) (shr w)"
    and e: "(if sint val \<le> 0 then Some (- EAGAIN, w)
      else case compare_exchange_weak S (Value a) val (val - 1) w of
        ((done, val), w) \<Rightarrow> if done then Some (0, w) else try_get_loop S a val w) = Some r"
  let ?sh = "snd (others S (shr w))"
  consider (none) "sint val \<le> 0" | (taken) "0 < sint val" "aget (Value a) ?sh = val" "\<not> fst (others S (shr w))"
    | (again) "0 < sint val" "\<not> (aget (Value a) ?sh = val \<and> \<not> fst (others S (shr w)))" by linarith
  then show "got S a w r"
  proof cases
    case none
    with e val show ?thesis by (auto simp: got_def intro!: exI[of _ "shr w"])
  next
    case taken
    with e have "r = (0, w\<lparr>shr := aput (Value a) (val - 1) ?sh\<rparr>)"
      by (simp add: atomic_defs Let_def split_beta del: aput.simps aget.simps)
    with taken others_once[of S "shr w"] show ?thesis unfolding got_def by (intro exI[of _ ?sh]) simp
  next
    case again
    with e have "try_get_loop S a (aget (Value a) ?sh) (w\<lparr>shr := ?sh\<rparr>) = Some r"
      by (simp add: atomic_defs Let_def split_beta del: aput.simps aget.simps split: if_split_asm)
    from got_later[OF IH[OF this, THEN mp] others_once] show ?thesis by simp
  qed
qed

text \<open>
  C8. \<^verbatim>\<open>evl_tryget_sem\<close> is atomic under any interference, spurious failures of the weak exchange included: when
  it returns, it either took one unit from a positive count and nothing else, or it returns \<^verbatim>\<open>-EAGAIN\<close>, having
  seen the count at zero or below and changed nothing; no unit is taken which is not there.
\<close>

theorem tryget_sem_atomic:
  assumes "evl_tryget_sem S sem w = Some ((ret, sem'), w')" and "sem_magic sem = SEM_ACTIVE_MAGIC"
  shows "sem' = sem \<and> (\<exists>sh. (others_step S)\<^sup>*\<^sup>* (shr w) sh \<and>
     (let v = aget (Value (a_state (sem_active sem))) sh in
      ret = 0 \<and> 0 < sint v \<and> w' = w\<lparr>shr := aput (Value (a_state (sem_active sem))) (v - 1) sh\<rparr> \<or>
      ret = - EAGAIN \<and> sint v \<le> 0 \<and> w' = w\<lparr>shr := sh\<rparr>))"
proof -
  let ?a = "a_state (sem_active sem)" and ?sh = "snd (others S (shr w))"
  from assms have t: "try_get_loop S ?a (aget (Value ?a) ?sh) (w\<lparr>shr := ?sh\<rparr>) = Some (ret, w')" and "sem' = sem"
    by (auto simp: evl_tryget_sem_def sem_sane try_get_def atomic_defs Let_def split_beta simp del: aget.simps)
  with got_later[OF try_get_loop_got[OF t, THEN mp] others_once] show ?thesis by (simp add: got_def Let_def)
qed

section \<open>Semaphores as counters\<close>

lemma sint_inc:
  fixes v :: s32
  assumes "0 \<le> sint v" and "sint v < 2 ^ 31 - 1"
  shows "sint (v + 1) = sint v + 1"
  using assms by (simp add: sint_word_ariths signed_take_bit_int_eq_self)

definition sem_val :: "'k system \<times> evl_sem \<Rightarrow> 'k world \<Rightarrow> nat" where
  "sem_val p w = nat (sint (aget (Value (a_state (sem_active (snd p)))) (shr w)))"

definition sem_ok :: "'k system \<times> evl_sem \<Rightarrow> 'k world \<Rightarrow> bool" where
  "sem_ok p w \<longleftrightarrow> alone (fst p) \<and> sem_magic (snd p) = SEM_ACTIVE_MAGIC \<and>
     aget (Pollrefs (a_state (sem_active (snd p)))) (shr w) = 0 \<and>
     0 \<le> sint (aget (Value (a_state (sem_active (snd p)))) (shr w))"

definition sem_put :: "'k system \<times> evl_sem \<Rightarrow> 'k world \<Rightarrow> (int \<times> 'k world) option" where
  "sem_put p w = map_option (\<lambda>((ret, _), w). (ret, w)) (evl_put_sem (fst p) (snd p) w)"

definition sem_get :: "'k system \<times> evl_sem \<Rightarrow> 'k world \<Rightarrow> (int \<times> 'k world) option" where
  "sem_get p w = map_option (\<lambda>((ret, _), w). (ret, w)) (evl_tryget_sem (fst p) (snd p) w)"

lemma sem_put_alone:
  assumes "sem_ok (S, sem) w"
  shows "evl_put_sem S sem w = Some ((0, sem),
    w\<lparr>shr := aput (Value (a_state (sem_active sem))) (aget (Value (a_state (sem_active sem))) (shr w) + 1) (shr w)\<rparr>)"
  using assms
  by (simp add: evl_put_sem_def sem_ok_def sem_sane alone_def atomic_defs Let_def is_polled_def put_loop.simps)

lemma sem_get_alone:
  assumes "sem_ok (S, sem) w"
  shows "evl_tryget_sem S sem w = Some (if 0 < sem_val (S, sem) w then ((0, sem),
      w\<lparr>shr := aput (Value (a_state (sem_active sem))) (aget (Value (a_state (sem_active sem))) (shr w) - 1) (shr w)\<rparr>)
    else ((- EAGAIN, sem), w))"
  using assms
  by (simp add: evl_tryget_sem_def sem_ok_def sem_sane sem_val_def try_get_def alone_def atomic_defs Let_def try_get_loop.simps)

lemma sint_dec:
  fixes v :: s32
  assumes "0 < sint v"
  shows "sint (v - 1) = sint v - 1"
  using assms sint_lt[of v] by (simp add: sint_word_ariths signed_take_bit_int_eq_self)

interpretation sem: counter "\<lambda>(p, l) w. sem_ok p w \<and> log w = l" "\<lambda>(p, l). sem_val p" "\<lambda>_. 2 ^ 31 - 1" "- EAGAIN"
  "\<lambda>(p, l). sem_put p" "\<lambda>(p, l). sem_get p"
proof
  fix p :: "('k system \<times> evl_sem) \<times> (kcall \<times> kreply) list" and w :: "'k world"
  obtain S sem l where p: "p = ((S, sem), l)" by (metis surj_pair)
  assume ok: "(case p of (p, l) \<Rightarrow> \<lambda>w. sem_ok p w \<and> log w = l) w"
  show "\<exists>t. (case p of (p, l) \<Rightarrow> sem_put p) w = Some (0, t) \<and> (case p of (p, l) \<Rightarrow> \<lambda>w. sem_ok p w \<and> log w = l) t \<and>
      (case p of (p, l) \<Rightarrow> sem_val p) t = (case p of (p, l) \<Rightarrow> sem_val p) w + 1"
    if "(case p of (p, l) \<Rightarrow> sem_val p) w < 2 ^ 31 - 1"
    using ok that sem_put_alone[of S sem w]
    by (auto simp: sem_put_def p sem_ok_def sem_val_def sint_inc nat_add_distrib)
  show "\<exists>t. (case p of (p, l) \<Rightarrow> sem_get p) w = Some (if 0 < (case p of (p, l) \<Rightarrow> sem_val p) w then 0 else - EAGAIN, t) \<and>
      (case p of (p, l) \<Rightarrow> \<lambda>w. sem_ok p w \<and> log w = l) t \<and>
      (case p of (p, l) \<Rightarrow> sem_val p) t = (case p of (p, l) \<Rightarrow> sem_val p) w - 1"
    using ok sem_get_alone[of S sem w]
    by (auto simp: sem_get_def p sem_ok_def sem_val_def sint_dec nat_diff_distrib)
qed

text \<open>
  C30. Semaphores refine counters: any run of \<^verbatim>\<open>evl_put_sem\<close> and \<^verbatim>\<open>evl_tryget_sem\<close> on a semaphore no other thread uses
  returns what the counter does, \<^verbatim>\<open>-EAGAIN\<close> at zero, and leaves the value of the counter, as long as
  it stays within a signed word; the kernel is never called.
\<close>

theorem sem_refines_counter:
  assumes "sem_ok (S, sem) w" and "sem_val (S, sem) w + length ops \<le> 2 ^ 31 - 1"
  shows "\<exists>w'. run_ops (sem_put (S, sem)) (sem_get (S, sem)) ops w =
      Some (fst (counter_run (- EAGAIN) (sem_val (S, sem) w) ops), w') \<and>
    sem_val (S, sem) w' = snd (counter_run (- EAGAIN) (sem_val (S, sem) w) ops) \<and> log w' = log w"
  using sem.run_refines[of "((S, sem), log w)" w ops] assms by auto

text \<open>The count has no upper bound: a unit added to the largest value makes it negative, without an error.\<close>

theorem put_sem_overflows:
  assumes "sem_ok (S, sem) w" and "aget (Value (a_state (sem_active sem))) (shr w) = 0x7fffffff"
  shows "\<exists>w'. evl_put_sem S sem w = Some ((0, sem), w') \<and>
    sint (aget (Value (a_state (sem_active sem))) (shr w')) = - (2 ^ 31)"
  using sem_put_alone[OF assms(1)] assms(2) by simp

section \<open>Getting with a timeout\<close>

text \<open>Whether the current thread may change the count by itself.\<close>

definition fast_mode :: "'k system \<Rightarrow> 'k world \<Rightarrow> bool" where
  "fast_mode S w \<longleftrightarrow> evl_get_current_mode S w AND EVL_T_INBAND S = 0 \<or> evl_get_current_mode S w AND EVL_T_WEAK S \<noteq> 0"

text \<open>
  What a get with a timeout may lead to from the world \<open>w\<close>, with an active semaphore, whatever the other threads do: a unit that was there at some point of
  time is taken without the kernel, which only a thread in the right mode does; or one wait request is issued, whose outcome is the result. In the
  right mode this comes after the count was seen at zero or below.
\<close>

definition timedget_ends :: "'k system \<Rightarrow> evl_sem \<Rightarrow> timespec option \<Rightarrow> 'k world \<Rightarrow> int \<Rightarrow> 'k world \<Rightarrow> bool" where
  "timedget_ends S sem timeout w ret w' \<longleftrightarrow> (\<exists>sh. (others_step S)\<^sup>*\<^sup>* (shr w) sh \<and>
     (let v = aget (Value (a_state (sem_active sem))) sh;
          req = EVL_MONIOC_WAIT \<lparr>wr_timeout = timeout, wr_gatefd = - 1, wr_value = 0\<rparr> in
      fast_mode S w \<and> 0 < sint v \<and> ret = 0 \<and> w' = w\<lparr>shr := aput (Value (a_state (sem_active sem))) (v - 1) sh\<rparr> \<or>
      (if fast_mode S w then sint v \<le> 0 else sh = shr w) \<and>
      (\<exists>r. sys S (Sys_oob_ioctl (a_efd (sem_active sem)) req) (w\<lparr>shr := sh\<rparr>) = (r, w') \<and>
           ret = (if k_ret r = 0 then 0 else - errno w'))))"

lemma try_get_got:
  assumes "try_get S a w = Some r"
  shows "got S a w r"
proof -
  let ?sh = "snd (others S (shr w))"
  from assms have t: "try_get_loop S a (aget (Value a) ?sh) (w\<lparr>shr := ?sh\<rparr>) = Some r"
    by (auto simp: try_get_def atomic_defs Let_def split_beta simp del: aget.simps)
  from got_later[OF try_get_loop_got[OF t, THEN mp] others_once] show ?thesis by simp
qed

lemma timedget_active:
  assumes "evl_timedget_sem S sem timeout w = Some ((ret, sem'), w')" and "evl_current w \<noteq> EVL_NO_HANDLE S"
    and "sem_check_sanity S sem w = ((0, s1), w1)"
  shows "sem' = s1 \<and> timedget_ends S s1 timeout w1 ret w'"
proof -
  let ?a = "a_state (sem_active s1)" and ?req = "EVL_MONIOC_WAIT \<lparr>wr_timeout = timeout, wr_gatefd = - 1, wr_value = 0\<rparr>"
  have slow: "sem' = s1 \<and> (\<exists>r. sys S (Sys_oob_ioctl (a_efd (sem_active s1)) ?req) u = (r, w') \<and> ret = (if k_ret r = 0 then 0 else - errno w'))"
    if "(case ret_errno (oob_ioctl S (a_efd (sem_active s1)) ?req u) of (r, v) \<Rightarrow> ((r, s1), v)) = ((ret, sem'), w')" for u
    using that by (cases "sys S (Sys_oob_ioctl (a_efd (sem_active s1)) ?req) u") (auto simp: ret_errno_def oob_ioctl_eq)
  show ?thesis
  proof (cases "fast_mode S w1")
    case True
    with assms obtain i u where g: "try_get S ?a w1 = Some (i, u)"
      and r: "(if i \<noteq> - EAGAIN then ((i, s1), u) else case ret_errno (oob_ioctl S (a_efd (sem_active s1)) ?req u) of (r, v) \<Rightarrow> ((r, s1), v)) =
        ((ret, sem'), w')"
      by (auto simp: evl_timedget_sem_def fast_mode_def evl_get_current_def Let_def bind_eq_Some_conv split: if_split_asm)
    from try_get_got[OF g] obtain sh where sh: "(others_step S)\<^sup>*\<^sup>* (shr w1) sh"
      "i = 0 \<and> 0 < sint (aget (Value ?a) sh) \<and> u = w1\<lparr>shr := aput (Value ?a) (aget (Value ?a) sh - 1) sh\<rparr> \<or>
       i = - EAGAIN \<and> sint (aget (Value ?a) sh) \<le> 0 \<and> u = w1\<lparr>shr := sh\<rparr>"
      by (auto simp: got_def)
    from sh(2) show ?thesis
    proof
      assume h: "i = 0 \<and> 0 < sint (aget (Value ?a) sh) \<and> u = w1\<lparr>shr := aput (Value ?a) (aget (Value ?a) sh - 1) sh\<rparr>"
      with r have "sem' = s1" "ret = 0" "w' = w1\<lparr>shr := aput (Value ?a) (aget (Value ?a) sh - 1) sh\<rparr>"
        by (auto simp: EAGAIN_def simp del: aput.simps aget.simps)
      with h sh(1) True show ?thesis unfolding timedget_ends_def Let_def by blast
    next
      assume h: "i = - EAGAIN \<and> sint (aget (Value ?a) sh) \<le> 0 \<and> u = w1\<lparr>shr := sh\<rparr>"
      with r have "(case ret_errno (oob_ioctl S (a_efd (sem_active s1)) ?req u) of (r, v) \<Rightarrow> ((r, s1), v)) = ((ret, sem'), w')"
        by (simp del: aget.simps)
      from slow[OF this] h sh(1) True show ?thesis unfolding timedget_ends_def Let_def by (simp only: if_True simp_thms) blast
    qed
  next
    case False
    with assms have "(case ret_errno (oob_ioctl S (a_efd (sem_active s1)) ?req w1) of (r, v) \<Rightarrow> ((r, s1), v)) = ((ret, sem'), w')"
      by (auto simp: evl_timedget_sem_def fast_mode_def evl_get_current_def Let_def split: if_split_asm)
    from slow[OF this] False show ?thesis
      unfolding timedget_ends_def Let_def by (auto intro!: exI[of _ "shr w1"])
  qed
qed

lemma try_get_alone: "alone S \<Longrightarrow> \<exists>r. try_get S a w = Some r"
  by (simp add: try_get_def alone_def atomic_defs Let_def try_get_loop.simps)

text \<open>
  C31. \<^verbatim>\<open>evl_timedget_sem\<close> under any interference, for a semaphore in any state. A thread that is not attached is refused with \<^verbatim>\<open>-EPERM\<close>. A semaphore that was
  initialised statically is created first, and the error of the creation returned; one that is not active is refused with \<^verbatim>\<open>-EINVAL\<close>. Otherwise a unit that is
  there, of a positive count, is taken atomically and without the kernel, if the thread runs out-of-band or is a weak one; or one wait request with the timeout is issued and its
  outcome returned. The call returns when no other thread interferes.
\<close>

theorem timedget_sem_correct:
  "(evl_timedget_sem S sem timeout w = Some ((ret, sem'), w') \<longrightarrow>
     (if evl_current w = EVL_NO_HANDLE S then ret = - EPERM \<and> sem' = sem \<and> w' = w
      else if sem_magic sem = SEM_UNINIT_MAGIC then
        (case evl_create_sem S sem (u_clockfd (sem_uninit sem)) (u_initval (sem_uninit sem)) (u_flags (sem_uninit sem))
            (Some (u_name (sem_uninit sem))) w of
          ((efd, s1), w1) \<Rightarrow> if efd < 0 then ret = efd \<and> sem' = s1 \<and> w' = w1 else sem' = s1 \<and> timedget_ends S s1 timeout w1 ret w')
      else if sem_magic sem \<noteq> SEM_ACTIVE_MAGIC then ret = - EINVAL \<and> sem' = sem \<and> w' = w
      else sem' = sem \<and> timedget_ends S sem timeout w ret w')) \<and>
   (alone S \<longrightarrow> (\<exists>r. evl_timedget_sem S sem timeout w = Some r))"
proof (intro conjI impI)
  assume r: "evl_timedget_sem S sem timeout w = Some ((ret, sem'), w')"
  show "if evl_current w = EVL_NO_HANDLE S then ret = - EPERM \<and> sem' = sem \<and> w' = w
      else if sem_magic sem = SEM_UNINIT_MAGIC then
        (case evl_create_sem S sem (u_clockfd (sem_uninit sem)) (u_initval (sem_uninit sem)) (u_flags (sem_uninit sem))
            (Some (u_name (sem_uninit sem))) w of
          ((efd, s1), w1) \<Rightarrow> if efd < 0 then ret = efd \<and> sem' = s1 \<and> w' = w1 else sem' = s1 \<and> timedget_ends S s1 timeout w1 ret w')
      else if sem_magic sem \<noteq> SEM_ACTIVE_MAGIC then ret = - EINVAL \<and> sem' = sem \<and> w' = w
      else sem' = sem \<and> timedget_ends S sem timeout w ret w'"
  proof (cases "evl_current w = EVL_NO_HANDLE S")
    case True
    then show ?thesis using r by (simp add: evl_timedget_sem_def evl_get_current_def)
  next
    case attached: False
    obtain i s1 w1 where c: "sem_check_sanity S sem w = ((i, s1), w1)" by (metis surj_pair)
    have bad: "i = ret \<and> s1 = sem' \<and> w1 = w'" if "i \<noteq> 0"
      using r c attached that by (simp add: evl_timedget_sem_def evl_get_current_def)
    have good: "sem' = s1 \<and> timedget_ends S s1 timeout w1 ret w'" if "i = 0"
      using timedget_active[OF r attached] c that by simp
    show ?thesis
    proof (cases "sem_magic sem = SEM_UNINIT_MAGIC")
      case True
      obtain efd s2 w2 where n: "evl_create_sem S sem (u_clockfd (sem_uninit sem)) (u_initval (sem_uninit sem)) (u_flags (sem_uninit sem))
          (Some (u_name (sem_uninit sem))) w = ((efd, s2), w2)" by (metis surj_pair)
      with c True have "i = (if efd < 0 then efd else 0)" "s1 = s2" "w1 = w2" by (simp_all add: sem_check_sanity_def)
      with bad good show ?thesis using attached True n by auto
    next
      case False
      with c have "i = (if sem_magic sem \<noteq> SEM_ACTIVE_MAGIC then - EINVAL else 0)" "s1 = sem" "w1 = w"
        by (auto simp: sem_check_sanity_def)
      with bad good show ?thesis using attached False by (auto simp: EINVAL_def)
    qed
  qed
next
  assume "alone S"
  have "\<exists>r. Option.bind (try_get S a u) (\<lambda>(ret, u). if ret \<noteq> - EAGAIN then Some ((ret, s), u) else Some (f u)) = Some r" for a u s f
  proof -
    obtain i v where "try_get S a u = Some (i, v)" using try_get_alone[OF \<open>alone S\<close>, of a u] by (metis surj_pair)
    then show ?thesis by (cases "i = - EAGAIN") simp_all
  qed
  then show "\<exists>r. evl_timedget_sem S sem timeout w = Some r"
    by (auto simp: evl_timedget_sem_def Let_def split: prod.split)
qed

section \<open>Witnesses\<close>

definition sample_sem :: evl_sem where
  "sample_sem = (EVL_SEM_INITIALIZER ''s'' 0 0 0)\<lparr>sem_magic := SEM_ACTIVE_MAGIC,
     sem_active := \<lparr>a_fundle = 7, a_state = 0x1040, a_efd = 4\<rparr>\<rparr>"

definition sem_world :: "nat world" where
  "sem_world = sample_world\<lparr>shr := aput (Value 0x1040) 1 sample_shared\<rparr>"

lemma sem_world_ok: "sem_ok (sample_system no_fail, sample_sem) sem_world"
  by (simp add: sem_ok_def alone_def sample_system_def sample_sem_def EVL_SEM_INITIALIZER_def sem_world_def
      sample_world_def sample_shared_def idle_monitor_def)

lemma sem_world_val: "sem_val (sample_system no_fail, sample_sem) sem_world = 1"
  by (simp add: sem_val_def sample_sem_def EVL_SEM_INITIALIZER_def sem_world_def)

theorem tryget_sem_atomic_witness:
  "\<exists>w'. evl_tryget_sem (sample_system no_fail) sample_sem sem_world = Some ((0, sample_sem), w') \<and>
    (\<exists>sh. (others_step (sample_system no_fail))\<^sup>*\<^sup>* (shr sem_world) sh \<and> 0 < sint (aget (Value 0x1040) sh))"
proof -
  from sem_get_alone[OF sem_world_ok] obtain w' where
    r: "evl_tryget_sem (sample_system no_fail) sample_sem sem_world = Some ((0, sample_sem), w')"
    by (auto simp: sem_world_val)
  have "sem_magic sample_sem = SEM_ACTIVE_MAGIC" by (simp add: sample_sem_def)
  from tryget_sem_atomic[OF r this] r show ?thesis
    by (auto simp: Let_def sample_sem_def EAGAIN_def)
qed

theorem sem_refines_counter_witness:
  "\<exists>w'. run_ops (sem_put (sample_system no_fail, sample_sem)) (sem_get (sample_system no_fail, sample_sem))
      [Get, Get, Put, Put] sem_world = Some ([0, - EAGAIN, 0, 0], w') \<and>
    sem_val (sample_system no_fail, sample_sem) w' = 2 \<and> log w' = log sem_world"
  using sem_refines_counter[OF sem_world_ok, of "[Get, Get, Put, Put]"]
  by (simp add: sem_world_val numeral_2_eq_2[symmetric] del: run_ops.simps)

theorem timedget_sem_correct_witness:
  "\<exists>ret w'. evl_timedget_sem (sample_system no_fail) sample_sem None sem_world = Some ((ret, sample_sem), w') \<and>
    timedget_ends (sample_system no_fail) sample_sem None sem_world ret w'"
proof -
  have m: "sem_magic sample_sem = SEM_ACTIVE_MAGIC" "SEM_ACTIVE_MAGIC \<noteq> SEM_UNINIT_MAGIC" "evl_current sem_world \<noteq> 0"
    by (simp_all add: sample_sem_def sem_world_def sample_world_def) (simp add: SEM_ACTIVE_MAGIC_def SEM_UNINIT_MAGIC_def)
  obtain ret sem' w' where r: "evl_timedget_sem (sample_system no_fail) sample_sem None sem_world = Some ((ret, sem'), w')"
    using timedget_sem_correct[of "sample_system no_fail" sample_sem None sem_world, THEN conjunct2] sample_alone[of no_fail]
    by (metis surj_pair)
  from timedget_sem_correct[of "sample_system no_fail" sample_sem None sem_world ret sem' w', THEN conjunct1, rule_format, OF r] m r
  show ?thesis by auto
qed

end
