(* ===== verification/Evl_Flags.thy ===== *)
theory Evl_Flags
  imports Evl_Monitor
begin

text \<open>
  \<^verbatim>\<open>lib/flags.c\<close>: event flag groups.  Their value is changed by the kernel only; the library
  builds the requests, chooses the stage they are issued from and translates the results.
\<close>

record evl_flags =
  flg_magic :: u32
  flg_active :: active_arm
  flg_uninit :: uninit_arm

definition FLAGS_UNINIT_MAGIC :: u32 where "FLAGS_UNINIT_MAGIC = 0xfebcfebc"
definition FLAGS_ACTIVE_MAGIC :: u32 where "FLAGS_ACTIVE_MAGIC = 0xb42bb42b"
definition FLAGS_DEAD_MAGIC :: u32 where "FLAGS_DEAD_MAGIC = 0"

definition EVL_FLAGS_INITIALIZER :: "string \<Rightarrow> int \<Rightarrow> u32 \<Rightarrow> u32 \<Rightarrow> evl_flags" where
  "EVL_FLAGS_INITIALIZER name clockfd initval flags =
     \<lparr>flg_magic = FLAGS_UNINIT_MAGIC, flg_active = no_arm,
      flg_uninit = \<lparr>u_name = name, u_clockfd = clockfd, u_initval = initval, u_flags = flags\<rparr>\<rparr>"

definition evl_create_flags :: "'k system \<Rightarrow> evl_flags \<Rightarrow> int \<Rightarrow> u32 \<Rightarrow> u32 \<Rightarrow> string option \<Rightarrow> 'k world \<Rightarrow>
    (int \<times> evl_flags) \<times> 'k world" where
  "evl_create_flags S flg clockfd initval flags fmt w =
     (if shared_memory w = NULL then ((- ENXIO, flg), w)
      else
        let ((efd, eids), w) =
              create_monitor S (EVL_MONITOR_EVENT S) (EVL_EVENT_MASK S) clockfd initval flags fmt w
        in if efd < 0 then ((efd, flg), w)
        else
          let state = monitor_state w eids;
              w = atomic_store S (Value state) initval w
          in ((efd, flg\<lparr>flg_active := \<lparr>a_fundle = eid_fundle eids, a_state = state, a_efd = efd\<rparr>,
                        flg_magic := FLAGS_ACTIVE_MAGIC\<rparr>), w))"

definition evl_new_flags :: "'k system \<Rightarrow> evl_flags \<Rightarrow> string option \<Rightarrow> 'k world \<Rightarrow> (int \<times> evl_flags) \<times> 'k world" where
  "evl_new_flags S flg fmt w =
     evl_create_flags S flg (EVL_CLOCK_MONOTONIC S) 0 (EVL_CLONE_PRIVATE S) fmt w"

definition evl_open_flags :: "'k system \<Rightarrow> evl_flags \<Rightarrow> string \<Rightarrow> 'k world \<Rightarrow> (int \<times> evl_flags) \<times> 'k world" where
  "evl_open_flags S flg fmt w =
     (let (efd, w) = evl_open_element_vargs S (dev S EVL_MONITOR_DEV) fmt w
      in if efd < 0 then ((efd, flg), w)
      else let (r, w) = ioctl S efd EVL_MONIOC_BIND w; bind = k_out r
      in if k_ret r \<noteq> 0 then
           let ret = - errno w; (_, w) = close_fd S efd w in ((ret, flg), w)
      else if o_type bind \<noteq> EVL_MONITOR_EVENT S \<or> o_protocol bind \<noteq> EVL_EVENT_MASK S then
        let (_, w) = close_fd S efd w in ((- EINVAL, flg), w)
      else
        let state = monitor_state w (o_eids bind)
        in ((efd, flg\<lparr>flg_active := \<lparr>a_fundle = eid_fundle (o_eids bind), a_state = state, a_efd = efd\<rparr>,
                      flg_magic := FLAGS_ACTIVE_MAGIC\<rparr>), w))"

definition evl_close_flags :: "'k system \<Rightarrow> evl_flags \<Rightarrow> 'k world \<Rightarrow> (int \<times> evl_flags) \<times> 'k world" where
  "evl_close_flags S flg w =
     (if flg_magic flg = FLAGS_UNINIT_MAGIC then ((0, flg), w)
      else if flg_magic flg \<noteq> FLAGS_ACTIVE_MAGIC then ((- EINVAL, flg), w)
      else let (ret, w) = close_fd S (a_efd (flg_active flg)) w
      in if ret \<noteq> 0 then ((- errno w, flg), w)
      else ((0, flg\<lparr>flg_active := (flg_active flg)\<lparr>a_fundle := EVL_NO_HANDLE S, a_state := NULL\<rparr>,
                    flg_magic := FLAGS_DEAD_MAGIC\<rparr>), w))"

definition flags_check_sanity :: "'k system \<Rightarrow> evl_flags \<Rightarrow> 'k world \<Rightarrow> (int \<times> evl_flags) \<times> 'k world" where
  "flags_check_sanity S flg w =
     (if flg_magic flg = FLAGS_UNINIT_MAGIC then
        let ((efd, flg), w) = evl_create_flags S flg (u_clockfd (flg_uninit flg)) (u_initval (flg_uninit flg))
                                (u_flags (flg_uninit flg)) (Some (u_name (flg_uninit flg))) w
        in ((if efd < 0 then efd else 0, flg), w)
      else ((if flg_magic flg \<noteq> FLAGS_ACTIVE_MAGIC then - EINVAL else 0, flg), w))"

text \<open>The third result is what the operation stores through a non-null \<^verbatim>\<open>r_bits\<close>, if it stores anything.\<close>

type_synonym 'k flags_result = "(int \<times> evl_flags \<times> u32 option) \<times> 'k world"

definition do_timedwait_flags :: "'k system \<Rightarrow> evl_flags \<Rightarrow> u32 \<Rightarrow> bool \<Rightarrow> timespec option \<Rightarrow> 'k world \<Rightarrow> 'k flags_result" where
  "do_timedwait_flags S flg bits exact_match timeout w =
     (if evl_get_current w = EVL_NO_HANDLE S then ((- EPERM, flg, None), w)
      else let ((ret, flg), w) = flags_check_sanity S flg w
      in if ret \<noteq> 0 then ((ret, flg, None), w)
      else
        let req = \<lparr>wr_timeout = timeout, wr_gatefd = - 1, wr_value = bits\<rparr>;
            (ret, w) = oob_ioctl S (a_efd (flg_active flg))
                         (if exact_match then EVL_MONIOC_WAIT_EXACT req else EVL_MONIOC_WAIT req) w
        in if k_ret ret \<noteq> 0 then ((- errno w, flg, None), w)
        else ((0, flg, Some (o_u32 (k_out ret))), w))"

definition evl_timedwait_some_flags :: "'k system \<Rightarrow> evl_flags \<Rightarrow> u32 \<Rightarrow> timespec option \<Rightarrow> 'k world \<Rightarrow> 'k flags_result" where
  "evl_timedwait_some_flags S flg bits timeout w = do_timedwait_flags S flg bits False timeout w"

definition evl_timedwait_exact_flags :: "'k system \<Rightarrow> evl_flags \<Rightarrow> u32 \<Rightarrow> timespec option \<Rightarrow> 'k world \<Rightarrow> 'k flags_result" where
  "evl_timedwait_exact_flags S flg bits timeout w = do_timedwait_flags S flg bits True timeout w"

definition evl_timedwait_flags :: "'k system \<Rightarrow> evl_flags \<Rightarrow> timespec option \<Rightarrow> 'k world \<Rightarrow> 'k flags_result" where
  "evl_timedwait_flags S flg timeout w = evl_timedwait_some_flags S flg (- 1) timeout w"

definition evl_wait_some_flags :: "'k system \<Rightarrow> evl_flags \<Rightarrow> u32 \<Rightarrow> 'k world \<Rightarrow> 'k flags_result" where
  "evl_wait_some_flags S flg bits w = evl_timedwait_some_flags S flg bits (Some zerotime) w"

definition evl_wait_exact_flags :: "'k system \<Rightarrow> evl_flags \<Rightarrow> u32 \<Rightarrow> 'k world \<Rightarrow> 'k flags_result" where
  "evl_wait_exact_flags S flg bits w = evl_timedwait_exact_flags S flg bits (Some zerotime) w"

definition evl_wait_flags :: "'k system \<Rightarrow> evl_flags \<Rightarrow> 'k world \<Rightarrow> 'k flags_result" where
  "evl_wait_flags S flg w = evl_wait_some_flags S flg (- 1) w"

definition do_trywait_flags :: "'k system \<Rightarrow> evl_flags \<Rightarrow> u32 \<Rightarrow> bool \<Rightarrow> 'k world \<Rightarrow> 'k flags_result" where
  "do_trywait_flags S flg bits exact_match w =
     (let ((ret, flg), w) = flags_check_sanity S flg w
      in if ret \<noteq> 0 then ((ret, flg, None), w)
      else
        let cmd = (if exact_match then EVL_MONIOC_TRYWAIT_EXACT bits else EVL_MONIOC_TRYWAIT bits);
            (ret, w) = event_ioctl S (a_efd (flg_active flg)) cmd w
        in if k_ret ret \<noteq> 0 then ((- errno w, flg, None), w)
        else ((0, flg, Some (o_u32 (k_out ret))), w))"

definition evl_trywait_some_flags :: "'k system \<Rightarrow> evl_flags \<Rightarrow> u32 \<Rightarrow> 'k world \<Rightarrow> 'k flags_result" where
  "evl_trywait_some_flags S flg bits w = do_trywait_flags S flg bits False w"

definition evl_trywait_exact_flags :: "'k system \<Rightarrow> evl_flags \<Rightarrow> u32 \<Rightarrow> 'k world \<Rightarrow> 'k flags_result" where
  "evl_trywait_exact_flags S flg bits w = do_trywait_flags S flg bits True w"

definition evl_trywait_flags :: "'k system \<Rightarrow> evl_flags \<Rightarrow> 'k world \<Rightarrow> 'k flags_result" where
  "evl_trywait_flags S flg w = evl_trywait_some_flags S flg (- 1) w"

definition do_post_flags :: "'k system \<Rightarrow> evl_flags \<Rightarrow> u32 \<Rightarrow> bool \<Rightarrow> 'k world \<Rightarrow> (int \<times> evl_flags) \<times> 'k world" where
  "do_post_flags S flg bits bcast w =
     (let ((ret, flg), w) = flags_check_sanity S flg w
      in if ret \<noteq> 0 then ((ret, flg), w)
      else if bits = 0 then ((- EINVAL, flg), w)
      else
        let cmd = (if bcast then EVL_MONIOC_BROADCAST bits else EVL_MONIOC_SIGNAL bits);
            (ret, w) = ret_errno (event_ioctl S (a_efd (flg_active flg)) cmd w)
        in ((ret, flg), w))"

definition evl_post_flags :: "'k system \<Rightarrow> evl_flags \<Rightarrow> u32 \<Rightarrow> 'k world \<Rightarrow> (int \<times> evl_flags) \<times> 'k world" where
  "evl_post_flags S flg bits w = do_post_flags S flg bits False w"

definition evl_broadcast_flags :: "'k system \<Rightarrow> evl_flags \<Rightarrow> u32 \<Rightarrow> 'k world \<Rightarrow> (int \<times> evl_flags) \<times> 'k world" where
  "evl_broadcast_flags S flg bits w = do_post_flags S flg bits True w"

definition evl_peek_flags :: "'k system \<Rightarrow> evl_flags \<Rightarrow> 'k world \<Rightarrow> (int \<times> u32 option) \<times> 'k world" where
  "evl_peek_flags S flg w =
     (if flg_magic flg \<noteq> FLAGS_ACTIVE_MAGIC then ((- EINVAL, None), w)
      else let (v, w) = atomic_load S (Value (a_state (flg_active flg))) w in ((0, Some v), w))"

end
