(* ===== verification/Evl_Rwlock.thy ===== *)
theory Evl_Rwlock
  imports Evl_Flags
begin

text \<open>
  \<^verbatim>\<open>lib/rwlock.c\<close>: read-write locks, built on a lock word and an event flag group.

  The word holds a signed count of 31 bits and, in its top bit, the mark that readers wait.  The
  count is the bias when the lock is free, the bias less the number of readers while they hold
  it, and is null or negative when a writer holds it or is queued.  The operations are partial:
  \<open>None\<close> is a loop that interference or the kernel makes retry for ever, or a failed \<^verbatim>\<open>assert\<close>.
\<close>

record evl_rwlock =
  rw_magic :: u32
  rw_lock :: addr
  rw_event :: evl_flags

definition RWLOCK_UNINIT_MAGIC :: u32 where "RWLOCK_UNINIT_MAGIC = 0xc7c7e8e8"
definition RWLOCK_ACTIVE_MAGIC :: u32 where "RWLOCK_ACTIVE_MAGIC = 0xd8d8f9f9"
definition RWLOCK_DEAD_MAGIC :: u32 where "RWLOCK_DEAD_MAGIC = 0"

definition EVL_RWLOCK_WRBIAS :: int where "EVL_RWLOCK_WRBIAS = 0x3fffffff"
definition EVL_RWLOCK_RD :: u32 where "EVL_RWLOCK_RD = 1"
definition EVL_RWLOCK_WR :: u32 where "EVL_RWLOCK_WR = 2"

section \<open>The lock word\<close>

definition rw_count :: "u32 \<Rightarrow> int" where
  "rw_count v = signed_take_bit 30 (uint v)"

definition rw_rdpend :: "u32 \<Rightarrow> bool" where
  "rw_rdpend v \<longleftrightarrow> bit v 31"

definition rw_pack :: "int \<Rightarrow> bool \<Rightarrow> u32" where
  "rw_pack c rdpend = word_of_int (take_bit 31 c + (if rdpend then 2 ^ 31 else 0))"

definition no_flags :: evl_flags where
  "no_flags = \<lparr>flg_magic = 0, flg_active = no_arm,
     flg_uninit = \<lparr>u_name = [], u_clockfd = 0, u_initval = 0, u_flags = 0\<rparr>\<rparr>"

text \<open>\<^verbatim>\<open>EVL_RWLOCK_INITIALIZER()\<close>, stored at the address of the lock.\<close>

definition EVL_RWLOCK_INITIALIZER :: "addr \<Rightarrow> 'k world \<Rightarrow> evl_rwlock \<times> 'k world" where
  "EVL_RWLOCK_INITIALIZER a w =
     (\<lparr>rw_magic = RWLOCK_UNINIT_MAGIC, rw_lock = a, rw_event = no_flags\<rparr>,
      w\<lparr>shr := aput (Uword a) (rw_pack EVL_RWLOCK_WRBIAS False) (shr w)\<rparr>)"

section \<open>Creation\<close>

definition evl_create_rwlock :: "'k system \<Rightarrow> addr \<Rightarrow> 'k world \<Rightarrow> (int \<times> evl_rwlock) \<times> 'k world" where
  "evl_create_rwlock S a w =
     (let (rwlock, w) = EVL_RWLOCK_INITIALIZER a w;
          ((ret, ev), w) = evl_new_flags S (rw_event rwlock) None w;
          rwlock = rwlock\<lparr>rw_event := ev\<rparr>
      in if ret < 0 then ((ret, rwlock), w)
      else ((0, rwlock\<lparr>rw_magic := RWLOCK_ACTIVE_MAGIC\<rparr>), w))"

definition evl_destroy_rwlock :: "'k system \<Rightarrow> evl_rwlock \<Rightarrow> 'k world \<Rightarrow> (int \<times> evl_rwlock) \<times> 'k world" where
  "evl_destroy_rwlock S rwlock w =
     (if rw_magic rwlock = RWLOCK_UNINIT_MAGIC then ((0, rwlock), w)
      else if rw_magic rwlock \<noteq> RWLOCK_ACTIVE_MAGIC then ((- EINVAL, rwlock), w)
      else let ((ret, ev), w) = evl_close_flags S (rw_event rwlock) w
      in ((ret, rwlock\<lparr>rw_magic := RWLOCK_DEAD_MAGIC, rw_event := ev\<rparr>), w))"

definition rw_check_sanity :: "'k system \<Rightarrow> evl_rwlock \<Rightarrow> 'k world \<Rightarrow> (int \<times> evl_rwlock) \<times> 'k world" where
  "rw_check_sanity S rwlock w =
     (if rw_magic rwlock = RWLOCK_UNINIT_MAGIC then
        let ((ret, ev), w) = evl_new_flags S (rw_event rwlock) None w;
            rwlock = rwlock\<lparr>rw_event := ev\<rparr>
        in if ret < 0 then ((ret, rwlock), w)
        else ((0, rwlock\<lparr>rw_magic := RWLOCK_ACTIVE_MAGIC\<rparr>), w)
      else ((if rw_magic rwlock \<noteq> RWLOCK_ACTIVE_MAGIC then - EINVAL else 0, rwlock), w))"

section \<open>Transitions of the lock word\<close>

text \<open>
  The next value each operation computes from the value it read; \<open>None\<close> is a failed \<^verbatim>\<open>assert\<close>.
\<close>

definition lock_read_next :: "u32 \<Rightarrow> u32 option" where
  "lock_read_next prev =
     (if rw_count prev \<le> 0 then Some (rw_pack (rw_count prev) True)
      else if rw_rdpend prev then None
      else Some (rw_pack (rw_count prev - 1) False))"

definition unlock_read_next :: "u32 \<Rightarrow> u32" where
  "unlock_read_next prev = rw_pack (rw_count prev + 1) (rw_rdpend prev)"

definition lock_write_next :: "u32 \<Rightarrow> u32" where
  "lock_write_next prev =
     rw_pack (if rw_count prev \<le> 0 then rw_count prev - 1 else rw_count prev - EVL_RWLOCK_WRBIAS)
       (rw_rdpend prev)"

definition trylock_write_next :: "u32 \<Rightarrow> u32" where
  "trylock_write_next prev = rw_pack (rw_count prev - EVL_RWLOCK_WRBIAS) (rw_rdpend prev)"

definition unlock_write_next :: "u32 \<Rightarrow> u32 option" where
  "unlock_write_next prev =
     (if rw_count prev < 0 then Some (rw_pack (rw_count prev + 1) (rw_rdpend prev))
      else if rw_count prev \<noteq> 0 then None
      else Some (rw_pack EVL_RWLOCK_WRBIAS False))"

text \<open>
  The loop all operations share: read the word, compute the next value, exchange, and stop when
  the macro returns the value read.  The result is the value read.
\<close>

partial_function (option) rw_update :: "'k system \<Rightarrow> addr \<Rightarrow> (u32 \<Rightarrow> u32 option) \<Rightarrow> 'k world \<Rightarrow> (u32 \<times> 'k world) option" where
  "rw_update S a nxt w =
     (case atomic_read S (Uword a) w of
        (prev, w) \<Rightarrow>
          Option.bind (nxt prev) (\<lambda>v.
            case atomic_cmpxchg_weak S (Uword a) prev v w of
              (oldval, w) \<Rightarrow> if oldval = prev then Some (prev, w) else rw_update S a nxt w))"

text \<open>\<^verbatim>\<open>do ret = evl_wait_exact_flags(...) while (ret && ret == -EINTR)\<close>\<close>

partial_function (option) rw_wait :: "'k system \<Rightarrow> evl_rwlock \<Rightarrow> u32 \<Rightarrow> 'k world \<Rightarrow> ((int \<times> evl_rwlock) \<times> 'k world) option" where
  "rw_wait S rwlock bits w =
     (case evl_wait_exact_flags S (rw_event rwlock) bits w of
        ((ret, ev, _), w) \<Rightarrow>
          (let rwlock = rwlock\<lparr>rw_event := ev\<rparr> in
           if ret = - EINTR then rw_wait S rwlock bits w else Some ((ret, rwlock), w)))"

section \<open>Operations\<close>

partial_function (option) lock_read_loop :: "'k system \<Rightarrow> evl_rwlock \<Rightarrow> 'k world \<Rightarrow> ((int \<times> evl_rwlock) \<times> 'k world) option" where
  "lock_read_loop S rwlock w =
     Option.bind (rw_update S (rw_lock rwlock) lock_read_next w) (\<lambda>pw.
       case pw of (prev, w) \<Rightarrow>
         if rw_count prev > 0 then Some ((0, rwlock), w)
         else Option.bind (rw_wait S rwlock EVL_RWLOCK_RD w) (\<lambda>r.
           case r of ((ret, rwlock), w) \<Rightarrow>
             if ret \<noteq> 0 then Some ((ret, rwlock), w) else lock_read_loop S rwlock w))"

definition evl_lock_read :: "'k system \<Rightarrow> evl_rwlock \<Rightarrow> 'k world \<Rightarrow> ((int \<times> evl_rwlock) \<times> 'k world) option" where
  "evl_lock_read S rwlock w =
     (let ((ret, rwlock), w) = rw_check_sanity S rwlock w
      in if ret \<noteq> 0 then Some ((ret, rwlock), w) else lock_read_loop S rwlock w)"

definition evl_trylock_read :: "'k system \<Rightarrow> evl_rwlock \<Rightarrow> 'k world \<Rightarrow> ((int \<times> evl_rwlock) \<times> 'k world) option" where
  "evl_trylock_read S rwlock w =
     (let ((ret, rwlock), w) = rw_check_sanity S rwlock w
      in if ret \<noteq> 0 then Some ((ret, rwlock), w)
      else let (prev, w) = atomic_read S (Uword (rw_lock rwlock)) w
      in if rw_count prev \<le> 0 then Some ((- EAGAIN, rwlock), w)
      else if rw_rdpend prev then None
      else
        let (oldval, w) = atomic_cmpxchg S (Uword (rw_lock rwlock)) prev (rw_pack (rw_count prev - 1) False) w
        in Some ((if oldval = prev then 0 else - EAGAIN, rwlock), w))"

definition evl_unlock_read :: "'k system \<Rightarrow> evl_rwlock \<Rightarrow> 'k world \<Rightarrow> ((int \<times> evl_rwlock) \<times> 'k world) option" where
  "evl_unlock_read S rwlock w =
     map_option (\<lambda>(prev, w).
         if rw_count (unlock_read_next prev) = 0 then
           let ((ret, ev), w) = evl_post_flags S (rw_event rwlock) EVL_RWLOCK_WR w
           in ((ret, rwlock\<lparr>rw_event := ev\<rparr>), w)
         else ((0, rwlock), w))
       (rw_update S (rw_lock rwlock) (\<lambda>prev. Some (unlock_read_next prev)) w)"

definition evl_lock_write :: "'k system \<Rightarrow> evl_rwlock \<Rightarrow> 'k world \<Rightarrow> ((int \<times> evl_rwlock) \<times> 'k world) option" where
  "evl_lock_write S rwlock w =
     (let ((ret, rwlock), w) = rw_check_sanity S rwlock w
      in if ret \<noteq> 0 then Some ((ret, rwlock), w)
      else
        Option.bind (rw_update S (rw_lock rwlock) (\<lambda>prev. Some (lock_write_next prev)) w) (\<lambda>(prev, w).
          let c = rw_count (lock_write_next prev)
          in if c > 0 then None
          else if c \<noteq> 0 then rw_wait S rwlock EVL_RWLOCK_WR w
          else Some ((0, rwlock), w)))"

definition evl_trylock_write :: "'k system \<Rightarrow> evl_rwlock \<Rightarrow> 'k world \<Rightarrow> ((int \<times> evl_rwlock) \<times> 'k world) option" where
  "evl_trylock_write S rwlock w =
     (let ((ret, rwlock), w) = rw_check_sanity S rwlock w
      in if ret \<noteq> 0 then Some ((ret, rwlock), w)
      else
        let (prev, w) = atomic_read S (Uword (rw_lock rwlock)) w;
            nxt = trylock_write_next prev
        in if rw_count nxt > 0 then None
        else if rw_count nxt < 0 then Some ((- EAGAIN, rwlock), w)
        else
          let (oldval, w) = atomic_cmpxchg S (Uword (rw_lock rwlock)) prev nxt w
          in Some ((if oldval = prev then 0 else - EAGAIN, rwlock), w))"

definition evl_unlock_write :: "'k system \<Rightarrow> evl_rwlock \<Rightarrow> 'k world \<Rightarrow> ((int \<times> evl_rwlock) \<times> 'k world) option" where
  "evl_unlock_write S rwlock w =
     map_option (\<lambda>(prev, w).
         if rw_count prev < 0 then
           let ((ret, ev), w) = evl_post_flags S (rw_event rwlock) EVL_RWLOCK_WR w
           in ((ret, rwlock\<lparr>rw_event := ev\<rparr>), w)
         else if rw_rdpend prev then
           let ((ret, ev), w) = evl_broadcast_flags S (rw_event rwlock) EVL_RWLOCK_RD w
           in ((ret, rwlock\<lparr>rw_event := ev\<rparr>), w)
         else ((0, rwlock), w))
       (rw_update S (rw_lock rwlock) unlock_write_next w)"

section \<open>The packed lock word\<close>

lemma bit_rw_pack:
  "bit (rw_pack c p) n \<longleftrightarrow> n < 32 \<and> (if n < 31 then bit c n else p)"
proof -
  have e: "bit (2147483648 :: int) k \<longleftrightarrow> k = 31" for k
    using bit_exp_iff[of 31 k, where 'a = int] by auto
  have "take_bit 31 c + (if p then 2 ^ 31 else 0) = take_bit 31 c OR (if p then push_bit 31 1 else 0)"
    by (subst disjunctive_add[symmetric]) (auto simp: bit_simps e)
  then show ?thesis
    by (cases p; simp only: rw_pack_def bit_word_of_int_iff if_True if_False)
      (auto simp: bit_simps e split: if_splits)
qed

lemma rw_rdpend_pack [simp]: "rw_rdpend (rw_pack c p) = p"
  by (simp add: rw_rdpend_def bit_rw_pack)

lemma rw_count_pack_signed: "rw_count (rw_pack c p) = signed_take_bit 30 c"
  by (rule bit_eqI) (auto simp: rw_count_def bit_simps bit_rw_pack min_def)

lemma rw_count_pack [simp]:
  assumes "- (2 ^ 30) \<le> c" and "c < 2 ^ 30"
  shows "rw_count (rw_pack c p) = c"
  using assms by (simp add: rw_count_pack_signed signed_take_bit_int_eq_self)

lemma rw_pack_count_rdpend [simp]: "rw_pack (rw_count v) (rw_rdpend v) = v"
proof (rule bit_word_eqI)
  fix n :: nat
  assume "n < LENGTH(32)"
  then consider "n < 30" | "n = 30" | "n = 31" by fastforce
  then show "bit (rw_pack (rw_count v) (rw_rdpend v)) n = bit v n"
    by cases (auto simp: bit_rw_pack rw_count_def rw_rdpend_def bit_simps)
qed

lemma rw_count_range: "- (2 ^ 30) \<le> rw_count v" "rw_count v < 2 ^ 30"
  unfolding rw_count_def by (simp_all only: signed_take_bit_int_greater_eq_minus_exp signed_take_bit_int_less_exp)

end
