(* ===== verification/Evl_Rwlock_Ops.thy ===== *)
theory Evl_Rwlock_Ops
  imports Evl_Rwlock Evl_Atomic Evl_Sample
begin

text \<open>
  The operations on read-write locks: the atomicity of their exchanges of the lock word, locking and
  unlocking without interference, and two ways in which the operations fail.
\<close>

section \<open>The exchanges of the lock word\<close>

definition exchanged :: "'k system \<Rightarrow> addr \<Rightarrow> (u32 \<Rightarrow> u32 option) \<Rightarrow> 'k world \<Rightarrow> u32 \<times> 'k world \<Rightarrow> bool" where
  "exchanged S a nxt w r \<longleftrightarrow> (\<exists>sh v. (others_step S)\<^sup>*\<^sup>* (shr w) sh \<and> aget (Uword a) sh = fst r \<and>
     nxt (fst r) = Some v \<and> snd r = w\<lparr>shr := aput (Uword a) v sh\<rparr>)"

lemma exchanged_later:
  assumes "exchanged S a nxt (w\<lparr>shr := sh\<rparr>) r" and "(others_step S)\<^sup>*\<^sup>* (shr w) sh"
  shows "exchanged S a nxt w r"
  using assms unfolding exchanged_def by (auto intro: rtranclp_trans)

lemma rw_update_exchanged:
  assumes "rw_update S a nxt w = Some r"
  shows "no_spurious S \<longrightarrow> exchanged S a nxt w r"
proof (rule rw_update.raw_induct[OF _ assms, where P = "\<lambda>S a nxt w r. no_spurious S \<longrightarrow> exchanged S a nxt w r"], intro impI)
  fix rw_update S a nxt and w :: "'b world" and r
  assume IH: "\<And>S a nxt w r. rw_update S a nxt w = Some r \<Longrightarrow> no_spurious S \<longrightarrow> exchanged S a nxt w r"
    and ns: "no_spurious S"
    and e: "(case atomic_read S (Uword a) w of (prev, w) \<Rightarrow> nxt prev \<bind>
      (\<lambda>v. case atomic_cmpxchg_weak S (Uword a) prev v w of (oldval, w) \<Rightarrow>
        if oldval = prev then Some (prev, w) else rw_update S a nxt w)) = Some r"
  let ?sh = "snd (others S (shr w))" and ?sh' = "snd (others S (snd (others S (shr w))))"
  from e obtain v where v: "nxt (uword ?sh a) = Some v"
    by (auto simp: atomic_defs Let_def split_beta bind_eq_Some_conv)
  show "exchanged S a nxt w r"
  proof (cases "uword ?sh' a = uword ?sh a")
    case True
    with e v ns have "r = (uword ?sh' a, w\<lparr>shr := aput (Uword a) v ?sh'\<rparr>)"
      by (simp add: atomic_defs Let_def split_beta no_spurious_def)
    then show ?thesis unfolding exchanged_def
      using v True by (intro exI[of _ ?sh'] exI[of _ v]) (simp add: others_twice)
  next
    case False
    with e v ns have "rw_update S a nxt (w\<lparr>shr := ?sh'\<rparr>) = Some r"
      by (simp add: atomic_defs Let_def split_beta no_spurious_def)
    with IH ns show ?thesis by (blast intro: exchanged_later others_twice)
  qed
qed

text \<open>
  C29. An operation on a read-write lock changes its word at one point of time only: the value it tells it
  read is the one the word has at that point, whatever the other threads do before, and the new value is the
  one computed from it; nothing else of the world is changed.
\<close>

theorem rw_update_atomic:
  assumes "rw_update S a nxt w = Some (prev, w')" and "no_spurious S"
  shows "\<exists>sh v. (others_step S)\<^sup>*\<^sup>* (shr w) sh \<and> aget (Uword a) sh = prev \<and> nxt prev = Some v \<and>
    w' = w\<lparr>shr := aput (Uword a) v sh\<rparr>"
  using rw_update_exchanged[OF assms(1)] assms(2) by (simp add: exchanged_def)

section \<open>Locking alone\<close>

lemma rw_update_alone:
  assumes "alone S" and "nxt (uword (shr w) a) = Some v"
  shows "rw_update S a nxt w = Some (uword (shr w) a, w\<lparr>shr := aput (Uword a) v (shr w)\<rparr>)"
  using assms by (simp add: rw_update.simps atomic_defs Let_def alone_def)

lemma rw_sane: "rw_magic rwlock = RWLOCK_ACTIVE_MAGIC \<Longrightarrow> rw_check_sanity S rwlock w = ((0, rwlock), w)"
  by (simp add: rw_check_sanity_def RWLOCK_ACTIVE_MAGIC_def RWLOCK_UNINIT_MAGIC_def)

lemma read_roundtrip:
  assumes "alone S" and "rw_magic rwlock = RWLOCK_ACTIVE_MAGIC"
    and "uword (shr w) (rw_lock rwlock) = rw_pack c False" and "0 < c" and "c \<le> EVL_RWLOCK_WRBIAS"
  shows "\<exists>w1. evl_lock_read S rwlock w = Some ((0, rwlock), w1) \<and> evl_unlock_read S rwlock w1 = Some ((0, rwlock), w)"
proof -
  have c: "rw_count (rw_pack c False) = c" "rw_count (rw_pack (c - 1) False) = c - 1"
    using assms(4,5) by (simp_all add: EVL_RWLOCK_WRBIAS_def)
  let ?a = "rw_lock rwlock"
  let ?w1 = "w\<lparr>shr := aput (Uword ?a) (rw_pack (c - 1) False) (shr w)\<rparr>"
  have "lock_read_next (uword (shr w) ?a) = Some (rw_pack (c - 1) False)"
    using assms(3,4) c by (simp add: lock_read_next_def)
  from rw_update_alone[OF assms(1), of lock_read_next w ?a, OF this]
  have "evl_lock_read S rwlock w = Some ((0, rwlock), ?w1)"
    using assms(3,4) c by (simp add: evl_lock_read_def rw_sane[OF assms(2)] lock_read_loop.simps)
  moreover have "evl_unlock_read S rwlock ?w1 = Some ((0, rwlock), w)"
    using assms(3,4) c rw_update_alone[OF assms(1), of "\<lambda>p. Some (unlock_read_next p)" ?w1 ?a, OF refl]
    by (simp add: evl_unlock_read_def unlock_read_next_def flip: assms(3))
  ultimately show ?thesis by blast
qed

lemma write_roundtrip:
  assumes "alone S" and "rw_magic rwlock = RWLOCK_ACTIVE_MAGIC"
    and "uword (shr w) (rw_lock rwlock) = rw_pack EVL_RWLOCK_WRBIAS False"
  shows "\<exists>w1. evl_lock_write S rwlock w = Some ((0, rwlock), w1) \<and> evl_unlock_write S rwlock w1 = Some ((0, rwlock), w)"
proof -
  let ?a = "rw_lock rwlock"
  let ?w1 = "w\<lparr>shr := aput (Uword ?a) (rw_pack 0 False) (shr w)\<rparr>"
  have n: "lock_write_next (uword (shr w) ?a) = rw_pack 0 False"
    by (simp add: assms(3) lock_write_next_def EVL_RWLOCK_WRBIAS_def)
  then have "evl_lock_write S rwlock w = Some ((0, rwlock), ?w1)"
    using rw_update_alone[OF assms(1), of "\<lambda>p. Some (lock_write_next p)" w ?a, OF refl]
    by (simp add: evl_lock_write_def rw_sane[OF assms(2)])
  moreover have "unlock_write_next (rw_pack 0 False) = Some (rw_pack EVL_RWLOCK_WRBIAS False)"
    by (simp add: unlock_write_next_def)
  then have "evl_unlock_write S rwlock ?w1 = Some ((0, rwlock), w)"
    using rw_update_alone[OF assms(1), of unlock_write_next ?w1 ?a]
    by (simp add: evl_unlock_write_def flip: assms(3))
  ultimately show ?thesis by blast
qed

text \<open>
  Locking and unlocking, by a thread the others do not interfere with, is done without any call to the
  kernel and leaves the world as it was: for a reader on a lock which is free or held by readers, and
  for a writer on a free lock.
\<close>

theorem rwlock_roundtrip:
  assumes "alone S" and "rw_magic rwlock = RWLOCK_ACTIVE_MAGIC"
    and "uword (shr w) (rw_lock rwlock) = rw_pack c False" and "0 < c" and "c \<le> EVL_RWLOCK_WRBIAS"
  shows "(\<exists>w1. evl_lock_read S rwlock w = Some ((0, rwlock), w1) \<and> evl_unlock_read S rwlock w1 = Some ((0, rwlock), w)) \<and>
    (c = EVL_RWLOCK_WRBIAS \<longrightarrow>
      (\<exists>w1. evl_lock_write S rwlock w = Some ((0, rwlock), w1) \<and> evl_unlock_write S rwlock w1 = Some ((0, rwlock), w)))"
  using read_roundtrip[OF assms] write_roundtrip[OF assms(1,2)] assms(3) by blast

section \<open>Where the lock fails\<close>

text \<open>
  The macro \<^verbatim>\<open>atomic_cmpxchg_weak\<close> returns the expected value.  When the exchange fails
  spuriously this is the value the caller read, which takes it for a success: the writer enters its section with the
  word unchanged, the lock still free for all others.
\<close>

theorem lock_write_spurious:
  assumes "\<forall>sh. others S sh = (True, sh)" and "rw_magic rwlock = RWLOCK_ACTIVE_MAGIC"
    and "uword (shr w) (rw_lock rwlock) = rw_pack EVL_RWLOCK_WRBIAS False"
  shows "evl_lock_write S rwlock w = Some ((0, rwlock), w)"
proof -
  have "lock_write_next (uword (shr w) (rw_lock rwlock)) = rw_pack 0 False"
    by (simp add: assms(3) lock_write_next_def EVL_RWLOCK_WRBIAS_def)
  then show ?thesis using assms
    by (simp add: evl_lock_write_def rw_sane rw_update.simps atomic_defs Let_def)
qed

text \<open>
  The count of the word wraps around when \<^verbatim>\<open>evl_trylock_write\<close> subtracts the bias from a count below \<open>-1\<close>, that of
  a lock two writers wait for: the difference is positive and the \<^verbatim>\<open>assert\<close> fails.
\<close>

theorem trylock_write_asserts:
  assumes "alone S" and "rw_magic rwlock = RWLOCK_ACTIVE_MAGIC"
    and "uword (shr w) (rw_lock rwlock) = rw_pack c p" and "- (2 ^ 29) \<le> c" and "c \<le> - 2"
  shows "evl_trylock_write S rwlock w = None"
proof -
  have "rw_count (rw_pack c p) = c" using assms(4,5) by simp
  then have "rw_count (trylock_write_next (rw_pack c p)) = signed_take_bit 30 (c - EVL_RWLOCK_WRBIAS)"
    by (simp add: trylock_write_next_def rw_count_pack_signed)
  also have "\<dots> = c - EVL_RWLOCK_WRBIAS + 2 ^ 31"
  proof -
    have "signed_take_bit 30 (c - EVL_RWLOCK_WRBIAS) = signed_take_bit 30 (c - EVL_RWLOCK_WRBIAS + 2 ^ 31)"
      by (simp add: signed_take_bit_eq_iff_take_bit_eq take_bit_eq_mod)
    also have "\<dots> = c - EVL_RWLOCK_WRBIAS + 2 ^ 31"
      using assms(4,5) by (intro signed_take_bit_int_eq_self) (simp_all add: EVL_RWLOCK_WRBIAS_def)
    finally show ?thesis .
  qed
  finally show ?thesis using assms(1,3,4)
    by (simp add: evl_trylock_write_def rw_sane[OF assms(2)] atomic_defs Let_def alone_def EVL_RWLOCK_WRBIAS_def)
qed

section \<open>Witnesses\<close>

definition sample_rwlock :: evl_rwlock where
  "sample_rwlock = \<lparr>rw_magic = RWLOCK_ACTIVE_MAGIC, rw_lock = 0x4000, rw_event = no_flags\<rparr>"

definition free_world :: "nat world" where
  "free_world = snd (EVL_RWLOCK_INITIALIZER 0x4000 sample_world)"

lemma free_word: "uword (shr free_world) 0x4000 = rw_pack EVL_RWLOCK_WRBIAS False"
  by (simp add: free_world_def EVL_RWLOCK_INITIALIZER_def)

theorem rwlock_roundtrip_witness:
  "\<exists>w1. evl_lock_write (sample_system no_fail) sample_rwlock free_world = Some ((0, sample_rwlock), w1) \<and>
    evl_unlock_write (sample_system no_fail) sample_rwlock w1 = Some ((0, sample_rwlock), free_world)"
  using rwlock_roundtrip[OF sample_alone, of sample_rwlock free_world EVL_RWLOCK_WRBIAS no_fail]
  by (simp add: sample_rwlock_def free_word) (simp add: EVL_RWLOCK_WRBIAS_def)

theorem rw_update_atomic_witness:
  "\<exists>sh v. (others_step (sample_system no_fail))\<^sup>*\<^sup>* (shr free_world) sh \<and>
    aget (Uword 0x4000) sh = rw_pack EVL_RWLOCK_WRBIAS False \<and> v = lock_write_next (aget (Uword 0x4000) sh)"
proof -
  let ?w = "free_world\<lparr>shr := aput (Uword 0x4000) (lock_write_next (uword (shr free_world) 0x4000)) (shr free_world)\<rparr>"
  have "rw_update (sample_system no_fail) 0x4000 (\<lambda>p. Some (lock_write_next p)) free_world =
      Some (rw_pack EVL_RWLOCK_WRBIAS False, ?w)"
    using rw_update_alone[OF sample_alone, of "\<lambda>p. Some (lock_write_next p)" free_world "0x4000", OF refl]
    by (simp add: free_word)
  from rw_update_atomic[OF this] show ?thesis
    by (auto simp: no_spurious_def sample_system_def)
qed

end
