(* ===== verification/Evl_Event_Correct.thy ===== *)
theory Evl_Event_Correct
  imports Evl_Mutex_Correct Evl_Sem_Correct Evl_Rwlock_Ops
begin

text \<open>
  Events and event flag groups: the outcomes of a wait, the path of a signal through the mutex to the kernel, and the
  requests of the flag groups.
\<close>

section \<open>Waiting for events\<close>

lemma event_sane: "evt_magic evt = EVENT_ACTIVE_MAGIC \<Longrightarrow> check_event_sanity S evt w = ((0, evt), w)"
  by (simp add: check_event_sanity_def EVENT_ACTIVE_MAGIC_def EVENT_UNINIT_MAGIC_def)

text \<open>
  C13. \<^verbatim>\<open>evl_timedwait_event\<close>: one wait request is issued, with the timeout and the mutex.  When it fails, the mutex is
  taken back by \<^verbatim>\<open>EVL_MONIOC_UNWAIT\<close>, retried when interrupted, unless the event is gone (\<^verbatim>\<open>EIDRM\<close>) or the
  mutex is not the caller's (\<^verbatim>\<open>EPERM\<close>); an interruption is reported as a success, all
  other errors as they are.
\<close>

theorem timedwait_event_outcome:
  assumes "evl_timedwait_event S evt m timeout w = Some ((ret, evt'), w')"
    and "mutex_magic m = MUTEX_ACTIVE_MAGIC" and "evt_magic evt = EVENT_ACTIVE_MAGIC"
  shows "evt' = evt \<and> (case sys S (Sys_oob_ioctl (a_efd (evt_active evt)) (EVL_MONIOC_WAIT
      \<lparr>wr_timeout = timeout, wr_gatefd = ma_efd (m_active m), wr_value = 0\<rparr>)) w of (r, w1) \<Rightarrow>
    if k_ret r = 0 then ret = 0 \<and> w' = w1
    else ret = (if errno w1 = EINTR then 0 else - errno w1) \<and>
      (if errno w1 = EIDRM \<or> errno w1 = EPERM then w' = w1
       else \<exists>u. attempts (a_efd (evt_active evt)) (EVL_MONIOC_UNWAIT (ma_efd (m_active m))) w1 (u, w')))"
  using assms
  by (auto simp: evl_timedwait_event_def event_sane Let_def oob_ioctl_eq bind_eq_Some_conv unwait_event_def
      split: prod.splits if_split_asm dest!: retry_attempts)

section \<open>Signals\<close>

lemma set_mon_flags_simps [simp]:
  "ms_flags (mon (shr (set_mon_flags a bits w)) b) = (if b = a then ms_flags (mon (shr w) a) OR bits else ms_flags (mon (shr w) b))"
  "gate (mon (shr (set_mon_flags a bits w)) b) = gate (mon (shr w) b)" "log (set_mon_flags a bits w) = log w"
  "evl_current (set_mon_flags a bits w) = evl_current w"
  by (simp_all add: set_mon_flags_def upd_mon_def)

text \<open>
  A signal is not lost: after \<^verbatim>\<open>evl_signal_event\<close> by the owner of the mutex the waiters gave up, no call was made yet,
  and the \<^verbatim>\<open>evl_unlock_mutex\<close> that releases the mutex cannot use its fast path, but asks the kernel, which passes the signal on.
  Without waiters, a signal does nothing.
\<close>

theorem signal_reaches_kernel:
  assumes "alone S" and "evt_magic evt = EVENT_ACTIVE_MAGIC" and "mutex_magic m = MUTEX_ACTIVE_MAGIC"
    and "EVL_MONITOR_SIGNALED S \<noteq> 0"
  shows "(get_lock_state S evt w = NULL \<longrightarrow> evl_signal_event S evt w = ((0, evt), w)) \<and>
    (ma_state (m_active m) \<noteq> NULL \<and> get_lock_state S evt w = ma_state (m_active m) \<and>
     evl_get_index S (g_owner (gate_of w (ma_state (m_active m)))) = evl_current w \<and>
     g_nesting (gate_of w (ma_state (m_active m))) \<le> 1 \<longrightarrow>
     (\<exists>w1 r w2. evl_signal_event S evt w = ((0, evt), w1) \<and> log w1 = log w \<and>
       sys S (Sys_oob_ioctl (ma_efd (m_active m)) EVL_MONIOC_EXIT) w1 = (r, w2) \<and>
       evl_unlock_mutex S m w1 = (if k_ret r = 0 then 0 else - errno w2, w2)))"
proof (intro conjI impI)
  show "evl_signal_event S evt w = ((0, evt), w)" if "get_lock_state S evt w = NULL"
    using that assms(2) by (simp add: evl_signal_event_def event_sane)
  assume *: "ma_state (m_active m) \<noteq> NULL \<and> get_lock_state S evt w = ma_state (m_active m) \<and>
     evl_get_index S (g_owner (gate_of w (ma_state (m_active m)))) = evl_current w \<and>
     g_nesting (gate_of w (ma_state (m_active m))) \<le> 1"
  let ?w1 = "set_mon_flags (a_state (evt_active evt)) (EVL_MONITOR_SIGNALED S)
    (set_mon_flags (ma_state (m_active m)) (EVL_MONITOR_SIGNALED S) w)"
  have s: "evl_signal_event S evt w = ((0, evt), ?w1)" using * assms(2) by (simp add: evl_signal_event_def event_sane)
  have f: "ms_flags (mon (shr ?w1) (ma_state (m_active m))) AND EVL_MONITOR_SIGNALED S \<noteq> 0"
    using assms(4) by (simp add: bit.conj_disj_distrib2)
  have "evl_unlock_mutex S m ?w1 = ret_errno (oob_ioctl S (ma_efd (m_active m)) EVL_MONIOC_EXIT ?w1)"
    using * assms(1,3) f
    by (simp add: evl_unlock_mutex_def is_mutex_owner_def gate_of_def atomic_defs alone_def Let_def evl_get_current_def
        del: set_mon_flags_simps(1))
  moreover obtain r w2 where "sys S (Sys_oob_ioctl (ma_efd (m_active m)) EVL_MONIOC_EXIT) ?w1 = (r, w2)" by force
  ultimately show "\<exists>w1 r w2. evl_signal_event S evt w = ((0, evt), w1) \<and> log w1 = log w \<and>
       sys S (Sys_oob_ioctl (ma_efd (m_active m)) EVL_MONIOC_EXIT) w1 = (r, w2) \<and>
       evl_unlock_mutex S m w1 = (if k_ret r = 0 then 0 else - errno w2, w2)"
    using s by (simp add: oob_ioctl_eq ret_errno_def)
qed

section \<open>Event flag groups\<close>

lemma flags_sane: "flg_magic flg = FLAGS_ACTIVE_MAGIC \<Longrightarrow> flags_check_sanity S flg w = ((0, flg), w)"
  by (simp add: flags_check_sanity_def FLAGS_ACTIVE_MAGIC_def FLAGS_UNINIT_MAGIC_def)

text \<open>The stage a request that may be issued from any stage is issued from.\<close>

definition any_stage :: "'k system \<Rightarrow> int \<Rightarrow> ioctl_req \<Rightarrow> 'k world \<Rightarrow> kcall" where
  "any_stage S efd req w =
     (if evl_current w \<noteq> 0 \<and> evl_get_current_mode S w AND EVL_T_INBAND S = 0 then Sys_oob_ioctl efd req else Sys_ioctl efd req)"

lemma event_ioctl_eq: "event_ioctl S efd req w = sys S (any_stage S efd req w) w"
  by (simp add: event_ioctl_def any_stage_def evl_get_current_def evl_is_inband_def oob_ioctl_eq ioctl_def)

text \<open>
  Flag groups: posting no bits is refused, posting or broadcasting some is one request, from the stage the caller runs on;
  trying to get some of the bits or exactly them is one request as well, which gives the bits received; a thread that is
  not attached cannot wait, and a wait is always issued out-of-band.  The results are those of the requests.
\<close>

theorem flags_requests:
  assumes "flg_magic flg = FLAGS_ACTIVE_MAGIC"
  defines "efd \<equiv> a_efd (flg_active flg)"
  shows "(case sys S (any_stage S efd (if bcast then EVL_MONIOC_BROADCAST bits else EVL_MONIOC_SIGNAL bits) w) w of (r, w1) \<Rightarrow>
      do_post_flags S flg bits bcast w =
        (if bits = 0 then ((- EINVAL, flg), w) else ((if k_ret r = 0 then 0 else - errno w1, flg), w1))) \<and>
    (case sys S (any_stage S efd (if exact then EVL_MONIOC_TRYWAIT_EXACT bits else EVL_MONIOC_TRYWAIT bits) w) w of (r, w1) \<Rightarrow>
      do_trywait_flags S flg bits exact w =
        (if k_ret r = 0 then ((0, flg, Some (o_u32 (k_out r))), w1) else ((- errno w1, flg, None), w1))) \<and>
    (let req = \<lparr>wr_timeout = timeout, wr_gatefd = - 1, wr_value = bits\<rparr> in
      case sys S (Sys_oob_ioctl efd (if exact then EVL_MONIOC_WAIT_EXACT req else EVL_MONIOC_WAIT req)) w of (r, w1) \<Rightarrow>
      do_timedwait_flags S flg bits exact timeout w =
        (if evl_current w = EVL_NO_HANDLE S then ((- EPERM, flg, None), w)
         else if k_ret r = 0 then ((0, flg, Some (o_u32 (k_out r))), w1) else ((- errno w1, flg, None), w1)))"
  by (simp add: do_post_flags_def do_trywait_flags_def do_timedwait_flags_def flags_sane assms event_ioctl_eq oob_ioctl_eq
      ret_errno_def evl_get_current_def Let_def split_beta)

section \<open>Witnesses\<close>

definition sample_event :: evl_event where
  "sample_event = (EVL_EVENT_INITIALIZER None 0 0)\<lparr>evt_magic := EVENT_ACTIVE_MAGIC,
     evt_active := \<lparr>a_fundle = 8, a_state = 0x1080, a_efd = 9\<rparr>\<rparr>"

lemma sample_event_simps [simp]: "evt_magic sample_event = EVENT_ACTIVE_MAGIC" "evt_active sample_event = \<lparr>a_fundle = 8, a_state = 0x1080, a_efd = 9\<rparr>"
  by (simp_all add: sample_event_def)

definition wait_fails :: "kcall \<Rightarrow> int" where
  "wait_fails c = (case c of Sys_oob_ioctl fd (EVL_MONIOC_WAIT req) \<Rightarrow> ETIMEDOUT | _ \<Rightarrow> 0)"

theorem timedwait_event_outcome_witness:
  "\<exists>w'. evl_timedwait_event (sample_system wait_fails) sample_event sample_mutex None sample_world =
    Some ((- ETIMEDOUT, sample_event), w')"
proof -
  let ?S = "sample_system wait_fails"
  have n: "\<not> (k_ret (fst (sys ?S (Sys_oob_ioctl 9 (EVL_MONIOC_UNWAIT 4)) w)) \<noteq> 0)" for w
    by (simp add: sys_def sample_system_def sample_kernel_def wait_fails_def reply_def)
  then have "\<exists>u. unwait_event ?S 9 4 w = Some u" for w
    using retry_ends[of ?S 9 "EVL_MONIOC_UNWAIT 4" 0 w] by (auto simp: unwait_event_def split_beta)
  then obtain ret e w' where r: "evl_timedwait_event ?S sample_event sample_mutex None sample_world = Some ((ret, e), w')"
    by (fastforce simp: evl_timedwait_event_def event_sane Let_def oob_ioctl_eq bind_eq_Some_conv split: prod.splits)
  have w: "k_ret (fst (sys ?S (Sys_oob_ioctl 9 (EVL_MONIOC_WAIT req)) sample_world)) = - 1"
    "errno (snd (sys ?S (Sys_oob_ioctl 9 (EVL_MONIOC_WAIT req)) sample_world)) = ETIMEDOUT" for req
    by (simp_all add: sys_def sample_system_def sample_kernel_def wait_fails_def failure_def ETIMEDOUT_def)
  from timedwait_event_outcome[OF r] w r show ?thesis
    by (auto simp: split_beta ETIMEDOUT_def EINTR_def)
qed

definition signal_world :: "nat world" where
  "signal_world = upd_mon 0x1080 (\<lambda>m. m\<lparr>event := (event m)\<lparr>e_gate_offset := 0x40\<rparr>\<rparr>) (upd_gate 0x1040 (\<lambda>g. g\<lparr>g_owner := 5\<rparr>) sample_world)"

theorem signal_reaches_kernel_witness:
  "\<exists>w1 r w2. evl_signal_event (sample_system no_fail) sample_event signal_world = ((0, sample_event), w1) \<and> log w1 = [] \<and>
     log w2 = [(Sys_oob_ioctl 4 EVL_MONIOC_EXIT, r)] \<and> evl_unlock_mutex (sample_system no_fail) sample_mutex w1 = (0, w2)"
proof -
  have s: "EVL_MONITOR_SIGNALED (sample_system no_fail) \<noteq> 0" by (simp add: sample_system_def)
  have w: "get_lock_state (sample_system no_fail) sample_event signal_world = 0x1040" "log signal_world = []"
    "gate_of signal_world 0x1040 = \<lparr>g_owner = 5, g_ceiling = 0, g_recursive = False, g_nesting = 0\<rparr>" "evl_current signal_world = 5"
    by (simp_all add: get_lock_state_def signal_world_def upd_mon_def upd_gate_def gate_of_def)
      (simp_all add: sample_world_def sample_shared_def sample_system_def idle_monitor_def)
  obtain w1 r w2 where *: "evl_signal_event (sample_system no_fail) sample_event signal_world = ((0, sample_event), w1)" "log w1 = []"
    "sys (sample_system no_fail) (Sys_oob_ioctl 4 EVL_MONIOC_EXIT) w1 = (r, w2)"
    "evl_unlock_mutex (sample_system no_fail) sample_mutex w1 = (if k_ret r = 0 then 0 else - errno w2, w2)"
    using signal_reaches_kernel[OF sample_alone, of sample_event sample_mutex no_fail signal_world] s w by auto
  moreover have "k_ret r = 0"
    using *(3) by (auto simp: sys_def sample_system_def sample_kernel_def no_fail_def reply_def)
  moreover have "log w2 = log w1 @ [(Sys_oob_ioctl 4 EVL_MONIOC_EXIT, r)]" using sys_log[of "sample_system no_fail" _ w1] *(3) by (metis fst_conv snd_conv)
  ultimately show ?thesis by auto
qed

definition sample_flags :: evl_flags where
  "sample_flags = no_flags\<lparr>flg_magic := FLAGS_ACTIVE_MAGIC\<rparr>"

theorem flags_requests_witness:
  "do_post_flags (sample_system no_fail) sample_flags 0 False sample_world = ((- EINVAL, sample_flags), sample_world)"
  using flags_requests[where flg = sample_flags and S = "sample_system no_fail" and bcast = False and bits = 0 and w = sample_world] by (simp add: sample_flags_def split_beta)

end
