(* ===== verification/Evl_Objects.thy ===== *)
theory Evl_Objects
  imports Evl_Event_Correct
begin

text \<open>
  The life of the objects built on monitors: a descriptor is closed once, and the creation of a semaphore.
\<close>

section \<open>Closing\<close>

text \<open>Closing an object several times, with the results.\<close>

primrec close_times :: "('o \<Rightarrow> 'w \<Rightarrow> (int \<times> 'o) \<times> 'w) \<Rightarrow> nat \<Rightarrow> 'o \<Rightarrow> 'w \<Rightarrow> int list \<times> 'o \<times> 'w" where
  "close_times close 0 x w = ([], x, w)"
| "close_times close (Suc n) x w =
     (case close x w of ((r, x), w) \<Rightarrow> (case close_times close n x w of (rs, y, w) \<Rightarrow> (r # rs, y, w)))"

text \<open>
  What \<open>Suc n\<close> closings come to: an object that is only initialised statically has nothing to close, and every closing succeeds without a
  call; an active one is closed by the first, and the others are refused; any other is refused always.
\<close>

definition closings :: "'k system \<Rightarrow> nat \<Rightarrow> bool \<Rightarrow> bool \<Rightarrow> int \<Rightarrow> 'o \<Rightarrow> 'k world \<Rightarrow> int list \<times> 'o \<times> 'k world \<Rightarrow> bool" where
  "closings S n uninit active fd x w out \<longleftrightarrow> (case out of (rs, y, w') \<Rightarrow>
     if uninit then rs = replicate (Suc n) 0 \<and> y = x \<and> w' = w
     else if active then rs = 0 # replicate n (- EINVAL) \<and> w' = snd (sys S (Sys_close fd) w)
     else rs = replicate (Suc n) (- EINVAL) \<and> y = x \<and> w' = w)"

locale closable =
  fixes ok :: "'o \<Rightarrow> bool" and uninit :: "'o \<Rightarrow> bool" and active :: "'o \<Rightarrow> bool" and efd :: "'o \<Rightarrow> int"
    and close :: "'k system \<Rightarrow> 'o \<Rightarrow> 'k world \<Rightarrow> (int \<times> 'o) \<times> 'k world"
  assumes close_uninit: "uninit x \<Longrightarrow> close S x w = ((0, x), w)"
    and close_active: "ok x \<Longrightarrow> \<not> uninit x \<Longrightarrow> active x \<Longrightarrow> k_ret (fst (sys S (Sys_close (efd x)) w)) = 0 \<Longrightarrow>
      \<exists>y. close S x w = ((0, y), snd (sys S (Sys_close (efd x)) w)) \<and> \<not> uninit y \<and> \<not> active y"
    and close_other: "\<not> uninit x \<Longrightarrow> \<not> active x \<Longrightarrow> close S x w = ((- EINVAL, x), w)"
begin

lemma close_uninit_times: "uninit x \<Longrightarrow> close_times (close S) n x w = (replicate n 0, x, w)"
  by (induction n) (simp_all add: close_uninit)

lemma close_other_times: "\<not> uninit x \<Longrightarrow> \<not> active x \<Longrightarrow> close_times (close S) n x w = (replicate n (- EINVAL), x, w)"
  by (induction n) (simp_all add: close_other)

lemma close_once:
  assumes "ok x" and "k_ret (fst (sys S (Sys_close (efd x)) w)) = 0"
  shows "closings S n (uninit x) (active x) (efd x) x w (close_times (close S) (Suc n) x w)"
proof (cases "\<not> uninit x \<and> active x")
  case True
  with close_active[OF assms(1) _ _ assms(2)] obtain y where
    "close S x w = ((0, y), snd (sys S (Sys_close (efd x)) w))" "\<not> uninit y" "\<not> active y" by blast
  with True show ?thesis by (simp add: closings_def close_other_times)
next
  case False
  then show ?thesis
    using close_uninit_times[of x S "Suc n" w] close_other_times[of x S "Suc n" w]
    by (auto simp: closings_def simp del: close_times.simps replicate_Suc)
qed

end

interpretation sem_close: closable "\<lambda>_. True" "\<lambda>x. sem_magic x = SEM_UNINIT_MAGIC" "\<lambda>x. sem_magic x = SEM_ACTIVE_MAGIC"
  "\<lambda>x. a_efd (sem_active x)" evl_close_sem
  by unfold_locales (auto simp: evl_close_sem_def close_fd_def Let_def split_beta
    SEM_ACTIVE_MAGIC_def SEM_UNINIT_MAGIC_def SEM_DEAD_MAGIC_def)

interpretation flags_close: closable "\<lambda>_. True" "\<lambda>x. flg_magic x = FLAGS_UNINIT_MAGIC" "\<lambda>x. flg_magic x = FLAGS_ACTIVE_MAGIC"
  "\<lambda>x. a_efd (flg_active x)" evl_close_flags
  by unfold_locales (auto simp: evl_close_flags_def close_fd_def Let_def split_beta
    FLAGS_ACTIVE_MAGIC_def FLAGS_UNINIT_MAGIC_def FLAGS_DEAD_MAGIC_def)

interpretation mutex_close: closable "\<lambda>_. True" "\<lambda>x. mutex_magic x = MUTEX_UNINIT_MAGIC" "\<lambda>x. mutex_magic x = MUTEX_ACTIVE_MAGIC"
  "\<lambda>x. ma_efd (m_active x)" evl_close_mutex
  by unfold_locales (auto simp: evl_close_mutex_def close_fd_def Let_def split_beta
    MUTEX_ACTIVE_MAGIC_def MUTEX_UNINIT_MAGIC_def MUTEX_DEAD_MAGIC_def)

interpretation event_close: closable "\<lambda>_. True" "\<lambda>x. evt_magic x = EVENT_UNINIT_MAGIC" "\<lambda>x. evt_magic x = EVENT_ACTIVE_MAGIC"
  "\<lambda>x. a_efd (evt_active x)" evl_close_event
  by unfold_locales (auto simp: evl_close_event_def close_fd_def Let_def split_beta
    EVENT_ACTIVE_MAGIC_def EVENT_UNINIT_MAGIC_def EVENT_DEAD_MAGIC_def)

text \<open>An active lock has an active flag group.\<close>

definition rwlock_sound :: "evl_rwlock \<Rightarrow> bool" where
  "rwlock_sound l \<longleftrightarrow> (rw_magic l = RWLOCK_ACTIVE_MAGIC \<longrightarrow> flg_magic (rw_event l) = FLAGS_ACTIVE_MAGIC)"

interpretation rwlock_close: closable rwlock_sound
  "\<lambda>x. rw_magic x = RWLOCK_UNINIT_MAGIC" "\<lambda>x. rw_magic x = RWLOCK_ACTIVE_MAGIC" "\<lambda>x. a_efd (flg_active (rw_event x))" evl_destroy_rwlock
  by unfold_locales (auto simp: rwlock_sound_def evl_destroy_rwlock_def evl_close_flags_def close_fd_def Let_def split_beta
    RWLOCK_ACTIVE_MAGIC_def RWLOCK_UNINIT_MAGIC_def RWLOCK_DEAD_MAGIC_def FLAGS_ACTIVE_MAGIC_def FLAGS_UNINIT_MAGIC_def)

text \<open>
  C14. No descriptor is closed twice: any number of closings of a semaphore, a flag group, a mutex, an event or a read-write lock, in any state, while the kernel
  closes what it is asked to. An active object is closed by the first one, and all the others are refused with \<^verbatim>\<open>-EINVAL\<close> without a call;
  one that was initialised statically and never used has no descriptor: all closings succeed, without a call; any other one is refused always.
\<close>

theorem closed_once:
  assumes "\<And>fd. k_ret (fst (sys S (Sys_close fd) w)) = 0" and "rwlock_sound l"
  shows "closings S n (sem_magic s = SEM_UNINIT_MAGIC) (sem_magic s = SEM_ACTIVE_MAGIC) (a_efd (sem_active s)) s w
      (close_times (evl_close_sem S) (Suc n) s w) \<and>
    closings S n (flg_magic f = FLAGS_UNINIT_MAGIC) (flg_magic f = FLAGS_ACTIVE_MAGIC) (a_efd (flg_active f)) f w
      (close_times (evl_close_flags S) (Suc n) f w) \<and>
    closings S n (mutex_magic m = MUTEX_UNINIT_MAGIC) (mutex_magic m = MUTEX_ACTIVE_MAGIC) (ma_efd (m_active m)) m w
      (close_times (evl_close_mutex S) (Suc n) m w) \<and>
    closings S n (evt_magic e = EVENT_UNINIT_MAGIC) (evt_magic e = EVENT_ACTIVE_MAGIC) (a_efd (evt_active e)) e w
      (close_times (evl_close_event S) (Suc n) e w) \<and>
    closings S n (rw_magic l = RWLOCK_UNINIT_MAGIC) (rw_magic l = RWLOCK_ACTIVE_MAGIC) (a_efd (flg_active (rw_event l))) l w
      (close_times (evl_destroy_rwlock S) (Suc n) l w)"
  using sem_close.close_once[OF TrueI assms(1)] flags_close.close_once[OF TrueI assms(1)] mutex_close.close_once[OF TrueI assms(1)]
    event_close.close_once[OF TrueI assms(1)] rwlock_close.close_once[OF assms(2,1)]
  by (intro conjI)

theorem closed_once_witness:
  "fst (close_times (evl_close_sem (sample_system no_fail)) (Suc 2) sample_sem sample_world) = [0, - EINVAL, - EINVAL]"
proof -
  have ok: "k_ret (fst (sys (sample_system no_fail) (Sys_close fd) sample_world)) = 0" for fd
    by (simp add: sys_def sample_system_def sample_kernel_def no_fail_def reply_def)
  have "rwlock_sound \<lparr>rw_magic = RWLOCK_UNINIT_MAGIC, rw_lock = 0, rw_event = no_flags\<rparr>"
    by (simp add: rwlock_sound_def RWLOCK_ACTIVE_MAGIC_def RWLOCK_UNINIT_MAGIC_def)
  note c = closed_once[OF ok this, of 2 sample_sem, THEN conjunct1]
  have "sem_magic sample_sem = SEM_ACTIVE_MAGIC" "SEM_ACTIVE_MAGIC \<noteq> SEM_UNINIT_MAGIC"
    by (simp_all add: sample_sem_def) (simp add: SEM_ACTIVE_MAGIC_def SEM_UNINIT_MAGIC_def)
  moreover have "replicate 2 (- EINVAL) = [- EINVAL, - EINVAL]" by (simp add: numeral_2_eq_2)
  ultimately show ?thesis using c by (simp add: closings_def split_beta del: close_times.simps)
qed

section \<open>Creating semaphores\<close>

lemma create_monitor_fds:
  assumes "kernel_ok S" and "create_monitor S type protocol clockfd initval flags (Some fmt) w = ((ret, ids), w')"
  shows "(0 \<le> ret \<longrightarrow> fds S w' = add_mset ret (fds S w)) \<and>
    (ret < 0 \<longrightarrow> fcntl_ok S \<longrightarrow> fds S w' = fds S w)"
  using assms(2)
  by (auto simp: create_monitor_def Let_def ENOMEM_def split: prod.splits if_split_asm
      dest!: fds_asprintf_opt create_element_fds[OF assms(1)])

text \<open>A failed creation leaves at most the descriptor of the element, when a \<^verbatim>\<open>fcntl\<close> on it failed.\<close>

lemma leaves_element_within:
  assumes "log_ext v w" and "fds S v = fds S w" and "leaves_element S w w'" and "log_ext w' u" and "fds S w' = fds S u"
  shows "leaves_element S v u"
  using assms(2,3,5) fcntl_failed_later[OF fcntl_failed_before[OF assms(1)] assms(4)] by (auto simp: leaves_element_def)

lemma create_monitor_leaves:
  assumes "kernel_ok S" and "create_monitor S type protocol clockfd initval flags (Some fmt) w = ((ret, ids), w')" and "ret < 0"
  shows "fds S w' = fds S w \<or> leaves_element S w w'"
proof -
  obtain i w1 where a: "asprintf S fmt w = (i, w1)" by force
  let ?attrs = "MonitorAttrs \<lparr>ma_type = type, ma_protocol = protocol, ma_clockfd = clockfd, ma_initval = initval\<rparr>"
  obtain efd eids w2 where c: "evl_create_element S (dev S EVL_MONITOR_DEV) (Some fmt) ?attrs flags w1 = ((efd, eids), w2)"
    by (metis surj_pair)
  have "w' = (if i < 0 then w1 else free S fmt w2)" "0 \<le> i \<Longrightarrow> ret = efd"
    using assms(2) a c by (auto simp: create_monitor_def asprintf_opt_def free_opt_def Let_def split: if_split_asm)
  then show ?thesis
    using create_element_leaves[OF assms(1) c] fds_asprintf[OF a] assms(3)
      leaves_element_within[OF asprintf_ext[OF a] _ _ free_ext[of w2 S fmt], of S]
    by (auto split: if_split_asm)
qed

text \<open>
  \<^verbatim>\<open>evl_create_sem\<close>: on success the semaphore is active, bound to the state the kernel gave its count, which holds the initial
  value, and its descriptor is the only one more the process holds.  On failure the semaphore is as it was, and so are
  the descriptors as long as \<^verbatim>\<open>fcntl\<close> does not fail.
\<close>

theorem create_sem_correct:
  assumes "kernel_ok S" and "evl_create_sem S sem clockfd initval flags (Some name) w = ((ret, sem'), w')"
  shows "(0 \<le> ret \<longrightarrow> sem_magic sem' = SEM_ACTIVE_MAGIC \<and> a_efd (sem_active sem') = ret \<and>
      aget (Value (a_state (sem_active sem'))) (shr w') = initval \<and> fds S w' = add_mset ret (fds S w)) \<and>
    (ret < 0 \<longrightarrow> sem' = sem \<and> (fcntl_ok S \<longrightarrow> fds S w' = fds S w))"
proof -
  obtain efd ids w1 where c: "create_monitor S (EVL_MONITOR_EVENT S) (EVL_EVENT_COUNT S) clockfd initval flags (Some name) w =
      ((efd, ids), w1)" by (metis surj_pair)
  have fds_shr: "fds S (w1\<lparr>shr := sh\<rparr>) = fds S w1" for sh by (simp add: fds_def)
  from assms(2) c create_monitor_fds[OF assms(1) c] show ?thesis
    by (auto simp: evl_create_sem_def Let_def ENXIO_def atomic_store_def interfere_def split_beta fds_shr split: if_split_asm)
qed

theorem create_sem_correct_witness:
  "case evl_create_sem (sample_system no_fail) (EVL_SEM_INITIALIZER [] 0 0 0) 0 3 0 (Some ''x'') sample_world of ((ret, sem), w) \<Rightarrow>
    ret = 4 \<and> fds (sample_system no_fail) w = {#4#} \<and> aget (Value (a_state (sem_active sem))) (shr w) = 3"
proof -
  let ?c = "evl_create_sem (sample_system no_fail) (EVL_SEM_INITIALIZER [] 0 0 0) 0 3 0 (Some ''x'') sample_world"
  obtain ret sem w where r: "?c = ((ret, sem), w)" by (metis surj_pair)
  have "fst (fst ?c) = 4"
    by (simp add: sample_defs create_defs evl_create_sem_def create_monitor_def asprintf_opt_def atomic_defs free_opt_def)
  moreover have "fds (sample_system no_fail) sample_world = {#}" by (simp add: fds_def sample_world_def)
  ultimately show ?thesis using create_sem_correct[OF sample_kernel_ok r] by (simp add: r)
qed

end
