(* ===== verification/Evl_Process_Correct.thy ===== *)
theory Evl_Process_Correct
  imports Evl_Objects
begin

text \<open>
  Printing to proxies, the initialisation of the process and the attachment of threads.
\<close>

section \<open>Proxies\<close>

definition write_call :: "'k system \<Rightarrow> int \<Rightarrow> string \<Rightarrow> int \<Rightarrow> 'k world \<Rightarrow> kcall" where
  "write_call S fd buf cnt w = (if evl_is_inband S w then Sys_write fd buf cnt else Sys_oob_write fd buf cnt)"

lemma conforming_write_eq:
  "conforming_write S fd buf cnt w = (case sys S (write_call S fd buf cnt w) w of (r, w') \<Rightarrow> (if k_ret r \<noteq> 0 then - errno w' else 0, w'))"
  by (simp add: conforming_write_def write_call_def oob_write_eq split_beta)

text \<open>
  The result of \<^verbatim>\<open>evl_write_proxy\<close>: the macro \<^verbatim>\<open>__evl_conforming_io\<close> takes the count of a successful write for an error, and
  the caller gets the negated \<^verbatim>\<open>errno\<close> of an earlier failure, zero when there was none.
\<close>

theorem write_proxy_count_lost:
  assumes "sys S (write_call S fd buf cnt w) w = (r, w')" and "0 < k_ret r" and "0 \<le> errno w"
  shows "evl_write_proxy S fd buf cnt w = (- errno w, w')"
proof -
  have "errno w' = errno w" using assms sys_errno[of S "write_call S fd buf cnt w" w] by simp
  then show ?thesis using assms by (auto simp: evl_write_proxy_def conforming_write_eq)
qed

lemma vsnprintf_buf_length: "length old = fmt_buf_size \<Longrightarrow> length (vsnprintf_buf txt old) = fmt_buf_size"
  by (simp add: vsnprintf_buf_def Let_def fmt_buf_size_def)

lemma vsnprintf_buf_text: "take (min (length txt) (fmt_buf_size - 1)) (vsnprintf_buf txt old) = take (fmt_buf_size - 1) txt"
  by (simp add: vsnprintf_buf_def Let_def min_def)

text \<open>
  C34. Printing to a proxy: the buffer keeps its size, and one call on the stage of the caller writes from it as many bytes as the text
  is long. These are the text itself exactly when it has less than 1024 characters; the buffer holds the first 1023 of a longer one, and a null byte.
  The call stays within the buffer exactly when the text has at most 1024 characters: it reads past its end for all longer ones.
\<close>

theorem vprint_proxy_buffer:
  assumes "length (fmt_buf w) = fmt_buf_size" and "0 \<le> proxyfd" and "CHR 0x00 \<notin> set txt"
  shows "\<exists>buf cnt r. log (snd (evl_vprint_proxy S proxyfd (Some txt) w)) = log w @ [(write_call S proxyfd buf (int cnt) w, r)] \<and>
    fmt_buf (snd (evl_vprint_proxy S proxyfd (Some txt) w)) = buf \<and> length buf = fmt_buf_size \<and>
    (take cnt buf = txt \<longleftrightarrow> length txt < fmt_buf_size) \<and>
    (fmt_buf_size \<le> length txt \<longrightarrow> buf = take (fmt_buf_size - 1) txt @ [CHR 0x00]) \<and>
    (cnt \<le> length buf \<longleftrightarrow> length txt \<le> fmt_buf_size)"
proof -
  let ?buf = "vsnprintf_buf txt (fmt_buf w)"
  have e: "evl_is_inband S (w\<lparr>fmt_buf := b\<rparr>) = evl_is_inband S w" for b
    by (simp add: evl_is_inband_def evl_get_current_mode_def)
  have call: "snd (evl_vprint_proxy S proxyfd (Some txt) w) = snd (sys S (write_call S proxyfd ?buf (int (length txt)) w) (w\<lparr>fmt_buf := ?buf\<rparr>))"
    using assms(2) by (simp add: evl_vprint_proxy_def Let_def evl_write_proxy_def conforming_write_eq split_beta write_call_def e)
  have len: "length ?buf = fmt_buf_size" by (rule vsnprintf_buf_length[OF assms(1)])
  have cut: "?buf = take (fmt_buf_size - 1) txt @ [CHR 0x00]" if "fmt_buf_size \<le> length txt"
    using that assms(1) by (simp add: vsnprintf_buf_def Let_def fmt_buf_size_def)
  have "take (length txt) ?buf = txt \<longleftrightarrow> length txt < fmt_buf_size"
  proof
    assume *: "take (length txt) ?buf = txt"
    show "length txt < fmt_buf_size"
    proof (rule ccontr)
      assume n: "\<not> length txt < fmt_buf_size"
      then have "length txt = fmt_buf_size" using arg_cong[OF *, of length] len by simp
      with cut n * have "txt = take (fmt_buf_size - 1) txt @ [CHR 0x00]" by (simp add: fmt_buf_size_def)
      then show False using assms(3) by (metis in_set_conv_decomp)
    qed
  qed (simp add: vsnprintf_buf_def Let_def)
  with call len cut show ?thesis
    by (intro exI[of _ ?buf] exI[of _ "length txt"] exI[of _ "fst (sys S (write_call S proxyfd ?buf (int (length txt)) w) (w\<lparr>fmt_buf := ?buf\<rparr>))"])
      (simp add: sys_log)
qed

definition print_world :: "nat world" where
  "print_world = sample_world\<lparr>fmt_buf := replicate 1024 CHR 0x00\<rparr>"

theorem vprint_proxy_buffer_witness:
  "\<exists>buf cnt r. log (snd (evl_vprint_proxy (sample_system no_fail) 6 (Some ''ab'') print_world)) =
    [(write_call (sample_system no_fail) 6 buf (int cnt) print_world, r)] \<and> take cnt buf = ''ab'' \<and> cnt \<le> 1024"
proof -
  have w: "length (fmt_buf print_world) = fmt_buf_size" "log print_world = []"
    by (simp_all add: print_world_def fmt_buf_size_def sample_world_def)
  have "CHR 0x00 \<notin> set ''ab''" by simp
  from vprint_proxy_buffer[of print_world 6 "''ab''" "sample_system no_fail", OF w(1) _ this] w(2) show ?thesis
    by (fastforce simp: fmt_buf_size_def)
qed

section \<open>Initialisation\<close>

text \<open>
  \<^verbatim>\<open>evl_init\<close> initialises the process once: calling it again gives the same status and changes nothing, until
  a fork; in the child, the initialisation is done again.
\<close>

theorem init_idempotent:
  assumes "evl_init S w = Some (ret, w')"
  shows "evl_init S w' = Some (ret, w') \<and> init_once (atfork_unmap_shmem S w') = False \<and>
    shared_memory (atfork_unmap_shmem S w') = NULL \<and> evl_ctlfd (atfork_unmap_shmem S w') < 0"
  using assms
  by (auto simp: evl_init_def do_init_once_def atfork_unmap_shmem_def Let_def close_fd_def split_beta split: if_split_asm)

theorem init_idempotent_witness: "evl_init (sample_system no_fail) sample_world = Some (0, sample_world)"
proof -
  have "evl_init (sample_system no_fail) sample_world = Some (0, sample_world)" by (simp add: evl_init_def sample_world_def)
  from init_idempotent[OF this] show ?thesis by blast
qed

section \<open>The core interface\<close>

text \<open>The core information, the control device and the shared memory are set by the initialisation only.\<close>

abbreviation core_kept :: "'k world \<Rightarrow> 'k world \<Rightarrow> bool" where
  "core_kept w w' \<equiv> core_info w' = core_info w \<and> evl_ctlfd w' = evl_ctlfd w \<and> shared_memory w' = shared_memory w"

lemma core_info_sys: "sys S c w = (r, w') \<Longrightarrow> core_kept w w' \<and> evl_mono_clockfd w' = evl_mono_clockfd w"
  by (auto simp: sys_def Let_def split_beta)

lemma fds_fields [simp]: "fds S (w\<lparr>evl_mono_clockfd := a\<rparr>) = fds S w" "fds S (w\<lparr>evl_real_clockfd := b\<rparr>) = fds S w"
  "fds S (w\<lparr>evl_ctlfd := c, shared_memory := d\<rparr>) = fds S w" "fds S (w\<lparr>core_info := e\<rparr>) = fds S w"
  by (simp_all add: fds_def)

lemma core_info_open:
  assumes "evl_open_element S type name w = (ret, w')"
  shows "core_kept w w' \<and> evl_mono_clockfd w' = evl_mono_clockfd w"
  using assms
  by (auto simp: evl_open_element_def evl_open_element_vargs_def asprintf_def free_def close_fd_def Let_def
      split: prod.splits if_split_asm dest!: core_info_sys) (metis core_info_sys surjective_pairing)+

lemma open_spec:
  assumes "evl_open_element S type name w = (ret, w')" and "kernel_ok S"
  shows "fds S w' = (if ret < 0 then fds S w else add_mset ret (fds S w)) \<and> core_kept w w' \<and> evl_mono_clockfd w' = evl_mono_clockfd w"
  using open_element_fds[OF assms(2)] core_info_open assms(1) by (simp add: evl_open_element_def)

lemma close_spec:
  assumes "close_fd S fd w = (i, w')"
  shows "fds S w' = fds S w - {#fd#} \<and> core_kept w w' \<and> evl_real_clockfd w' = evl_real_clockfd w"
proof -
  have "w' = snd (sys S (Sys_close fd) w)" using assms by (auto simp: close_fd_def split: prod.splits)
  with fds_close[OF assms] core_info_sys[of S "Sys_close fd" w _ w'] show ?thesis by (simp add: prod_eq_iff)
qed

lemma read_clock_spec:
  assumes "evl_read_clock S fd w = (r, w')"
  shows "core_kept w w' \<and> fds S w' = fds S w"
  using assms
  by (auto simp: evl_read_clock_def evl_clock_gettime_def gettime_fallback_def oob_ioctl_eq Let_def fd_step_def
      split: prod.splits if_split_asm dest: core_info_sys sys_fdsD)

lemma attach_clocks_spec:
  assumes "evl_attach_clocks S w = (ret, w')" and "kernel_ok S"
  shows "core_kept w w' \<and>
    (ret = 0 \<longrightarrow> (\<exists>a b. 0 \<le> a \<and> 0 \<le> b \<and> fds S w' = add_mset a (add_mset b (fds S w)))) \<and>
    (ret \<noteq> 0 \<longrightarrow> fds S w' = fds S w)"
  using assms(1)
  apply (simp add: evl_attach_clocks_def Let_def split: prod.splits if_split_asm)
  subgoal by (auto dest!: open_spec[OF _ assms(2)])
  subgoal by (auto dest!: open_spec[OF _ assms(2)] close_spec)
  subgoal by (auto dest!: open_spec[OF _ assms(2)] read_clock_spec)
      (metis add_mset_commute not_less)
  done

lemma init_fail_spec:
  assumes "init_fail S ctlfd r w = (ret, w')"
  shows "ret = r \<and> fds S w' = fds S w - {#ctlfd#} \<and> core_kept w w'"
  using assms by (auto simp: init_fail_def Let_def split: prod.splits dest!: close_spec)

definition abi_ok :: "evl_core_info \<Rightarrow> bool" where
  "abi_ok c \<longleftrightarrow> abi_base c \<le> EVL_ABI_PREREQ \<and> EVL_ABI_PREREQ \<le> abi_current c"

lemma abi_base_unknown [simp]: "\<not> abi_ok (c\<lparr>abi_base := - 1\<rparr>)"
proof -
  have "\<not> (- 1 :: u32) \<le> 43" using word_order.extremum_unique[of "43 :: u32"] by simp
  then show ?thesis by (simp add: abi_ok_def EVL_ABI_PREREQ_def)
qed

lemma fd_step_init [simp]:
  "fd_step S (Lib_atfork h, r) M = M" "fd_step S (Sys_mmap n fd, r) M = M" "fd_step S (Sys_ioctl fd EVL_CTLIOC_GET_COREINFO, r) M = M"
  by (simp_all add: fd_step_def)

lemma call_spec:
  assumes "sys S c w = (r, w')" and "kernel_ok S"
  shows "fds S w' = fd_step S (c, r) (fds S w) \<and> core_kept w w' \<and> (k_ret r < 0 \<longrightarrow> 0 < errno w') \<and>
    (status_call c \<longrightarrow> k_ret r \<noteq> 0 \<longrightarrow> 0 < errno w')"
  using sys_spec[OF assms] core_info_sys[OF assms(1)] by simp

text \<open>
  How the initialisation ends: the shared memory is mapped, and the fork handler set; or the mapping failed, and the control
  device is closed.
\<close>

definition mapped :: "int \<Rightarrow> 'k world \<Rightarrow> bool" where
  "mapped ctlfd w \<longleftrightarrow> (\<exists>l r r'. log w = l @ [(Sys_mmap (shm_size (core_info w)) ctlfd, r), (Lib_atfork Atfork_unmap_shmem, r')] \<and>
     0 \<le> k_ret r \<and> shared_memory w = o_addr (k_out r))"

definition map_failed :: "'k world \<Rightarrow> bool" where
  "map_failed w \<longleftrightarrow> (\<exists>l ctlfd r r'. log w = l @ [(Sys_mmap (shm_size (core_info w)) ctlfd, r), (Sys_close ctlfd, r')] \<and> k_ret r < 0)"

lemma init_attach_mapped:
  assumes "sys S (Sys_mmap (shm_size (core_info w)) ctlfd) w = (r, w1)"
  shows "0 \<le> k_ret r \<Longrightarrow> sys S (Lib_atfork Atfork_unmap_shmem) w1 = (r', w2) \<Longrightarrow>
      mapped ctlfd (w2\<lparr>evl_ctlfd := ctlfd, shared_memory := o_addr (k_out r)\<rparr>)"
    and "k_ret r < 0 \<Longrightarrow> init_fail S ctlfd e w1 = (ret, w2) \<Longrightarrow> map_failed w2"
proof -
  have l: "log w1 = log w @ [(Sys_mmap (shm_size (core_info w)) ctlfd, r)]" "core_info w1 = core_info w"
    using sys_log[of S "Sys_mmap (shm_size (core_info w)) ctlfd" w] core_info_sys[OF assms] assms by simp_all
  show "mapped ctlfd (w2\<lparr>evl_ctlfd := ctlfd, shared_memory := o_addr (k_out r)\<rparr>)"
    if "0 \<le> k_ret r" and a: "sys S (Lib_atfork Atfork_unmap_shmem) w1 = (r', w2)"
    using sys_log[of S "Lib_atfork Atfork_unmap_shmem" w1] core_info_sys[OF a] a l that(1) by (auto simp: mapped_def)
  show "map_failed w2" if "k_ret r < 0" and "init_fail S ctlfd e w1 = (ret, w2)"
    using that l sys_log[of S "Sys_close ctlfd" w1] core_info_sys[of S "Sys_close ctlfd" w1]
    by (auto simp: map_failed_def init_fail_def close_fd_def Let_def split: prod.splits)
qed

lemma init_attach_spec:
  assumes "init_attach S ctlfd w = (ret, w')" and "kernel_ok S"
  shows "core_info w' = core_info w \<and>
    (\<not> abi_ok (core_info w) \<longrightarrow> ret = - ENOEXEC \<and> fds S w' = fds S w - {#ctlfd#}) \<and>
    (ret = 0 \<longrightarrow> abi_ok (core_info w) \<and> evl_ctlfd w' = ctlfd \<and> mapped ctlfd w' \<and>
      (\<exists>a b. 0 \<le> a \<and> 0 \<le> b \<and> fds S w' = add_mset a (add_mset b (fds S w)))) \<and>
    (ret \<noteq> 0 \<longrightarrow> evl_ctlfd w' = evl_ctlfd w \<and> shared_memory w' = shared_memory w \<and>
      (fds S w' = fds S w - {#ctlfd#} \<or>
       map_failed w' \<and> (\<exists>a b. 0 \<le> a \<and> 0 \<le> b \<and> fds S w' = add_mset a (add_mset b (fds S w)) - {#ctlfd#})))"
proof (cases "abi_ok (core_info w)")
  case False
  then have "EVL_ABI_PREREQ < abi_base (core_info w) \<or> EVL_ABI_PREREQ > abi_current (core_info w)"
    by (auto simp: abi_ok_def not_le)
  with False assms(1) show ?thesis
    by (auto simp: init_attach_def Let_def ENOEXEC_def split: prod.splits dest!: init_fail_spec call_spec[OF _ assms(2)])
next
  case True
  then have abi: "\<not> (EVL_ABI_PREREQ < abi_base (core_info w) \<or> EVL_ABI_PREREQ > abi_current (core_info w))"
    by (auto simp: abi_ok_def)
  obtain cret w1 where c: "evl_attach_clocks S w = (cret, w1)" by force
  note cs = attach_clocks_spec[OF c assms(2)]
  obtain r w2 where m: "sys S (Sys_mmap (shm_size (core_info w1)) ctlfd) w1 = (r, w2)" by force
  note ms = call_spec[OF m assms(2)]
  consider (clocks) "cret \<noteq> 0" | (unmapped) "cret = 0" "k_ret r < 0" | (ok) "cret = 0" "0 \<le> k_ret r" by linarith
  then show ?thesis
  proof cases
    case clocks
    with assms(1) abi c have "init_fail S ctlfd cret w1 = (ret, w')" by (simp add: init_attach_def)
    from init_fail_spec[OF this] clocks cs True show ?thesis by simp
  next
    case unmapped
    with assms(1) abi c m have f: "init_fail S ctlfd (- errno w2) w2 = (ret, w')" by (simp add: init_attach_def)
    obtain a b where ab: "0 \<le> a" "0 \<le> b" "fds S w1 = add_mset a (add_mset b (fds S w))" using cs unmapped by blast
    have "ret \<noteq> 0" using init_fail_spec[OF f] ms unmapped by simp
    moreover have "fds S w' = add_mset a (add_mset b (fds S w)) - {#ctlfd#}" using init_fail_spec[OF f] ms ab by simp
    ultimately show ?thesis using init_fail_spec[OF f] init_attach_mapped(2)[OF m unmapped(2) f] ms cs True ab(1,2) by (simp only: simp_thms) blast
  next
    case ok
    obtain r' w3 where a: "sys S (Lib_atfork Atfork_unmap_shmem) w2 = (r', w3)" by force
    have w': "w' = w3\<lparr>evl_ctlfd := ctlfd, shared_memory := o_addr (k_out r)\<rparr>" "ret = 0"
      using assms(1) abi c m a ok by (simp_all add: init_attach_def)
    have "mapped ctlfd w'" unfolding w' by (rule init_attach_mapped(1)[OF m ok(2) a])
    with w' call_spec[OF a assms(2)] ms ok cs True show ?thesis by auto
  qed
qed

text \<open>
  C35. The attachment of the process to the core: when the initialisation succeeds, the range of interface versions the
  core supports contains the one of the library, the process holds the control device and the two clocks, and the memory shared with the core is mapped
  from the control device. When it fails, neither the control device nor the shared memory is set, and the process holds no descriptor more, unless the
  mapping is what failed: then the two clocks stay open. A core out of range is always refused.
\<close>

theorem generic_init_correct:
  assumes "kernel_ok S" and "generic_init S w = (ret, w')"
  shows "(ret = 0 \<longrightarrow> abi_ok (core_info w') \<and> 0 \<le> evl_ctlfd w' \<and> mapped (evl_ctlfd w') w' \<and>
      (\<exists>a b. fds S w' = {#a, b, evl_ctlfd w'#} + fds S w)) \<and>
    (ret \<noteq> 0 \<longrightarrow> evl_ctlfd w' = evl_ctlfd w \<and> shared_memory w' = shared_memory w \<and>
      (fds S w' = fds S w \<or> map_failed w' \<and> (\<exists>a b. fds S w' = {#a, b#} + fds S w))) \<and>
    (\<not> abi_ok (core_info w') \<longrightarrow> ret \<noteq> 0 \<and> fds S w' = fds S w)"
  using assms(2)
  apply (simp add: generic_init_def Let_def ioctl_def split: prod.splits if_split_asm)
  subgoal by (clarsimp simp: ENOSYS_def dest!: call_spec[OF _ assms(1)])
  subgoal by (clarsimp dest!: call_spec[OF _ assms(1)])
  subgoal by (clarsimp dest!: init_fail_spec call_spec[OF _ assms(1)])
  subgoal by (clarsimp dest!: init_fail_spec call_spec[OF _ assms(1)])
  subgoal by (clarsimp dest!: init_fail_spec call_spec[OF _ assms(1)])
  subgoal by (clarsimp simp: ENOEXEC_def dest!: init_attach_spec[OF _ assms(1)] call_spec[OF _ assms(1)])
  subgoal by (clarsimp simp: ENOEXEC_def dest!: init_attach_spec[OF _ assms(1)] call_spec[OF _ assms(1)]; blast)
  done

definition core_fails :: "kcall \<Rightarrow> int" where
  "core_fails c = (case c of Sys_ioctl fd rq \<Rightarrow> (case rq of EVL_CTLIOC_GET_COREINFO \<Rightarrow> ENOTTY | _ \<Rightarrow> 0) | _ \<Rightarrow> 0)"

theorem generic_init_correct_witness:
  "let (r, w) = generic_init (sample_system core_fails) sample_world in
    abi_base (core_info w) = - 1 \<and> r \<noteq> 0 \<and> fds (sample_system core_fails) w = {#}"
proof -
  let ?g = "generic_init (sample_system core_fails) sample_world"
  obtain r w where g: "?g = (r, w)" by force
  have c: "core_info (snd ?g) = sample_core\<lparr>abi_base := - 1\<rparr>"
    by (simp add: generic_init_def Let_def ioctl_def init_attach_def init_fail_def close_fd_def sample_defs core_fails_def
        ENOTTY_def EVL_ABI_PREREQ_def word_order.extremum_strict)
  have f: "fds (sample_system core_fails) sample_world = {#}" by (simp add: fds_def sample_world_def)
  from generic_init_correct[OF sample_kernel_ok g] c f show ?thesis by (simp add: g)
qed

section \<open>Attachment of threads\<close>

lemma clear_tls_fds [simp]: "fds S (clear_tls S w) = fds S w" "fds S (w\<lparr>atfork_once := b\<rparr>) = fds S w"
  "fds S (w\<lparr>evl_current := h, evl_current_window := a, evl_current_efd := d\<rparr>) = fds S w"
  by (simp_all add: clear_tls_def fds_def)

lemma fd_step_thread [simp]:
  "fd_step S (Lib_getschedparam, r) M = M" "fd_step S (Sys_oob_ioctl fd rq, r) M = M" "fd_step S (Sys_ioctl fd EVL_THRIOC_DETACH_SELF, r) M = M"
  by (simp_all add: fd_step_def)

lemma tls_sys: "sys S c w = (r, w') \<Longrightarrow> evl_current_efd w' = evl_current_efd w \<and> evl_current w' = evl_current w"
  using sys_frame(2,3)[of S c w] by simp

definition getschedparam_ok :: "'k system \<Rightarrow> bool" where
  "getschedparam_ok S \<longleftrightarrow> (\<forall>sh. k_ret (fst (kernel S Lib_getschedparam sh)) = 0)"

lemma tls_call:
  assumes "sys S c w = (r, w')" and "kernel_ok S" and "getschedparam_ok S"
  shows "fds S w' = fd_step S (c, r) (fds S w) \<and> evl_current_efd w' = evl_current_efd w \<and> evl_current w' = evl_current w \<and>
    (status_call c \<longrightarrow> k_ret r \<noteq> 0 \<longrightarrow> 0 < errno w') \<and> (c = Lib_getschedparam \<longrightarrow> k_ret r = 0)"
  using sys_spec[OF assms(1,2)] tls_sys[OF assms(1)] assms by (auto simp: getschedparam_ok_def sys_def split_beta Let_def)

lemma proc_call:
  assumes "sys S c w = (r, w')" and "kernel_ok S"
  shows "fds S w' = fd_step S (c, r) (fds S w) \<and> evl_current_efd w' = evl_current_efd w \<and> evl_current w' = evl_current w \<and>
    (status_call c \<longrightarrow> k_ret r \<noteq> 0 \<longrightarrow> 0 < errno w')"
  using sys_spec[OF assms(1,2)] tls_sys[OF assms(1)] by auto

lemma close_tls:
  assumes "close_fd S fd w = (i, w')"
  shows "fds S w' = fds S w - {#fd#} \<and> evl_current_efd w' = evl_current_efd w \<and> evl_current w' = evl_current w"
  using fds_close[OF assms] assms by (auto simp: close_fd_def split: prod.splits dest: tls_sys)

lemma attach_element_spec:
  assumes "attach_element S efd eids w = (ret, w')" and "kernel_ok S" and "getschedparam_ok S" and "0 \<le> efd"
  shows "(0 \<le> ret \<longrightarrow> ret = efd \<and> evl_current_efd w' = efd \<and> evl_current w' = eid_fundle eids \<and> fds S w' = fds S w) \<and>
    (ret < 0 \<longrightarrow> evl_current w' = EVL_NO_HANDLE S \<and> evl_current_efd w' = - 1 \<and> fds S w' = fds S w - {#efd#})"
  using assms(1,4)
  apply (simp add: attach_element_def Let_def oob_ioctl_eq attach_fail_def do_atfork_once_def split: prod.splits if_split_asm)
  subgoal by (clarsimp dest!: tls_call[OF _ assms(2,3)])
  subgoal by (clarsimp simp: clear_tls_def fds_sys dest!: tls_call[OF _ assms(2,3)] close_tls)
  subgoal by (clarsimp simp: clear_tls_def fds_sys dest!: tls_call[OF _ assms(2,3)] close_tls)
  subgoal by (clarsimp simp: clear_tls_def fds_sys dest!: tls_call[OF _ assms(2,3)] close_tls)
  subgoal by (clarsimp simp: clear_tls_def fds_sys dest!: tls_call[OF _ assms(2,3)] close_tls)
  done

lemma detach_thread_spec:
  assumes "evl_detach_thread S 0 w = (ret, w')" and "kernel_ok S"
  shows "(ret = 0 \<longrightarrow> evl_current w \<noteq> EVL_NO_HANDLE S \<and> evl_current w' = EVL_NO_HANDLE S \<and> evl_current_efd w' = - 1 \<and>
      fds S w' = fds S w - {#evl_current_efd w#}) \<and>
    (ret \<noteq> 0 \<longrightarrow> ret < 0 \<and> evl_current w' = evl_current w \<and> evl_current_efd w' = evl_current_efd w \<and> fds S w' = fds S w)"
  using assms(1)
  apply (simp add: evl_detach_thread_def Let_def oob_ioctl_eq ioctl_def EPERM_def split: prod.splits if_split_asm)
  subgoal by (clarsimp simp: clear_tls_def dest!: proc_call[OF _ assms(2)] close_tls)
  subgoal by (clarsimp simp: clear_tls_def dest!: proc_call[OF _ assms(2)] close_tls)
  done

lemma asprintf_tls: "asprintf S s w = (i, w') \<Longrightarrow> evl_current w' = evl_current w"
  and free_tls [simp]: "evl_current (free S s w) = evl_current w"
  and lart_tls [simp]: "evl_current (lart_once S w) = evl_current w"
  by (auto simp: asprintf_def free_def lart_once_def do_lart_once_def split: prod.splits dest: tls_sys)

lemma flip_tls: "flip_fd_flags S efd cmd fl w = (i, w') \<Longrightarrow> evl_current w' = evl_current w"
  by (auto simp: flip_fd_flags_def Let_def split: prod.splits if_split_asm dest!: tls_sys)

lemma create_out_tls:
  "create_out_new S d fd r w = (x, w') \<Longrightarrow> evl_current w' = evl_current w"
  "create_out_element S e d fd r w = (x, w') \<Longrightarrow> evl_current w' = evl_current w"
  by (auto simp: create_out_element_def create_out_new_def Let_def split: prod.splits option.splits dest!: close_tls)

lemma create_finish_tls: "create_finish S n efd ids e d fd w = (x, w') \<Longrightarrow> evl_current w' = evl_current w"
  by (auto simp: create_finish_def Let_def split: prod.splits if_split_asm dest!: flip_tls create_out_tls)

lemma create_element_tls:
  assumes "evl_create_element S type name attrs flags w = (x, w')"
  shows "evl_current w' = evl_current w"
  using assms
  by (auto simp: evl_create_element_def create_cloned_def ioctl_def Let_def split: prod.splits if_split_asm
      dest!: asprintf_tls tls_sys create_out_tls create_finish_tls)

text \<open>
  C36. Threads, in an initialised process: attaching adds the descriptor it returns, which becomes that of the current thread; an attached thread
  cannot attach again; a failure leaves the thread unattached and, as long as \<^verbatim>\<open>fcntl\<close> does not fail, no
  descriptor open.  Detaching closes the descriptor and forgets the thread, or fails with no change.
\<close>

theorem attach_detach_thread:
  assumes "kernel_ok S" and "getschedparam_ok S" and "init_once w" and "init_status w = 0"
    and "evl_attach_thread S flags (Some name) w = Some (ret, w')" and "evl_detach_thread S 0 w' = (ret2, w2)"
  shows "(evl_current w \<noteq> EVL_NO_HANDLE S \<longrightarrow> ret = - EBUSY \<and> w' = w) \<and>
    (evl_current w = EVL_NO_HANDLE S \<longrightarrow>
      (0 \<le> ret \<longrightarrow> evl_current_efd w' = ret \<and> fds S w' = add_mset ret (fds S w) \<and>
        (ret2 = 0 \<longrightarrow> evl_current w2 = EVL_NO_HANDLE S \<and> evl_current_efd w2 = - 1 \<and> fds S w2 = fds S w) \<and>
        (ret2 \<noteq> 0 \<longrightarrow> ret2 < 0 \<and> evl_current w2 = evl_current w' \<and> evl_current_efd w2 = ret \<and> fds S w2 = fds S w')) \<and>
      (ret < 0 \<longrightarrow> evl_current w' = EVL_NO_HANDLE S \<and> (fcntl_ok S \<longrightarrow> fds S w' = fds S w)))"
proof -
  have attach: "(evl_current w \<noteq> EVL_NO_HANDLE S \<longrightarrow> ret = - EBUSY \<and> w' = w) \<and>
    (evl_current w = EVL_NO_HANDLE S \<longrightarrow>
      (0 \<le> ret \<longrightarrow> evl_current_efd w' = ret \<and> fds S w' = add_mset ret (fds S w)) \<and>
      (ret < 0 \<longrightarrow> evl_current w' = EVL_NO_HANDLE S \<and> (fcntl_ok S \<longrightarrow> fds S w' = fds S w)))"
  proof -
    obtain r1 w1 where a: "asprintf S name w = (r1, w1)" by force
    obtain efd eids w3 where c: "evl_create_element S (dev S EVL_THREAD_DEV) (Some name) NoAttrs flags w1 = ((efd, eids), w3)"
      by (metis surj_pair)
    note f = fds_asprintf[OF a] create_element_fds[OF assms(1) c] asprintf_tls[OF a] create_element_tls[OF c]
    show ?thesis
    proof (cases "evl_current w \<noteq> EVL_NO_HANDLE S \<or> r1 < 0 \<or> efd < 0")
      case True
      with f a c assms(3-5) show ?thesis
        by (auto simp: evl_attach_thread_def evl_init_def asprintf_opt_def free_opt_def Let_def ENOMEM_def EBUSY_def split: if_split_asm)
    next
      case False
      with a c assms(3-5) have e: "attach_element S efd (the eids) (free S name w3) = (ret, w')"
        by (simp add: evl_attach_thread_def evl_init_def asprintf_opt_def free_opt_def Let_def)
      from False attach_element_spec[OF e assms(1,2)] f show ?thesis by auto
    qed
  qed
  from attach detach_thread_spec[OF assms(6,1)] show ?thesis by auto
qed

text \<open>
  \<^verbatim>\<open>pthread_getschedparam\<close> returns a positive error number, which is returned as it is: the failure looks like a descriptor.
\<close>

theorem attach_positive_error:
  assumes "sys S Lib_getschedparam (w\<lparr>evl_current := eid_fundle eids,
      evl_current_window := shared_memory w + ucast (eid_state_offset eids), evl_current_efd := efd\<rparr>) = (r, w1)" and "0 < k_ret r"
  shows "fst (attach_element S efd eids w) = k_ret r" and "0 < fst (attach_element S efd eids w)"
  using assms by (simp_all add: attach_element_def attach_fail_def Let_def split_beta)

lemma sample_getschedparam: "getschedparam_ok (sample_system no_fail)"
  by (simp add: getschedparam_ok_def sample_system_def sample_kernel_def no_fail_def reply_def)

definition new_thread :: "nat world" where
  "new_thread = sample_world\<lparr>evl_current := 0\<rparr>"

theorem attach_detach_thread_witness:
  "case evl_attach_thread (sample_system no_fail) 0 (Some ''x'') new_thread of None \<Rightarrow> False | Some (ret, w) \<Rightarrow>
    ret = 4 \<and> evl_current_efd w = 4 \<and> fds (sample_system no_fail) w = {#4#}"
proof -
  let ?S = "sample_system no_fail"
  have "map_option fst (evl_attach_thread ?S 0 (Some ''x'') new_thread) = Some 4"
    by (simp add: evl_attach_thread_def evl_init_def attach_element_def oob_ioctl_eq asprintf_opt_def free_opt_def
        new_thread_def create_defs sample_defs)
  then obtain w where w: "evl_attach_thread ?S 0 (Some ''x'') new_thread = Some (4, w)" by (auto simp: map_option_case split: option.splits)
  obtain r2 w2 where d: "evl_detach_thread ?S 0 w = (r2, w2)" by force
  have n: "init_once new_thread" "init_status new_thread = 0" "evl_current new_thread = EVL_NO_HANDLE ?S"
    "fds ?S new_thread = {#}" by (simp_all add: new_thread_def sample_world_def sample_consts fds_def)
  from attach_detach_thread[OF sample_kernel_ok sample_getschedparam n(1,2) w d] n(3,4) w show ?thesis by simp
qed

end
