(* ===== verification/Evl_Simulation.thy ===== *)
theory Evl_Simulation
  imports Evl_Prelude
begin

text \<open>
  Two interfaces for the services modelled as transition systems.  A system whose steps keep an
  invariant, for every value of its parameter within a bound; and such a system which refines an
  abstract one, by a map of its states under which every step is a step of the abstract system
  or leaves the abstract state alone.
\<close>

locale invariant_system =
  fixes bound :: "'p \<Rightarrow> bool" and init :: 's and step :: "'p \<Rightarrow> 's \<Rightarrow> 's \<Rightarrow> bool" and inv :: "'p \<Rightarrow> 's \<Rightarrow> bool"
  assumes inv_init: "bound p \<Longrightarrow> inv p init"
    and inv_step: "bound p \<Longrightarrow> inv p s \<Longrightarrow> step p s t \<Longrightarrow> inv p t"
begin

lemma inv_steps:
  assumes "(step p)\<^sup>*\<^sup>* s t" and "bound p" and "inv p s"
  shows "inv p t"
  using assms(1) by induction (auto intro: assms(3) inv_step[OF assms(2)])

lemma inv_reachable:
  assumes "(step p)\<^sup>*\<^sup>* init s" and "bound p"
  shows "inv p s"
  using assms inv_steps inv_init by blast

end

locale refining_system = invariant_system bound init step inv
  for bound :: "'p \<Rightarrow> bool" and init :: 's and step :: "'p \<Rightarrow> 's \<Rightarrow> 's \<Rightarrow> bool" and inv :: "'p \<Rightarrow> 's \<Rightarrow> bool" +
  fixes abs :: "'p \<Rightarrow> 's \<Rightarrow> 'a" and astep :: "'a \<Rightarrow> 'a \<Rightarrow> bool"
  assumes abs_step: "bound p \<Longrightarrow> inv p s \<Longrightarrow> step p s t \<Longrightarrow> abs p t = abs p s \<or> astep (abs p s) (abs p t)"
begin

lemma refines:
  assumes "(step p)\<^sup>*\<^sup>* init s" and "bound p"
  shows "astep\<^sup>*\<^sup>* (abs p init) (abs p s)"
  using assms(1)
proof induction
  case base
  show ?case by simp
next
  case (step t u)
  from abs_step[OF assms(2) inv_reachable[OF step(1) assms(2)] step(2)] step.IH show ?case
    by (auto intro: rtranclp.rtrancl_into_rtrancl)
qed

end

end
