(* ===== verification/Evl_Rwlock_Threads.thy ===== *)
theory Evl_Rwlock_Threads
  imports Evl_Rwlock Evl_Simulation
begin

text \<open>
  Read-write locks shared by any number of threads.

  The threads are a transition system whose steps are the exchanges of the lock word the operations
  do, by the functions of the theory \<open>Evl_Rwlock\<close> that compute the next word, and the calls they make to the
  event flag group: a thread that posts the writer bit sets it, one that waits for it exactly leaves when it is set and
  clears it, as the kernel does for a group of type \<^verbatim>\<open>EVL_EVENT_MASK\<close>.  A reader may leave its wait at
  any time, with an error or for another attempt.  The wait of a writer and the posting of the bit may fail as well: the operation then returns the error, with the lock word
  as it is; the system counts these failures.  That an operation of the library does such an exchange is \<open>rw_update_atomic\<close>.

  The invariant counts the owners of the lock: the readers, the writer, and the ownership on its way
  to a waiting writer, or lost; a writer whose wait failed stays in the count.  The word has room for fewer than \<open>2 ^ 29\<close> threads and failed waits.
\<close>

section \<open>The transition system\<close>

datatype rwpc = Idle | R_Wait | Reading | W_Wait | Writing | Posting | Bcasting

record rwsys =
  word_of :: u32
  flags_of :: u32
  pc :: "nat \<Rightarrow> rwpc"
  gone :: nat
  unposted :: nat

text \<open>\<open>gone\<close> and \<open>unposted\<close> are the failed waits of writers and the failed posts so far; the code does not have them.\<close>

definition rw_init :: "rwsys" where
  "rw_init = \<lparr>word_of = rw_pack EVL_RWLOCK_WRBIAS False, flags_of = 0, pc = (\<lambda>_. Idle), gone = 0, unposted = 0\<rparr>"

abbreviation go :: "rwsys \<Rightarrow> nat \<Rightarrow> rwpc \<Rightarrow> rwsys" where
  "go s i p \<equiv> s\<lparr>pc := (pc s)(i := p)\<rparr>"

inductive rw_step :: "nat \<Rightarrow> rwsys \<Rightarrow> rwsys \<Rightarrow> bool" for N where
  read_enter: "i < N \<Longrightarrow> pc s i = Idle \<Longrightarrow> lock_read_next (word_of s) = Some v \<Longrightarrow> rw_count (word_of s) > 0 \<Longrightarrow>
    rw_step N s ((go s i Reading)\<lparr>word_of := v\<rparr>)"
| read_wait: "i < N \<Longrightarrow> pc s i = Idle \<Longrightarrow> lock_read_next (word_of s) = Some v \<Longrightarrow> rw_count (word_of s) \<le> 0 \<Longrightarrow>
    rw_step N s ((go s i R_Wait)\<lparr>word_of := v\<rparr>)"
| read_wake: "i < N \<Longrightarrow> pc s i = R_Wait \<Longrightarrow> rw_step N s (go s i Idle)"
| read_exit: "i < N \<Longrightarrow> pc s i = Reading \<Longrightarrow> v = unlock_read_next (word_of s) \<Longrightarrow>
    rw_step N s ((go s i (if rw_count v = 0 then Posting else Idle))\<lparr>word_of := v\<rparr>)"
| write_enter: "i < N \<Longrightarrow> pc s i = Idle \<Longrightarrow> v = lock_write_next (word_of s) \<Longrightarrow>
    rw_step N s ((go s i (if rw_count v = 0 then Writing else W_Wait))\<lparr>word_of := v\<rparr>)"
| try_write_enter: "i < N \<Longrightarrow> pc s i = Idle \<Longrightarrow> rw_count (trylock_write_next (word_of s)) = 0 \<Longrightarrow>
    rw_step N s ((go s i Writing)\<lparr>word_of := trylock_write_next (word_of s)\<rparr>)"
| write_wake: "i < N \<Longrightarrow> pc s i = W_Wait \<Longrightarrow> flags_of s AND EVL_RWLOCK_WR \<noteq> 0 \<Longrightarrow>
    rw_step N s ((go s i Writing)\<lparr>flags_of := flags_of s AND NOT EVL_RWLOCK_WR\<rparr>)"
| write_exit: "i < N \<Longrightarrow> pc s i = Writing \<Longrightarrow> unlock_write_next (word_of s) = Some v \<Longrightarrow>
    rw_step N s ((go s i (if rw_count (word_of s) < 0 then Posting
                          else if rw_rdpend (word_of s) then Bcasting else Idle))\<lparr>word_of := v\<rparr>)"
| post: "i < N \<Longrightarrow> pc s i = Posting \<Longrightarrow> rw_step N s ((go s i Idle)\<lparr>flags_of := flags_of s OR EVL_RWLOCK_WR\<rparr>)"
| write_fail: "i < N \<Longrightarrow> pc s i = W_Wait \<Longrightarrow> rw_step N s ((go s i Idle)\<lparr>gone := gone s + 1\<rparr>)"
| post_fail: "i < N \<Longrightarrow> pc s i = Posting \<Longrightarrow> rw_step N s ((go s i Idle)\<lparr>unposted := unposted s + 1\<rparr>)"
| bcast: "i < N \<Longrightarrow> pc s i = Bcasting \<Longrightarrow> rw_step N s (go s i Idle)"

definition rw_reachable :: "nat \<Rightarrow> rwsys \<Rightarrow> bool" where
  "rw_reachable N s \<longleftrightarrow> (rw_step N)\<^sup>*\<^sup>* rw_init s"

definition many :: "nat \<Rightarrow> (nat \<Rightarrow> rwpc) \<Rightarrow> rwpc \<Rightarrow> nat" where
  "many N f p = card {i. i < N \<and> f i = p}"

lemma many_upd:
  assumes "i < N" and "f i = a" and "a \<noteq> b"
  shows "many N f a = Suc (many N (f(i := b)) a)" and "many N (f(i := b)) b = Suc (many N f b)"
    and "c \<noteq> a \<Longrightarrow> c \<noteq> b \<Longrightarrow> many N (f(i := b)) c = many N f c"
proof -
  have "{j. j < N \<and> f j = a} = insert i {j. j < N \<and> (f(i := b)) j = a}" using assms by auto
  then show "many N f a = Suc (many N (f(i := b)) a)"
    using assms(3) unfolding many_def by (simp add: card_insert_if)
  have "{j. j < N \<and> (f(i := b)) j = b} = insert i {j. j < N \<and> f j = b}" using assms by auto
  then show "many N (f(i := b)) b = Suc (many N f b)"
    using assms(2,3) unfolding many_def by (simp add: card_insert_if)
  show "c \<noteq> a \<Longrightarrow> c \<noteq> b \<Longrightarrow> many N (f(i := b)) c = many N f c"
    using assms(2) unfolding many_def by (metis (mono_tags, lifting) fun_upd_apply)
qed

lemma many_le: "a \<noteq> b \<Longrightarrow> many N f a + many N f b \<le> N"
proof -
  assume "a \<noteq> b"
  then have "many N f a + many N f b = card ({i. i < N \<and> f i = a} \<union> {i. i < N \<and> f i = b})"
    unfolding many_def by (subst card_Un_disjoint) auto
  also have "\<dots> \<le> card {..<N}" by (rule card_mono) auto
  finally show ?thesis by simp
qed

text \<open>The invariant: at most one owner, counting the ownership on its way to a writer.\<close>

definition tokens :: "rwsys \<Rightarrow> nat" where
  "tokens s = (if flags_of s AND EVL_RWLOCK_WR \<noteq> 0 then 1 else 0)"

text \<open>
  In the numbers of readers \<open>r\<close>, queued writers \<open>w\<close>, running writers \<open>x\<close> and grants under way \<open>g\<close>,
  the count \<open>c\<close> and the reader mark \<open>p\<close>.
\<close>

definition rw_num :: "int \<Rightarrow> int \<Rightarrow> int \<Rightarrow> int \<Rightarrow> int \<Rightarrow> bool \<Rightarrow> bool" where
  "rw_num r w x g c p \<longleftrightarrow> 0 \<le> r \<and> 0 \<le> w \<and> (0 < c \<longrightarrow> \<not> p) \<and>
     (x = 1 \<and> g = 0 \<and> r = 0 \<and> c = - w \<or>
      x = 0 \<and> g = 1 \<and> r = 0 \<and> 1 \<le> w \<and> c = 1 - w \<or>
      x = 0 \<and> g = 0 \<and> w = 0 \<and> c = EVL_RWLOCK_WRBIAS - r \<or>
      x = 0 \<and> g = 0 \<and> 1 \<le> w \<and> 2 \<le> r + w \<and> c = 1 - r - w)"

definition rw_inv :: "nat \<Rightarrow> rwsys \<Rightarrow> bool" where
  "rw_inv N s \<longleftrightarrow>
     rw_num (int (many N (pc s) Reading)) (int (many N (pc s) W_Wait) + int (gone s)) (int (many N (pc s) Writing))
       (int (many N (pc s) Posting) + int (tokens s) + int (unposted s)) (rw_count (word_of s)) (rw_rdpend (word_of s))"

lemma rw_inv_init: "rw_inv N rw_init"
  by (simp add: rw_inv_def rw_num_def rw_init_def many_def tokens_def EVL_RWLOCK_WRBIAS_def)

lemmas rw_num_defs = rw_num_def EVL_RWLOCK_WRBIAS_def

lemma rw_num_read:
  assumes "rw_num r w x g c p"
  shows "0 < c \<Longrightarrow> rw_num (r + 1) w x g (c - 1) False" and "0 < c \<Longrightarrow> \<not> p"
    and "c \<le> 0 \<Longrightarrow> rw_num r w x g c True"
  using assms unfolding rw_num_defs by (smt (verit))+

lemma rw_num_unread:
  assumes "rw_num r w x g c p" and "1 \<le> r" and "r + w < 2 ^ 29"
  shows "c = - 1 \<Longrightarrow> rw_num (r - 1) w x (g + 1) 0 p"
    and "c \<noteq> - 1 \<Longrightarrow> rw_num (r - 1) w x g (c + 1) p"
proof -
  from assms(3) have "r + w < 536870912" by simp
  with assms(1,2) show "c = - 1 \<Longrightarrow> rw_num (r - 1) w x (g + 1) 0 p" and "c \<noteq> - 1 \<Longrightarrow> rw_num (r - 1) w x g (c + 1) p"
    unfolding rw_num_defs by (smt (verit))+
qed

lemma rw_num_write:
  assumes "rw_num r w x g c p" and "r + w < 2 ^ 29"
  shows "c = EVL_RWLOCK_WRBIAS \<Longrightarrow> rw_num r w (x + 1) g 0 p"
    and "0 < c \<Longrightarrow> c \<noteq> EVL_RWLOCK_WRBIAS \<Longrightarrow> rw_num r (w + 1) x g (c - EVL_RWLOCK_WRBIAS) p"
    and "c \<le> 0 \<Longrightarrow> rw_num r (w + 1) x g (c - 1) p"
proof -
  from assms(2) have "r + w < 536870912" by simp
  with assms(1) show "c = EVL_RWLOCK_WRBIAS \<Longrightarrow> rw_num r w (x + 1) g 0 p"
    and "0 < c \<Longrightarrow> c \<noteq> EVL_RWLOCK_WRBIAS \<Longrightarrow> rw_num r (w + 1) x g (c - EVL_RWLOCK_WRBIAS) p"
    and "c \<le> 0 \<Longrightarrow> rw_num r (w + 1) x g (c - 1) p"
    unfolding rw_num_defs by (smt (verit))+
qed

lemma rw_num_grant:
  assumes "rw_num r w x g c p" and "1 \<le> g" and "1 \<le> w"
  shows "rw_num r (w - 1) (x + 1) (g - 1) c p"
  using assms unfolding rw_num_defs by (smt (verit))

lemma rw_num_unwrite:
  assumes "rw_num r w x g c p" and "1 \<le> x"
  shows "c < 0 \<Longrightarrow> rw_num r w (x - 1) (g + 1) (c + 1) p"
    and "c = 0 \<Longrightarrow> rw_num r w (x - 1) g EVL_RWLOCK_WRBIAS False"
    and "c \<le> 0" and "g = 0" and "x = 1" and "r = 0"
  using assms unfolding rw_num_defs by (smt (verit))+

lemma rw_num_exclusive: "rw_num r w x g c p \<Longrightarrow> x \<le> 1 \<and> (x = 1 \<longrightarrow> r = 0 \<and> g = 0) \<and> (1 \<le> r \<longrightarrow> x = 0) \<and> g \<le> 1"
  unfolding rw_num_defs by (smt (verit))

section \<open>Preservation\<close>

lemma wr_bit [simp]: "EVL_RWLOCK_WR \<noteq> 0" "(f AND NOT EVL_RWLOCK_WR) AND EVL_RWLOCK_WR = 0"
  by (simp_all add: EVL_RWLOCK_WR_def and.assoc)

lemma rw_num_range:
  assumes "rw_num r w x g c p" and "r + w < 2 ^ 29"
  shows "- (2 ^ 29) < c" and "c \<le> EVL_RWLOCK_WRBIAS" and "1 \<le> r \<Longrightarrow> c < EVL_RWLOCK_WRBIAS"
proof -
  from assms(2) have "r + w < 536870912" by simp
  with assms(1) show "- (2 ^ 29) < c" and "c \<le> EVL_RWLOCK_WRBIAS" and "1 \<le> r \<Longrightarrow> c < EVL_RWLOCK_WRBIAS"
    unfolding rw_num_defs by (simp_all, (smt (verit))+)
qed

lemma rw_inv_small: "N + n < 2 ^ 29 \<Longrightarrow> int (many N f Reading) + (int (many N f W_Wait) + int n) < 2 ^ 29"
  using many_le[of Reading W_Wait N f] by simp

lemma many_pos: "i < N \<Longrightarrow> f i = p \<Longrightarrow> 1 \<le> many N f p"
  unfolding many_def by (simp add: Suc_le_eq card_gt_0_iff) blast

lemma many_int:
  assumes "i < N" and "f i = a" and "a \<noteq> b"
  shows "int (many N (f(i := b)) a) = int (many N f a) - 1" and "int (many N (f(i := b)) b) = int (many N f b) + 1"
    and "c \<noteq> a \<Longrightarrow> c \<noteq> b \<Longrightarrow> int (many N (f(i := b)) c) = int (many N f c)"
  using many_upd[of i N f a b, OF assms] by simp_all

lemma trylock_count:
  assumes "rw_count (rw_pack (c - EVL_RWLOCK_WRBIAS) p) = 0" and "- (2 ^ 29) < c" and "c \<le> EVL_RWLOCK_WRBIAS"
  shows "c = EVL_RWLOCK_WRBIAS"
proof -
  have "take_bit 31 (c - EVL_RWLOCK_WRBIAS) = 0"
    using assms(1) signed_take_bit_eq_iff_take_bit_eq[of 30 "c - EVL_RWLOCK_WRBIAS" 0] by (simp add: rw_count_pack_signed)
  then have d: "2 ^ 31 dvd EVL_RWLOCK_WRBIAS - c" using dvd_diff_commute[of "2 ^ 31" c] by (simp add: take_bit_eq_0_iff)
  show ?thesis
  proof (rule ccontr)
    assume "c \<noteq> EVL_RWLOCK_WRBIAS"
    with assms(3) have "0 < EVL_RWLOCK_WRBIAS - c" by simp
    from zdvd_imp_le[OF d this] assms(2) show False by (simp add: EVL_RWLOCK_WRBIAS_def)
  qed
qed

lemma rw_invI:
  assumes "rw_num r w x g c p" and "int (many N (pc t) Reading) = r" and "int (many N (pc t) W_Wait) + int (gone t) = w"
    and "int (many N (pc t) Writing) = x" and "int (many N (pc t) Posting) + int (tokens t) + int (unposted t) = g"
    and "rw_count (word_of t) = c" and "rw_rdpend (word_of t) = p"
  shows "rw_inv N t"
  using assms by (simp add: rw_inv_def)

lemma rw_inv_step:
  assumes "rw_step N s t" and "rw_inv N s" and "N + gone s < 2 ^ 29"
  shows "rw_inv N t"
proof -
  define r where "r = int (many N (pc s) Reading)"
  define w where "w = int (many N (pc s) W_Wait) + int (gone s)"
  define x where "x = int (many N (pc s) Writing)"
  define g where "g = int (many N (pc s) Posting) + int (tokens s) + int (unposted s)"
  define c where "c = rw_count (word_of s)"
  define p where "p = rw_rdpend (word_of s)"
  note ns = r_def w_def x_def g_def c_def p_def
  have n: "rw_num r w x g c p" using assms(2) by (simp add: rw_inv_def ns)
  have small: "r + w < 2 ^ 29" using rw_inv_small[OF assms(3), of "pc s"] by (simp add: ns)
  note b = rw_num_range[OF n small]
  from assms(1) show ?thesis
  proof cases
    case (read_enter i v)
    then have c: "0 < c" and v: "v = rw_pack (c - 1) False" by (auto simp: lock_read_next_def ns split: if_splits)
    from read_enter v b show ?thesis
      by (intro rw_invI[OF rw_num_read(1)[OF n c]]) (simp_all add: ns many_int[where a = Idle] tokens_def EVL_RWLOCK_WRBIAS_def)
  next
    case (read_wait i v)
    then have c: "c \<le> 0" and v: "v = rw_pack c True" by (auto simp: lock_read_next_def ns split: if_splits)
    from read_wait v b show ?thesis
      by (intro rw_invI[OF rw_num_read(3)[OF n c]]) (simp_all add: ns many_int[where a = Idle] tokens_def EVL_RWLOCK_WRBIAS_def)
  next
    case (read_wake i)
    then show ?thesis by (intro rw_invI[OF n]) (simp_all add: ns many_int[where a = R_Wait] tokens_def)
  next
    case (read_exit i v)
    then have r: "1 \<le> r" using many_pos[of i N "pc s" Reading] by (simp add: ns)
    from read_exit have v: "v = rw_pack (c + 1) p" by (simp add: unlock_read_next_def ns)
    with b(1) b(3)[OF r] have cv: "rw_count v = c + 1" by (simp add: EVL_RWLOCK_WRBIAS_def)
    from v have pv: "rw_rdpend v = p" by simp
    show ?thesis
    proof (cases "c = - 1")
      case True
      with read_exit(1-3) pv cv show ?thesis
        by (intro rw_invI[OF rw_num_unread(1)[OF n r small True]]) (simp_all add: ns many_int[where a = Reading] tokens_def)
    next
      case False
      with read_exit(1-3) pv cv show ?thesis
        by (intro rw_invI[OF rw_num_unread(2)[OF n r small False]]) (simp_all add: ns many_int[where a = Reading] tokens_def)
    qed
  next
    case (write_enter i v)
    then have v: "v = rw_pack (if c \<le> 0 then c - 1 else c - EVL_RWLOCK_WRBIAS) p" by (simp add: lock_write_next_def ns)
    consider "c = EVL_RWLOCK_WRBIAS" | "0 < c" "c \<noteq> EVL_RWLOCK_WRBIAS" | "c \<le> 0" by linarith
    then show ?thesis
    proof cases
      case 1
      with v have cv: "rw_count v = 0" "rw_rdpend v = p" by (simp_all add: EVL_RWLOCK_WRBIAS_def)
      with write_enter(1-3) show ?thesis
        by (intro rw_invI[OF rw_num_write(1)[OF n small 1]]) (simp_all add: ns many_int[where a = Idle] tokens_def)
    next
      case 2
      with v b have cv: "rw_count v = c - EVL_RWLOCK_WRBIAS" "rw_rdpend v = p" by (simp_all add: EVL_RWLOCK_WRBIAS_def)
      with 2 write_enter(1-3) show ?thesis
        by (intro rw_invI[OF rw_num_write(2)[OF n small 2]]) (simp_all add: ns many_int[where a = Idle] tokens_def)
    next
      case 3
      with v b have cv: "rw_count v = c - 1" "rw_rdpend v = p" by (simp_all add: EVL_RWLOCK_WRBIAS_def)
      with 3 write_enter(1-3) show ?thesis
        by (intro rw_invI[OF rw_num_write(3)[OF n small 3]]) (simp_all add: ns many_int[where a = Idle] tokens_def)
    qed
  next
    case (try_write_enter i)
    have "rw_count (rw_pack (c - EVL_RWLOCK_WRBIAS) p) = 0" using try_write_enter by (simp add: trylock_write_next_def ns)
    then have c: "c = EVL_RWLOCK_WRBIAS" using b(1,2) by (rule trylock_count)
    from try_write_enter c show ?thesis
      by (intro rw_invI[OF rw_num_write(1)[OF n small c]])
        (simp_all add: ns many_int[where a = Idle] tokens_def trylock_write_next_def)
  next
    case (write_wake i)
    then have w: "1 \<le> w" using many_pos[of i N "pc s" W_Wait] by (simp add: ns)
    have g: "1 \<le> g" using write_wake by (simp add: ns tokens_def)
    from write_wake show ?thesis
      by (intro rw_invI[OF rw_num_grant[OF n g w]]) (simp_all add: ns many_int[where a = W_Wait] tokens_def)
  next
    case (write_exit i v)
    then have x: "1 \<le> x" using many_pos[of i N "pc s" Writing] by (simp add: ns)
    show ?thesis
    proof (cases "c < 0")
      case True
      with write_exit have v: "v = rw_pack (c + 1) p" by (simp add: unlock_write_next_def ns)
      with b True have cv: "rw_count v = c + 1" "rw_rdpend v = p" by (simp_all add: EVL_RWLOCK_WRBIAS_def)
      from True write_exit cv show ?thesis
        by (intro rw_invI[OF rw_num_unwrite(1)[OF n x True]]) (simp_all add: ns many_int[where a = Writing] tokens_def)
    next
      case False
      with rw_num_unwrite(3)[OF n x] have c: "c = 0" by simp
      with write_exit have v: "v = rw_pack EVL_RWLOCK_WRBIAS False" by (simp add: unlock_write_next_def ns)
      then have cv: "rw_count v = EVL_RWLOCK_WRBIAS" "rw_rdpend v = False" by (simp_all add: EVL_RWLOCK_WRBIAS_def)
      from c write_exit cv show ?thesis
        by (intro rw_invI[OF rw_num_unwrite(2)[OF n x c]]) (simp_all add: ns many_int[where a = Writing] tokens_def)
    qed
  next
    case (post i)
    then have "1 \<le> many N (pc s) Posting" using many_pos[of i N "pc s" Posting] by simp
    with rw_num_exclusive[OF n] have t: "tokens s = 0" by (simp add: ns)
    from post t show ?thesis by (intro rw_invI[OF n]) (simp_all add: ns many_int[where a = Posting] tokens_def)
  next
    case (write_fail i)
    then show ?thesis by (intro rw_invI[OF n]) (simp_all add: ns many_int[where a = W_Wait] tokens_def)
  next
    case (post_fail i)
    then show ?thesis by (intro rw_invI[OF n]) (simp_all add: ns many_int[where a = Posting] tokens_def)
  next
    case (bcast i)
    then show ?thesis by (intro rw_invI[OF n]) (simp_all add: ns many_int[where a = Bcasting] tokens_def)
  qed
qed

section \<open>Runs with a bounded number of failed waits\<close>

text \<open>The parameter is the number of threads and the bound.\<close>

fun rw_step_within :: "nat \<times> nat \<Rightarrow> rwsys \<Rightarrow> rwsys \<Rightarrow> bool" where
  "rw_step_within (N, F) s t \<longleftrightarrow> rw_step N s t \<and> gone t \<le> F"

lemma gone_mono: "rw_step N s t \<Longrightarrow> gone s \<le> gone t"
  by (cases rule: rw_step.cases) auto

lemma reachable_within:
  assumes "rw_reachable N s" and "gone s \<le> F"
  shows "(rw_step_within (N, F))\<^sup>*\<^sup>* rw_init s"
  using assms unfolding rw_reachable_def
proof (induction arbitrary: F)
  case (step s t)
  have "gone s \<le> F" using gone_mono[OF step(2)] step.prems by simp
  with step show ?case by (auto intro: rtranclp.rtrancl_into_rtrancl)
qed simp

end
