(* ===== verification/Evl_Rwlock_Correct.thy ===== *)
theory Evl_Rwlock_Correct
  imports Evl_Rwlock_Threads
begin

text \<open>
  Read-write locks are correct: the transition system of the threads refines the specification of a read-write lock,
  for less than \<open>2 ^ 29\<close> threads and failed waits; which assertions of the code hold; and a writer which waits alone is
  not forgotten, if no wait failed before.  Two writers that wait for a reader are, and one that waits for a reader beside one whose wait fails: these are the last theorems.
\<close>

section \<open>The specification of the lock\<close>

text \<open>
  The readers and the writers inside their sections: readers may come in while no writer is in, and
  a writer when nobody is.
\<close>

record rw_spec =
  readers :: "nat set"
  writers :: "nat set"

inductive rw_spec_step :: "rw_spec \<Rightarrow> rw_spec \<Rightarrow> bool" where
  start_read: "writers a = {} \<Longrightarrow> i \<notin> readers a \<Longrightarrow> rw_spec_step a (a\<lparr>readers := insert i (readers a)\<rparr>)"
| end_read: "i \<in> readers a \<Longrightarrow> rw_spec_step a (a\<lparr>readers := readers a - {i}\<rparr>)"
| start_write: "readers a = {} \<Longrightarrow> writers a = {} \<Longrightarrow> rw_spec_step a (a\<lparr>writers := {i}\<rparr>)"
| end_write: "writers a = {i} \<Longrightarrow> rw_spec_step a (a\<lparr>writers := {}\<rparr>)"

definition rw_abs :: "nat \<Rightarrow> rwsys \<Rightarrow> rw_spec" where
  "rw_abs N s = \<lparr>readers = {i. i < N \<and> pc s i = Reading}, writers = {i. i < N \<and> pc s i = Writing}\<rparr>"

lemma many_zero: "many N f p = 0 \<longleftrightarrow> (\<forall>i<N. f i \<noteq> p)"
  unfolding many_def by auto

lemma many_two:
  assumes "i < N" "j < N" "i \<noteq> j" "f i = p" "f j = p"
  shows "2 \<le> many N f p"
proof -
  have "card {i, j} \<le> many N f p" unfolding many_def using assms by (intro card_mono) auto
  then show ?thesis using assms(3) by simp
qed

lemma rw_num_free:
  assumes "rw_num r w x g c p"
  shows "0 < c \<Longrightarrow> x = 0" and "c = EVL_RWLOCK_WRBIAS \<Longrightarrow> r = 0" and "1 \<le> g \<Longrightarrow> r = 0 \<and> x = 0"
  using assms unfolding rw_num_defs by (smt (verit))+

lemma rw_abs_empty:
  "readers (rw_abs N s) = {} \<longleftrightarrow> many N (pc s) Reading = 0" "writers (rw_abs N s) = {} \<longleftrightarrow> many N (pc s) Writing = 0"
  by (auto simp: rw_abs_def many_zero)

lemma write_entry_free:
  assumes "rw_num r w x g (rw_count u) p" and "r + w < 2 ^ 29"
    and "rw_count (lock_write_next u) = 0 \<or> rw_count (trylock_write_next u) = 0"
  shows "rw_count u = EVL_RWLOCK_WRBIAS"
proof -
  note b = rw_num_range[OF assms(1,2)]
  from assms(3) show ?thesis
  proof
    assume "rw_count (lock_write_next u) = 0"
    with b show ?thesis by (auto simp: lock_write_next_def EVL_RWLOCK_WRBIAS_def split: if_splits)
  next
    assume "rw_count (trylock_write_next u) = 0"
    then show ?thesis using b(1,2) unfolding trylock_write_next_def by (rule trylock_count)
  qed
qed

lemma rw_abs_step:
  assumes "N + gone s < 2 ^ 29" and "rw_inv N s" and "rw_step N s t"
  shows "rw_abs N t = rw_abs N s \<or> rw_spec_step (rw_abs N s) (rw_abs N t)"
proof -
  note n = assms(2)[unfolded rw_inv_def]
  note f = rw_num_free[OF n] and small = rw_inv_small[OF assms(1), of "pc s"]
  have wr: "?thesis" if "readers (rw_abs N s) = {}" "writers (rw_abs N s) = {}" "i < N" "pc t = (pc s)(i := Writing)" for i
  proof -
    have "rw_abs N t = (rw_abs N s)\<lparr>writers := {i}\<rparr>" using that by (auto simp: rw_abs_def)
    with start_write[OF that(1,2)] show ?thesis by simp
  qed
  from assms(3) show ?thesis
  proof cases
    case (read_enter i v)
    with f(1) have e: "writers (rw_abs N s) = {}" by (simp add: rw_abs_empty)
    have "rw_abs N t = (rw_abs N s)\<lparr>readers := insert i (readers (rw_abs N s))\<rparr>"
      using read_enter by (auto simp: rw_abs_def)
    moreover have "i \<notin> readers (rw_abs N s)" using read_enter by (simp add: rw_abs_def)
    ultimately show ?thesis using start_read[OF e] by simp
  next
    case (read_exit i v)
    then have "rw_abs N t = (rw_abs N s)\<lparr>readers := readers (rw_abs N s) - {i}\<rparr>" by (auto simp: rw_abs_def)
    moreover have "i \<in> readers (rw_abs N s)" using read_exit by (simp add: rw_abs_def)
    ultimately show ?thesis using end_read by simp
  next
    case (write_enter i v)
    show ?thesis
    proof (cases "rw_count v = 0")
      case True
      with write_entry_free[OF n small] write_enter have c: "rw_count (word_of s) = EVL_RWLOCK_WRBIAS" by simp
      with f(1,2) show ?thesis
        by (intro wr[of i]) (use True write_enter in \<open>simp_all add: rw_abs_empty EVL_RWLOCK_WRBIAS_def\<close>)
    next
      case False
      with write_enter have "rw_abs N t = rw_abs N s" by (auto simp: rw_abs_def)
      then show ?thesis by simp
    qed
  next
    case (try_write_enter i)
    with write_entry_free[OF n small] have c: "rw_count (word_of s) = EVL_RWLOCK_WRBIAS" by simp
    with f(1,2) show ?thesis
      by (intro wr[of i]) (use try_write_enter in \<open>simp_all add: rw_abs_empty EVL_RWLOCK_WRBIAS_def\<close>)
  next
    case (write_wake i)
    with f(3) show ?thesis
      by (intro wr[of i]) (simp_all add: rw_abs_empty tokens_def)
  next
    case (write_exit i v)
    with rw_num_unwrite(5)[OF n] many_pos[of i N "pc s" Writing] have one: "many N (pc s) Writing = 1" by simp
    have only: "j = i" if "j < N" "pc s j = Writing" for j
      using many_two[of i N j "pc s" Writing] one \<open>i < N\<close> \<open>pc s i = Writing\<close> that by fastforce
    define q where "q = pc t i"
    have q: "pc t = (pc s)(i := q)" "q \<noteq> Reading" "q \<noteq> Writing"
      unfolding q_def by (simp_all add: write_exit(1))
    have here: "i < N" "pc s i = Writing" by fact+
    have ws: "{j. j < N \<and> pc s j = Writing} = {i}" using only here by blast
    have "pc t j \<noteq> Writing" if "j < N" for j using only[OF that] q by (cases "j = i") auto
    moreover have "pc t j = Reading \<longleftrightarrow> pc s j = Reading" for j using q here by (cases "j = i") auto
    ultimately have "writers (rw_abs N s) = {i}" and "rw_abs N t = (rw_abs N s)\<lparr>writers := {}\<rparr>"
      using ws by (simp_all add: rw_abs_def)
    then show ?thesis using end_write by simp
  qed (auto simp: rw_abs_def)
qed

interpretation rwl: refining_system "\<lambda>(N, F). N + F < 2 ^ 29" rw_init rw_step_within "\<lambda>(N, F) s. rw_inv N s \<and> gone s \<le> F"
  "\<lambda>(N, F). rw_abs N" rw_spec_step
proof
  fix p :: "nat \<times> nat" and s t :: rwsys
  obtain N F where p: "p = (N, F)" by (metis surj_pair)
  assume b: "case p of (N, F) \<Rightarrow> N + F < 2 ^ 29"
  show "(case p of (N, F) \<Rightarrow> \<lambda>s. rw_inv N s \<and> gone s \<le> F) rw_init"
    by (simp add: p rw_inv_init) (simp add: rw_init_def)
  assume i: "(case p of (N, F) \<Rightarrow> \<lambda>s. rw_inv N s \<and> gone s \<le> F) s" and s: "rw_step_within p s t"
  then have *: "rw_step N s t" "rw_inv N s" "N + gone s < 2 ^ 29" "gone t \<le> F" using b by (simp_all add: p)
  show "(case p of (N, F) \<Rightarrow> \<lambda>s. rw_inv N s \<and> gone s \<le> F) t"
    using rw_inv_step[OF *(1-3)] *(4) by (simp add: p)
  show "(case p of (N, F) \<Rightarrow> rw_abs N) t = (case p of (N, F) \<Rightarrow> rw_abs N) s \<or>
      rw_spec_step ((case p of (N, F) \<Rightarrow> rw_abs N) s) ((case p of (N, F) \<Rightarrow> rw_abs N) t)"
    using rw_abs_step[OF *(3,2,1)] by (simp add: p)
qed

lemma rw_inv_reachable:
  assumes "rw_reachable N s" and "N + gone s < 2 ^ 29"
  shows "rw_inv N s"
  using rwl.inv_reachable[OF reachable_within[OF assms(1) order_refl]] assms(2) by simp

lemma rw_reachable_num:
  assumes "rw_reachable N s" and "N + gone s < 2 ^ 29"
  shows "rw_num (int (many N (pc s) Reading)) (int (many N (pc s) W_Wait) + int (gone s)) (int (many N (pc s) Writing))
    (int (many N (pc s) Posting) + int (tokens s) + int (unposted s)) (rw_count (word_of s)) (rw_rdpend (word_of s))"
    and "int (many N (pc s) Reading) + (int (many N (pc s) W_Wait) + int (gone s)) < 2 ^ 29"
  using rw_inv_reachable[OF assms] rw_inv_small[OF assms(2)] by (simp_all add: rw_inv_def)


section \<open>What the lock guarantees\<close>

text \<open>
  C5. The lock refines its specification: whatever the threads do, their waits and posts failing or not, what happens to the sets of the
  readers and writers inside their sections is a run of the specification, for less than \<open>2 ^ 29\<close> threads and failed waits of writers.
\<close>

theorem rwlock_refines_spec:
  assumes "rw_reachable N s" and "N + gone s < 2 ^ 29"
  shows "rw_spec_step\<^sup>*\<^sup>* \<lparr>readers = {}, writers = {}\<rparr> (rw_abs N s)"
proof -
  have "rw_abs N rw_init = \<lparr>readers = {}, writers = {}\<rparr>" by (simp add: rw_abs_def rw_init_def)
  with rwl.refines[OF reachable_within[OF assms(1) order_refl]] assms(2) show ?thesis by simp
qed

text \<open>
  C7. Read-write locks exclude: in every state the threads can reach, a thread which runs its write
  section is alone, no other thread reads or writes.  The waits and posts of the threads may fail.
\<close>

theorem rwlock_exclusion:
  assumes "rw_reachable N s" and "N + gone s < 2 ^ 29" and "i < N" and "j < N" and "i \<noteq> j" and "pc s i = Writing"
  shows "pc s j \<noteq> Writing \<and> pc s j \<noteq> Reading"
proof -
  note e = rw_num_exclusive[OF rw_reachable_num(1)[OF assms(1,2)]]
  have "1 \<le> many N (pc s) Writing" using many_pos[OF assms(3), of "pc s" Writing] assms(6) by simp
  with e many_two[OF assms(3-5), of "pc s" Writing] many_pos[OF assms(4), of "pc s" Reading] assms(6)
  show ?thesis by (cases "pc s j = Writing"; cases "pc s j = Reading"; simp)
qed


text \<open>
  C28. A writer which waits alone is never stranded, as long as no wait of a writer and no post failed: a thread that reads, writes or is about to post the event
  owes it the lock, or the event is posted already.
\<close>

theorem rwlock_writer_not_stranded:
  assumes "rw_reachable N s" and "N < 2 ^ 29" and "many N (pc s) W_Wait = 1" and "gone s = 0" and "unposted s = 0"
  shows "flags_of s AND EVL_RWLOCK_WR \<noteq> 0 \<or> (\<exists>i<N. pc s i \<in> {Reading, Writing, Posting})"
proof (rule ccontr)
  assume "\<not> ?thesis"
  then have "many N (pc s) Reading = 0" "many N (pc s) Writing = 0" "many N (pc s) Posting = 0" "tokens s = 0"
    by (auto simp: many_zero tokens_def)
  with rw_reachable_num(1)[OF assms(1)] assms(2-5) show False by (simp add: rw_num_def)
qed

section \<open>Lost wake-ups\<close>

text \<open>
  With two writers queued behind a reader, the exit of the reader leaves the count at \<open>-1\<close>, so that no
  writer is woken up: both wait for ever, unless their waits fail.
\<close>

definition stranded :: "nat \<Rightarrow> rwsys \<Rightarrow> bool" where
  "stranded N s \<longleftrightarrow> rw_inv N s \<and> many N (pc s) Reading = 0 \<and> many N (pc s) Writing = 0 \<and>
     many N (pc s) Posting = 0 \<and> tokens s = 0 \<and> 2 \<le> many N (pc s) W_Wait"

lemma stranded_count: "stranded N s \<Longrightarrow> rw_count (word_of s) = 1 - int (many N (pc s) W_Wait) - int (gone s)"
  by (auto simp: stranded_def rw_inv_def rw_num_def)

lemma many_mono: "f i \<noteq> p \<Longrightarrow> many N f p \<le> many N (f(i := q)) p"
  unfolding many_def by (rule card_mono) auto

lemma stranded_no_entry:
  assumes "stranded N s" and "N + gone s < 2 ^ 29"
  shows "rw_count (word_of s) < 0" and "rw_count (lock_write_next (word_of s)) < 0"
    and "rw_count (trylock_write_next (word_of s)) \<noteq> 0"
proof -
  from assms(1) show c: "rw_count (word_of s) < 0" using stranded_count[OF assms(1)] by (simp add: stranded_def)
  have "- (2 ^ 29) < rw_count (word_of s)"
    using rw_num_range(1) assms rw_inv_small[OF assms(2)] unfolding stranded_def rw_inv_def by blast
  with c show "rw_count (lock_write_next (word_of s)) < 0" and "rw_count (trylock_write_next (word_of s)) \<noteq> 0"
    using trylock_count[of "rw_count (word_of s)" "rw_rdpend (word_of s)"]
    by (auto simp: lock_write_next_def trylock_write_next_def EVL_RWLOCK_WRBIAS_def)
qed

lemma stranded_step:
  assumes "rw_step N s t" and "stranded N s" and "N + gone s < 2 ^ 29" and "gone t = gone s"
  shows "stranded N t" and "i < N \<Longrightarrow> pc s i = W_Wait \<Longrightarrow> pc t i = W_Wait"
proof -
  note inv = rw_inv_step[OF assms(1) _ assms(3)] and no = stranded_no_entry[OF assms(2,3)]
  have two: "pc s j \<noteq> W_Wait \<Longrightarrow> 2 \<le> many N ((pc s)(j := q)) W_Wait" for j q
    using many_mono[of "pc s" j W_Wait N q] assms(2) by (simp add: stranded_def)
  from assms(1,4) inv assms(2) no two show "stranded N t"
    by cases (auto simp: stranded_def many_zero tokens_def)
  from assms(1,4,2) no show "i < N \<Longrightarrow> pc s i = W_Wait \<Longrightarrow> pc t i = W_Wait"
    by cases (auto simp: stranded_def many_zero tokens_def)
qed

lemma stranded_forever:
  assumes "(rw_step_within (N, gone s))\<^sup>*\<^sup>* s t" and "stranded N s" and "N + gone s < 2 ^ 29"
  shows "gone t = gone s \<and> stranded N t \<and> (\<forall>i<N. pc s i = W_Wait \<longrightarrow> pc t i = W_Wait)"
  using assms(1)
proof induction
  case base
  then show ?case using assms(2) by simp
next
  case (step t u)
  then have "rw_step N t u" "gone u = gone t" using gone_mono[of N t u] by auto
  then show ?case using stranded_step[of N t u] step.IH assms(3) by simp
qed

abbreviation at :: "rwsys \<Rightarrow> nat \<Rightarrow> rwpc \<Rightarrow> u32 \<Rightarrow> rwsys" where
  "at s i p v \<equiv> (go s i p)\<lparr>word_of := v\<rparr>"

lemma write_waits:
  "i < N \<Longrightarrow> pc s i = Idle \<Longrightarrow> lock_write_next (word_of s) = v \<Longrightarrow> rw_count v \<noteq> 0 \<Longrightarrow> rw_step N s (at s i W_Wait v)"
  using write_enter[of i N s v] by simp

lemma read_leaves:
  "i < N \<Longrightarrow> pc s i = Reading \<Longrightarrow> unlock_read_next (word_of s) = v \<Longrightarrow> rw_count v \<noteq> 0 \<Longrightarrow> rw_step N s (at s i Idle v)"
  using read_exit[of i N s v] by simp

definition behind_reader :: "rwsys" where
  "behind_reader = (let s = at rw_init 0 Reading (rw_pack (EVL_RWLOCK_WRBIAS - 1) False);
      s = at s 1 W_Wait (rw_pack (- 1) False); s = at s 2 W_Wait (rw_pack (- 2) False)
    in at s 0 Idle (rw_pack (- 1) False))"

lemma behind_reader_reachable: "rw_reachable 3 behind_reader"
proof -
  let ?s1 = "at rw_init 0 Reading (rw_pack (EVL_RWLOCK_WRBIAS - 1) False)"
  let ?s2 = "at ?s1 1 W_Wait (rw_pack (- 1) False)"
  let ?s3 = "at ?s2 2 W_Wait (rw_pack (- 2) False)"
  have 1: "rw_step 3 rw_init ?s1"
    by (rule read_enter) (simp_all add: rw_init_def lock_read_next_def EVL_RWLOCK_WRBIAS_def)
  have n: "lock_write_next (rw_pack (EVL_RWLOCK_WRBIAS - 1) False) = rw_pack (- 1) False"
    "lock_write_next (rw_pack (- 1) False) = rw_pack (- 2) False" "unlock_read_next (rw_pack (- 2) False) = rw_pack (- 1) False"
    by (simp_all add: lock_write_next_def unlock_read_next_def EVL_RWLOCK_WRBIAS_def)
  have c: "rw_count (rw_pack (- 1) False) \<noteq> 0" "rw_count (rw_pack (- 2) False) \<noteq> 0" by simp_all
  have 2: "rw_step 3 ?s1 ?s2" and 3: "rw_step 3 ?s2 ?s3"
    by (rule write_waits; simp add: rw_init_def n c del: rw_count_pack)+
  have "rw_step 3 ?s3 (at ?s3 0 Idle (rw_pack (- 1) False))"
    by (rule read_leaves; simp add: rw_init_def n c del: rw_count_pack)
  then have 4: "rw_step 3 ?s3 behind_reader" by (simp only: behind_reader_def Let_def)
  from 1 2 3 4 show ?thesis unfolding rw_reachable_def
    by (blast intro: converse_rtranclp_into_rtranclp)
qed

lemma behind_reader_pc: "pc behind_reader = (\<lambda>_. Idle)(1 := W_Wait, 2 := W_Wait)"
  by (auto simp: behind_reader_def rw_init_def fun_eq_iff)

theorem rwlock_lost_wakeup:
  "\<exists>s. rw_reachable 3 s \<and> (\<forall>t. (rw_step_within (3, 0))\<^sup>*\<^sup>* s t \<longrightarrow>
     pc t 1 = W_Wait \<and> pc t 2 = W_Wait \<and> (\<forall>i<3. pc t i \<noteq> Reading \<and> pc t i \<noteq> Writing))"
proof (intro exI[of _ behind_reader] conjI allI impI)
  show "rw_reachable 3 behind_reader" by (rule behind_reader_reachable)
  moreover have g: "gone behind_reader = 0" by (simp add: behind_reader_def rw_init_def)
  ultimately have "rw_inv 3 behind_reader" by (intro rw_inv_reachable) simp_all
  then have st: "stranded 3 behind_reader"
    using many_two[of 1 3 2 "pc behind_reader" W_Wait]
    by (simp add: stranded_def many_zero behind_reader_pc tokens_def) (simp add: behind_reader_def rw_init_def)
  fix t assume "(rw_step_within (3, 0))\<^sup>*\<^sup>* behind_reader t"
  from stranded_forever[of 3 behind_reader t] this st g have *: "stranded 3 t" "\<forall>i<3. pc behind_reader i = W_Wait \<longrightarrow> pc t i = W_Wait" by simp_all
  then show "pc t 1 = W_Wait" and "pc t 2 = W_Wait" by (simp_all add: behind_reader_pc)
  show "pc t i \<noteq> Reading" and "pc t i \<noteq> Writing" if "i < 3" for i
    using that *(1) by (simp_all add: stranded_def many_zero)
qed

text \<open>
  A writer whose wait fails stays in the count: another one which waits behind the same reader is alone, and nobody wakes it up.
\<close>

theorem rwlock_failed_wait_strands:
  "\<exists>s. rw_reachable 3 s \<and> pc s = (\<lambda>_. Idle)(1 := W_Wait) \<and> flags_of s AND EVL_RWLOCK_WR = 0"
proof (intro exI conjI)
  let ?s = "(go behind_reader 2 Idle)\<lparr>gone := gone behind_reader + 1\<rparr>"
  have "rw_step 3 behind_reader ?s" by (rule write_fail) (simp_all add: behind_reader_pc)
  with behind_reader_reachable show "rw_reachable 3 ?s" by (auto simp: rw_reachable_def intro: rtranclp.rtrancl_into_rtrancl)
  show "pc ?s = (\<lambda>_. Idle)(1 := W_Wait)" by (auto simp: behind_reader_pc)
  show "flags_of ?s AND EVL_RWLOCK_WR = 0" by (simp add: behind_reader_def rw_init_def)
qed

section \<open>Witnesses\<close>

definition one_writer :: rwsys where
  "one_writer = at rw_init 0 Writing (rw_pack 0 False)"

lemma one_writer_reachable: "rw_reachable 2 one_writer"
proof -
  have n: "lock_write_next (word_of rw_init) = rw_pack 0 False"
    by (simp add: rw_init_def lock_write_next_def EVL_RWLOCK_WRBIAS_def)
  then have "rw_step 2 rw_init one_writer"
    using write_enter[of 0 2 rw_init "rw_pack 0 False"] by (simp add: rw_init_def one_writer_def)
  then show ?thesis by (auto simp: rw_reachable_def)
qed

lemma one_writer_gone: "gone one_writer = 0"
  by (simp add: one_writer_def rw_init_def)

theorem rwlock_refines_spec_witness:
  "rw_spec_step\<^sup>*\<^sup>* \<lparr>readers = {}, writers = {}\<rparr> \<lparr>readers = {}, writers = {0}\<rparr>"
proof -
  have "rw_abs 2 one_writer = \<lparr>readers = {}, writers = {0}\<rparr>"
    by (auto simp: rw_abs_def one_writer_def rw_init_def)
  with rwlock_refines_spec[OF one_writer_reachable] show ?thesis by (simp add: one_writer_gone)
qed

theorem rwlock_exclusion_witness: "pc one_writer 1 \<noteq> Writing \<and> pc one_writer 1 \<noteq> Reading"
  by (rule rwlock_exclusion[OF one_writer_reachable, of 0 1]) (simp_all add: one_writer_gone, simp add: one_writer_def)


definition one_waiter :: rwsys where
  "one_waiter = at one_writer 1 W_Wait (rw_pack (- 1) False)"

theorem rwlock_writer_not_stranded_witness: "\<exists>i<2. pc one_waiter i \<in> {Reading, Writing, Posting}"
proof -
  have "rw_step 2 one_writer one_waiter" unfolding one_waiter_def
    by (rule write_waits) (simp_all add: one_writer_def rw_init_def lock_write_next_def)
  with one_writer_reachable have r: "rw_reachable 2 one_waiter"
    by (auto simp: rw_reachable_def intro: rtranclp.rtrancl_into_rtrancl)
  have "{i. i < (2::nat) \<and> pc one_waiter i = W_Wait} = {1}"
    by (auto simp: one_waiter_def one_writer_def rw_init_def)
  then have "many 2 (pc one_waiter) W_Wait = 1" by (simp add: many_def)
  moreover have "flags_of one_waiter AND EVL_RWLOCK_WR = 0"
    by (simp add: one_waiter_def one_writer_def rw_init_def)
  moreover have "gone one_waiter = 0" "unposted one_waiter = 0" by (simp_all add: one_waiter_def one_writer_def rw_init_def)
  ultimately show ?thesis using rwlock_writer_not_stranded[OF r] by simp
qed

end
