(* ===== verification/Heap_Locked_Correct.thy ===== *)
theory Heap_Locked_Correct
  imports Heap_Block_Correct Heap_Locked Evl_Objects
begin

text \<open>
  The heap and its mutex together: the operations that serialise on a mutex nobody contends for do what the unlocked ones
  do and give the mutex back; without the mutex the heap is left alone; what setting a heap up leaves open.
\<close>

section \<open>Under the mutex\<close>

text \<open>
  A mutex of any type, without a ceiling, that nobody holds; the current thread is attached, runs out-of-band, and
  no other thread runs.
\<close>

definition free_mutex :: "'k system \<Rightarrow> evl_mutex \<Rightarrow> 'k world \<Rightarrow> bool" where
  "free_mutex S m w \<longleftrightarrow> alone S \<and> mutex_magic m = MUTEX_ACTIVE_MAGIC \<and> evl_current w \<noteq> EVL_NO_HANDLE S \<and>
     evl_get_index S (evl_current w) = evl_current w \<and> evl_get_index S (EVL_NO_HANDLE S) \<noteq> evl_current w \<and>
     evl_get_current_mode S w AND (EVL_T_INBAND S OR EVL_T_WEAK S OR EVL_T_WOLI S) = 0 \<and>
     ma_proto (m_active m) \<noteq> EVL_GATE_PP S \<and> g_owner (gate_of w (ma_state (m_active m))) = EVL_NO_HANDLE S"

lemma lock_free_mutex:
  assumes "free_mutex S m w"
  obtains w1 w2 where "evl_lock_mutex S m w = Some ((0, m), w1)" and "evl_unlock_mutex S m w1 = (0, w2)"
    and "free_mutex S m w2" and "log w2 = log w"
proof -
  define gst where "gst = ma_state (m_active m)"
  define w0 where "w0 = w\<lparr>shr := aput (Owner gst) (evl_current w) (shr w)\<rparr>"
  define w1 where "w1 = upd_mon gst (\<lambda>m. m\<lparr>ms_flags := ms_flags m AND NOT (EVL_MONITOR_SIGNALED S)\<rparr>)
    (upd_gate gst (\<lambda>g. g\<lparr>g_nesting := 1\<rparr>) w0)"
  define w2 where "w2 = w1\<lparr>shr := aput (Owner gst) (EVL_NO_HANDLE S) (shr w1)\<rparr>"
  note free = assms[unfolded free_mutex_def and_or_zero, folded gst_def]
  have lock: "evl_lock_mutex S m w = Some ((0, m), w1)"
    using free by (simp add: mutex_defs Let_def atomic_defs alone_def gst_def[symmetric] w0_def w1_def and_or_zero
        MUTEX_ACTIVE_MAGIC_def MUTEX_UNINIT_MAGIC_def EBUSY_def EAGAIN_def ENODATA_def)
  have w1: "g_owner (gate_of w1 gst) = evl_current w" "g_nesting (gate_of w1 gst) = 1" "evl_current w1 = evl_current w"
    "ms_flags (mon (shr w1) gst) AND EVL_MONITOR_SIGNALED S = 0" "evl_get_current_mode S w1 = evl_get_current_mode S w"
    "w1\<lparr>shr := shr w1\<rparr> = w1"
    by (simp_all add: w1_def w0_def upd_gate_def upd_mon_def gate_of_def evl_get_current_mode_def)
  have unlock: "evl_unlock_mutex S m w1 = (0, w2)"
    using free w1 by (simp add: evl_unlock_mutex_def is_mutex_owner_def fast_unlock_mutex_def evl_get_current_def Let_def atomic_defs alone_def
        gst_def[symmetric] gate_of_def w2_def and_or_zero)
  have same: "evl_current w2 = evl_current w" "evl_get_current_mode S w2 = evl_get_current_mode S w" "log w2 = log w"
    "g_owner (gate_of w2 gst) = EVL_NO_HANDLE S"
    by (simp_all add: w2_def w1_def w0_def upd_gate_def upd_mon_def gate_of_def evl_get_current_mode_def)
  then have "free_mutex S m w2" using free by (simp add: free_mutex_def and_or_zero gst_def[symmetric])
  then show thesis by (rule that[OF lock unlock _ same(3)])
qed

lemma heap_locked_alone:
  assumes "free_mutex S m w"
  obtains w' where "\<And>(st :: 'c) (failed :: int \<Rightarrow> 'a) f. heap_locked S m st failed f w = map_option (\<lambda>(st, r). ((m, st), r, w')) (f st)"
    and "free_mutex S m w'" and "log w' = log w"
proof -
  obtain w1 w2 where l: "evl_lock_mutex S m w = Some ((0, m), w1)" "evl_unlock_mutex S m w1 = (0, w2)"
    "free_mutex S m w2" "log w2 = log w" using lock_free_mutex[OF assms] .
  have "heap_locked S m st failed f w = map_option (\<lambda>(st, r). ((m, st), r, w2)) (f st)" for st :: 'c and failed :: "int \<Rightarrow> 'a" and f
    by (cases "f st") (simp_all add: heap_locked_def l split_beta)
  then show thesis by (rule that[OF _ l(3,4)])
qed

section \<open>The allocator as a store of blocks\<close>

text \<open>The heap holds the blocks, its mutex is free, and no call was made beyond those logged.\<close>

definition locked_holds :: "'k system \<Rightarrow> evl_mutex \<Rightarrow> (kcall \<times> kreply) list \<Rightarrow> nat \<Rightarrow> nat \<Rightarrow>
    locked_heap \<times> 'k world \<Rightarrow> (nat \<times> nat) set \<Rightarrow> bool" where
  "locked_holds S m l lo hi s L \<longleftrightarrow>
     fst (fst s) = m \<and> free_mutex S m (snd s) \<and> log (snd s) = l \<and> heap_holds lo hi (snd (fst s)) L"

definition locked_alloc :: "'k system \<Rightarrow> bool \<Rightarrow> u64 \<Rightarrow> locked_heap \<times> 'k world \<Rightarrow> ((locked_heap \<times> 'k world) \<times> nat) option" where
  "locked_alloc S opt sz s = map_option (\<lambda>(lh, b, w). ((lh, w), unat b)) (evl_alloc_block S opt (fst s) sz (snd s))"

definition locked_free :: "'k system \<Rightarrow> bool \<Rightarrow> nat \<Rightarrow> locked_heap \<times> 'k world \<Rightarrow> ((locked_heap \<times> 'k world) \<times> int) option" where
  "locked_free S opt b s = map_option (\<lambda>(lh, r, w). ((lh, w), r)) (evl_free_block S opt (fst s) (of_nat b) (snd s))"

lemma locked_alloc_unlocked:
  assumes "free_mutex S m w"
  obtains w' where "\<And>st sz. locked_alloc S opt sz ((m, st), w) = map_option (\<lambda>(st, b). (((m, st), w'), b)) (heap_alloc opt sz st)"
    and "free_mutex S m w'" and "log w' = log w"
proof -
  obtain w' where w': "\<And>(st :: heap_mem \<times> evl_heap) (failed :: int \<Rightarrow> addr) f. heap_locked S m st failed f w = map_option (\<lambda>(st, r). ((m, st), r, w')) (f st)"
    "free_mutex S m w'" "log w' = log w" using heap_locked_alone[OF assms, where ?'a = addr and ?'c = "heap_mem \<times> evl_heap"] by metis
  then show thesis
    by (intro that[of w']) (simp_all add: locked_alloc_def evl_alloc_block_def heap_alloc_def option.map_comp comp_def split_beta)
qed

lemma locked_free_unlocked:
  assumes "free_mutex S m w"
  obtains w' where "\<And>st b. locked_free S opt b ((m, st), w) = map_option (\<lambda>(st, r). (((m, st), w'), r)) (heap_free opt b st)"
    and "free_mutex S m w'" and "log w' = log w"
proof -
  obtain w' where w': "\<And>(st :: heap_mem \<times> evl_heap) (failed :: int \<Rightarrow> int) f. heap_locked S m st failed f w = map_option (\<lambda>(st, r). ((m, st), r, w')) (f st)"
    "free_mutex S m w'" "log w' = log w" using heap_locked_alone[OF assms, where ?'a = int and ?'c = "heap_mem \<times> evl_heap"] by metis
  then show thesis
    by (intro that[of w']) (simp_all add: locked_free_def evl_free_block_def heap_free_def option.map_comp comp_def split_beta')
qed

interpretation locked_store: block_store "locked_holds S m l lo hi" "locked_alloc S opt" "locked_free S opt" unat
    "\<lambda>sz. unat sz < 2 ^ 62" lo hi
  for S :: "'k system" and m l lo hi opt
proof
  fix s L a n b k
  assume "locked_holds S m l lo hi s L" "(a, n) \<in> L" "(b, k) \<in> L" "(a, n) \<noteq> (b, k)"
  then show "{a..<a + n} \<inter> {b..<b + k} = {}" unfolding locked_holds_def by (blast dest: heap_store.disjoint)
next
  fix s L a n
  assume "locked_holds S m l lo hi s L" "(a, n) \<in> L"
  then show "lo \<le> a \<and> a + n \<le> hi \<and> 0 < n" unfolding locked_holds_def by (blast dest: heap_store.bounds)
next
  fix s :: "locked_heap \<times> 'k world" and L x
  assume h: "locked_holds S m l lo hi s L" "unat (x :: u64) < 2 ^ 62"
  obtain st w where s: "s = ((m, st), w)" using h(1) by (cases s; cases "fst s") (auto simp: locked_holds_def)
  with h(1) have m: "free_mutex S m w" "log w = l" "heap_holds lo hi st L" by (simp_all add: locked_holds_def)
  obtain w' where w': "\<And>st sz. locked_alloc S opt sz ((m, st), w) = map_option (\<lambda>(st, b). (((m, st), w'), b)) (heap_alloc opt sz st)"
    "free_mutex S m w'" "log w' = log w" by (rule locked_alloc_unlocked[OF m(1), where opt = opt]) blast
  obtain st' b where "heap_alloc opt x st = Some (st', b)"
    "if b = 0 then heap_holds lo hi st' L else \<exists>n\<ge>unat x. (b, n) \<notin> L \<and> heap_holds lo hi st' (insert (b, n) L)"
    using heap_store.alloc[OF m(3) h(2), of opt] by blast
  then show "\<exists>s' b. locked_alloc S opt x s = Some (s', b) \<and>
      (if b = 0 then locked_holds S m l lo hi s' L else \<exists>n\<ge>unat x. (b, n) \<notin> L \<and> locked_holds S m l lo hi s' (insert (b, n) L))"
    using w' m(2) by (intro exI[of _ "((m, st'), w')"] exI[of _ b]) (auto simp: s locked_holds_def)
next
  fix s :: "locked_heap \<times> 'k world" and L b n
  assume h: "locked_holds S m l lo hi s L" "(b, n) \<in> L"
  obtain st w where s: "s = ((m, st), w)" using h(1) by (cases s; cases "fst s") (auto simp: locked_holds_def)
  with h(1) have m: "free_mutex S m w" "log w = l" "heap_holds lo hi st L" by (simp_all add: locked_holds_def)
  obtain w' where w': "\<And>st b. locked_free S opt b ((m, st), w) = map_option (\<lambda>(st, r). (((m, st), w'), r)) (heap_free opt b st)"
    "free_mutex S m w'" "log w' = log w" by (rule locked_free_unlocked[OF m(1), where opt = opt]) blast
  obtain st' where "heap_free opt b st = Some (st', 0)" "heap_holds lo hi st' (L - {(b, n)})"
    using heap_store.free[OF m(3) h(2), of opt] by blast
  then show "\<exists>s'. locked_free S opt b s = Some (s', 0) \<and> locked_holds S m l lo hi s' (L - {(b, n)})"
    using w' m(2) by (intro exI[of _ "((m, st'), w')"]) (auto simp: s locked_holds_def)
qed

text \<open>
  C4. The heap with its mutex. Whatever sequence of \<^verbatim>\<open>evl_alloc_block\<close> and \<^verbatim>\<open>evl_free_block\<close> an out-of-band thread makes of a new heap of
  one extent whose mutex nobody else wants: every request is served or refused and every release succeeds, the blocks held at the end lie in the user memory and never overlap, the
  mutex is free again, and the kernel was not called.
\<close>

theorem locked_heap_safe:
  assumes "free_mutex S m w" and "extent_args_ok mem sz" and "unat (sz - extent_overhead sz) \<le> 2 ^ 31"
    and "\<forall>x. request.Get x \<in> set rs \<longrightarrow> unat x < 2 ^ 62"
  shows "\<exists>st st' w' ps. evl_init_heap_unlocked opt hm hp mem sz = Some (st, 0) \<and>
    client_run (locked_alloc S opt) (locked_free S opt) rs ((m, st), w) [] = Some (((m, st'), w'), ps) \<and>
    (\<forall>(b, x)\<in>set ps. unat (mem + extent_overhead sz) \<le> b \<and> b + unat x \<le> unat (mem + sz)) \<and>
    (\<forall>i<length ps. \<forall>j<length ps. i \<noteq> j \<longrightarrow>
       {fst (ps ! i)..<fst (ps ! i) + unat (snd (ps ! i))} \<inter> {fst (ps ! j)..<fst (ps ! j) + unat (snd (ps ! j))} = {}) \<and>
    g_owner (gate_of w' (ma_state (m_active m))) = EVL_NO_HANDLE S \<and> log w' = log w"
proof -
  let ?lo = "unat (mem + extent_overhead sz)" and ?hi = "unat (mem + sz)" and ?l = "log w"
  obtain st where i: "evl_init_heap_unlocked opt hm hp mem sz = Some (st, 0)" "heap_holds ?lo ?hi st {}"
    using heap_holds_init[OF assms(2,3)] by blast
  then have o: "owns_by (locked_holds S m ?l ?lo ?hi) unat [] ((m, st), w)"
    using assms(1) by (simp add: owns_by_def locked_holds_def)
  have "\<forall>r\<in>set rs. case r of request.Get x \<Rightarrow> unat x < 2 ^ 62 | request.Put i \<Rightarrow> True"
    using assms(4) by (auto split: request.split)
  from locked_store.client_run_owns[OF o this, of opt] obtain s' ps where
    r: "client_run (locked_alloc S opt) (locked_free S opt) rs ((m, st), w) [] = Some (s', ps)"
      "owns_by (locked_holds S m ?l ?lo ?hi) unat ps s'" by blast
  from r(2) obtain L where "locked_holds S m ?l ?lo ?hi s' L" by (auto simp: owns_by_def)
  then obtain st' w' where s': "s' = ((m, st'), w')" "free_mutex S m w'" "log w' = ?l"
    by (cases s'; cases "fst s'") (auto simp: locked_holds_def)
  show ?thesis
    using i(1) r(1) s' locked_store.owns_bounds[OF r(2)] locked_store.owns_disjoint[OF r(2)]
    by (intro exI[of _ st] exI[of _ st'] exI[of _ w'] exI[of _ ps]) (auto simp: free_mutex_def)
qed

lemma sample_free_mutex: "free_mutex (sample_system no_fail) sample_mutex (mutex_world 0)"
  using mutex_world_ok by (simp add: free_mutex_def mutex_ok_def mutex_mine_def)

theorem locked_heap_safe_witness:
  "\<exists>st st' w' ps. evl_init_heap_unlocked True mem_zero no_heap 65536 4352 = Some (st, 0) \<and>
     client_run (locked_alloc (sample_system no_fail) True) (locked_free (sample_system no_fail) True)
       [request.Get 100, request.Get 600, request.Put 0, request.Get 16] ((sample_mutex, st), mutex_world 0) [] = Some (((sample_mutex, st'), w'), ps) \<and>
     g_owner (gate_of w' 0x1040) = 0 \<and> log w' = []"
proof -
  have "\<forall>x. request.Get x \<in> set [request.Get (100 :: u64), request.Get 600, request.Put 0, request.Get 16] \<longrightarrow> unat x < 2 ^ 62" by auto
  from locked_heap_safe[OF sample_free_mutex small_heap(1,2) this, of True mem_zero no_heap] show ?thesis
    unfolding sample_mutex_simps sample_consts mutex_world_simps by (elim exE conjE) (intro exI conjI; assumption)
qed

section \<open>Without the mutex\<close>

text \<open>
  An operation that does not get the mutex leaves the heap alone: an allocation returns NULL, the
  others the error.
\<close>

theorem heap_untouched:
  assumes "evl_lock_mutex S (fst lh) w = Some ((ret, lock), w')" and "ret \<noteq> 0"
  shows "evl_alloc_block S opt lh sz w = Some ((lock, snd lh), NULL, w') \<and>
    evl_free_block S opt lh block w = Some ((lock, snd lh), ret, w') \<and>
    evl_check_block S opt lh block w = Some ((lock, snd lh), ret, w') \<and>
    evl_extend_heap S opt lh mem sz w = Some ((lock, snd lh), ret, w')"
  using assms by (simp add: evl_alloc_block_def evl_free_block_def evl_check_block_def evl_extend_heap_def heap_locked_def)

section \<open>Setting up\<close>

lemma new_mutex_spec:
  assumes "kernel_ok S" and "evl_new_mutex S m (Some name) w = ((ret, m'), w')"
  shows "(0 \<le> ret \<longrightarrow> mutex_magic m' = MUTEX_ACTIVE_MAGIC \<and> ma_efd (m_active m') = ret \<and> fds S w' = add_mset ret (fds S w) \<and>
      g_owner (gate_of w' (ma_state (m_active m'))) = EVL_NO_HANDLE S) \<and>
    (ret < 0 \<longrightarrow> m' = m \<and> (fds S w' = fds S w \<or> leaves_element S w w'))"
proof -
  have fds_shr: "fds S (u\<lparr>shr := sh\<rparr>) = fds S u" for sh u by (simp add: fds_def)
  obtain efd ids w1 where c: "create_monitor S (EVL_MONITOR_GATE S) (EVL_GATE_PI S) (EVL_CLOCK_MONOTONIC S) 0
      (EVL_MUTEX_NORMAL OR EVL_CLONE_PRIVATE S) (Some name) w = ((efd, ids), w1)" by (metis surj_pair)
  from assms(2) c create_monitor_fds[OF assms(1) c] create_monitor_leaves[OF assms(1) c] show ?thesis
    by (auto simp: evl_new_mutex_def evl_create_mutex_def init_mutex_vargs_def Let_def ENXIO_def EINVAL_def init_fast_lock_def atomic_store_def
        interfere_def split_beta fds_shr upd_gate_def upd_mon_def gate_of_def fds_sys fd_step_def split: if_split_asm)
qed

text \<open>
  C20. Setting up a heap with \<^verbatim>\<open>evl_init_heap\<close>, for a memory of the layout asked for or of a size the heap refuses: it ends. An
  error, of the creation of the mutex or of the size, leaves the file descriptors of the process as they were, unless a \<^verbatim>\<open>fcntl\<close> on the
  new mutex failed, whose descriptor then stays open. A success makes one descriptor, that of the mutex, which is free, and
  an empty heap between the bounds of the user memory.
\<close>

theorem init_heap_correct:
  assumes "kernel_ok S"
    and "extent_args_ok mem sz \<and> unat (sz - extent_overhead sz) \<le> 2 ^ 31
       \<or> (sz - extent_overhead sz) AND NOT EVL_HEAP_PAGE_MASK \<noteq> 0"
  shows "\<exists>lock' st' ret w'. evl_init_heap S opt (lock, hm, hp) mem sz serial w = Some ((lock', st'), ret, serial + 1, w') \<and>
    (if ret < 0 then fds S w' = fds S w \<or> (\<exists>fd. fds S w' = add_mset fd (fds S w) \<and> fcntl_failed fd w w')
     else ret = 0 \<and> extent_args_ok mem sz \<and> heap_holds (unat (mem + extent_overhead sz)) (unat (mem + sz)) st' {} \<and>
       mutex_magic lock' = MUTEX_ACTIVE_MAGIC \<and> g_owner (gate_of w' (ma_state (m_active lock'))) = EVL_NO_HANDLE S \<and>
       fds S w' = add_mset (ma_efd (m_active lock')) (fds S w))"
proof -
  obtain ret m w1 where n: "evl_new_mutex S lock (Some (heap_name serial)) w = ((ret, m), w1)" by (metis surj_pair)
  note spec = new_mutex_spec[OF assms(1) n]
  show ?thesis
  proof (cases "ret < 0")
    case True
    with n spec show ?thesis by (cases hp) (auto simp: evl_init_heap_def leaves_element_def)
  next
    case False
    show ?thesis
    proof (cases "(sz - extent_overhead sz) AND NOT EVL_HEAP_PAGE_MASK \<noteq> 0")
      case True
      then have i: "evl_init_heap_unlocked opt hm hp mem sz = Some ((hm, hp\<lparr>extents := [], buckets := reset_buckets\<rparr>), - EINVAL)"
        by (simp add: evl_init_heap_unlocked_def add_extent_def Let_def)
      obtain r m2 w2 where c: "evl_close_mutex S m w1 = ((r, m2), w2)" by (metis surj_pair)
      have "fds S w2 = fds S w"
        using c spec False by (auto simp: evl_close_mutex_def close_fd_def Let_def split_beta fds_sys MUTEX_ACTIVE_MAGIC_def
            MUTEX_UNINIT_MAGIC_def)
      with n i c False show ?thesis by (auto simp: evl_init_heap_def EINVAL_def)
    next
      case aligned: False
      with assms(2) have a: "extent_args_ok mem sz" "unat (sz - extent_overhead sz) \<le> 2 ^ 31" by auto
      obtain st where "evl_init_heap_unlocked opt hm hp mem sz = Some (st, 0)"
        "heap_holds (unat (mem + extent_overhead sz)) (unat (mem + sz)) st {}"
        using heap_holds_init[OF a] by blast
      with n spec False a show ?thesis by (auto simp: evl_init_heap_def split_beta)
    qed
  qed
qed

theorem init_heap_correct_witness:
  "\<exists>lock' st' ret w'. evl_init_heap (sample_system no_fail) True (sample_mutex, mem_zero, no_heap) 65536 4353 0 sample_world =
      Some ((lock', st'), ret, 1, w') \<and> ret < 0 \<and>
      (fds (sample_system no_fail) w' = {#} \<or> (\<exists>fd. fds (sample_system no_fail) w' = {#fd#}))"
proof -
  have "extent_overhead 4353 = 256"
    by (simp add: extent_overhead_def align_to_u32_def EVL_HEAP_PGMAP_BYTES_def sizeof_extent_def
        EVL_HEAP_PAGE_SIZE_def EVL_HEAP_PAGE_SHIFT_def EVL_HEAP_MIN_ALIGN_def EVL_HEAP_MIN_LOG2_def)
  then have odd: "(4353 - extent_overhead 4353) AND NOT EVL_HEAP_PAGE_MASK \<noteq> 0" "\<not> extent_args_ok 65536 4353"
    unfolding page_mask_iff by (simp_all add: extent_args_ok_def)
  have "fds (sample_system no_fail) sample_world = {#}" by (simp add: fds_def sample_world_def)
  with init_heap_correct[OF sample_kernel_ok[of no_fail] disjI2[OF odd(1)],
      where mem = 65536 and opt = True and lock = sample_mutex and hm = mem_zero and hp = no_heap and serial = 0 and w = sample_world] odd(2)
  show ?thesis by (auto split: if_splits)
qed

end
