(* ===== verification/Ring_Ptr.thy ===== *)
theory Ring_Ptr
  imports Evl_Prelude
begin

text \<open>
  \<^verbatim>\<open>include/evl/ring_ptr.h\<close>: the lock-free ring of pointers.  A cell is one 128-bit word, its
  upper half the entry (the cycle of the position that last used it and two flag bits), its lower
  half the pointer.  Every atomic access is preceded by one call of the parameter \<open>env\<close>, the
  interference of the other threads: it maps the ring (and a state \<open>'k\<close> of its own) to
  the ring the access finds, and tells whether a weak compare-and-exchange fails spuriously.
  The retry loops are \<^theory_text>\<open>partial_function (option)\<close>, so that \<open>None\<close> is a loop that is retried
  for ever.  The size parameter \<open>order\<close> is the compile-time constant of the C macros.
\<close>

section \<open>Cells\<close>

type_synonym u128 = "128 word"

definition EVL_RING_CACHELINE_SHIFT :: nat where "EVL_RING_CACHELINE_SHIFT = 7"

definition EVL_RINGPTR_MINORDER :: nat where "EVL_RINGPTR_MINORDER = EVL_RING_CACHELINE_SHIFT - 4"

definition ringptr_aba_shift :: nat where "ringptr_aba_shift = 16 * 4"

definition ringptr_aba_mask :: u128 where "ringptr_aba_mask = push_bit ringptr_aba_shift (NOT 0)"

definition ringptr_entry :: "u128 \<Rightarrow> u64" where
  "ringptr_entry x = ucast (drop_bit ringptr_aba_shift (x AND ringptr_aba_mask))"

definition ringptr_pointer :: "u128 \<Rightarrow> u64" where
  "ringptr_pointer x = ucast (x AND NOT ringptr_aba_mask)"

definition ringptr_pair :: "u64 \<Rightarrow> u64 \<Rightarrow> u128" where
  "ringptr_pair e p = (push_bit ringptr_aba_shift (ucast e) OR ucast p)"

text \<open>The sign of the wrapping difference orders two counters.\<close>

definition ringptr_cmp :: "u64 \<Rightarrow> (int \<Rightarrow> int \<Rightarrow> bool) \<Rightarrow> u64 \<Rightarrow> bool" where
  "ringptr_cmp x rel y = rel (sint (x - y)) 0"

definition ringptr_map :: "u64 \<Rightarrow> nat \<Rightarrow> u64 \<Rightarrow> u64" where
  "ringptr_map idx order n =
     (drop_bit (order + 1 - EVL_RINGPTR_MINORDER) (idx AND (n - 1))
      OR (push_bit EVL_RINGPTR_MINORDER idx AND (n - 1)))"

definition ringptr_threshold4 :: "u64 \<Rightarrow> u64" where
  "ringptr_threshold4 n = 2 * n - 1"

definition ringptr_cells :: "nat \<Rightarrow> u64" where
  "ringptr_cells order = push_bit (order + 1) 1"

section \<open>The ring\<close>

record ringptr =
  rg_head :: u64
  rg_threshold :: u64
  rg_tail :: u64
  rg_array :: "u128 list"

text \<open>A ring and the state of whoever else uses it; the interference before an access.\<close>

record 'k ringworld =
  rk :: 'k
  rg :: ringptr

type_synonym 'k ringenv = "'k ringworld \<Rightarrow> bool \<times> 'k ringworld"

definition ringptr_clear :: "nat \<Rightarrow> ringptr \<Rightarrow> ringptr" where
  "ringptr_clear order r =
     (let n = ringptr_cells order in
      r\<lparr>rg_array := replicate (unat n) 0 @ drop (unat n) (rg_array r),
        rg_head := n, rg_tail := n, rg_threshold := - 1\<rparr>)"

definition init_ring_cursor :: "nat \<Rightarrow> u64" where
  "init_ring_cursor order = ringptr_cells order"

text \<open>The initialiser of a static ring, and the allocation of a dynamic one: \<^verbatim>\<open>posix_memalign\<close>
  returned \<open>ret\<close> and, when this is zero, memory with the contents \<open>mem\<close>.\<close>

definition static_ring :: "nat \<Rightarrow> ringptr" where
  "static_ring order =
     \<lparr>rg_head = ringptr_cells order, rg_threshold = - 1, rg_tail = ringptr_cells order,
      rg_array = replicate (unat (ringptr_cells order)) 0\<rparr>"

definition evl_alloc_ring :: "nat \<Rightarrow> int \<Rightarrow> ringptr \<Rightarrow> ringptr option \<Rightarrow> int \<times> ringptr option" where
  "evl_alloc_ring order ret mem old = (if ret = 0 then (ret, Some (ringptr_clear order mem)) else (ret, old))"

subsection \<open>Atomic accesses\<close>

definition ring_load :: "'k ringenv \<Rightarrow> (ringptr \<Rightarrow> 'a) \<Rightarrow> 'k ringworld \<Rightarrow> 'a \<times> 'k ringworld" where
  "ring_load env f w = (let (_, w) = env w in (f (rg w), w))"

definition ring_store :: "'k ringenv \<Rightarrow> (ringptr \<Rightarrow> ringptr) \<Rightarrow> 'k ringworld \<Rightarrow> 'k ringworld" where
  "ring_store env f w = (let (_, w) = env w in w\<lparr>rg := f (rg w)\<rparr>)"

text \<open>Fetch a value and modify it in one step.\<close>

definition ring_fetch :: "'k ringenv \<Rightarrow> (ringptr \<Rightarrow> 'a) \<Rightarrow> (ringptr \<Rightarrow> ringptr) \<Rightarrow> 'k ringworld \<Rightarrow> 'a \<times> 'k ringworld" where
  "ring_fetch env f g w = (let (_, w) = env w in (f (rg w), w\<lparr>rg := g (rg w)\<rparr>))"

text \<open>Weak compare-and-exchange of what \<open>f\<close> reads; the second result is the value it found.\<close>

definition ring_cas_weak :: "'k ringenv \<Rightarrow> (ringptr \<Rightarrow> 'a) \<Rightarrow> 'a \<Rightarrow> (ringptr \<Rightarrow> ringptr) \<Rightarrow> 'k ringworld
    \<Rightarrow> (bool \<times> 'a) \<times> 'k ringworld" where
  "ring_cas_weak env f expected g w =
     (let (spurious, w) = env w in
      if f (rg w) = expected \<and> \<not> spurious then ((True, expected), w\<lparr>rg := g (rg w)\<rparr>)
      else ((False, f (rg w)), w))"

definition ring_cell :: "u64 \<Rightarrow> ringptr \<Rightarrow> u128" where
  "ring_cell i r = rg_array r ! unat i"

definition set_ring_cell :: "u64 \<Rightarrow> u128 \<Rightarrow> ringptr \<Rightarrow> ringptr" where
  "set_ring_cell i x r = r\<lparr>rg_array := (rg_array r)[unat i := x]\<rparr>"

text \<open>The upper half of a cell as an object of its own.\<close>

definition array_entry :: "u64 \<Rightarrow> ringptr \<Rightarrow> u64" where
  "array_entry i r = ringptr_entry (ring_cell i r)"

definition set_array_entry :: "u64 \<Rightarrow> u64 \<Rightarrow> ringptr \<Rightarrow> ringptr" where
  "set_array_entry i e r = set_ring_cell i (ringptr_pair e (ringptr_pointer (ring_cell i r))) r"

section \<open>Enqueue\<close>

text \<open>The part from \<^verbatim>\<open>retry\<close> on: does the pointer get into the cell of position \<open>tail\<close>?\<close>

partial_function (option) enqueue_cell :: "'k ringenv \<Rightarrow> u64 \<Rightarrow> u64 \<Rightarrow> u64 \<Rightarrow> u64 \<Rightarrow> u64 \<Rightarrow> u128 \<Rightarrow> 'k ringworld
    \<Rightarrow> (bool \<times> 'k ringworld) option" where
  "enqueue_cell env n ptr tail tcycle tidx pair w =
     (let entry = ringptr_entry pair;
          ecycle = entry AND NOT (n - 1);
          (usable, w) =
            (if ringptr_cmp ecycle (<) tcycle then
               if entry = ecycle then (True, w)
               else if entry = (ecycle OR 2) then
                 (let (head, w) = ring_load env rg_head w in (head \<le> tail, w))
               else (False, w)
             else (False, w))
      in if usable then
           (let ((done, pair), w) = ring_cas_weak env (ring_cell tidx) pair
                  (set_ring_cell tidx (ringptr_pair (tcycle OR 1) ptr)) w
            in if done then Some (True, w) else enqueue_cell env n ptr tail tcycle tidx pair w)
         else Some (False, w))"

partial_function (option) enqueue_loop :: "'k ringenv \<Rightarrow> nat \<Rightarrow> u64 \<Rightarrow> u64 \<Rightarrow> u64 \<Rightarrow> 'k ringworld
    \<Rightarrow> ((bool \<times> u64) \<times> 'k ringworld) option" where
  "enqueue_loop env order n ptr cursor w =
     (let (tail, w) = ring_fetch env rg_tail (\<lambda>r. r\<lparr>rg_tail := rg_tail r + 1\<rparr>) w;
          tcycle = tail AND NOT (n - 1);
          tidx = ringptr_map tail order n;
          (pair, w) = ring_load env (ring_cell tidx) w
      in Option.bind (enqueue_cell env n ptr tail tcycle tidx pair w) (\<lambda>(stored, w).
         if stored then
           (let (thr, w) = ring_load env rg_threshold w;
                w = (if thr \<noteq> ringptr_threshold4 n
                     then ring_store env (\<lambda>r. r\<lparr>rg_threshold := ringptr_threshold4 n\<rparr>) w else w)
            in Some ((True, cursor), w))
         else if tail + 1 \<ge> cursor + n then
           (let (cursor, w) = ring_load env rg_head w
            in if tail + 1 \<ge> cursor + n then Some ((False, cursor), w)
               else enqueue_loop env order n ptr cursor w)
         else enqueue_loop env order n ptr cursor w))"

text \<open>The results are the one of the C function and the new value of \<^verbatim>\<open>cursor->head\<close>.\<close>

definition ringptr_enqueue :: "'k ringenv \<Rightarrow> nat \<Rightarrow> u64 \<Rightarrow> u64 \<Rightarrow> 'k ringworld
    \<Rightarrow> ((bool \<times> u64) \<times> 'k ringworld) option" where
  "ringptr_enqueue env order ptr cursor w =
     (let n = ringptr_cells order;
          (tail, w) = ring_load env rg_tail w
      in if tail \<ge> cursor + n then
           (let (cursor, w) = ring_load env rg_head w
            in if tail \<ge> cursor + n then Some ((False, cursor), w)
               else enqueue_loop env order n ptr cursor w)
         else enqueue_loop env order n ptr cursor w)"

section \<open>Dequeue\<close>

partial_function (option) catchup_loop :: "'k ringenv \<Rightarrow> u64 \<Rightarrow> u64 \<Rightarrow> 'k ringworld \<Rightarrow> 'k ringworld option" where
  "catchup_loop env tail head w =
     (let ((done, _), w) = ring_cas_weak env rg_tail tail (\<lambda>r. r\<lparr>rg_tail := head\<rparr>) w
      in if done then Some w
         else (let (head, w) = ring_load env rg_head w;
                   (tail, w) = ring_load env rg_tail w
               in if ringptr_cmp tail (\<ge>) head then Some w else catchup_loop env tail head w))"

definition ringptr_catchup :: "'k ringenv \<Rightarrow> u64 \<Rightarrow> u64 \<Rightarrow> 'k ringworld \<Rightarrow> 'k ringworld option" where
  "ringptr_catchup env tail head w = catchup_loop env tail head w"

text \<open>The \<^verbatim>\<open>do ... while\<close> on one cell: the pointer found in it, if any.\<close>

partial_function (option) dequeue_cell :: "'k ringenv \<Rightarrow> u64 \<Rightarrow> u64 \<Rightarrow> u64 \<Rightarrow> u64 \<Rightarrow> 'k ringworld
    \<Rightarrow> (u64 option \<times> 'k ringworld) option" where
  "dequeue_cell env n hcycle hidx entry w =
     (let ecycle = entry AND NOT (n - 1)
      in if ecycle = hcycle then
           (let (pair, w) = ring_fetch env (ring_cell hidx)
                  (\<lambda>r. set_ring_cell hidx (ring_cell hidx r AND ringptr_pair (NOT 1) 0) r) w
            in Some (Some (ringptr_pointer pair), w))
         else if entry AND NOT 2 \<noteq> ecycle \<and> entry = entry OR 2 then Some (None, w)
         else
           (let entry_new = (if entry AND NOT 2 \<noteq> ecycle then entry OR 2 else hcycle OR (entry AND 2))
            in if ringptr_cmp ecycle (<) hcycle then
                 (let ((done, entry), w) = ring_cas_weak env (array_entry hidx) entry (set_array_entry hidx entry_new) w
                  in if done then Some (None, w) else dequeue_cell env n hcycle hidx entry w)
               else Some (None, w)))"

partial_function (option) dequeue_loop :: "'k ringenv \<Rightarrow> nat \<Rightarrow> u64 \<Rightarrow> 'k ringworld
    \<Rightarrow> (u64 option \<times> 'k ringworld) option" where
  "dequeue_loop env order n w =
     (let (head, w) = ring_fetch env rg_head (\<lambda>r. r\<lparr>rg_head := rg_head r + 1\<rparr>) w;
          hcycle = head AND NOT (n - 1);
          hidx = ringptr_map head order n;
          (entry, w) = ring_load env (array_entry hidx) w
      in Option.bind (dequeue_cell env n hcycle hidx entry w) (\<lambda>(found, w).
         case found of Some p \<Rightarrow> Some (Some p, w)
         | None \<Rightarrow>
             (let (tail, w) = ring_load env rg_tail w
              in if ringptr_cmp tail (\<le>) (head + 1) then
                   Option.bind (ringptr_catchup env tail (head + 1) w) (\<lambda>w.
                   let (_, w) = ring_fetch env rg_threshold (\<lambda>r. r\<lparr>rg_threshold := rg_threshold r - 1\<rparr>) w
                   in Some (None, w))
                 else
                   (let (thr, w) = ring_fetch env rg_threshold (\<lambda>r. r\<lparr>rg_threshold := rg_threshold r - 1\<rparr>) w
                    in if sint thr \<le> 0 then Some (None, w) else dequeue_loop env order n w))))"

text \<open>The pointer that was taken out, or \<open>None\<close> for the result \<^verbatim>\<open>false\<close>.\<close>

definition ringptr_dequeue :: "'k ringenv \<Rightarrow> nat \<Rightarrow> 'k ringworld \<Rightarrow> (u64 option \<times> 'k ringworld) option" where
  "ringptr_dequeue env order w =
     (let n = ringptr_cells order;
          (thr, w) = ring_load env rg_threshold w
      in if sint thr < 0 then Some (None, w) else dequeue_loop env order n w)"

declare enqueue_cell.simps [code] enqueue_loop.simps [code] catchup_loop.simps [code]
  dequeue_cell.simps [code] dequeue_loop.simps [code]

end
