(* ===== verification/Ring_Ptr_Words.thy ===== *)
theory Ring_Ptr_Words
  imports Ring_Ptr
begin

text \<open>
  The words of the ring: a cell is its two halves, the cycle of a position is the position
  without its low bits, and \<open>ringptr_map\<close> permutes the cells: consecutive positions, as many as
  there are cells, use different cells.
\<close>

section \<open>The two halves of a cell\<close>

lemmas ringptr_half_defs = ringptr_entry_def ringptr_pointer_def ringptr_pair_def ringptr_aba_mask_def
  ringptr_aba_shift_def

lemma entry_pair [simp]: "ringptr_entry (ringptr_pair e p) = e"
  by (rule bit_word_eqI) (auto simp: ringptr_half_defs bit_simps dest: bit_imp_le_length)

lemma pointer_pair [simp]: "ringptr_pointer (ringptr_pair e p) = p"
  by (rule bit_word_eqI) (auto simp: ringptr_half_defs bit_simps dest: bit_imp_le_length)

lemma pair_entry_pointer [simp]: "ringptr_pair (ringptr_entry x) (ringptr_pointer x) = x"
  by (rule bit_word_eqI) (auto simp: ringptr_half_defs bit_simps dest: bit_imp_le_length)

lemma pair_and_pair: "ringptr_pair e p AND ringptr_pair e' p' = ringptr_pair (e AND e') (p AND p')"
  by (rule bit_word_eqI) (auto simp: ringptr_half_defs bit_simps dest: bit_imp_le_length)

section \<open>Cycles\<close>

lemma cells_minus_1: "ringptr_cells order - 1 = mask (order + 1)"
  by (simp add: ringptr_cells_def mask_eq_decr_exp del: push_bit_of_1 add: push_bit_of_1 power_add)

lemma unat_cells:
  assumes "order \<le> 60"
  shows "unat (ringptr_cells order) = 2 ^ (order + 1)"
proof -
  have "(2::nat) ^ (order + 1) < 2 ^ 64" using assms by (intro power_strict_increasing) auto
  moreover have "unat (push_bit (order + 1) (1::u64)) = take_bit 64 (push_bit (order + 1) 1)"
    by (simp only: unsigned_push_bit_eq unsigned_1) simp
  ultimately show ?thesis
    using assms by (simp add: ringptr_cells_def push_bit_eq_mult take_bit_nat_eq_self del: push_bit_of_1 power_Suc)
qed

text \<open>The cycle of a position.\<close>

definition cycle_of :: "nat \<Rightarrow> nat \<Rightarrow> u64" where
  "cycle_of order p = of_nat p AND NOT (mask (order + 1))"

lemma unat_cycle_of: "p < 2 ^ 64 \<Longrightarrow> unat (cycle_of order p) = p div 2 ^ (order + 1) * 2 ^ (order + 1)"
  by (simp add: cycle_of_def unat_and_not_mask unsigned_of_nat take_bit_nat_eq_self del: of_nat_add power_Suc)

lemma cycle_of_next:
  assumes "p + 2 ^ (order + 1) < 2 ^ 64"
  shows "unat (cycle_of order (p + 2 ^ (order + 1))) = unat (cycle_of order p) + 2 ^ (order + 1)"
  using assms by (simp add: unat_cycle_of div_add_self2 algebra_simps)

lemma cycle_of_masked [simp]: "cycle_of order p AND NOT (mask (order + 1)) = cycle_of order p"
  by (simp add: cycle_of_def ac_simps)

lemma flag_masked:
  assumes "2 \<le> order"
  shows "(cycle_of order p OR 1) AND NOT (mask (order + 1)) = cycle_of order p"
proof (rule bit_word_eqI)
  fix k
  show "bit ((cycle_of order p OR 1) AND NOT (mask (order + 1))) k = bit (cycle_of order p) k" if "k < LENGTH(64)"
    using assms that by (cases "k = 0") (auto simp: cycle_of_def bit_and_iff bit_or_iff bit_not_iff bit_mask_iff bit_1_iff)
qed

lemma flag_cleared:
  shows "(cycle_of order p OR 1) AND NOT 1 = cycle_of order p"
proof (rule bit_word_eqI)
  fix k
  show "bit ((cycle_of order p OR 1) AND NOT 1) k = bit (cycle_of order p) k" if "k < LENGTH(64)"
    using that by (cases "k = 0") (auto simp: cycle_of_def bit_and_iff bit_or_iff bit_not_iff bit_mask_iff bit_1_iff)
qed

lemma clean_no_flag:
  assumes "2 \<le> order" and "e AND NOT (mask (order + 1)) = e"
  shows "e AND NOT 2 = e" and "e AND 2 = (0::u64)"
proof -
  have "bit (e AND NOT (mask (order + 1))) 1 = bit e 1" using assms(2) by simp
  then have no: "\<not> bit e 1" using assms(1) by (simp add: bit_and_iff bit_not_iff bit_mask_iff)
  show "e AND NOT 2 = e"
  proof (rule bit_word_eqI)
    fix k show "bit (e AND NOT 2) k = bit e k" if "k < LENGTH(64)"
      using no that unfolding bit_and_iff bit_not_iff bit_2_iff by (cases "k = 1") auto
  qed
  show "e AND 2 = 0"
  proof (rule bit_word_eqI)
    fix k show "bit (e AND 2) k = bit 0 k" if "k < LENGTH(64)"
      using no that by (cases "k = 1") (auto simp: bit_and_iff bit_2_iff)
  qed
qed

lemma cmp_int:
  assumes "unat x < 2 ^ 63" and "unat y < 2 ^ 63"
  shows "ringptr_cmp x rel y = rel (int (unat x) - int (unat y)) 0"
proof -
  have b: "int (unat x) < 2 ^ 63" "int (unat y) < 2 ^ 63"
    using assms by (simp_all only: of_nat_less_numeral_power_cancel_iff)
  have "sint (x - y) = signed_take_bit 63 (uint x - uint y)"
    by (simp only: word_sub_wi signed_of_int) simp
  also have "\<dots> = signed_take_bit 63 (int (unat x) - int (unat y))" by (simp only: uint_nat[of x] uint_nat[of y])
  also have "\<dots> = int (unat x) - int (unat y)"
    by (rule signed_take_bit_int_eq_self) (use b in linarith)+
  finally show ?thesis by (simp add: ringptr_cmp_def)
qed

section \<open>The permutation of the cells\<close>

lemma map_bits:
  assumes "2 \<le> order" and "order \<le> 60"
  shows "bit (ringptr_map x order (ringptr_cells order)) k \<longleftrightarrow>
    k < order + 1 \<and> (if k < 3 then bit x (order - 2 + k) else bit x (k - 3))"
proof -
  obtain i where order: "order = i + 2" using assms(1) by (metis add.commute le_Suc_ex)
  show ?thesis
    using assms(2) unfolding ringptr_map_def cells_minus_1 order EVL_RINGPTR_MINORDER_def EVL_RING_CACHELINE_SHIFT_def
    by (auto simp: bit_simps ac_simps dest: bit_imp_le_length)
qed

lemma map_bound:
  assumes "2 \<le> order" and "order \<le> 60"
  shows "unat (ringptr_map x order (ringptr_cells order)) < 2 ^ (order + 1)"
proof -
  let ?m = "ringptr_map x order (ringptr_cells order)"
  have "?m = take_bit (order + 1) ?m"
    by (rule bit_word_eqI) (auto simp: map_bits[OF assms] bit_take_bit_iff)
  then have "unat ?m = take_bit (order + 1) (unat ?m)"
    by (metis unsigned_take_bit_eq)
  then show ?thesis by (metis take_bit_nat_less_exp)
qed

lemma map_inj:
  assumes "2 \<le> order" and "order \<le> 60"
    and "ringptr_map x order (ringptr_cells order) = ringptr_map y order (ringptr_cells order)"
  shows "x AND mask (order + 1) = y AND mask (order + 1)"
proof (rule bit_word_eqI)
  fix k
  have *: "bit (ringptr_map x order (ringptr_cells order)) j = bit (ringptr_map y order (ringptr_cells order)) j" for j
    using assms(3) by simp
  show "bit (x AND mask (order + 1)) k = bit (y AND mask (order + 1)) k"
    using *[of "if k < order - 2 then k + 3 else k - (order - 2)"] assms(1)
    by (auto simp: map_bits[OF assms(1,2)] bit_simps split: if_splits)
qed

lemma map_cong:
  assumes "2 \<le> order" and "order \<le> 60" and "x AND mask (order + 1) = y AND mask (order + 1)"
  shows "ringptr_map x order (ringptr_cells order) = ringptr_map y order (ringptr_cells order)"
proof (rule bit_word_eqI)
  fix k
  have "bit x j = bit y j" if "j < order + 1" for j
  proof -
    have "bit (x AND mask (order + 1)) j = bit (y AND mask (order + 1)) j" using assms(3) by simp
    then show ?thesis using that assms(2) by (simp add: bit_and_iff bit_mask_iff)
  qed
  then show "bit (ringptr_map x order (ringptr_cells order)) k = bit (ringptr_map y order (ringptr_cells order)) k"
    using assms(1) by (auto simp: map_bits[OF assms(1,2)])
qed

end
