(* ===== verification/Bounded_Queue.thy ===== *)
theory Bounded_Queue
  imports Evl_Prelude
begin

text \<open>
  The contract of a bounded FIFO queue used by one thread at a time: \<open>rep k c s q\<close> says that the
  state \<open>s\<close> with the writer's cursor \<open>c\<close> holds the list \<open>q\<close> and supports at least \<open>k\<close> more
  operations; an operation ends (\<open>Some\<close>).  A client that runs any sequence of operations
  sees those of a list of at most \<open>cap\<close> elements.
\<close>

datatype 'p queue_op = Put 'p | Take

datatype 'p queue_reply = Stored | Full | Got 'p | Empty

fun fifo_step :: "nat \<Rightarrow> 'p queue_op \<Rightarrow> 'p list \<Rightarrow> 'p queue_reply \<times> 'p list" where
  "fifo_step cap (Put p) q = (if length q < cap then (Stored, q @ [p]) else (Full, q))"
| "fifo_step cap Take [] = (Empty, [])"
| "fifo_step cap Take (p # q) = (Got p, q)"

fun fifo_run :: "nat \<Rightarrow> 'p queue_op list \<Rightarrow> 'p list \<Rightarrow> 'p queue_reply list \<times> 'p list" where
  "fifo_run cap [] q = ([], q)"
| "fifo_run cap (a # as) q =
     (let (x, q) = fifo_step cap a q; (xs, q) = fifo_run cap as q in (x # xs, q))"

text \<open>The same operations on an implementation.\<close>

fun queue_step :: "('p \<Rightarrow> 'c \<Rightarrow> 's \<Rightarrow> ((bool \<times> 'c) \<times> 's) option) \<Rightarrow> ('s \<Rightarrow> ('p option \<times> 's) option)
    \<Rightarrow> 'p queue_op \<Rightarrow> 'c \<Rightarrow> 's \<Rightarrow> ('p queue_reply \<times> 'c \<times> 's) option" where
  "queue_step enq deq (Put p) c s =
     Option.bind (enq p c s) (\<lambda>((ok, c), s). Some (if ok then Stored else Full, c, s))"
| "queue_step enq deq Take c s =
     Option.bind (deq s) (\<lambda>(x, s). Some (case x of Some p \<Rightarrow> Got p | None \<Rightarrow> Empty, c, s))"

fun queue_run :: "('p \<Rightarrow> 'c \<Rightarrow> 's \<Rightarrow> ((bool \<times> 'c) \<times> 's) option) \<Rightarrow> ('s \<Rightarrow> ('p option \<times> 's) option)
    \<Rightarrow> 'p queue_op list \<Rightarrow> 'c \<Rightarrow> 's \<Rightarrow> ('p queue_reply list \<times> 'c \<times> 's) option" where
  "queue_run enq deq [] c s = Some ([], c, s)"
| "queue_run enq deq (a # as) c s =
     Option.bind (queue_step enq deq a c s) (\<lambda>(x, c, s).
     Option.bind (queue_run enq deq as c s) (\<lambda>(xs, c, s). Some (x # xs, c, s)))"

locale bounded_queue =
  fixes enq :: "'p \<Rightarrow> 'c \<Rightarrow> 's \<Rightarrow> ((bool \<times> 'c) \<times> 's) option"
    and deq :: "'s \<Rightarrow> ('p option \<times> 's) option"
    and rep :: "nat \<Rightarrow> 'c \<Rightarrow> 's \<Rightarrow> 'p list \<Rightarrow> bool"
    and cap :: nat
  assumes rep_length: "rep k c s q \<Longrightarrow> length q \<le> cap"
    and enq_room: "rep (Suc k) c s q \<Longrightarrow> length q < cap \<Longrightarrow>
          \<exists>c' s'. enq p c s = Some ((True, c'), s') \<and> rep k c' s' (q @ [p])"
    and enq_full: "rep (Suc k) c s q \<Longrightarrow> length q = cap \<Longrightarrow>
          \<exists>c' s'. enq p c s = Some ((False, c'), s') \<and> rep k c' s' q"
    and deq_empty: "rep (Suc k) c s [] \<Longrightarrow> \<exists>s'. deq s = Some (None, s') \<and> rep k c s' []"
    and deq_first: "rep (Suc k) c s (p # q) \<Longrightarrow> \<exists>s'. deq s = Some (Some p, s') \<and> rep k c s' q"
begin

lemma step_refines:
  assumes "rep (Suc k) c s q"
  shows "\<exists>c' s'. queue_step enq deq a c s = Some (fst (fifo_step cap a q), c', s')
    \<and> rep k c' s' (snd (fifo_step cap a q))"
proof (cases a)
  case (Put p)
  show ?thesis
  proof (cases "length q < cap")
    case True
    then show ?thesis using enq_room[OF assms, of p] Put by auto
  next
    case False
    then have "length q = cap" using rep_length[OF assms] by simp
    then show ?thesis using enq_full[OF assms, of p] Put by auto
  qed
next
  case Take
  then show ?thesis using assms deq_empty deq_first by (cases q) fastforce+
qed

lemma run_refines:
  assumes "rep (length as + k) c s q"
  shows "\<exists>c' s'. queue_run enq deq as c s = Some (fst (fifo_run cap as q), c', s')
    \<and> rep k c' s' (snd (fifo_run cap as q))"
  using assms
proof (induction as arbitrary: c s q)
  case (Cons a as)
  from step_refines[of "length as + k" c s q a] Cons.prems obtain c1 s1 where
    1: "queue_step enq deq a c s = Some (fst (fifo_step cap a q), c1, s1)"
      "rep (length as + k) c1 s1 (snd (fifo_step cap a q))" by auto
  from Cons.IH[OF 1(2)] 1(1) show ?case by (auto simp: split_beta)
qed simp

end

end
