(* ===== verification/Ring_Ptr_Correct.thy ===== *)
theory Ring_Ptr_Correct
  imports Ring_Ptr_Words Bounded_Queue
begin

text \<open>
  The ring of pointers is a bounded FIFO queue when one thread at a time uses it, whatever the
  number of spurious failures of its weak exchanges: the representation invariant, the
  outcome of enqueueing and dequeueing, and the interpretation of the queue contract.
\<close>

section \<open>An environment that leaves the ring alone\<close>

text \<open>Others leave the ring alone; spurious failures use up \<open>f\<close>, so that there are finitely many.\<close>

definition ring_quiet :: "('k \<Rightarrow> nat) \<Rightarrow> 'k ringenv \<Rightarrow> bool" where
  "ring_quiet f env \<longleftrightarrow> (\<forall>w. rg (snd (env w)) = rg w \<and> f (rk (snd (env w))) \<le> f (rk w)
     \<and> (fst (env w) \<longrightarrow> f (rk (snd (env w))) < f (rk w)))"

text \<open>One world follows another with the ring \<open>r\<close>, and no more failures are left.\<close>

definition ring_after :: "('k \<Rightarrow> nat) \<Rightarrow> 'k ringworld \<Rightarrow> ringptr \<Rightarrow> 'k ringworld \<Rightarrow> bool" where
  "ring_after f w r w' \<longleftrightarrow> rg w' = r \<and> f (rk w') \<le> f (rk w)"

lemma quiet_load:
  assumes "ring_quiet f env"
  obtains w' where "ring_load env g w = (g (rg w), w')" and "ring_after f w (rg w) w'"
  using assms by (cases "env w") (auto simp: ring_load_def ring_quiet_def ring_after_def dest!: spec[of _ w])

lemma quiet_fetch:
  assumes "ring_quiet f env"
  obtains w' where "ring_fetch env g h w = (g (rg w), w')" and "ring_after f w (h (rg w)) w'"
  using assms by (cases "env w") (auto simp: ring_fetch_def ring_quiet_def ring_after_def dest!: spec[of _ w])

lemma quiet_store:
  assumes "ring_quiet f env"
  shows "ring_after f w (h (rg w)) (ring_store env h w)"
  using assms by (cases "env w") (auto simp: ring_store_def ring_quiet_def ring_after_def dest!: spec[of _ w])

lemma quiet_cas:
  assumes "ring_quiet f env"
  obtains (won) w' where "ring_cas_weak env g (g (rg w)) h w = ((True, g (rg w)), w')" "ring_after f w (h (rg w)) w'"
  | (spurious) w' where "ring_cas_weak env g (g (rg w)) h w = ((False, g (rg w)), w')" "rg w' = rg w" "f (rk w') < f (rk w)"
proof -
  obtain sp w1 where e: "env w = (sp, w1)" by (cases "env w")
  have q: "rg w1 = rg w" "f (rk w1) \<le> f (rk w)" "sp \<Longrightarrow> f (rk w1) < f (rk w)"
    using assms e unfolding ring_quiet_def by (metis fst_conv snd_conv)+
  show thesis
  proof (cases sp)
    case True
    then show thesis using spurious[of w1] q e by (simp add: ring_cas_weak_def)
  next
    case False
    then show thesis using won[of "w1\<lparr>rg := h (rg w)\<rparr>"] q e by (simp add: ring_cas_weak_def ring_after_def)
  qed
qed

lemma ring_after_trans:
  "ring_after f w r w' \<Longrightarrow> ring_after f w' r' w'' \<Longrightarrow> ring_after f w r' w''"
  by (auto simp: ring_after_def)

section \<open>The inner loops\<close>

lemma enqueue_cell_free:
  assumes quiet: "ring_quiet f env"
    and "ring_cell tidx (rg w) = pair" and "ringptr_entry pair AND NOT (n - 1) = ringptr_entry pair"
    and "ringptr_cmp (ringptr_entry pair) (<) tcycle"
  shows "\<exists>w'. enqueue_cell env n ptr tail tcycle tidx pair w = Some (True, w')
    \<and> ring_after f w (set_ring_cell tidx (ringptr_pair (tcycle OR 1) ptr) (rg w)) w'"
  using assms(2-)
proof (induction "f (rk w)" arbitrary: w rule: less_induct)
  case less
  from quiet show ?case
  proof (cases rule: quiet_cas[where g = "ring_cell tidx" and w = w and h = "set_ring_cell tidx (ringptr_pair (tcycle OR 1) ptr)"])
    case (won w')
    then show ?thesis using less.prems by (subst enqueue_cell.simps) (simp add: Let_def)
  next
    case (spurious w')
    from less.hyps[of w'] less.prems spurious(2,3) obtain w'' where
      "enqueue_cell env n ptr tail tcycle tidx pair w' = Some (True, w'')"
      "ring_after f w' (set_ring_cell tidx (ringptr_pair (tcycle OR 1) ptr) (rg w)) w''" by auto
    then show ?thesis using less.prems spurious
      by (subst enqueue_cell.simps) (auto simp: Let_def ring_after_def)
  qed
qed

lemma dequeue_cell_full:
  assumes "ring_quiet f env" and "entry AND NOT (n - 1) = hcycle"
  shows "\<exists>w'. dequeue_cell env n hcycle hidx entry w = Some (Some (ringptr_pointer (ring_cell hidx (rg w))), w')
    \<and> ring_after f w (set_ring_cell hidx (ring_cell hidx (rg w) AND ringptr_pair (NOT 1) 0) (rg w)) w'"
  by (rule quiet_fetch[OF assms(1), of "ring_cell hidx" "\<lambda>r. set_ring_cell hidx (ring_cell hidx r AND ringptr_pair (NOT 1) 0) r" w],
      subst dequeue_cell.simps) (simp add: assms(2) Let_def)

lemma dequeue_cell_free:
  assumes quiet: "ring_quiet f env"
    and "array_entry hidx (rg w) = entry" and "entry AND NOT (n - 1) = entry"
    and "entry AND NOT 2 = entry" and "entry AND 2 = 0" and "entry \<noteq> hcycle"
    and "ringptr_cmp entry (<) hcycle"
  shows "\<exists>w'. dequeue_cell env n hcycle hidx entry w = Some (None, w')
    \<and> ring_after f w (set_array_entry hidx hcycle (rg w)) w'"
  using assms(2-)
proof (induction "f (rk w)" arbitrary: w rule: less_induct)
  case less
  from quiet show ?case
  proof (cases rule: quiet_cas[where g = "array_entry hidx" and w = w and h = "set_array_entry hidx hcycle"])
    case (won w')
    then show ?thesis using less.prems by (subst dequeue_cell.simps) (simp add: Let_def)
  next
    case (spurious w')
    from less.hyps[of w'] less.prems spurious(2,3) obtain w'' where
      "dequeue_cell env n hcycle hidx entry w' = Some (None, w'')"
      "ring_after f w' (set_array_entry hidx hcycle (rg w)) w''" by auto
    then show ?thesis using less.prems spurious
      by (subst dequeue_cell.simps) (auto simp: Let_def ring_after_def)
  qed
qed

text \<open>With the tail just behind the head, the tail is moved to it; a spurious failure is retried
  with the same values.\<close>

lemma catchup_moves:
  assumes quiet: "ring_quiet f env" and "rg_tail (rg w) = tail" and "rg_head (rg w) = head"
    and "\<not> ringptr_cmp tail (\<ge>) head"
  shows "\<exists>w'. catchup_loop env tail head w = Some w' \<and> ring_after f w ((rg w)\<lparr>rg_tail := head\<rparr>) w'"
  using assms(2-)
proof (induction "f (rk w)" arbitrary: w rule: less_induct)
  case less
  from quiet show ?case
  proof (cases rule: quiet_cas[where g = rg_tail and w = w and h = "\<lambda>r. r\<lparr>rg_tail := head\<rparr>"])
    case (won w')
    then show ?thesis using less.prems by (subst catchup_loop.simps) (simp add: Let_def)
  next
    case (spurious w')
    obtain w2 where w2: "ring_load env rg_head w' = (head, w2)" "ring_after f w' (rg w) w2"
      using spurious(2) less.prems(2) by (metis quiet_load[OF quiet])
    obtain w3 where w3: "ring_load env rg_tail w2 = (tail, w3)" "ring_after f w2 (rg w) w3"
      using w2(2) less.prems(1) by (metis quiet_load[OF quiet] ring_after_def)
    have "f (rk w3) < f (rk w)" "rg w3 = rg w" using spurious(3) w2(2) w3(2) by (auto simp: ring_after_def)
    with less.hyps[of w3] less.prems obtain w'' where
      "catchup_loop env tail head w3 = Some w''" "ring_after f w3 ((rg w)\<lparr>rg_tail := head\<rparr>) w''" by auto
    then show ?thesis using less.prems spurious(1) w2(1) w3(1) \<open>f (rk w3) < f (rk w)\<close>
      by (subst catchup_loop.simps) (auto simp: Let_def ring_after_def)
  qed
qed

section \<open>The representation of a list\<close>

definition ring_slot :: "nat \<Rightarrow> nat \<Rightarrow> nat" where
  "ring_slot order p = unat (ringptr_map (of_nat p) order (ringptr_cells order))"

text \<open>A cell whose last use is over, so that position \<open>p\<close> can take it.\<close>

definition slot_free :: "nat \<Rightarrow> u128 \<Rightarrow> nat \<Rightarrow> bool" where
  "slot_free order x p \<longleftrightarrow> ringptr_entry x AND NOT (mask (order + 1)) = ringptr_entry x
     \<and> unat (ringptr_entry x) < unat (cycle_of order p)"

text \<open>The cells between the two counters hold the list \<open>q\<close>; the others up to a full turn
  are free; the counters stay below \<open>2 ^ 63\<close> for \<open>k\<close> more operations.\<close>

definition ring_rep :: "nat \<Rightarrow> nat \<Rightarrow> ringptr \<Rightarrow> u64 list \<Rightarrow> bool" where
  "ring_rep order k r q \<longleftrightarrow> 2 \<le> order \<and> order \<le> 60
     \<and> unat (rg_tail r) = unat (rg_head r) + length q \<and> length q \<le> 2 ^ (order + 1)
     \<and> unat (rg_head r) + k + 2 * 2 ^ (order + 1) < 2 ^ 63
     \<and> length (rg_array r) = 2 ^ (order + 1)
     \<and> (\<forall>i < length q. rg_array r ! ring_slot order (unat (rg_head r) + i)
          = ringptr_pair (cycle_of order (unat (rg_head r) + i) OR 1) (q ! i))
     \<and> (\<forall>p. unat (rg_tail r) \<le> p \<and> p < unat (rg_head r) + 2 ^ (order + 1)
          \<longrightarrow> slot_free order (rg_array r ! ring_slot order p) p)
     \<and> - 1 \<le> sint (rg_threshold r) \<and> (q \<noteq> [] \<longrightarrow> 0 \<le> sint (rg_threshold r))"

lemma slot_bound: "2 \<le> order \<Longrightarrow> order \<le> 60 \<Longrightarrow> ring_slot order p < 2 ^ (order + 1)"
  unfolding ring_slot_def by (rule map_bound)

lemma slot_distinct:
  assumes "2 \<le> order" and "order \<le> 60" and "p < p'" and "p' < p + 2 ^ (order + 1)" and "p' < 2 ^ 64"
  shows "ring_slot order p \<noteq> ring_slot order p'"
proof
  assume "ring_slot order p = ring_slot order p'"
  then have "of_nat p AND mask (order + 1) = (of_nat p' AND mask (order + 1) :: u64)"
    unfolding ring_slot_def using map_inj[OF assms(1,2)] by (metis word_unat_eq_iff)
  then have "unat (take_bit (order + 1) (of_nat p :: u64)) = unat (take_bit (order + 1) (of_nat p' :: u64))"
    by (simp only: take_bit_eq_mask)
  moreover have "unat (take_bit (order + 1) (of_nat x :: u64)) = x mod 2 ^ (order + 1)" if "x < 2 ^ 64" for x
    using that by (simp only: unsigned_take_bit_eq unsigned_of_nat) (simp add: take_bit_eq_mod del: power_Suc)
  ultimately have "p mod 2 ^ (order + 1) = p' mod 2 ^ (order + 1)"
    using order.strict_trans[OF assms(3,5)] assms(5) by metis
  then have "2 ^ (order + 1) dvd p' - p" using assms(3) by (metis mod_eq_dvd_iff_nat less_imp_le_nat)
  then have "2 ^ (order + 1) \<le> p' - p" by (rule dvd_imp_le) (use assms(3) in linarith)
  then show False using assms(3,4) by linarith
qed

lemma slot_turn:
  assumes "2 \<le> order" and "order \<le> 60"
  shows "ring_slot order (p + 2 ^ (order + 1)) = ring_slot order p"
proof -
  have "take_bit (order + 1) (p + 2 ^ (order + 1)) = take_bit (order + 1) p"
    unfolding take_bit_eq_mod by (rule mod_add_self2)
  then have "take_bit (order + 1) (of_nat (p + 2 ^ (order + 1)) :: u64) = take_bit (order + 1) (of_nat p)"
    unfolding take_bit_of_nat by (rule arg_cong)
  then have "of_nat (p + 2 ^ (order + 1)) AND mask (order + 1) = (of_nat p AND mask (order + 1) :: u64)"
    unfolding take_bit_eq_mask .
  from map_cong[OF assms this] show ?thesis unfolding ring_slot_def by (rule arg_cong)
qed

lemma sint_small64:
  assumes "unat (x :: u64) < 2 ^ 63"
  shows "sint x = int (unat x)"
proof -
  have b: "int (unat x) < 2 ^ 63" using assms by (simp only: of_nat_less_numeral_power_cancel_iff)
  have "sint x = signed_take_bit 63 (uint x)" by (simp add: sint_uint)
  also have "\<dots> = signed_take_bit 63 (int (unat x))" by (simp only: uint_nat[of x])
  also have "\<dots> = int (unat x)" by (rule signed_take_bit_int_eq_self) (use b in linarith)+
  finally show ?thesis .
qed

lemma threshold_facts:
  assumes "order \<le> 60"
  shows "0 \<le> sint (ringptr_threshold4 (ringptr_cells order))"
proof -
  have n: "unat (ringptr_cells order) = 2 ^ (order + 1)" by (rule unat_cells[OF assms])
  have le: "(2::nat) ^ (order + 1) \<le> 2 ^ 61" using assms by (intro power_increasing) auto
  have "unat (2 * ringptr_cells order - 1) < 2 ^ 63"
    using n le by (simp add: unat_sub_if' unat_mult_lem unat_word_ariths)
  then show ?thesis by (simp only: ringptr_threshold4_def sint_small64 of_nat_0_le_iff)
qed

lemma threshold_down: "0 \<le> sint (t :: u64) \<Longrightarrow> - 1 \<le> sint (t - 1)"
proof -
  assume t: "0 \<le> sint t"
  have "sint t < 2 ^ 63" using sint_lt[of t] by simp
  have "t - 1 = word_of_int (sint t) - word_of_int 1" by simp
  then have "t - 1 = word_of_int (sint t - 1)" by (simp only: wi_hom_sub)
  then have "sint (t - 1) = signed_take_bit 63 (sint t - 1)" by (simp only: signed_of_int) simp
  also have "\<dots> = sint t - 1"
    by (rule signed_take_bit_int_eq_self) (use t \<open>sint t < 2 ^ 63\<close> in linarith)+
  finally show ?thesis using t by simp
qed

lemma less_pow64: "x < 2 ^ 63 \<Longrightarrow> x < (2 ^ 64 :: nat)"
  by simp

lemma unat_next:
  assumes "unat (x :: u64) + 1 < 2 ^ 63"
  shows "unat (x + 1) = unat x + 1"
proof -
  have "unat (x + 1) = (unat x + 1) mod 2 ^ 64" by (simp add: unat_word_ariths)
  also have "\<dots> = unat x + 1" by (rule mod_less[OF less_pow64[OF assms]])
  finally show ?thesis .
qed

text \<open>An update of the cell of one position leaves those of the others within a turn.\<close>

lemma slot_other:
  assumes "2 \<le> order" and "order \<le> 60" and "p \<noteq> p'" and "h \<le> p" "p < h + 2 ^ (order + 1)"
    and "h \<le> p'" "p' < h + 2 ^ (order + 1)" and "h + 2 ^ (order + 1) < 2 ^ 63"
  shows "xs[ring_slot order p := x] ! ring_slot order p' = xs ! ring_slot order p'"
proof -
  have "ring_slot order p \<noteq> ring_slot order p'"
  proof (cases "p < p'")
    case True
    show ?thesis by (rule slot_distinct[OF assms(1,2) True _ less_pow64]) (use assms in linarith)+
  next
    case False
    then have "p' < p" using assms(3) by linarith
    then show ?thesis by (rule slot_distinct[OF assms(1,2) _ _ less_pow64, THEN not_sym]) (use assms in linarith)+
  qed
  then show ?thesis by simp
qed

lemma ring_rep_mono: "ring_rep order (Suc k) r q \<Longrightarrow> ring_rep order k r q"
  by (auto simp: ring_rep_def)

lemma ring_repD:
  assumes "ring_rep order k r q"
  shows "2 \<le> order" "order \<le> 60" "unat (rg_tail r) = unat (rg_head r) + length q"
    "length q \<le> 2 ^ (order + 1)" "unat (rg_head r) + k + 2 * 2 ^ (order + 1) < 2 ^ 63"
    "length (rg_array r) = 2 ^ (order + 1)"
    "i < length q \<Longrightarrow> rg_array r ! ring_slot order (unat (rg_head r) + i)
       = ringptr_pair (cycle_of order (unat (rg_head r) + i) OR 1) (q ! i)"
    "unat (rg_tail r) \<le> p \<Longrightarrow> p < unat (rg_head r) + 2 ^ (order + 1)
       \<Longrightarrow> slot_free order (rg_array r ! ring_slot order p) p"
    "- 1 \<le> sint (rg_threshold r)" "q \<noteq> [] \<Longrightarrow> 0 \<le> sint (rg_threshold r)"
  using assms unfolding ring_rep_def by blast+

lemma ring_repI:
  assumes "2 \<le> order" "order \<le> 60" "unat (rg_tail r) = unat (rg_head r) + length q"
    "length q \<le> 2 ^ (order + 1)" "unat (rg_head r) + k + 2 * 2 ^ (order + 1) < 2 ^ 63"
    "length (rg_array r) = 2 ^ (order + 1)"
    "\<And>i. i < length q \<Longrightarrow> rg_array r ! ring_slot order (unat (rg_head r) + i)
       = ringptr_pair (cycle_of order (unat (rg_head r) + i) OR 1) (q ! i)"
    "\<And>p. unat (rg_tail r) \<le> p \<Longrightarrow> p < unat (rg_head r) + 2 ^ (order + 1)
       \<Longrightarrow> slot_free order (rg_array r ! ring_slot order p) p"
    "- 1 \<le> sint (rg_threshold r)" "q \<noteq> [] \<Longrightarrow> 0 \<le> sint (rg_threshold r)"
  shows "ring_rep order k r q"
  using assms unfolding ring_rep_def by blast

lemma rep_put:
  assumes rep: "ring_rep order (Suc k) r q" and room: "length q < 2 ^ (order + 1)"
    and r': "rg_head r' = rg_head r" "rg_tail r' = rg_tail r + 1" "0 \<le> sint (rg_threshold r')"
      "rg_array r' = (rg_array r)[ring_slot order (unat (rg_tail r)) :=
        ringptr_pair (cycle_of order (unat (rg_tail r)) OR 1) ptr]"
  shows "ring_rep order k r' (q @ [ptr])"
proof -
  note R = ring_repD[OF rep]
  have tail: "unat (rg_tail r') = unat (rg_tail r) + 1"
    unfolding r' by (rule unat_next) (use R(3,5) room in linarith)
  have other: "rg_array r' ! ring_slot order p = rg_array r ! ring_slot order p"
    if "unat (rg_head r) \<le> p" "p < unat (rg_head r) + 2 ^ (order + 1)" "p \<noteq> unat (rg_tail r)" for p
    unfolding r' by (rule slot_other[OF R(1,2), where h = "unat (rg_head r)"]) (use that R(3,5) room in linarith)+
  have same: "rg_array r' ! ring_slot order (unat (rg_tail r)) = ringptr_pair (cycle_of order (unat (rg_tail r)) OR 1) ptr"
    unfolding r' by (rule nth_list_update_eq) (simp only: R(6) slot_bound[OF R(1,2)])
  show ?thesis
  proof (rule ring_repI)
    fix i assume i: "i < length (q @ [ptr])"
    show "rg_array r' ! ring_slot order (unat (rg_head r') + i)
       = ringptr_pair (cycle_of order (unat (rg_head r') + i) OR 1) ((q @ [ptr]) ! i)"
    proof (cases "i < length q")
      case True
      have "rg_array r' ! ring_slot order (unat (rg_head r) + i) = rg_array r ! ring_slot order (unat (rg_head r) + i)"
        by (rule other) (use True R(3) room in linarith)+
      then show ?thesis using R(7)[OF True] True by (simp add: r'(1) nth_append)
    next
      case False
      then have "i = length q" using i by simp
      then show ?thesis using same R(3) by (simp add: r'(1) nth_append)
    qed
  next
    fix p assume p: "unat (rg_tail r') \<le> p" "p < unat (rg_head r') + 2 ^ (order + 1)"
    have "rg_array r' ! ring_slot order p = rg_array r ! ring_slot order p"
      by (rule other) (use p[unfolded r'(1)] tail R(3) in linarith)+
    then show "slot_free order (rg_array r' ! ring_slot order p) p"
      using R(8)[of p] p tail by (simp add: r'(1))
  qed (use R r' tail room in \<open>simp_all add: r'(1)\<close>)
qed

text \<open>The position that the head leaves is free for the next turn.\<close>

lemma free_next_turn:
  assumes "p + 2 ^ (order + 1) < 2 ^ 64" and "ringptr_entry x = cycle_of order p"
  shows "slot_free order x (p + 2 ^ (order + 1))"
  using assms by (simp only: slot_free_def cycle_of_masked cycle_of_next) simp

lemma rep_leave:
  assumes rep: "ring_rep order (Suc k) r q" and q': "q' = tl q"
    and r': "rg_head r' = rg_head r + 1" "unat (rg_tail r') = unat (rg_head r) + 1 + length q'" "- 1 \<le> sint (rg_threshold r')"
      "q' \<noteq> [] \<Longrightarrow> 0 \<le> sint (rg_threshold r')"
      "rg_array r' = (rg_array r)[ring_slot order (unat (rg_head r)) := x]"
    and x: "ringptr_entry x = cycle_of order (unat (rg_head r))"
  shows "ring_rep order k r' q'"
proof -
  note R = ring_repD[OF rep]
  have head: "unat (rg_head r') = unat (rg_head r) + 1"
    unfolding r' by (rule unat_next) (use R(5) in linarith)
  have other: "rg_array r' ! ring_slot order p = rg_array r ! ring_slot order p"
    if "unat (rg_head r) < p" "p < unat (rg_head r) + 2 ^ (order + 1)" for p
    unfolding r' by (rule slot_other[OF R(1,2), where h = "unat (rg_head r)"]) (use that R(5) in linarith)+
  have len: "length q' \<le> length q" "q \<noteq> [] \<Longrightarrow> length q = length q' + 1" using q' by (cases q; simp)+
  have same: "rg_array r' ! ring_slot order (unat (rg_head r)) = x"
    unfolding r' by (rule nth_list_update_eq) (simp only: R(6) slot_bound[OF R(1,2)])
  show ?thesis
  proof (rule ring_repI)
    fix i assume i: "i < length q'"
    then have q: "q \<noteq> []" "Suc i < length q" "q' ! i = q ! Suc i" using q' by (auto simp: nth_tl)
    have "rg_array r' ! ring_slot order (unat (rg_head r) + Suc i) = rg_array r ! ring_slot order (unat (rg_head r) + Suc i)"
      by (rule other) (use q R(4) in linarith)+
    then show "rg_array r' ! ring_slot order (unat (rg_head r') + i)
       = ringptr_pair (cycle_of order (unat (rg_head r') + i) OR 1) (q' ! i)"
      using R(7)[OF q(2)] q(3) head by simp
  next
    fix p assume p: "unat (rg_tail r') \<le> p" "p < unat (rg_head r') + 2 ^ (order + 1)"
    show "slot_free order (rg_array r' ! ring_slot order p) p"
    proof (cases "p = unat (rg_head r) + 2 ^ (order + 1)")
      case True
      have m: "ring_slot order (unat (rg_head r) + 2 ^ (order + 1)) = ring_slot order (unat (rg_head r))"
        by (rule slot_turn[OF R(1,2)])
      show ?thesis unfolding True m same by (rule free_next_turn[OF less_pow64 x]) (use R(5) in linarith)
    next
      case False
      have b: "unat (rg_head r) < p" "p < unat (rg_head r) + 2 ^ (order + 1)" "unat (rg_tail r) \<le> p"
        using p False head r'(2) R(3) len by (cases "q = []"; simp; linarith)+
      show ?thesis unfolding other[OF b(1,2)] by (rule R(8)[OF b(3,2)])
    qed
  qed (use R r' head len in \<open>simp_all\<close>)
qed

section \<open>Enqueue and dequeue\<close>

lemma cycle_of_unat: "cycle_of order (unat x) = x AND NOT (ringptr_cells order - 1)"
  unfolding cells_minus_1 by (simp add: cycle_of_def)

lemma slot_unat: "unat (ringptr_map x order (ringptr_cells order)) = ring_slot order (unat x)"
  by (simp add: ring_slot_def)

lemma enqueue_loop_room:
  assumes quiet: "ring_quiet f env" and rep: "ring_rep order (Suc k) (rg w) q" and room: "length q < 2 ^ (order + 1)"
  shows "\<exists>w'. enqueue_loop env order (ringptr_cells order) ptr cursor w = Some ((True, cursor), w')
    \<and> ring_rep order k (rg w') (q @ [ptr]) \<and> rg_head (rg w') = rg_head (rg w)"
proof -
  let ?n = "ringptr_cells order" and ?t = "rg_tail (rg w)"
  let ?i = "ringptr_map ?t order ?n" and ?c = "?t AND NOT (?n - 1)"
  note R = ring_repD[OF rep]
  have free: "slot_free order (rg_array (rg w) ! ring_slot order (unat ?t)) (unat ?t)"
    by (rule R(8)) (use R(3) room in linarith)+
  obtain w1 where w1: "ring_fetch env rg_tail (\<lambda>r. r\<lparr>rg_tail := rg_tail r + 1\<rparr>) w = (?t, w1)"
      "ring_after f w ((rg w)\<lparr>rg_tail := ?t + 1\<rparr>) w1" by (rule quiet_fetch[OF quiet])
  then have r1: "rg w1 = (rg w)\<lparr>rg_tail := ?t + 1\<rparr>" by (simp add: ring_after_def)
  obtain w2 where w2: "ring_load env (ring_cell ?i) w1 = (ring_cell ?i (rg w1), w2)" "ring_after f w1 (rg w1) w2"
    by (rule quiet_load[OF quiet])
  then have r2: "rg w2 = rg w1" by (simp add: ring_after_def)
  let ?pair = "ring_cell ?i (rg w1)"
  have pair: "?pair = rg_array (rg w) ! ring_slot order (unat ?t)"
    by (simp add: ring_cell_def r1 slot_unat)
  have tail63: "unat ?t < 2 ^ 63" using R(3,4,5) by linarith
  have "unat (cycle_of order (unat ?t)) \<le> unat ?t"
    by (simp only: unat_cycle_of[OF less_pow64[OF tail63]] div_times_less_eq_dividend)
  then have cyc: "unat ?c < 2 ^ 63" "unat (ringptr_entry ?pair) < unat ?c"
    using free tail63 unfolding pair slot_free_def cycle_of_unat by linarith+
  have "ringptr_cmp (ringptr_entry ?pair) (<) ?c"
    by (subst cmp_int) (use cyc in linarith)+
  moreover have "ringptr_entry ?pair AND NOT (?n - 1) = ringptr_entry ?pair"
    using free unfolding pair slot_free_def cells_minus_1 by blast
  moreover have "ring_cell ?i (rg w2) = ?pair" by (simp add: r2)
  ultimately obtain w3 where w3: "enqueue_cell env ?n ptr ?t ?c ?i ?pair w2 = Some (True, w3)"
      "ring_after f w2 (set_ring_cell ?i (ringptr_pair (?c OR 1) ptr) (rg w2)) w3"
    using enqueue_cell_free[OF quiet] by blast
  then have r3: "rg w3 = set_ring_cell ?i (ringptr_pair (?c OR 1) ptr) (rg w1)" by (simp add: ring_after_def r2)
  obtain w4 where w4: "ring_load env rg_threshold w3 = (rg_threshold (rg w3), w4)" "ring_after f w3 (rg w3) w4"
    by (rule quiet_load[OF quiet])
  then have r4: "rg w4 = rg w3" by (simp add: ring_after_def)
  define w5 where "w5 = (if rg_threshold (rg w3) \<noteq> ringptr_threshold4 ?n
    then ring_store env (\<lambda>r. r\<lparr>rg_threshold := ringptr_threshold4 ?n\<rparr>) w4 else w4)"
  have "rg (ring_store env (\<lambda>r. r\<lparr>rg_threshold := ringptr_threshold4 ?n\<rparr>) w4) = (rg w4)\<lparr>rg_threshold := ringptr_threshold4 ?n\<rparr>"
    using quiet_store[OF quiet] by (simp add: ring_after_def)
  then have r5: "rg w5 = (rg w3)\<lparr>rg_threshold := ringptr_threshold4 ?n\<rparr>"
    unfolding w5_def by (auto simp: r4)
  have "enqueue_loop env order ?n ptr cursor w = Some ((True, cursor), w5)"
    by (subst enqueue_loop.simps) (simp add: w1(1) w2(1) w3(1) w4(1) w5_def Let_def)
  moreover have "ring_rep order k (rg w5) (q @ [ptr])"
    by (rule rep_put[OF rep room])
       (simp_all add: r5 r3 r1 set_ring_cell_def slot_unat cycle_of_unat threshold_facts[OF R(2)])
  moreover have "rg_head (rg w5) = rg_head (rg w)" by (simp add: r5 r3 r1 set_ring_cell_def)
  ultimately show ?thesis by blast
qed

lemma cursor_check:
  assumes "ring_rep order k r q" and "unat c \<le> unat (rg_head r)"
  shows "c + ringptr_cells order \<le> rg_tail r \<longleftrightarrow> unat c + 2 ^ (order + 1) \<le> unat (rg_tail r)"
proof -
  note R = ring_repD[OF assms(1)]
  have "unat (c + ringptr_cells order) = (unat c + 2 ^ (order + 1)) mod 2 ^ 64"
    by (simp add: unat_word_ariths unat_cells[OF R(2), simplified])
  also have "\<dots> = unat c + 2 ^ (order + 1)"
    by (rule mod_less[OF less_pow64]) (use assms(2) R(5) in linarith)
  finally show ?thesis by (simp only: word_le_nat_alt)
qed

lemma enqueue_correct:
  assumes quiet: "ring_quiet f env" and rep: "ring_rep order (Suc k) (rg w) q"
    and c: "unat c \<le> unat (rg_head (rg w))"
  shows "\<exists>c' w'. ringptr_enqueue env order ptr c w = Some ((length q < 2 ^ (order + 1), c'), w')
    \<and> ring_rep order k (rg w') (if length q < 2 ^ (order + 1) then q @ [ptr] else q)
    \<and> unat c' \<le> unat (rg_head (rg w'))"
proof -
  let ?n = "ringptr_cells order"
  note R = ring_repD[OF rep]
  obtain w1 where w1: "ring_load env rg_tail w = (rg_tail (rg w), w1)" "ring_after f w (rg w) w1"
    by (rule quiet_load[OF quiet])
  obtain w2 where w2: "ring_load env rg_head w1 = (rg_head (rg w1), w2)" "ring_after f w1 (rg w1) w2"
    by (rule quiet_load[OF quiet])
  have r: "rg w1 = rg w" "rg w2 = rg w" using w1(2) w2(2) by (auto simp: ring_after_def)
  have head: "rg_head (rg w) + ?n \<le> rg_tail (rg w) \<longleftrightarrow> 2 ^ (order + 1) \<le> length q"
    unfolding cursor_check[OF rep order.refl] by (simp only: R(3) add_le_cancel_left)
  show ?thesis
  proof (cases "c + ?n \<le> rg_tail (rg w)")
    case refresh: True
    show ?thesis
    proof (cases "length q < 2 ^ (order + 1)")
      case True
      then have "\<not> rg_head (rg w) + ?n \<le> rg_tail (rg w)" by (simp only: head not_le)
      moreover obtain w' where "enqueue_loop env order ?n ptr (rg_head (rg w)) w2 = Some ((True, rg_head (rg w)), w')"
          "ring_rep order k (rg w') (q @ [ptr])" "rg_head (rg w') = rg_head (rg w2)"
        using enqueue_loop_room[OF quiet, of order k w2 q ptr "rg_head (rg w)"] rep True by (auto simp: r)
      ultimately show ?thesis using refresh True
        by (simp add: ringptr_enqueue_def w1(1) w2(1) r)
    next
      case False
      then have "rg_head (rg w) + ?n \<le> rg_tail (rg w)" by (simp only: head not_less)
      then show ?thesis using refresh False ring_rep_mono[OF rep]
        by (simp add: ringptr_enqueue_def w1(1) w2(1) r)
    qed
  next
    case keep: False
    then have room: "length q < 2 ^ (order + 1)"
      unfolding cursor_check[OF rep c] using c R(3) by linarith
    obtain w' where "enqueue_loop env order ?n ptr c w1 = Some ((True, c), w')"
        "ring_rep order k (rg w') (q @ [ptr])" "rg_head (rg w') = rg_head (rg w1)"
      using enqueue_loop_room[OF quiet, of order k w1 q ptr c] rep room by (auto simp: r)
    then show ?thesis using keep room c by (simp add: ringptr_enqueue_def w1(1) r)
  qed
qed

lemma cycle_small:
  assumes "unat x < 2 ^ 63"
  shows "unat (x AND NOT (ringptr_cells order - 1)) < 2 ^ 63"
proof -
  have "unat (cycle_of order (unat x)) \<le> unat x"
    by (simp only: unat_cycle_of[OF less_pow64[OF assms]] div_times_less_eq_dividend)
  then show ?thesis using assms unfolding cycle_of_unat by linarith
qed

lemma dequeue_loop_first:
  assumes quiet: "ring_quiet f env" and rep: "ring_rep order (Suc k) (rg w) (p # q)"
  shows "\<exists>w'. dequeue_loop env order (ringptr_cells order) w = Some (Some p, w')
    \<and> ring_rep order k (rg w') q \<and> rg_head (rg w') = rg_head (rg w) + 1"
proof -
  let ?n = "ringptr_cells order" and ?h = "rg_head (rg w)"
  let ?i = "ringptr_map ?h order ?n" and ?c = "?h AND NOT (?n - 1)"
  note R = ring_repD[OF rep]
  obtain w1 where w1: "ring_fetch env rg_head (\<lambda>r. r\<lparr>rg_head := rg_head r + 1\<rparr>) w = (?h, w1)"
      "ring_after f w ((rg w)\<lparr>rg_head := ?h + 1\<rparr>) w1" by (rule quiet_fetch[OF quiet])
  obtain w2 where w2: "ring_load env (array_entry ?i) w1 = (array_entry ?i (rg w1), w2)" "ring_after f w1 (rg w1) w2"
    by (rule quiet_load[OF quiet])
  have r: "rg w1 = (rg w)\<lparr>rg_head := ?h + 1\<rparr>" "rg w2 = rg w1" using w1(2) w2(2) by (simp_all add: ring_after_def)
  have cell: "ring_cell ?i (rg w1) = ringptr_pair (?c OR 1) p"
    using R(7)[of 0] by (simp add: ring_cell_def r slot_unat cycle_of_unat)
  have "(?c OR 1) AND NOT (?n - 1) = ?c"
    using flag_masked[OF R(1), of "unat ?h"] by (simp only: cycle_of_unat cells_minus_1)
  then obtain w3 where w3: "dequeue_cell env ?n ?c ?i (?c OR 1) w2 = Some (Some (ringptr_pointer (ring_cell ?i (rg w2))), w3)"
      "ring_after f w2 (set_ring_cell ?i (ring_cell ?i (rg w2) AND ringptr_pair (NOT 1) 0) (rg w2)) w3"
    using dequeue_cell_full[OF quiet] by blast
  have and_cell: "ring_cell ?i (rg w2) AND ringptr_pair (NOT 1) 0 = ringptr_pair ?c 0"
    unfolding r(2) cell pair_and_pair using flag_cleared[of order "unat ?h"] by (simp only: cycle_of_unat and_zero_eq)
  have r3: "rg w3 = set_ring_cell ?i (ringptr_pair ?c 0) (rg w1)"
    using w3(2) unfolding and_cell by (simp add: ring_after_def r)
  have "dequeue_loop env order ?n w = Some (Some p, w3)"
    using w1(1) w2(1) w3(1) by (subst dequeue_loop.simps) (simp add: Let_def array_entry_def cell r(2))
  moreover have "ring_rep order k (rg w3) q"
    by (rule rep_leave[OF rep, where x = "ringptr_pair ?c 0"])
       (use R(3,9,10) in \<open>simp_all add: r3 r set_ring_cell_def slot_unat cycle_of_unat\<close>)
  moreover have "rg_head (rg w3) = ?h + 1" by (simp add: r3 r set_ring_cell_def)
  ultimately show ?thesis by blast
qed

lemma dequeue_loop_empty:
  assumes quiet: "ring_quiet f env" and rep: "ring_rep order (Suc k) (rg w) []"
    and t: "0 \<le> sint (rg_threshold (rg w))"
  shows "\<exists>w'. dequeue_loop env order (ringptr_cells order) w = Some (None, w')
    \<and> ring_rep order k (rg w') [] \<and> rg_head (rg w') = rg_head (rg w) + 1"
proof -
  let ?n = "ringptr_cells order" and ?h = "rg_head (rg w)" and ?t = "rg_tail (rg w)"
  let ?i = "ringptr_map ?h order ?n" and ?c = "?h AND NOT (?n - 1)"
  note R = ring_repD[OF rep]
  have tail: "unat ?t = unat ?h" "?t = ?h" using R(3) by (simp_all add: word_unat_eq_iff)
  have head63: "unat ?h + 1 < 2 ^ 63" using R(5) by linarith
  obtain w1 where w1: "ring_fetch env rg_head (\<lambda>r. r\<lparr>rg_head := rg_head r + 1\<rparr>) w = (?h, w1)"
      "ring_after f w ((rg w)\<lparr>rg_head := ?h + 1\<rparr>) w1" by (rule quiet_fetch[OF quiet])
  obtain w2 where w2: "ring_load env (array_entry ?i) w1 = (array_entry ?i (rg w1), w2)" "ring_after f w1 (rg w1) w2"
    by (rule quiet_load[OF quiet])
  have r: "rg w1 = (rg w)\<lparr>rg_head := ?h + 1\<rparr>" "rg w2 = rg w1" using w1(2) w2(2) by (simp_all add: ring_after_def)
  let ?e = "array_entry ?i (rg w1)"
  have e: "?e = ringptr_entry (rg_array (rg w) ! ring_slot order (unat ?h))"
    by (simp add: array_entry_def ring_cell_def r slot_unat)
  have "slot_free order (rg_array (rg w) ! ring_slot order (unat ?h)) (unat ?h)"
    by (rule R(8)) (use tail in simp_all)
  then have clean: "?e AND NOT (mask (order + 1)) = ?e" and less: "unat ?e < unat ?c"
    unfolding slot_free_def e cycle_of_unat by blast+
  have masked: "?e AND NOT (?n - 1) = ?e" unfolding cells_minus_1 by (rule clean)
  have small: "unat ?c < 2 ^ 63" by (rule cycle_small) (use head63 in linarith)
  have cmp: "ringptr_cmp ?e (<) ?c" by (subst cmp_int) (use small less in linarith)+
  have neq: "?e \<noteq> ?c" using less by auto
  have "array_entry ?i (rg w2) = ?e" by (simp add: r)
  then obtain w3 where w3: "dequeue_cell env ?n ?c ?i ?e w2 = Some (None, w3)"
      "ring_after f w2 (set_array_entry ?i ?c (rg w2)) w3"
    using dequeue_cell_free[OF quiet _ masked clean_no_flag[OF R(1) clean] neq cmp] by blast
  let ?x = "ringptr_pair ?c (ringptr_pointer (ring_cell ?i (rg w1)))"
  have r3: "rg w3 = set_ring_cell ?i ?x (rg w1)"
    using w3(2) by (simp add: ring_after_def r set_array_entry_def)
  obtain w4 where w4: "ring_load env rg_tail w3 = (rg_tail (rg w3), w4)" "ring_after f w3 (rg w3) w4"
    by (rule quiet_load[OF quiet])
  have r4: "rg w4 = rg w3" using w4(2) by (simp add: ring_after_def)
  have succ: "unat (?h + 1) = unat ?h + 1" by (rule unat_next[OF head63])
  have le: "ringptr_cmp ?h (\<le>) (?h + 1)" and nge: "\<not> ringptr_cmp ?h (\<ge>) (?h + 1)"
    by (subst cmp_int; use head63 succ in linarith)+
  have t4: "rg_tail (rg w4) = ?h" "rg_head (rg w4) = ?h + 1" by (simp_all add: r4 r3 r set_ring_cell_def tail(2))
  obtain w5 where w5: "catchup_loop env ?h (?h + 1) w4 = Some w5" "ring_after f w4 ((rg w4)\<lparr>rg_tail := ?h + 1\<rparr>) w5"
    using catchup_moves[OF quiet t4 nge] by blast
  obtain w6 where w6: "ring_fetch env rg_threshold (\<lambda>r. r\<lparr>rg_threshold := rg_threshold r - 1\<rparr>) w5 = (rg_threshold (rg w5), w6)"
      "ring_after f w5 ((rg w5)\<lparr>rg_threshold := rg_threshold (rg w5) - 1\<rparr>) w6" by (rule quiet_fetch[OF quiet])
  have r6: "rg w6 = (rg w3)\<lparr>rg_tail := ?h + 1, rg_threshold := rg_threshold (rg w3) - 1\<rparr>"
    using w5(2) w6(2) by (simp add: ring_after_def r4)
  have "dequeue_loop env order ?n w = Some (None, w6)"
    by (subst dequeue_loop.simps)
       (simp add: Let_def w1(1) w2(1) w3(1) w4(1) t4[unfolded r4] le ringptr_catchup_def w5(1) w6(1))
  moreover have "ring_rep order k (rg w6) []"
    by (rule rep_leave[OF rep, where x = ?x])
       (use threshold_down[OF t] succ in \<open>simp_all add: r6 r3 r set_ring_cell_def slot_unat cycle_of_unat\<close>)
  moreover have "rg_head (rg w6) = ?h + 1" by (simp add: r6 r3 r set_ring_cell_def)
  ultimately show ?thesis by blast
qed

lemma dequeue_correct:
  assumes quiet: "ring_quiet f env" and rep: "ring_rep order (Suc k) (rg w) q"
  shows "\<exists>w'. ringptr_dequeue env order w = Some (case q of [] \<Rightarrow> None | p # _ \<Rightarrow> Some p, w')
    \<and> ring_rep order k (rg w') (tl q) \<and> unat (rg_head (rg w)) \<le> unat (rg_head (rg w'))"
proof -
  obtain w1 where w1: "ring_load env rg_threshold w = (rg_threshold (rg w), w1)" "ring_after f w (rg w) w1"
    by (rule quiet_load[OF quiet])
  have r: "rg w1 = rg w" using w1(2) by (simp add: ring_after_def)
  have succ: "unat (rg_head (rg w) + 1) = unat (rg_head (rg w)) + 1"
    by (rule unat_next) (use ring_repD(5)[OF rep] in linarith)
  show ?thesis
  proof (cases q)
    case Nil
    show ?thesis
    proof (cases "sint (rg_threshold (rg w)) < 0")
      case True
      then show ?thesis using Nil ring_rep_mono[OF rep] w1(1) by (simp add: ringptr_dequeue_def r)
    next
      case False
      then show ?thesis using dequeue_loop_empty[OF quiet, of order k w1] rep Nil w1(1) succ
        by (auto simp: ringptr_dequeue_def r)
    qed
  next
    case (Cons p ps)
    then have "\<not> sint (rg_threshold (rg w)) < 0" using ring_repD(10)[OF rep] by simp
    then show ?thesis using dequeue_loop_first[OF quiet, of order k w1 p ps] rep Cons w1(1) succ
      by (auto simp: ringptr_dequeue_def r)
  qed
qed

section \<open>The contract\<close>

definition ring_holds :: "('k \<Rightarrow> nat) \<Rightarrow> 'k ringenv \<Rightarrow> nat \<Rightarrow> nat \<Rightarrow> u64 \<Rightarrow> 'k ringworld \<Rightarrow> u64 list \<Rightarrow> bool" where
  "ring_holds f env order k c w q \<longleftrightarrow>
     ring_quiet f env \<and> ring_rep order k (rg w) q \<and> unat c \<le> unat (rg_head (rg w))"

interpretation ring_queue: bounded_queue "ringptr_enqueue env order" "ringptr_dequeue env order"
  "ring_holds f env order" "2 ^ (order + 1)"
proof
  fix k c w q assume "ring_holds f env order k c w q"
  then show "length q \<le> 2 ^ (order + 1)" unfolding ring_holds_def by (metis ring_repD(4))
next
  fix k c w p and q :: "u64 list"
  assume h: "ring_holds f env order (Suc k) c w q" and "length q < 2 ^ (order + 1)"
  then show "\<exists>c' s'. ringptr_enqueue env order p c w = Some ((True, c'), s') \<and> ring_holds f env order k c' s' (q @ [p])"
    unfolding ring_holds_def using enqueue_correct[of f env order k w q c p] by auto
next
  fix k c w p and q :: "u64 list"
  assume h: "ring_holds f env order (Suc k) c w q" and "length q = 2 ^ (order + 1)"
  then show "\<exists>c' s'. ringptr_enqueue env order p c w = Some ((False, c'), s') \<and> ring_holds f env order k c' s' q"
    unfolding ring_holds_def using enqueue_correct[of f env order k w q c p] by auto
next
  fix k c w assume "ring_holds f env order (Suc k) c w []"
  then show "\<exists>s'. ringptr_dequeue env order w = Some (None, s') \<and> ring_holds f env order k c s' []"
    unfolding ring_holds_def using dequeue_correct[of f env order k w "[]"] by auto
next
  fix k c w p q assume "ring_holds f env order (Suc k) c w (p # q)"
  then show "\<exists>s'. ringptr_dequeue env order w = Some (Some p, s') \<and> ring_holds f env order k c s' q"
    unfolding ring_holds_def using dequeue_correct[of f env order k w "p # q"] by auto
qed

lemma ring_rep_static:
  assumes "2 \<le> order" and "order \<le> 60" and "k < 2 ^ 61"
  shows "ring_rep order k (static_ring order) []"
proof (rule ring_repI)
  note n = unat_cells[OF assms(2)]
  have le: "(2::nat) ^ (order + 1) \<le> 2 ^ 61" using assms(2) by (intro power_increasing) auto
  show "unat (rg_head (static_ring order)) + k + 2 * 2 ^ (order + 1) < 2 ^ 63"
    using le assms(3) n by (simp add: static_ring_def)
  fix p assume p: "unat (rg_tail (static_ring order)) \<le> p" "p < unat (rg_head (static_ring order)) + 2 ^ (order + 1)"
  have "p < 2 ^ 64" using p le n by (simp add: static_ring_def)
  then have "unat (cycle_of order p) = p div 2 ^ (order + 1) * 2 ^ (order + 1)" by (rule unat_cycle_of)
  moreover have "0 < p div 2 ^ (order + 1)" using p(1) n by (simp add: static_ring_def div_greater_zero_iff)
  moreover have "rg_array (static_ring order) ! ring_slot order p = 0"
    using slot_bound[OF assms(1,2), of p] n by (simp add: static_ring_def)
  moreover have "ringptr_entry 0 = 0" by (simp add: ringptr_entry_def)
  ultimately show "slot_free order (rg_array (static_ring order) ! ring_slot order p) p"
    by (simp add: slot_free_def)
qed (use assms unat_cells[OF assms(2)] in \<open>simp_all add: static_ring_def\<close>)

text \<open>A cleared ring is the one of the static initialiser.\<close>

lemma clear_static:
  assumes "length (rg_array r) = unat (ringptr_cells order)"
  shows "ringptr_clear order r = static_ring order"
  using assms by (cases r) (simp add: ringptr_clear_def static_ring_def Let_def)

text \<open>
  C6.  Used by one thread at a time, a new ring of the order \<open>order\<close> is a FIFO queue of at most
  \<open>2 ^ (order + 1)\<close> pointers: any sequence of fewer than \<open>2 ^ 61\<close> operations returns (every
  retry loop ends, whatever weak exchanges fail spuriously, a finite number of times) with the
  replies of a list, the first in being the first out; an enqueue fails exactly on a
  full ring and a dequeue on an empty one.
\<close>

theorem ring_is_fifo:
  assumes "2 \<le> order" and "order \<le> 60" and "ring_quiet f env" and "rg w = static_ring order"
    and "length ops < 2 ^ 61"
  shows "\<exists>c' w'. queue_run (ringptr_enqueue env order) (ringptr_dequeue env order) ops (init_ring_cursor order) w
    = Some (fst (fifo_run (2 ^ (order + 1)) ops []), c', w')"
proof -
  have "ring_holds f env order (length ops + 0) (init_ring_cursor order) w []"
    using assms ring_rep_static[OF assms(1,2)] by (simp add: ring_holds_def init_ring_cursor_def static_ring_def)
  from ring_queue.run_refines[OF this] show ?thesis by blast
qed

theorem ring_is_fifo_witness:
  "\<exists>c' w'. queue_run (ringptr_enqueue (\<lambda>w. (0 < rk w, w\<lparr>rk := rk w - 1\<rparr>)) 2)
      (ringptr_dequeue (\<lambda>w. (0 < rk w, w\<lparr>rk := rk w - 1\<rparr>)) 2)
      [Take, Put 5, Put 7, Take, Take, Take] (init_ring_cursor 2) \<lparr>rk = 3 :: nat, rg = static_ring 2\<rparr>
    = Some ([Empty, Stored, Stored, Got 5, Got 7, Empty], c', w')"
proof -
  have "ring_quiet (\<lambda>n. n) (\<lambda>w. (0 < rk w, w\<lparr>rk := rk w - 1\<rparr>) :: bool \<times> nat ringworld)"
    by (simp add: ring_quiet_def)
  from ring_is_fifo[OF _ _ this, of 2 "\<lparr>rk = 3, rg = static_ring 2\<rparr>" "[Take, Put 5, Put 7, Take, Take, Take]"]
  show ?thesis by simp
qed

end
