(* ===== verification/C_Text.thy ===== *)
theory C_Text
  imports Evl_Prelude "HOL-Library.Char_ord"
begin

text \<open>
  The functions of the C library on text that the programs of \<^verbatim>\<open>utils/\<close> and \<^verbatim>\<open>latmus/\<close> call:
  character classes, \<^verbatim>\<open>atoi\<close>, \<^verbatim>\<open>strtok_r\<close>, the conversions of \<^verbatim>\<open>sscanf\<close> and those of \<^verbatim>\<open>printf\<close>.
  A C string is the list of its characters without the terminating zero.
\<close>

section \<open>Characters\<close>

definition NL :: char where "NL = CHR 0x0A"

definition isspace :: "char \<Rightarrow> bool" where
  "isspace c \<longleftrightarrow> c \<in> {CHR '' '', CHR 0x09, CHR 0x0A, CHR 0x0B, CHR 0x0C, CHR 0x0D}"

definition char_code :: "char \<Rightarrow> nat" where "char_code c = of_char c"

definition isdigit :: "char \<Rightarrow> bool" where
  "isdigit c \<longleftrightarrow> 48 \<le> char_code c \<and> char_code c \<le> 57"

definition isalpha :: "char \<Rightarrow> bool" where
  "isalpha c \<longleftrightarrow> (65 \<le> char_code c \<and> char_code c \<le> 90) \<or> (97 \<le> char_code c \<and> char_code c \<le> 122)"

definition isalnum :: "char \<Rightarrow> bool" where
  "isalnum c \<longleftrightarrow> isalpha c \<or> isdigit c"

text \<open>The value of a digit in the bases up to 16.\<close>

definition digit_value :: "char \<Rightarrow> nat option" where
  "digit_value c =
     (let k = char_code c in
      if 48 \<le> k \<and> k \<le> 57 then Some (k - 48)
      else if 97 \<le> k \<and> k \<le> 102 then Some (k - 87)
      else if 65 \<le> k \<and> k \<le> 70 then Some (k - 55) else None)"

definition digit_in :: "nat \<Rightarrow> char \<Rightarrow> bool" where
  "digit_in base c = (case digit_value c of None \<Rightarrow> False | Some v \<Rightarrow> v < base)"

definition digits_value :: "nat \<Rightarrow> string \<Rightarrow> nat" where
  "digits_value base s = foldl (\<lambda>n c. n * base + the (digit_value c)) 0 s"

section \<open>Numbers in text\<close>

text \<open>An optional sign and a non-empty run of digits: is it negative, the value, the rest.\<close>

definition scan_number :: "nat \<Rightarrow> string \<Rightarrow> (bool \<times> nat \<times> string) option" where
  "scan_number base s =
     (let neg = (case s of c # _ \<Rightarrow> c = CHR ''-'' | [] \<Rightarrow> False);
          s = (case s of c # t \<Rightarrow> (if c = CHR ''-'' \<or> c = CHR ''+'' then t else s) | [] \<Rightarrow> s);
          s = (case s of z # x # d # t \<Rightarrow>
                 (if base = 16 \<and> z = CHR ''0'' \<and> (x = CHR ''x'' \<or> x = CHR ''X'') \<and> digit_in 16 d then d # t else s)
               | _ \<Rightarrow> s);
          ds = takeWhile (digit_in base) s
      in if ds = [] then None else Some (neg, digits_value base ds, dropWhile (digit_in base) s))"

text \<open>\<^verbatim>\<open>strtol\<close> saturates at the bounds of \<^verbatim>\<open>long\<close>, \<^verbatim>\<open>strtoul\<close> at that of \<^verbatim>\<open>unsigned long\<close>
  (and negates what follows a minus sign).\<close>

definition long_of :: "bool \<Rightarrow> nat \<Rightarrow> int" where
  "long_of neg n = (if neg then max (- int n) (- (2 ^ 63)) else min (int n) (2 ^ 63 - 1))"

definition ulong_of :: "bool \<Rightarrow> nat \<Rightarrow> u64" where
  "ulong_of neg n = (if 2 ^ 64 \<le> n then - 1 else if neg then - of_nat n else of_nat n)"

definition strtol :: "string \<Rightarrow> int \<times> string" where
  "strtol s = (case scan_number 10 (dropWhile isspace s) of
       None \<Rightarrow> (0, s) | Some (neg, n, rest) \<Rightarrow> (long_of neg n, rest))"

definition atoi :: "string \<Rightarrow> s32" where
  "atoi s = word_of_int (fst (strtol s))"

section \<open>\<open>strtok_r\<close>\<close>

text \<open>The next token and what is left to scan after it.\<close>

definition strtok :: "char list \<Rightarrow> string \<Rightarrow> (string \<times> string) option" where
  "strtok delims s =
     (let s = dropWhile (\<lambda>c. c \<in> set delims) s in
      if s = [] then None
      else Some (takeWhile (\<lambda>c. c \<notin> set delims) s, drop 1 (dropWhile (\<lambda>c. c \<notin> set delims) s)))"

section \<open>\<open>sscanf\<close>\<close>

text \<open>The conversions in use; each one skips white space first.  \<open>Conv_s\<close> is \<^verbatim>\<open>%ms\<close>.\<close>

datatype conv = Conv_d | Conv_lu | Conv_x | Conv_s

datatype conv_value = Val_d s32 | Val_lu u64 | Val_x u32 | Val_s string

definition scan_conv :: "conv \<Rightarrow> string \<Rightarrow> (conv_value \<times> string) option" where
  "scan_conv cv s =
     (let s = dropWhile isspace s in
      case cv of
        Conv_d \<Rightarrow> map_option (\<lambda>(neg, n, rest). (Val_d (word_of_int (long_of neg n)), rest)) (scan_number 10 s)
      | Conv_lu \<Rightarrow> map_option (\<lambda>(neg, n, rest). (Val_lu (ulong_of neg n), rest)) (scan_number 10 s)
      | Conv_x \<Rightarrow> map_option (\<lambda>(neg, n, rest). (Val_x (ucast (ulong_of neg n)), rest)) (scan_number 16 s)
      | Conv_s \<Rightarrow> (if s = [] then None else Some (Val_s (takeWhile (\<lambda>c. \<not> isspace c) s), dropWhile (\<lambda>c. \<not> isspace c) s)))"

text \<open>The values converted, up to the first conversion that fails; their number is the result of
  \<^verbatim>\<open>sscanf\<close>, which is -1 instead of 0 on input that ends before the first conversion.\<close>

fun sscanf :: "conv list \<Rightarrow> string \<Rightarrow> conv_value list" where
  "sscanf [] s = []"
| "sscanf (cv # cvs) s =
     (case scan_conv cv s of None \<Rightarrow> [] | Some (v, rest) \<Rightarrow> v # sscanf cvs rest)"

section \<open>\<open>printf\<close>\<close>

definition digit_char :: "nat \<Rightarrow> char" where
  "digit_char d = (if d < 10 then char_of (48 + d) else char_of (87 + d))"

text \<open>The digits of a number in a base from 2 to 16.\<close>

fun digits_of :: "nat \<Rightarrow> nat \<Rightarrow> string" where
  "digits_of base n =
     (if n < base \<or> base < 2 then [digit_char n] else digits_of base (n div base) @ [digit_char (n mod base)])"

declare digits_of.simps [simp del]

definition dec :: "nat \<Rightarrow> string" where "dec n = digits_of 10 n"

definition dec_int :: "int \<Rightarrow> string" where
  "dec_int i = (if i < 0 then CHR ''-'' # dec (nat (- i)) else dec (nat i))"

text \<open>Padding with blanks on the left (\<^verbatim>\<open>%5s\<close>), on the right (\<^verbatim>\<open>%-5s\<close>), and with zeroes to a
  number of digits (\<^verbatim>\<open>%.3d\<close>).\<close>

definition pad_left :: "nat \<Rightarrow> string \<Rightarrow> string" where
  "pad_left n s = replicate (n - length s) (CHR '' '') @ s"

definition pad_right :: "nat \<Rightarrow> string \<Rightarrow> string" where
  "pad_right n s = s @ replicate (n - length s) (CHR '' '')"

definition zero_pad :: "nat \<Rightarrow> string \<Rightarrow> string" where
  "zero_pad n s = replicate (n - length s) (CHR ''0'') @ s"

text \<open>What \<^verbatim>\<open>snprintf\<close> leaves in a buffer of \<open>sz\<close> bytes: the text cut to leave room for the zero.\<close>

definition snprintf_text :: "nat \<Rightarrow> string \<Rightarrow> string" where
  "snprintf_text sz s = take (sz - 1) s"

section \<open>Facts\<close>

lemma digit_value_char: "d < 16 \<Longrightarrow> digit_value (digit_char d) = Some d"
  by (auto simp: digit_value_def digit_char_def char_code_def Let_def)

lemma digit_in_char: "d < base \<Longrightarrow> base \<le> 16 \<Longrightarrow> digit_in base (digit_char d)"
  by (simp add: digit_in_def digit_value_char)

lemma digits_of_digit: "2 \<le> base \<Longrightarrow> base \<le> 16 \<Longrightarrow> list_all (digit_in base) (digits_of base n)"
proof (induction base n rule: digits_of.induct)
  case (1 base n)
  show ?case
  proof (cases "n < base")
    case False
    then show ?thesis using 1 by (subst digits_of.simps) (simp add: digit_in_char)
  qed (use 1 in \<open>subst digits_of.simps, simp add: digit_in_char\<close>)
qed

lemma digits_value_snoc [simp]: "digits_value base (s @ [c]) = digits_value base s * base + the (digit_value c)"
  by (simp add: digits_value_def)

lemma digits_value_digits: "2 \<le> base \<Longrightarrow> base \<le> 16 \<Longrightarrow> digits_value base (digits_of base n) = n"
proof (induction base n rule: digits_of.induct)
  case (1 base n)
  show ?case
  proof (cases "n < base")
    case False
    have "n mod base < base" using 1(2) by simp
    then have "n mod base < 16" using 1(3) by linarith
    then show ?thesis using 1 False by (subst digits_of.simps) (simp add: digit_value_char)
  qed (use 1 in \<open>subst digits_of.simps, simp add: digits_value_def digit_value_char\<close>)
qed

lemma digits_of_nonempty [simp]: "digits_of base n \<noteq> []"
  by (subst digits_of.simps) simp

text \<open>The number of digits.\<close>

lemma length_digits_of: "2 \<le> base \<Longrightarrow> n < base ^ k \<Longrightarrow> 0 < k \<Longrightarrow> length (digits_of base n) \<le> k"
proof (induction base n arbitrary: k rule: digits_of.induct)
  case (1 base n)
  show ?case
  proof (cases "n < base")
    case True
    then show ?thesis using 1 by (subst digits_of.simps) simp
  next
    case False
    have "k \<noteq> 1" using False 1(3) by auto
    then have k: "1 < k" using 1(4) by linarith
    then have "n div base < base ^ (k - 1)"
      using 1(2,3) by (simp add: div_less_iff_less_mult power_Suc2[symmetric] del: power_Suc)
    then have "length (digits_of base (n div base)) \<le> k - 1" using 1(1)[of "k - 1"] False 1(2) k by simp
    then show ?thesis using False 1(2) k by (subst digits_of.simps) simp
  qed
qed

end
