(* ===== verification/Evl_Ps.thy ===== *)
theory Evl_Ps
  imports C_Text "HOL-Library.Multiset"
begin

text \<open>
  \<^verbatim>\<open>utils/evl-ps.c\<close>: the report on the threads of the core.  The attributes of the threads
  are files below one directory; they are read into one record per thread, found by name in a
  hash table and linked in a list, which is sorted and printed.  Pointers to
  \<^verbatim>\<open>struct thread_info\<close> are indices into the list of allocated records.  What the kernel headers
  define (state bits and labels) is the parameter \<open>thread_abi\<close>; \<^verbatim>\<open>qsort\<close>, the tree of
  files and the options that \<^verbatim>\<open>getopt_long\<close> returns are arguments.
\<close>

record thread_abi =
  EVL_T_USER :: u32
  EVL_T_DELAY :: u32
  EVL_T_PEND :: u32
  EVL_THREAD_STATE_LABELS :: string

record thread_info =
  ti_name :: string
  ti_cpu :: s32
  ti_bprio :: s32
  ti_cprio :: s32
  ti_policy :: "string option"
  ti_policy_details :: "string option"
  ti_nr_inbandsw :: u64
  ti_nr_ctxsw :: u64
  ti_nr_syscalls :: u64
  ti_nr_rwakeups :: u64
  ti_cpu_time :: u64
  ti_timeout :: u64
  ti_wchan :: "string option"
  ti_percent_cpu :: s32
  ti_state :: u32
  ti_pid :: s32
  ti_parse_ok :: bool

definition zero_info :: thread_info where
  "zero_info = \<lparr>ti_name = [], ti_cpu = 0, ti_bprio = 0, ti_cprio = 0, ti_policy = None,
     ti_policy_details = None, ti_nr_inbandsw = 0, ti_nr_ctxsw = 0, ti_nr_syscalls = 0, ti_nr_rwakeups = 0,
     ti_cpu_time = 0, ti_timeout = 0, ti_wchan = None, ti_percent_cpu = 0, ti_state = 0, ti_pid = 0, ti_parse_ok = False\<rparr>"

definition DISPLAY_STATE :: s32 where "DISPLAY_STATE = 1"
definition DISPLAY_TIMES :: s32 where "DISPLAY_TIMES = 2"
definition DISPLAY_SCHED :: s32 where "DISPLAY_SCHED = 4"
definition DISPLAY_WAIT :: s32 where "DISPLAY_WAIT = 8"
definition DISPLAY_LONG :: s32 where "DISPLAY_LONG = 16"
definition DISPLAY_NUMERIC :: s32 where "DISPLAY_NUMERIC = 32"
definition DISPLAY_MODIFIERS :: s32 where "DISPLAY_MODIFIERS = DISPLAY_NUMERIC"
definition DISPLAY_DEFAULT_FORMAT :: s32 where "DISPLAY_DEFAULT_FORMAT = DISPLAY_SCHED"

definition SORT_BY_PCPU :: s32 where "SORT_BY_PCPU = 1"
definition SORT_BY_ISW :: s32 where "SORT_BY_ISW = 2"
definition SORT_BY_CPUTIME :: s32 where "SORT_BY_CPUTIME = 4"
definition SORT_BY_CTXSW :: s32 where "SORT_BY_CTXSW = 8"
definition SORT_BY_RWA :: s32 where "SORT_BY_RWA = 16"
definition SORT_REVERSE :: s32 where "SORT_REVERSE = 128"

definition ONE_BILLION :: u64 where "ONE_BILLION = 1000000000"
definition ONE_MILLION :: u64 where "ONE_MILLION = 1000000"

section \<open>Collecting\<close>

text \<open>The values that were converted go to the addresses given, in order.\<close>

definition assign :: "(conv_value \<Rightarrow> thread_info \<Rightarrow> thread_info) list \<Rightarrow> conv_value list \<Rightarrow> thread_info \<Rightarrow> thread_info" where
  "assign setters vals ti = foldl (\<lambda>ti (f, v). f v ti) ti (zip setters vals)"

fun to_d :: "conv_value \<Rightarrow> s32" where "to_d (Val_d x) = x" | "to_d _ = 0"
fun to_lu :: "conv_value \<Rightarrow> u64" where "to_lu (Val_lu x) = x" | "to_lu _ = 0"
fun to_x :: "conv_value \<Rightarrow> u32" where "to_x (Val_x x) = x" | "to_x _ = 0"
fun to_s :: "conv_value \<Rightarrow> string" where "to_s (Val_s x) = x" | "to_s _ = []"

definition collect_sched_info :: "thread_info \<Rightarrow> string \<Rightarrow> bool \<times> thread_info" where
  "collect_sched_info ti buf =
     (let vals = sscanf [Conv_d, Conv_d, Conv_d, Conv_s, Conv_s] buf;
          ti = assign [\<lambda>v. ti_cpu_update (\<lambda>_. to_d v), \<lambda>v. ti_bprio_update (\<lambda>_. to_d v), \<lambda>v. ti_cprio_update (\<lambda>_. to_d v),
                 \<lambda>v. ti_policy_update (\<lambda>_. Some (to_s v)), \<lambda>v. ti_policy_details_update (\<lambda>_. Some (to_s v))] vals ti
      in (4 \<le> length vals \<and> length vals \<le> 5, ti))"

definition collect_statistics :: "thread_info \<Rightarrow> string \<Rightarrow> bool \<times> thread_info" where
  "collect_statistics ti buf =
     (let vals = sscanf [Conv_lu, Conv_lu, Conv_lu, Conv_lu, Conv_lu, Conv_d] buf;
          ti = assign [\<lambda>v. ti_nr_inbandsw_update (\<lambda>_. to_lu v), \<lambda>v. ti_nr_ctxsw_update (\<lambda>_. to_lu v),
                 \<lambda>v. ti_nr_syscalls_update (\<lambda>_. to_lu v), \<lambda>v. ti_nr_rwakeups_update (\<lambda>_. to_lu v),
                 \<lambda>v. ti_cpu_time_update (\<lambda>_. to_lu v), \<lambda>v. ti_percent_cpu_update (\<lambda>_. to_d v)] vals ti
      in (length vals = 5, ti))"

definition collect_state_info :: "thread_info \<Rightarrow> string \<Rightarrow> bool \<times> thread_info" where
  "collect_state_info ti buf =
     (let vals = sscanf [Conv_x] buf in (length vals = 1, assign [\<lambda>v. ti_state_update (\<lambda>_. to_x v)] vals ti))"

definition collect_pid :: "thread_info \<Rightarrow> string \<Rightarrow> bool \<times> thread_info" where
  "collect_pid ti buf =
     (let vals = sscanf [Conv_d] buf in (length vals = 1, assign [\<lambda>v. ti_pid_update (\<lambda>_. to_d v)] vals ti))"

definition collect_timeout :: "thread_info \<Rightarrow> string \<Rightarrow> bool \<times> thread_info" where
  "collect_timeout ti buf =
     (let vals = sscanf [Conv_lu] buf in (length vals = 1, assign [\<lambda>v. ti_timeout_update (\<lambda>_. to_lu v)] vals ti))"

definition collect_wchan :: "thread_info \<Rightarrow> string \<Rightarrow> bool \<times> thread_info" where
  "collect_wchan ti buf =
     (let vals = sscanf [Conv_s] buf in (length vals = 1, assign [\<lambda>v. ti_wchan_update (\<lambda>_. Some (to_s v))] vals ti))"

definition collect_handlers :: "(string \<times> (thread_info \<Rightarrow> string \<Rightarrow> bool \<times> thread_info)) list" where
  "collect_handlers = [(''sched'', collect_sched_info), (''stats'', collect_statistics), (''state'', collect_state_info),
     (''pid'', collect_pid), (''timeout'', collect_timeout), (''wchan'', collect_wchan)]"

subsection \<open>Scanning the files\<close>

text \<open>The allocated records, the hash table with the number of its entries, the list of threads
  and its length.\<close>

record ps_state =
  ps_mem :: "thread_info list"
  ps_hash :: "string \<Rightarrow> nat option"
  ps_hused :: nat
  thread_list :: "nat list"
  thread_nr :: nat

definition ps_init :: ps_state where
  "ps_init = \<lparr>ps_mem = [], ps_hash = Map.empty, ps_hused = 0, thread_list = [], thread_nr = 0\<rparr>"

datatype ftw = FTW_CONTINUE | FTW_SKIP_SUBTREE

text \<open>A file has a name, the size that \<^verbatim>\<open>stat\<close> reports and, if it can be opened, contents.\<close>

datatype fsnode = FsFile string nat "string option" | FsDir string "fsnode list"

text \<open>\<^verbatim>\<open>fgets\<close> into a buffer of \<open>sz\<close> characters: the first line, cut to leave room for the
  terminating zero; nothing at the end of the file.\<close>

definition fgets :: "nat \<Rightarrow> string \<Rightarrow> string option" where
  "fgets sz text =
     (let line = takeWhile (\<lambda>c. c \<noteq> NL) text @ (if NL \<in> set text then [NL] else [])
      in if sz = 1 then Some [] else if text = [] then None else Some (take (sz - 1) line))"

text \<open>The string up to its last newline.\<close>

definition chop_newline :: "string \<Rightarrow> string" where
  "chop_newline buf = (if NL \<in> set buf then rev (tl (dropWhile (\<lambda>c. c \<noteq> NL) (rev buf))) else buf)"

definition thread_entry :: "nat \<Rightarrow> string \<Rightarrow> ps_state \<Rightarrow> nat \<times> ps_state" where
  "thread_entry hmax name st =
     (case ps_hash st name of
        Some i \<Rightarrow> (i, st)
      | None \<Rightarrow>
          (let i = length (ps_mem st);
               st = st\<lparr>ps_mem := ps_mem st @ [zero_info\<lparr>ti_name := name\<rparr>]\<rparr>;
               st = (if ps_hused st < hmax
                     then st\<lparr>ps_hash := (ps_hash st)(name \<mapsto> i), ps_hused := ps_hused st + 1\<rparr> else st)
           in (i, st\<lparr>thread_list := i # thread_list st, thread_nr := thread_nr st + 1\<rparr>)))"

text \<open>\<open>base\<close> is the last component of the path and \<open>parent\<close> the one before; \<open>hmax\<close> is the
  number of entries the hash table has room for.  A failed \<^verbatim>\<open>ENTER\<close> goes unnoticed.\<close>

definition scan_thread :: "nat \<Rightarrow> string \<Rightarrow> fsnode \<Rightarrow> nat \<Rightarrow> ps_state \<Rightarrow> ftw \<times> ps_state" where
  "scan_thread hmax parent node level st =
     (case node of
        FsDir base _ \<Rightarrow> (if base = ''clone'' then FTW_SKIP_SUBTREE else FTW_CONTINUE, st)
      | FsFile base sz content \<Rightarrow>
          (if level \<noteq> 2 \<or> sz = 0 then (FTW_CONTINUE, st)
           else case map_of collect_handlers base of None \<Rightarrow> (FTW_CONTINUE, st)
           | Some handle \<Rightarrow>
               (let line = Option.bind content (fgets sz);
                    (i, st) = thread_entry hmax parent st;
                    (ok, ti) = (case line of None \<Rightarrow> (False, ps_mem st ! i)
                                | Some buf \<Rightarrow> handle (ps_mem st ! i) (chop_newline buf))
                in (FTW_CONTINUE, st\<lparr>ps_mem := (ps_mem st)[i := ti\<lparr>ti_parse_ok := ok\<rparr>]\<rparr>))))"

text \<open>The walk of \<^verbatim>\<open>nftw\<close>, in the order of the directory entries.\<close>

fun walk_node :: "nat \<Rightarrow> string \<Rightarrow> nat \<Rightarrow> fsnode \<Rightarrow> ps_state \<Rightarrow> ps_state"
  and walk_nodes :: "nat \<Rightarrow> string \<Rightarrow> nat \<Rightarrow> fsnode list \<Rightarrow> ps_state \<Rightarrow> ps_state" where
  "walk_node hmax parent level (FsFile base sz content) st = snd (scan_thread hmax parent (FsFile base sz content) level st)"
| "walk_node hmax parent level (FsDir base nodes) st =
     (let (act, st) = scan_thread hmax parent (FsDir base nodes) level st
      in if act = FTW_SKIP_SUBTREE then st else walk_nodes hmax base (level + 1) nodes st)"
| "walk_nodes hmax parent level [] st = st"
| "walk_nodes hmax parent level (node # nodes) st = walk_nodes hmax parent level nodes (walk_node hmax parent level node st)"

definition collect_thread_info :: "nat \<Rightarrow> fsnode \<Rightarrow> ps_state \<Rightarrow> ps_state" where
  "collect_thread_info hmax dir st = walk_node hmax [] 0 dir st"

section \<open>Sorting\<close>

definition compare_info :: "s32 \<Rightarrow> thread_info \<Rightarrow> thread_info \<Rightarrow> s32" where
  "compare_info skey til tir =
     (let key = skey AND NOT SORT_REVERSE;
          ret = (if key = SORT_BY_PCPU then ti_percent_cpu til - ti_percent_cpu tir
                 else if key = SORT_BY_ISW then ucast (ti_nr_inbandsw til - ti_nr_inbandsw tir)
                 else if key = SORT_BY_CTXSW then ucast (ti_nr_ctxsw til - ti_nr_ctxsw tir)
                 else if key = SORT_BY_RWA then ucast (ti_nr_rwakeups til - ti_nr_rwakeups tir)
                 else if key = SORT_BY_CPUTIME then ucast (ti_cpu_time til - ti_cpu_time tir)
                 else ti_pid til - ti_pid tir)
      in if skey AND SORT_REVERSE \<noteq> 0 then - ret else ret)"

definition sort_thread_info :: "((nat \<Rightarrow> nat \<Rightarrow> s32) \<Rightarrow> nat list \<Rightarrow> nat list) \<Rightarrow> s32 \<Rightarrow> ps_state \<Rightarrow> ps_state" where
  "sort_thread_info qsort skey st =
     (if thread_nr st = 0 then st
      else let sarray = filter (\<lambda>i. ti_parse_ok (ps_mem st ! i)) (thread_list st);
               nr = length sarray
           in if 0 < nr then
                st\<lparr>thread_list := qsort (\<lambda>l r. compare_info skey (ps_mem st ! l) (ps_mem st ! r)) sarray,
                   thread_nr := nr\<rparr>
              else st\<lparr>thread_list := [], thread_nr := nr\<rparr>)"

section \<open>Display\<close>

definition print_string :: "string option \<Rightarrow> string" where
  "print_string p = (case p of None \<Rightarrow> ''(null)'' | Some s \<Rightarrow> s)"

definition display_pid :: "thread_info \<Rightarrow> string" where
  "display_pid ti = pad_right 6 (dec_int (sint (ti_pid ti)))"

definition display_name :: "thread_abi \<Rightarrow> thread_info \<Rightarrow> string" where
  "display_name abi ti =
     (if ti_state ti AND EVL_T_USER abi \<noteq> 0 then ti_name ti else CHR ''['' # ti_name ti @ [CHR '']''])"

definition display_cpu :: "thread_info \<Rightarrow> string" where
  "display_cpu ti = pad_left 3 (dec_int (sint (ti_cpu ti))) @ ''   ''"

definition display_policy :: "thread_info \<Rightarrow> string" where
  "display_policy ti = pad_left 5 (print_string (ti_policy ti)) @ ''   ''"

definition display_prio :: "thread_info \<Rightarrow> string" where
  "display_prio ti = pad_left 3 (dec_int (sint (ti_cprio ti))) @ ''   ''"

text \<open>\<^verbatim>\<open>%.3d\<close> of an \<^verbatim>\<open>int\<close>.\<close>

definition dec_int3 :: "s32 \<Rightarrow> string" where
  "dec_int3 x = (if sint x < 0 then CHR ''-'' # zero_pad 3 (dec (nat (- sint x))) else zero_pad 3 (dec (nat (sint x))))"

definition display_time :: "thread_info \<Rightarrow> string" where
  "display_time ti =
     (let secs = ucast (ti_cpu_time ti div ONE_BILLION) :: s32;
          t = ti_cpu_time ti mod ONE_BILLION;
          msecs = ucast (t div ONE_MILLION) :: s32;
          t = scast (ucast (ti_cpu_time ti mod ONE_MILLION) :: s32) :: u64;
          usecs = ucast (t div 1000) :: s32
      in pad_left 5 (dec_int (sint secs)) @ '':'' @ dec_int3 msecs @ ''.'' @ dec_int3 usecs @ ''    '')"

text \<open>Signed division of C, which truncates towards zero.\<close>

definition c_quot :: "s32 \<Rightarrow> int \<Rightarrow> s32" where
  "c_quot x d = word_of_int (sgn (sint x) * (\<bar>sint x\<bar> div d))"

definition c_rem :: "s32 \<Rightarrow> int \<Rightarrow> s32" where
  "c_rem x d = word_of_int (sgn (sint x) * (\<bar>sint x\<bar> mod d))"

definition display_percent_cpu :: "thread_info \<Rightarrow> string" where
  "display_percent_cpu ti =
     pad_left 3 (dec (unat (c_quot (ti_percent_cpu ti) 10))) @ ''.'' @ dec (unat (c_rem (ti_percent_cpu ti) 10)) @ ''  ''"

text \<open>The text that \<^verbatim>\<open>buf\<close> holds and the position of \<^verbatim>\<open>p\<close> in it; \<^verbatim>\<open>snprintf\<close> returns the length
  of the whole text, which advances \<^verbatim>\<open>p\<close>.\<close>

definition buf_print :: "nat \<Rightarrow> string \<Rightarrow> string \<times> nat \<Rightarrow> string \<times> nat" where
  "buf_print bufsz s bp = (fst bp @ snprintf_text (bufsz - snd bp) s, snd bp + length s)"

definition buf_char :: "char \<Rightarrow> string \<times> nat \<Rightarrow> string \<times> nat" where
  "buf_char c bp = (fst bp @ [c], snd bp + 1)"

definition timeout_buf :: "nat \<Rightarrow> u64 \<Rightarrow> string \<times> nat" where
  "timeout_buf bufsz timeout =
     (let sec = timeout div ONE_BILLION;
          ms = (timeout mod ONE_BILLION) div ONE_MILLION;
          us = (timeout mod ONE_MILLION) div 1000;
          bp = ([], 0);
          bp = (if sec \<noteq> 0 then buf_print bufsz (dec (unat sec)) bp else bp);
          bp = (if int bufsz - int (snd bp) > 0 \<and> (ms \<noteq> 0 \<or> (sec \<noteq> 0 \<and> us \<noteq> 0)) then
                  buf_print bufsz (zero_pad 3 (dec (unat ms))) (if 0 < snd bp then buf_char (CHR '':'') bp else bp)
                else bp);
          bp = (if int bufsz - int (snd bp) > 0 \<and> us \<noteq> 0 then
                  buf_print bufsz (zero_pad 3 (dec (unat us))) (if 0 < snd bp then buf_char (CHR ''.'') bp else bp)
                else bp)
      in bp)"

definition display_timeout :: "thread_info \<Rightarrow> string" where
  "display_timeout ti =
     pad_right 13 (if ti_timeout ti \<ge> 1000 then fst (timeout_buf 32 (ti_timeout ti)) else ''   -'')"

text \<open>The labels of the state bits; the array ends with a zero, a read past it is \<open>None\<close>.\<close>

definition label_at :: "string \<Rightarrow> nat \<Rightarrow> char option" where
  "label_at labels i = (if i < length labels then Some (labels ! i) else if i = length labels then Some (char_of (0::nat)) else None)"

definition lower_char :: "char \<Rightarrow> char" where
  "lower_char c = char_of (or (char_code c) 0x20)"

lemma drop_bit_1_less: "msk \<noteq> (0 :: u32) \<Longrightarrow> unat (drop_bit 1 msk) < unat msk"
proof -
  assume "msk \<noteq> 0"
  then have "0 < unat msk" by (simp add: unat_gt_0)
  moreover have "drop_bit 1 msk = msk div 2" by (simp add: drop_bit_eq_div)
  ultimately show ?thesis by (simp add: unat_div_distrib)
qed

function format_state_loop :: "thread_abi \<Rightarrow> u32 \<Rightarrow> u32 \<Rightarrow> nat \<Rightarrow> string option" where
  "format_state_loop abi state msk flag =
     (if msk = 0 then Some []
      else if msk AND 1 = 0 then format_state_loop abi state (drop_bit 1 msk) (flag + 1)
      else case label_at (EVL_THREAD_STATE_LABELS abi) flag of None \<Rightarrow> None
      | Some c \<Rightarrow>
          (let rest = format_state_loop abi state (drop_bit 1 msk) (flag + 1) in
           if push_bit flag 1 = EVL_T_DELAY abi then
             (if state AND EVL_T_PEND abi \<noteq> 0 then rest else map_option (Cons c) rest)
           else if push_bit flag 1 = EVL_T_PEND abi then
             map_option (Cons (if state AND EVL_T_DELAY abi \<noteq> 0 then lower_char c else c)) rest
           else if c = CHR ''.'' then rest else map_option (Cons c) rest))"
  by pat_completeness auto

termination by (relation "measure (\<lambda>(abi, state, msk, flag). unat msk)") (auto simp del: drop_bit_of_1 intro!: drop_bit_1_less[unfolded One_nat_def])

declare format_state_loop.simps [simp del]

definition format_state :: "thread_abi \<Rightarrow> thread_info \<Rightarrow> string option" where
  "format_state abi ti = format_state_loop abi (ti_state ti) (ti_state ti) 0"

definition hex :: "nat \<Rightarrow> string" where "hex n = digits_of 16 n"

text \<open>A string is printed up to its first zero.\<close>

definition display_state :: "s32 \<Rightarrow> thread_abi \<Rightarrow> thread_info \<Rightarrow> string option" where
  "display_state fmt abi ti =
     (if fmt AND DISPLAY_NUMERIC \<noteq> 0 then Some ('' '' @ pad_right 8 (hex (unat (ti_state ti))))
      else map_option (\<lambda>s. '' '' @ pad_right 8 (takeWhile (\<lambda>c. c \<noteq> char_of (0::nat)) s)) (format_state abi ti))"

definition display_inbandsw :: "thread_info \<Rightarrow> string" where
  "display_inbandsw ti = pad_right 8 (dec_int (sint (ti_nr_inbandsw ti)))"

definition display_ctxsw :: "thread_info \<Rightarrow> string" where
  "display_ctxsw ti = pad_right 10 (dec_int (sint (ti_nr_ctxsw ti)))"

definition display_syscall :: "thread_info \<Rightarrow> string" where
  "display_syscall ti = pad_right 10 (dec_int (sint (ti_nr_syscalls ti)))"

definition display_rwakeups :: "thread_info \<Rightarrow> string" where
  "display_rwakeups ti = pad_right 10 (dec_int (sint (ti_nr_rwakeups ti)))"

definition display_wchan :: "thread_info \<Rightarrow> string" where
  "display_wchan ti = pad_right 22 (print_string (ti_wchan ti))"

subsection \<open>The chain of columns\<close>

text \<open>One static handler per column; \<open>chain\<close> gives the field \<^verbatim>\<open>next\<close> of each.\<close>

datatype display_handler = pid_handler | name_handler | cpu_handler | policy_handler | prio_handler
  | time_handler | percent_cpu_handler | timeout_handler | state_handler | inbandsw_handler
  | ctxsw_handler | syscall_handler | rwakeups_handler | wchan_handler

type_synonym chain = "display_handler \<Rightarrow> display_handler option"

text \<open>The fields of a handler: its header as \<^verbatim>\<open>header_fmt\<close> prints it, and the function for its data.\<close>

type_synonym column = "string \<times> (s32 \<Rightarrow> thread_abi \<Rightarrow> thread_info \<Rightarrow> string option)"

definition pid_column :: column where
  "pid_column = (pad_right 6 ''PID'', \<lambda>_ _ ti. Some (display_pid ti))"

definition name_column :: column where
  "name_column = (''NAME'', \<lambda>_ abi ti. Some (display_name abi ti))"

definition cpu_column :: column where
  "cpu_column = (pad_right 6 ''CPU'', \<lambda>_ _ ti. Some (display_cpu ti))"

definition policy_column :: column where
  "policy_column = (pad_right 8 ''SCHED'', \<lambda>_ _ ti. Some (display_policy ti))"

definition prio_column :: column where
  "prio_column = (pad_right 6 ''PRIO'', \<lambda>_ _ ti. Some (display_prio ti))"

definition time_column :: column where
  "time_column = (''   '' @ pad_right 14 ''CPUTIME'', \<lambda>_ _ ti. Some (display_time ti))"

definition percent_cpu_column :: column where
  "percent_cpu_column = (pad_right 7 ''%CPU'', \<lambda>_ _ ti. Some (display_percent_cpu ti))"

definition timeout_column :: column where
  "timeout_column = (pad_right 13 ''TIMEOUT'', \<lambda>_ _ ti. Some (display_timeout ti))"

definition state_column :: column where
  "state_column = (pad_right 9 ''STAT'', \<lambda>fmt abi ti. display_state fmt abi ti)"

definition inbandsw_column :: column where
  "inbandsw_column = (pad_right 8 ''ISW'', \<lambda>_ _ ti. Some (display_inbandsw ti))"

definition ctxsw_column :: column where
  "ctxsw_column = (pad_right 10 ''CTXSW'', \<lambda>_ _ ti. Some (display_ctxsw ti))"

definition syscall_column :: column where
  "syscall_column = (pad_right 10 ''SYS'', \<lambda>_ _ ti. Some (display_syscall ti))"

definition rwakeups_column :: column where
  "rwakeups_column = (pad_right 10 ''RWA'', \<lambda>_ _ ti. Some (display_rwakeups ti))"

definition wchan_column :: column where
  "wchan_column = (pad_right 22 ''WCHAN'', \<lambda>_ _ ti. Some (display_wchan ti))"

fun column_of :: "display_handler \<Rightarrow> column" where
  "column_of pid_handler = pid_column"
| "column_of name_handler = name_column"
| "column_of cpu_handler = cpu_column"
| "column_of policy_handler = policy_column"
| "column_of prio_handler = prio_column"
| "column_of time_handler = time_column"
| "column_of percent_cpu_handler = percent_cpu_column"
| "column_of timeout_handler = timeout_column"
| "column_of state_handler = state_column"
| "column_of inbandsw_handler = inbandsw_column"
| "column_of ctxsw_handler = ctxsw_column"
| "column_of syscall_handler = syscall_column"
| "column_of rwakeups_handler = rwakeups_column"
| "column_of wchan_handler = wchan_column"

text \<open>\<^verbatim>\<open>h->next = &x; h = &x\<close>, for several handlers in a row.\<close>

fun link_columns :: "display_handler list \<Rightarrow> display_handler \<times> chain \<Rightarrow> display_handler \<times> chain" where
  "link_columns [] hc = hc"
| "link_columns (x # xs) (h, c) = link_columns xs (x, c(h := Some x))"

definition build_chain :: "s32 \<Rightarrow> chain" where
  "build_chain fmt =
     (let hc = (pid_handler, (\<lambda>_. None)(cpu_handler := Some pid_handler));
          hc = (if fmt AND (DISPLAY_SCHED OR DISPLAY_LONG) \<noteq> 0
                then link_columns [policy_handler, prio_handler] hc else hc);
          hc = (if fmt AND (DISPLAY_STATE OR DISPLAY_LONG) \<noteq> 0
                then link_columns [inbandsw_handler, ctxsw_handler, syscall_handler, rwakeups_handler, state_handler] hc else hc);
          hc = (if fmt AND (DISPLAY_TIMES OR DISPLAY_LONG) \<noteq> 0
                then link_columns [timeout_handler, percent_cpu_handler, time_handler] hc else hc);
          hc = (if fmt AND (DISPLAY_WAIT OR DISPLAY_LONG) \<noteq> 0
                then link_columns [wchan_handler]
                       (if fmt AND DISPLAY_LONG = 0
                        then link_columns [timeout_handler, rwakeups_handler, state_handler] hc else hc)
                else hc)
      in (snd hc)(fst hc := Some name_handler))"

text \<open>The handlers that a walk of the chain meets, if it ends.\<close>

partial_function (option) chain_columns :: "chain \<Rightarrow> display_handler option \<Rightarrow> display_handler list option" where
  "chain_columns c h =
     (case h of None \<Rightarrow> Some []
      | Some x \<Rightarrow> Option.bind (chain_columns c (c x)) (\<lambda>xs. Some (x # xs)))"

fun concat_options :: "string option list \<Rightarrow> string option" where
  "concat_options [] = Some []"
| "concat_options (x # xs) = Option.bind x (\<lambda>s. map_option (append s) (concat_options xs))"

definition shown :: "nat set \<Rightarrow> thread_info \<Rightarrow> bool" where
  "shown cpu_restrict ti \<longleftrightarrow> \<not> (0 < card cpu_restrict \<and> unat (ti_cpu ti) \<notin> cpu_restrict)"

text \<open>The whole output; \<open>None\<close> if a walk of the chain does not end or a label is missing.\<close>

definition print_thread_info :: "s32 \<Rightarrow> nat set \<Rightarrow> thread_abi \<Rightarrow> ps_state \<Rightarrow> string option" where
  "print_thread_info fmt cpu_restrict abi st =
     Option.bind (chain_columns (build_chain fmt) (Some cpu_handler)) (\<lambda>columns.
       map_option (append (concat (map (\<lambda>h. fst (column_of h)) columns) @ [NL]))
         (concat_options (map (\<lambda>i. map_option (\<lambda>l. l @ [NL])
              (concat_options (map (\<lambda>h. snd (column_of h) fmt abi (ps_mem st ! i)) columns)))
            (filter (\<lambda>i. shown cpu_restrict (ps_mem st ! i)) (thread_list st)))))"

section \<open>The CPU list\<close>

definition resolve_cpuid :: "string \<Rightarrow> s32" where
  "resolve_cpuid s = (case s of c # _ \<Rightarrow> if isdigit c then atoi s else - 1 | [] \<Rightarrow> - 1)"

definition CPU_SETSIZE :: nat where "CPU_SETSIZE = 1024"

text \<open>\<^verbatim>\<open>CPU_SET\<close> for \<open>cpu = start .. end\<close>.\<close>

definition cpu_set_range :: "s32 \<Rightarrow> s32 \<Rightarrow> nat set \<Rightarrow> nat set" where
  "cpu_set_range start stop cpus = cpus \<union> set (map nat (filter (\<lambda>i. 0 \<le> i \<and> i < int CPU_SETSIZE) [sint start..sint stop]))"

text \<open>One element of the list: the bounds, or \<open>None\<close> for \<^verbatim>\<open>goto fail\<close>.\<close>

definition cpu_range :: "s32 \<Rightarrow> string \<Rightarrow> (s32 \<times> s32) option" where
  "cpu_range nr_cpus rng =
     (let stop = (if last rng = CHR ''-'' then nr_cpus - 1 else - 1) in
      case strtok ''-'' rng of None \<Rightarrow> Some (0, nr_cpus - 1)
      | Some (id1, rest) \<Rightarrow>
          (let start = resolve_cpuid id1;
               (start, stop) = (if hd rng = CHR ''-'' then (0, start) else (start, stop));
               stop = (case strtok ''-'' rest of Some (id2, _) \<Rightarrow> resolve_cpuid id2
                       | None \<Rightarrow> if sint stop < 0 then start else stop)
           in if sint start < 0 \<or> sint nr_cpus \<le> sint start \<or> sint stop < 0 \<or> sint nr_cpus \<le> sint stop then None
              else Some (start, stop)))"

lemma strtok_shorter: "strtok ds s = Some (t, rest) \<Longrightarrow> length rest < length s"
proof -
  assume a: "strtok ds s = Some (t, rest)"
  define u where "u = dropWhile (\<lambda>c. c \<in> set ds) s"
  have u: "u \<noteq> []" "rest = drop 1 (dropWhile (\<lambda>c. c \<notin> set ds) u)"
    using a by (auto simp: strtok_def u_def Let_def split: if_splits)
  have "length rest \<le> length u - 1" using u(2) length_dropWhile_le[of "\<lambda>c. c \<notin> set ds" u] by simp
  also have "\<dots> < length u" using u(1) by (cases u) auto
  also have "\<dots> \<le> length s" unfolding u_def by (rule length_dropWhile_le)
  finally show ?thesis .
qed

function cpu_mask_loop :: "s32 \<Rightarrow> string \<Rightarrow> nat set \<Rightarrow> nat set option" where
  "cpu_mask_loop nr_cpus s msk =
     (case strtok '','' s of None \<Rightarrow> Some msk
      | Some (rng, rest) \<Rightarrow>
          (if hd rng = NL then cpu_mask_loop nr_cpus rest msk
           else case cpu_range nr_cpus rng of None \<Rightarrow> None
           | Some (start, stop) \<Rightarrow> cpu_mask_loop nr_cpus rest (cpu_set_range start stop msk)))"
  by pat_completeness auto

termination by (relation "measure (\<lambda>(nr, s, msk). length s)") (auto simp: strtok_shorter)

declare cpu_mask_loop.simps [simp del]

text \<open>The set of CPUs, or \<open>None\<close> when the program ends with an error.\<close>

definition build_cpu_mask :: "s32 \<Rightarrow> string \<Rightarrow> nat set option" where
  "build_cpu_mask nr_cpus cpu_list =
     (if sint nr_cpus < 0 then None else cpu_mask_loop nr_cpus cpu_list {})"

section \<open>The program\<close>

record ps_config =
  display_format :: s32
  ps_sort_key :: s32
  reverse_sort :: bool
  cpu_restrict :: "nat set"

definition ps_defaults :: ps_config where
  "ps_defaults = \<lparr>display_format = 0, ps_sort_key = 0, reverse_sort = False, cpu_restrict = {}\<rparr>"

text \<open>The keys of the option \<^verbatim>\<open>-S\<close>; \<open>Inl\<close> is the status the program exits with.\<close>

fun sort_keys :: "string \<Rightarrow> ps_config \<Rightarrow> int + ps_config" where
  "sort_keys [] cfg = Inr cfg"
| "sort_keys (c # cs) cfg =
     (if c = CHR ''c'' then sort_keys cs (cfg\<lparr>ps_sort_key := SORT_BY_PCPU\<rparr>)
      else if c = CHR ''i'' then sort_keys cs (cfg\<lparr>ps_sort_key := SORT_BY_ISW\<rparr>)
      else if c = CHR ''t'' then sort_keys cs (cfg\<lparr>ps_sort_key := SORT_BY_CPUTIME\<rparr>)
      else if c = CHR ''x'' then sort_keys cs (cfg\<lparr>ps_sort_key := SORT_BY_CTXSW\<rparr>)
      else if c = CHR ''w'' then sort_keys cs (cfg\<lparr>ps_sort_key := SORT_BY_RWA\<rparr>)
      else if c = CHR ''r'' then sort_keys cs (cfg\<lparr>reverse_sort := True\<rparr>)
      else Inl 1)"

text \<open>One option, given by its character and its argument.\<close>

definition ps_option :: "s32 \<Rightarrow> char \<times> string \<Rightarrow> ps_config \<Rightarrow> int + ps_config" where
  "ps_option nr_cpus opt cfg =
     (let (c, optarg) = opt in
      if c = CHR ''c'' then (case build_cpu_mask nr_cpus optarg of None \<Rightarrow> Inl 1 | Some m \<Rightarrow> Inr (cfg\<lparr>cpu_restrict := m\<rparr>))
      else if c = CHR ''s'' then Inr (cfg\<lparr>display_format := display_format cfg OR DISPLAY_STATE\<rparr>)
      else if c = CHR ''p'' then Inr (cfg\<lparr>display_format := display_format cfg OR DISPLAY_SCHED\<rparr>)
      else if c = CHR ''t'' then Inr (cfg\<lparr>display_format := display_format cfg OR DISPLAY_TIMES\<rparr>)
      else if c = CHR ''l'' then Inr (cfg\<lparr>display_format := display_format cfg OR DISPLAY_LONG\<rparr>)
      else if c = CHR ''n'' then Inr (cfg\<lparr>display_format := display_format cfg OR DISPLAY_NUMERIC\<rparr>)
      else if c = CHR ''w'' then Inr (cfg\<lparr>display_format := display_format cfg OR DISPLAY_WAIT\<rparr>)
      else if c = CHR ''S'' then sort_keys optarg cfg
      else if c = CHR ''h'' \<or> c = CHR ''@'' then Inl 0
      else Inl 1)"

fun ps_options :: "s32 \<Rightarrow> (char \<times> string) list \<Rightarrow> ps_config \<Rightarrow> int + ps_config" where
  "ps_options nr_cpus [] cfg = Inr cfg"
| "ps_options nr_cpus (opt # opts) cfg =
     (case ps_option nr_cpus opt cfg of Inl code \<Rightarrow> Inl code | Inr cfg \<Rightarrow> ps_options nr_cpus opts cfg)"

text \<open>What the program finds: the number of CPUs, the room of the hash table, whether the core is
  present, and the directory of the threads (\<open>None\<close> if \<^verbatim>\<open>EVL_SYSDIR\<close> is not set or the walk
  fails).  The result is the exit status and the output of the report, if there is one.\<close>

definition ps_main :: "((nat \<Rightarrow> nat \<Rightarrow> s32) \<Rightarrow> nat list \<Rightarrow> nat list) \<Rightarrow> thread_abi \<Rightarrow> s32 \<Rightarrow> nat \<Rightarrow> bool
    \<Rightarrow> fsnode option \<Rightarrow> (char \<times> string) list \<Rightarrow> nat \<Rightarrow> int \<times> string option" where
  "ps_main qsort abi nr_cpus hmax core dir opts nr_args =
     (case ps_options nr_cpus opts ps_defaults of Inl code \<Rightarrow> (code, None)
      | Inr cfg \<Rightarrow>
          (if 0 < nr_args \<or> \<not> core then (1, None)
           else case dir of None \<Rightarrow> (1, None)
           | Some root \<Rightarrow>
               (let fmt = (if display_format cfg AND NOT DISPLAY_MODIFIERS = 0
                           then display_format cfg OR DISPLAY_DEFAULT_FORMAT else display_format cfg);
                    key = (if reverse_sort cfg then ps_sort_key cfg OR SORT_REVERSE else ps_sort_key cfg);
                    st = sort_thread_info qsort key (collect_thread_info hmax root ps_init)
                in (0, print_thread_info fmt (cpu_restrict cfg) abi st))))"

end
