(* ===== verification/Evl_Ps_Correct.thy ===== *)
theory Evl_Ps_Correct
  imports Evl_Ps
begin

text \<open>
  Properties of the thread report: the order of the report, the list of CPUs, the columns, and
  the bounds of the buffers it prints into.
\<close>

section \<open>The chain of columns\<close>

lemma chain_columns_None [simp]: "chain_columns c None = Some []"
  by (subst chain_columns.simps) simp

lemma chain_columns_Some: "chain_columns c (Some x) = Option.bind (chain_columns c (c x)) (\<lambda>xs. Some (x # xs))"
  by (subst chain_columns.simps) simp

lemmas chain_eval = chain_columns_Some build_chain_def Let_def

lemma and_or_0: "(x :: s32) AND (a OR b) = 0 \<longleftrightarrow> x AND a = 0 \<and> x AND b = 0"
  by (auto simp: bit_eq_iff bit_and_iff bit_or_iff)

text \<open>The columns a format asks for, one list after the other.\<close>

definition columns_spec :: "s32 \<Rightarrow> display_handler list" where
  "columns_spec fmt = [cpu_handler, pid_handler]
     @ (if fmt AND (DISPLAY_SCHED OR DISPLAY_LONG) \<noteq> 0 then [policy_handler, prio_handler] else [])
     @ (if fmt AND (DISPLAY_STATE OR DISPLAY_LONG) \<noteq> 0
        then [inbandsw_handler, ctxsw_handler, syscall_handler, rwakeups_handler, state_handler] else [])
     @ (if fmt AND (DISPLAY_TIMES OR DISPLAY_LONG) \<noteq> 0 then [timeout_handler, percent_cpu_handler, time_handler] else [])
     @ (if fmt AND (DISPLAY_WAIT OR DISPLAY_LONG) \<noteq> 0 then [wchan_handler] else [])
     @ [name_handler]"

text \<open>
  The walk of the chain of columns ends for every format: it starts with the CPU, meets no
  column twice and ends with the name; without the option \<^verbatim>\<open>-w\<close>, or in the long format, the
  columns are those the format asks for, in their order.
\<close>

theorem columns_end:
  "\<exists>xs. chain_columns (build_chain fmt) (Some cpu_handler) = Some xs
    \<and> hd xs = cpu_handler \<and> last xs = name_handler \<and> distinct xs
    \<and> (if fmt AND DISPLAY_WAIT = 0 \<or> fmt AND DISPLAY_LONG \<noteq> 0 then xs = columns_spec fmt else wchan_handler \<in> set xs)"
  by (cases "fmt AND DISPLAY_SCHED = 0"; cases "fmt AND DISPLAY_STATE = 0"; cases "fmt AND DISPLAY_TIMES = 0";
      cases "fmt AND DISPLAY_WAIT = 0"; cases "fmt AND DISPLAY_LONG = 0")
     (simp_all add: chain_eval columns_spec_def and_or_0)

text \<open>The options \<^verbatim>\<open>-t -w\<close> lose the columns of the option \<^verbatim>\<open>-t\<close>: the link behind the column of
  the timeout is overwritten.\<close>

theorem wait_loses_times:
  "chain_columns (build_chain (DISPLAY_TIMES OR DISPLAY_WAIT)) (Some cpu_handler)
    = Some [cpu_handler, pid_handler, timeout_handler, rwakeups_handler, state_handler, wchan_handler, name_handler]"
  by (simp add: chain_eval DISPLAY_TIMES_def DISPLAY_WAIT_def DISPLAY_SCHED_def DISPLAY_LONG_def DISPLAY_STATE_def)

section \<open>The timeout\<close>

lemma timeout_parts:
  assumes "unat x < 1000"
  shows "length (zero_pad 3 (dec (unat (x :: u64)))) = 3"
  using length_digits_of[of 10 "unat x" 3] assms by (simp add: zero_pad_def dec_def)

lemma length_buf_print:
  assumes "length (fst bp) = snd bp" and "snd bp + length s < bufsz"
  shows "length (fst (buf_print bufsz s bp)) = snd bp + length s" and "snd (buf_print bufsz s bp) = snd bp + length s"
  using assms by (simp_all add: buf_print_def snprintf_text_def)

text \<open>
  The text of a timeout never overruns the 32 bytes it is printed to: whatever the timeout,
  the position in the buffer stays within the 19 characters of the longest text, so that nothing is cut.
\<close>

theorem timeout_buffer:
  "snd (timeout_buf 32 t) = length (fst (timeout_buf 32 t)) \<and> snd (timeout_buf 32 t) \<le> 19"
proof -
  let ?sec = "t div ONE_BILLION" and ?ms = "(t mod ONE_BILLION) div ONE_MILLION" and ?us = "(t mod ONE_MILLION) div 1000"
  have "unat ?sec = unat t div 1000000000" by (simp add: unat_div_distrib ONE_BILLION_def)
  moreover have "unat t < 10 ^ 11 * 1000000000" by (rule order.strict_trans2[OF unat64_less]) simp
  ultimately have "unat ?sec < 10 ^ 11" by (simp only: div_less_iff_less_mult zero_less_numeral)
  then have sec: "length (dec (unat ?sec)) \<le> 11"
    unfolding dec_def by (intro length_digits_of) auto
  have ms: "length (zero_pad 3 (dec (unat ?ms))) = 3"
    by (rule timeout_parts) (simp add: unat_div_distrib unat_mod_distrib ONE_BILLION_def ONE_MILLION_def div_less_iff_less_mult)
  have us: "length (zero_pad 3 (dec (unat ?us))) = 3"
    by (rule timeout_parts) (simp add: unat_div_distrib unat_mod_distrib ONE_MILLION_def div_less_iff_less_mult)
  define b1 where "b1 = (if ?sec \<noteq> 0 then buf_print 32 (dec (unat ?sec)) ([], 0) else ([], 0))"
  have b1: "length (fst b1) = snd b1" "snd b1 \<le> 11"
    using length_buf_print[of "([], 0)" "dec (unat ?sec)" 32] sec by (auto simp: b1_def)
  define c1 where "c1 = (if 0 < snd b1 then buf_char (CHR '':'') b1 else b1)"
  have c1: "length (fst c1) = snd c1" "snd c1 \<le> 12" using b1 by (auto simp: c1_def buf_char_def)
  define b2 where "b2 = (if int 32 - int (snd b1) > 0 \<and> (?ms \<noteq> 0 \<or> (?sec \<noteq> 0 \<and> ?us \<noteq> 0))
    then buf_print 32 (zero_pad 3 (dec (unat ?ms))) c1 else b1)"
  have b2: "length (fst b2) = snd b2" "snd b2 \<le> 15"
    using length_buf_print[of c1 "zero_pad 3 (dec (unat ?ms))" 32] c1 b1 ms by (auto simp: b2_def)
  define c2 where "c2 = (if 0 < snd b2 then buf_char (CHR ''.'') b2 else b2)"
  have c2: "length (fst c2) = snd c2" "snd c2 \<le> 16" using b2 by (auto simp: c2_def buf_char_def)
  define b3 where "b3 = (if int 32 - int (snd b2) > 0 \<and> ?us \<noteq> 0 then buf_print 32 (zero_pad 3 (dec (unat ?us))) c2 else b2)"
  have "length (fst b3) = snd b3" "snd b3 \<le> 19"
    using length_buf_print[of c2 "zero_pad 3 (dec (unat ?us))" 32] c2 b2 us by (auto simp: b3_def)
  moreover have "timeout_buf 32 t = b3"
    by (simp only: timeout_buf_def Let_def b3_def c2_def b2_def c1_def b1_def)
  ultimately show ?thesis by simp
qed

text \<open>Five microseconds and five milliseconds are printed alike.\<close>

theorem timeout_ambiguous:
  "display_timeout (zero_info\<lparr>ti_timeout := 5000\<rparr>) = display_timeout (zero_info\<lparr>ti_timeout := 5000000\<rparr>)"
  by code_simp

section \<open>States\<close>

lemma format_state_length:
  "unat msk < 2 ^ k \<Longrightarrow> format_state_loop abi state msk flag = Some s \<Longrightarrow> length s \<le> k"
proof (induction k arbitrary: msk flag s)
  case 0
  then have "msk = 0" by (simp add: unat_eq_0)
  then show ?case using 0 by (simp add: format_state_loop.simps)
next
  case (Suc k)
  show ?case
  proof (cases "msk = 0")
    case True
    then show ?thesis using Suc.prems by (simp add: format_state_loop.simps)
  next
    case False
    let ?rest = "format_state_loop abi state (drop_bit 1 msk) (flag + 1)"
    have small: "unat (drop_bit 1 msk) < 2 ^ k"
      using Suc.prems(1) by (simp add: drop_bit_eq_div unat_div_distrib)
    have "\<exists>t. ?rest = Some t \<and> length s \<le> Suc (length t)"
      using Suc.prems(2) False
      by (subst (asm) format_state_loop.simps) (auto simp: Let_def split: if_splits option.splits)
    then show ?thesis using Suc.IH[OF small] by fastforce
  qed
qed

text \<open>The state is printed into \<open>32 + 1\<close> bytes.\<close>

lemma format_state_bound: "format_state abi ti = Some s \<Longrightarrow> length s \<le> 32"
  unfolding format_state_def
  by (erule format_state_length[rotated]) (rule order.strict_trans2[OF unsigned_less], simp)

text \<open>With a label for each of the 32 bits, every read of the labels is in bounds.\<close>

lemma format_state_labels:
  "unat msk < 2 ^ k \<Longrightarrow> flag + k \<le> length (EVL_THREAD_STATE_LABELS abi) + 1
    \<Longrightarrow> \<exists>s. format_state_loop abi state msk flag = Some s"
proof (induction k arbitrary: msk flag)
  case 0
  then show ?case by (simp add: format_state_loop.simps unat_eq_0)
next
  case (Suc k)
  have small: "unat (drop_bit 1 msk) < 2 ^ k"
    using Suc.prems(1) by (simp add: drop_bit_eq_div unat_div_distrib)
  from Suc.IH[OF small, of "flag + 1"] Suc.prems(2)
  obtain t where "format_state_loop abi state (drop_bit 1 msk) (flag + 1) = Some t" by auto
  moreover obtain c where "label_at (EVL_THREAD_STATE_LABELS abi) flag = Some c"
    using Suc.prems(2) by (fastforce simp: label_at_def)
  ultimately show ?case by (subst format_state_loop.simps) (simp add: Let_def)
qed

section \<open>The list of CPUs\<close>

definition show_range :: "nat \<times> nat \<Rightarrow> string" where
  "show_range r = dec (fst r) @ ''-'' @ dec (snd r)"

fun show_ranges :: "(nat \<times> nat) list \<Rightarrow> string" where
  "show_ranges [] = []"
| "show_ranges [r] = show_range r"
| "show_ranges (r # rs) = show_range r @ '','' @ show_ranges rs"

lemma dec_digits: "c \<in> set (dec n) \<Longrightarrow> digit_in 10 c"
  using digits_of_digit[of 10 n] by (auto simp: dec_def list_all_iff)

lemma digit_10_code: "digit_in 10 c \<Longrightarrow> 48 \<le> char_code c \<and> char_code c \<le> 57"
  by (simp add: digit_in_def digit_value_def Let_def split: if_splits)

lemma digit_10_not: "digit_in 10 c \<Longrightarrow> char_code d < 48 \<Longrightarrow> c \<noteq> d"
  using digit_10_code by fastforce

lemma digit_10:
  assumes "digit_in 10 c"
  shows "isdigit c" "c \<noteq> CHR ''-''" "c \<noteq> CHR '',''" "c \<noteq> CHR ''+''" "c \<noteq> NL" "\<not> isspace c"
  using digit_10_code[OF assms] digit_10_not[OF assms]
  by (simp_all add: isdigit_def) (simp_all add: char_code_def NL_def isspace_def)

lemma strtok_token:
  assumes "t \<noteq> []" and "\<forall>c\<in>set t. c \<notin> set ds"
  shows "strtok ds t = Some (t, [])" and "d \<in> set ds \<Longrightarrow> strtok ds (t @ d # rest) = Some (t, rest)"
proof -
  have "hd t \<notin> set ds" using assms by simp
  then have start: "dropWhile (\<lambda>c. c \<in> set ds) (t @ u) = t @ u" for u using assms(1) by (cases t) auto
  have stop: "takeWhile (\<lambda>c. c \<notin> set ds) (t @ u) = t @ takeWhile (\<lambda>c. c \<notin> set ds) u"
    "dropWhile (\<lambda>c. c \<notin> set ds) (t @ u) = dropWhile (\<lambda>c. c \<notin> set ds) u" for u
    using assms(2) by (simp_all add: takeWhile_append2 dropWhile_append2)
  show "strtok ds t = Some (t, [])" using start[of "[]"] stop[of "[]"] assms(1)
    by (simp add: strtok_def Let_def del: drop_eq_Nil dropWhile_eq_Nil_conv takeWhile_eq_all_conv)
  show "strtok ds (t @ d # rest) = Some (t, rest)" if "d \<in> set ds"
    using start[of "d # rest"] stop[of "d # rest"] assms(1) that by (simp add: strtok_def Let_def)
qed

lemma scan_number_digit:
  assumes "digit_in 10 c"
  shows "scan_number 10 (c # s) = Some (False, digits_value 10 (c # takeWhile (digit_in 10) s), dropWhile (digit_in 10) s)"
proof -
  have "c \<noteq> CHR ''-''" "c \<noteq> CHR ''+''" using digit_10[OF assms] by simp_all
  then show ?thesis using assms
    by (cases s; cases "tl s") (simp_all add: scan_number_def)
qed

lemma scan_number_empty: "scan_number base [] = None"
  by (simp add: scan_number_def)

lemma scan_dec:
  assumes "rest = [] \<or> \<not> digit_in 10 (hd rest)"
  shows "scan_number 10 (dec n @ rest) = Some (False, n, rest)"
proof -
  obtain c cs where c: "dec n = c # cs" by (cases "dec n") (auto simp: dec_def)
  have all: "\<forall>d\<in>set (c # cs). digit_in 10 d" using dec_digits[of _ n] c by simp
  then have "takeWhile (digit_in 10) (cs @ rest) = cs" "dropWhile (digit_in 10) (cs @ rest) = rest"
    using assms by (cases rest; simp add: takeWhile_append2 dropWhile_append2)+
  moreover have "digits_value 10 (c # cs) = n" unfolding c[symmetric] by (simp add: dec_def digits_value_digits)
  ultimately show ?thesis using all by (simp add: c scan_number_digit)
qed

lemma atoi_dec:
  assumes "n < 2 ^ 31"
  shows "atoi (dec n) = of_nat n"
proof -
  obtain c cs where c: "dec n = c # cs" by (cases "dec n") (auto simp: dec_def)
  then have "digit_in 10 c" using dec_digits[of c n] by simp
  then have "dropWhile isspace (dec n) = dec n" using c digit_10 by simp
  then show ?thesis using scan_dec[of "[]" n] assms
    by (simp add: atoi_def strtol_def long_of_def)
qed

lemma resolve_dec:
  assumes "n < 2 ^ 31"
  shows "resolve_cpuid (dec n) = of_nat n" and "sint (of_nat n :: s32) = int n"
proof -
  obtain c cs where c: "dec n = c # cs" by (cases "dec n") (auto simp: dec_def)
  then have "digit_in 10 c" using dec_digits[of c n] by simp
  then show "resolve_cpuid (dec n) = of_nat n" using c digit_10 atoi_dec[OF assms] by (simp add: resolve_cpuid_def)
  show "sint (of_nat n :: s32) = int n"
    using assms by (simp add: signed_of_nat signed_take_bit_int_eq_self)
qed

lemma dec_not_empty [simp]: "dec n \<noteq> []"
  by (simp add: dec_def)

lemma show_range_parsed:
  assumes "a < 2 ^ 31" and "b < 2 ^ 31" and "a < n" "b < n" "n < 2 ^ 31"
  shows "cpu_range (of_nat n) (show_range (a, b)) = Some (of_nat a, of_nat b)"
proof -
  have no: "\<forall>c\<in>set (dec x). c \<notin> set ''-''" for x using dec_digits digit_10(2) by fastforce
  have 1: "strtok ''-'' (show_range (a, b)) = Some (dec a, dec b)"
    using strtok_token(2)[OF dec_not_empty no, of "CHR ''-''" a "dec b"] by (simp add: show_range_def)
  have 2: "strtok ''-'' (dec b) = Some (dec b, [])" by (rule strtok_token(1)[OF dec_not_empty no])
  have hd: "hd (show_range (a, b)) \<noteq> CHR ''-''"
    using no[of a] by (cases "dec a") (auto simp: show_range_def)
  have last: "last (show_range (a, b)) \<noteq> CHR ''-''"
    using no[of b] last_in_set[OF dec_not_empty, of b] by (simp add: show_range_def)
  show ?thesis
    using assms by (simp add: cpu_range_def 1 2 hd last resolve_dec Let_def)
qed

definition join_ranges :: "(nat \<times> nat) list \<Rightarrow> nat set" where
  "join_ranges rs = (\<Union>r\<in>set rs. {fst r..snd r})"

lemma cpu_set_range_nat:
  assumes "a < 2 ^ 31" and "b < CPU_SETSIZE"
  shows "cpu_set_range (of_nat a) (of_nat b) cpus = cpus \<union> {a..b}"
proof -
  have b: "b < 2 ^ 31" using assms(2) by (simp add: CPU_SETSIZE_def)
  have "filter (\<lambda>i. 0 \<le> i \<and> i < int CPU_SETSIZE) [int a..int b] = [int a..int b]"
    using assms(2) by (simp add: filter_id_conv)
  then have "set (map nat (filter (\<lambda>i. 0 \<le> i \<and> i < int CPU_SETSIZE) [int a..int b])) = nat ` {int a..int b}"
    by (simp only: set_map set_upto)
  also have "\<dots> = nat ` int ` {a..b}" by (simp only: image_int_atLeastAtMost)
  also have "\<dots> = {a..b}" by (simp add: image_image)
  finally show ?thesis
    unfolding cpu_set_range_def resolve_dec(2)[OF assms(1)] resolve_dec(2)[OF b] by (rule arg_cong)
qed

lemma range_first:
  assumes "fst r < n" "snd r < n" and "n \<le> CPU_SETSIZE"
    and "(s = [] \<and> rest = []) \<or> s = CHR '','' # rest"
  shows "cpu_mask_loop (of_nat n) (show_range r @ s) cpus
    = cpu_mask_loop (of_nat n) rest (cpus \<union> {fst r..snd r})"
proof -
  have n: "n < 2 ^ 31" "fst r < 2 ^ 31" "snd r < 2 ^ 31" using assms(1-3) by (simp_all add: CPU_SETSIZE_def)
  have d: "c \<noteq> CHR '','' \<and> c \<noteq> NL" if "c \<in> set (dec x)" for c x using dec_digits[OF that] digit_10(3,5) by simp
  have no: "\<forall>c\<in>set (show_range r). c \<notin> set '',''" using d by (auto simp: show_range_def)
  have ne: "show_range r \<noteq> []" by (simp add: show_range_def)
  have nl: "hd (show_range r) \<noteq> NL" using d[of "hd (dec (fst r))" "fst r"] by (simp add: show_range_def)
  have "strtok '','' (show_range r @ s) = Some (show_range r, rest)"
    using assms(4) strtok_token(1)[OF ne no] strtok_token(2)[OF ne no, of "CHR '',''" rest] by (elim disjE) simp_all
  then show ?thesis
    using nl show_range_parsed[of "fst r" "snd r" n] assms(1-3) n cpu_set_range_nat[of "fst r" "snd r"]
    by (subst cpu_mask_loop.simps) simp
qed

lemma ranges_parsed:
  assumes "\<forall>r\<in>set rs. fst r < n \<and> snd r < n" and "n \<le> CPU_SETSIZE"
  shows "cpu_mask_loop (of_nat n) (show_ranges rs) cpus = Some (cpus \<union> join_ranges rs)"
  using assms
proof (induction rs arbitrary: cpus rule: show_ranges.induct)
  case 1
  then show ?case by (simp add: cpu_mask_loop.simps strtok_def join_ranges_def)
next
  case (2 r)
  then show ?case
    using range_first[of r n "[]" "[]" cpus] by (simp add: join_ranges_def cpu_mask_loop.simps strtok_def)
next
  case (3 r q rs)
  then show ?case
    using range_first[of r n "CHR '','' # show_ranges (q # rs)" "show_ranges (q # rs)" cpus]
    by (simp add: join_ranges_def Un_assoc)
qed

section \<open>Collecting\<close>

text \<open>The list holds every record once, the last one first; the hash table finds records by their
  names and, while it has room, each of them.\<close>

definition ps_wf :: "nat \<Rightarrow> ps_state \<Rightarrow> bool" where
  "ps_wf hmax st \<longleftrightarrow> thread_list st = rev [0..<length (ps_mem st)] \<and> thread_nr st = length (ps_mem st)
     \<and> (\<forall>name i. ps_hash st name = Some i \<longrightarrow> i < length (ps_mem st) \<and> ti_name (ps_mem st ! i) = name)
     \<and> ps_hused st = min hmax (length (ps_mem st))
     \<and> (length (ps_mem st) \<le> hmax \<longrightarrow> (\<forall>i < length (ps_mem st). ps_hash st (ti_name (ps_mem st ! i)) = Some i))"

lemma ps_wf_init: "ps_wf hmax ps_init"
  by (simp add: ps_wf_def ps_init_def)

lemma assign_name:
  "\<forall>f\<in>set setters. \<forall>v ti. ti_name (f v ti) = ti_name ti \<Longrightarrow> ti_name (assign setters vals ti) = ti_name ti"
proof (induction setters arbitrary: vals ti)
  case (Cons f fs)
  then show ?case by (cases vals) (auto simp: assign_def)
qed (simp add: assign_def)

lemma handlers_keep_name:
  "map_of collect_handlers base = Some handle \<Longrightarrow> ti_name (snd (handle ti buf)) = ti_name ti"
  by (auto simp: collect_handlers_def collect_sched_info_def collect_statistics_def collect_state_info_def
      collect_pid_def collect_timeout_def collect_wchan_def Let_def assign_name split: if_splits)

lemma ps_wfD:
  assumes "ps_wf hmax st"
  shows "thread_list st = rev [0..<length (ps_mem st)]" and "thread_nr st = length (ps_mem st)"
    and "ps_hash st name = Some i \<Longrightarrow> i < length (ps_mem st) \<and> ti_name (ps_mem st ! i) = name"
    and "ps_hused st = min hmax (length (ps_mem st))"
    and "length (ps_mem st) \<le> hmax \<Longrightarrow> i < length (ps_mem st) \<Longrightarrow> ps_hash st (ti_name (ps_mem st ! i)) = Some i"
  using assms unfolding ps_wf_def by blast+

lemma thread_entry_wf:
  assumes wf: "ps_wf hmax st" and e: "thread_entry hmax name st = (i, st')"
  shows "ps_wf hmax st'" and "i < length (ps_mem st')" and "ti_name (ps_mem st' ! i) = name"
proof -
  note W = ps_wfD[OF wf]
  have "ps_wf hmax st' \<and> i < length (ps_mem st') \<and> ti_name (ps_mem st' ! i) = name"
  proof (cases "ps_hash st name")
    case (Some j)
    then show ?thesis using e wf W(3)[OF Some] by (simp add: thread_entry_def)
  next
    case None
    let ?m = "ps_mem st" and ?new = "zero_info\<lparr>ti_name := name\<rparr>"
    have i: "i = length ?m" and mem: "ps_mem st' = ?m @ [?new]"
      and list: "thread_list st' = length ?m # thread_list st" "thread_nr st' = thread_nr st + 1"
      and hash: "ps_hash st' = (if ps_hused st < hmax then (ps_hash st)(name \<mapsto> length ?m) else ps_hash st)"
        "ps_hused st' = (if ps_hused st < hmax then ps_hused st + 1 else ps_hused st)"
      using e None by (auto simp: thread_entry_def Let_def)
    have found: "k < length (ps_mem st') \<and> ti_name (ps_mem st' ! k) = n" if "ps_hash st' n = Some k" for n k
      using that W(3)[of n k] by (auto simp: hash(1) mem nth_append split: if_splits)
    have all: "ps_hash st' (ti_name (ps_mem st' ! k)) = Some k"
      if "length (ps_mem st') \<le> hmax" "k < length (ps_mem st')" for k
    proof -
      have room: "ps_hused st < hmax" using that(1) W(4) mem by simp
      show ?thesis
      proof (cases "k < length ?m")
        case True
        then have "ps_hash st (ti_name (?m ! k)) = Some k" using W(5) that(1) mem by simp
        then show ?thesis using None True room by (auto simp: hash(1) mem nth_append)
      next
        case False
        then show ?thesis using that(2) room by (simp add: hash(1) mem nth_append)
      qed
    qed
    have used: "ps_hused st' = min hmax (length (ps_mem st'))" using W(4) by (simp add: hash(2) mem)
    have "ps_wf hmax st'"
      unfolding ps_wf_def using found all used W(1,2) by (simp add: list mem)
    then show ?thesis by (simp add: i mem)
  qed
  then show "ps_wf hmax st'" and "i < length (ps_mem st')" and "ti_name (ps_mem st' ! i) = name" by blast+
qed

lemma record_update_wf:
  assumes wf: "ps_wf hmax st" and "i < length (ps_mem st)" and name: "ti_name ti = ti_name (ps_mem st ! i)"
  shows "ps_wf hmax (st\<lparr>ps_mem := (ps_mem st)[i := ti]\<rparr>)"
proof -
  note W = ps_wfD[OF wf]
  have names: "ti_name ((ps_mem st)[i := ti] ! k) = ti_name (ps_mem st ! k)" for k
    using name assms(2) by (cases "k = i") simp_all
  show ?thesis unfolding ps_wf_def using W by (simp add: names)
qed

lemma scan_thread_wf:
  assumes "ps_wf hmax st"
  shows "ps_wf hmax (snd (scan_thread hmax parent node level st))"
proof (cases node)
  case (FsFile base sz content)
  show ?thesis
  proof (cases "level \<noteq> 2 \<or> sz = 0")
    case True
    then show ?thesis using assms FsFile by (simp add: scan_thread_def)
  next
    case level: False
    show ?thesis
    proof (cases "map_of collect_handlers base")
      case None
      then show ?thesis using assms FsFile by (simp add: scan_thread_def)
    next
      case (Some handle)
      obtain i st1 where e: "thread_entry hmax parent st = (i, st1)" by (cases "thread_entry hmax parent st")
      note E = thread_entry_wf[OF assms e]
      obtain ok ti where r: "(case Option.bind content (fgets sz) of None \<Rightarrow> (False, ps_mem st1 ! i)
          | Some buf \<Rightarrow> handle (ps_mem st1 ! i) (chop_newline buf)) = (ok, ti)" by fastforce
      then have "ti_name ti = ti_name (ps_mem st1 ! i)"
        using handlers_keep_name[OF Some, of "ps_mem st1 ! i"] by (metis (no_types, lifting) fst_conv snd_conv option.case_eq_if)
      then have "ps_wf hmax (st1\<lparr>ps_mem := (ps_mem st1)[i := ti\<lparr>ti_parse_ok := ok\<rparr>]\<rparr>)"
        by (intro record_update_wf E) simp
      then show ?thesis using level by (simp add: scan_thread_def FsFile Some Let_def e r)
    qed
  qed
qed (use assms in \<open>simp add: scan_thread_def\<close>)

lemma walk_wf:
  "ps_wf hmax st \<Longrightarrow> ps_wf hmax (walk_node hmax parent level node st)"
  "ps_wf hmax st \<Longrightarrow> ps_wf hmax (walk_nodes hmax parent level nodes st)"
proof (induction hmax parent level node st and hmax parent level nodes st rule: walk_node_walk_nodes.induct)
  case (2 hmax parent level base nodes st)
  obtain act st1 where s: "scan_thread hmax parent (FsDir base nodes) level st = (act, st1)" by fastforce
  then have "ps_wf hmax st1" using scan_thread_wf[OF 2(2), of parent "FsDir base nodes" level] by simp
  then show ?case using 2(1)[OF s[symmetric]] by (simp add: s)
qed (simp_all add: scan_thread_wf)

text \<open>
  C18.  Whatever tree of files is read, the list of threads holds every allocated record exactly once and
  its length is the number of threads; each entry of the hash table leads to the record of that
  name; no two records have the same name as long as the table has room for all of them.
\<close>

theorem threads_collected:
  assumes "st = collect_thread_info hmax root ps_init"
  shows "ps_wf hmax st \<and> distinct (thread_list st) \<and> thread_nr st = length (thread_list st)
    \<and> (if length (ps_mem st) \<le> hmax then distinct (map ti_name (ps_mem st)) else hmax = ps_hused st)"
proof -
  have wf: "ps_wf hmax st"
    unfolding assms collect_thread_info_def by (rule walk_wf(1)[OF ps_wf_init])
  note W = ps_wfD[OF wf]
  have "distinct (map ti_name (ps_mem st))" if "length (ps_mem st) \<le> hmax"
  proof (rule distinct_conv_nth[THEN iffD2], intro allI impI)
    fix i j assume "i < length (map ti_name (ps_mem st))" "j < length (map ti_name (ps_mem st))" "i \<noteq> j"
    then show "map ti_name (ps_mem st) ! i \<noteq> map ti_name (ps_mem st) ! j"
      using W(5)[OF that, of i] W(5)[OF that, of j] by auto
  qed
  then show ?thesis using wf W by simp
qed

theorem threads_collected_witness:
  "ps_wf 2 (collect_thread_info 2 (FsDir ''thread'' [FsDir ''clone'' [], FsDir ''t1'' [FsFile ''pid'' 4096 (Some ''17'')],
     FsDir ''t2'' [FsFile ''state'' 4096 (Some ''1a''), FsFile ''pid'' 4096 None]]) ps_init)"
  using threads_collected[OF refl] by blast

text \<open>When the table is full, the files of one thread make several records.\<close>

theorem full_table_duplicates:
  "map ti_name (ps_mem (collect_thread_info 0 (FsDir ''thread'' [FsDir ''t1''
     [FsFile ''pid'' 4096 None, FsFile ''wchan'' 4096 (Some ''-'')]]) ps_init)) = [''t1'', ''t1'']"
  by code_simp

text \<open>A record counts as parsed when the last file read for it was, whatever the others were.\<close>

theorem last_file_decides:
  "map ti_parse_ok (ps_mem (collect_thread_info 8 (FsDir ''thread'' [FsDir ''t1''
     [FsFile ''pid'' 4096 None, FsFile ''wchan'' 4096 (Some ''-'')]]) ps_init)) = [True]"
  by code_simp

text \<open>A line of statistics with all six numbers is refused, one without the last is accepted.\<close>

theorem six_statistics_refused:
  "fst (collect_statistics ti ''1 2 3 4 5 6'') = False" and "fst (collect_statistics ti ''1 2 3 4 5'') = True"
proof -
  have "length (sscanf [Conv_lu, Conv_lu, Conv_lu, Conv_lu, Conv_lu, Conv_d] ''1 2 3 4 5 6'') = 6"
    "length (sscanf [Conv_lu, Conv_lu, Conv_lu, Conv_lu, Conv_lu, Conv_d] ''1 2 3 4 5'') = 5"
    by (simp_all add: scan_conv_def isspace_def scan_number_digit scan_number_empty digit_in_def digit_value_def char_code_def)
  then show "fst (collect_statistics ti ''1 2 3 4 5 6'') = False" and "fst (collect_statistics ti ''1 2 3 4 5'') = True"
    by (simp_all add: collect_statistics_def Let_def)
qed

section \<open>Sorting\<close>

text \<open>The number a sort key stands for.\<close>

definition sort_value :: "s32 \<Rightarrow> thread_info \<Rightarrow> int" where
  "sort_value k ti =
     (let key = k AND NOT SORT_REVERSE in
      if key = SORT_BY_PCPU then sint (ti_percent_cpu ti)
      else if key = SORT_BY_ISW then int (unat (ti_nr_inbandsw ti))
      else if key = SORT_BY_CTXSW then int (unat (ti_nr_ctxsw ti))
      else if key = SORT_BY_RWA then int (unat (ti_nr_rwakeups ti))
      else if key = SORT_BY_CPUTIME then int (unat (ti_cpu_time ti))
      else sint (ti_pid ti))"

definition reversed :: "s32 \<Rightarrow> bool" where
  "reversed k \<longleftrightarrow> k AND SORT_REVERSE \<noteq> 0"

text \<open>A comparison function that \<^verbatim>\<open>qsort\<close> may be called with, and what it then does.\<close>

definition consistent :: "(nat \<Rightarrow> nat \<Rightarrow> s32) \<Rightarrow> nat set \<Rightarrow> bool" where
  "consistent cmp A \<longleftrightarrow> (\<forall>a\<in>A. \<forall>b\<in>A. (sint (cmp a b) < 0 \<longleftrightarrow> 0 < sint (cmp b a))
     \<and> (\<forall>c\<in>A. sint (cmp a b) \<le> 0 \<longrightarrow> sint (cmp b c) \<le> 0 \<longrightarrow> sint (cmp a c) \<le> 0))"

definition qsort_ok :: "((nat \<Rightarrow> nat \<Rightarrow> s32) \<Rightarrow> nat list \<Rightarrow> nat list) \<Rightarrow> bool" where
  "qsort_ok qs \<longleftrightarrow> (\<forall>cmp xs. consistent cmp (set xs) \<longrightarrow>
     mset (qs cmp xs) = mset xs \<and> sorted_wrt (\<lambda>a b. sint (cmp a b) \<le> 0) (qs cmp xs))"

lemma sint_word_of_int32: "- (2 ^ 31) \<le> x \<Longrightarrow> x < 2 ^ 31 \<Longrightarrow> sint (word_of_int x :: s32) = x"
  by (simp add: signed_of_int signed_take_bit_int_eq_self)

lemma word_of_int_sint32: "word_of_int (sint (x :: s32)) = x"
  by simp

lemma sint_minus32:
  assumes "0 \<le> sint (x :: s32)" and "0 \<le> sint y"
  shows "sint (x - y) = sint x - sint y"
proof -
  have b: "sint x < 2 ^ 31" "sint y < 2 ^ 31" using sint_lt[of x] sint_lt[of y] by simp_all
  have "x - y = word_of_int (sint x) - word_of_int (sint y)" by simp
  also have "\<dots> = word_of_int (sint x - sint y)" by (simp only: wi_hom_sub)
  finally show ?thesis using sint_word_of_int32[of "sint x - sint y"] assms b by simp
qed

lemma sint_ucast_minus:
  assumes "unat (x :: u64) < 2 ^ 31" and "unat (y :: u64) < 2 ^ 31"
  shows "sint (ucast (x - y) :: s32) = int (unat x) - int (unat y)"
proof -
  have b: "int (unat x) < 2 ^ 31" "int (unat y) < 2 ^ 31"
    using assms by (simp_all only: of_nat_less_numeral_power_cancel_iff)
  have "(ucast (x - y) :: s32) = word_of_int (uint x - uint y)"
  proof -
    have "(ucast (x - y) :: s32) = word_of_int (take_bit 64 (uint x - uint y))"
      by (simp only: unsigned_ucast_eq ucast_eq uint_word_ariths take_bit_eq_mod) simp
    also have "\<dots> = word_of_int (uint x - uint y)"
      by (simp only: word_of_int_eq_iff take_bit_take_bit) simp
    finally show ?thesis .
  qed
  also have "\<dots> = word_of_int (int (unat x) - int (unat y))" by (simp only: uint_nat[of x] uint_nat[of y])
  finally have eq: "(ucast (x - y) :: s32) = word_of_int (int (unat x) - int (unat y))" .
  show ?thesis unfolding eq by (rule sint_word_of_int32) (use b in linarith)+
qed

lemma sint_neg32:
  assumes "- (2 ^ 31) < sint (x :: s32)"
  shows "sint (- x) = - sint x"
proof -
  have "sint x < 2 ^ 31" using sint_lt[of x] by simp
  have "- x = - word_of_int (sint x)" by simp
  also have "\<dots> = word_of_int (- sint x)" by (simp only: wi_hom_neg)
  finally show ?thesis using sint_word_of_int32[of "- sint x"] assms \<open>sint x < 2 ^ 31\<close> by simp
qed

lemma compare_value:
  assumes "0 \<le> sort_value k l" "sort_value k l < 2 ^ 31" and "0 \<le> sort_value k r" "sort_value k r < 2 ^ 31"
  shows "sint (compare_info k l r)
    = (if reversed k then sort_value k r - sort_value k l else sort_value k l - sort_value k r)"
proof -
  let ?key = "k AND NOT SORT_REVERSE"
  have big: "sint (ucast (x - y) :: s32) = int (unat x) - int (unat y)"
    if "int (unat x) < 2 ^ 31" "int (unat y) < 2 ^ 31" for x y :: u64
    using that by (intro sint_ucast_minus) (simp_all only: of_nat_less_numeral_power_cancel_iff)
  define ret where "ret = (if ?key = SORT_BY_PCPU then ti_percent_cpu l - ti_percent_cpu r
    else if ?key = SORT_BY_ISW then ucast (ti_nr_inbandsw l - ti_nr_inbandsw r)
    else if ?key = SORT_BY_CTXSW then ucast (ti_nr_ctxsw l - ti_nr_ctxsw r)
    else if ?key = SORT_BY_RWA then ucast (ti_nr_rwakeups l - ti_nr_rwakeups r)
    else if ?key = SORT_BY_CPUTIME then ucast (ti_cpu_time l - ti_cpu_time r)
    else ti_pid l - ti_pid r)"
  have ret: "sint ret = sort_value k l - sort_value k r"
    using assms unfolding ret_def sort_value_def Let_def
    by (cases "?key = SORT_BY_PCPU"; cases "?key = SORT_BY_ISW"; cases "?key = SORT_BY_CTXSW";
        cases "?key = SORT_BY_RWA"; cases "?key = SORT_BY_CPUTIME";
        simp only: if_True if_False sint_minus32 big simp_thms)
  have "- (2 ^ 31) < sint ret" using ret assms by linarith
  then show ?thesis
    using ret sint_neg32[of ret] by (simp add: compare_info_def ret_def[symmetric] reversed_def Let_def)
qed

lemma compare_consistent:
  assumes "\<forall>i\<in>A. 0 \<le> sort_value k (m i) \<and> sort_value k (m i) < 2 ^ 31"
  shows "consistent (\<lambda>l r. compare_info k (m l) (m r)) A"
  using assms by (auto simp: consistent_def compare_value)

text \<open>
  C19.  After sorting, the list is a permutation of the records with the flag \<open>ti_parse_ok\<close>, that is, of those whose last file was read well
  (whether the files before it were or not), in ascending order of the sort key (descending with the option \<^verbatim>\<open>-S r\<close>), and its length is the number of
  threads, provided the keys are numbers of 31 bits, so that their differences fit an \<^verbatim>\<open>int\<close>, and \<^verbatim>\<open>qsort\<close>
  sorts.
\<close>

theorem sort_threads_correct:
  assumes "qsort_ok qsort" and "thread_nr st = length (thread_list st)"
    and "\<forall>i\<in>set (thread_list st). 0 \<le> sort_value k (ps_mem st ! i) \<and> sort_value k (ps_mem st ! i) < 2 ^ 31"
  shows "mset (thread_list (sort_thread_info qsort k st)) = {#i \<in># mset (thread_list st). ti_parse_ok (ps_mem st ! i)#}
    \<and> sorted_wrt (\<lambda>i j. if reversed k then sort_value k (ps_mem st ! j) \<le> sort_value k (ps_mem st ! i)
                        else sort_value k (ps_mem st ! i) \<le> sort_value k (ps_mem st ! j))
        (thread_list (sort_thread_info qsort k st))
    \<and> thread_nr (sort_thread_info qsort k st) = length (thread_list (sort_thread_info qsort k st))
    \<and> ps_mem (sort_thread_info qsort k st) = ps_mem st"
proof -
  let ?s = "filter (\<lambda>i. ti_parse_ok (ps_mem st ! i)) (thread_list st)"
  let ?cmp = "\<lambda>l r. compare_info k (ps_mem st ! l) (ps_mem st ! r)"
  let ?r = "qsort ?cmp ?s"
  have "consistent ?cmp (set ?s)" by (rule compare_consistent) (use assms(3) in auto)
  then have q: "mset ?r = mset ?s" "sorted_wrt (\<lambda>a b. sint (?cmp a b) \<le> 0) ?r"
    using assms(1) unfolding qsort_ok_def by blast+
  have set: "set ?r \<subseteq> set (thread_list st)" using q(1) by (metis filter_is_subset mset_eq_setD)
  have "sorted_wrt (\<lambda>i j. if reversed k then sort_value k (ps_mem st ! j) \<le> sort_value k (ps_mem st ! i)
      else sort_value k (ps_mem st ! i) \<le> sort_value k (ps_mem st ! j)) ?r"
  proof (rule sorted_wrt_mono_rel[OF _ q(2)])
    fix i j assume "i \<in> set ?r" "j \<in> set ?r" and le: "sint (?cmp i j) \<le> 0"
    then have "i \<in> set (thread_list st)" "j \<in> set (thread_list st)" using set by blast+
    then have "sint (?cmp i j) = (if reversed k then sort_value k (ps_mem st ! j) - sort_value k (ps_mem st ! i)
        else sort_value k (ps_mem st ! i) - sort_value k (ps_mem st ! j))"
      using assms(3) by (intro compare_value) blast+
    then show "if reversed k then sort_value k (ps_mem st ! j) \<le> sort_value k (ps_mem st ! i)
        else sort_value k (ps_mem st ! i) \<le> sort_value k (ps_mem st ! j)" using le by (simp split: if_splits)
  qed
  moreover have "length ?r = length ?s" using q(1) by (rule mset_eq_length)
  ultimately show ?thesis using assms(2) q(1)
    by (cases "thread_list st = []"; cases "?s = []") (simp_all add: sort_thread_info_def Let_def filter_empty_conv)
qed

text \<open>A sorting function for the witness: insertion by the comparison function.\<close>

fun insert_by :: "(nat \<Rightarrow> nat \<Rightarrow> s32) \<Rightarrow> nat \<Rightarrow> nat list \<Rightarrow> nat list" where
  "insert_by cmp x [] = [x]"
| "insert_by cmp x (y # ys) = (if sint (cmp x y) \<le> 0 then x # y # ys else y # insert_by cmp x ys)"

definition insertion_qsort :: "(nat \<Rightarrow> nat \<Rightarrow> s32) \<Rightarrow> nat list \<Rightarrow> nat list" where
  "insertion_qsort cmp xs = foldr (insert_by cmp) xs []"

lemma insert_by_mset: "mset (insert_by cmp x xs) = add_mset x (mset xs)"
  by (induction xs) auto

lemma insert_by_sorted:
  assumes "consistent cmp A" and "insert x (set xs) \<subseteq> A" and "sorted_wrt (\<lambda>a b. sint (cmp a b) \<le> 0) xs"
  shows "sorted_wrt (\<lambda>a b. sint (cmp a b) \<le> 0) (insert_by cmp x xs)"
  using assms(2,3)
proof (induction xs)
  case (Cons y ys)
  have tr: "sint (cmp a c) \<le> 0" if "sint (cmp a b) \<le> 0" "sint (cmp b c) \<le> 0" "a \<in> A" "b \<in> A" "c \<in> A" for a b c
    using assms(1) that unfolding consistent_def by blast
  show ?case
  proof (cases "sint (cmp x y) \<le> 0")
    case True
    then show ?thesis using Cons.prems tr by fastforce
  next
    case False
    then have "sint (cmp y x) < 0" using assms(1) Cons.prems(1) unfolding consistent_def by (meson insert_subset list.set_intros(1) not_le subset_iff)
    moreover have "set (insert_by cmp x ys) = insert x (set ys)"
      using arg_cong[OF insert_by_mset, of set_mset cmp x ys] by simp
    ultimately show ?thesis using False Cons by auto
  qed
qed simp

lemma insertion_qsort_ok: "qsort_ok insertion_qsort"
  unfolding qsort_ok_def
proof (intro allI impI)
  fix cmp xs assume c: "consistent cmp (set xs)"
  have "mset (foldr (insert_by cmp) ys []) = mset ys" for ys by (induction ys) (simp_all add: insert_by_mset)
  moreover have "sorted_wrt (\<lambda>a b. sint (cmp a b) \<le> 0) (foldr (insert_by cmp) ys [])" if "set ys \<subseteq> set xs" for ys
    using that
  proof (induction ys)
    case (Cons y ys)
    have "set (foldr (insert_by cmp) ys []) = set ys" using calculation[of ys] by (metis set_mset_mset)
    then show ?case using Cons insert_by_sorted[OF c, of y "foldr (insert_by cmp) ys []"] by simp
  qed simp
  ultimately show "mset (insertion_qsort cmp xs) = mset xs \<and> sorted_wrt (\<lambda>a b. sint (cmp a b) \<le> 0) (insertion_qsort cmp xs)"
    by (simp add: insertion_qsort_def)
qed

definition three_threads :: ps_state where
  "three_threads = \<lparr>ps_mem = [zero_info\<lparr>ti_pid := 30, ti_parse_ok := True\<rparr>, zero_info\<lparr>ti_pid := 10\<rparr>,
     zero_info\<lparr>ti_pid := 20, ti_parse_ok := True\<rparr>], ps_hash = Map.empty, ps_hused = 0, thread_list = [2, 1, 0], thread_nr = 3\<rparr>"

theorem sort_threads_correct_witness:
  "mset (thread_list (sort_thread_info insertion_qsort 0 three_threads)) = {#2, 0#}"
proof -
  have "\<forall>i\<in>set (thread_list three_threads). 0 \<le> sort_value 0 (ps_mem three_threads ! i) \<and> sort_value 0 (ps_mem three_threads ! i) < 2 ^ 31"
    by (simp add: three_threads_def sort_value_def SORT_BY_PCPU_def SORT_BY_ISW_def SORT_BY_CTXSW_def SORT_BY_RWA_def SORT_BY_CPUTIME_def)
  from sort_threads_correct[OF insertion_qsort_ok _ this] show ?thesis
    by (simp add: three_threads_def zero_info_def)
qed

text \<open>CPU times are nanoseconds: a thread that ran three seconds sorts before one that did not run,
  and one that ran \<open>2 ^ 32\<close> nanoseconds equals it.\<close>

theorem cpu_time_truncated:
  "sint (compare_info SORT_BY_CPUTIME (zero_info\<lparr>ti_cpu_time := 3000000000\<rparr>) zero_info) < 0"
  "compare_info SORT_BY_CPUTIME (zero_info\<lparr>ti_cpu_time := 4294967296\<rparr>) zero_info = 0"
  by (simp_all add: compare_info_def SORT_BY_CPUTIME_def SORT_REVERSE_def SORT_BY_PCPU_def SORT_BY_ISW_def SORT_BY_CTXSW_def SORT_BY_RWA_def zero_info_def)

section \<open>The list of CPUs read back\<close>

text \<open>
  C39.  A list of ranges of CPUs, each one no larger than the number of configured CPUs, written
  as \<^verbatim>\<open>a-b,c-d\<close> and read by \<open>build_cpu_mask\<close>, gives the union of the ranges.
\<close>

theorem cpu_list_roundtrip:
  assumes "\<forall>r\<in>set rs. fst r < n \<and> snd r < n" and "n \<le> CPU_SETSIZE"
  shows "build_cpu_mask (of_nat n) (show_ranges rs) = Some (\<Union>r\<in>set rs. {fst r..snd r})"
proof -
  have "sint (of_nat n :: s32) = int n" by (rule resolve_dec(2)) (use assms(2) in \<open>simp add: CPU_SETSIZE_def\<close>)
  then show ?thesis
    using ranges_parsed[OF assms, of "{}"] by (simp add: build_cpu_mask_def join_ranges_def)
qed

theorem cpu_list_roundtrip_witness:
  "build_cpu_mask 8 (show_ranges [(1, 2), (6, 6)]) = Some {1, 2, 6}"
proof -
  have "{1..2} \<union> {6..6} = {1, 2, 6 :: nat}" by auto
  then show ?thesis using cpu_list_roundtrip[of "[(1, 2), (6, 6)]" 8] by (simp add: CPU_SETSIZE_def insert_commute)
qed

end
