(* ===== verification/Evl_Check.thy ===== *)
theory Evl_Check
  imports C_Text
begin

text \<open>
  \<^verbatim>\<open>utils/evl-check.c\<close>: the check of a kernel configuration against a list of assertions.  The
  configuration is hashed by symbol; the assertions are read line by line.  The lines of a
  file are the strings that \<^verbatim>\<open>fgets\<close> returns one after the other.  An error that ends the
  program is \<open>Inl\<close> with the exit status.
\<close>

section \<open>The configuration\<close>

text \<open>The entries of the hash table, the room left in it, and the architecture read from the header.\<close>

record kconfig =
  kc_table :: "string \<Rightarrow> string option"
  kc_room :: nat
  kc_arch :: "string option"

text \<open>\<^verbatim>\<open>%m[^...]\<close>: a non-empty run of characters other than the one given.\<close>

definition scan_until :: "char \<Rightarrow> string \<Rightarrow> (string \<times> string) option" where
  "scan_until d s =
     (let t = takeWhile (\<lambda>c. c \<noteq> d) s in if t = [] then None else Some (t, dropWhile (\<lambda>c. c \<noteq> d) s))"

text \<open>\<^verbatim>\<open>sscanf(buf, "# Linux/%m[^ ]", &arch)\<close>: a blank of the format skips any white space.\<close>

definition scan_arch :: "string \<Rightarrow> string option" where
  "scan_arch buf =
     (let s = dropWhile isspace (drop 1 buf)
      in if take 1 buf = ''#'' \<and> take 6 s = ''Linux/'' then map_option fst (scan_until (CHR '' '') (drop 6 s)) else None)"

text \<open>\<^verbatim>\<open>sscanf(buf, "%m[^=]=%ms\n", &sym, &val)\<close> when it converts both.\<close>

definition scan_setting :: "string \<Rightarrow> (string \<times> string) option" where
  "scan_setting buf =
     (case scan_until (CHR ''='') buf of None \<Rightarrow> None
      | Some (symb, rest) \<Rightarrow>
          (case rest of [] \<Rightarrow> None
           | _ # rest \<Rightarrow> (case scan_conv Conv_s rest of Some (Val_s val, _) \<Rightarrow> Some (symb, val) | _ \<Rightarrow> None)))"

text \<open>\<^verbatim>\<open>strncmp(sym, "CONFIG_", 7) == 0\<close>.\<close>

definition is_config :: "string \<Rightarrow> bool" where
  "is_config symb \<longleftrightarrow> take 7 symb = ''CONFIG_''"

definition hash_line :: "string \<Rightarrow> kconfig \<Rightarrow> int + kconfig" where
  "hash_line buf kc =
     (if take 1 buf = ''#'' then
        Inr (case scan_arch buf of None \<Rightarrow> kc | Some arch \<Rightarrow> kc\<lparr>kc_arch := Some arch\<rparr>)
      else case scan_setting buf of None \<Rightarrow> Inr kc
      | Some (symb, val) \<Rightarrow>
          (if \<not> is_config symb then Inr kc
           else if val \<noteq> ''y'' \<and> val \<noteq> ''m'' then Inr kc
           else if kc_table kc symb \<noteq> None then Inr kc
           else if kc_room kc = 0 then Inl 1
           else Inr (kc\<lparr>kc_table := (kc_table kc)(symb \<mapsto> val), kc_room := kc_room kc - 1\<rparr>)))"

fun hash_lines :: "string list \<Rightarrow> kconfig \<Rightarrow> int + kconfig" where
  "hash_lines [] kc = Inr kc"
| "hash_lines (buf # bufs) kc = (case hash_line buf kc of Inl code \<Rightarrow> Inl code | Inr kc \<Rightarrow> hash_lines bufs kc)"

definition hash_config :: "nat \<Rightarrow> string list \<Rightarrow> int + kconfig" where
  "hash_config hash_size bufs = hash_lines bufs \<lparr>kc_table = Map.empty, kc_room = hash_size, kc_arch = None\<rparr>"

section \<open>The assertions\<close>

definition word_char :: "char \<Rightarrow> bool" where
  "word_char c \<longleftrightarrow> isalnum c \<or> c = CHR ''_''"

text \<open>The token and the text behind it.\<close>

definition next_token :: "string \<Rightarrow> string \<times> string" where
  "next_token p =
     (let p = dropWhile isspace p in
      case p of [] \<Rightarrow> ([], [])
      | c # q \<Rightarrow> (if \<not> word_char c then ([c], q)
                 else (takeWhile word_char p, dropWhile word_char p)))"

definition get_arch_alias :: "string \<Rightarrow> string" where
  "get_arch_alias arch = (if arch = ''arm64'' then ''aarch64'' else if arch = ''arm'' then ''aarch32'' else arch)"

text \<open>What one line leads to: nothing to check, an error, an assertion that holds, or one that
  fails, with the message about it.\<close>

datatype verdict = Skipped | Malformed | Holds | Failed string

definition starts_with :: "char \<Rightarrow> string \<Rightarrow> bool" where
  "starts_with c token \<longleftrightarrow> take 1 token = [c]"

text \<open>The last part: the symbol against the table.\<close>

definition judge :: "kconfig \<Rightarrow> bool \<Rightarrow> string \<Rightarrow> string option \<Rightarrow> verdict" where
  "judge kc neg symb val =
     (let e = kc_table kc symb;
          neg = (if val = Some ''n'' then \<not> neg else neg)
      in case e of
           Some data \<Rightarrow> (if neg \<or> (val \<noteq> None \<and> val \<noteq> Some data) then Failed (symb @ ''='' @ data @ [NL]) else Holds)
         | None \<Rightarrow> (if \<not> neg then Failed (symb @ ''=n'' @ [NL]) else Holds))"

text \<open>The part from \<^verbatim>\<open>on\<close>.\<close>

definition check_arch :: "kconfig \<Rightarrow> string \<Rightarrow> bool \<Rightarrow> string \<Rightarrow> string option \<Rightarrow> string \<Rightarrow> string \<Rightarrow> verdict" where
  "check_arch kc cpuarch neg symb val token nxt =
     (if token = ''on'' then
        (let (token, nxt) = next_token nxt; arch = get_arch_alias token
         in if take (length arch) cpuarch \<noteq> arch then Skipped else judge kc neg symb val)
      else judge kc neg symb val)"

text \<open>The part from \<^verbatim>\<open>if\<close>.\<close>

definition check_condition :: "kconfig \<Rightarrow> string \<Rightarrow> bool \<Rightarrow> string \<Rightarrow> string option \<Rightarrow> string \<Rightarrow> string \<Rightarrow> verdict" where
  "check_condition kc cpuarch neg symb val token nxt =
     (if token = ''if'' then
        (let (token, nxt) = next_token nxt;
             notcond = starts_with (CHR ''!'') token;
             (token, nxt) = (if notcond then next_token nxt else (token, nxt));
             e = kc_table kc token \<noteq> None
         in if \<not> is_config token then Malformed
            else if \<not> ((e \<and> \<not> notcond) \<or> (\<not> e \<and> notcond)) then Skipped
            else let (token, nxt) = next_token nxt in check_arch kc cpuarch neg symb val token nxt)
      else check_arch kc cpuarch neg symb val token nxt)"

definition check_line :: "kconfig \<Rightarrow> string \<Rightarrow> string \<Rightarrow> verdict" where
  "check_line kc cpuarch buf =
     (let (token, nxt) = next_token buf in
      if token = [] \<or> token = ''#'' then Skipped
      else let neg = starts_with (CHR ''!'') token;
               (symb, nxt) = (if neg then next_token nxt else (token, nxt))
           in if \<not> is_config symb then Malformed
              else let (token, nxt) = next_token nxt;
                       (val, token, nxt) =
                         (if starts_with (CHR ''='') token then
                            (let (val, nxt) = next_token nxt; (token, nxt) = next_token nxt in (Some val, token, nxt))
                          else (None, token, nxt))
                   in check_condition kc cpuarch neg symb val token nxt)"

text \<open>The number of failed assertions and the output, or the line that is malformed.\<close>

fun check_lines :: "kconfig \<Rightarrow> string \<Rightarrow> string list \<Rightarrow> nat \<Rightarrow> nat \<Rightarrow> string \<Rightarrow> nat + nat \<times> string" where
  "check_lines kc cpuarch [] lineno failed out = Inr (failed, out)"
| "check_lines kc cpuarch (buf # bufs) lineno failed out =
     (case check_line kc cpuarch buf of
        Malformed \<Rightarrow> Inl (lineno + 1)
      | Failed msg \<Rightarrow> check_lines kc cpuarch bufs (lineno + 1) (failed + 1) (out @ msg)
      | _ \<Rightarrow> check_lines kc cpuarch bufs (lineno + 1) failed out)"

definition apply_checklist :: "bool \<Rightarrow> kconfig \<Rightarrow> string list \<Rightarrow> string \<Rightarrow> nat + nat \<times> string" where
  "apply_checklist quiet kc bufs cpuarch =
     map_sum id (\<lambda>(failed, out). (failed, if quiet then [] else out)) (check_lines kc cpuarch bufs 0 0 [])"

section \<open>The program\<close>

text \<open>Does the name end with \<^verbatim>\<open>.gz\<close>, at the first place where this occurs?\<close>

fun is_gzip :: "string \<Rightarrow> bool" where
  "is_gzip [] = False"
| "is_gzip (c # cs) = (if take 3 (c # cs) = ''.gz'' then c # cs = ''.gz'' else is_gzip cs)"

record check_config =
  ck_kconfig :: string
  ck_check_list :: "string option"
  ck_arch :: "string option"
  ck_hash_size :: s32
  ck_quiet :: bool

definition check_defaults :: check_config where
  "check_defaults = \<lparr>ck_kconfig = ''/proc/config.gz'', ck_check_list = None, ck_arch = None, ck_hash_size = 16384, ck_quiet = False\<rparr>"

definition check_option :: "char \<times> string \<Rightarrow> check_config \<Rightarrow> int + check_config" where
  "check_option opt cfg =
     (let (c, optarg) = opt in
      if c = CHR ''f'' then Inr (cfg\<lparr>ck_kconfig := optarg\<rparr>)
      else if c = CHR ''L'' then Inr (cfg\<lparr>ck_check_list := Some optarg\<rparr>)
      else if c = CHR ''a'' then Inr (cfg\<lparr>ck_arch := Some optarg\<rparr>)
      else if c = CHR ''H'' then
        Inr (cfg\<lparr>ck_hash_size := (if sint (atoi optarg) < 16384 then 16384 else atoi optarg)\<rparr>)
      else if c = CHR ''q'' then Inr (cfg\<lparr>ck_quiet := True\<rparr>)
      else if c = CHR ''h'' \<or> c = CHR ''@'' then Inl 0
      else Inl 1)"

fun check_options :: "(char \<times> string) list \<Rightarrow> check_config \<Rightarrow> int + check_config" where
  "check_options [] cfg = Inr cfg"
| "check_options (opt # opts) cfg =
     (case check_option opt cfg of Inl code \<Rightarrow> Inl code | Inr cfg \<Rightarrow> check_options opts cfg)"

text \<open>The architecture: the argument of \<^verbatim>\<open>-a\<close>, the header of the configuration, or the machine name
  that \<^verbatim>\<open>uname\<close> returns.\<close>

definition pick_arch :: "string option \<Rightarrow> string option \<Rightarrow> string option \<Rightarrow> string option" where
  "pick_arch arch defarch machine =
     (case arch of None \<Rightarrow> (case defarch of Some a \<Rightarrow> Some (get_arch_alias a) | None \<Rightarrow> machine)
      | Some a \<Rightarrow> Some (get_arch_alias a))"

text \<open>What the program finds: the lines of a file (of \<^verbatim>\<open>gunzip -c\<close> when the flag is set; \<^verbatim>\<open>-\<close> is the
  standard input), the directory of the commands, the machine name.  The result is the exit
  status before it is cut to eight bits, and the output of the check.\<close>

definition check_main :: "(bool \<Rightarrow> string \<Rightarrow> string list option) \<Rightarrow> string option \<Rightarrow> string option
    \<Rightarrow> (char \<times> string) list \<Rightarrow> nat \<Rightarrow> int \<times> string" where
  "check_main file cmddir machine opts nr_args =
     (case check_options opts check_defaults of Inl code \<Rightarrow> (code, [])
      | Inr cfg \<Rightarrow>
          (if 0 < nr_args then (1, [])
           else case file (ck_kconfig cfg \<noteq> ''-'' \<and> is_gzip (ck_kconfig cfg)) (ck_kconfig cfg) of None \<Rightarrow> (1, [])
           | Some conf \<Rightarrow>
               (case hash_config (unat (ck_hash_size cfg)) conf of Inl code \<Rightarrow> (code, [])
                | Inr kc \<Rightarrow>
                    (case (case ck_check_list cfg of Some l \<Rightarrow> Some l
                           | None \<Rightarrow> map_option (\<lambda>d. d @ ''/'' @ ''kconf-checklist.evl'') cmddir) of None \<Rightarrow> (1, [])
                     | Some path \<Rightarrow>
                         (case file False path of None \<Rightarrow> (1, [])
                          | Some bufs \<Rightarrow>
                              (case pick_arch (ck_arch cfg) (kc_arch kc) machine of None \<Rightarrow> (1, [])
                               | Some arch \<Rightarrow>
                                   (case apply_checklist (ck_quiet cfg) kc bufs arch of Inl _ \<Rightarrow> (1, [])
                                    | Inr (failed, out) \<Rightarrow> (int failed, out))))))))"

end
