(* ===== verification/Evl_Check_Correct.thy ===== *)
theory Evl_Check_Correct
  imports Evl_Check
begin

text \<open>
  The check list: an assertion written in the notation that the head of
  \<^verbatim>\<open>utils/kconf-checklist.evl\<close> describes is judged by its meaning, the negation of one with a value apart; the tokens of a line; the table of
  the configuration.
\<close>

section \<open>Tokens\<close>

lemma word_not_space: "word_char c \<Longrightarrow> \<not> isspace c"
  by (auto simp: word_char_def isspace_def isalnum_def isalpha_def isdigit_def char_code_def)

lemma next_token_space: "isspace c \<Longrightarrow> next_token (c # s) = next_token s"
  by (simp add: next_token_def)

lemma next_token_punct: "\<not> isspace c \<Longrightarrow> \<not> word_char c \<Longrightarrow> next_token (c # s) = ([c], s)"
  by (simp add: next_token_def)

lemma next_token_word:
  assumes "w \<noteq> []" and "\<forall>c\<in>set w. word_char c" and "rest = [] \<or> \<not> word_char (hd rest)"
  shows "next_token (w @ rest) = (w, rest)"
proof -
  obtain c cs where w: "w = c # cs" using assms(1) by (cases w) auto
  have c: "word_char c" "\<not> isspace c" using assms(2) w word_not_space by auto
  have "takeWhile word_char (w @ rest) = w" "dropWhile word_char (w @ rest) = rest"
    using assms by (cases rest; simp add: takeWhile_append2 dropWhile_append2)+
  then show ?thesis using c by (simp add: next_token_def w)
qed

text \<open>
  A token of a line is empty only at its end; otherwise it is one character that belongs to no
  word, or a longest run of letters, digits and underscores.  Only white space is skipped before it, and what follows it is kept.
\<close>

theorem next_token_shape:
  "\<exists>gap. line = gap @ fst (next_token line) @ snd (next_token line) \<and> list_all isspace gap
    \<and> (case fst (next_token line) of
         [] \<Rightarrow> snd (next_token line) = []
       | c # cs \<Rightarrow> (if word_char c
                   then list_all word_char cs \<and> (snd (next_token line) = [] \<or> \<not> word_char (hd (snd (next_token line))))
                   else cs = [] \<and> \<not> isspace c))"
proof -
  define p where "p = dropWhile isspace line"
  have line: "line = takeWhile isspace line @ p" by (simp add: p_def)
  have gap: "list_all isspace (takeWhile isspace line)" by (auto simp: list_all_iff dest: set_takeWhileD)
  show ?thesis
  proof (cases p)
    case Nil
    have "next_token line = ([], [])" unfolding next_token_def Let_def p_def[symmetric] Nil by simp
    then show ?thesis using line gap Nil by (intro exI[of _ "takeWhile isspace line"]) simp
  next
    case (Cons c q)
    have c: "\<not> isspace c" using Cons hd_dropWhile[of isspace line] unfolding p_def by (metis list.discI list.sel(1))
    have n: "next_token line = (if \<not> word_char c then ([c], q) else (takeWhile word_char p, dropWhile word_char p))"
      using Cons by (simp add: next_token_def p_def)
    have tail: "dropWhile word_char q = [] \<or> \<not> word_char (hd (dropWhile word_char q))" using hd_dropWhile by blast
    have "list_all word_char (takeWhile word_char q)" by (auto simp: list_all_iff dest: set_takeWhileD)
    then show ?thesis using line gap n c tail Cons
      by (intro exI[of _ "takeWhile isspace line"]) (cases "word_char c"; simp)
  qed
qed

section \<open>Assertions\<close>

record assertion =
  as_neg :: bool
  as_symbol :: string
  as_value :: "string option"
  as_cond :: "(bool \<times> string) option"
  as_arch :: "string option"

definition word :: "string \<Rightarrow> bool" where
  "word w \<longleftrightarrow> w \<noteq> [] \<and> (\<forall>c\<in>set w. word_char c)"

definition well_formed :: "assertion \<Rightarrow> bool" where
  "well_formed a \<longleftrightarrow> word (as_symbol a) \<and> is_config (as_symbol a)
     \<and> (case as_value a of None \<Rightarrow> True | Some v \<Rightarrow> v = ''y'' \<or> v = ''m'' \<or> v = ''n'')
     \<and> (case as_cond a of None \<Rightarrow> True | Some (_, s) \<Rightarrow> word s \<and> is_config s)
     \<and> (case as_arch a of None \<Rightarrow> True | Some m \<Rightarrow> word m)"

definition show_value :: "string option \<Rightarrow> string" where
  "show_value v = (case v of None \<Rightarrow> [] | Some v \<Rightarrow> CHR ''='' # v)"

definition show_cond :: "(bool \<times> string) option \<Rightarrow> string" where
  "show_cond c = (case c of None \<Rightarrow> [] | Some (neg, s) \<Rightarrow> '' if '' @ (if neg then ''!'' else []) @ s)"

definition show_arch :: "string option \<Rightarrow> string" where
  "show_arch m = (case m of None \<Rightarrow> [] | Some m \<Rightarrow> '' on '' @ m)"

definition show_assertion :: "assertion \<Rightarrow> string" where
  "show_assertion a = (if as_neg a then ''!'' else []) @ as_symbol a @ show_value (as_value a)
     @ show_cond (as_cond a) @ show_arch (as_arch a) @ [NL]"

text \<open>The meaning: does the assertion apply, and does it hold?\<close>

definition applies :: "kconfig \<Rightarrow> string \<Rightarrow> assertion \<Rightarrow> bool" where
  "applies kc cpuarch a \<longleftrightarrow>
     (case as_cond a of None \<Rightarrow> True | Some (neg, s) \<Rightarrow> neg \<longleftrightarrow> kc_table kc s = None)
     \<and> (case as_arch a of None \<Rightarrow> True | Some m \<Rightarrow> take (length (get_arch_alias m)) cpuarch = get_arch_alias m)"

definition asserted :: "kconfig \<Rightarrow> assertion \<Rightarrow> bool" where
  "asserted kc a \<longleftrightarrow> as_neg a \<noteq>
     (case as_value a of None \<Rightarrow> kc_table kc (as_symbol a) \<noteq> None
      | Some v \<Rightarrow> (if v = ''n'' then kc_table kc (as_symbol a) = None else kc_table kc (as_symbol a) = Some v))"

definition message :: "kconfig \<Rightarrow> string \<Rightarrow> string" where
  "message kc s = s @ CHR ''='' # (case kc_table kc s of None \<Rightarrow> ''n'' | Some v \<Rightarrow> v) @ [NL]"

lemma special_chars:
  "\<not> word_char (CHR '' '')" "\<not> word_char (CHR ''!'')" "\<not> word_char (CHR ''='')" "\<not> word_char NL"
  "isspace (CHR '' '')" "isspace NL" "\<not> isspace (CHR ''!'')" "\<not> isspace (CHR ''='')"
  "word_char (CHR ''i'')" "word_char (CHR ''f'')" "word_char (CHR ''o'')" "word_char (CHR ''n'')"
  "word_char (CHR ''y'')" "word_char (CHR ''m'')"
  by (simp_all add: word_char_def isalnum_def isalpha_def isdigit_def char_code_def isspace_def NL_def)

lemma word_first: "word w \<Longrightarrow> starts_with c w \<Longrightarrow> word_char c"
  by (cases w) (auto simp: word_def starts_with_def)

lemma word_token: "word w \<Longrightarrow> \<not> word_char d \<Longrightarrow> next_token (w @ d # rest) = (w, d # rest)"
  by (rule next_token_word) (auto simp: word_def)

lemma on_token: "next_token (CHR '' '' # CHR ''o'' # CHR ''n'' # CHR '' '' # s) = (''on'', CHR '' '' # s)"
  and if_token: "next_token (CHR '' '' # CHR ''i'' # CHR ''f'' # CHR '' '' # s) = (''if'', CHR '' '' # s)"
  using word_token[of "''on''" "CHR '' ''" s] word_token[of "''if''" "CHR '' ''" s]
  by (simp_all add: next_token_space special_chars word_def)

lemma end_token: "next_token [NL] = ([], [])"
  by (simp add: next_token_space special_chars) (simp add: next_token_def)

text \<open>The tail of a line starts with a blank or ends it.\<close>

lemma arch_start: "\<exists>d rest. \<not> word_char d \<and> show_arch m @ [NL] = d # rest"
  by (cases m) (auto simp: show_arch_def special_chars)

lemma cond_start: "\<exists>d rest. \<not> word_char d \<and> show_cond c @ show_arch m @ [NL] = d # rest"
  using arch_start[of m] by (cases c) (auto simp: show_cond_def special_chars)

lemma arch_checked:
  assumes "case m of None \<Rightarrow> True | Some m \<Rightarrow> word m" and "next_token (show_arch m @ [NL]) = (t, s)"
  shows "check_arch kc cpuarch neg symb val t s
    = (if case m of None \<Rightarrow> True | Some m \<Rightarrow> take (length (get_arch_alias m)) cpuarch = get_arch_alias m
       then judge kc neg symb val else Skipped)"
proof (cases m)
  case None
  then show ?thesis using assms(2) by (simp add: show_arch_def end_token check_arch_def)
next
  case (Some a)
  then have "t = ''on''" "s = '' '' @ a @ [NL]" using assms(2) on_token[of "a @ [NL]"] by (simp_all add: show_arch_def)
  moreover have "next_token (a @ [NL]) = (a, [NL])" using assms(1) Some by (intro word_token) (simp_all add: special_chars)
  ultimately show ?thesis using Some by (simp add: check_arch_def next_token_space special_chars)
qed

lemma cond_checked:
  assumes "case c of None \<Rightarrow> True | Some (_, s) \<Rightarrow> word s \<and> is_config s" and "case m of None \<Rightarrow> True | Some m \<Rightarrow> word m"
    and "next_token (show_cond c @ show_arch m @ [NL]) = (t, s)"
  shows "check_condition kc cpuarch neg symb val t s
    = (if (case c of None \<Rightarrow> True | Some (neg, s) \<Rightarrow> neg \<longleftrightarrow> kc_table kc s = None)
         \<and> (case m of None \<Rightarrow> True | Some m \<Rightarrow> take (length (get_arch_alias m)) cpuarch = get_arch_alias m)
       then judge kc neg symb val else Skipped)"
proof (cases c)
  case None
  have "t \<noteq> ''if''"
  proof (cases m)
    case None
    then show ?thesis using assms(3) \<open>c = None\<close> by (auto simp: show_cond_def show_arch_def end_token)
  next
    case (Some a)
    then show ?thesis using assms(3) \<open>c = None\<close> on_token[of "a @ [NL]"] by (auto simp: show_cond_def show_arch_def)
  qed
  then show ?thesis using None assms(3) arch_checked[OF assms(2)] by (simp add: check_condition_def show_cond_def)
next
  case (Some p)
  obtain n u where p: "p = (n, u)" by (cases p)
  have u: "word u" "is_config u" using assms(1) Some p by simp_all
  obtain d rest where d: "\<not> word_char d" "show_arch m @ [NL] = d # rest" using arch_start by blast
  have u_token: "next_token (u @ show_arch m @ [NL]) = (u, show_arch m @ [NL])" unfolding d(2) by (rule word_token[OF u(1) d(1)])
  obtain t' s' where a: "next_token (show_arch m @ [NL]) = (t', s')" by (cases "next_token (show_arch m @ [NL])")
  have ts: "t = ''if''" "s = '' '' @ (if n then ''!'' else []) @ u @ show_arch m @ [NL]"
    using assms(3) if_token[of "(if n then ''!'' else []) @ u @ show_arch m @ [NL]"] Some p by (simp_all add: show_cond_def)
  have first: "next_token s = (if n then (''!'', u @ show_arch m @ [NL]) else (u, show_arch m @ [NL]))"
    unfolding ts using u_token by (simp add: next_token_space special_chars next_token_punct)
  have "\<not> starts_with (CHR ''!'') u" using word_first[OF u(1)] special_chars(2) by blast
  moreover have "starts_with (CHR ''!'') ''!''" by (simp add: starts_with_def)
  ultimately show ?thesis using first u_token u(2) a arch_checked[OF assms(2) a] Some p
    by (cases n) (auto simp: check_condition_def ts(1))
qed

lemma value_tokens:
  assumes "case v of None \<Rightarrow> True | Some v \<Rightarrow> v = ''y'' \<or> v = ''m'' \<or> v = ''n''" and "\<not> word_char d"
    and n: "next_token (d # rest) = (t, s)" and t: "\<not> starts_with (CHR ''='') t"
  shows "(let (token, nxt) = next_token (show_value v @ d # rest) in
      if starts_with (CHR ''='') token then
        (let (val, nxt) = next_token nxt; (token, nxt) = next_token nxt in (Some val, token, nxt))
      else (None, token, nxt)) = (v, t, s)"
proof (cases v)
  case None
  then show ?thesis using n t by (simp add: show_value_def)
next
  case (Some w)
  then have "word w" using assms(1) by (auto simp: word_def special_chars)
  then have "next_token (w @ d # rest) = (w, d # rest)" by (rule word_token[OF _ assms(2)])
  then show ?thesis using Some n
    by (simp add: show_value_def next_token_punct special_chars starts_with_def)
qed

lemma check_line_shown:
  assumes wf: "well_formed a"
  shows "check_line kc cpuarch (show_assertion a)
    = (if applies kc cpuarch a then judge kc (as_neg a) (as_symbol a) (as_value a) else Skipped)"
proof -
  let ?y = "as_symbol a" and ?tail = "show_cond (as_cond a) @ show_arch (as_arch a) @ [NL]"
  have y: "word ?y" "is_config ?y" using wf by (simp_all add: well_formed_def)
  obtain d rest where d: "\<not> word_char d" "?tail = d # rest" using cond_start by blast
  obtain d' rest' where d': "\<not> word_char d'" "show_value (as_value a) @ ?tail = d' # rest'"
    using that[of d rest] that[OF special_chars(3)] d by (cases "as_value a") (simp_all add: show_value_def)
  have y_token: "next_token (?y @ show_value (as_value a) @ ?tail) = (?y, show_value (as_value a) @ ?tail)"
    unfolding d'(2) by (rule word_token[OF y(1) d'(1)])
  obtain t s where ts: "next_token ?tail = (t, s)" by (cases "next_token ?tail")
  have "\<not> starts_with (CHR ''='') t"
  proof -
    have "t = [] \<or> t = ''if'' \<or> t = ''on''"
      using ts if_token on_token end_token by (auto simp: show_cond_def show_arch_def split: option.splits prod.splits)
    then show ?thesis by (auto simp: starts_with_def)
  qed
  from value_tokens[OF _ d(1) ts[unfolded d(2)] this, of "as_value a"] wf
  have v: "(let (token, nxt) = next_token (show_value (as_value a) @ ?tail) in
      if starts_with (CHR ''='') token then
        (let (val, nxt) = next_token nxt; (token, nxt) = next_token nxt in (Some val, token, nxt))
      else (None, token, nxt)) = (as_value a, t, s)"
    by (simp add: d(2) well_formed_def)
  have first: "next_token (show_assertion a) =
    (if as_neg a then (''!'', ?y @ show_value (as_value a) @ ?tail) else (?y, show_value (as_value a) @ ?tail))"
    using y_token by (simp add: show_assertion_def next_token_punct special_chars)
  have "\<not> starts_with (CHR ''!'') ?y" using word_first[OF y(1)] special_chars(2) by blast
  moreover have "?y \<noteq> ''#''" "?y \<noteq> []" using y(2) by (auto simp: is_config_def)
  moreover have "starts_with (CHR ''!'') ''!''" by (simp add: starts_with_def)
  moreover have "check_condition kc cpuarch neg ?y (as_value a) t s
      = (if applies kc cpuarch a then judge kc neg ?y (as_value a) else Skipped)" for neg
    using cond_checked[OF _ _ ts, of kc cpuarch neg ?y "as_value a"] wf by (simp add: well_formed_def applies_def)
  ultimately show ?thesis using first y_token y(2) v
    by (cases "as_neg a") (simp_all add: check_line_def split_beta Let_def)
qed

section \<open>The table of the configuration\<close>

definition show_setting :: "string \<times> string \<Rightarrow> string" where
  "show_setting p = fst p @ ''='' @ snd p @ [NL]"

definition setting :: "string \<times> string \<Rightarrow> bool" where
  "setting p \<longleftrightarrow> is_config (fst p) \<and> (\<forall>c\<in>set (fst p). c \<noteq> CHR ''='') \<and> snd p \<noteq> [] \<and> (\<forall>c\<in>set (snd p). \<not> isspace c)"

definition enabled :: "string \<times> string \<Rightarrow> bool" where
  "enabled p \<longleftrightarrow> snd p = ''y'' \<or> snd p = ''m''"

lemma scan_setting_shown:
  assumes "setting p"
  shows "scan_setting (show_setting p) = Some p" and "take 1 (show_setting p) \<noteq> ''#''"
proof -
  have conf: "is_config (fst p)" using assms by (simp add: setting_def)
  then have "fst p \<noteq> []" by (cases "fst p") (simp_all add: is_config_def)
  then have c: "is_config (fst p)" "fst p \<noteq> []" "\<forall>c\<in>set (fst p). c \<noteq> CHR ''=''" "snd p \<noteq> []" "\<forall>c\<in>set (snd p). \<not> isspace c"
    using assms by (simp_all add: setting_def)
  have "scan_until (CHR ''='') (show_setting p) = Some (fst p, CHR ''='' # snd p @ [NL])"
    using c(2,3) by (simp add: scan_until_def show_setting_def takeWhile_append2 dropWhile_append2)
  moreover have "dropWhile isspace (snd p @ [NL]) = snd p @ [NL]" using c(4,5) by (cases "snd p") auto
  moreover have "takeWhile (\<lambda>c. \<not> isspace c) (snd p @ [NL]) = snd p"
    using c(5) by (simp add: takeWhile_append2 special_chars)
  ultimately show "scan_setting (show_setting p) = Some p"
    using c(4,5) by (cases p; cases "snd p") (simp_all add: scan_setting_def scan_conv_def Let_def)
  show "take 1 (show_setting p) \<noteq> ''#''"
    using c(1,2) by (cases "fst p") (simp_all add: show_setting_def is_config_def)
qed

text \<open>The values in the table are the two the code enters.\<close>

definition kc_values :: "kconfig \<Rightarrow> bool" where
  "kc_values kc \<longleftrightarrow> (\<forall>s v. kc_table kc s = Some v \<longrightarrow> v = ''y'' \<or> v = ''m'')"

lemma kc_values_arch: "kc_values (kc\<lparr>kc_arch := a\<rparr>) \<longleftrightarrow> kc_values kc"
  by (simp add: kc_values_def)

lemma kc_values_enter:
  "kc_values kc \<Longrightarrow> v = ''y'' \<or> v = ''m'' \<Longrightarrow> kc_values (kc\<lparr>kc_table := (kc_table kc)(s \<mapsto> v), kc_room := n\<rparr>)"
  by (simp add: kc_values_def)

lemma hash_line_values: "hash_line buf kc = Inr kc' \<Longrightarrow> kc_values kc \<Longrightarrow> kc_values kc'"
  by (auto simp: hash_line_def kc_values_arch kc_values_enter split: if_split_asm option.splits)

lemma hash_lines_values: "hash_lines bufs kc = Inr kc' \<Longrightarrow> kc_values kc \<Longrightarrow> kc_values kc'"
  by (induction bufs kc rule: hash_lines.induct) (auto split: sum.splits dest: hash_line_values)

lemma hash_config_values: "hash_config n bufs = Inr kc \<Longrightarrow> kc_values kc"
  unfolding hash_config_def by (erule hash_lines_values) (simp add: kc_values_def)

lemma hash_line_shown:
  assumes "setting p" and "0 < kc_room kc"
  shows "hash_line (show_setting p) kc = Inr (if enabled p \<and> kc_table kc (fst p) = None
    then kc\<lparr>kc_table := (kc_table kc)(fst p \<mapsto> snd p), kc_room := kc_room kc - 1\<rparr> else kc)"
  using scan_setting_shown[OF assms(1)] assms by (cases p) (auto simp: hash_line_def setting_def enabled_def)

text \<open>
  C40. Reading the lines of a configuration leaves in the table exactly the symbols set to y or m,
  each with its first value, as long as the table has room.
\<close>

theorem hash_config_correct:
  assumes "\<forall>p\<in>set ps. setting p" and "length ps \<le> hash_size"
  shows "map_sum id kc_table (hash_config hash_size (map show_setting ps)) = Inr (map_of (filter enabled ps))"
proof -
  have step: "map_sum id kc_table (hash_lines (map show_setting qs) kc) = Inr (map_of (filter enabled qs) ++ kc_table kc)"
    if "\<forall>p\<in>set qs. setting p" "length qs \<le> kc_room kc" for qs kc
    using that
  proof (induction qs arbitrary: kc)
    case (Cons p qs)
    have p: "setting p" using Cons.prems by simp
    have line: "hash_line (show_setting p) kc = Inr (if enabled p \<and> kc_table kc (fst p) = None
        then kc\<lparr>kc_table := (kc_table kc)(fst p \<mapsto> snd p), kc_room := kc_room kc - 1\<rparr> else kc)"
      using Cons.prems(2) by (intro hash_line_shown[OF p]) simp
    have map: "map_of (filter enabled (p # qs)) ++ kc_table kc
        = map_of (filter enabled qs) ++ (if enabled p \<and> kc_table kc (fst p) = None then (kc_table kc)(fst p \<mapsto> snd p) else kc_table kc)"
      by (rule ext) (cases p, auto simp: map_add_def split: option.splits)
    show ?case unfolding map using Cons.IH Cons.prems by (simp add: line fun_upd_def)
  qed simp
  show ?thesis using step[OF assms(1), of "\<lparr>kc_table = Map.empty, kc_room = hash_size, kc_arch = None\<rparr>"] assms(2)
    by (simp add: hash_config_def)
qed

theorem hash_config_correct_witness:
  "map_sum id kc_table (hash_config 16384 (map show_setting [(''CONFIG_EVL'', ''y''), (''CONFIG_HZ'', ''250''), (''CONFIG_SMP'', ''m'')]))
    = Inr [''CONFIG_EVL'' \<mapsto> ''y'', ''CONFIG_SMP'' \<mapsto> ''m'']"
proof -
  have s: "\<forall>p\<in>set [(''CONFIG_EVL'', ''y''), (''CONFIG_HZ'', ''250''), (''CONFIG_SMP'', ''m'')]. setting p"
    by (simp add: setting_def is_config_def isspace_def)
  show ?thesis using hash_config_correct[OF s, of 16384] by (simp add: enabled_def fun_upd_twist)
qed

section \<open>The list\<close>

text \<open>
  An assertion that applies is reported when it does not hold.  There is one more case, in which the code departs from the meaning: the negation
  of an assertion with a value is reported whenever the symbol is set, to whichever value.
\<close>

definition misjudged :: "kconfig \<Rightarrow> assertion \<Rightarrow> bool" where
  "misjudged kc a \<longleftrightarrow> as_neg a \<and> as_value a \<noteq> None \<and> kc_table kc (as_symbol a) \<noteq> None"

definition reported :: "kconfig \<Rightarrow> string \<Rightarrow> assertion \<Rightarrow> bool" where
  "reported kc cpuarch a \<longleftrightarrow> applies kc cpuarch a \<and> (\<not> asserted kc a \<or> misjudged kc a)"

lemma judge_reported:
  assumes "kc_values kc"
  shows "judge kc (as_neg a) (as_symbol a) (as_value a)
    = (if asserted kc a \<and> \<not> misjudged kc a then Holds else Failed (message kc (as_symbol a)))"
  using assms
  by (cases "kc_table kc (as_symbol a)"; cases "as_value a"; cases "as_neg a")
    (auto simp: judge_def asserted_def misjudged_def message_def Let_def kc_values_def)

lemma check_lines_shown:
  assumes "\<forall>a\<in>set as. well_formed a" and "kc_values kc"
  shows "check_lines kc cpuarch (map show_assertion as) lineno failed out
    = Inr (failed + length (filter (reported kc cpuarch) as),
           out @ concat (map (\<lambda>a. message kc (as_symbol a)) (filter (reported kc cpuarch) as)))"
  using assms(1)
proof (induction as arbitrary: lineno failed out)
  case (Cons a as)
  have a: "well_formed a" using Cons.prems by simp
  from Cons show ?case
    by (simp add: check_line_shown[OF a] judge_reported[OF assms(2)] reported_def)
qed simp

text \<open>
  C16.  Any list of assertions of the documented notation, against any configuration that was read: the
  status is the number of assertions that are reported, which are those that apply on the architecture and do not hold for
  the configuration, and besides those that apply, negate an assertion with a value and are about a symbol which is set, though they may hold. The output has one line with the
  actual value for each of them, in order.
\<close>

theorem checklist_correct:
  assumes "hash_config hash_size conf = Inr kc" and "\<forall>a\<in>set as. well_formed a"
  shows "apply_checklist quiet kc (map show_assertion as) cpuarch
    = Inr (length (filter (reported kc cpuarch) as),
           if quiet then [] else concat (map (\<lambda>a. message kc (as_symbol a)) (filter (reported kc cpuarch) as)))"
  using check_lines_shown[OF assms(2) hash_config_values[OF assms(1)]] by (simp add: apply_checklist_def)

definition sample_lines :: "string list" where
  "sample_lines = map show_setting [(''CONFIG_EVL'', ''y''), (''CONFIG_SMP'', ''m'')]"

definition sample_kconfig :: kconfig where
  "sample_kconfig = \<lparr>kc_table = [''CONFIG_EVL'' \<mapsto> ''y'', ''CONFIG_SMP'' \<mapsto> ''m''], kc_room = 16382, kc_arch = None\<rparr>"

lemma sample_kconfig_read: "hash_config 16384 sample_lines = Inr sample_kconfig"
proof -
  have s: "setting (''CONFIG_EVL'', ''y'')" "setting (''CONFIG_SMP'', ''m'')"
    by (simp_all add: setting_def is_config_def isspace_def)
  show ?thesis
    by (simp add: sample_lines_def hash_config_def hash_line_shown s enabled_def sample_kconfig_def fun_upd_twist)
qed

text \<open>The last assertion holds and is reported.\<close>

definition sample_assertions :: "assertion list" where
  "sample_assertions =
     [\<lparr>as_neg = False, as_symbol = ''CONFIG_SMP'', as_value = Some ''n'', as_cond = Some (False, ''CONFIG_EVL''), as_arch = None\<rparr>,
      \<lparr>as_neg = True, as_symbol = ''CONFIG_KASAN'', as_value = None, as_cond = None, as_arch = Some ''arm''\<rparr>,
      \<lparr>as_neg = True, as_symbol = ''CONFIG_SMP'', as_value = Some ''y'', as_cond = None, as_arch = None\<rparr>]"

theorem checklist_correct_witness:
  "apply_checklist False sample_kconfig (map show_assertion sample_assertions) ''aarch32''
    = Inr (2, ''CONFIG_SMP=m'' @ [NL] @ ''CONFIG_SMP=m'' @ [NL])"
proof -
  have "\<forall>a\<in>set sample_assertions. well_formed a"
    by (simp add: sample_assertions_def well_formed_def word_def is_config_def word_char_def
        isalnum_def isalpha_def isdigit_def char_code_def)
  from checklist_correct[OF sample_kconfig_read this, of False "''aarch32''"] show ?thesis
    by (simp add: sample_assertions_def sample_kconfig_def reported_def misjudged_def applies_def asserted_def message_def get_arch_alias_def)
qed

text \<open>A negated assertion with the value n fails whatever the configuration; with the value y it
  fails for a module.\<close>

theorem negated_value_fails:
  "\<exists>msg. judge kc True symb (Some ''n'') = Failed msg" if "kc_table kc symb \<noteq> Some ''n''"
  using that by (auto simp: judge_def split: option.splits)

theorem negated_value_module:
  "\<exists>msg. judge sample_kconfig True ''CONFIG_SMP'' (Some ''y'') = Failed msg"
  by (simp add: judge_def sample_kconfig_def)

end
