(* ===== verification/Evl_Net_Tool.thy ===== *)
theory Evl_Net_Tool
  imports C_Text
begin

text \<open>
  \<^verbatim>\<open>utils/evl-net.c\<close>: what the options ask for, in which order it is done, and what a query prints.  The
  actions themselves are requests to the network services of the library.
\<close>

section \<open>Options\<close>

record net_config =
  n_enable :: bool
  n_disable :: bool
  n_query :: bool
  query_type :: "string option"
  poolsz :: u64
  bufsz :: u64
  n_permanent :: bool
  n_solicit :: bool
  ipaddr :: string
  modpath :: "string option"
  set_filter :: bool
  netif :: "string option"
  allow_routing :: bool
  vlan_list :: "string option"
  set_vlans :: bool
  show_vlans :: bool

definition net_defaults :: net_config where
  "net_defaults = \<lparr>n_enable = False, n_disable = False, n_query = False, query_type = None, poolsz = 0, bufsz = 0,
     n_permanent = False, n_solicit = False, ipaddr = [], modpath = None, set_filter = False, netif = None,
     allow_routing = False, vlan_list = None, set_vlans = False, show_vlans = False\<rparr>"

text \<open>\<open>Inl\<close> is the exit status.\<close>

definition net_option :: "char \<times> string option \<Rightarrow> net_config \<Rightarrow> int + net_config" where
  "net_option opt cfg =
     (let (c, optarg) = opt; arg = (case optarg of Some s \<Rightarrow> s | None \<Rightarrow> []) in
      if c = CHR ''e'' then Inr (cfg\<lparr>n_enable := True\<rparr>)
      else if c = CHR ''d'' then Inr (cfg\<lparr>n_disable := True\<rparr>)
      else if c = CHR ''Q'' then Inr (cfg\<lparr>n_query := True, query_type := optarg\<rparr>)
      else if c = CHR ''p'' then
        (let (n, p) = strtol arg in if p \<noteq> [] then Inl 1 else Inr (cfg\<lparr>poolsz := word_of_int n\<rparr>))
      else if c = CHR ''b'' then
        (let (n, p) = strtol arg in if p \<noteq> [] then Inl 1 else Inr (cfg\<lparr>bufsz := word_of_int n\<rparr>))
      else if c = CHR ''S'' then Inr (cfg\<lparr>n_permanent := True, ipaddr := arg, n_solicit := True\<rparr>)
      else if c = CHR ''s'' then Inr (cfg\<lparr>ipaddr := arg, n_solicit := True\<rparr>)
      else if c = CHR ''F'' then Inr (cfg\<lparr>modpath := optarg, set_filter := True\<rparr>)
      else if c = CHR ''h'' then Inl 0
      else if c = CHR ''i'' then Inr (cfg\<lparr>netif := optarg\<rparr>)
      else if c = CHR ''g'' then Inr (cfg\<lparr>allow_routing := True\<rparr>)
      else if c = CHR ''N'' then Inr (cfg\<lparr>vlan_list := optarg, set_vlans := True\<rparr>)
      else if c = CHR ''n'' then Inr (cfg\<lparr>show_vlans := True\<rparr>)
      else if c = CHR ''@'' then Inl 0
      else Inl 1)"

fun net_options :: "(char \<times> string option) list \<Rightarrow> net_config \<Rightarrow> int + net_config" where
  "net_options [] cfg = Inr cfg"
| "net_options (opt # opts) cfg =
     (case net_option opt cfg of Inl code \<Rightarrow> Inl code | Inr cfg \<Rightarrow> net_options opts cfg)"

section \<open>Actions\<close>

datatype net_action =
    Disable_port string
  | Enable_port string u64 u64
  | Set_bpf_filter string "string option"
  | Set_vlan_filter "string option"
  | Show_vlan_filter
  | Solicit_neighbour string "string option" bool bool
  | Query_port string "string option"

definition net_actions :: "net_config \<Rightarrow> net_action list" where
  "net_actions cfg =
     (let ifname = (case netif cfg of Some s \<Rightarrow> s | None \<Rightarrow> []) in
      (if n_disable cfg then [Disable_port ifname] else [])
      @ (if n_enable cfg then [Enable_port ifname (poolsz cfg) (bufsz cfg)] else [])
      @ (if set_filter cfg then [Set_bpf_filter ifname (modpath cfg)] else [])
      @ (if set_vlans cfg then [Set_vlan_filter (vlan_list cfg)] else [])
      @ (if show_vlans cfg then [Show_vlan_filter] else [])
      @ (if n_solicit cfg then [Solicit_neighbour (ipaddr cfg) (netif cfg) (n_permanent cfg) (allow_routing cfg)] else [])
      @ (if n_query cfg then [Query_port ifname (query_type cfg)] else []))"

text \<open>
  The exit status, or what is done, up to the first action that fails; \<open>init_ok\<close> says that the library could be
  initialised.
\<close>

definition net_main :: "bool \<Rightarrow> nat \<Rightarrow> (char \<times> string option) list \<Rightarrow> nat \<Rightarrow> int + net_action list" where
  "net_main init_ok argc opts nr_args =
     (if argc = 1 then Inl 0
      else case net_options opts net_defaults of Inl code \<Rightarrow> Inl code
      | Inr cfg \<Rightarrow>
          (if 0 < nr_args then Inl 1
           else if \<not> init_ok then Inl 1
           else if \<not> (n_disable cfg \<or> n_enable cfg \<or> n_query cfg \<or> n_solicit cfg \<or> set_filter cfg \<or> set_vlans cfg \<or> show_vlans cfg)
           then Inl 1
           else if (n_disable cfg \<or> n_enable cfg \<or> n_query cfg \<or> set_filter cfg) \<and> netif cfg = None then Inl 1
           else Inr (net_actions cfg)))"

section \<open>Queries\<close>

record devstat =
  oob_capable :: bool
  rx_packets :: u64
  rx_bytes :: u64
  tx_packets :: u64
  tx_bytes :: u64
  skb_size :: u32
  skb_free :: u32
  skb_total :: u32
  csum_errors :: u32
  rx_nomem :: u32
  tx_nomem :: u32

definition dec_word :: "'a::len word \<Rightarrow> string" where "dec_word x = dec (unat x)"

definition yes_no :: "bool \<Rightarrow> string" where "yes_no b = (if b then ''yes'' else ''no'')"

text \<open>What a modifier of \<^verbatim>\<open>-Q\<close> prints.\<close>

definition query_field :: "devstat \<Rightarrow> char \<Rightarrow> string option" where
  "query_field devs c =
     (if c = CHR ''R'' then Some (dec_word (rx_packets devs))
      else if c = CHR ''r'' then Some (dec_word (rx_bytes devs))
      else if c = CHR ''T'' then Some (dec_word (tx_packets devs))
      else if c = CHR ''t'' then Some (dec_word (tx_bytes devs))
      else if c = CHR ''o'' then Some (yes_no (oob_capable devs))
      else if c = CHR ''s'' then Some (dec_word (skb_size devs))
      else if c = CHR ''f'' then Some (dec_word (skb_free devs))
      else if c = CHR ''a'' then Some (dec_word (skb_total devs))
      else if c = CHR ''c'' then Some (dec_word (csum_errors devs))
      else if c = CHR ''x'' then Some (dec_word (rx_nomem devs) @ '' '' @ dec_word (tx_nomem devs))
      else None)"

text \<open>The output and the exit status.\<close>

fun query_modifiers :: "devstat \<Rightarrow> string \<Rightarrow> string \<Rightarrow> string \<times> int" where
  "query_modifiers devs space [] = ([NL], 0)"
| "query_modifiers devs space (c # cs) =
     (case query_field devs c of None \<Rightarrow> ([], 1)
      | Some s \<Rightarrow> (let (out, code) = query_modifiers devs '' '' cs in (space @ s @ out, code)))"

definition query_all :: "devstat \<Rightarrow> string" where
  "query_all devs =
     ''oob capability: '' @ yes_no (oob_capable devs) @ [NL]
     @ ''    rx packets: '' @ dec_word (rx_packets devs) @ [NL]
     @ ''      rx bytes: '' @ dec_word (rx_bytes devs) @ [NL]
     @ ''    tx packets: '' @ dec_word (tx_packets devs) @ [NL]
     @ ''      tx bytes: '' @ dec_word (tx_bytes devs) @ [NL]
     @ ''      skb size: '' @ dec_word (skb_size devs) @ [NL]
     @ ''  free buffers: '' @ dec_word (skb_free devs) @ '' / '' @ dec_word (skb_total devs) @ [NL]
     @ ''   csum errors: '' @ dec_word (csum_errors devs) @ [NL]
     @ ''      rx nomem: '' @ dec_word (rx_nomem devs) @ [NL]
     @ ''      tx nomem: '' @ dec_word (tx_nomem devs) @ [NL]"

definition query_output :: "devstat \<Rightarrow> string option \<Rightarrow> string \<times> int" where
  "query_output devs which = (case which of None \<Rightarrow> (query_all devs, 0)
     | Some w \<Rightarrow> if w = [] then (query_all devs, 0) else query_modifiers devs [] w)"

section \<open>The filter of VLAN identifiers\<close>

text \<open>The text without what follows its last newline, and the newline.\<close>

definition cut_last_line :: "string \<Rightarrow> string" where
  "cut_last_line s = (if NL \<in> set s then rev (tl (dropWhile (\<lambda>c. c \<noteq> NL) (rev s))) else s)"

text \<open>
  The reads of the file, \<open>Inl\<close> an error; the buffer takes 8191 bytes.  \<open>None\<close> if the reads run out.  The result is the output and
  the exit status.
\<close>

fun show_vlans_loop :: "(unit + string) list \<Rightarrow> int \<Rightarrow> (string \<times> int) option" where
  "show_vlans_loop [] count = None"
| "show_vlans_loop (Inl u # rs) count = Some ([], 1)"
| "show_vlans_loop (Inr buf # rs) count =
     (let count = (if buf \<noteq> [] then count + int (length buf) - 1 else count);
          out = (if buf \<noteq> [] then cut_last_line (takeWhile (\<lambda>c. c \<noteq> CHR 0x00) buf) else [])
      in if length buf = 8191 then map_option (\<lambda>(o', code). (out @ o', code)) (show_vlans_loop rs count)
         else Some (out @ (if 0 < count then [NL] else []), 0))"

definition show_vlan_filter :: "(unit + string) list \<Rightarrow> (string \<times> int) option" where
  "show_vlan_filter reads = show_vlans_loop reads 0"

text \<open>What is written to the file: an empty string, with its terminator, clears the filter.\<close>

definition set_vlan_filter :: "string option \<Rightarrow> string" where
  "set_vlan_filter vlans = (case vlans of Some s \<Rightarrow> s | None \<Rightarrow> [CHR 0x00])"

section \<open>Properties\<close>

text \<open>Something is done, and what needs an interface has one: the one given last.\<close>

definition needs_port :: "net_action \<Rightarrow> string option" where
  "needs_port a = (case a of Disable_port i \<Rightarrow> Some i | Enable_port i _ _ \<Rightarrow> Some i | Set_bpf_filter i _ \<Rightarrow> Some i
     | Query_port i _ \<Rightarrow> Some i | _ \<Rightarrow> None)"

lemma net_main_actions:
  assumes "net_main ok argc opts n = Inr acts"
  obtains cfg where "net_options opts net_defaults = Inr cfg" and "acts = net_actions cfg" and "acts \<noteq> []"
    and "\<forall>a\<in>set acts. needs_port a \<noteq> None \<longrightarrow> needs_port a = netif cfg"
proof -
  obtain cfg where cfg: "net_options opts net_defaults = Inr cfg" "acts = net_actions cfg"
    "n_disable cfg \<or> n_enable cfg \<or> n_query cfg \<or> n_solicit cfg \<or> set_filter cfg \<or> set_vlans cfg \<or> show_vlans cfg"
    "(n_disable cfg \<or> n_enable cfg \<or> n_query cfg \<or> set_filter cfg) \<longrightarrow> netif cfg \<noteq> None"
    using assms by (auto simp: net_main_def split: if_splits sum.splits)
  show thesis
  proof (rule that[OF cfg(1,2)])
    show "acts \<noteq> []" using cfg(3) unfolding cfg(2) net_actions_def Let_def by auto
    show "\<forall>a\<in>set acts. needs_port a \<noteq> None \<longrightarrow> needs_port a = netif cfg"
      using cfg(4) unfolding cfg(2) net_actions_def Let_def by (auto simp: needs_port_def split: if_splits)
  qed
qed

text \<open>The documented modifiers, and no others, are accepted.\<close>

lemma query_modifiers_documented:
  "snd (query_modifiers devs space cs) = 0 \<longleftrightarrow> set cs \<subseteq> set ''RrTtosfacx''"
proof (induction cs arbitrary: space)
  case (Cons c cs)
  have "query_field devs c \<noteq> None \<longleftrightarrow> c \<in> set ''RrTtosfacx''" by (simp add: query_field_def)
  then show ?case using Cons by (cases "query_field devs c") (auto simp: Let_def split_beta)
qed simp

end
