(* ===== verification/Latmus_Stats.thy ===== *)
theory Latmus_Stats
  imports C_Text
begin

text \<open>
  \<^verbatim>\<open>latmus/stats.c\<close> and what \<^verbatim>\<open>latmus/timer.c\<close> checks of the figures: measurements over a bulk of
  samples, statistics over all bulks, the histogram and its display.  Latencies are
  nanoseconds; signed fields are read with \<open>sint\<close>.  The quotients by 1000.0 that the code
  compares and prints are represented by the integers divided.
\<close>

definition TEN_MILLIONS :: int where "TEN_MILLIONS = 10000000"

record measurement =
  sum_lat :: u64
  min_lat :: s32
  max_lat :: s32
  meas_overruns :: u32
  meas_samples :: u32

record statistics =
  all_minlat :: s32
  all_maxlat :: s32
  all_sum :: u64
  all_samples :: u64
  all_overruns :: u32
  peak_time :: u64
  h_cells :: nat
  histogram :: "s32 list option"
  st_name :: string

text \<open>\<open>None\<close> when the histogram cannot be allocated, which ends the program.\<close>

definition init_statistics :: "bool \<Rightarrow> string \<Rightarrow> nat \<Rightarrow> statistics option" where
  "init_statistics mem name cells =
     (let st = \<lparr>all_minlat = word_of_int TEN_MILLIONS, all_maxlat = word_of_int (- TEN_MILLIONS), all_sum = 0, all_samples = 0,
            all_overruns = 0, peak_time = 0, h_cells = cells, histogram = None, st_name = name\<rparr>
      in if cells = 0 then Some st
         else if \<not> mem then None else Some (st\<lparr>histogram := Some (replicate cells 0)\<rparr>))"

definition reset_measurement :: "measurement \<Rightarrow> measurement" where
  "reset_measurement meas = meas\<lparr>sum_lat := 0, min_lat := word_of_int TEN_MILLIONS, max_lat := word_of_int (- TEN_MILLIONS),
     meas_overruns := 0, meas_samples := 0\<rparr>"

definition add_measurement :: "measurement \<Rightarrow> u64 \<Rightarrow> measurement" where
  "add_measurement meas dt =
     (let meas = meas\<lparr>sum_lat := sum_lat meas + dt\<rparr>;
          meas = (if sint dt < sint (min_lat meas) then meas\<lparr>min_lat := ucast dt\<rparr> else meas);
          meas = (if sint dt > sint (max_lat meas) then meas\<lparr>max_lat := ucast dt\<rparr> else meas)
      in meas\<lparr>meas_samples := meas_samples meas + 1\<rparr>)"

text \<open>Division of C, which truncates towards zero.\<close>

definition trunc_div :: "int \<Rightarrow> int \<Rightarrow> int" where
  "trunc_div a b = sgn a * sgn b * (\<bar>a\<bar> div \<bar>b\<bar>)"

text \<open>The cell of a sample: its size in microseconds, larger ones in the last cell.\<close>

definition sample_cell :: "nat \<Rightarrow> u64 \<Rightarrow> nat" where
  "sample_cell cells dt =
     (let cell = unat (word_of_int (trunc_div (sint (if sint dt < 0 then - dt else dt)) 1000) :: u64)
      in if cells \<le> cell then cells - 1 else cell)"

definition add_measurement_histogram :: "statistics \<Rightarrow> measurement \<Rightarrow> u64 \<Rightarrow> statistics \<times> measurement" where
  "add_measurement_histogram st meas dt =
     (let meas = add_measurement meas dt in
      case histogram st of None \<Rightarrow> (st, meas)
      | Some h \<Rightarrow>
          (let cell = sample_cell (h_cells st) dt
           in (st\<lparr>histogram := Some (h[cell := h ! cell + 1])\<rparr>, meas)))"

text \<open>\<open>Inl\<close> is the status the program exits with.\<close>

definition merge_results :: "int \<Rightarrow> u64 \<Rightarrow> statistics \<Rightarrow> measurement \<Rightarrow> int + statistics" where
  "merge_results abort_threshold elapsed st meas =
     (let st = (if sint (min_lat meas) < sint (all_minlat st) then st\<lparr>all_minlat := min_lat meas\<rparr> else st);
          grown = sint (max_lat meas) > sint (all_maxlat st);
          st = (if grown then st\<lparr>peak_time := elapsed, all_maxlat := max_lat meas\<rparr> else st)
      in if grown \<and> abort_threshold \<noteq> 0 \<and> sint (all_maxlat st) > abort_threshold then Inl 102
         else Inr (st\<lparr>all_sum := all_sum st + sum_lat meas, all_samples := all_samples st + ucast (meas_samples meas),
                     all_overruns := all_overruns st + meas_overruns meas\<rparr>))"

text \<open>Do the figures of a bulk look wrong?  \<open>None\<close> is the division by zero.\<close>

definition more_timer_data :: "statistics \<Rightarrow> measurement \<Rightarrow> int option" where
  "more_timer_data st meas =
     (let n = sint (meas_samples meas) in
      if n = 0 then None
      else let lo = sint (min_lat meas); avg = trunc_div (sint (sum_lat meas)) n; hi = sint (max_lat meas);
               best = sint (all_minlat st); worst = sint (all_maxlat st)
           in Some (if lo > hi \<or> lo > avg \<or> avg > hi \<or> lo > worst \<or> hi > worst \<or> avg > worst
                      \<or> best > worst \<or> worst < best then - EINVAL else 0))"

definition log_results :: "(statistics \<Rightarrow> measurement \<Rightarrow> int option) \<Rightarrow> int \<Rightarrow> u64 \<Rightarrow> statistics \<Rightarrow> measurement
    \<Rightarrow> (int + statistics) option" where
  "log_results more_data abort_threshold elapsed st meas =
     (case merge_results abort_threshold elapsed st meas of Inl code \<Rightarrow> Some (Inl code)
      | Inr st \<Rightarrow> map_option (\<lambda>ret. if ret \<noteq> 0 then Inl 103 else Inr st) (more_data st meas))"

section \<open>The display of the histogram\<close>

text \<open>Is cell \<open>n\<close> zero in all the histograms?\<close>

definition all_zero :: "s32 list list \<Rightarrow> nat \<Rightarrow> bool" where
  "all_zero hs n \<longleftrightarrow> list_all (\<lambda>h. h ! n = 0) hs"

text \<open>The loops that look for the first and for the last cell that is not.\<close>

function first_cell :: "s32 list list \<Rightarrow> nat \<Rightarrow> nat \<Rightarrow> nat" where
  "first_cell hs cells n = (if cells \<le> n then 0 else if \<not> all_zero hs n then n else first_cell hs cells (n + 1))"
  by pat_completeness auto

termination by (relation "measure (\<lambda>(hs, cells, n). cells - n)") auto

declare first_cell.simps [simp del]

fun last_cell :: "s32 list list \<Rightarrow> nat \<Rightarrow> nat" where
  "last_cell hs 0 = 0"
| "last_cell hs (Suc n) = (if \<not> all_zero hs n then n else last_cell hs n)"

definition plot_row :: "s32 list list \<Rightarrow> nat \<Rightarrow> bool \<Rightarrow> string" where
  "plot_row hs n mark =
     dec n @ (if mark then ''+'' else []) @ concat (map (\<lambda>h. CHR '' '' # dec_int (sint (h ! n))) hs) @ [NL]"

text \<open>The rows that \<^verbatim>\<open>dump_gnuplot\<close> prints: the cell, the mark of outliers, the counts.\<close>

definition outliers :: "statistics list \<Rightarrow> bool" where
  "outliers sts \<longleftrightarrow> list_ex (\<lambda>st. h_cells st \<le> unat (word_of_int (trunc_div (sint (all_maxlat st)) 1000) :: u64)) sts"

definition plot_rows :: "nat \<Rightarrow> s32 list list \<Rightarrow> bool \<Rightarrow> (nat \<times> bool) list" where
  "plot_rows cells hs out =
     (let first = first_cell hs cells 0; stop = last_cell hs cells
      in map (\<lambda>n. (n, False)) [first..<stop] @ [(stop, out)])"

definition dump_histograms :: "statistics list \<Rightarrow> string" where
  "dump_histograms sts =
     (let hs = map (\<lambda>st. the (histogram st)) sts
      in concat (map (\<lambda>(n, mark). plot_row hs n mark) (plot_rows (h_cells (hd sts)) hs (outliers sts))))"

end
