(* ===== verification/Latmus_Stats_Correct.thy ===== *)
theory Latmus_Stats_Correct
  imports Latmus_Stats "HOL-Library.Multiset"
begin

text \<open>
  The figures of the latency test: what a bulk of samples adds up to, the histogram, the sanity check
  of the figures, and the window of the histogram that is displayed.
\<close>

section \<open>A bulk of samples\<close>

definition bulk :: "measurement \<Rightarrow> u64 list \<Rightarrow> measurement" where
  "bulk meas dts = foldl add_measurement (reset_measurement meas) dts"

text \<open>Samples that fit the 32 bits of the extrema, and bulks that fit the counter.\<close>

definition sample_ok :: "u64 \<Rightarrow> bool" where
  "sample_ok dt \<longleftrightarrow> - (2 ^ 31) \<le> sint dt \<and> sint dt < 2 ^ 31"

lemma sint_of_int32: "- (2 ^ 31) \<le> x \<Longrightarrow> x < 2 ^ 31 \<Longrightarrow> sint (word_of_int x :: s32) = x"
  by (simp add: signed_of_int signed_take_bit_int_eq_self)

lemma sint_of_int64: "- (2 ^ 63) \<le> x \<Longrightarrow> x < 2 ^ 63 \<Longrightarrow> sint (word_of_int x :: u64) = x"
  by (simp add: signed_of_int signed_take_bit_int_eq_self)

lemma sint_ucast_sample:
  assumes "sample_ok dt"
  shows "sint (ucast dt :: s32) = sint dt"
proof -
  have "(ucast dt :: s32) = word_of_int (sint dt)"
    by (simp only: word_of_int_eq_iff ucast_eq sint_uint) (simp add: take_bit_signed_take_bit)
  then show ?thesis using assms sint_of_int32[of "sint dt"] by (simp add: sample_ok_def)
qed

lemma sint_add64:
  assumes "- (2 ^ 63) \<le> sint a + sint b" and "sint (a :: u64) + sint b < 2 ^ 63"
  shows "sint (a + b) = sint a + sint b"
proof -
  have "a + b = word_of_int (sint a) + word_of_int (sint b)" by simp
  also have "\<dots> = word_of_int (sint a + sint b)" by (simp only: wi_hom_add)
  finally have eq: "a + b = word_of_int (sint a + sint b)" .
  show ?thesis by (subst eq) (rule sint_of_int64[OF assms])
qed

lemma ten_millions: "sint (word_of_int TEN_MILLIONS :: s32) = 10000000" "sint (word_of_int (- TEN_MILLIONS) :: s32) = - 10000000"
  unfolding TEN_MILLIONS_def by (rule sint_of_int32; simp)+

lemma sum_samples_bound:
  "list_all sample_ok dts \<Longrightarrow> \<bar>sum_list (map sint dts)\<bar> \<le> 2 ^ 31 * int (length dts)"
  by (induction dts) (auto simp: sample_ok_def)

text \<open>
  After a bulk of fewer than \<open>2 ^ 31\<close> samples the measurement holds their sum, their number, the
  largest of them and -10 ms, and the smallest of them and 10 ms.
\<close>

theorem bulk_exact:
  assumes "list_all sample_ok dts" and "length dts < 2 ^ 31"
  shows "sint (sum_lat (bulk meas dts)) = sum_list (map sint dts)
    \<and> unat (meas_samples (bulk meas dts)) = length dts
    \<and> sint (min_lat (bulk meas dts)) = Min (insert 10000000 (sint ` set dts))
    \<and> sint (max_lat (bulk meas dts)) = Max (insert (- 10000000) (sint ` set dts))"
  using assms
proof (induction dts rule: rev_induct)
  case Nil
  show ?case unfolding bulk_def foldl.simps reset_measurement_def by (simp add: ten_millions[simplified] ten_millions)
next
  case (snoc dt dts)
  let ?m = "bulk meas dts"
  have ok: "sample_ok dt" "list_all sample_ok dts" and len: "length dts + 1 < 2 ^ 31" using snoc.prems by auto
  have IH: "sint (sum_lat ?m) = sum_list (map sint dts)" "unat (meas_samples ?m) = length dts"
    "sint (min_lat ?m) = Min (insert 10000000 (sint ` set dts))" "sint (max_lat ?m) = Max (insert (- 10000000) (sint ` set dts))"
    using snoc.IH[OF ok(2)] len by auto
  have step: "bulk meas (dts @ [dt]) = add_measurement ?m dt" by (simp add: bulk_def)
  have b: "\<bar>sum_list (map sint dts)\<bar> < 2 ^ 62"
  proof -
    have "2 ^ 31 * int (length dts) < 2 ^ 31 * 2 ^ 31" using len by simp
    then show ?thesis using sum_samples_bound[OF ok(2)] by simp
  qed
  have sum: "sint (sum_lat ?m + dt) = sum_list (map sint dts) + sint dt"
    by (subst sint_add64) (use b ok(1) in \<open>auto simp: IH(1) sample_ok_def\<close>)
  have cnt: "unat (meas_samples ?m + 1) = length dts + 1"
    using IH(2) len by (simp add: unat_word_ariths)
  have "sint (min_lat (add_measurement ?m dt)) = min (sint dt) (sint (min_lat ?m))"
    "sint (max_lat (add_measurement ?m dt)) = max (sint dt) (sint (max_lat ?m))"
    "sum_lat (add_measurement ?m dt) = sum_lat ?m + dt" "meas_samples (add_measurement ?m dt) = meas_samples ?m + 1"
    by (auto simp: add_measurement_def Let_def sint_ucast_sample[OF ok(1)])
  moreover have "Min (insert 10000000 (sint ` set (dts @ [dt]))) = min (sint dt) (Min (insert 10000000 (sint ` set dts)))"
    "Max (insert (- 10000000) (sint ` set (dts @ [dt]))) = max (sint dt) (Max (insert (- 10000000) (sint ` set dts)))"
    by (simp_all add: insert_commute)
  ultimately show ?case using sum cnt by (simp add: step IH)
qed

theorem bulk_exact_witness:
  "sint (min_lat (bulk meas [1500, - 200, 900])) = - 200 \<and> unat (meas_samples (bulk meas [1500, - 200, 900])) = 3"
  using bulk_exact[of "[1500, - 200, 900]" meas] by (simp add: sample_ok_def)

text \<open>When every sample exceeds 10 ms, the smallest one is not the minimum that is reported.\<close>

theorem minimum_capped:
  "sint (min_lat (bulk meas [20000000])) = 10000000"
  using bulk_exact[of "[20000000]" meas] by (simp add: sample_ok_def)

section \<open>The histogram\<close>

lemma sample_cell_bound: "0 < cells \<Longrightarrow> sample_cell cells dt < cells"
  by (simp add: sample_cell_def Let_def)

fun add_samples :: "statistics \<times> measurement \<Rightarrow> u64 list \<Rightarrow> statistics \<times> measurement" where
  "add_samples sm [] = sm"
| "add_samples sm (dt # dts) = add_samples (add_measurement_histogram (fst sm) (snd sm) dt) dts"

lemma add_samples_counts:
  assumes "0 < h_cells st" and "histogram st = Some h" and "length h = h_cells st"
    and "\<forall>i<h_cells st. unat (h ! i) + length dts < 2 ^ 32"
  shows "\<exists>h'. histogram (fst (add_samples (st, meas) dts)) = Some h' \<and> length h' = h_cells st
    \<and> (\<forall>i<h_cells st. unat (h' ! i) = unat (h ! i) + length (filter (\<lambda>dt. sample_cell (h_cells st) dt = i) dts))"
  using assms
proof (induction dts arbitrary: st h meas)
  case (Cons dt dts)
  let ?c = "sample_cell (h_cells st) dt"
  let ?h = "h[?c := h ! ?c + 1]"
  let ?st = "st\<lparr>histogram := Some ?h\<rparr>"
  have c: "?c < h_cells st" by (rule sample_cell_bound[OF Cons.prems(1)])
  have inc: "unat (h ! ?c + 1) = unat (h ! ?c) + 1"
    using Cons.prems(4) c by (fastforce simp: unat_word_ariths)
  have h: "unat (?h ! i) = unat (h ! i) + (if ?c = i then 1 else 0)" if "i < h_cells st" for i
    using inc that Cons.prems(3) by (cases "?c = i") simp_all
  have "\<forall>i<h_cells ?st. unat (?h ! i) + length dts < 2 ^ 32" using Cons.prems(4) h by fastforce
  from Cons.IH[of ?st ?h "add_measurement meas dt"] this Cons.prems(1,3) obtain h' where
    "histogram (fst (add_samples (?st, add_measurement meas dt) dts)) = Some h'" "length h' = h_cells st"
    "\<forall>i<h_cells st. unat (h' ! i) = unat (?h ! i) + length (filter (\<lambda>dt. sample_cell (h_cells st) dt = i) dts)"
    by auto
  then show ?case using h Cons.prems(2) by (auto simp: add_measurement_histogram_def Let_def)
qed simp

lemma sum_cells:
  "list_all (\<lambda>x. f x < (n :: nat)) xs \<Longrightarrow> (\<Sum>i<n. length (filter (\<lambda>x. f x = i) xs)) = length xs"
proof (induction xs)
  case (Cons x xs)
  have "(\<Sum>i<n. length (filter (\<lambda>x. f x = i) (x # xs))) = (\<Sum>i<n. (if i = f x then 1 else 0) + length (filter (\<lambda>x. f x = i) xs))"
    by (rule sum.cong) auto
  also have "\<dots> = (\<Sum>i<n. if i = f x then 1 else 0) + length xs" using Cons.IH Cons.prems by (simp add: sum.distrib)
  also have "(\<Sum>i<n. if i = f x then 1 else 0) = (1 :: nat)" using Cons.prems by (subst sum.delta) auto
  finally show ?case by simp
qed simp

text \<open>
  After any number of samples below \<open>2 ^ 32\<close>, each cell of a new histogram holds the number of
  samples that belong to it, all accesses are within the histogram, and the cells add up to the
  number of samples.
\<close>

theorem histogram_counts:
  assumes "init_statistics True name cells = Some st" and "0 < cells" and "length dts < 2 ^ 32"
  shows "\<exists>h. histogram (fst (add_samples (st, meas) dts)) = Some h \<and> length h = cells
    \<and> (\<forall>i<cells. unat (h ! i) = length (filter (\<lambda>dt. sample_cell cells dt = i) dts))
    \<and> (\<Sum>i<cells. unat (h ! i)) = length dts"
proof -
  have st: "h_cells st = cells" "histogram st = Some (replicate cells 0)"
    using assms(1,2) by (auto simp: init_statistics_def Let_def)
  obtain h where h: "histogram (fst (add_samples (st, meas) dts)) = Some h" "length h = cells"
    "\<forall>i<cells. unat (h ! i) = length (filter (\<lambda>dt. sample_cell cells dt = i) dts)"
    using add_samples_counts[of st "replicate cells 0" dts meas] assms(2,3) st by auto
  have "(\<Sum>i<cells. unat (h ! i)) = (\<Sum>i<cells. length (filter (\<lambda>dt. sample_cell cells dt = i) dts))"
    by (rule sum.cong) (use h(3) in auto)
  also have "\<dots> = length dts" by (rule sum_cells) (simp add: list_all_iff sample_cell_bound[OF assms(2)])
  finally show ?thesis using h by blast
qed

theorem histogram_counts_witness:
  "\<exists>st h. init_statistics True ''timer'' 3 = Some st \<and> histogram (fst (add_samples (st, meas) [1500, 2500000, - 1200])) = Some h
    \<and> (\<Sum>i<3. unat (h ! i)) = 3"
proof -
  obtain st where st: "init_statistics True ''timer'' 3 = Some st" by (simp add: init_statistics_def)
  from histogram_counts[OF st, of "[1500, 2500000, - 1200]" meas] st show ?thesis by auto
qed

section \<open>The sanity check\<close>

lemma trunc_div_bounds:
  assumes "0 < n" and "lo * n \<le> a" and "a \<le> hi * n"
  shows "lo \<le> trunc_div a n" and "trunc_div a n \<le> hi"
proof -
  have b: "x \<le> u div n" if "x * n \<le> u" for x u
    using zdiv_mono1[OF that assms(1)] assms(1) by simp
  have b': "u div n \<le> x" if "u \<le> x * n" for x u
    using zdiv_mono1[OF that assms(1)] assms(1) by simp
  have "lo \<le> trunc_div a n \<and> trunc_div a n \<le> hi"
  proof (cases "0 \<le> a")
    case True
    then have "trunc_div a n = a div n" using assms(1) by (cases "a = 0") (simp_all add: trunc_div_def)
    then show ?thesis using b[OF assms(2)] b'[OF assms(3)] by simp
  next
    case False
    then have "trunc_div a n = - (- a div n)" using assms(1) by (simp add: trunc_div_def)
    moreover have "- a div n \<le> - lo" by (rule b') (use assms(2) in simp)
    moreover have "- hi \<le> - a div n" by (rule b) (use assms(3) in simp)
    ultimately show ?thesis by simp
  qed
  then show "lo \<le> trunc_div a n" and "trunc_div a n \<le> hi" by blast+
qed

lemma sum_list_bounds:
  "\<forall>x\<in>set xs. lo \<le> x \<and> x \<le> (hi :: int) \<Longrightarrow> lo * int (length xs) \<le> sum_list xs \<and> sum_list xs \<le> hi * int (length xs)"
  by (induction xs) (auto simp: algebra_simps)

text \<open>
  The figures of real samples never look weird: logging a bulk of at least one sample into any
  statistics passes the check, whatever the threshold for which the program ends.
\<close>

theorem figures_pass:
  assumes "list_all sample_ok dts" and "0 < length dts" and "length dts < 2 ^ 31"
  shows "log_results more_timer_data threshold elapsed st (bulk meas dts)
    = Some (merge_results threshold elapsed st (bulk meas dts))"
proof -
  let ?m = "bulk meas dts" and ?s = "map sint dts"
  have B: "sint (sum_lat ?m) = sum_list ?s" "unat (meas_samples ?m) = length dts"
    "sint (min_lat ?m) = Min (insert 10000000 (sint ` set dts))" "sint (max_lat ?m) = Max (insert (- 10000000) (sint ` set dts))"
    using bulk_exact[OF assms(1,3), of meas] by blast+
  have each: "sint (min_lat ?m) \<le> x \<and> x \<le> sint (max_lat ?m)" if "x \<in> set ?s" for x
    using that unfolding B by (auto intro: Min_le Max_ge)
  have n: "sint (meas_samples ?m) = int (length dts)"
  proof -
    have "meas_samples ?m = word_of_int (int (length dts))" using B(2) by (simp add: word_unat_eq_iff unsigned_of_nat take_bit_nat_eq_self less_imp_le order.strict_trans[OF assms(3)])
    then show ?thesis using sint_of_int32[of "int (length dts)"] assms(3) by simp
  qed
  have avg: "sint (min_lat ?m) \<le> trunc_div (sint (sum_lat ?m)) (sint (meas_samples ?m))"
    "trunc_div (sint (sum_lat ?m)) (sint (meas_samples ?m)) \<le> sint (max_lat ?m)"
    using trunc_div_bounds[of "int (length dts)" "sint (min_lat ?m)" "sum_list ?s" "sint (max_lat ?m)"]
      sum_list_bounds[of ?s "sint (min_lat ?m)" "sint (max_lat ?m)"] each assms(2) by (simp_all add: n B(1))
  have le: "sint (min_lat ?m) \<le> sint (max_lat ?m)" using avg by linarith
  show ?thesis
  proof (cases "merge_results threshold elapsed st ?m")
    case (Inl code)
    then show ?thesis by (simp add: log_results_def)
  next
    case (Inr st')
    then have "all_minlat st' = (if sint (min_lat ?m) < sint (all_minlat st) then min_lat ?m else all_minlat st)"
      "all_maxlat st' = (if sint (max_lat ?m) > sint (all_maxlat st) then max_lat ?m else all_maxlat st)"
      by (auto simp: merge_results_def Let_def split: if_splits)
    then have "sint (all_minlat st') \<le> sint (min_lat ?m)" "sint (max_lat ?m) \<le> sint (all_maxlat st')" by auto
    then have "more_timer_data st' ?m = Some 0"
      using avg le n assms(2) by (simp add: more_timer_data_def Let_def)
    then show ?thesis using Inr by (simp add: log_results_def)
  qed
qed

theorem figures_pass_witness:
  "let st = the (init_statistics True ''timer'' 0);
       meas = bulk \<lparr>sum_lat = 0, min_lat = 0, max_lat = 0, meas_overruns = 0, meas_samples = 0\<rparr> [1500, - 200]
   in log_results more_timer_data 0 5 st meas = Some (merge_results 0 5 st meas)"
  using figures_pass[of "[1500, - 200]"] by (simp add: sample_ok_def)

section \<open>The window\<close>

lemma first_cell_spec:
  "n \<le> cells \<Longrightarrow> (\<forall>i. n \<le> i \<and> i < cells \<longrightarrow> all_zero hs i) \<and> first_cell hs cells n = 0
    \<or> (n \<le> first_cell hs cells n \<and> first_cell hs cells n < cells \<and> \<not> all_zero hs (first_cell hs cells n)
       \<and> (\<forall>i. n \<le> i \<and> i < first_cell hs cells n \<longrightarrow> all_zero hs i))"
proof (induction hs cells n rule: first_cell.induct)
  case (1 hs cells n)
  show ?case
  proof (cases "n = cells \<or> \<not> all_zero hs n")
    case True
    then have "first_cell hs cells n = (if cells \<le> n then 0 else n)" using 1(2) by (subst first_cell.simps) auto
    then show ?thesis using True 1(2) by auto
  next
    case False
    then have n: "n < cells" "all_zero hs n" using 1(2) by auto
    then have "first_cell hs cells n = first_cell hs cells (n + 1)" by (subst first_cell.simps) simp
    moreover have shift: "all_zero hs i" if "n \<le> i" "Suc n \<le> i \<Longrightarrow> all_zero hs i" for i
      using that n(2) by (cases "i = n") auto
    moreover have "(\<forall>i. Suc n \<le> i \<and> i < cells \<longrightarrow> all_zero hs i) \<and> first_cell hs cells (Suc n) = 0
      \<or> (Suc n \<le> first_cell hs cells (Suc n) \<and> first_cell hs cells (Suc n) < cells \<and> \<not> all_zero hs (first_cell hs cells (Suc n))
         \<and> (\<forall>i. Suc n \<le> i \<and> i < first_cell hs cells (Suc n) \<longrightarrow> all_zero hs i))"
      using 1(1) n by simp
    ultimately show ?thesis by (auto intro: shift)
  qed
qed

lemma last_cell_spec:
  "(\<forall>i<n. all_zero hs i) \<and> last_cell hs n = 0
    \<or> (last_cell hs n < n \<and> \<not> all_zero hs (last_cell hs n) \<and> (\<forall>i. last_cell hs n < i \<and> i < n \<longrightarrow> all_zero hs i))"
  by (induction n) (auto simp: less_Suc_eq)

text \<open>
  The rows of the histogram that are displayed are consecutive cells, none of them outside the
  histogram; every cell that counts a sample in some series is among them, and when there
  is one, neither the first nor the last row is empty.
\<close>

theorem plot_window:
  assumes "0 < cells"
  shows "\<exists>a b. map fst (plot_rows cells hs out) = [a..<Suc b] \<and> a \<le> b \<and> b < cells
    \<and> {n. n < cells \<and> \<not> all_zero hs n} \<subseteq> {a..b}
    \<and> ({n. n < cells \<and> \<not> all_zero hs n} = {} \<or> (\<not> all_zero hs a \<and> \<not> all_zero hs b))"
proof -
  let ?a = "first_cell hs cells 0" and ?b = "last_cell hs cells"
  have rows: "map fst (plot_rows cells hs out) = [?a..<?b] @ [?b]"
    by (simp add: plot_rows_def Let_def comp_def)
  have A: "(\<forall>i<cells. all_zero hs i) \<and> ?a = 0 \<or> (?a < cells \<and> \<not> all_zero hs ?a \<and> (\<forall>i<?a. all_zero hs i))"
    using first_cell_spec[of 0 cells hs] by simp
  note B = last_cell_spec[of cells hs]
  show ?thesis
  proof (cases "\<forall>i<cells. all_zero hs i")
    case True
    then have "?a = 0" "?b = 0" using A B by auto
    then show ?thesis using True assms rows by (intro exI[of _ 0]) auto
  next
    case False
    then have a: "?a < cells" "\<not> all_zero hs ?a" "\<forall>i<?a. all_zero hs i" using A by blast+
    have b: "?b < cells" "\<not> all_zero hs ?b" "\<forall>i. ?b < i \<and> i < cells \<longrightarrow> all_zero hs i" using B False by blast+
    have "?a \<le> ?b" using a b by (meson not_le)
    moreover have "{n. n < cells \<and> \<not> all_zero hs n} \<subseteq> {?a..?b}" using a(3) b(3) by (auto simp: not_le) (meson not_le)+
    ultimately show ?thesis using a b rows by (intro exI[of _ ?a] exI[of _ ?b]) (simp del: upt_Suc add: upt_Suc_append)
  qed
qed

theorem plot_window_witness:
  "\<exists>a b. map fst (plot_rows 4 [[0, 3, 0, 0], [0, 0, 1, 0]] False) = [a..<Suc b]"
proof -
  have "0 < (4 :: nat)" by simp
  from plot_window[OF this, of "[[0, 3, 0, 0], [0, 0, 1, 0]]" False] show ?thesis by blast
qed

end
