(* ===== verification/Latmus_Net.thy ===== *)
theory Latmus_Net
  imports C_Text
begin

text \<open>
  \<^verbatim>\<open>latmus/net.c\<close>: the frames of the network latency test, and what is recorded about the frames
  received.  A packet is the list of its bytes; \<^verbatim>\<open>int\<close> arithmetic wraps at 32 bits.
\<close>

type_synonym byte = "8 word"

definition FRAME_METADATA_LEN :: nat where "FRAME_METADATA_LEN = 20"
definition DEFAULT_PACKET_LEN :: nat where "DEFAULT_PACKET_LEN = 64"

section \<open>The checksum\<close>

definition crc8_values :: "int list" where
  "crc8_values =
    [0x00, 0x8d, 0x97, 0x1a, 0xa3, 0x2e, 0x34, 0xb9, 0xcb, 0x46, 0x5c, 0xd1, 0x68, 0xe5, 0xff, 0x72,
     0x1b, 0x96, 0x8c, 0x01, 0xb8, 0x35, 0x2f, 0xa2, 0xd0, 0x5d, 0x47, 0xca, 0x73, 0xfe, 0xe4, 0x69,
     0x36, 0xbb, 0xa1, 0x2c, 0x95, 0x18, 0x02, 0x8f, 0xfd, 0x70, 0x6a, 0xe7, 0x5e, 0xd3, 0xc9, 0x44,
     0x2d, 0xa0, 0xba, 0x37, 0x8e, 0x03, 0x19, 0x94, 0xe6, 0x6b, 0x71, 0xfc, 0x45, 0xc8, 0xd2, 0x5f,
     0x6c, 0xe1, 0xfb, 0x76, 0xcf, 0x42, 0x58, 0xd5, 0xa7, 0x2a, 0x30, 0xbd, 0x04, 0x89, 0x93, 0x1e,
     0x77, 0xfa, 0xe0, 0x6d, 0xd4, 0x59, 0x43, 0xce, 0xbc, 0x31, 0x2b, 0xa6, 0x1f, 0x92, 0x88, 0x05,
     0x5a, 0xd7, 0xcd, 0x40, 0xf9, 0x74, 0x6e, 0xe3, 0x91, 0x1c, 0x06, 0x8b, 0x32, 0xbf, 0xa5, 0x28,
     0x41, 0xcc, 0xd6, 0x5b, 0xe2, 0x6f, 0x75, 0xf8, 0x8a, 0x07, 0x1d, 0x90, 0x29, 0xa4, 0xbe, 0x33,
     0xd8, 0x55, 0x4f, 0xc2, 0x7b, 0xf6, 0xec, 0x61, 0x13, 0x9e, 0x84, 0x09, 0xb0, 0x3d, 0x27, 0xaa,
     0xc3, 0x4e, 0x54, 0xd9, 0x60, 0xed, 0xf7, 0x7a, 0x08, 0x85, 0x9f, 0x12, 0xab, 0x26, 0x3c, 0xb1,
     0xee, 0x63, 0x79, 0xf4, 0x4d, 0xc0, 0xda, 0x57, 0x25, 0xa8, 0xb2, 0x3f, 0x86, 0x0b, 0x11, 0x9c,
     0xf5, 0x78, 0x62, 0xef, 0x56, 0xdb, 0xc1, 0x4c, 0x3e, 0xb3, 0xa9, 0x24, 0x9d, 0x10, 0x0a, 0x87,
     0xb4, 0x39, 0x23, 0xae, 0x17, 0x9a, 0x80, 0x0d, 0x7f, 0xf2, 0xe8, 0x65, 0xdc, 0x51, 0x4b, 0xc6,
     0xaf, 0x22, 0x38, 0xb5, 0x0c, 0x81, 0x9b, 0x16, 0x64, 0xe9, 0xf3, 0x7e, 0xc7, 0x4a, 0x50, 0xdd,
     0x82, 0x0f, 0x15, 0x98, 0x21, 0xac, 0xb6, 0x3b, 0x49, 0xc4, 0xde, 0x53, 0xea, 0x67, 0x7d, 0xf0,
     0x99, 0x14, 0x0e, 0x83, 0x3a, 0xb7, 0xad, 0x20, 0x52, 0xdf, 0xc5, 0x48, 0xf1, 0x7c, 0x66, 0xeb]"

definition crc8_ccitt :: "byte list" where
  "crc8_ccitt = map word_of_int crc8_values"

definition crc_step :: "byte \<Rightarrow> byte \<Rightarrow> byte" where
  "crc_step crc b = crc8_ccitt ! unat (crc XOR b)"

definition generate_crc :: "byte list \<Rightarrow> byte" where
  "generate_crc buf = foldl crc_step 0xff buf"

section \<open>Frames\<close>

definition byte_of :: "char \<Rightarrow> byte" where "byte_of c = of_nat (of_char c)"

definition d_to_x :: "byte \<Rightarrow> byte" where
  "d_to_x d = (if d < 10 then d + byte_of (CHR ''0'') else (d - 10) + byte_of (CHR ''a''))"

definition x_to_d :: "byte \<Rightarrow> byte" where
  "x_to_d x = (if byte_of (CHR ''0'') \<le> x \<and> x \<le> byte_of (CHR ''9'') then x - byte_of (CHR ''0'')
               else (x - byte_of (CHR ''a'')) + 10)"

text \<open>Bytes written over a buffer from an offset on.\<close>

definition write_bytes :: "nat \<Rightarrow> byte list \<Rightarrow> byte list \<Rightarrow> byte list" where
  "write_bytes off bs buf = take off buf @ bs @ drop (off + length bs) buf"

text \<open>\<^verbatim>\<open>%.16zx\<close>.\<close>

definition hex16 :: "u64 \<Rightarrow> string" where
  "hex16 n = zero_pad 16 (digits_of 16 (unat n))"

definition prepare_output :: "nat \<Rightarrow> u64 \<Rightarrow> byte list \<Rightarrow> byte list" where
  "prepare_output packet_size oseq packet =
     (let payloadsz = packet_size - FRAME_METADATA_LEN;
          packet = write_bytes 0 (map byte_of (snprintf_text packet_size (CHR ''^'' # hex16 oseq)) @ [0]) packet;
          packet = write_bytes 17 (replicate payloadsz (byte_of (CHR ''A'') + ucast (oseq mod 26))) packet;
          packet = packet[packet_size - 3 := byte_of (CHR ''$'')];
          crc = generate_crc (take (packet_size - 2) packet);
          packet = packet[packet_size - 1 := d_to_x (crc mod 16)]
      in packet[packet_size - 2 := d_to_x (crc div 16)])"

text \<open>The loop on the digits: \<open>n\<close> digits are left, the next one at the offset \<open>p\<close>.\<close>

fun serial_loop :: "nat \<Rightarrow> byte list \<Rightarrow> nat \<Rightarrow> s32 \<Rightarrow> u64 \<Rightarrow> u64 option" where
  "serial_loop 0 packet p r serial = Some serial"
| "serial_loop (Suc n) packet p r serial =
     (let c = packet ! p;
          d = (if byte_of (CHR ''0'') \<le> c \<and> c \<le> byte_of (CHR ''9'') then Some (c - byte_of (CHR ''0''))
               else if byte_of (CHR ''a'') \<le> c \<and> c \<le> byte_of (CHR ''f'') then Some ((c - byte_of (CHR ''a'')) + 10)
               else None)
      in case d of None \<Rightarrow> None
         | Some d \<Rightarrow> serial_loop n packet (p - 1) (r * 16) (serial + scast (ucast d * r)))"

text \<open>The serial number of a good frame.\<close>

definition parse_input :: "nat \<Rightarrow> byte list \<Rightarrow> u64 option" where
  "parse_input packet_size packet =
     (let crc = x_to_d (packet ! (packet_size - 2)) * 16 + x_to_d (packet ! (packet_size - 1))
      in if generate_crc (take (packet_size - 2) packet) \<noteq> crc then None
         else serial_loop 16 packet 16 1 0)"

section \<open>Reception\<close>

record net_rx =
  last_serial :: u64
  invalid_lost :: u64
  check_sequence :: bool

text \<open>The end of \<^verbatim>\<open>rx\<close>, from the switch on the first byte.\<close>

definition rx_frame :: "nat \<Rightarrow> byte list \<Rightarrow> net_rx \<Rightarrow> net_rx" where
  "rx_frame packet_size packet rx =
     (if packet ! 0 = byte_of (CHR ''^'') then
        (case parse_input packet_size packet of
           None \<Rightarrow> rx\<lparr>invalid_lost := invalid_lost rx + 1\<rparr>
         | Some next_serial \<Rightarrow>
             (let rx = (if check_sequence rx \<and> last_serial rx > 0 \<and> next_serial \<noteq> last_serial rx + 1 then
                          (if next_serial > last_serial rx
                           then rx\<lparr>invalid_lost := next_serial - last_serial rx - 1\<rparr>
                           else rx\<lparr>invalid_lost := invalid_lost rx + 1\<rparr>)
                        else rx)
              in rx\<lparr>last_serial := next_serial\<rparr>))
      else rx\<lparr>invalid_lost := invalid_lost rx + 1\<rparr>)"

text \<open>The state that \<^verbatim>\<open>run_net_test\<close> sets up.\<close>

definition net_rx_init :: "bool \<Rightarrow> net_rx" where
  "net_rx_init no_check = \<lparr>last_serial = 0, invalid_lost = 0, check_sequence = no_check\<rparr>"

text \<open>The size of the packets, or \<open>None\<close> for one that is too short.\<close>

definition pick_packet_size :: "nat \<Rightarrow> nat option" where
  "pick_packet_size packet_size =
     (if packet_size = 0 then Some DEFAULT_PACKET_LEN
      else if packet_size \<le> FRAME_METADATA_LEN then None else Some packet_size)"

section \<open>Transmission\<close>

text \<open>The results of the calls to \<^verbatim>\<open>oob_sendmsg\<close>: sent, it would block, another error.  \<open>None\<close> is a
  loop that never ends because the list of results ran out; the second component counts the
  overruns, the last is whether the program ends with an error.\<close>

datatype send_result = Sent | Would_block | Send_error

fun tx_loop :: "send_result list \<Rightarrow> u32 \<Rightarrow> (u32 \<times> bool) option" where
  "tx_loop [] overruns = None"
| "tx_loop (Sent # rs) overruns = Some (overruns, False)"
| "tx_loop (Would_block # rs) overruns = tx_loop rs (overruns + 1)"
| "tx_loop (Send_error # rs) overruns = Some (overruns, True)"

definition net_timespec_add_ns :: "int \<times> int \<Rightarrow> int \<Rightarrow> int \<times> int" where
  "net_timespec_add_ns t ns =
     (let s = sgn ns * (\<bar>ns\<bar> div 1000000000);
          rem = ns - s * 1000000000;
          sec = fst t + s; nsec = snd t + rem
      in if 1000000000 \<le> nsec then (sec + 1, nsec - 1000000000) else (sec, nsec))"

end
