(* ===== verification/Latmus_Runner.thy ===== *)
theory Latmus_Runner
  imports Latmus_Net Latmus_Stats
begin

text \<open>
  The network test of \<^verbatim>\<open>latmus/net.c\<close> around its frames: the rounds of the runner thread, which send a frame,
  collect the time stamps of frames sent, and wait for a frame of the peer; the logging of the time
  stamps, and of the last bulk at the end.  What the kernel answers in a round is its argument.
\<close>

section \<open>The descriptor\<close>

text \<open>
  The four measurements (\<^verbatim>\<open>rx.queuing\<close> to \<^verbatim>\<open>tx.delivery\<close>) and the array of statistics have the indices of the
  enumeration.
\<close>

datatype net_index = RX_QUEUING | RX_DELIVERY | TX_QUEUING | TX_DELIVERY

record net_desc =
  nd_packet_size :: nat
  tx_packet :: "byte list"
  nd_rx :: net_rx
  meas_of :: "net_index \<Rightarrow> measurement"
  stat_of :: "net_index \<Rightarrow> statistics"

record iotimes =
  queuing_time :: u64
  delivery_time :: u64
  device_time :: u64

definition rounds_per_sec :: "u32 \<Rightarrow> u32" where
  "rounds_per_sec period_usecs = 1000000 div period_usecs"

definition stat_name :: "net_index \<Rightarrow> string" where
  "stat_name i = (case i of RX_QUEUING \<Rightarrow> ''RX queuing'' | RX_DELIVERY \<Rightarrow> ''RX delivery''
     | TX_QUEUING \<Rightarrow> ''TX queuing'' | TX_DELIVERY \<Rightarrow> ''TX delivery'')"

text \<open>The descriptor \<^verbatim>\<open>run_net_test\<close> makes; \<open>None\<close> if the packet is too short or there is no memory for a
  histogram, which end the program.\<close>

definition net_desc_init :: "bool \<Rightarrow> nat \<Rightarrow> bool \<Rightarrow> nat \<Rightarrow> net_desc option" where
  "net_desc_init mem packet_size no_check cells =
     (case pick_packet_size packet_size of None \<Rightarrow> None
      | Some n \<Rightarrow>
          (if init_statistics mem [] cells = None then None
           else Some \<lparr>nd_packet_size = n, tx_packet = replicate n 0, nd_rx = net_rx_init no_check,
                  meas_of = (\<lambda>_. reset_measurement \<lparr>sum_lat = 0, min_lat = 0, max_lat = 0, meas_overruns = 0, meas_samples = 0\<rparr>),
                  stat_of = (\<lambda>i. the (init_statistics mem (stat_name i) cells))\<rparr>))"

section \<open>Logging\<close>

text \<open>\<^verbatim>\<open>add_measurement_histogram\<close> on the statistics and the measurement of an index.\<close>

definition add_time :: "net_index \<Rightarrow> u64 \<Rightarrow> net_desc \<Rightarrow> net_desc" where
  "add_time i dt nd =
     (let (st, meas) = add_measurement_histogram (stat_of nd i) (meas_of nd i) dt
      in nd\<lparr>stat_of := (stat_of nd)(i := st), meas_of := (meas_of nd)(i := meas)\<rparr>)"

text \<open>\<^verbatim>\<open>__log_results\<close> for some indices in turn; \<open>elapsed\<close> is the time each of them reads.\<close>

fun log_bulks :: "int \<Rightarrow> (net_index \<Rightarrow> u64) \<Rightarrow> net_index list \<Rightarrow> net_desc \<Rightarrow> int + net_desc" where
  "log_bulks threshold elapsed [] nd = Inr nd"
| "log_bulks threshold elapsed (i # is) nd =
     (case merge_results threshold (elapsed i) (stat_of nd i) (meas_of nd i) of Inl code \<Rightarrow> Inl code
      | Inr st \<Rightarrow> log_bulks threshold elapsed is (nd\<lparr>stat_of := (stat_of nd)(i := st)\<rparr>))"

text \<open>It prints only.\<close>

definition more_net_data :: "statistics \<Rightarrow> measurement \<Rightarrow> int option" where
  "more_net_data st meas = Some 0"

definition log_rx_times :: "u32 \<Rightarrow> int \<Rightarrow> (net_index \<Rightarrow> u64) \<Rightarrow> iotimes \<Rightarrow> u32 \<Rightarrow> net_desc \<Rightarrow> int + net_desc" where
  "log_rx_times rate threshold elapsed iot round nd =
     (let nd = add_time RX_QUEUING (queuing_time iot - device_time iot) nd;
          nd = add_time RX_DELIVERY (delivery_time iot - device_time iot) nd
      in if round mod rate = 0 then
           (case log_bulks threshold elapsed [TX_QUEUING, TX_DELIVERY, RX_QUEUING] nd of Inl code \<Rightarrow> Inl code
            | Inr nd \<Rightarrow>
                (case the (log_results more_net_data threshold (elapsed RX_DELIVERY) (stat_of nd RX_DELIVERY) (meas_of nd RX_DELIVERY)) of
                   Inl code \<Rightarrow> Inl code
                 | Inr st \<Rightarrow> Inr (nd\<lparr>stat_of := (stat_of nd)(RX_DELIVERY := st),
                     meas_of := (\<lambda>i. reset_measurement (meas_of nd i))\<rparr>)))
         else Inr nd)"

definition log_tx_time :: "iotimes \<Rightarrow> net_desc \<Rightarrow> net_desc" where
  "log_tx_time iot nd =
     add_time TX_DELIVERY (device_time iot - delivery_time iot) (add_time TX_QUEUING (queuing_time iot - delivery_time iot) nd)"

definition log_tx_times :: "iotimes list \<Rightarrow> net_desc \<Rightarrow> net_desc" where
  "log_tx_times iots nd = fold log_tx_time iots nd"

definition finalize_last_bulk :: "int \<Rightarrow> (net_index \<Rightarrow> u64) \<Rightarrow> net_desc \<Rightarrow> int + net_desc" where
  "finalize_last_bulk threshold elapsed nd = log_bulks threshold elapsed [TX_QUEUING, TX_DELIVERY, RX_QUEUING, RX_DELIVERY] nd"

section \<open>A round\<close>

text \<open>
  What a call to \<^verbatim>\<open>oob_recvmsg\<close> does: it leaves a frame in the buffer of the receiver, with a time stamp if the
  flag is set, or it times out, or fails.
\<close>

datatype recv_result = Received "byte list" bool iotimes | Timed_out | Recv_error

definition rx_received :: "u32 \<Rightarrow> int \<Rightarrow> (net_index \<Rightarrow> u64) \<Rightarrow> u32 \<Rightarrow> byte list \<Rightarrow> bool \<Rightarrow> iotimes \<Rightarrow> net_desc \<Rightarrow> int + net_desc" where
  "rx_received rate threshold elapsed seq packet stamped iot nd =
     (case (if packet ! 0 = byte_of (CHR ''^'') \<and> stamped then log_rx_times rate threshold elapsed iot seq nd else Inr nd) of
        Inl code \<Rightarrow> Inl code
      | Inr nd \<Rightarrow> Inr (nd\<lparr>nd_rx := rx_frame (nd_packet_size nd) packet (nd_rx nd)\<rparr>))"

text \<open>\<open>None\<close> is a wait that never ends.\<close>

fun rx_wait :: "u32 \<Rightarrow> int \<Rightarrow> (net_index \<Rightarrow> u64) \<Rightarrow> u32 \<Rightarrow> recv_result list \<Rightarrow> net_desc \<Rightarrow> (int + net_desc) option" where
  "rx_wait rate threshold elapsed seq [] nd = None"
| "rx_wait rate threshold elapsed seq (Timed_out # rs) nd = rx_wait rate threshold elapsed seq rs nd"
| "rx_wait rate threshold elapsed seq (Recv_error # rs) nd = Some (Inl 1)"
| "rx_wait rate threshold elapsed seq (Received packet stamped iot # rs) nd =
     Some (rx_received rate threshold elapsed seq packet stamped iot nd)"

definition net_tx :: "send_result list \<Rightarrow> net_desc \<Rightarrow> (int + net_desc) option" where
  "net_tx sends nd =
     map_option (\<lambda>(overruns, failed).
         if failed then Inl 1
         else Inr (nd\<lparr>meas_of := (meas_of nd)(TX_DELIVERY := (meas_of nd TX_DELIVERY)\<lparr>meas_overruns := overruns\<rparr>)\<rparr>))
       (tx_loop sends (meas_overruns (meas_of nd TX_DELIVERY)))"

text \<open>The time stamps of frames sent: some, none yet, or an error.\<close>

datatype tx_stamps = Stamps "iotimes list" | No_stamps | Stamps_error

record net_round_in =
  in_sends :: "send_result list"
  in_timer :: bool
  in_stamps :: tx_stamps
  in_recvs :: "recv_result list"
  in_elapsed :: "net_index \<Rightarrow> u64"

definition net_round :: "u32 \<Rightarrow> int \<Rightarrow> u64 \<Rightarrow> net_round_in \<Rightarrow> net_desc \<Rightarrow> (int + net_desc) option" where
  "net_round rate threshold seq ev nd =
     (let nd = nd\<lparr>tx_packet := prepare_output (nd_packet_size nd) seq (tx_packet nd)\<rparr> in
      case net_tx (in_sends ev) nd of None \<Rightarrow> None | Some (Inl code) \<Rightarrow> Some (Inl code)
      | Some (Inr nd) \<Rightarrow>
          (if \<not> in_timer ev then Some (Inl 1)
           else case in_stamps ev of Stamps_error \<Rightarrow> Some (Inl 1)
           | No_stamps \<Rightarrow> rx_wait rate threshold (in_elapsed ev) (ucast seq) (in_recvs ev) nd
           | Stamps iots \<Rightarrow> rx_wait rate threshold (in_elapsed ev) (ucast seq) (in_recvs ev) (log_tx_times iots nd)))"

text \<open>The rounds of \<^verbatim>\<open>net_runner\<close> until it is stopped.\<close>

fun net_rounds :: "u32 \<Rightarrow> int \<Rightarrow> u64 \<Rightarrow> net_round_in list \<Rightarrow> net_desc \<Rightarrow> (int + net_desc) option" where
  "net_rounds rate threshold seq [] nd = Some (Inr nd)"
| "net_rounds rate threshold seq (ev # evs) nd =
     (case net_round rate threshold seq ev nd of None \<Rightarrow> None | Some (Inl code) \<Rightarrow> Some (Inl code)
      | Some (Inr nd) \<Rightarrow> net_rounds rate threshold (seq + 1) evs nd)"

text \<open>
  The test until the signal that ends it: the descriptor, and the rounds of the runner thread, which is the only one to work on the descriptor so far.  On the signal the main
  thread logs the last bulk, with \<open>finalize_last_bulk\<close>; this is not a step of this function, because the runner is not stopped and goes on with its rounds meanwhile.
\<close>

definition run_net_test :: "bool \<Rightarrow> nat \<Rightarrow> bool \<Rightarrow> nat \<Rightarrow> u32 \<Rightarrow> int \<Rightarrow> net_round_in list \<Rightarrow> (int + net_desc) option" where
  "run_net_test mem packet_size no_check cells period threshold evs =
     (case net_desc_init mem packet_size no_check cells of None \<Rightarrow> Some (Inl 1)
      | Some nd \<Rightarrow> net_rounds (rounds_per_sec period) threshold 0 evs nd)"

end
