(* ===== verification/Latmus_Net_Correct.thy ===== *)
theory Latmus_Net_Correct
  imports Latmus_Net
begin

text \<open>
  The frames of the network test: the serial number written to a frame is read back, and what the receiver makes of a frame with one
  corrupted byte.
\<close>

section \<open>The checksum\<close>

lemma crc8_values_distinct: "distinct crc8_values"
  by (simp add: crc8_values_def)

lemma crc8_values_range: "list_all (\<lambda>x. 0 \<le> x \<and> x < 256) crc8_values"
  by (simp add: crc8_values_def)

lemma crc8_length: "length crc8_ccitt = 256"
  by (simp add: crc8_ccitt_def crc8_values_def)

lemma crc8_distinct: "distinct crc8_ccitt"
proof -
  have "inj_on (word_of_int :: int \<Rightarrow> byte) (set crc8_values)"
  proof (rule inj_onI)
    fix x y assume "x \<in> set crc8_values" "y \<in> set crc8_values" "(word_of_int x :: byte) = word_of_int y"
    then show "x = y" using crc8_values_range
      by (simp add: list_all_iff word_of_int_eq_iff take_bit_int_eq_self)
  qed
  then show ?thesis using crc8_values_distinct by (simp add: crc8_ccitt_def distinct_map)
qed

lemma unat_byte: "unat (b :: byte) < 256"
  by (rule order.strict_trans2[OF unsigned_less]) simp

text \<open>A step is injective in the checksum so far and in the byte.\<close>

lemma crc_step_inj: "crc_step c b = crc_step c' b' \<longleftrightarrow> c XOR b = c' XOR b'"
  unfolding crc_step_def
  using nth_eq_iff_index_eq[OF crc8_distinct, of "unat (c XOR b)" "unat (c' XOR b')"] unat_byte
  by (simp add: crc8_length word_unat_eq_iff)

lemma xor_cancel_byte: "c XOR b = c' XOR b \<longleftrightarrow> c = (c' :: byte)" "c XOR b = c XOR b' \<longleftrightarrow> b = (b' :: byte)"
  by (metis xor.right_neutral xor.assoc xor_self_eq) (metis xor.left_neutral xor.assoc xor_self_eq)

lemma crc_fold_inj: "foldl crc_step c bs = foldl crc_step c' bs \<longleftrightarrow> c = c'"
  by (induction bs arbitrary: c c') (simp_all add: crc_step_inj xor_cancel_byte)

text \<open>Two contents that differ in exactly one byte have different checksums.\<close>

lemma crc_other_byte:
  assumes "i < k" and "k \<le> length xs" and "b \<noteq> xs ! i"
  shows "generate_crc (take k (xs[i := b])) \<noteq> generate_crc (take k xs)"
proof -
  have xs: "take k xs = take i xs @ xs ! i # drop (Suc i) (take k xs)"
    using assms(1,2) id_take_nth_drop[of i "take k xs"] by simp
  have "take k (xs[i := b]) = take i xs @ b # drop (Suc i) (take k xs)"
    using assms(1,2) upd_conv_take_nth_drop[of i "take k xs" b] by (simp add: take_update_swap)
  with assms(3) show ?thesis by (subst xs) (simp add: generate_crc_def crc_fold_inj crc_step_inj xor_cancel_byte)
qed

section \<open>Digits\<close>

text \<open>A number in \<open>k\<close> digits, the last one first.\<close>

lemma zero_pad_step:
  assumes "0 < k"
  shows "zero_pad (Suc k) (digits_of 16 n) = zero_pad k (digits_of 16 (n div 16)) @ [digit_char (n mod 16)]"
proof (cases "n < 16")
  case True
  have "digit_char 0 = CHR ''0''" by code_simp
  then have "replicate k (CHR ''0'') = replicate (k - 1) (CHR ''0'') @ [digit_char 0]"
    using assms by (metis Suc_pred' replicate_Suc replicate_append_same)
  then show ?thesis using True digits_of.simps[of 16 n] digits_of.simps[of 16 0]
    by (simp add: zero_pad_def)
next
  case False
  then have "digits_of 16 n = digits_of 16 (n div 16) @ [digit_char (n mod 16)]"
    using digits_of.simps[of 16 n] by simp
  then show ?thesis by (simp add: zero_pad_def)
qed

lemma zero_pad_digits:
  assumes "n < 16 ^ k" and "0 < k"
  shows "length (zero_pad k (digits_of 16 n)) = k
    \<and> (\<forall>i<k. zero_pad k (digits_of 16 n) ! (k - 1 - i) = digit_char (n div 16 ^ i mod 16))"
  using assms
proof (induction k arbitrary: n)
  case (Suc k)
  show ?case
  proof (cases "k = 0")
    case True
    then show ?thesis using Suc.prems digits_of.simps[of 16 n] by (simp add: zero_pad_def)
  next
    case False
    let ?z = "zero_pad k (digits_of 16 (n div 16))"
    have IH: "length ?z = k" "\<And>i. i < k \<Longrightarrow> ?z ! (k - 1 - i) = digit_char (n div 16 div 16 ^ i mod 16)"
      using Suc.IH[of "n div 16"] Suc.prems(1) False by (auto simp: div_less_iff_less_mult)
    have "(?z @ [digit_char (n mod 16)]) ! (k - i) = digit_char (n div 16 ^ i mod 16)" if "i < Suc k" for i
    proof (cases i)
      case 0
      then show ?thesis using IH(1) by (simp add: nth_append)
    next
      case (Suc j)
      then have "k - i = k - 1 - j" "j < k" using that by auto
      then show ?thesis using IH(1) IH(2)[of j] Suc by (simp add: nth_append div_mult2_eq)
    qed
    then show ?thesis using IH(1) False by (simp add: zero_pad_step)
  qed
qed simp

lemma less_16_cases: "d < 16 \<Longrightarrow> d \<in> {0, 1, 2, 3, 4, 5, 6, 7, 8, 9, 10, 11, 12, 13, 14, 15 :: nat}"
  by (simp, presburger)

lemma d_to_x_char: "d < 16 \<Longrightarrow> d_to_x (of_nat d) = byte_of (digit_char d)"
  by (drule less_16_cases) (auto simp: d_to_x_def byte_of_def digit_char_def)

lemma x_to_d_char: "d < 16 \<Longrightarrow> x_to_d (byte_of (digit_char d)) = of_nat d"
  by (drule less_16_cases) (auto simp: x_to_d_def byte_of_def digit_char_def)

text \<open>What the receiver makes of a digit.\<close>

lemma digit_byte:
  assumes "d < 16"
  shows "(if byte_of (CHR ''0'') \<le> byte_of (digit_char d) \<and> byte_of (digit_char d) \<le> byte_of (CHR ''9'')
      then Some (byte_of (digit_char d) - byte_of (CHR ''0''))
      else if byte_of (CHR ''a'') \<le> byte_of (digit_char d) \<and> byte_of (digit_char d) \<le> byte_of (CHR ''f'')
      then Some ((byte_of (digit_char d) - byte_of (CHR ''a'')) + 10) else None) = Some (of_nat d)"
  using less_16_cases[OF assms] by (auto simp: byte_of_def digit_char_def)

section \<open>The serial number\<close>

lemma sint_of_nat32: "x < 2 ^ 31 \<Longrightarrow> sint (of_nat x :: s32) = int x"
  by (simp add: signed_of_nat signed_take_bit_int_eq_self)

lemma weight:
  assumes "d < 16" and "d * 16 ^ i < 2 ^ 31"
  shows "(scast (ucast (of_nat d :: byte) * (16 ^ i :: s32)) :: u64) = of_nat (d * 16 ^ i)"
proof -
  have "(ucast (of_nat d :: byte) :: s32) = of_nat d"
    using assms(1) by (simp add: word_unat_eq_iff unsigned_ucast_eq unsigned_of_nat take_bit_nat_eq_self)
  then have "(ucast (of_nat d :: byte) * (16 ^ i :: s32)) = of_nat (d * 16 ^ i)" by simp
  then have "(scast (ucast (of_nat d :: byte) * (16 ^ i :: s32)) :: u64) = word_of_int (sint (of_nat (d * 16 ^ i) :: s32))"
    by (simp only: scast_eq)
  also have "\<dots> = of_nat (d * 16 ^ i)" by (simp only: sint_of_nat32[OF assms(2)] of_int_of_nat_eq)
  finally show ?thesis .
qed

lemma serial_loop_digits:
  assumes "v < 2 ^ 31" and "\<And>i. i < 16 \<Longrightarrow> packet ! (16 - i) = byte_of (digit_char (v div 16 ^ i mod 16))"
  shows "i + n = 16 \<Longrightarrow> serial_loop n packet (16 - i) (16 ^ i) (of_nat (v mod 16 ^ i)) = Some (of_nat v)"
proof (induction n arbitrary: i)
  case 0
  have "v < 16 ^ 16" using assms(1) by (rule order.strict_trans) simp
  then show ?case using 0 by simp
next
  case (Suc n)
  let ?d = "v div 16 ^ i mod 16"
  have i: "i < 16" "i + 1 + n = 16" using Suc.prems by auto
  have "?d * 16 ^ i \<le> v" by (meson le_trans mod_less_eq_dividend mult_le_mono1 div_times_less_eq_dividend)
  then have small: "?d * 16 ^ i < 2 ^ 31" using assms(1) by (rule le_less_trans)
  have "v mod 16 ^ (i + 1) = v mod 16 ^ i + ?d * 16 ^ i"
    by (simp only: power_add power_one_right mod_mult2_eq) (simp only: add.commute mult.commute)
  then have acc: "(of_nat (v mod 16 ^ i) :: u64) + of_nat (?d * 16 ^ i) = of_nat (v mod 16 ^ (i + 1))"
    by (simp only: of_nat_add)
  have "serial_loop (Suc n) packet (16 - i) (16 ^ i) (of_nat (v mod 16 ^ i))
      = serial_loop n packet (16 - i - 1) (16 ^ i * 16) (of_nat (v mod 16 ^ i) + scast (ucast (of_nat ?d :: byte) * (16 ^ i :: s32)))"
    by (simp only: serial_loop.simps Let_def assms(2)[OF i(1)] digit_byte[of ?d, simplified] digit_byte[OF mod_less_divisor[OF zero_less_numeral]] option.case)
  also have "\<dots> = serial_loop n packet (16 - (i + 1)) (16 ^ (i + 1)) (of_nat (v mod 16 ^ (i + 1)))"
    by (simp only: weight[OF mod_less_divisor[OF zero_less_numeral] small] acc diff_diff_left power_add power_one_right)
  also have "\<dots> = Some (of_nat v)" by (rule Suc.IH[OF i(2)])
  finally show ?case .
qed

lemma length_write: "off + length bs \<le> length buf \<Longrightarrow> length (write_bytes off bs buf) = length buf"
  by (simp add: write_bytes_def)

lemma nth_write:
  "off + length bs \<le> length buf \<Longrightarrow> i < length buf \<Longrightarrow>
    write_bytes off bs buf ! i = (if i < off then buf ! i else if i < off + length bs then bs ! (i - off) else buf ! i)"
  by (auto simp: write_bytes_def nth_append)

lemma crc_digits: "x_to_d (d_to_x (crc div 16)) * 16 + x_to_d (d_to_x (crc mod 16)) = crc"
proof -
  have q: "crc div 16 = of_nat (unat crc div 16)" "crc mod 16 = of_nat (unat crc mod 16)"
    by (simp_all add: word_unat_eq_iff unat_div_distrib unat_mod_distrib unsigned_of_nat take_bit_nat_eq_self
        order.strict_trans1[OF div_le_dividend] order.strict_trans1[OF mod_less_eq_dividend] unat_byte)
  have b: "unat crc div 16 < 16" "unat crc mod 16 < 16" using unat_byte[of crc] by (simp_all add: div_less_iff_less_mult)
  have "(of_nat (unat crc div 16) * 16 + of_nat (unat crc mod 16) :: byte) = of_nat (unat crc div 16 * 16 + unat crc mod 16)"
    by (simp only: of_nat_add of_nat_mult of_nat_numeral)
  also have "\<dots> = of_nat (unat crc)" by (simp only: div_mult_mod_eq)
  also have "\<dots> = crc" by simp
  finally show ?thesis by (simp only: q d_to_x_char[OF b(1)] d_to_x_char[OF b(2)] x_to_d_char[OF b(1)] x_to_d_char[OF b(2)])
qed

lemma length_hex16: "length (hex16 n) = 16"
  using zero_pad_digits[of "unat n" 16] order.strict_trans2[OF unat64_less[of n], of "16 ^ 16"] by (simp add: hex16_def)

lemma prepared:
  fixes n :: nat and oseq :: u64 and packet :: "byte list"
  assumes "20 < n" and "length packet = n"
  defines "P \<equiv> prepare_output n oseq packet"
  shows "length P = n"
    and "i < 17 \<Longrightarrow> P ! i = byte_of ((CHR ''^'' # hex16 oseq) ! i)"
    and "P ! (n - 2) = d_to_x (generate_crc (take (n - 2) P) div 16)"
    and "P ! (n - 1) = d_to_x (generate_crc (take (n - 2) P) mod 16)"
proof -
  let ?text = "CHR ''^'' # hex16 oseq"
  define p1 where "p1 = write_bytes 0 (map byte_of (snprintf_text n ?text) @ [0]) packet"
  define p2 where "p2 = write_bytes 17 (replicate (n - 20) (byte_of (CHR ''A'') + ucast (oseq mod 26))) p1"
  define p3 where "p3 = p2[n - 3 := byte_of (CHR ''$'')]"
  define crc where "crc = generate_crc (take (n - 2) p3)"
  have P: "P = p3[n - 1 := d_to_x (crc mod 16), n - 2 := d_to_x (crc div 16)]"
    by (simp only: P_def prepare_output_def Let_def p1_def p2_def p3_def crc_def FRAME_METADATA_LEN_def)
  have cut: "snprintf_text n ?text = ?text" using assms(1) length_hex16[of oseq] by (simp add: snprintf_text_def)
  have l1: "length p1 = n" unfolding p1_def cut using assms length_hex16[of oseq] by (subst length_write) simp_all
  have l2: "length p2 = n" unfolding p2_def using l1 assms(1) by (subst length_write) simp_all
  have l3: "length p3 = n" by (simp add: p3_def l2)
  have t: "take (n - 2) P = take (n - 2) p3"
    unfolding P using assms(1) by (simp add: take_update_cancel)
  show "length P = n" by (simp add: P l3)
  show "P ! (n - 2) = d_to_x (generate_crc (take (n - 2) P) div 16)"
    unfolding t crc_def[symmetric] unfolding P using l3 assms(1) by simp
  show "P ! (n - 1) = d_to_x (generate_crc (take (n - 2) P) mod 16)"
    unfolding t crc_def[symmetric] unfolding P using l3 assms(1) by simp
  assume i: "i < 17"
  have "P ! i = p1 ! i" unfolding P p3_def p2_def using i assms(1) l1
    by (simp add: nth_write length_write)
  also have "\<dots> = (map byte_of ?text @ [0]) ! i"
    unfolding p1_def cut using i assms length_hex16[of oseq] by (subst nth_write) simp_all
  also have "\<dots> = byte_of (?text ! i)"
  proof -
    have "i < length ?text" using i length_hex16[of oseq] by simp
    then show ?thesis by (simp only: nth_append length_map nth_map if_True)
  qed
  finally show "P ! i = byte_of (?text ! i)" .
qed

lemma prepared_digits:
  assumes "20 < n" and "length packet = n" and "i < 16"
  shows "prepare_output n oseq packet ! (16 - i) = byte_of (digit_char (unat oseq div 16 ^ i mod 16))"
proof -
  have "(CHR ''^'' # hex16 oseq) ! (16 - i) = hex16 oseq ! (15 - i)" using assms(3) by (simp add: nth_Cons')
  moreover have "hex16 oseq ! (15 - i) = digit_char (unat oseq div 16 ^ i mod 16)"
    using zero_pad_digits[of "unat oseq" 16] order.strict_trans2[OF unat64_less[of oseq], of "16 ^ 16"] assms(3)
    by (simp add: hex16_def)
  ultimately show ?thesis using prepared(2)[OF assms(1,2), where i = "16 - i" and oseq = oseq] by simp
qed

lemma parse_prepared:
  assumes "20 < n" and "length packet = n"
  shows "parse_input n (prepare_output n oseq packet) = serial_loop 16 (prepare_output n oseq packet) 16 1 0"
  unfolding parse_input_def Let_def prepared(3,4)[OF assms] crc_digits by simp

text \<open>
  C15.  A frame of any accepted size that carries a serial number below \<open>2 ^ 31\<close> is accepted by the
  receiver, which reads that number back.
\<close>

theorem frame_roundtrip:
  assumes "20 < n" and "length packet = n" and "unat oseq < 2 ^ 31"
  shows "parse_input n (prepare_output n oseq packet) = Some oseq"
  using serial_loop_digits[OF assms(3) prepared_digits[OF assms(1,2)], of 0 16]
  by (simp add: parse_prepared[OF assms(1,2)])

theorem frame_roundtrip_witness:
  "parse_input 64 (prepare_output 64 305419896 (replicate 64 0)) = Some 305419896"
  using frame_roundtrip[of 64 "replicate 64 0" 305419896] by simp

lemma serial_loop_prefix:
  "(\<And>j. j \<le> p \<Longrightarrow> xs ! j = ys ! j) \<Longrightarrow> serial_loop n xs p r v = serial_loop n ys p r v"
proof (induction n arbitrary: p r v)
  case (Suc n)
  have "xs ! p = ys ! p" by (rule Suc.prems) simp
  moreover have "serial_loop n xs (p - 1) r v = serial_loop n ys (p - 1) r v" for r v
    by (rule Suc.IH) (use Suc.prems in simp)
  ultimately show ?case by (simp only: serial_loop.simps Let_def)
qed simp

text \<open>What the receiver makes of a frame with another byte at one place.\<close>

lemma parse_corrupted:
  assumes "20 < n" and "length packet = n" and "i < n" and "b \<noteq> prepare_output n oseq packet ! i"
  shows "parse_input n ((prepare_output n oseq packet)[i := b]) =
      (if i < n - 2 then None
       else if x_to_d b * (if i = n - 2 then 16 else 1) = x_to_d (prepare_output n oseq packet ! i) * (if i = n - 2 then 16 else 1)
       then parse_input n (prepare_output n oseq packet) else None)"
proof -
  define P where "P = prepare_output n oseq packet"
  note P = prepared[OF assms(1,2), where oseq = oseq, folded P_def]
  let ?crc = "generate_crc (take (n - 2) P)" and ?Q = "P[i := b]"
  have good: "x_to_d (P ! (n - 2)) * 16 + x_to_d (P ! (n - 1)) = ?crc" using P(3,4) crc_digits by simp
  have digits: "n - 2 \<noteq> n - 1" "n - 2 < n" "n - 1 < n" using assms(1) by simp_all
  show ?thesis unfolding P_def[symmetric]
  proof (cases "i < n - 2")
    case True
    then have "generate_crc (take (n - 2) ?Q) \<noteq> ?crc"
      using crc_other_byte[of i "n - 2" P b] P(1) assms(4) by (simp add: P_def)
    then show "parse_input n ?Q = (if i < n - 2 then None
       else if x_to_d b * (if i = n - 2 then 16 else 1) = x_to_d (P ! i) * (if i = n - 2 then 16 else 1) then parse_input n P else None)"
      using True good P(1) by (simp add: parse_input_def Let_def)
  next
    case False
    then have crc: "generate_crc (take (n - 2) ?Q) = ?crc" by (simp add: take_update_cancel)
    have loop: "serial_loop 16 ?Q 16 1 0 = serial_loop 16 P 16 1 0"
      by (rule serial_loop_prefix) (use False assms(1) in simp)
    have whole: "parse_input n P = serial_loop 16 P 16 1 0" using good by (simp add: parse_input_def Let_def)
    have Q: "parse_input n ?Q = (if x_to_d (?Q ! (n - 2)) * 16 + x_to_d (?Q ! (n - 1)) = x_to_d (P ! (n - 2)) * 16 + x_to_d (P ! (n - 1))
        then parse_input n P else None)"
      unfolding whole good by (simp add: parse_input_def Let_def crc loop eq_commute)
    consider (high) "i = n - 2" | (low) "i = n - 1" using False assms(3) by linarith
    then show "parse_input n ?Q = (if i < n - 2 then None
       else if x_to_d b * (if i = n - 2 then 16 else 1) = x_to_d (P ! i) * (if i = n - 2 then 16 else 1) then parse_input n P else None)"
    proof cases
      case high
      have "i < length P" "?Q ! (n - 1) = P ! (n - 1)" using digits P(1) high by auto
      then show ?thesis unfolding Q by (simp add: high[symmetric])
    next
      case low
      have "\<not> i < n - 2" "i \<noteq> n - 2" "i < length P" "?Q ! (n - 2) = P ! (n - 2)" "?Q ! (n - 1) = b" "P ! (n - 1) = P ! i"
        using digits P(1) low by auto
      then show ?thesis unfolding Q by simp
    qed
  qed
qed

text \<open>
  C38.  A frame with one corrupted byte: the receiver refuses it and counts it as invalid if the byte is not one of the last two, which are the digits of the checksum.
  A corrupted digit of the checksum is noticed only if it has another value for the receiver, which takes any character for a digit; the frame is read as it was sent otherwise.
\<close>

theorem frame_corruption:
  assumes "20 < n" and "length packet = n" and "i < n" and "b \<noteq> prepare_output n oseq packet ! i"
  shows "parse_input n ((prepare_output n oseq packet)[i := b]) =
      (if i < n - 2 then None
       else if x_to_d b * (if i = n - 2 then 16 else 1) = x_to_d (prepare_output n oseq packet ! i) * (if i = n - 2 then 16 else 1)
       then parse_input n (prepare_output n oseq packet) else None)
    \<and> (i < n - 2 \<longrightarrow> rx_frame n ((prepare_output n oseq packet)[i := b]) rx = rx\<lparr>invalid_lost := invalid_lost rx + 1\<rparr>)"
  using parse_corrupted[OF assms] by (simp add: rx_frame_def)

theorem frame_corruption_witness:
  "parse_input 64 ((prepare_output 64 7 (replicate 64 0))[0 := 0]) = None"
  using frame_corruption[of 64 "replicate 64 0" 0 0 7] prepared(2)[of 64 "replicate 64 0" 0 7]
  by (simp add: byte_of_def)

text \<open>There is always another first digit of the checksum with which the frame is accepted.\<close>

theorem crc_digit_unnoticed:
  assumes "20 < n" and "length packet = n"
  shows "\<exists>b. b \<noteq> prepare_output n oseq packet ! (n - 2) \<and>
    parse_input n ((prepare_output n oseq packet)[n - 2 := b]) = parse_input n (prepare_output n oseq packet)"
proof -
  define P where "P = prepare_output n oseq packet"
  define d where "d = unat (generate_crc (take (n - 2) P)) div 16"
  have d: "d < 16" using unat_byte by (simp add: d_def div_less_iff_less_mult)
  have "generate_crc (take (n - 2) P) div 16 = of_nat d"
    by (simp add: d_def word_unat_eq_iff unat_div_distrib unsigned_of_nat take_bit_nat_eq_self order.strict_trans1[OF div_le_dividend] unat_byte)
  then have digit: "P ! (n - 2) = byte_of (digit_char d)"
    using prepared(3)[OF assms, where oseq = oseq, folded P_def] d_to_x_char[OF d] by simp
  have "(of_nat d + 0x47 :: byte) \<noteq> byte_of (digit_char d)" "x_to_d (of_nat d + 0x47) * 16 = x_to_d (byte_of (digit_char d)) * 16"
    using less_16_cases[OF d] by (auto simp: byte_of_def digit_char_def x_to_d_def)
  then show ?thesis
    using parse_corrupted[OF assms, of "n - 2" "of_nat d + 0x47" oseq] assms(1) digit
    by (intro exI[of _ "of_nat d + 0x47"]) (simp add: P_def)
qed

lemma zero_digit: "packet ! p = 48 \<Longrightarrow> serial_loop (Suc n) packet p r serial = serial_loop n packet (p - 1) (r * 16) serial"
  and eight_digit: "packet ! p = 56 \<Longrightarrow> serial_loop (Suc n) packet p r serial = serial_loop n packet (p - 1) (r * 16) (serial + scast (8 * r))"
  by (simp_all add: byte_of_def)

text \<open>From \<open>2 ^ 31\<close> on the serial number is read back wrong: the weights of the digits are \<^verbatim>\<open>int\<close>s.\<close>

theorem large_serial_lost:
  "parse_input 64 (prepare_output 64 (2 ^ 31) (replicate 64 0)) = Some (2 ^ 64 - 2 ^ 31)"
proof -
  define P where "P = prepare_output 64 (2 ^ 31) (replicate 64 0)"
  have d: "P ! (16 - i) = byte_of (digit_char (2 ^ 31 div 16 ^ i mod 16))" if "i < 16" for i
    unfolding P_def using prepared_digits[of 64 "replicate 64 0" i "2 ^ 31"] that by simp
  have zero: "byte_of (digit_char 0) = 48" and eight: "byte_of (digit_char 8) = 56"
    by (simp_all add: byte_of_def digit_char_def)
  have D: "P ! 16 = 48"
    "P ! 15 = 48"
    "P ! 14 = 48"
    "P ! 13 = 48"
    "P ! 12 = 48"
    "P ! 11 = 48"
    "P ! 10 = 48"
    "P ! 9 = 56"
    "P ! 8 = 48"
    "P ! 7 = 48"
    "P ! 6 = 48"
    "P ! 5 = 48"
    "P ! 4 = 48"
    "P ! 3 = 48"
    "P ! 2 = 48"
    "P ! 1 = 48"
    using d[of 0] d[of 1] d[of 2] d[of 3] d[of 4] d[of 5] d[of 6] d[of 7] d[of 8] d[of 9] d[of 10] d[of 11] d[of 12] d[of 13] d[of 14] d[of 15]
    by (simp_all add: zero eight)
  have "serial_loop (Suc (Suc (Suc (Suc (Suc (Suc (Suc (Suc (Suc (Suc (Suc (Suc (Suc (Suc (Suc (Suc 0)))))))))))))))) P 16 1 0
      = Some (2 ^ 64 - 2 ^ 31)"
    by (simp add: D D(16)[unfolded One_nat_def] zero_digit eight_digit del: serial_loop.simps(2))
  moreover have "serial_loop 16 P 16 1 0 = serial_loop (Suc (Suc (Suc (Suc (Suc (Suc (Suc (Suc (Suc (Suc (Suc (Suc (Suc (Suc (Suc (Suc 0)))))))))))))))) P 16 1 0"
    by (rule arg_cong[where f = "\<lambda>n. serial_loop n P 16 1 0"]) simp
  ultimately show ?thesis using parse_prepared[of 64 "replicate 64 0" "2 ^ 31"] by (simp only: P_def length_replicate)
qed

section \<open>Reception\<close>

text \<open>The option that disables the check of the sequence enables it, and the other way round.\<close>

theorem no_check_inverted:
  "check_sequence (net_rx_init True)" and "\<not> check_sequence (net_rx_init False)"
  by (simp_all add: net_rx_init_def)

text \<open>Frames lost before are forgotten when a new gap is seen: the count is set, not increased.\<close>

theorem lost_overwritten:
  assumes "packet ! 0 = byte_of (CHR ''^'')" and "parse_input n packet = Some 8"
  shows "invalid_lost (rx_frame n packet \<lparr>last_serial = 6, invalid_lost = 100, check_sequence = True\<rparr>) = 1"
  using assms by (simp add: rx_frame_def Let_def)

end
