(* ===== verification/Latmus_Runner_Correct.thy ===== *)
theory Latmus_Runner_Correct
  imports Latmus_Runner Latmus_Net_Correct
begin

text \<open>
  No time stamp is lost or counted twice by the rounds of the network test: the statistics and the current bulk hold all of them, however the rounds
  were cut into bulks.  The logging of the last bulk by the main thread can count one twice.
\<close>

section \<open>What was received and sent\<close>

text \<open>The time stamps of the frames a round receives, and of those it learns were sent.\<close>

fun received :: "recv_result list \<Rightarrow> iotimes list" where
  "received [] = []"
| "received (Received packet stamped iot # rs) = (if packet ! 0 = byte_of (CHR ''^'') \<and> stamped then [iot] else [])"
| "received (_ # rs) = received rs"

definition sent :: "tx_stamps \<Rightarrow> iotimes list" where
  "sent s = (case s of Stamps iots \<Rightarrow> iots | _ \<Rightarrow> [])"

fun blocks :: "send_result list \<Rightarrow> nat" where
  "blocks (Would_block # rs) = blocks rs + 1"
| "blocks _ = 0"

text \<open>The times of a round, by index.\<close>

definition round_times :: "net_index \<Rightarrow> net_round_in \<Rightarrow> u64 list" where
  "round_times i ev = (case i of
      RX_QUEUING \<Rightarrow> map (\<lambda>t. queuing_time t - device_time t) (received (in_recvs ev))
    | RX_DELIVERY \<Rightarrow> map (\<lambda>t. delivery_time t - device_time t) (received (in_recvs ev))
    | TX_QUEUING \<Rightarrow> map (\<lambda>t. queuing_time t - delivery_time t) (sent (in_stamps ev))
    | TX_DELIVERY \<Rightarrow> map (\<lambda>t. device_time t - delivery_time t) (sent (in_stamps ev)))"

definition all_times :: "net_index \<Rightarrow> net_round_in list \<Rightarrow> u64 list" where
  "all_times i evs = concat (map (round_times i) evs)"

section \<open>Bulks\<close>

text \<open>The statistics and the current bulk of an index make up the times \<open>ds\<close> and \<open>n\<close> overruns.\<close>

definition tally :: "net_desc \<Rightarrow> net_index \<Rightarrow> u64 list \<Rightarrow> nat \<Rightarrow> bool" where
  "tally nd i ds n \<longleftrightarrow>
     unat (all_samples (stat_of nd i)) + unat (meas_samples (meas_of nd i)) = length ds \<and> length ds < 2 ^ 32
     \<and> all_sum (stat_of nd i) + sum_lat (meas_of nd i) = sum_list ds
     \<and> all_overruns (stat_of nd i) + meas_overruns (meas_of nd i) = of_nat n"

lemma add_measurement_fields:
  "sum_lat (add_measurement m dt) = sum_lat m + dt" "meas_samples (add_measurement m dt) = meas_samples m + 1"
  "meas_overruns (add_measurement m dt) = meas_overruns m"
  by (simp_all add: add_measurement_def Let_def)

lemma add_histogram_fields:
  "all_samples (fst (add_measurement_histogram st m dt)) = all_samples st"
  "all_sum (fst (add_measurement_histogram st m dt)) = all_sum st"
  "all_overruns (fst (add_measurement_histogram st m dt)) = all_overruns st"
  "snd (add_measurement_histogram st m dt) = add_measurement m dt"
  by (simp_all add: add_measurement_histogram_def Let_def split: option.splits)

lemma add_time_other: "i \<noteq> j \<Longrightarrow> tally (add_time j dt nd) i ds n = tally nd i ds n"
  by (simp add: tally_def add_time_def split_beta)

lemma add_time_same:
  assumes "tally nd i ds n" and "length ds + 1 < 2 ^ 32"
  shows "tally (add_time i dt nd) i (ds @ [dt]) n"
proof -
  let ?m = "meas_of nd i"
  have "unat (meas_samples ?m) + 1 < 2 ^ 32" using assms by (simp add: tally_def)
  then have "unat (meas_samples ?m + 1) = unat (meas_samples ?m) + 1" by (simp add: unat_word_ariths)
  with assms show ?thesis
    by (simp add: tally_def add_time_def split_beta add_histogram_fields add_measurement_fields algebra_simps)
qed

text \<open>After a log the statistics alone hold the times.\<close>

definition logged :: "net_desc \<Rightarrow> net_index \<Rightarrow> u64 list \<Rightarrow> nat \<Rightarrow> bool" where
  "logged nd i ds n \<longleftrightarrow> unat (all_samples (stat_of nd i)) = length ds \<and> length ds < 2 ^ 32
     \<and> all_sum (stat_of nd i) = sum_list ds \<and> all_overruns (stat_of nd i) = of_nat n"

lemma merge_logged:
  assumes "merge_results thr t (stat_of nd i) (meas_of nd i) = Inr st" and "tally nd i ds n"
  shows "logged (nd\<lparr>stat_of := (stat_of nd)(i := st)\<rparr>) i ds n"
proof -
  have st: "all_samples st = all_samples (stat_of nd i) + ucast (meas_samples (meas_of nd i))"
    "all_sum st = all_sum (stat_of nd i) + sum_lat (meas_of nd i)"
    "all_overruns st = all_overruns (stat_of nd i) + meas_overruns (meas_of nd i)"
    using assms(1) by (auto simp: merge_results_def Let_def split: if_splits)
  have "unat (all_samples st) = unat (all_samples (stat_of nd i)) + unat (meas_samples (meas_of nd i))"
    using assms(2) unfolding st(1) tally_def by (subst unat_word_ariths) (simp add: unsigned_ucast_eq take_bit_nat_eq_self)
  with assms(2) show ?thesis by (simp add: logged_def tally_def st(2,3))
qed

lemma log_bulks_logged:
  assumes "log_bulks thr t is nd = Inr nd'" and "distinct is" and "\<forall>i\<in>set is. tally nd i (ds i) (n i)"
  shows "(\<forall>i\<in>set is. logged nd' i (ds i) (n i)) \<and> (\<forall>i. i \<notin> set is \<longrightarrow> stat_of nd' i = stat_of nd i) \<and> meas_of nd' = meas_of nd"
  using assms
proof (induction "is" arbitrary: nd)
  case (Cons i "is")
  obtain st where st: "merge_results thr (t i) (stat_of nd i) (meas_of nd i) = Inr st"
    "log_bulks thr t is (nd\<lparr>stat_of := (stat_of nd)(i := st)\<rparr>) = Inr nd'"
    using Cons.prems(1) by (auto split: sum.splits)
  have "logged (nd\<lparr>stat_of := (stat_of nd)(i := st)\<rparr>) i (ds i) (n i)" using merge_logged[OF st(1)] Cons.prems(3) by simp
  moreover have "\<forall>j\<in>set is. tally (nd\<lparr>stat_of := (stat_of nd)(i := st)\<rparr>) j (ds j) (n j)"
    using Cons.prems(2,3) by (auto simp: tally_def)
  ultimately show ?case using Cons.IH[OF st(2)] Cons.prems(2) by (auto simp: logged_def)
qed simp

lemma logged_reset:
  "logged nd i ds n \<Longrightarrow> meas_of nd' = (\<lambda>i. reset_measurement (m i)) \<Longrightarrow> stat_of nd' i = stat_of nd i \<Longrightarrow> tally nd' i ds n"
  by (simp add: logged_def tally_def reset_measurement_def)

section \<open>Rounds\<close>

definition tallies :: "net_desc \<Rightarrow> (net_index \<Rightarrow> u64 list) \<Rightarrow> (net_index \<Rightarrow> nat) \<Rightarrow> bool" where
  "tallies nd ds n \<longleftrightarrow> (\<forall>i. tally nd i (ds i) (n i))"

lemma tallies_other_fields [simp]:
  "tallies (nd\<lparr>tx_packet := p\<rparr>) ds n = tallies nd ds n" "tallies (nd\<lparr>nd_rx := r\<rparr>) ds n = tallies nd ds n"
  by (simp_all add: tallies_def tally_def)

lemma tallies_add_time:
  assumes "tallies nd ds n" and "length (ds i) + 1 < 2 ^ 32"
  shows "tallies (add_time i dt nd) (ds(i := ds i @ [dt])) n"
  using assms by (simp add: tallies_def add_time_other add_time_same)

text \<open>The times of the frames received, or of those sent, added to others.\<close>

definition with_rx :: "iotimes \<Rightarrow> (net_index \<Rightarrow> u64 list) \<Rightarrow> net_index \<Rightarrow> u64 list" where
  "with_rx t ds = ds(RX_QUEUING := ds RX_QUEUING @ [queuing_time t - device_time t],
     RX_DELIVERY := ds RX_DELIVERY @ [delivery_time t - device_time t])"

definition with_tx :: "iotimes list \<Rightarrow> (net_index \<Rightarrow> u64 list) \<Rightarrow> net_index \<Rightarrow> u64 list" where
  "with_tx ts ds = ds(TX_QUEUING := ds TX_QUEUING @ map (\<lambda>t. queuing_time t - delivery_time t) ts,
     TX_DELIVERY := ds TX_DELIVERY @ map (\<lambda>t. device_time t - delivery_time t) ts)"

lemma log_rx_tallies:
  assumes "log_rx_times rate thr t iot round nd = Inr nd'" and "tallies nd ds n"
    and "length (ds RX_QUEUING) + 1 < 2 ^ 32" and "length (ds RX_DELIVERY) + 1 < 2 ^ 32"
  shows "tallies nd' (with_rx iot ds) n"
proof -
  define nd1 where "nd1 = add_time RX_DELIVERY (delivery_time iot - device_time iot) (add_time RX_QUEUING (queuing_time iot - device_time iot) nd)"
  have t1: "tallies nd1 (with_rx iot ds) n"
    unfolding nd1_def with_rx_def
    using tallies_add_time[OF tallies_add_time[OF assms(2,3)], where i = RX_DELIVERY] assms(4) by simp
  show ?thesis
  proof (cases "round mod rate = 0")
    case False
    with assms(1) t1 show ?thesis by (simp add: log_rx_times_def nd1_def[symmetric])
  next
    case True
    let ?is = "[TX_QUEUING, TX_DELIVERY, RX_QUEUING]"
    obtain nd2 st where l: "log_bulks thr t ?is nd1 = Inr nd2"
      "merge_results thr (t RX_DELIVERY) (stat_of nd2 RX_DELIVERY) (meas_of nd2 RX_DELIVERY) = Inr st"
      "nd' = nd2\<lparr>stat_of := (stat_of nd2)(RX_DELIVERY := st), meas_of := (\<lambda>i. reset_measurement (meas_of nd2 i))\<rparr>"
      using assms(1) True unfolding log_rx_times_def Let_def nd1_def[symmetric]
      by (auto simp: log_results_def more_net_data_def simp del: log_bulks.simps split: sum.splits)
    have b: "\<forall>i\<in>set ?is. logged nd2 i (with_rx iot ds i) (n i)" "stat_of nd2 RX_DELIVERY = stat_of nd1 RX_DELIVERY" "meas_of nd2 = meas_of nd1"
      using log_bulks_logged[OF l(1), of "with_rx iot ds" n] t1 by (auto simp: tallies_def)
    then have "tally nd2 RX_DELIVERY (with_rx iot ds RX_DELIVERY) (n RX_DELIVERY)" using t1 by (simp add: tallies_def tally_def)
    from merge_logged[OF l(2) this] b(1) have "logged nd' i (with_rx iot ds i) (n i)" for i
      unfolding l(3) by (cases i) (simp_all add: logged_def)
    then show ?thesis unfolding tallies_def using logged_reset[of nd' _ _ _ nd'] by (simp add: l(3))
  qed
qed

lemma log_tx_tallies:
  assumes "tallies nd ds n" and "length (ds TX_QUEUING) + length ts < 2 ^ 32" and "length (ds TX_DELIVERY) + length ts < 2 ^ 32"
  shows "tallies (log_tx_times ts nd) (with_tx ts ds) n"
  using assms
proof (induction ts arbitrary: nd ds)
  case (Cons t ts)
  have "tallies (log_tx_time t nd) (with_tx [t] ds) n"
    unfolding log_tx_time_def using Cons.prems tallies_add_time[OF tallies_add_time[OF Cons.prems(1), where i = TX_QUEUING], where i = TX_DELIVERY]
    by (simp add: with_tx_def fun_upd_twist)
  moreover have "with_tx ts (with_tx [t] ds) = with_tx (t # ts) ds" by (rule ext) (simp add: with_tx_def)
  moreover have "length (with_tx [t] ds TX_QUEUING) + length ts < 2 ^ 32" "length (with_tx [t] ds TX_DELIVERY) + length ts < 2 ^ 32"
    using Cons.prems(2,3) by (simp_all add: with_tx_def)
  ultimately show ?case using Cons.IH[of "log_tx_time t nd" "with_tx [t] ds"] by (simp add: log_tx_times_def)
qed (simp add: log_tx_times_def with_tx_def)

lemma rx_wait_tallies:
  assumes "rx_wait rate thr t seq rs nd = Some (Inr nd')" and "tallies nd ds n"
    and "length (ds RX_QUEUING) + 1 < 2 ^ 32" and "length (ds RX_DELIVERY) + 1 < 2 ^ 32"
  shows "tallies nd' (fold with_rx (received rs) ds) n"
  using assms(1)
proof (induction rs rule: received.induct)
  case (2 packet stamped iot rs)
  let ?b = "packet ! 0 = byte_of (CHR ''^'') \<and> stamped"
  from 2 obtain nd1 where "(if ?b then log_rx_times rate thr t iot seq nd else Inr nd) = Inr nd1"
    "nd' = nd1\<lparr>nd_rx := rx_frame (nd_packet_size nd1) packet (nd_rx nd1)\<rparr>"
    by (auto simp: rx_received_def split: sum.splits)
  then show ?case using log_rx_tallies[OF _ assms(2-4), of rate thr t iot seq nd1] assms(2)
    by (cases ?b) (simp_all only: if_True if_False sum.inject received.simps list.simps fold.simps id_apply comp_apply tallies_other_fields simp_thms)
qed (use assms in simp_all)

lemma tx_loop_blocks: "tx_loop rs ov = Some (ov', False) \<Longrightarrow> ov' = ov + of_nat (blocks rs)"
proof (induction rs arbitrary: ov rule: blocks.induct)
  case (1 rs)
  then have "ov' = ov + 1 + of_nat (blocks rs)" by simp
  then show ?case by (simp add: add.assoc)
qed auto

lemma net_tx_tallies:
  assumes "net_tx rs nd = Some (Inr nd')" and "tallies nd ds n"
  shows "tallies nd' ds (n(TX_DELIVERY := n TX_DELIVERY + blocks rs))"
proof -
  obtain ov where ov: "tx_loop rs (meas_overruns (meas_of nd TX_DELIVERY)) = Some (ov, False)"
    "nd' = nd\<lparr>meas_of := (meas_of nd)(TX_DELIVERY := (meas_of nd TX_DELIVERY)\<lparr>meas_overruns := ov\<rparr>)\<rparr>"
    using assms(1) by (auto simp: net_tx_def split: if_splits)
  have "tally nd' i (ds i) ((n(TX_DELIVERY := n TX_DELIVERY + blocks rs)) i)" for i
    using assms(2) tx_loop_blocks[OF ov(1)] by (cases "i = TX_DELIVERY") (simp_all add: tallies_def tally_def ov(2) add.assoc[symmetric])
  then show ?thesis by (simp add: tallies_def)
qed

lemma received_one: "length (received rs) \<le> 1"
  by (induction rs rule: received.induct) auto

lemma net_round_tallies:
  assumes "net_round rate thr seq ev nd = Some (Inr nd')" and "tallies nd ds n" and "\<forall>i. length (ds i) + length (round_times i ev) < 2 ^ 32"
  shows "tallies nd' (\<lambda>i. ds i @ round_times i ev) (n(TX_DELIVERY := n TX_DELIVERY + blocks (in_sends ev)))"
proof -
  let ?nd0 = "nd\<lparr>tx_packet := prepare_output (nd_packet_size nd) seq (tx_packet nd)\<rparr>"
  let ?n = "n(TX_DELIVERY := n TX_DELIVERY + blocks (in_sends ev))"
  obtain nd1 where nd1: "net_tx (in_sends ev) ?nd0 = Some (Inr nd1)"
    "rx_wait rate thr (in_elapsed ev) (ucast seq) (in_recvs ev) (log_tx_times (sent (in_stamps ev)) nd1) = Some (Inr nd')"
    using assms(1) by (auto simp: net_round_def Let_def sent_def log_tx_times_def split: option.splits sum.splits if_splits tx_stamps.splits)
  have t1: "tallies nd1 ds ?n" using net_tx_tallies[OF nd1(1)] assms(2) by simp
  have len: "length (ds TX_QUEUING) + length (sent (in_stamps ev)) < 2 ^ 32" "length (ds TX_DELIVERY) + length (sent (in_stamps ev)) < 2 ^ 32"
    using assms(3)[rule_format, of TX_QUEUING] assms(3)[rule_format, of TX_DELIVERY] by (simp_all add: round_times_def)
  let ?ds = "with_tx (sent (in_stamps ev)) ds"
  have t2: "tallies (log_tx_times (sent (in_stamps ev)) nd1) ?ds ?n" by (rule log_tx_tallies[OF t1 len])
  have fin: "fold with_rx (received (in_recvs ev)) ?ds = (\<lambda>i. ds i @ round_times i ev)"
    using received_one[of "in_recvs ev"]
    by (cases "received (in_recvs ev)") (auto simp: round_times_def with_tx_def with_rx_def fun_eq_iff split: net_index.split)
  show ?thesis
  proof (cases "received (in_recvs ev) = []")
    case True
    have none: "nd'' = nd0\<lparr>nd_rx := nd_rx nd''\<rparr>" if "rx_wait rate thr t s rs nd0 = Some (Inr nd'')" "received rs = []" for rs t s nd0 nd''
      using that by (induction rs rule: received.induct) (auto simp: rx_received_def split: if_splits)
    have "tallies nd' ?ds ?n" using none[OF nd1(2) True] t2 tallies_other_fields(2) by metis
    with fin True show ?thesis by simp
  next
    case False
    then have one: "length (received (in_recvs ev)) = 1" using received_one[of "in_recvs ev"] by (cases "received (in_recvs ev)") auto
    have "length (?ds RX_QUEUING) + 1 < 2 ^ 32" "length (?ds RX_DELIVERY) + 1 < 2 ^ 32"
      using assms(3)[rule_format, of RX_QUEUING] assms(3)[rule_format, of RX_DELIVERY] one by (simp_all add: round_times_def with_tx_def)
    from rx_wait_tallies[OF nd1(2) t2 this] fin show ?thesis by simp
  qed
qed

lemma net_rounds_tallies:
  assumes "net_rounds rate thr seq evs nd = Some (Inr nd')" and "tallies nd ds n" and "\<forall>i. length (ds i) + length (all_times i evs) < 2 ^ 32"
  shows "tallies nd' (\<lambda>i. ds i @ all_times i evs) (n(TX_DELIVERY := n TX_DELIVERY + sum_list (map (blocks \<circ> in_sends) evs)))"
  using assms
proof (induction evs arbitrary: seq nd ds n)
  case (Cons ev evs)
  obtain nd1 where nd1: "net_round rate thr seq ev nd = Some (Inr nd1)" "net_rounds rate thr (seq + 1) evs nd1 = Some (Inr nd')"
    using Cons.prems(1) by (auto split: option.splits sum.splits)
  have "length (ds i) + length (round_times i ev) < 2 ^ 32" for i using Cons.prems(3)[rule_format, of i] by (simp add: all_times_def)
  with net_round_tallies[OF nd1(1) Cons.prems(2)]
  have t: "tallies nd1 (\<lambda>i. ds i @ round_times i ev) (n(TX_DELIVERY := n TX_DELIVERY + blocks (in_sends ev)))" by blast
  have len: "\<forall>i. length (ds i @ round_times i ev) + length (all_times i evs) < 2 ^ 32" using Cons.prems(3) by (simp add: all_times_def add.assoc)
  have "(n(TX_DELIVERY := n TX_DELIVERY + blocks (in_sends ev)))(TX_DELIVERY :=
        (n(TX_DELIVERY := n TX_DELIVERY + blocks (in_sends ev))) TX_DELIVERY + sum_list (map (blocks \<circ> in_sends) evs)) =
      n(TX_DELIVERY := n TX_DELIVERY + sum_list (map (blocks \<circ> in_sends) (ev # evs)))"
    by (rule ext) simp
  moreover have "(\<lambda>i. (ds i @ round_times i ev) @ all_times i evs) = (\<lambda>i. ds i @ all_times i (ev # evs))"
    by (simp add: all_times_def)
  ultimately show ?case using Cons.IH[OF nd1(2) t len] by (simp only:)
qed (simp add: all_times_def)

lemma init_tallies:
  assumes "net_desc_init mem sz no_check cells = Some nd"
  shows "tallies nd (\<lambda>_. []) (\<lambda>_. 0)"
proof -
  have "all_samples st = 0 \<and> all_sum st = 0 \<and> all_overruns st = 0" if "init_statistics mem name cells = Some st" for name st
    using that by (auto simp: init_statistics_def Let_def split: if_splits)
  moreover have "init_statistics mem name cells \<noteq> None" if "init_statistics mem [] cells \<noteq> None" for name
    using that by (simp add: init_statistics_def Let_def split: if_splits)
  ultimately have "all_samples (the (init_statistics mem name cells)) = 0 \<and> all_sum (the (init_statistics mem name cells)) = 0
      \<and> all_overruns (the (init_statistics mem name cells)) = 0" if "init_statistics mem [] cells \<noteq> None" for name
    using that by fastforce
  then show ?thesis
    using assms by (auto simp: net_desc_init_def tallies_def tally_def reset_measurement_def split: option.splits if_splits)
qed

text \<open>
  C21. The rounds of the network test account for every time stamp once: as long as there is no error, after any number of rounds with fewer than \<open>2 ^ 32\<close>
  time stamps and whatever the length of the bulks, the statistics and the current bulk together hold as many samples as frames with a time stamp were received (RX), or as time stamps of
  frames sent were collected (TX), their sums are the sums of the latencies, and the overruns are the
  attempts to send which would have blocked.  This is up to the signal that ends the test; the logging of the last bulk is not covered, since the runner goes on meanwhile.
\<close>

theorem net_samples_conserved:
  assumes "run_net_test mem packet_size no_check cells period threshold evs = Some (Inr nd)"
    and "\<forall>i. length (all_times i evs) < 2 ^ 32"
  shows "unat (all_samples (stat_of nd i)) + unat (meas_samples (meas_of nd i)) = length (all_times i evs)
    \<and> all_sum (stat_of nd i) + sum_lat (meas_of nd i) = sum_list (all_times i evs)
    \<and> all_overruns (stat_of nd TX_DELIVERY) + meas_overruns (meas_of nd TX_DELIVERY) = of_nat (\<Sum>ev\<leftarrow>evs. blocks (in_sends ev))"
proof -
  obtain nd0 where r: "net_desc_init mem packet_size no_check cells = Some nd0"
    "net_rounds (rounds_per_sec period) threshold 0 evs nd0 = Some (Inr nd)"
    using assms(1) by (auto simp: run_net_test_def split: option.splits)
  have "tallies nd (\<lambda>i. all_times i evs) ((\<lambda>_. 0)(TX_DELIVERY := \<Sum>ev\<leftarrow>evs. blocks (in_sends ev)))"
    using net_rounds_tallies[OF r(2) init_tallies[OF r(1)]] assms(2) by (simp add: comp_def)
  then show ?thesis by (simp add: tallies_def tally_def)
qed

text \<open>If the runner is stopped between two rounds, the last bulk completes the statistics.\<close>

lemma last_bulk_complete:
  assumes "finalize_last_bulk threshold elapsed nd = Inr nd'" and "tallies nd ds n"
  shows "logged nd' i (ds i) (n i)"
proof -
  have "\<forall>i\<in>set [TX_QUEUING, TX_DELIVERY, RX_QUEUING, RX_DELIVERY]. tally nd i (ds i) (n i)"
    using assms(2) by (simp add: tallies_def)
  from log_bulks_logged[OF assms(1)[unfolded finalize_last_bulk_def] _ this]
  have "\<forall>i\<in>set [TX_QUEUING, TX_DELIVERY, RX_QUEUING, RX_DELIVERY]. logged nd' i (ds i) (n i)" by simp
  then show ?thesis by (cases i; simp)
qed

text \<open>If it goes on, it logs the bulk which the main thread has logged already: the last bulk is not reset.\<close>

theorem last_bulk_twice:
  assumes "finalize_last_bulk threshold elapsed nd = Inr nd1" and "log_bulks threshold elapsed' [TX_QUEUING, TX_DELIVERY, RX_QUEUING] nd1 = Inr nd2"
  shows "all_samples (stat_of nd2 TX_QUEUING) = all_samples (stat_of nd TX_QUEUING) + 2 * ucast (meas_samples (meas_of nd TX_QUEUING))"
proof -
  have m: "all_samples st' = all_samples st + ucast (meas_samples m)" if "merge_results thr t st m = Inr st'" for thr t st m st'
    using that by (auto simp: merge_results_def Let_def split: if_splits)
  show ?thesis using assms by (auto simp: finalize_last_bulk_def dest!: m split: sum.splits)
qed

text \<open>Without a threshold, the test goes on as long as nothing fails: sends succeed in the end, and frames come.\<close>

definition answered :: "net_round_in \<Rightarrow> bool" where
  "answered ev \<longleftrightarrow> Sent \<in> set (in_sends ev) \<and> Send_error \<notin> set (in_sends ev) \<and> in_timer ev \<and> in_stamps ev \<noteq> Stamps_error
     \<and> (\<exists>p b t. Received p b t \<in> set (in_recvs ev)) \<and> Recv_error \<notin> set (in_recvs ev)"

lemma log_bulks_ends: "\<exists>nd'. log_bulks 0 t is nd = Inr nd'"
  by (induction "is" arbitrary: nd) (simp_all add: merge_results_def Let_def)

lemma log_net_ends: "\<exists>st'. the (log_results more_net_data 0 t st m) = Inr st'"
  by (simp add: log_results_def more_net_data_def merge_results_def Let_def)

lemma log_rx_ends: "\<exists>nd'. log_rx_times rate 0 t iot round nd = Inr nd'"
proof -
  define nd0 where "nd0 = add_time RX_DELIVERY (delivery_time iot - device_time iot) (add_time RX_QUEUING (queuing_time iot - device_time iot) nd)"
  obtain nd1 where nd1: "log_bulks 0 t [TX_QUEUING, TX_DELIVERY, RX_QUEUING] nd0 = Inr nd1" using log_bulks_ends by blast
  obtain st where "the (log_results more_net_data 0 (t RX_DELIVERY) (stat_of nd1 RX_DELIVERY) (meas_of nd1 RX_DELIVERY)) = Inr st"
    using log_net_ends by blast
  with nd1 show ?thesis by (simp add: log_rx_times_def Let_def nd0_def[symmetric] del: log_bulks.simps)
qed

lemma rx_wait_ends:
  "\<lbrakk>\<exists>p b t. Received p b t \<in> set rs; Recv_error \<notin> set rs\<rbrakk> \<Longrightarrow> \<exists>nd'. rx_wait rate 0 t seq rs nd = Some (Inr nd')"
proof (induction rs rule: received.induct)
  case (2 packet stamped iot rs)
  obtain nd1 where "log_rx_times rate 0 t iot seq nd = Inr nd1" using log_rx_ends by blast
  then show ?case by (simp add: rx_received_def)
qed auto

lemma tx_loop_ends: "\<lbrakk>Sent \<in> set rs; Send_error \<notin> set rs\<rbrakk> \<Longrightarrow> \<exists>ov'. tx_loop rs ov = Some (ov', False)"
  by (induction rs ov rule: tx_loop.induct) auto

lemma net_tx_ends: "\<lbrakk>Sent \<in> set rs; Send_error \<notin> set rs\<rbrakk> \<Longrightarrow> \<exists>nd'. net_tx rs nd = Some (Inr nd')"
  using tx_loop_ends[of rs "meas_overruns (meas_of nd TX_DELIVERY)"] by (auto simp: net_tx_def)

lemma net_rounds_end: "list_all answered evs \<Longrightarrow> \<exists>nd'. net_rounds rate 0 seq evs nd = Some (Inr nd')"
proof (induction evs arbitrary: seq nd)
  case (Cons ev evs)
  let ?nd = "nd\<lparr>tx_packet := prepare_output (nd_packet_size nd) seq (tx_packet nd)\<rparr>"
  obtain nd1 where 1: "net_tx (in_sends ev) ?nd = Some (Inr nd1)"
    using Cons.prems net_tx_ends[of "in_sends ev" ?nd] by (auto simp: answered_def)
  have "\<exists>nd'. rx_wait rate 0 (in_elapsed ev) (ucast seq) (in_recvs ev) nd2 = Some (Inr nd')" for nd2
    using Cons.prems by (intro rx_wait_ends) (auto simp: answered_def)
  then obtain nd' where "net_round rate 0 seq ev nd = Some (Inr nd')"
    using 1 Cons.prems by (fastforce simp: net_round_def Let_def answered_def split: tx_stamps.split)
  then show ?case using Cons by simp
qed simp

text \<open>
  Two rounds at the period of one second, so that each makes a bulk: the first sends at the second attempt and waits through a timeout for a frame
  with a time stamp, the second collects the stamps of two frames sent and receives a frame without a stamp.
\<close>

definition sample_rounds :: "net_round_in list" where
  "sample_rounds =
     [\<lparr>in_sends = [Would_block, Sent], in_timer = True, in_stamps = No_stamps,
        in_recvs = [Timed_out, Received (byte_of (CHR ''^'') # replicate 63 0) True \<lparr>queuing_time = 1500, delivery_time = 4000, device_time = 1000\<rparr>],
        in_elapsed = (\<lambda>_. 0)\<rparr>,
      \<lparr>in_sends = [Sent], in_timer = True,
        in_stamps = Stamps [\<lparr>queuing_time = 120, delivery_time = 100, device_time = 200\<rparr>, \<lparr>queuing_time = 330, delivery_time = 300, device_time = 450\<rparr>],
        in_recvs = [Received (replicate 64 0) False \<lparr>queuing_time = 0, delivery_time = 0, device_time = 0\<rparr>], in_elapsed = (\<lambda>_. 0)\<rparr>]"

theorem net_samples_conserved_witness:
  "\<exists>nd. run_net_test True 0 False 0 1000000 0 sample_rounds = Some (Inr nd)
    \<and> unat (all_samples (stat_of nd RX_DELIVERY)) + unat (meas_samples (meas_of nd RX_DELIVERY)) = 1
    \<and> all_sum (stat_of nd RX_DELIVERY) + sum_lat (meas_of nd RX_DELIVERY) = 3000
    \<and> all_sum (stat_of nd TX_DELIVERY) + sum_lat (meas_of nd TX_DELIVERY) = 250
    \<and> all_overruns (stat_of nd TX_DELIVERY) + meas_overruns (meas_of nd TX_DELIVERY) = 1"
proof -
  have len: "\<forall>i. length (all_times i sample_rounds) < 2 ^ 32"
    by (simp add: all_times_def round_times_def sample_rounds_def sent_def split: net_index.split)
  obtain nd where r: "run_net_test True 0 False 0 1000000 0 sample_rounds = Some (Inr nd)"
  proof -
    obtain nd0 where "net_desc_init True 0 False 0 = Some nd0"
      by (simp add: net_desc_init_def init_statistics_def pick_packet_size_def)
    moreover have "list_all answered sample_rounds" by (simp add: sample_rounds_def answered_def) blast
    ultimately show thesis
      using net_rounds_end[of sample_rounds "rounds_per_sec 1000000" 0 nd0] that by (fastforce simp: run_net_test_def)
  qed
  show ?thesis
    using net_samples_conserved[OF r len, of RX_DELIVERY] net_samples_conserved[OF r len, of TX_DELIVERY] r
    by (auto simp: all_times_def round_times_def sample_rounds_def sent_def)
qed

end
