(* ===== verification/Latmus.thy ===== *)
theory Latmus
  imports Latmus_Stats Evl_Ps
begin

text \<open>
  \<^verbatim>\<open>latmus/latmus.c\<close> and the parts of \<^verbatim>\<open>latmus/gpio.c\<close> that are about text and counts: the options of
  the latency test, the choice of the CPU, the choice of the test, the
  specification of a GPIO line, the reading of records from a socket.
\<close>

section \<open>The responder CPU\<close>

text \<open>One element of a list of CPUs: its bounds.\<close>

definition list_range :: "string \<Rightarrow> (s32 \<times> s32) option" where
  "list_range rng =
     (case strtok ''-'' rng of None \<Rightarrow> None
      | Some (id1, rest) \<Rightarrow>
          (let start = atoi id1
           in Some (start, case strtok ''-'' rest of Some (id2, _) \<Rightarrow> atoi id2 | None \<Rightarrow> start)))"

function cpu_list_loop :: "string \<Rightarrow> nat set \<Rightarrow> nat set" where
  "cpu_list_loop s cpus =
     (case strtok '','' s of None \<Rightarrow> cpus
      | Some (rng, rest) \<Rightarrow>
          (if hd rng = NL then cpu_list_loop rest cpus
           else case list_range rng of None \<Rightarrow> cpu_list_loop rest cpus
           | Some (start, stop) \<Rightarrow> cpu_list_loop rest (cpu_set_range start stop cpus)))"
  by pat_completeness auto

termination by (relation "measure (\<lambda>(s, cpus). length s)") (auto simp: strtok_shorter)

declare cpu_list_loop.simps [simp del]

text \<open>The argument is the text of the file, \<open>None\<close> if it cannot be opened; \<^verbatim>\<open>BUFSIZ\<close> is 8192.\<close>

definition parse_cpu_list :: "string option \<Rightarrow> nat set" where
  "parse_cpu_list file =
     (case Option.bind file (fgets 8192) of None \<Rightarrow> {} | Some buf \<Rightarrow> cpu_list_loop buf {})"

text \<open>The first CPU of a set.\<close>

definition first_cpu :: "nat set \<Rightarrow> nat option" where
  "first_cpu cpus = find (\<lambda>i. i \<in> cpus) [0..<CPU_SETSIZE]"

definition pick_isolated :: "nat set \<Rightarrow> nat \<Rightarrow> s32 \<Rightarrow> s32" where
  "pick_isolated isolated here cpu =
     (case first_cpu isolated of Some i \<Rightarrow> of_nat i
      | None \<Rightarrow> if sint cpu < 0 then of_nat here else cpu)"

definition pick_oob :: "nat set \<Rightarrow> nat set \<Rightarrow> nat \<Rightarrow> s32 \<Rightarrow> s32" where
  "pick_oob isolated oob here cpu =
     (case first_cpu oob of Some i \<Rightarrow> of_nat i | None \<Rightarrow> pick_isolated isolated here cpu)"

text \<open>The CPU and whether it is isolated; \<open>cpu\<close> is the one asked for, or negative, \<open>here\<close> the current one.\<close>

definition determine_responder_cpu :: "bool \<Rightarrow> bool \<Rightarrow> nat set \<Rightarrow> nat set \<Rightarrow> nat \<Rightarrow> s32 \<Rightarrow> s32 \<times> bool" where
  "determine_responder_cpu inband_test force_cpu isolated oob here cpu =
     (let cpu = (if 0 \<le> sint cpu then
                   (if \<not> inband_test \<and> unat cpu \<notin> oob then pick_oob isolated oob here cpu else cpu)
                 else if force_cpu then cpu
                 else if inband_test then pick_isolated isolated here cpu
                 else case first_cpu (isolated \<inter> oob) of Some i \<Rightarrow> of_nat i
                      | None \<Rightarrow> pick_oob isolated oob here cpu)
      in (cpu, unat cpu \<in> isolated))"

section \<open>Options\<close>

definition INBAND_MODE :: int where "INBAND_MODE = 1"
definition OOB_MODE :: int where "OOB_MODE = 2"

record latmus_config =
  test_irqlat :: int
  test_klat :: int
  test_ulat :: int
  test_sirqlat :: int
  test_gpiolat :: int
  test_netlat :: int
  lm_reset :: bool
  background :: bool
  abort_on_switch :: bool
  tuning :: bool
  no_check :: bool
  force_cpu :: bool
  verbosity :: s32
  abort_threshold :: s32
  lm_timeout :: int
  period_usecs :: u32
  data_lines :: s32
  plot_filename :: "string option"
  plot_stdout :: bool
  histogram_cells :: nat
  responder_priority :: s32
  responder_cpu :: s32
  gpio_i_specs :: "string option"
  gpio_o_specs :: "string option"
  local_netif :: "string option"
  peer_host :: "string option"

definition latmus_defaults :: latmus_config where
  "latmus_defaults = \<lparr>test_irqlat = 0, test_klat = 0, test_ulat = 0, test_sirqlat = 0, test_gpiolat = 0, test_netlat = 0,
     lm_reset = False, background = False, abort_on_switch = True, tuning = False, no_check = False, force_cpu = False,
     verbosity = 1, abort_threshold = 0, lm_timeout = 0, period_usecs = 1000, data_lines = 21, plot_filename = None,
     plot_stdout = False, histogram_cells = 0, responder_priority = - 1, responder_cpu = - 1, gpio_i_specs = None,
     gpio_o_specs = None, local_netif = None, peer_host = None\<rparr>"

text \<open>What \<^verbatim>\<open>getopt_long\<close> returns: an option with its argument, or 0 after a long option has set the
  variable of a test.\<close>

datatype latmus_opt = Opt char "string option" | Flag_irq | Flag_kernel | Flag_user | Flag_sirq

text \<open>The argument of \<^verbatim>\<open>-T\<close>.\<close>

definition parse_timeout :: "string \<Rightarrow> int option" where
  "parse_timeout optarg =
     (let (val, endptr) = strtol optarg; t = sint (word_of_int val :: s32) in
      if t < 0 \<or> length endptr = length optarg then None
      else case endptr of [] \<Rightarrow> Some t
      | c # _ \<Rightarrow> (if c = CHR ''d'' then Some (t * 24 * 60 * 60)
                 else if c = CHR ''h'' then Some (t * 60 * 60)
                 else if c = CHR ''m'' then Some (t * 60)
                 else if c = CHR ''s'' then Some t else None))"

text \<open>The status the program exits with is \<open>Inl\<close>; \<open>max_prio\<close> is what \<^verbatim>\<open>sched_get_priority_max\<close> returns.\<close>

definition latmus_option :: "int \<Rightarrow> latmus_opt \<Rightarrow> latmus_config \<Rightarrow> int + latmus_config" where
  "latmus_option max_prio opt cfg =
     (case opt of
        Flag_irq \<Rightarrow> Inr (cfg\<lparr>test_irqlat := 1\<rparr>)
      | Flag_kernel \<Rightarrow> Inr (cfg\<lparr>test_klat := 1\<rparr>)
      | Flag_user \<Rightarrow> Inr (cfg\<lparr>test_ulat := 1\<rparr>)
      | Flag_sirq \<Rightarrow> Inr (cfg\<lparr>test_sirqlat := 1\<rparr>)
      | Opt c optarg \<Rightarrow>
          (let arg = (case optarg of Some s \<Rightarrow> s | None \<Rightarrow> []); n = sint (atoi arg) in
           if c = CHR ''r'' then Inr (cfg\<lparr>lm_reset := True\<rparr>)
           else if c = CHR ''q'' then Inr (cfg\<lparr>verbosity := 0\<rparr>)
           else if c = CHR ''b'' then Inr (cfg\<lparr>background := True\<rparr>)
           else if c = CHR ''K'' then Inr (cfg\<lparr>abort_on_switch := False\<rparr>)
           else if c = CHR ''z'' \<or> c = CHR ''Z'' then
             Inr (cfg\<lparr>test_netlat := (if c = CHR ''Z'' then OOB_MODE else INBAND_MODE), peer_host := optarg\<rparr>)
           else if c = CHR ''E'' then Inr (cfg\<lparr>test_netlat := 1, peer_host := optarg\<rparr>)
           else if c = CHR ''n'' then Inr (cfg\<lparr>no_check := True\<rparr>)
           else if c = CHR ''m'' then Inr (cfg\<lparr>tuning := False\<rparr>)
           else if c = CHR ''t'' then Inr (cfg\<lparr>tuning := True\<rparr>)
           else if c = CHR ''p'' then
             (if atoi arg = 0 \<or> unat (atoi arg) > 1000000 then Inl 1 else Inr (cfg\<lparr>period_usecs := atoi arg\<rparr>))
           else if c = CHR ''A'' then
             (if sint (atoi arg * 1000) \<le> 0 then Inl 1 else Inr (cfg\<lparr>abort_threshold := atoi arg * 1000\<rparr>))
           else if c = CHR ''T'' then
             (case parse_timeout arg of None \<Rightarrow> Inl 1 | Some t \<Rightarrow> Inr (cfg\<lparr>lm_timeout := t\<rparr>))
           else if c = CHR ''v'' then Inr (cfg\<lparr>verbosity := (case optarg of Some s \<Rightarrow> atoi s | None \<Rightarrow> 1)\<rparr>)
           else if c = CHR ''l'' then Inr (cfg\<lparr>data_lines := atoi arg\<rparr>)
           else if c = CHR ''g'' then
             Inr (if optarg \<noteq> None \<and> arg \<noteq> ''-'' then cfg\<lparr>plot_filename := optarg\<rparr> else cfg\<lparr>plot_stdout := True\<rparr>)
           else if c = CHR ''H'' then
             (if n < 1 \<or> n > 1000 then Inl 1 else Inr (cfg\<lparr>histogram_cells := nat n\<rparr>))
           else if c = CHR ''P'' then
             (if n < 0 \<or> n > max_prio then Inl 1 else Inr (cfg\<lparr>responder_priority := atoi arg\<rparr>))
           else if c = CHR ''c'' \<or> c = CHR ''C'' then
             (if n < 0 \<or> n \<ge> int CPU_SETSIZE then Inl 1
              else Inr (cfg\<lparr>force_cpu := (force_cpu cfg \<or> c = CHR ''C''), responder_cpu := atoi arg\<rparr>))
           else if c = CHR ''I'' then Inr (cfg\<lparr>gpio_i_specs := optarg\<rparr>)
           else if c = CHR ''O'' then Inr (cfg\<lparr>gpio_o_specs := optarg\<rparr>)
           else if c = CHR ''L'' then Inr (cfg\<lparr>local_netif := optarg\<rparr>)
           else Inl 1))"

fun latmus_options :: "int \<Rightarrow> latmus_opt list \<Rightarrow> latmus_config \<Rightarrow> int + latmus_config" where
  "latmus_options max_prio [] cfg = Inr cfg"
| "latmus_options max_prio (opt # opts) cfg =
     (case latmus_option max_prio opt cfg of Inl code \<Rightarrow> Inl code | Inr cfg \<Rightarrow> latmus_options max_prio opts cfg)"

section \<open>The choice of the test\<close>

text \<open>The conflicts between options that are resolved with a warning; \<open>plot_ok\<close> says that the file does
  not exist yet and can be created.\<close>

definition settle_output :: "bool \<Rightarrow> latmus_config \<Rightarrow> int + latmus_config" where
  "settle_output plot_ok cfg =
     (let cfg = (if \<not> tuning cfg \<and> lm_timeout cfg = 0 \<and> verbosity cfg = 0 then cfg\<lparr>verbosity := 1\<rparr> else cfg);
          cfg = (if background cfg \<and> verbosity cfg \<noteq> 0 then cfg\<lparr>verbosity := 0\<rparr> else cfg)
      in if plot_filename cfg \<noteq> None \<or> plot_stdout cfg then
           (if tuning cfg then Inr (cfg\<lparr>plot_filename := None, plot_stdout := False\<rparr>)
            else if plot_filename cfg \<noteq> None \<and> \<not> plot_ok then Inl 1
            else Inr (if histogram_cells cfg = 0 then cfg\<lparr>histogram_cells := 200\<rparr> else cfg))
         else Inr cfg)"

definition to_bool :: "int \<Rightarrow> int" where "to_bool x = (if x \<noteq> 0 then 1 else 0)"

definition tests_set :: "latmus_config \<Rightarrow> int" where
  "tests_set cfg = test_irqlat cfg + test_klat cfg + test_ulat cfg + test_sirqlat cfg
     + to_bool (test_gpiolat cfg) + to_bool (test_netlat cfg)"

definition any_test :: "latmus_config \<Rightarrow> bool" where
  "any_test cfg \<longleftrightarrow> test_irqlat cfg \<noteq> 0 \<or> test_klat cfg \<noteq> 0 \<or> test_ulat cfg \<noteq> 0 \<or> test_sirqlat cfg \<noteq> 0
     \<or> test_gpiolat cfg \<noteq> 0 \<or> test_netlat cfg \<noteq> 0"

definition settle_tests :: "latmus_config \<Rightarrow> int + latmus_config" where
  "settle_tests cfg =
     (if \<not> tuning cfg then
        (if \<not> any_test cfg then Inr (cfg\<lparr>test_ulat := 1\<rparr>) else if tests_set cfg > 1 then Inl 1 else Inr cfg)
      else
        (if \<not> any_test cfg then Inr (cfg\<lparr>test_irqlat := 1, test_klat := 1, test_ulat := 1\<rparr>)
         else if test_sirqlat cfg \<noteq> 0 \<or> test_gpiolat cfg \<noteq> 0 \<or> test_netlat cfg \<noteq> 0 then Inl 1 else Inr cfg))"

text \<open>What the test needs: the device of the core (\<open>device\<close>: can it be opened, and reset?), or the settings of the line or
  of the interface.\<close>

definition check_needs :: "bool \<Rightarrow> latmus_config \<Rightarrow> int + latmus_config" where
  "check_needs device cfg =
     (if \<not> (test_gpiolat cfg \<noteq> 0 \<or> test_netlat cfg \<noteq> 0) then (if device then Inr cfg else Inl 1)
      else if test_gpiolat cfg \<noteq> 0 \<and> (gpio_i_specs cfg = None \<or> gpio_o_specs cfg = None) then Inl 1
      else if test_netlat cfg \<noteq> 0 \<and> local_netif cfg = None then Inl 1
      else Inr cfg)"

definition settle_priority :: "latmus_config \<Rightarrow> latmus_config" where
  "settle_priority cfg =
     (if sint (responder_priority cfg) < 0 \<and> (tuning cfg \<or> \<not> (test_irqlat cfg \<noteq> 0 \<or> test_sirqlat cfg \<noteq> 0))
      then cfg\<lparr>responder_priority := (if test_netlat cfg \<noteq> 0 then 10 else 98)\<rparr> else cfg)"

datatype lat_context = EVL_LAT_IRQ | EVL_LAT_KERN | EVL_LAT_SIRQ | EVL_LAT_USER | EVL_LAT_OOB_GPIO | EVL_LAT_INBAND_GPIO | EVL_LAT_NET

definition context_type :: "latmus_config \<Rightarrow> lat_context" where
  "context_type cfg =
     (if test_irqlat cfg \<noteq> 0 then EVL_LAT_IRQ
      else if test_klat cfg \<noteq> 0 then EVL_LAT_KERN
      else if test_sirqlat cfg \<noteq> 0 then EVL_LAT_SIRQ
      else if test_ulat cfg \<noteq> 0 then EVL_LAT_USER
      else if test_gpiolat cfg = OOB_MODE then EVL_LAT_OOB_GPIO
      else if test_gpiolat cfg = INBAND_MODE then EVL_LAT_INBAND_GPIO
      else EVL_LAT_NET)"

text \<open>What the program finds around it: the highest priority, the lists of CPUs and the current one, whether the file of
  the plot can be created, whether the device of the core can be used.\<close>

record latmus_env =
  max_prio :: int
  isolated_file :: "string option"
  oob_file :: "string option"
  current_cpu :: nat
  plot_ok :: bool
  device_ok :: bool

text \<open>The CPU of the responder is chosen before anything else is settled.\<close>

definition settle_cpu :: "latmus_env \<Rightarrow> latmus_config \<Rightarrow> latmus_config" where
  "settle_cpu env cfg =
     cfg\<lparr>responder_cpu := fst (determine_responder_cpu (test_gpiolat cfg = INBAND_MODE \<or> test_netlat cfg = INBAND_MODE)
       (force_cpu cfg) (parse_cpu_list (isolated_file env)) (parse_cpu_list (oob_file env)) (current_cpu env)
       (responder_cpu cfg))\<rparr>"

text \<open>The contexts to tune.\<close>

definition tuned :: "latmus_config \<Rightarrow> lat_context list" where
  "tuned cfg = (if test_irqlat cfg \<noteq> 0 then [EVL_LAT_IRQ] else [])
     @ (if test_klat cfg \<noteq> 0 then [EVL_LAT_KERN] else [])
     @ (if test_ulat cfg \<noteq> 0 then [EVL_LAT_USER] else [])"

text \<open>The program up to the start of the tests: the configuration and the contexts to tune or the one to
  measure; \<open>nr_args\<close> is the number of arguments that are left.\<close>

definition latmus_main :: "latmus_env \<Rightarrow> latmus_opt list \<Rightarrow> nat \<Rightarrow> int + latmus_config \<times> lat_context list" where
  "latmus_main env opts nr_args =
     (case latmus_options (max_prio env) opts latmus_defaults of Inl code \<Rightarrow> Inl code
      | Inr cfg \<Rightarrow>
          (if 0 < nr_args then Inl 1
           else case settle_output (plot_ok env) (settle_cpu env cfg) of Inl code \<Rightarrow> Inl code
           | Inr cfg \<Rightarrow>
               (case settle_tests cfg of Inl code \<Rightarrow> Inl code
                | Inr cfg \<Rightarrow>
                    (case check_needs (device_ok env) cfg of Inl code \<Rightarrow> Inl code
                     | Inr cfg \<Rightarrow>
                         (let cfg = settle_priority cfg
                          in Inr (cfg, if tuning cfg then tuned cfg else [context_type cfg]))))))"

section \<open>Switches to the in-band stage\<close>

text \<open>What the handler of \<^verbatim>\<open>SIGDEBUG\<close> does: count a switch, and kill the program with \<^verbatim>\<open>SIGHUP\<close> when
  asked to; or exit.\<close>

datatype sigdebug_cause = SIGDEMOTE | SYSDEMOTE | EXDEMOTE | LKDEPEND | WATCHDOG | LKIMBALANCE | LKSLEEP | Other_cause

datatype sigdebug_action = Ignored | Counted bool | Exits int

definition latmus_sigdebug_handler :: "bool \<Rightarrow> bool \<Rightarrow> sigdebug_cause \<Rightarrow> u32 \<Rightarrow> sigdebug_action \<times> u32" where
  "latmus_sigdebug_handler marked abort cause switches =
     (if marked then
        (if cause \<in> {SIGDEMOTE, SYSDEMOTE, EXDEMOTE, LKDEPEND} then (Counted abort, switches + 1) else (Exits 99, switches))
      else (Ignored, switches))"

section \<open>GPIO lines\<close>

datatype gpio_edge = Rising_edge | Falling_edge

text \<open>The device, the pin and the edge (for an input line) of a specification.\<close>

definition parse_gpio_spec :: "bool \<Rightarrow> string \<Rightarrow> (string \<times> s32 \<times> gpio_edge option) option" where
  "parse_gpio_spec input spec =
     (case strtok '','' spec of None \<Rightarrow> None
      | Some (dev, s1) \<Rightarrow>
          (case strtok '','' s1 of None \<Rightarrow> None
           | Some (p, s2) \<Rightarrow>
               (let (val, endptr) = strtol p; pin = word_of_int val :: s32 in
                if sint pin < 0 \<or> length endptr = length p then None
                else case strtok '','' s2 of
                  None \<Rightarrow> Some (''/dev/'' @ dev, pin, if input then Some Rising_edge else None)
                | Some (e, _) \<Rightarrow>
                    (if \<not> input then None
                     else if e = ''rising-edge'' then Some (''/dev/'' @ dev, pin, Some Rising_edge)
                     else if e = ''falling-edge'' then Some (''/dev/'' @ dev, pin, Some Falling_edge)
                     else None))))"

text \<open>The loop of \<^verbatim>\<open>read_net_data\<close>: each element is the result of \<^verbatim>\<open>poll\<close> and that of \<^verbatim>\<open>recv\<close>;
  \<open>None\<close> if they run out.\<close>

fun read_net_data :: "nat \<Rightarrow> nat \<Rightarrow> (int \<times> int) list \<Rightarrow> int option" where
  "read_net_data len got [] = None"
| "read_net_data len got ((p, r) # rest) =
     (if p \<le> 0 then Some (- ETIMEDOUT)
      else if r \<le> 0 then Some r
      else let got = got + nat r in if got < len then read_net_data len got rest else Some (int got))"

end
