(* ===== verification/Latmus_Correct.thy ===== *)
theory Latmus_Correct
  imports Latmus
begin

text \<open>
  What the choices of the latency test guarantee: the CPU of the responder, the test that runs, the
  limits of the settings.
\<close>

section \<open>The responder CPU\<close>

lemma find_upt: "find P [0..<n] = (if \<exists>i<n. P i then Some (LEAST i. P i) else None)"
proof (cases "\<exists>i<n. P i")
  case True
  then obtain i where i: "i < n" "P i" by blast
  define l where "l = (LEAST i. P i)"
  have l: "l < n" "P l" "\<And>j. j < l \<Longrightarrow> \<not> P j"
    unfolding l_def
    by (rule le_less_trans[OF Least_le[of P, OF i(2)] i(1)], rule LeastI[of P, OF i(2)], erule not_less_Least)
  have "find P [0..<n] = Some l"
    unfolding find_Some_iff by (rule exI[of _ l]) (use l in auto)
  then have "find P [0..<n] = Some (LEAST i. P i)" by (simp add: l_def)
  then show ?thesis using True by simp
next
  case False
  then have "find P [0..<n] = None" by (auto simp: find_None_iff)
  then show ?thesis using False by auto
qed

text \<open>The best CPU of a list of sets: the least one of the first set that is not empty.\<close>

fun best_cpu :: "nat set list \<Rightarrow> nat option" where
  "best_cpu [] = None"
| "best_cpu (s # sets) = (if s = {} then best_cpu sets else Some (LEAST i. i \<in> s))"

lemma first_cpu_least: "s \<subseteq> {..<CPU_SETSIZE} \<Longrightarrow> first_cpu s = (if s = {} then None else Some (LEAST i. i \<in> s))"
  unfolding first_cpu_def find_upt by auto

lemma cpu_list_loop_range: "cpus \<subseteq> {..<CPU_SETSIZE} \<Longrightarrow> cpu_list_loop s cpus \<subseteq> {..<CPU_SETSIZE}"
proof (induction s cpus rule: cpu_list_loop.induct)
  case (1 s cpus)
  have step: "cpu_set_range start stop cpus \<subseteq> {..<CPU_SETSIZE}" for start stop
    using "1.prems" by (auto simp: cpu_set_range_def)
  show ?case
    using 1 step by (subst cpu_list_loop.simps) (auto split: option.splits)
qed

lemma parse_cpu_list_range: "parse_cpu_list file \<subseteq> {..<CPU_SETSIZE}"
  by (auto simp: parse_cpu_list_def split: option.splits dest: cpu_list_loop_range[THEN subsetD, rotated])

lemma pick_isolated_best:
  "isol \<subseteq> {..<CPU_SETSIZE}
   \<Longrightarrow> pick_isolated isol here cpu = (case best_cpu [isol] of Some i \<Rightarrow> of_nat i
         | None \<Rightarrow> if sint cpu < 0 then of_nat here else cpu)"
  by (simp add: pick_isolated_def first_cpu_least)

lemma pick_oob_best:
  "\<lbrakk>isol \<subseteq> {..<CPU_SETSIZE}; oob \<subseteq> {..<CPU_SETSIZE}\<rbrakk>
   \<Longrightarrow> pick_oob isol oob here cpu = (case best_cpu [oob, isol] of Some i \<Rightarrow> of_nat i
         | None \<Rightarrow> if sint cpu < 0 then of_nat here else cpu)"
  by (simp add: pick_oob_def pick_isolated_best first_cpu_least)

text \<open>
  C37. The CPU the responder runs on, for the lists the kernel gives: a CPU asked for is kept if the
  test is in-band or the CPU can run out-of-band threads, otherwise the least out-of-band CPU is taken, or the
  least isolated one if there is none, and the one asked for if there is none either. When no CPU is asked for, it is the least
  one of the first of these sets that is not empty: isolated and out-of-band, out-of-band, isolated (for an in-band
  test: isolated only), and the current CPU if all are empty.
\<close>

theorem responder_choice:
  "fst (determine_responder_cpu inband force (parse_cpu_list isolated) (parse_cpu_list oob) here cpu) =
     (let isol = parse_cpu_list isolated; oobs = parse_cpu_list oob in
      if 0 \<le> sint cpu \<and> (inband \<or> unat cpu \<in> oobs) then cpu
      else if 0 \<le> sint cpu then (case best_cpu [oobs, isol] of Some i \<Rightarrow> of_nat i | None \<Rightarrow> cpu)
      else if force then cpu
      else case best_cpu (if inband then [isol] else [isol \<inter> oobs, oobs, isol]) of Some i \<Rightarrow> of_nat i | None \<Rightarrow> of_nat here)"
proof -
  have ranges: "parse_cpu_list isolated \<subseteq> {..<CPU_SETSIZE}" "parse_cpu_list oob \<subseteq> {..<CPU_SETSIZE}"
    "parse_cpu_list isolated \<inter> parse_cpu_list oob \<subseteq> {..<CPU_SETSIZE}"
    using parse_cpu_list_range by blast+
  note choice = determine_responder_cpu_def Let_def first_cpu_least[OF ranges(3)]
    pick_oob_best[OF ranges(1,2)] pick_isolated_best[OF ranges(1)]
  show ?thesis
    unfolding choice by (cases "parse_cpu_list isolated \<inter> parse_cpu_list oob = {}") simp_all
qed

section \<open>The test that runs\<close>

text \<open>What holds of the settings after any number of options.\<close>

definition settings_ok :: "int \<Rightarrow> latmus_config \<Rightarrow> bool" where
  "settings_ok prio cfg \<longleftrightarrow>
     test_irqlat cfg \<in> {0, 1} \<and> test_klat cfg \<in> {0, 1} \<and> test_ulat cfg \<in> {0, 1} \<and> test_sirqlat cfg \<in> {0, 1}
     \<and> test_gpiolat cfg = 0 \<and> test_netlat cfg \<in> {0, 1, 2}
     \<and> 0 < unat (period_usecs cfg) \<and> unat (period_usecs cfg) \<le> 1000000 \<and> histogram_cells cfg \<le> 1000
     \<and> - 1 \<le> sint (responder_priority cfg) \<and> sint (responder_priority cfg) \<le> max 98 prio \<and> 0 \<le> lm_timeout cfg
     \<and> 0 \<le> sint (abort_threshold cfg)
     \<and> - 1 \<le> sint (responder_cpu cfg) \<and> sint (responder_cpu cfg) < int CPU_SETSIZE
     \<and> (force_cpu cfg \<longrightarrow> 0 \<le> sint (responder_cpu cfg))"

lemma settings_bits:
  assumes "settings_ok prio cfg"
  shows "0 \<le> test_irqlat cfg" "0 \<le> test_klat cfg" "0 \<le> test_ulat cfg" "0 \<le> test_sirqlat cfg" "test_gpiolat cfg = 0"
proof -
  have "test_irqlat cfg \<in> {0, 1}" "test_klat cfg \<in> {0, 1}" "test_ulat cfg \<in> {0, 1}" "test_sirqlat cfg \<in> {0, 1}"
    and gpio: "test_gpiolat cfg = 0"
    using assms unfolding settings_ok_def by blast+
  then show "0 \<le> test_irqlat cfg" "0 \<le> test_klat cfg" "0 \<le> test_ulat cfg" "0 \<le> test_sirqlat cfg" by auto
  show "test_gpiolat cfg = 0" by (rule gpio)
qed

lemma defaults_ok: "settings_ok prio latmus_defaults"
  by (simp add: settings_ok_def latmus_defaults_def CPU_SETSIZE_def)

lemma parse_timeout_nonneg: "parse_timeout s = Some t \<Longrightarrow> 0 \<le> t"
  by (auto simp: parse_timeout_def Let_def split: prod.splits if_splits list.splits)

text \<open>The settings the limits say nothing of, and the changes that respect them.\<close>

lemma unlimited [simp]:
  "settings_ok prio (cfg\<lparr>lm_reset := b\<rparr>) = settings_ok prio cfg"
  "settings_ok prio (cfg\<lparr>background := b\<rparr>) = settings_ok prio cfg"
  "settings_ok prio (cfg\<lparr>abort_on_switch := b\<rparr>) = settings_ok prio cfg"
  "settings_ok prio (cfg\<lparr>tuning := b\<rparr>) = settings_ok prio cfg"
  "settings_ok prio (cfg\<lparr>no_check := b\<rparr>) = settings_ok prio cfg"
  "settings_ok prio (cfg\<lparr>verbosity := v\<rparr>) = settings_ok prio cfg"
  "settings_ok prio (cfg\<lparr>data_lines := v\<rparr>) = settings_ok prio cfg"
  "settings_ok prio (cfg\<lparr>plot_filename := f\<rparr>) = settings_ok prio cfg"
  "settings_ok prio (cfg\<lparr>plot_stdout := b\<rparr>) = settings_ok prio cfg"
  "settings_ok prio (cfg\<lparr>gpio_i_specs := f\<rparr>) = settings_ok prio cfg"
  "settings_ok prio (cfg\<lparr>gpio_o_specs := f\<rparr>) = settings_ok prio cfg"
  "settings_ok prio (cfg\<lparr>local_netif := f\<rparr>) = settings_ok prio cfg"
  "settings_ok prio (cfg\<lparr>peer_host := f\<rparr>) = settings_ok prio cfg"
  by (simp_all add: settings_ok_def)

lemma limited:
  assumes "settings_ok prio cfg"
  shows "settings_ok prio (cfg\<lparr>test_irqlat := 1\<rparr>)" "settings_ok prio (cfg\<lparr>test_klat := 1\<rparr>)"
    "settings_ok prio (cfg\<lparr>test_ulat := 1\<rparr>)" "settings_ok prio (cfg\<lparr>test_sirqlat := 1\<rparr>)"
    "v \<in> {0, 1, 2} \<Longrightarrow> settings_ok prio (cfg\<lparr>test_netlat := v\<rparr>)"
    "\<lbrakk>p \<noteq> 0; unat p \<le> 1000000\<rbrakk> \<Longrightarrow> settings_ok prio (cfg\<lparr>period_usecs := p\<rparr>)"
    "h \<le> 1000 \<Longrightarrow> settings_ok prio (cfg\<lparr>histogram_cells := h\<rparr>)"
    "\<lbrakk>- 1 \<le> sint q; sint q \<le> max 98 prio\<rbrakk> \<Longrightarrow> settings_ok prio (cfg\<lparr>responder_priority := q\<rparr>)"
    "0 \<le> t \<Longrightarrow> settings_ok prio (cfg\<lparr>lm_timeout := t\<rparr>)"
    "0 \<le> sint a \<Longrightarrow> settings_ok prio (cfg\<lparr>abort_threshold := a\<rparr>)"
    "\<lbrakk>0 \<le> sint i; sint i < int CPU_SETSIZE\<rbrakk> \<Longrightarrow> settings_ok prio (cfg\<lparr>responder_cpu := i\<rparr>)"
    "\<lbrakk>0 \<le> sint i; sint i < int CPU_SETSIZE\<rbrakk> \<Longrightarrow> settings_ok prio (cfg\<lparr>force_cpu := f, responder_cpu := i\<rparr>)"
  using assms by (simp_all add: settings_ok_def unat_gt_0)

definition result_ok :: "int \<Rightarrow> int + latmus_config \<Rightarrow> bool" where
  "result_ok prio r \<longleftrightarrow> (case r of Inl code \<Rightarrow> True | Inr cfg \<Rightarrow> settings_ok prio cfg)"

lemma result_simps [simp]: "result_ok prio (Inl code)" "result_ok prio (Inr cfg) = settings_ok prio cfg"
  by (simp_all add: result_ok_def)

text \<open>Which option it is does not matter, what its argument is does.\<close>

lemma result_char:
  fixes c d :: char
  shows "\<lbrakk>result_ok prio x; result_ok prio y\<rbrakk> \<Longrightarrow> result_ok prio (if c = d then x else y)"
    "\<lbrakk>result_ok prio x; result_ok prio y\<rbrakk> \<Longrightarrow> result_ok prio (if c = d \<or> c = e then x else y)"
  by simp_all

lemma result_if: "\<lbrakk>\<not> b \<Longrightarrow> result_ok prio y\<rbrakk> \<Longrightarrow> result_ok prio (if b then Inl code else y)"
  by simp

lemma option_result_ok:
  assumes ok: "settings_ok prio cfg"
  shows "result_ok prio (latmus_option prio opt cfg)"
proof (cases opt)
  case (Opt c arg)
  show ?thesis
    unfolding Opt latmus_option_def Let_def latmus_opt.case
    by (intro result_char result_if)
      (auto simp: limited[OF ok] ok INBAND_MODE_def OOB_MODE_def parse_timeout_nonneg split: option.split)
qed (simp_all add: latmus_option_def limited[OF ok])

lemma option_preserves:
  "\<lbrakk>latmus_option prio opt cfg = Inr cfg'; settings_ok prio cfg\<rbrakk> \<Longrightarrow> settings_ok prio cfg'"
  using option_result_ok[of prio cfg opt] by simp

lemma options_preserve:
  "\<lbrakk>latmus_options prio opts cfg = Inr cfg'; settings_ok prio cfg\<rbrakk> \<Longrightarrow> settings_ok prio cfg'"
  by (induction opts arbitrary: cfg) (auto split: sum.splits dest: option_preserves)

lemma output_preserves:
  assumes "settle_output pok cfg = Inr cfg'" and ok: "settings_ok prio cfg"
  shows "settings_ok prio cfg'"
proof -
  define c1 where "c1 = (if \<not> tuning cfg \<and> lm_timeout cfg = 0 \<and> verbosity cfg = 0 then cfg\<lparr>verbosity := 1\<rparr> else cfg)"
  define c2 where "c2 = (if background c1 \<and> verbosity c1 \<noteq> 0 then c1\<lparr>verbosity := 0\<rparr> else c1)"
  have ok2: "settings_ok prio c2" using ok by (simp add: c1_def c2_def)
  have "cfg' \<in> {c2\<lparr>plot_filename := None, plot_stdout := False\<rparr>, c2\<lparr>histogram_cells := 200\<rparr>, c2}"
    using assms(1) unfolding settle_output_def Let_def c1_def[symmetric] c2_def[symmetric]
    by (simp split: if_splits)
  then show ?thesis using ok2 limited(7)[OF ok2, of 200] by auto
qed

lemma tests_preserve:
  assumes "settle_tests cfg = Inr cfg'" and ok: "settings_ok prio cfg"
  shows "settings_ok prio cfg' \<and> (if tuning cfg' then tuned cfg' \<noteq> [] else tests_set cfg' = 1)"
proof -
  note bits = settings_bits(1-4)[OF ok]
  show ?thesis
  proof (cases "any_test cfg")
    case False
    then show ?thesis
      using assms(1) limited(3)[OF ok] limited(3)[OF limited(2)[OF limited(1)[OF ok]]]
      by (auto simp: settle_tests_def any_test_def tests_set_def to_bool_def tuned_def split: if_splits)
  next
    case True
    have "tests_set cfg \<ge> 1" using True bits unfolding any_test_def tests_set_def to_bool_def
      by (smt (verit))
    then show ?thesis
      using assms True unfolding settle_tests_def any_test_def tuned_def by (auto split: if_split_asm)
  qed
qed

lemma needs_same: "check_needs dev cfg = Inr cfg' \<Longrightarrow> cfg' = cfg \<and> (test_netlat cfg \<noteq> 0 \<longrightarrow> local_netif cfg \<noteq> None)"
  by (auto simp: check_needs_def split: if_splits)

lemma priority_same:
  "test_irqlat (settle_priority cfg) = test_irqlat cfg" "test_klat (settle_priority cfg) = test_klat cfg"
  "test_ulat (settle_priority cfg) = test_ulat cfg" "test_sirqlat (settle_priority cfg) = test_sirqlat cfg"
  "test_gpiolat (settle_priority cfg) = test_gpiolat cfg" "test_netlat (settle_priority cfg) = test_netlat cfg"
  "tuning (settle_priority cfg) = tuning cfg" "local_netif (settle_priority cfg) = local_netif cfg"
  "period_usecs (settle_priority cfg) = period_usecs cfg" "histogram_cells (settle_priority cfg) = histogram_cells cfg"
  "lm_timeout (settle_priority cfg) = lm_timeout cfg"
  by (simp_all add: settle_priority_def)

lemma priority_preserves: "settings_ok prio cfg \<Longrightarrow> settings_ok prio (settle_priority cfg)"
  by (auto simp: settings_ok_def settle_priority_def)

text \<open>The CPU that is chosen exists.\<close>

lemma cpu_word: "i < CPU_SETSIZE \<Longrightarrow> sint (of_nat i :: s32) = int i"
  by (simp add: CPU_SETSIZE_def sint_uint uint_nat unat_of_nat signed_take_bit_int_eq_self)

lemma first_cpu_range: "first_cpu s = Some i \<Longrightarrow> i < CPU_SETSIZE"
  by (auto simp: first_cpu_def find_Some_iff)

lemma determined_range:
  assumes "sint cpu < int CPU_SETSIZE" and "force \<longrightarrow> 0 \<le> sint cpu" and "here < CPU_SETSIZE"
  shows "0 \<le> sint (fst (determine_responder_cpu inband force isol oob here cpu))
    \<and> sint (fst (determine_responder_cpu inband force isol oob here cpu)) < int CPU_SETSIZE"
proof -
  have iso: "0 \<le> sint (pick_isolated isol here cpu) \<and> sint (pick_isolated isol here cpu) < int CPU_SETSIZE"
    using assms(1,3) by (auto simp: pick_isolated_def cpu_word first_cpu_range split: option.split)
  then have oob: "0 \<le> sint (pick_oob isol oob here cpu) \<and> sint (pick_oob isol oob here cpu) < int CPU_SETSIZE"
    by (auto simp: pick_oob_def cpu_word first_cpu_range split: option.split)
  show ?thesis
  proof (cases "first_cpu (isol \<inter> oob)")
    case None
    then show ?thesis using iso oob assms(1,2) by (simp add: determine_responder_cpu_def Let_def)
  next
    case (Some i)
    then show ?thesis using iso oob assms(1,2) cpu_word[OF first_cpu_range[OF Some]] first_cpu_range[OF Some]
      by (simp add: determine_responder_cpu_def Let_def)
  qed
qed

lemma cpu_preserves:
  assumes "settings_ok prio cfg" and "current_cpu env < CPU_SETSIZE"
  shows "settings_ok prio (settle_cpu env cfg) \<and> 0 \<le> sint (responder_cpu (settle_cpu env cfg))"
proof -
  from assms(1) have "sint (responder_cpu cfg) < int CPU_SETSIZE" "force_cpu cfg \<longrightarrow> 0 \<le> sint (responder_cpu cfg)"
    by (simp_all add: settings_ok_def)
  from determined_range[OF this assms(2)] limited[OF assms(1)] show ?thesis by (simp add: settle_cpu_def)
qed

lemma later_same_cpu:
  "settle_output pok cfg = Inr cfg' \<Longrightarrow> responder_cpu cfg' = responder_cpu cfg"
  "settle_tests cfg = Inr cfg' \<Longrightarrow> responder_cpu cfg' = responder_cpu cfg"
  "responder_cpu (settle_priority cfg) = responder_cpu cfg"
  by (auto simp: settle_output_def settle_tests_def settle_priority_def Let_def split: if_splits)

text \<open>The settings the program starts with.\<close>

lemma main_settings:
  assumes "latmus_main env opts n = Inr (cfg, contexts)" and "current_cpu env < CPU_SETSIZE"
  obtains "n = 0" "0 \<le> sint (responder_cpu cfg)" "settings_ok (max_prio env) cfg" "tuning cfg \<Longrightarrow> contexts = tuned cfg \<and> contexts \<noteq> []"
    "\<not> tuning cfg \<Longrightarrow> contexts = [context_type cfg] \<and> tests_set cfg = 1"
    "test_netlat cfg \<noteq> 0 \<Longrightarrow> local_netif cfg \<noteq> None"
proof -
  obtain c1 c2 c3 where c: "latmus_options (max_prio env) opts latmus_defaults = Inr c1" "n = 0"
    "settle_output (plot_ok env) (settle_cpu env c1) = Inr c2" "settle_tests c2 = Inr c3"
    "check_needs (device_ok env) c3 = Inr c3" "cfg = settle_priority c3"
    "contexts = (if tuning cfg then tuned cfg else [context_type cfg])"
    using assms(1) needs_same by (fastforce simp: latmus_main_def Let_def split: sum.splits if_splits)
  note cpu = cpu_preserves[OF options_preserve[OF c(1) defaults_ok] assms(2)]
  have ok: "settings_ok (max_prio env) c2" using output_preserves[OF c(3)] cpu by simp
  note end_ok = tests_preserve[OF c(4) ok]
  have same: "tests_set cfg = tests_set c3" "tuned cfg = tuned c3" "tuning cfg = tuning c3"
    by (simp_all add: c(6) tests_set_def tuned_def priority_same)
  show ?thesis
  proof (rule that)
    show "n = 0" by (rule c(2))
    show "0 \<le> sint (responder_cpu cfg)"
      using cpu later_same_cpu(1)[OF c(3)] later_same_cpu(2)[OF c(4)] by (simp add: c(6) later_same_cpu(3))
    show "settings_ok (max_prio env) cfg" using end_ok by (simp add: c(6) priority_preserves)
    show "contexts = tuned cfg \<and> contexts \<noteq> []" if "tuning cfg" using end_ok that by (simp add: c(7) same)
    show "contexts = [context_type cfg] \<and> tests_set cfg = 1" if "\<not> tuning cfg"
      using end_ok that by (simp add: c(7) same)
    show "local_netif cfg \<noteq> None" if "test_netlat cfg \<noteq> 0"
      using needs_same[OF c(5)] that by (simp add: c(6) priority_same)
  qed
qed

lemma one_test_context:
  assumes ok: "settings_ok prio cfg" and one: "tests_set cfg = 1"
  shows "context_type cfg \<notin> {EVL_LAT_OOB_GPIO, EVL_LAT_INBAND_GPIO}"
    "context_type cfg = EVL_LAT_NET \<longleftrightarrow> test_netlat cfg \<noteq> 0"
proof -
  note gpio = settings_bits(5)[OF ok]
  note bits = settings_bits(1-4)[OF ok]
  show "context_type cfg \<notin> {EVL_LAT_OOB_GPIO, EVL_LAT_INBAND_GPIO}"
    by (simp add: context_type_def gpio INBAND_MODE_def OOB_MODE_def)
  show "context_type cfg = EVL_LAT_NET \<longleftrightarrow> test_netlat cfg \<noteq> 0"
    using bits one unfolding tests_set_def to_bool_def context_type_def gpio INBAND_MODE_def OOB_MODE_def
    by (smt (verit) lat_context.distinct)
qed

text \<open>
  C17. Whatever the options are: if the latency test gets as far as its tests, its settings are within the limits of the code (period, histogram, priority, time limit, threshold, and the CPU of the responder, which is one that exists if the
  current one is); in
  measurement mode exactly one test is selected and runs; in tuning mode only the three timer contexts are tuned, and at
  least one of them; a network test has its interface. The test on GPIO lines is in neither case among what runs: no option
  selects it.
\<close>

theorem latmus_selects:
  assumes "latmus_main env opts nr_args = Inr (cfg, contexts)" and "current_cpu env < CPU_SETSIZE"
  shows "settings_ok (max_prio env) cfg \<and> 0 \<le> sint (responder_cpu cfg)
     \<and> (if tuning cfg then contexts \<noteq> [] \<and> distinct contexts \<and> set contexts \<subseteq> {EVL_LAT_IRQ, EVL_LAT_KERN, EVL_LAT_USER}
        else contexts = [context_type cfg] \<and> tests_set cfg = 1
          \<and> (context_type cfg = EVL_LAT_NET \<longleftrightarrow> test_netlat cfg \<noteq> 0))
     \<and> (test_netlat cfg = 0 \<or> local_netif cfg \<noteq> None)
     \<and> EVL_LAT_OOB_GPIO \<notin> set contexts \<and> EVL_LAT_INBAND_GPIO \<notin> set contexts"
proof -
  obtain "nr_args = 0" and cpu: "0 \<le> sint (responder_cpu cfg)" and ok: "settings_ok (max_prio env) cfg"
    and tune: "tuning cfg \<Longrightarrow> contexts = tuned cfg \<and> contexts \<noteq> []"
    and meas: "\<not> tuning cfg \<Longrightarrow> contexts = [context_type cfg] \<and> tests_set cfg = 1"
    and net: "test_netlat cfg \<noteq> 0 \<Longrightarrow> local_netif cfg \<noteq> None"
    using assms by (rule main_settings) blast
  have one: "context_type cfg \<notin> {EVL_LAT_OOB_GPIO, EVL_LAT_INBAND_GPIO} \<and> (context_type cfg = EVL_LAT_NET \<longleftrightarrow> test_netlat cfg \<noteq> 0)"
    if "\<not> tuning cfg"
    using one_test_context[OF ok] meas[OF that] by auto
  show ?thesis
  proof (cases "tuning cfg")
    case True
    then show ?thesis using cpu ok tune[OF True] net by (auto simp: tuned_def)
  next
    case False
    then show ?thesis using cpu ok meas[OF False] one[OF False] net by auto
  qed
qed

theorem latmus_selects_witness:
  "\<exists>cfg. latmus_main \<lparr>max_prio = 99, isolated_file = Some ''3'', oob_file = None, current_cpu = 0, plot_ok = True, device_ok = False\<rparr>
       [Opt (CHR ''Z'') (Some ''host''), Opt (CHR ''L'') (Some ''eth0'')] 0 = Inr (cfg, [EVL_LAT_NET])
     \<and> settings_ok 99 cfg"
proof -
  let ?env = "\<lparr>max_prio = 99, isolated_file = Some ''3'', oob_file = None, current_cpu = 0, plot_ok = True, device_ok = False\<rparr>"
  let ?opts = "[Opt (CHR ''Z'') (Some ''host''), Opt (CHR ''L'') (Some ''eth0'')]"
  obtain cfg where cfg: "latmus_main ?env ?opts 0 = Inr (cfg, [EVL_LAT_NET])"
    by (simp add: latmus_main_def latmus_option_def latmus_defaults_def settle_cpu_def settle_output_def settle_tests_def
        any_test_def tests_set_def to_bool_def check_needs_def settle_priority_def context_type_def OOB_MODE_def INBAND_MODE_def Let_def)
  show ?thesis using latmus_selects[OF cfg] cfg by (auto simp: CPU_SETSIZE_def)
qed

text \<open>The documented short forms of the four timer tests and \<^verbatim>\<open>-S\<close> end the program.\<close>

lemma short_options_refused:
  "c \<in> set ''ikusS'' \<Longrightarrow> latmus_option prio (Opt c arg) cfg = Inl 1"
  unfolding list.set insert_iff empty_iff by (elim disjE FalseE) (simp_all add: latmus_option_def)

section \<open>Records from the monitor\<close>

text \<open>If no call receives more than it asks for, a positive result is the whole record.\<close>

lemma read_net_data_whole:
  "\<lbrakk>read_net_data len got steps = Some n; 0 < n; got < len;
    \<And>k. k < length steps \<Longrightarrow> got + (\<Sum>(p, r) \<leftarrow> take (Suc k) steps. nat r) \<le> len\<rbrakk>
   \<Longrightarrow> n = int len"
proof (induction len got steps rule: read_net_data.induct)
  case (2 len got p r rest)
  have first: "got + nat r \<le> len" using "2.prems"(4)[of 0] by simp
  show ?case
  proof (cases "0 < p \<and> 0 < r \<and> got + nat r < len")
    case True
    have later: "got + nat r + (\<Sum>(p, r) \<leftarrow> take (Suc k) rest. nat r) \<le> len" if "k < length rest" for k
      using "2.prems"(4)[of "Suc k"] that by simp
    show ?thesis
      by (rule "2.IH"[of "got + nat r"]) (use True later "2.prems" in \<open>simp_all add: Let_def\<close>)
  next
    case False
    then show ?thesis using "2.prems"(1,2) first by (simp add: ETIMEDOUT_def Let_def split: if_split_asm)
  qed
qed simp

end
