(* ===== verification/Latmus_Gpio.thy ===== *)
theory Latmus_Gpio
  imports Latmus
begin

text \<open>
  The logger of the GPIO test in \<^verbatim>\<open>latmus/gpio.c\<close>: the records the remote monitor sends, in network
  byte order, and the histogram at the end.  \<open>ntohl\<close> is the function of the C library; the results of
  \<^verbatim>\<open>read_net_data\<close> are arguments.
\<close>

record net_data =
  sum_lat_hi :: u32
  sum_lat_lo :: u32
  nd_min_lat :: u32
  nd_max_lat :: u32
  nd_overruns :: u32
  nd_samples :: u32

definition decode_bulk :: "(u32 \<Rightarrow> u32) \<Rightarrow> net_data \<Rightarrow> measurement" where
  "decode_bulk ntohl d =
     \<lparr>sum_lat = push_bit 32 (ucast (ntohl (sum_lat_hi d))) OR ucast (ntohl (sum_lat_lo d)),
      min_lat = ntohl (nd_min_lat d), max_lat = ntohl (nd_max_lat d),
      meas_overruns = ntohl (nd_overruns d), meas_samples = ntohl (nd_samples d)\<rparr>"

text \<open>
  The loop on the records: \<open>None\<close> if they run out, \<open>Inl\<close> the status the program exits with; the flag says that the monitor is
  unresponsive.
\<close>

fun log_records :: "(u32 \<Rightarrow> u32) \<Rightarrow> int \<Rightarrow> u64 \<Rightarrow> (int \<times> net_data) list \<Rightarrow> statistics \<Rightarrow> (int + statistics \<times> bool) option" where
  "log_records ntohl threshold elapsed [] st = None"
| "log_records ntohl threshold elapsed ((ret, d) # rs) st =
     (if ret \<le> 0 then Some (Inr (st, True))
      else if nd_samples d = 0 then Some (Inr (st, False))
      else case log_results more_timer_data threshold elapsed st (decode_bulk ntohl d) of
        None \<Rightarrow> None
      | Some (Inl code) \<Rightarrow> Some (Inl code)
      | Some (Inr st) \<Rightarrow> log_records ntohl threshold elapsed rs st)"

definition sock_logger_thread :: "(u32 \<Rightarrow> u32) \<Rightarrow> int \<Rightarrow> u64 \<Rightarrow> (int \<times> net_data) list \<Rightarrow> int \<times> s32 list \<Rightarrow> statistics
    \<Rightarrow> (int + statistics \<times> bool) option" where
  "sock_logger_thread ntohl threshold elapsed rs cells st =
     (case log_records ntohl threshold elapsed rs st of
        Some (Inr (st, False)) \<Rightarrow>
          Some (Inr (case histogram st of None \<Rightarrow> (st, False)
            | Some h \<Rightarrow> (if fst cells \<le> 0 then (st, True) else (st\<lparr>histogram := Some (map ntohl (snd cells))\<rparr>, False))))
      | r \<Rightarrow> r)"

text \<open>A measurement the monitor sends is the one that is logged.\<close>

definition encode_bulk :: "(u32 \<Rightarrow> u32) \<Rightarrow> measurement \<Rightarrow> net_data" where
  "encode_bulk htonl m =
     \<lparr>sum_lat_hi = htonl (ucast (drop_bit 32 (sum_lat m))), sum_lat_lo = htonl (ucast (sum_lat m)),
      nd_min_lat = htonl (min_lat m), nd_max_lat = htonl (max_lat m),
      nd_overruns = htonl (meas_overruns m), nd_samples = htonl (meas_samples m)\<rparr>"

lemma halves64: "push_bit 32 (ucast (ucast (drop_bit 32 x) :: u32)) OR ucast (ucast x :: u32) = (x :: u64)"
  by (rule bit_word_eqI) (auto simp: bit_simps)

lemma decode_encode: "(\<And>x. ntohl (htonl x) = x) \<Longrightarrow> decode_bulk ntohl (encode_bulk htonl m) = m"
  by (cases m) (simp add: decode_bulk_def encode_bulk_def halves64)

text \<open>
  Bulks of real samples, sent by the monitor and followed by an empty record, are all logged: the
  statistics are those of merging them one by one.
\<close>

lemma records_logged:
  assumes "\<And>x. ntohl (htonl x) = x" and "htonl 0 = 0"
    and "\<forall>m\<in>set ms. meas_samples m \<noteq> 0 \<and> (\<forall>st. log_results more_timer_data 0 t st m = Some (merge_results 0 t st m))"
    and "nd_samples d = 0"
  shows "log_records ntohl 0 t (map (\<lambda>m. (24, encode_bulk htonl m)) ms @ [(24, d)]) st
    = Some (Inr (foldl (\<lambda>st m. projr (merge_results 0 t st m)) st ms, False))"
  using assms(3)
proof (induction ms arbitrary: st)
  case (Cons m ms)
  have "nd_samples (encode_bulk htonl m) \<noteq> 0"
  proof
    assume "nd_samples (encode_bulk htonl m) = 0"
    then have "htonl (meas_samples m) = htonl 0" by (simp add: encode_bulk_def assms(2))
    then have "meas_samples m = 0" using assms(1) by metis
    then show False using Cons.prems by simp
  qed
  moreover obtain st' where "merge_results 0 t st m = Inr st'" by (simp add: merge_results_def Let_def)
  ultimately show ?case using Cons by (simp add: decode_encode[of ntohl htonl, OF assms(1)])
qed (simp add: assms(4))

end
